(* ===== verification/Volt_Prelude.thy ===== *)
theory Volt_Prelude
  imports Main
begin

text \<open>
  The vocabulary the component theories share.

  \<^item> Fallible code: a TypeScript function that throws returns \<open>'e + 'a\<close>, with \<open>Inl\<close> for the
    thrown error. \<open>res_bind\<close> sequences two such steps and \<open>res_fold\<close> is a loop that stops at the
    first throw.
  \<^item> JavaScript \<open>Map\<close> objects iterate in insertion order and overwrite in place, so they are
    association lists (\<open>js_map\<close>) with the operations \<open>js_get\<close>, \<open>js_set\<close> and \<open>js_delete\<close>; the
    interface the clients rely on is the locale \<open>insertion_map\<close>.
  \<^item> Two loops that occur in several components: insertion of an element before the first one with
    a greater key (\<open>insert_by\<close>), and a stable sort by a numeric key (\<open>sort_key\<close> of the library).
  \<^item> The string functions of the language the sources use.
\<close>

named_theorems js_map_simps \<open>equations of the insertion-ordered maps\<close>
named_theorems res_simps \<open>equations of the error monad\<close>

section \<open>Fallible steps\<close>

fun res_bind :: "'e + 'a \<Rightarrow> ('a \<Rightarrow> 'e + 'b) \<Rightarrow> 'e + 'b" where
  "res_bind (Inl e) f = Inl e"
| "res_bind (Inr a) f = f a"

fun res_fold :: "('s \<Rightarrow> 'a \<Rightarrow> 'e + 's) \<Rightarrow> 's \<Rightarrow> 'a list \<Rightarrow> 'e + 's" where
  "res_fold f s [] = Inr s"
| "res_fold f s (x # xs) = res_bind (f s x) (\<lambda>s'. res_fold f s' xs)"

lemma res_bind_Inr_iff [res_simps]:
  "res_bind r f = Inr b \<longleftrightarrow> (\<exists>a. r = Inr a \<and> f a = Inr b)"
  by (cases r) auto

lemma res_bind_Inl_iff [res_simps]:
  "res_bind r f = Inl e \<longleftrightarrow> r = Inl e \<or> (\<exists>a. r = Inr a \<and> f a = Inl e)"
  by (cases r) auto

lemma res_bind_assoc: "res_bind (res_bind r f) g = res_bind r (\<lambda>a. res_bind (f a) g)"
  by (cases r) auto

lemma res_bind_cong [fundef_cong]:
  "r = r' \<Longrightarrow> (\<And>a. r' = Inr a \<Longrightarrow> f a = f' a) \<Longrightarrow> res_bind r f = res_bind r' f'"
  by (cases r') auto

lemma res_fold_append:
  "res_fold f s (xs @ ys) = res_bind (res_fold f s xs) (\<lambda>s'. res_fold f s' ys)"
  by (induction xs arbitrary: s) (auto simp: res_bind_assoc)

lemma res_fold_snoc:
  "res_fold f s (xs @ [x]) = Inr t \<longleftrightarrow> (\<exists>u. res_fold f s xs = Inr u \<and> f u x = Inr t)"
  by (auto simp: res_fold_append res_simps)

text \<open>The invariant rule of the loop: what every step keeps, the whole loop keeps.\<close>

lemma res_fold_invariant:
  assumes "res_fold f s xs = Inr t" and "P s"
    and "\<And>u x u'. P u \<Longrightarrow> f u x = Inr u' \<Longrightarrow> P u'"
  shows "P t"
  using assms(1,2)
  by (induction xs arbitrary: s) (auto simp: res_simps intro: assms(3))

section \<open>Snapshots of a fold\<close>

text \<open>
  The contract a snapshot of a fold has to meet, and what a reader that starts from a snapshot and
  folds the rest of the log may rely on.
\<close>

locale replay_fold =
  fixes step :: "'s \<Rightarrow> 'a \<Rightarrow> 'e + 's"
    and start :: 's
    and snap :: "'s \<Rightarrow> 'v"
    and rest :: "'v \<Rightarrow> 'r + 's"
    and inv :: "'s \<Rightarrow> bool"
  assumes inv_start: "inv start"
    and inv_step: "inv s \<Longrightarrow> step s a = Inr s' \<Longrightarrow> inv s'"
    and rest_snap: "inv s \<Longrightarrow> rest (snap s) = Inr s"
begin

lemma fold_inv: "res_fold step start xs = Inr s \<Longrightarrow> inv s"
  by (erule res_fold_invariant) (auto intro: inv_start inv_step)

lemma restore_fold: "res_fold step start xs = Inr s \<Longrightarrow> rest (snap s) = Inr s"
  by (intro rest_snap fold_inv)

text \<open>Restoring a prefix and folding the tail is folding the whole list, errors included.\<close>

lemma resume:
  assumes "res_fold step start xs = Inr s" and "rest (snap s) = Inr s'"
  shows "res_fold step s' ys = res_fold step start (xs @ ys)"
  using assms restore_fold [OF assms(1)] by (simp add: res_fold_append)

end

section \<open>Insertion-ordered maps\<close>

type_synonym ('k, 'v) js_map = "('k \<times> 'v) list"

definition js_get :: "('k, 'v) js_map \<Rightarrow> 'k \<Rightarrow> 'v option" where
  "js_get m k = map_of m k"

definition js_has :: "('k, 'v) js_map \<Rightarrow> 'k \<Rightarrow> bool" where
  "js_has m k \<longleftrightarrow> js_get m k \<noteq> None"

fun js_set :: "('k, 'v) js_map \<Rightarrow> 'k \<Rightarrow> 'v \<Rightarrow> ('k, 'v) js_map" where
  "js_set [] k v = [(k, v)]"
| "js_set ((k', v') # m) k v = (if k' = k then (k, v) # m else (k', v') # js_set m k v)"

definition js_delete :: "('k, 'v) js_map \<Rightarrow> 'k \<Rightarrow> ('k, 'v) js_map" where
  "js_delete m k = filter (\<lambda>p. fst p \<noteq> k) m"

definition js_keys :: "('k, 'v) js_map \<Rightarrow> 'k list" where
  "js_keys m = map fst m"

definition js_values :: "('k, 'v) js_map \<Rightarrow> 'v list" where
  "js_values m = map snd m"

text \<open>\<open>new Map(pairs)\<close>: the pairs set one after the other.\<close>

definition js_map_of :: "('k \<times> 'v) list \<Rightarrow> ('k, 'v) js_map" where
  "js_map_of ps = foldl (\<lambda>m p. js_set m (fst p) (snd p)) [] ps"

lemma js_get_empty [simp]: "js_get [] k = None"
  by (simp add: js_get_def)

lemma js_has_empty [simp]: "\<not> js_has [] k"
  by (simp add: js_has_def)

lemma js_get_set [js_map_simps]:
  "js_get (js_set m k v) k' = (if k' = k then Some v else js_get m k')"
  by (induction m k v rule: js_set.induct) (auto simp: js_get_def)

lemma js_get_delete [js_map_simps]:
  "js_get (js_delete m k) k' = (if k' = k then None else js_get m k')"
  by (induction m) (auto simp: js_get_def js_delete_def)

lemma js_has_iff_keys: "js_has m k \<longleftrightarrow> k \<in> set (js_keys m)"
  by (induction m) (auto simp: js_has_def js_get_def js_keys_def)

lemma js_get_None_iff: "js_get m k = None \<longleftrightarrow> k \<notin> set (js_keys m)"
  using js_has_iff_keys [of m k] by (auto simp: js_has_def)

lemma js_get_Some_key: "js_get m k = Some v \<Longrightarrow> k \<in> set (js_keys m)"
  using js_get_None_iff [of m k] by fastforce

lemma js_has_set [js_map_simps]: "js_has (js_set m k v) k' \<longleftrightarrow> k' = k \<or> js_has m k'"
  by (simp add: js_has_def js_get_set)

lemma js_set_fresh: "k \<notin> set (js_keys m) \<Longrightarrow> js_set m k v = m @ [(k, v)]"
  by (induction m k v rule: js_set.induct) (auto simp: js_keys_def)

lemma js_keys_set [js_map_simps]:
  "js_keys (js_set m k v) = (if k \<in> set (js_keys m) then js_keys m else js_keys m @ [k])"
  by (induction m k v rule: js_set.induct) (auto simp: js_keys_def)

lemma js_keys_delete [js_map_simps]: "js_keys (js_delete m k) = filter (\<lambda>x. x \<noteq> k) (js_keys m)"
  by (induction m) (auto simp: js_keys_def js_delete_def)

lemma js_keys_append [simp]: "js_keys (m @ n) = js_keys m @ js_keys n"
  by (simp add: js_keys_def)

lemma js_keys_Cons [simp]: "js_keys (p # m) = fst p # js_keys m"
  by (simp add: js_keys_def)

lemma js_keys_Nil [simp]: "js_keys [] = []"
  by (simp add: js_keys_def)

lemma js_values_append [simp]: "js_values (m @ n) = js_values m @ js_values n"
  by (simp add: js_values_def)

lemma js_values_Cons [simp]: "js_values (p # m) = snd p # js_values m"
  by (simp add: js_values_def)

lemma js_values_Nil [simp]: "js_values [] = []"
  by (simp add: js_values_def)

lemma length_js_values [simp]: "length (js_values m) = length m"
  by (simp add: js_values_def)

lemma distinct_js_keys_set: "distinct (js_keys m) \<Longrightarrow> distinct (js_keys (js_set m k v))"
  by (simp add: js_keys_set)

lemma js_get_append:
  "js_get (m @ n) k = (case js_get m k of None \<Rightarrow> js_get n k | Some v \<Rightarrow> Some v)"
  by (simp add: js_get_def map_add_def split: option.split)

lemma js_get_Cons: "js_get ((k, v) # m) k' = (if k' = k then Some v else js_get m k')"
  by (simp add: js_get_def)

lemma js_get_value: "js_get m k = Some v \<Longrightarrow> v \<in> set (js_values m)"
  by (auto simp: js_get_def js_values_def dest!: map_of_SomeD intro: rev_image_eqI)

lemma js_get_mem: "distinct (js_keys m) \<Longrightarrow> (k, v) \<in> set m \<Longrightarrow> js_get m k = Some v"
  by (simp add: js_get_def js_keys_def)

lemma js_get_mem_iff: "distinct (js_keys m) \<Longrightarrow> js_get m k = Some v \<longleftrightarrow> (k, v) \<in> set m"
  by (simp add: js_get_def js_keys_def)

lemma js_map_of_snoc: "js_map_of (ps @ [(k, v)]) = js_set (js_map_of ps) k v"
  by (simp add: js_map_of_def)

text \<open>A map whose keys are distinct is rebuilt from its own pairs.\<close>

lemma js_map_of_id: "distinct (js_keys ps) \<Longrightarrow> js_map_of ps = ps"
proof (induction ps rule: rev_induct)
  case Nil
  show ?case by (simp add: js_map_of_def)
next
  case (snoc p ps)
  then have "js_map_of ps = ps" and "fst p \<notin> set (js_keys ps)" by auto
  then show ?case
    by (cases p) (simp add: js_map_of_snoc js_set_fresh)
qed

text \<open>Replacing the value of a present key changes exactly the pairs of that key.\<close>

lemma js_set_present:
  "k \<in> set (js_keys m) \<Longrightarrow> distinct (js_keys m) \<Longrightarrow>
   js_set m k v = map (\<lambda>p. if fst p = k then (k, v) else p) m"
proof (induction m k v rule: js_set.induct)
  case (1 k v)
  then show ?case by simp
next
  case (2 k' v' m k v)
  show ?case
  proof (cases "k' = k")
    case True
    with "2.prems" have "k \<notin> set (js_keys m)" by auto
    then have "map (\<lambda>p. if fst p = k then (k, v) else p) m = m"
      by (intro map_idI) (auto simp: js_keys_def)
    with True show ?thesis by simp
  next
    case False
    with 2 show ?thesis by simp
  qed
qed

text \<open>
  What the components rely on: a lookup sees the last write and nothing else, an overwritten key
  keeps its place, and a new key comes last.
\<close>

locale insertion_map =
  fixes get :: "'m \<Rightarrow> 'k \<Rightarrow> 'v option"
    and put :: "'m \<Rightarrow> 'k \<Rightarrow> 'v \<Rightarrow> 'm"
    and del :: "'m \<Rightarrow> 'k \<Rightarrow> 'm"
    and ks :: "'m \<Rightarrow> 'k list"
  assumes get_put: "get (put m k v) k' = (if k' = k then Some v else get m k')"
    and get_del: "get (del m k) k' = (if k' = k then None else get m k')"
    and ks_put: "ks (put m k v) = (if k \<in> set (ks m) then ks m else ks m @ [k])"
    and ks_del: "ks (del m k) = filter (\<lambda>x. x \<noteq> k) (ks m)"
    and get_None: "get m k = None \<longleftrightarrow> k \<notin> set (ks m)"
begin

lemma put_put_get: "get (put (put m k v) k w) = get (put m k w)"
  by (auto simp: get_put)

lemma del_put_get: "get (del (put m k v) k) = get (del m k)"
  by (auto simp: get_put get_del)

lemma put_other: "k' \<noteq> k \<Longrightarrow> get (put m k v) k' = get m k'"
  by (simp add: get_put)

lemma distinct_put: "distinct (ks m) \<Longrightarrow> distinct (ks (put m k v))"
  by (simp add: ks_put)

lemma distinct_del: "distinct (ks m) \<Longrightarrow> distinct (ks (del m k))"
  by (simp add: ks_del)

lemma ks_put_get: "get m k = Some w \<Longrightarrow> ks (put m k v) = ks m"
  using get_None [of m k] by (auto simp: ks_put)

lemma ks_put_fresh: "get m k = None \<Longrightarrow> ks (put m k v) = ks m @ [k]"
  using get_None [of m k] by (auto simp: ks_put)

end

interpretation js: insertion_map js_get js_set js_delete js_keys
  by unfold_locales (simp_all add: js_map_simps js_get_None_iff)

section \<open>Insertion before the first greater element\<close>

text \<open>
  The queue updates of the kernel fold and of the client fold: \<open>findIndex\<close> of the first element
  with a greater key, then \<open>splice\<close> at that index, or at the end when there is none.
\<close>

fun insert_by :: "('a \<Rightarrow> nat) \<Rightarrow> 'a \<Rightarrow> 'a list \<Rightarrow> 'a list" where
  "insert_by f x [] = [x]"
| "insert_by f x (y # ys) = (if f x < f y then x # y # ys else y # insert_by f x ys)"

lemma set_insert_by [simp]: "set (insert_by f x xs) = insert x (set xs)"
  by (induction xs) auto

lemma insert_by_cong:
  "(\<And>y. y \<in> set xs \<Longrightarrow> f y = g y) \<Longrightarrow> f x = g x \<Longrightarrow> insert_by f x xs = insert_by g x xs"
  by (induction xs) auto

lemma distinct_insert_by: "distinct (insert_by f x xs) \<longleftrightarrow> x \<notin> set xs \<and> distinct xs"
  by (induction xs) auto

lemma map_insert_by: "map f (insert_by (\<lambda>x. g (f x)) x xs) = insert_by g (f x) (map f xs)"
  by (induction xs) auto

lemma filter_insert_by_neq:
  "\<not> P x \<Longrightarrow> filter P (insert_by f x xs) = filter P xs"
  by (induction xs) auto

definition sorted_by :: "('a \<Rightarrow> nat) \<Rightarrow> 'a list \<Rightarrow> bool" where
  "sorted_by f xs \<longleftrightarrow> sorted_wrt (\<lambda>x y. f x < f y) xs"

lemma sorted_by_Nil [simp]: "sorted_by f []"
  by (simp add: sorted_by_def)

lemma sorted_by_Cons [simp]: "sorted_by f (x # xs) \<longleftrightarrow> (\<forall>y\<in>set xs. f x < f y) \<and> sorted_by f xs"
  by (simp add: sorted_by_def)

lemma sorted_by_append:
  "sorted_by f (xs @ ys) \<longleftrightarrow>
   sorted_by f xs \<and> sorted_by f ys \<and> (\<forall>x\<in>set xs. \<forall>y\<in>set ys. f x < f y)"
  by (auto simp: sorted_by_def sorted_wrt_append)

lemma sorted_by_filter: "sorted_by f xs \<Longrightarrow> sorted_by f (filter P xs)"
  by (induction xs) auto

lemma sorted_by_cong: "(\<And>x. x \<in> set xs \<Longrightarrow> f x = g x) \<Longrightarrow> sorted_by f xs = sorted_by g xs"
  by (induction xs) auto

lemma sorted_by_insert_by:
  "sorted_by f xs \<Longrightarrow> (\<And>y. y \<in> set xs \<Longrightarrow> f y \<noteq> f x) \<Longrightarrow> sorted_by f (insert_by f x xs)"
proof (induction xs)
  case Nil
  then show ?case by simp
next
  case (Cons y ys)
  have "f x \<noteq> f y" using Cons.prems(2) [of y] by auto
  with Cons show ?case by (auto simp: neq_iff)
qed

lemma insert_by_last: "(\<And>y. y \<in> set xs \<Longrightarrow> f y \<le> f x) \<Longrightarrow> insert_by f x xs = xs @ [x]"
  by (induction xs) (auto simp: leD)

lemma sorted_by_distinct: "sorted_by f xs \<Longrightarrow> distinct xs"
  by (induction xs) auto

lemma sorted_by_sorted: "sorted_by f xs \<Longrightarrow> sorted (map f xs)"
  by (induction xs) (auto intro: less_imp_le)

lemma sorted_by_map: "sorted_by g (map f xs) \<longleftrightarrow> sorted_by (\<lambda>x. g (f x)) xs"
  by (induction xs) auto

lemma sorted_by_inj: "sorted_by f xs \<Longrightarrow> x \<in> set xs \<Longrightarrow> y \<in> set xs \<Longrightarrow> f x = f y \<Longrightarrow> x = y"
  by (induction xs) auto

text \<open>A strictly sorted list is determined by its elements, so it is the stable sort of any listing.\<close>

lemma sorted_by_unique:
  "sorted_by f xs \<Longrightarrow> sorted_by f ys \<Longrightarrow> set xs = set ys \<Longrightarrow> xs = ys"
proof (induction xs arbitrary: ys)
  case Nil
  then show ?case by simp
next
  case (Cons x xs)
  then obtain y ys' where ys: "ys = y # ys'" by (cases ys) auto
  have "x = y"
  proof (rule ccontr)
    assume "x \<noteq> y"
    with Cons.prems ys have "y \<in> set xs" and "x \<in> set ys'" by auto
    with Cons.prems ys have "f x < f y" and "f y < f x" by auto
    then show False by simp
  qed
  moreover from Cons.prems ys have "x \<notin> set xs" and "y \<notin> set ys'" by auto
  ultimately have "set xs = set ys'" using Cons.prems(3) ys by auto
  with Cons ys \<open>x = y\<close> show ?case by auto
qed

lemma sorted_by_sort_key: "distinct (map f xs) \<Longrightarrow> sorted_by f (sort_key f xs)"
proof -
  assume "distinct (map f xs)"
  then have "distinct (map f (sort_key f xs))" by (simp add: distinct_map)
  then have "sorted_wrt (<) (map f (sort_key f xs))" by (simp add: strict_sorted_iff)
  then show ?thesis by (simp add: sorted_by_def sorted_wrt_map)
qed

lemma sort_key_sorted_by:
  assumes "sorted_by f ys" and "set xs = set ys" and "distinct xs"
  shows "sort_key f xs = ys"
proof -
  have inj: "inj_on f (set xs)"
  proof (rule inj_onI)
    fix a b assume "a \<in> set xs" "b \<in> set xs" "f a = f b"
    with assms(1,2) show "a = b"
      by (induction ys arbitrary: xs) (auto dest: spec)
  qed
  have "sorted (map f (sort_key f xs))" by simp
  moreover have "distinct (map f (sort_key f xs))"
    using inj assms(3) by (simp add: distinct_map)
  ultimately have "sorted_wrt (<) (map f (sort_key f xs))"
    by (simp add: strict_sorted_iff)
  then have "sorted_by f (sort_key f xs)"
    by (simp add: sorted_by_def sorted_wrt_map)
  then show ?thesis
    using assms by (intro sorted_by_unique) auto
qed

section \<open>First matching index\<close>

text \<open>\<open>Array.prototype.findIndex\<close>, with \<open>None\<close> for \<open>-1\<close>.\<close>

fun find_index :: "('a \<Rightarrow> bool) \<Rightarrow> 'a list \<Rightarrow> nat option" where
  "find_index P [] = None"
| "find_index P (x # xs) = (if P x then Some 0 else map_option Suc (find_index P xs))"

lemma find_index_None: "find_index P xs = None \<longleftrightarrow> (\<forall>x\<in>set xs. \<not> P x)"
  by (induction xs) auto

lemma find_index_append:
  "find_index P (xs @ ys) =
     (case find_index P xs of Some i \<Rightarrow> Some i
      | None \<Rightarrow> map_option (\<lambda>i. length xs + i) (find_index P ys))"
  by (cases "find_index P ys"; induction xs) (auto split: option.splits)

lemma find_index_less: "find_index P xs = Some i \<Longrightarrow> i < length xs \<and> P (xs ! i)"
  by (induction xs arbitrary: i) (auto split: if_splits)

section \<open>Strings of the language\<close>

text \<open>
  \<open>String.prototype.trim\<close> on the code units of \<open>char\<close>: tab, line feed, vertical tab, form feed,
  carriage return, space and the no-break space.
\<close>

definition js_whitespace :: "char \<Rightarrow> bool" where
  "js_whitespace c \<longleftrightarrow>
     (let n = of_char c :: nat in (9 \<le> n \<and> n \<le> 13) \<or> n = 32 \<or> n = 160)"

definition js_trim :: "string \<Rightarrow> string" where
  "js_trim s = rev (dropWhile js_whitespace (rev (dropWhile js_whitespace s)))"

text \<open>\<open>s?.trim() || null\<close>: nothing for a missing, empty or blank string.\<close>

definition trim_or_null :: "string option \<Rightarrow> string option" where
  "trim_or_null s =
     (case s of None \<Rightarrow> None
      | Some t \<Rightarrow> (if js_trim t = '''' then None else Some (js_trim t)))"

end
