(* ===== verification/Entries.thy ===== *)
theory Entries
  imports Volt_Prelude
begin

text \<open>
  The conversation log's data: the message roles a message entry stores
  (\<^verbatim>\<open>packages/ai/src/schemas.ts\<close>), the payloads and the envelope of the log entries
  (\<^verbatim>\<open>packages/protocol/src/entries.ts\<close>) and the product entries the kernel carries through
  (\<^verbatim>\<open>packages/agent/src/conversation/log.ts\<close>).

  An entry is an envelope record whose \<open>e_body\<close> is the payload, one constructor per stored type
  string; \<open>Product\<close> is a host-defined type. Values the kernel never reads (JSON data of a producer,
  planning snapshots, provider diagnostics) are \<open>json\<close>. Optional properties are \<open>option\<close>s. Counts and
  ordinals are \<open>nat\<close>; the sources bound them by \<open>Number.MAX_SAFE_INTEGER\<close>.
\<close>

section \<open>JSON data\<close>

datatype json =
    JNull
  | JBool bool
  | JNum int
  | JStr string
  | JArr "json list"
  | JObj "(string \<times> json) list"

type_synonym entry_id = string
type_synonym client_message_id = string
type_synonym work_id = string

definition max_safe_integer :: nat where
  "max_safe_integer = 9007199254740991"

section \<open>Messages\<close>

datatype content_block =
    TextContent string "string option"
  | ImageContent string string

datatype user_content = PlainText string | Blocks "content_block list"

datatype assistant_block =
    AText string "string option"
  | AThinking string "string option" "bool option"
  | AToolCall string string json "string option"

datatype stop_reason = Stop | Length | ToolUse | ErrorStop | Aborted

record user_message =
  u_content :: user_content
  u_timestamp :: int

record assistant_message =
  a_content :: "assistant_block list"
  a_api :: string
  a_provider :: string
  a_model :: string
  a_responseModel :: "string option"
  a_responseId :: "string option"
  a_diagnostics :: "json option"
  a_usage :: json
  a_stopReason :: stop_reason
  a_error :: "json option"
  a_timestamp :: int

record tool_result_message =
  t_toolCallId :: string
  t_toolName :: string
  t_content :: "content_block list"
  t_details :: "json option"
  t_isError :: bool
  t_timestamp :: int
  t_durationMs :: "nat option"

record bash_execution_message =
  b_command :: string
  b_output :: string
  b_exitCode :: "int option"
  b_cancelled :: bool
  b_truncated :: bool
  b_fullOutputPath :: "string option"
  b_timestamp :: int
  b_excludeFromContext :: "bool option"

record custom_message =
  c_customType :: string
  c_content :: user_content
  c_display :: bool
  c_details :: "json option"
  c_timestamp :: int

datatype log_message =
    UserMessage user_message
  | AssistantMessage assistant_message
  | ToolResultMessage tool_result_message
  | BashExecutionMessage bash_execution_message
  | CustomMessage custom_message

section \<open>Client input payloads\<close>

datatype client_input_command = Prompt | Steer | FollowUp

datatype client_input_state = Accepted | Started | Completed | Failed | Withdrawn

datatype queued_delivery = DeliverSteer | DeliverFollowUp

datatype streaming_behavior = StreamSteer | StreamFollowUp

type_synonym image = content_block

record client_input_payload =
  ci_message :: string
  ci_images :: "image list"
  ci_streamingBehavior :: "streaming_behavior option"

text \<open>\<open>wake\<close> is an optional literal \<open>false\<close>: \<open>ciq_wake\<close> says whether it is present.\<close>

record client_input_queued_payload =
  ciq_delivery :: queued_delivery
  ciq_message :: string
  ciq_images :: "image list"
  ciq_messages :: "log_message list option"
  ciq_wake :: bool

text \<open>\<open>origin\<close> is an optional literal \<open>host\<close>: \<open>True\<close> when present.\<close>

record receipt_payload =
  rp_clientMessageId :: client_message_id
  rp_command :: client_input_command
  rp_semanticDigest :: string
  rp_input :: client_input_payload
  rp_origin :: bool

record queued_entry_payload =
  qp_receiptId :: entry_id
  qp_clientMessageId :: client_message_id
  qp_queuedInput :: client_input_queued_payload

record state_entry_payload =
  sp_receiptId :: entry_id
  sp_clientMessageId :: client_message_id
  sp_state :: client_input_state
  sp_error :: "string option"

section \<open>Branch payloads\<close>

datatype thinking_level = Off | Minimal | Low | Medium | High | XHigh | Max

record compaction_payload =
  cp_summary :: string
  cp_firstKeptEntryId :: entry_id
  cp_tokensBefore :: nat
  cp_details :: "json option"
  cp_fromHook :: "bool option"

record branch_summary_payload =
  bs_fromId :: entry_id
  bs_summary :: string
  bs_readFiles :: "string list"
  bs_modifiedFiles :: "string list"
  bs_details :: "json option"
  bs_fromHook :: "bool option"

record custom_message_payload =
  cm_customType :: string
  cm_content :: user_content
  cm_details :: "json option"
  cm_display :: bool

section \<open>Work payloads\<close>

datatype work_kind = Job | Subagent | Review | HostAction | ExtensionKind string

datatype work_state = AwaitingApproval | Running | Cancelling

datatype work_outcome = WCompleted | WFailed | WCancelled | WInterrupted

datatype work_delivery = DeliverNone | DeliverMessage | DeliverWake

record work_child =
  wch_conversation :: string
  wch_ref :: "json option"

record work_result =
  wr_summary :: "string option"
  wr_output :: "(string \<times> bool) option"
  wr_child :: "string option"
  wr_data :: "json option"

record work_started_payload =
  ws_workId :: work_id
  ws_kind :: work_kind
  ws_title :: string
  ws_parentWorkId :: "work_id option"
  ws_input :: json
  ws_cancellable :: bool
  ws_delivery :: work_delivery
  ws_resume :: bool
  ws_state :: work_state
  ws_toolCallId :: "string option"
  ws_child :: "work_child option"
  ws_requires :: "string list option"
  ws_remote :: "(bool \<times> bool) option"
  ws_opens :: "bool option"

record work_checkpoint_payload =
  wc_workId :: work_id
  wc_state :: "work_state option"
  wc_progress :: "json option"
  wc_detail :: "json option"
  wc_child :: "work_child option"

record work_finished_payload =
  wf_workId :: work_id
  wf_outcome :: work_outcome
  wf_result :: "work_result option"
  wf_error :: "string option"

section \<open>Entries\<close>

datatype visibility = Public | Host

datatype entry_body =
    Message log_message "client_message_id option"
  | ClientInputReceipt receipt_payload
  | ClientInputQueued queued_entry_payload
  | ClientInputStateEntry state_entry_payload
  | ThinkingLevelChange thinking_level
  | FastModeChange bool
  | ModelChange string string
  | PlanningStateChange json
  | Compaction compaction_payload
  | BranchSummary branch_summary_payload
  | CustomEntry string "json option"
  | CustomMessageEntry custom_message_payload
  | Label entry_id "string option"
  | SessionInfo "string option"
  | Leaf "entry_id option"
  | ForkedFrom string "entry_id option"
  | WorkStarted work_started_payload
  | WorkCheckpoint work_checkpoint_payload
  | WorkFinished work_finished_payload
  | Product string json

record log_entry =
  e_ordinal :: nat
  e_id :: entry_id
  e_parentId :: "entry_id option"
  e_timestamp :: string
  e_visibility :: visibility
  e_body :: entry_body

text \<open>
  \<^verbatim>\<open>log.ts\<close>: an entry as a writer submits it has no ordinal; the log assigns it at commit.
\<close>

record entry_draft =
  d_id :: entry_id
  d_parentId :: "entry_id option"
  d_timestamp :: string
  d_visibility :: visibility
  d_body :: entry_body

definition commit_entry :: "nat \<Rightarrow> entry_draft \<Rightarrow> log_entry" where
  "commit_entry n d =
     \<lparr>e_ordinal = n, e_id = d_id d, e_parentId = d_parentId d, e_timestamp = d_timestamp d,
      e_visibility = d_visibility d, e_body = d_body d\<rparr>"

text \<open>\<^verbatim>\<open>log.ts\<close>: a core type is one of the table of core types; product types never reuse one.\<close>

fun isCoreBody :: "entry_body \<Rightarrow> bool" where
  "isCoreBody (Product _ _) = False"
| "isCoreBody _ = True"

definition isCoreLogEntry :: "log_entry \<Rightarrow> bool" where
  "isCoreLogEntry e = isCoreBody (e_body e)"

text \<open>The visibility the table of core types fixes for each type.\<close>

fun core_visibility :: "entry_body \<Rightarrow> visibility option" where
  "core_visibility (Message _ _) = Some Public"
| "core_visibility (ClientInputReceipt _) = Some Host"
| "core_visibility (ClientInputQueued _) = Some Host"
| "core_visibility (ClientInputStateEntry _) = Some Host"
| "core_visibility (ThinkingLevelChange _) = Some Public"
| "core_visibility (FastModeChange _) = Some Public"
| "core_visibility (ModelChange _ _) = Some Public"
| "core_visibility (PlanningStateChange _) = Some Public"
| "core_visibility (Compaction _) = Some Public"
| "core_visibility (BranchSummary _) = Some Public"
| "core_visibility (CustomEntry _ _) = Some Public"
| "core_visibility (CustomMessageEntry _) = Some Public"
| "core_visibility (Label _ _) = Some Public"
| "core_visibility (SessionInfo _) = Some Public"
| "core_visibility (Leaf _) = Some Host"
| "core_visibility (ForkedFrom _ _) = Some Host"
| "core_visibility (WorkStarted _) = Some Host"
| "core_visibility (WorkCheckpoint _) = Some Host"
| "core_visibility (WorkFinished _) = Some Host"
| "core_visibility (Product _ _) = None"

text \<open>An entry as the log's schemas accept it: a core entry has its type's visibility.\<close>

definition schema_visibility :: "log_entry \<Rightarrow> bool" where
  "schema_visibility e \<longleftrightarrow>
     (case core_visibility (e_body e) of None \<Rightarrow> True | Some v \<Rightarrow> e_visibility e = v)"

lemma core_visibility_None_iff: "core_visibility b = None \<longleftrightarrow> \<not> isCoreBody b"
  by (cases b) auto

section \<open>Dates\<close>

text \<open>
  \<open>new Date(timestamp).getTime()\<close> on the canonical form \<open>YYYY-MM-DDTHH:MM:SS.mmmZ\<close> of the entry
  schema: milliseconds since the epoch in the proleptic Gregorian calendar, \<open>None\<close> (NaN) for any
  other string or a field out of range. Hour 24 is accepted only for midnight at the end of a day.
\<close>

definition digit_value :: "char \<Rightarrow> nat option" where
  "digit_value c = (let n = of_char c :: nat in if 48 \<le> n \<and> n \<le> 57 then Some (n - 48) else None)"

fun number_value :: "nat \<Rightarrow> string \<Rightarrow> nat option" where
  "number_value acc [] = Some acc"
| "number_value acc (c # cs) =
     (case digit_value c of None \<Rightarrow> None | Some d \<Rightarrow> number_value (10 * acc + d) cs)"

definition leap_year :: "nat \<Rightarrow> bool" where
  "leap_year y \<longleftrightarrow> y mod 4 = 0 \<and> (y mod 100 \<noteq> 0 \<or> y mod 400 = 0)"

definition month_days :: "nat \<Rightarrow> nat \<Rightarrow> nat" where
  "month_days y m =
     (if m = 2 then (if leap_year y then 29 else 28)
      else if m = 4 \<or> m = 6 \<or> m = 9 \<or> m = 11 then 30 else 31)"

text \<open>Days from 1970-01-01 to the first of January of a year from 0 to 9999.\<close>

definition year_days :: "nat \<Rightarrow> int" where
  "year_days y =
     (let p = int y - 1 in
      365 * (int y - 1970) + (p div 4 - 492) - (p div 100 - 19) + (p div 400 - 4))"

definition date_ms :: "nat \<Rightarrow> nat \<Rightarrow> nat \<Rightarrow> nat \<Rightarrow> nat \<Rightarrow> nat \<Rightarrow> nat \<Rightarrow> int option" where
  "date_ms y mo d h mi s ms =
     (if 1 \<le> mo \<and> mo \<le> 12 \<and> 1 \<le> d \<and> d \<le> 31 \<and> mi \<le> 59 \<and> s \<le> 59
         \<and> (h \<le> 23 \<or> (h = 24 \<and> mi = 0 \<and> s = 0 \<and> ms = 0))
      then let days = year_days y + int (sum_list (map (month_days y) [1..<mo])) + int d - 1 in
           Some ((((days * 24 + int h) * 60 + int mi) * 60 + int s) * 1000 + int ms)
      else None)"

definition date_getTime :: "string \<Rightarrow> int option" where
  "date_getTime t =
     (if length t = 24 \<and> t ! 4 = CHR ''-'' \<and> t ! 7 = CHR ''-'' \<and> t ! 10 = CHR ''T''
         \<and> t ! 13 = CHR '':'' \<and> t ! 16 = CHR '':'' \<and> t ! 19 = CHR ''.'' \<and> t ! 23 = CHR ''Z''
      then case (number_value 0 (take 4 t), number_value 0 (take 2 (drop 5 t)),
                 number_value 0 (take 2 (drop 8 t)), number_value 0 (take 2 (drop 11 t)),
                 number_value 0 (take 2 (drop 14 t)), number_value 0 (take 2 (drop 17 t)),
                 number_value 0 (take 3 (drop 20 t))) of
             (Some y, Some mo, Some d, Some h, Some mi, Some s, Some ms) \<Rightarrow>
               date_ms y mo d h mi s ms
           | _ \<Rightarrow> None
      else None)"

end
