(* ===== verification/Messages.thy ===== *)
theory Messages
  imports Entries
begin

text \<open>
  Runtime messages (\<^verbatim>\<open>packages/agent/src/conversation/messages.ts\<close>): what the fold puts into a
  branch's context, and the conversion to provider messages. An \<open>agent_message\<close> is a stored message,
  a user message with its submitting client's id, or a message made from an entry.
\<close>

section \<open>Agent messages\<close>

datatype agent_message =
    Stored log_message
  | ClientUser user_message client_message_id
  | EntryCustom string user_content bool "json option" "int option"
  | BranchSummaryMessage string entry_id "int option"
  | CompactionSummaryMessage string nat "int option"

definition createBranchSummaryMessage :: "string \<Rightarrow> entry_id \<Rightarrow> string \<Rightarrow> agent_message" where
  "createBranchSummaryMessage summary fromId timestamp =
     BranchSummaryMessage summary fromId (date_getTime timestamp)"

definition createCompactionSummaryMessage :: "string \<Rightarrow> nat \<Rightarrow> string \<Rightarrow> agent_message" where
  "createCompactionSummaryMessage summary tokensBefore timestamp =
     CompactionSummaryMessage summary tokensBefore (date_getTime timestamp)"

definition createCustomMessage ::
    "string \<Rightarrow> user_content \<Rightarrow> bool \<Rightarrow> json option \<Rightarrow> string \<Rightarrow> agent_message" where
  "createCustomMessage customType content display details timestamp =
     EntryCustom customType content display details (date_getTime timestamp)"

section \<open>Conversion to provider messages\<close>

definition lf :: string where
  "lf = [CHR 0x0A]"

definition COMPACTION_SUMMARY_PREFIX :: string where
  "COMPACTION_SUMMARY_PREFIX =
     ''The conversation history before this point was compacted into the following summary:''
     @ lf @ lf @ ''<summary>'' @ lf"

definition COMPACTION_SUMMARY_SUFFIX :: string where
  "COMPACTION_SUMMARY_SUFFIX = lf @ ''</summary>''"

definition BRANCH_SUMMARY_PREFIX :: string where
  "BRANCH_SUMMARY_PREFIX =
     ''The following is a summary of a branch that this conversation came back from:''
     @ lf @ lf @ ''<summary>'' @ lf"

definition BRANCH_SUMMARY_SUFFIX :: string where
  "BRANCH_SUMMARY_SUFFIX = ''</summary>''"

text \<open>Decimal digits of a number, as template literals print it.\<close>

fun nat_string :: "nat \<Rightarrow> string" where
  "nat_string n =
     (if n < 10 then [char_of (48 + n)] else nat_string (n div 10) @ [char_of (48 + n mod 10)])"

declare nat_string.simps [simp del]

definition int_string :: "int \<Rightarrow> string" where
  "int_string i = (if i < 0 then ''-'' @ nat_string (nat (- i)) else nat_string (nat i))"

definition bashExecutionToText :: "bash_execution_message \<Rightarrow> string" where
  "bashExecutionToText m =
     ''Ran `'' @ b_command m @ ''`'' @ lf
     @ (if b_output m \<noteq> '''' then ''```'' @ lf @ b_output m @ lf @ ''```'' else ''(no output)'')
     @ (if b_cancelled m then lf @ lf @ ''(command cancelled)''
        else case b_exitCode m of
          Some c \<Rightarrow> if c \<noteq> 0 then lf @ lf @ ''Command exited with code '' @ int_string c else ''''
        | None \<Rightarrow> '''')
     @ (case b_fullOutputPath m of
          Some p \<Rightarrow> if b_truncated m \<and> p \<noteq> ''''
            then lf @ lf @ ''[Output truncated. Full output: '' @ p @ '']'' else ''''
        | None \<Rightarrow> '''')"

text \<open>
  The provider messages. \<open>ProviderUser\<close> is a user message; its last argument is the
  \<open>clientMessageId\<close> property a client's message still carries here.
\<close>

datatype provider_message =
    ProviderUser user_content "int option" "client_message_id option"
  | ProviderAssistant assistant_message
  | ProviderToolResult tool_result_message

definition text_blocks :: "string \<Rightarrow> user_content" where
  "text_blocks t = Blocks [TextContent t None]"

definition custom_blocks :: "user_content \<Rightarrow> user_content" where
  "custom_blocks c = (case c of PlainText t \<Rightarrow> text_blocks t | Blocks bs \<Rightarrow> Blocks bs)"

fun convert_message :: "agent_message \<Rightarrow> provider_message option" where
  "convert_message (Stored (BashExecutionMessage m)) =
     (if b_excludeFromContext m = Some True then None
      else Some (ProviderUser (text_blocks (bashExecutionToText m)) (Some (b_timestamp m)) None))"
| "convert_message (Stored (CustomMessage m)) =
     Some (ProviderUser (custom_blocks (c_content m)) (Some (c_timestamp m)) None)"
| "convert_message (EntryCustom _ content _ _ ts) = Some (ProviderUser (custom_blocks content) ts None)"
| "convert_message (BranchSummaryMessage s _ ts) =
     Some (ProviderUser (text_blocks (BRANCH_SUMMARY_PREFIX @ s @ BRANCH_SUMMARY_SUFFIX)) ts None)"
| "convert_message (CompactionSummaryMessage s _ ts) =
     Some (ProviderUser (text_blocks (COMPACTION_SUMMARY_PREFIX @ s @ COMPACTION_SUMMARY_SUFFIX)) ts None)"
| "convert_message (Stored (UserMessage m)) =
     Some (ProviderUser (u_content m) (Some (u_timestamp m)) None)"
| "convert_message (ClientUser m c) =
     Some (ProviderUser (u_content m) (Some (u_timestamp m)) (Some c))"
| "convert_message (Stored (AssistantMessage m)) = Some (ProviderAssistant m)"
| "convert_message (Stored (ToolResultMessage m)) = Some (ProviderToolResult m)"

definition convertToLlm :: "agent_message list \<Rightarrow> provider_message list" where
  "convertToLlm ms = List.map_filter convert_message ms"

text \<open>\<^verbatim>\<open>conversation.ts\<close>: a conversation without its own converter drops the client's id first.\<close>

fun withoutClientMessageId :: "agent_message \<Rightarrow> agent_message" where
  "withoutClientMessageId (ClientUser m _) = Stored (UserMessage m)"
| "withoutClientMessageId m = m"

definition convertConversationMessages :: "agent_message list \<Rightarrow> provider_message list" where
  "convertConversationMessages ms = convertToLlm (map withoutClientMessageId ms)"

end
