(* ===== verification/Work_Items.thy ===== *)
theory Work_Items
  imports Entries
begin

text \<open>
  Work in the fold (\<^verbatim>\<open>packages/agent/src/conversation/work.ts\<close>): the record each \<open>work_*\<close> entry
  produces, the lifecycle \<open>reduceWork\<close> enforces, and the reconciliation a new runtime computes over
  the open work of the previous one. A violation is an \<open>Inl\<close> of \<open>work_error\<close>, one constructor per
  message of the source.
\<close>

section \<open>Records and errors\<close>

record work_record =
  w_workId :: work_id
  w_kind :: work_kind
  w_title :: string
  w_parentWorkId :: "work_id option"
  w_input :: json
  w_cancellable :: bool
  w_delivery :: work_delivery
  w_resume :: bool
  w_toolCallId :: "string option"
  w_child :: "work_child option"
  w_requires :: "string list option"
  w_remote :: "(bool \<times> bool) option"
  w_state :: work_state
  w_outcome :: "work_outcome option"
  w_progress :: "json option"
  w_detail :: "json option"
  w_result :: "work_result option"
  w_error :: "string option"
  w_startedOrdinal :: nat
  w_updatedOrdinal :: nat
  w_finishedOrdinal :: "nat option"
  w_checkpoints :: nat

datatype work_error =
    DuplicateWorkId work_id
  | StartedAfterNamedAsParent
  | OwnParent
  | UnknownParentWork work_id
  | UnknownWork work_id
  | AlreadyFinished work_id
  | BadCheckpointMove work_state work_state

type_synonym work_map = "(work_id, work_record) js_map"

fun isWorkBody :: "entry_body \<Rightarrow> bool" where
  "isWorkBody (WorkStarted _) = True"
| "isWorkBody (WorkCheckpoint _) = True"
| "isWorkBody (WorkFinished _) = True"
| "isWorkBody _ = False"

section \<open>The reducer\<close>

text \<open>The states a checkpoint may set from each open state.\<close>

fun CHECKPOINT_STATES :: "work_state \<Rightarrow> work_state list" where
  "CHECKPOINT_STATES AwaitingApproval = [Running, Cancelling]"
| "CHECKPOINT_STATES Running = [Running, Cancelling]"
| "CHECKPOINT_STATES Cancelling = [Cancelling]"

text \<open>\<open>...(x === undefined ? {} : { field: x })\<close> over an existing field.\<close>

definition or_keep :: "'a option \<Rightarrow> 'a option \<Rightarrow> 'a option" where
  "or_keep new old = (case new of None \<Rightarrow> old | Some v \<Rightarrow> Some v)"

definition unknown_parent :: "work_map \<Rightarrow> work_started_payload \<Rightarrow> work_id option" where
  "unknown_parent records p =
     (case ws_parentWorkId p of None \<Rightarrow> None
      | Some q \<Rightarrow> if \<not> js_has records q \<and> ws_kind p \<noteq> Subagent then Some q else None)"

definition start_work :: "work_map \<Rightarrow> work_id set \<Rightarrow> nat \<Rightarrow> work_started_payload \<Rightarrow> work_error + work_record" where
  "start_work records parents ordinal p =
     (if js_has records (ws_workId p) then Inl (DuplicateWorkId (ws_workId p))
      else if ws_workId p \<in> parents then Inl StartedAfterNamedAsParent
      else if ws_parentWorkId p = Some (ws_workId p) then Inl OwnParent
      else case unknown_parent records p of
        Some q \<Rightarrow> Inl (UnknownParentWork q)
      | None \<Rightarrow>
          Inr \<lparr>w_workId = ws_workId p, w_kind = ws_kind p, w_title = ws_title p,
            w_parentWorkId = ws_parentWorkId p, w_input = ws_input p,
            w_cancellable = ws_cancellable p, w_delivery = ws_delivery p, w_resume = ws_resume p,
            w_toolCallId = ws_toolCallId p, w_child = ws_child p, w_requires = ws_requires p,
            w_remote = ws_remote p, w_state = ws_state p, w_outcome = None, w_progress = None,
            w_detail = None, w_result = None, w_error = None, w_startedOrdinal = ordinal,
            w_updatedOrdinal = ordinal, w_finishedOrdinal = None, w_checkpoints = 0\<rparr>)"

definition open_record :: "work_map \<Rightarrow> work_id \<Rightarrow> work_error + work_record" where
  "open_record records workId =
     (case js_get records workId of
        None \<Rightarrow> Inl (UnknownWork workId)
      | Some r \<Rightarrow> if w_outcome r \<noteq> None then Inl (AlreadyFinished (w_workId r)) else Inr r)"

definition bad_move :: "work_record \<Rightarrow> work_state option \<Rightarrow> work_state option" where
  "bad_move r s =
     (case s of None \<Rightarrow> None
      | Some t \<Rightarrow> if t \<in> set (CHECKPOINT_STATES (w_state r)) then None else Some t)"

definition checkpoint_work :: "work_map \<Rightarrow> nat \<Rightarrow> work_checkpoint_payload \<Rightarrow> work_error + work_record" where
  "checkpoint_work records ordinal p =
     res_bind (open_record records (wc_workId p)) (\<lambda>r.
       case bad_move r (wc_state p) of
         Some t \<Rightarrow> Inl (BadCheckpointMove (w_state r) t)
       | None \<Rightarrow>
           Inr (r\<lparr>w_state := (case wc_state p of None \<Rightarrow> w_state r | Some t \<Rightarrow> t),
             w_progress := or_keep (wc_progress p) (w_progress r),
             w_detail := or_keep (wc_detail p) (w_detail r),
             w_child := or_keep (wc_child p) (w_child r), w_updatedOrdinal := ordinal,
             w_checkpoints := w_checkpoints r + 1\<rparr>))"

definition finish_work :: "work_map \<Rightarrow> nat \<Rightarrow> work_finished_payload \<Rightarrow> work_error + work_record" where
  "finish_work records ordinal p =
     res_bind (open_record records (wf_workId p)) (\<lambda>r.
       Inr (r\<lparr>w_outcome := Some (wf_outcome p), w_result := or_keep (wf_result p) (w_result r),
         w_error := or_keep (wf_error p) (w_error r), w_updatedOrdinal := ordinal,
         w_finishedOrdinal := Some ordinal\<rparr>))"

text \<open>The record an entry produces; \<open>None\<close> for an entry that is not a work entry.\<close>

fun reduceWork :: "work_map \<Rightarrow> work_id set \<Rightarrow> nat \<Rightarrow> entry_body \<Rightarrow> (work_error + work_record) option" where
  "reduceWork records parents ordinal (WorkStarted p) = Some (start_work records parents ordinal p)"
| "reduceWork records parents ordinal (WorkCheckpoint p) = Some (checkpoint_work records ordinal p)"
| "reduceWork records parents ordinal (WorkFinished p) = Some (finish_work records ordinal p)"
| "reduceWork records parents ordinal _ = None"

text \<open>Every parent id the records name (\<open>namedWorkParents\<close> of the fold).\<close>

definition named_parents :: "work_map \<Rightarrow> work_id set" where
  "named_parents records = set (List.map_filter w_parentWorkId (js_values records))"

section \<open>Reconciliation\<close>

record work_reconciliation =
  rec_interrupt :: "work_id list"
  rec_suspended :: "work_id list"

fun reconcile_step :: "work_map \<Rightarrow> work_reconciliation \<Rightarrow> work_id \<Rightarrow> work_reconciliation" where
  "reconcile_step work acc workId =
     (case js_get work workId of
        None \<Rightarrow> acc
      | Some r \<Rightarrow>
          let parent = (case w_parentWorkId r of None \<Rightarrow> None | Some p \<Rightarrow> js_get work p);
              parentEnds = (case parent of None \<Rightarrow> False
                | Some p \<Rightarrow> w_outcome p \<noteq> None \<or> w_workId p \<in> set (rec_interrupt acc))
          in if \<not> w_resume r \<or> parentEnds
             then acc\<lparr>rec_interrupt := rec_interrupt acc @ [workId]\<rparr>
             else acc\<lparr>rec_suspended := rec_suspended acc @ [workId]\<rparr>)"

definition workReconciliation :: "work_map \<Rightarrow> work_id list \<Rightarrow> work_reconciliation" where
  "workReconciliation work openWork =
     foldl (reconcile_step work) \<lparr>rec_interrupt = [], rec_suspended = []\<rparr> openWork"

section \<open>Lemmas\<close>

lemma isWorkBody_reduceWork: "reduceWork m ps n b = None \<longleftrightarrow> \<not> isWorkBody b"
  by (cases b) auto

lemma named_parents_alt:
  "named_parents records = {p. Some p \<in> w_parentWorkId ` set (js_values records)}"
proof -
  have "p \<in> set (List.map_filter f xs) \<longleftrightarrow> Some p \<in> f ` set xs" for f :: "work_record \<Rightarrow> work_id option" and p xs
    by (induction xs) (auto simp: List.map_filter_simps split: option.split)
  then show ?thesis by (auto simp: named_parents_def)
qed

lemma open_record_Inr:
  "open_record m k = Inr r \<longleftrightarrow> js_get m k = Some r \<and> w_outcome r = None"
  by (auto simp: open_record_def split: option.splits)

lemma start_work_Inr:
  assumes "start_work m ps n p = Inr r"
  shows "\<not> js_has m (ws_workId p)" "ws_workId p \<notin> ps" "w_workId r = ws_workId p"
    "w_outcome r = None" "w_finishedOrdinal r = None" "w_parentWorkId r = ws_parentWorkId p"
    "w_parentWorkId r \<noteq> Some (w_workId r)" "w_startedOrdinal r = n" "w_updatedOrdinal r = n"
    "w_kind r = ws_kind p" "w_state r = ws_state p"
    "\<And>q. w_parentWorkId r = Some q \<Longrightarrow> js_has m q \<or> w_kind r = Subagent"
  using assms by (auto simp: start_work_def unknown_parent_def split: if_splits option.splits)

lemma checkpoint_work_Inr:
  assumes "checkpoint_work m n p = Inr r'"
  obtains r where "js_get m (wc_workId p) = Some r" "w_outcome r = None" "w_outcome r' = None"
    "w_workId r' = w_workId r" "w_parentWorkId r' = w_parentWorkId r" "w_kind r' = w_kind r"
    "w_startedOrdinal r' = w_startedOrdinal r" "w_updatedOrdinal r' = n"
    "w_finishedOrdinal r' = w_finishedOrdinal r"
    "w_state r' = w_state r \<or> w_state r' \<in> set (CHECKPOINT_STATES (w_state r))"
  using assms
  by (auto simp: checkpoint_work_def bad_move_def res_simps open_record_Inr split: option.splits if_splits)

lemma finish_work_Inr:
  assumes "finish_work m n p = Inr r'"
  obtains r where "js_get m (wf_workId p) = Some r" "w_outcome r = None"
    "w_outcome r' = Some (wf_outcome p)"
    "w_workId r' = w_workId r" "w_parentWorkId r' = w_parentWorkId r" "w_kind r' = w_kind r"
    "w_startedOrdinal r' = w_startedOrdinal r" "w_updatedOrdinal r' = n"
    "w_finishedOrdinal r' = Some n" "w_state r' = w_state r"
  using assms by (auto simp: finish_work_def res_simps open_record_Inr)

end
