(* ===== verification/Conversation_Fold.thy ===== *)
theory Conversation_Fold
  imports Messages Work_Items
begin

text \<open>
  The pure fold over a conversation log (\<^verbatim>\<open>packages/agent/src/conversation/fold.ts\<close>): the state
  \<open>conversation_state\<close>, the \<open>StateBuilder\<close> operations as functions on it, \<open>apply_entry\<close> and
  \<open>fold_log\<close>, the recovery plan for client inputs, and \<open>snapshot\<close> and \<open>restore\<close>.

  The builder's copy-on-write bookkeeping (\<open>owned\<close>, \<open>writable\<close>, \<open>appended\<close>) and the sharing of
  unchanged parts by \<open>finish\<close> have no effect on values and are not represented: a state is a value.
  A \<open>ConversationFoldError\<close> is an \<open>Inl\<close> with the entry's id and ordinal and one constructor per
  message. The loops over parent ids run on fuel, one step more than there are entries; a walk that
  is longer than that revisits an entry and never ends, which is the error \<open>NoReturn\<close>.
\<close>

section \<open>State\<close>

type_synonym entry_map = "(entry_id, log_entry) js_map"
type_synonym model_ref = "string \<times> string"

record client_input_record =
  ir_clientMessageId :: client_message_id
  ir_receiptId :: entry_id
  ir_command :: client_input_command
  ir_origin :: bool
  ir_semanticDigest :: string
  ir_input :: client_input_payload
  ir_queuedEntryId :: "entry_id option"
  ir_queuedInput :: "client_input_queued_payload option"
  ir_state :: client_input_state
  ir_error :: "string option"
  ir_canonicalEntryId :: "entry_id option"

type_synonym input_map = "(client_message_id, client_input_record) js_map"

record conversation_context =
  ctx_messages :: "agent_message list"
  ctx_model :: "model_ref option"
  ctx_thinkingLevel :: thinking_level
  ctx_fastMode :: bool

record conversation_label =
  lab_label :: string
  lab_timestamp :: string

record conversation_state =
  st_ordinal :: nat
  st_byId :: entry_map
  st_children :: "(entry_id option, entry_id list) js_map"
  st_leafId :: "entry_id option"
  st_branch :: "entry_id list"
  st_branchOrdinal :: nat
  st_branchSwitchOrdinal :: nat
  st_context :: conversation_context
  st_contextOrdinal :: nat
  st_planning :: "json option"
  st_labels :: "(entry_id, conversation_label) js_map"
  st_name :: "string option"
  st_inputs :: input_map
  st_queued :: "client_message_id list"
  st_started :: "client_message_id list"
  st_work :: work_map
  st_openWork :: "work_id list"

definition emptyContext :: conversation_context where
  "emptyContext = \<lparr>ctx_messages = [], ctx_model = None, ctx_thinkingLevel = Off, ctx_fastMode = False\<rparr>"

definition emptyState :: conversation_state where
  "emptyState =
     \<lparr>st_ordinal = 0, st_byId = [], st_children = [], st_leafId = None, st_branch = [],
      st_branchOrdinal = 0, st_branchSwitchOrdinal = 0, st_context = emptyContext,
      st_contextOrdinal = 0, st_planning = None, st_labels = [], st_name = None,
      st_inputs = [], st_queued = [], st_started = [], st_work = [], st_openWork = []\<rparr>"

section \<open>Errors\<close>

datatype fold_error_kind =
    ExpectedOrdinal nat
  | DuplicateEntryId
  | UnknownParent entry_id
  | ParentNotPublic
  | TargetNotConversation entry_id
  | FirstKeptNotAncestor
  | BranchSummarySource
  | DuplicateReceipt
  | QueuedAfter client_input_state
  | AlreadyQueued
  | DeliveryConflict
  | HostOnlyMessages
  | HostOnlyWake
  | BadInputMove client_input_state client_input_state
  | ErrorOnlyOnFailed
  | ClientMessageNotStarted
  | NoMatchingReceipt
  | WorkViolation work_error
  | NoReturn

record fold_error =
  fe_entryId :: entry_id
  fe_ordinal :: nat
  fe_kind :: fold_error_kind

definition fold_fail :: "log_entry \<Rightarrow> fold_error_kind \<Rightarrow> fold_error" where
  "fold_fail e k = \<lparr>fe_entryId = e_id e, fe_ordinal = e_ordinal e, fe_kind = k\<rparr>"

section \<open>Branch context from scratch\<close>

text \<open>The model message a context-bearing branch entry contributes, if any.\<close>

definition contextMessage :: "log_entry \<Rightarrow> agent_message option" where
  "contextMessage e =
     (case e_body e of
        Message m c \<Rightarrow>
          (case (c, m) of
             (Some cid, UserMessage u) \<Rightarrow> Some (ClientUser u cid)
           | _ \<Rightarrow> Some (Stored m))
      | CustomMessageEntry p \<Rightarrow>
          Some (createCustomMessage (cm_customType p) (cm_content p) (cm_display p) (cm_details p)
            (e_timestamp e))
      | BranchSummary p \<Rightarrow>
          (if bs_summary p = '''' then None
           else Some (createBranchSummaryMessage (bs_summary p) (bs_fromId p) (e_timestamp e)))
      | _ \<Rightarrow> None)"

record branch_scan =
  sc_model :: "model_ref option"
  sc_thinkingLevel :: thinking_level
  sc_fastMode :: bool
  sc_planning :: "json option"
  sc_compaction :: "(nat \<times> log_entry \<times> compaction_payload) option"

definition scan_start :: branch_scan where
  "scan_start = \<lparr>sc_model = None, sc_thinkingLevel = Off, sc_fastMode = False, sc_planning = None,
     sc_compaction = None\<rparr>"

definition scan_entry :: "branch_scan \<Rightarrow> nat \<times> log_entry \<Rightarrow> branch_scan" where
  "scan_entry sc ie =
     (case e_body (snd ie) of
        ThinkingLevelChange l \<Rightarrow> sc\<lparr>sc_thinkingLevel := l\<rparr>
      | FastModeChange b \<Rightarrow> sc\<lparr>sc_fastMode := b\<rparr>
      | ModelChange p m \<Rightarrow> sc\<lparr>sc_model := Some (p, m)\<rparr>
      | PlanningStateChange j \<Rightarrow> sc\<lparr>sc_planning := Some j\<rparr>
      | Message (AssistantMessage m) _ \<Rightarrow> sc\<lparr>sc_model := Some (a_provider m, a_model m)\<rparr>
      | Compaction p \<Rightarrow> sc\<lparr>sc_compaction := Some (fst ie, snd ie, p)\<rparr>
      | _ \<Rightarrow> sc)"

definition scan_path :: "log_entry list \<Rightarrow> branch_scan" where
  "scan_path path = foldl scan_entry scan_start (enumerate 0 path)"

text \<open>With a compaction: its summary, then the kept entries before it, then everything after it.\<close>

definition path_messages ::
    "(nat \<times> log_entry \<times> compaction_payload) option \<Rightarrow> log_entry list \<Rightarrow> agent_message list" where
  "path_messages compaction path =
     (case compaction of
        None \<Rightarrow> List.map_filter contextMessage path
      | Some (compactionIndex, entry, p) \<Rightarrow>
          let keptFrom =
            (case find_index (\<lambda>e. e_id e = cp_firstKeptEntryId p) path of
               None \<Rightarrow> compactionIndex | Some i \<Rightarrow> i)
          in createCompactionSummaryMessage (cp_summary p) (cp_tokensBefore p) (e_timestamp entry)
             # List.map_filter
                 (\<lambda>(i, e). if i < keptFrom \<or> i = compactionIndex then None else contextMessage e)
                 (enumerate 0 path))"

definition derive_path :: "log_entry list \<Rightarrow> conversation_context \<times> json option" where
  "derive_path path =
     (let sc = scan_path path in
      (\<lparr>ctx_messages = path_messages (sc_compaction sc) path, ctx_model = sc_model sc,
        ctx_thinkingLevel = sc_thinkingLevel sc, ctx_fastMode = sc_fastMode sc\<rparr>, sc_planning sc))"

definition deriveBranch :: "entry_map \<Rightarrow> entry_id list \<Rightarrow> conversation_context \<times> json option" where
  "deriveBranch byId branch = derive_path (List.map_filter (js_get byId) branch)"

section \<open>Walks along parent ids\<close>

definition parent_of :: "entry_map \<Rightarrow> entry_id \<Rightarrow> entry_id option" where
  "parent_of byId i = (case js_get byId i of None \<Rightarrow> None | Some e \<Rightarrow> e_parentId e)"

fun walk_up :: "nat \<Rightarrow> entry_map \<Rightarrow> entry_id option \<Rightarrow> entry_id list option" where
  "walk_up fuel byId None = Some []"
| "walk_up 0 byId (Some i) = None"
| "walk_up (Suc fuel) byId (Some i) =
     map_option (\<lambda>is. i # is) (walk_up fuel byId (parent_of byId i))"

definition walk_fuel :: "entry_map \<Rightarrow> nat" where
  "walk_fuel byId = Suc (length byId)"

definition pathTo :: "entry_map \<Rightarrow> entry_id option \<Rightarrow> entry_id list option" where
  "pathTo byId i = map_option rev (walk_up (walk_fuel byId) byId i)"

fun find_ancestor :: "nat \<Rightarrow> entry_map \<Rightarrow> entry_id \<Rightarrow> entry_id option \<Rightarrow> bool option" where
  "find_ancestor fuel byId target None = Some False"
| "find_ancestor 0 byId target (Some i) = (if i = target then Some True else None)"
| "find_ancestor (Suc fuel) byId target (Some i) =
     (if i = target then Some True else find_ancestor fuel byId target (parent_of byId i))"

section \<open>Validation\<close>

definition is_public :: "entry_map \<Rightarrow> entry_id \<Rightarrow> bool" where
  "is_public byId i \<longleftrightarrow>
     (case js_get byId i of None \<Rightarrow> False | Some e \<Rightarrow> e_visibility e = Public)"

definition validateEnvelope :: "conversation_state \<Rightarrow> log_entry \<Rightarrow> fold_error_kind + unit" where
  "validateEnvelope s e =
     (if e_ordinal e \<noteq> st_ordinal s + 1 then Inl (ExpectedOrdinal (st_ordinal s + 1))
      else if js_has (st_byId s) (e_id e) then Inl DuplicateEntryId
      else case e_parentId e of
        None \<Rightarrow> Inr ()
      | Some p \<Rightarrow>
          (case js_get (st_byId s) p of
             None \<Rightarrow> Inl (UnknownParent p)
           | Some parent \<Rightarrow>
               if e_visibility e = Public \<and> e_visibility parent \<noteq> Public then Inl ParentNotPublic
               else Inr ()))"

definition validateTarget :: "conversation_state \<Rightarrow> entry_id option \<Rightarrow> fold_error_kind + unit" where
  "validateTarget s target =
     (case target of
        None \<Rightarrow> Inr ()
      | Some t \<Rightarrow> if is_public (st_byId s) t then Inr () else Inl (TargetNotConversation t))"

definition validateReferences :: "conversation_state \<Rightarrow> log_entry \<Rightarrow> fold_error_kind + unit" where
  "validateReferences s e =
     (case e_body e of
        Leaf target \<Rightarrow> validateTarget s target
      | Label target _ \<Rightarrow> validateTarget s (Some target)
      | Compaction p \<Rightarrow>
          (case find_ancestor (walk_fuel (st_byId s)) (st_byId s) (cp_firstKeptEntryId p) (e_parentId e) of
             None \<Rightarrow> Inl NoReturn
           | Some found \<Rightarrow> if found then Inr () else Inl FirstKeptNotAncestor)
      | BranchSummary p \<Rightarrow>
          if bs_fromId p \<noteq> (case e_parentId e of None \<Rightarrow> ''root'' | Some i \<Rightarrow> i)
          then Inl BranchSummarySource else Inr ()
      | _ \<Rightarrow> Inr ())"

section \<open>Client inputs\<close>

definition expectedQueuedDelivery :: "client_input_record \<Rightarrow> queued_delivery option" where
  "expectedQueuedDelivery r =
     (case ir_command r of
        Steer \<Rightarrow> Some DeliverSteer
      | FollowUp \<Rightarrow> Some DeliverFollowUp
      | Prompt \<Rightarrow>
          (case ci_streamingBehavior (ir_input r) of
             Some StreamSteer \<Rightarrow> Some DeliverSteer
           | Some StreamFollowUp \<Rightarrow> Some DeliverFollowUp
           | None \<Rightarrow> None))"

text \<open>The record's lifecycle fields dropped, then \<open>state\<close> set.\<close>

definition with_lifecycle ::
    "client_input_record \<Rightarrow> client_input_state \<Rightarrow> string option \<Rightarrow> entry_id option \<Rightarrow> client_input_record" where
  "with_lifecycle r state err canonical =
     r\<lparr>ir_state := state, ir_error := err, ir_canonicalEntryId := canonical\<rparr>"

definition requireReceipt ::
    "input_map \<Rightarrow> client_message_id \<Rightarrow> entry_id \<Rightarrow> fold_error_kind + client_input_record" where
  "requireReceipt inputs c receiptId =
     (case js_get inputs c of
        None \<Rightarrow> Inl NoMatchingReceipt
      | Some r \<Rightarrow> if ir_receiptId r = receiptId then Inr r else Inl NoMatchingReceipt)"

text \<open>\<open>accepted -> started | completed | failed | withdrawn; started -> accepted | completed | failed\<close>.\<close>

definition input_move_allowed :: "client_input_state \<Rightarrow> client_input_state \<Rightarrow> bool" where
  "input_move_allowed source next \<longleftrightarrow>
     (source = Accepted \<and> next \<noteq> Accepted) \<or>
     (source = Started \<and> next \<noteq> Started \<and> next \<noteq> Withdrawn)"

definition receive_input :: "input_map \<Rightarrow> entry_id \<Rightarrow> receipt_payload \<Rightarrow> fold_error_kind + client_input_record" where
  "receive_input inputs entryId p =
     (if js_has inputs (rp_clientMessageId p) then Inl DuplicateReceipt
      else Inr \<lparr>ir_clientMessageId = rp_clientMessageId p, ir_receiptId = entryId,
             ir_command = rp_command p, ir_origin = rp_origin p,
             ir_semanticDigest = rp_semanticDigest p, ir_input = rp_input p,
             ir_queuedEntryId = None, ir_queuedInput = None, ir_state = Accepted,
             ir_error = None, ir_canonicalEntryId = None\<rparr>)"

definition queue_input :: "input_map \<Rightarrow> entry_id \<Rightarrow> queued_entry_payload \<Rightarrow> fold_error_kind + client_input_record" where
  "queue_input inputs entryId p =
     res_bind (requireReceipt inputs (qp_clientMessageId p) (qp_receiptId p)) (\<lambda>existing.
       if ir_state existing \<noteq> Accepted \<and> ir_state existing \<noteq> Started
       then Inl (QueuedAfter (ir_state existing))
       else if ir_queuedInput existing \<noteq> None then Inl AlreadyQueued
       else if Some (ciq_delivery (qp_queuedInput p)) \<noteq> expectedQueuedDelivery existing
       then Inl DeliveryConflict
       else if ciq_messages (qp_queuedInput p) \<noteq> None \<and> \<not> ir_origin existing
       then Inl HostOnlyMessages
       else if ciq_wake (qp_queuedInput p) \<and> \<not> ir_origin existing then Inl HostOnlyWake
       else Inr ((with_lifecycle existing Accepted None None)
              \<lparr>ir_queuedEntryId := Some entryId, ir_queuedInput := Some (qp_queuedInput p)\<rparr>))"

definition move_input :: "input_map \<Rightarrow> state_entry_payload \<Rightarrow> fold_error_kind + client_input_record" where
  "move_input inputs p =
     res_bind (requireReceipt inputs (sp_clientMessageId p) (sp_receiptId p)) (\<lambda>existing.
       if \<not> input_move_allowed (ir_state existing) (sp_state p)
       then Inl (BadInputMove (ir_state existing) (sp_state p))
       else if sp_error p \<noteq> None \<and> sp_state p \<noteq> Failed then Inl ErrorOnlyOnFailed
       else Inr (with_lifecycle existing (sp_state p) (sp_error p) None))"

definition complete_input :: "input_map \<Rightarrow> entry_id \<Rightarrow> client_message_id \<Rightarrow> fold_error_kind + client_input_record" where
  "complete_input inputs entryId c =
     (case js_get inputs c of
        None \<Rightarrow> Inl ClientMessageNotStarted
      | Some existing \<Rightarrow>
          if ir_state existing \<noteq> Started then Inl ClientMessageNotStarted
          else Inr (with_lifecycle existing Completed None (Some entryId)))"

definition nextClientInput :: "input_map \<Rightarrow> log_entry \<Rightarrow> fold_error_kind + client_input_record option" where
  "nextClientInput inputs e =
     (case e_body e of
        ClientInputReceipt p \<Rightarrow> map_sum id Some (receive_input inputs (e_id e) p)
      | ClientInputQueued p \<Rightarrow> map_sum id Some (queue_input inputs (e_id e) p)
      | ClientInputStateEntry p \<Rightarrow> map_sum id Some (move_input inputs p)
      | Message _ (Some c) \<Rightarrow> map_sum id Some (complete_input inputs (e_id e) c)
      | _ \<Rightarrow> Inr None)"

text \<open>An input's admission ordinal: its queued entry's ordinal when queued, otherwise its receipt's.\<close>

definition record_admission :: "entry_map \<Rightarrow> client_input_record \<Rightarrow> nat" where
  "record_admission byId r =
     (let i = (case ir_queuedEntryId r of None \<Rightarrow> ir_receiptId r | Some q \<Rightarrow> q) in
      case js_get byId i of None \<Rightarrow> max_safe_integer | Some e \<Rightarrow> e_ordinal e)"

definition admissionOrdinal :: "entry_map \<Rightarrow> input_map \<Rightarrow> client_message_id \<Rightarrow> nat" where
  "admissionOrdinal byId inputs c =
     (case js_get inputs c of None \<Rightarrow> max_safe_integer | Some r \<Rightarrow> record_admission byId r)"

definition withMembership ::
    "(client_message_id \<Rightarrow> nat) \<Rightarrow> client_message_id list \<Rightarrow> client_message_id \<Rightarrow> bool \<Rightarrow> client_message_id list" where
  "withMembership ordinal ids c member =
     (let next = filter (\<lambda>x. x \<noteq> c) ids in
      if member then insert_by ordinal c next else next)"

definition is_queued :: "client_input_record \<Rightarrow> bool" where
  "is_queued r \<longleftrightarrow> ir_state r = Accepted \<and> ir_queuedInput r \<noteq> None"

definition is_started :: "client_input_record \<Rightarrow> bool" where
  "is_started r \<longleftrightarrow> ir_state r = Started"

definition update_members ::
    "(client_message_id \<Rightarrow> nat) \<Rightarrow> client_message_id list \<Rightarrow> client_message_id \<Rightarrow> bool \<Rightarrow> client_message_id list" where
  "update_members ordinal ids c member =
     (if (c \<in> set ids) \<noteq> member then withMembership ordinal ids c member else ids)"

definition setClientInput :: "client_input_record \<Rightarrow> conversation_state \<Rightarrow> conversation_state" where
  "setClientInput r s =
     (let c = ir_clientMessageId r;
          inputs = js_set (st_inputs s) c r;
          ordinal = admissionOrdinal (st_byId s) inputs
      in s\<lparr>st_inputs := inputs,
           st_queued := update_members ordinal (st_queued s) c (is_queued r),
           st_started := update_members ordinal (st_started s) c (is_started r)\<rparr>)"

section \<open>Work, labels, children\<close>

definition update_open :: "work_id list \<Rightarrow> work_record \<Rightarrow> work_id list" where
  "update_open openWork r =
     (let open = (w_outcome r = None) in
      if (w_workId r \<in> set openWork) = open then openWork
      else if open then openWork @ [w_workId r]
      else filter (\<lambda>x. x \<noteq> w_workId r) openWork)"

definition setWork :: "work_record \<Rightarrow> conversation_state \<Rightarrow> conversation_state" where
  "setWork r s =
     s\<lparr>st_work := js_set (st_work s) (w_workId r) r, st_openWork := update_open (st_openWork s) r\<rparr>"

definition setLabel :: "entry_id \<Rightarrow> string option \<Rightarrow> string \<Rightarrow> conversation_state \<Rightarrow> conversation_state" where
  "setLabel target label timestamp s =
     s\<lparr>st_labels :=
        (case label of
           Some l \<Rightarrow> if l = '''' then js_delete (st_labels s) target
             else js_set (st_labels s) target \<lparr>lab_label = l, lab_timestamp = timestamp\<rparr>
         | None \<Rightarrow> js_delete (st_labels s) target)\<rparr>"

definition appendChild :: "entry_id option \<Rightarrow> entry_id \<Rightarrow> conversation_state \<Rightarrow> conversation_state" where
  "appendChild parentId i s =
     s\<lparr>st_children := js_set (st_children s) parentId
        ((case js_get (st_children s) parentId of None \<Rightarrow> [] | Some cs \<Rightarrow> cs) @ [i])\<rparr>"

section \<open>The branch\<close>

definition rederiveBranch :: "entry_id list \<Rightarrow> nat \<Rightarrow> conversation_state \<Rightarrow> conversation_state" where
  "rederiveBranch branch ordinal s =
     (let derived = deriveBranch (st_byId s) branch in
      s\<lparr>st_branch := branch, st_context := fst derived, st_planning := snd derived,
        st_contextOrdinal := ordinal\<rparr>)"

definition moveLeaf :: "entry_id option \<Rightarrow> nat \<Rightarrow> conversation_state \<Rightarrow> conversation_state option" where
  "moveLeaf target ordinal s =
     (if target = st_leafId s then Some s
      else
        let s1 = s\<lparr>st_leafId := target, st_branchOrdinal := ordinal, st_branchSwitchOrdinal := ordinal\<rparr>
        in map_option (\<lambda>path. rederiveBranch path ordinal s1) (pathTo (st_byId s1) target))"

definition push_message :: "agent_message \<Rightarrow> conversation_state \<Rightarrow> conversation_state" where
  "push_message m s =
     s\<lparr>st_context := (st_context s)\<lparr>ctx_messages := ctx_messages (st_context s) @ [m]\<rparr>\<rparr>"

definition set_model :: "model_ref \<Rightarrow> conversation_state \<Rightarrow> conversation_state" where
  "set_model m s = s\<lparr>st_context := (st_context s)\<lparr>ctx_model := Some m\<rparr>\<rparr>"

text \<open>The \<open>switch\<close> of \<open>appendToBranch\<close> for an entry that extends the branch.\<close>

definition extend_context :: "log_entry \<Rightarrow> conversation_state \<Rightarrow> conversation_state" where
  "extend_context e s =
     (case e_body e of
        Compaction p \<Rightarrow> rederiveBranch (st_branch s) (e_ordinal e) s
      | PlanningStateChange j \<Rightarrow> s\<lparr>st_planning := Some j\<rparr>
      | ModelChange p m \<Rightarrow> (set_model (p, m) s)\<lparr>st_contextOrdinal := e_ordinal e\<rparr>
      | ThinkingLevelChange l \<Rightarrow>
          s\<lparr>st_context := (st_context s)\<lparr>ctx_thinkingLevel := l\<rparr>, st_contextOrdinal := e_ordinal e\<rparr>
      | FastModeChange b \<Rightarrow>
          s\<lparr>st_context := (st_context s)\<lparr>ctx_fastMode := b\<rparr>, st_contextOrdinal := e_ordinal e\<rparr>
      | Message m c \<Rightarrow>
          (case contextMessage e of
             None \<Rightarrow> s
           | Some msg \<Rightarrow>
               let s1 = (case m of
                   AssistantMessage a \<Rightarrow> set_model (a_provider a, a_model a) s | _ \<Rightarrow> s)
               in (push_message msg s1)\<lparr>st_contextOrdinal := e_ordinal e\<rparr>)
      | CustomMessageEntry p \<Rightarrow>
          (case contextMessage e of
             None \<Rightarrow> s | Some msg \<Rightarrow> (push_message msg s)\<lparr>st_contextOrdinal := e_ordinal e\<rparr>)
      | BranchSummary p \<Rightarrow>
          (case contextMessage e of
             None \<Rightarrow> s | Some msg \<Rightarrow> (push_message msg s)\<lparr>st_contextOrdinal := e_ordinal e\<rparr>)
      | _ \<Rightarrow> s)"

definition appendToBranch :: "log_entry \<Rightarrow> conversation_state \<Rightarrow> conversation_state option" where
  "appendToBranch e s =
     (let extendsBranch = (e_parentId e = st_leafId s);
          s1 = s\<lparr>st_leafId := Some (e_id e), st_branchOrdinal := e_ordinal e\<rparr>
      in if \<not> extendsBranch
         then map_option
           (\<lambda>path. rederiveBranch path (e_ordinal e) (s1\<lparr>st_branchSwitchOrdinal := e_ordinal e\<rparr>))
           (pathTo (st_byId s1) (Some (e_id e)))
         else
           let s2 = s1\<lparr>st_branch := st_branch s1 @ [e_id e]\<rparr>
           in Some (if isCoreLogEntry e then extend_context e s2 else s2))"

section \<open>One entry, and the fold\<close>

definition move_branch :: "log_entry \<Rightarrow> conversation_state \<Rightarrow> conversation_state option" where
  "move_branch e s =
     (case e_body e of
        Leaf target \<Rightarrow> moveLeaf target (e_ordinal e) s
      | _ \<Rightarrow> if e_visibility e = Public then appendToBranch e s else Some s)"

definition set_records ::
    "log_entry \<Rightarrow> client_input_record option \<Rightarrow> work_record option \<Rightarrow> conversation_state \<Rightarrow> conversation_state" where
  "set_records e input work s =
     (let s1 = s\<lparr>st_byId := js_set (st_byId s) (e_id e) e\<rparr>;
          s2 = (if e_visibility e = Public then appendChild (e_parentId e) (e_id e) s1 else s1);
          s3 = (case input of None \<Rightarrow> s2 | Some r \<Rightarrow> setClientInput r s2);
          s4 = (case work of None \<Rightarrow> s3 | Some r \<Rightarrow> setWork r s3);
          s5 = (case e_body e of Label t l \<Rightarrow> setLabel t l (e_timestamp e) s4 | _ \<Rightarrow> s4)
      in (case e_body e of SessionInfo n \<Rightarrow> s5\<lparr>st_name := trim_or_null n\<rparr> | _ \<Rightarrow> s5))"

definition next_work :: "conversation_state \<Rightarrow> log_entry \<Rightarrow> fold_error_kind + work_record option" where
  "next_work s e =
     (case reduceWork (st_work s) (named_parents (st_work s)) (e_ordinal e) (e_body e) of
        None \<Rightarrow> Inr None
      | Some (Inl err) \<Rightarrow> Inl (WorkViolation err)
      | Some (Inr r) \<Rightarrow> Inr (Some r))"

definition apply_kind :: "conversation_state \<Rightarrow> log_entry \<Rightarrow> fold_error_kind + conversation_state" where
  "apply_kind s e =
     res_bind (validateEnvelope s e) (\<lambda>_.
     res_bind (validateReferences s e) (\<lambda>_.
     res_bind (nextClientInput (st_inputs s) e) (\<lambda>input.
     res_bind (next_work s e) (\<lambda>work.
       case move_branch e (set_records e input work s) of
         None \<Rightarrow> Inl NoReturn
       | Some s' \<Rightarrow> Inr (s'\<lparr>st_ordinal := e_ordinal e\<rparr>)))))"

definition apply_entry :: "conversation_state \<Rightarrow> log_entry \<Rightarrow> fold_error + conversation_state" where
  "apply_entry s e = map_sum (fold_fail e) id (apply_kind s e)"

definition fold_log :: "log_entry list \<Rightarrow> conversation_state \<Rightarrow> fold_error + conversation_state" where
  "fold_log es s = res_fold apply_entry s es"

section \<open>Recovery of client inputs\<close>

datatype client_input_recovery =
    Idle
  | Replay "client_input_record list"
  | Blocked "client_input_record list" client_input_record

definition clientInputRecovery :: "conversation_state \<Rightarrow> client_input_recovery" where
  "clientInputRecovery s =
     (let records = List.map_filter (js_get (st_inputs s)) (st_queued s);
          blocker = (case st_started s of [] \<Rightarrow> None | c # _ \<Rightarrow> js_get (st_inputs s) c)
      in case blocker of
           Some b \<Rightarrow> Blocked records b
         | None \<Rightarrow> if records \<noteq> [] then Replay records else Idle)"

section \<open>Snapshot and restore\<close>

record conversation_snapshot =
  sn_ordinal :: nat
  sn_entries :: "log_entry list"
  sn_leafId :: "entry_id option"
  sn_branchOrdinal :: nat
  sn_branchSwitchOrdinal :: nat
  sn_contextOrdinal :: nat
  sn_labels :: "(entry_id \<times> conversation_label) list"
  sn_name :: "string option"
  sn_clientInputs :: "client_input_record list"

definition snapshot :: "conversation_state \<Rightarrow> conversation_snapshot" where
  "snapshot s =
     \<lparr>sn_ordinal = st_ordinal s, sn_entries = js_values (st_byId s), sn_leafId = st_leafId s,
      sn_branchOrdinal = st_branchOrdinal s, sn_branchSwitchOrdinal = st_branchSwitchOrdinal s,
      sn_contextOrdinal = st_contextOrdinal s, sn_labels = st_labels s, sn_name = st_name s,
      sn_clientInputs = js_values (st_inputs s)\<rparr>"

definition rebuild_step :: "work_map \<times> work_id set \<Rightarrow> log_entry \<Rightarrow> fold_error + work_map \<times> work_id set" where
  "rebuild_step acc e =
     (case reduceWork (fst acc) (snd acc) (e_ordinal e) (e_body e) of
        None \<Rightarrow> Inr acc
      | Some (Inl err) \<Rightarrow> Inl (fold_fail e (WorkViolation err))
      | Some (Inr r) \<Rightarrow>
          Inr (js_set (fst acc) (w_workId r) r,
            (case w_parentWorkId r of None \<Rightarrow> snd acc | Some p \<Rightarrow> insert p (snd acc))))"

definition rebuildWork :: "log_entry list \<Rightarrow> fold_error + work_map \<times> work_id list" where
  "rebuildWork es =
     res_bind (res_fold rebuild_step ([], {}) es) (\<lambda>acc.
       Inr (fst acc, map w_workId (filter (\<lambda>r. w_outcome r = None) (js_values (fst acc)))))"

definition restore_children :: "log_entry list \<Rightarrow> (entry_id option, entry_id list) js_map" where
  "restore_children es =
     foldl (\<lambda>m e. if e_visibility e \<noteq> Public then m
        else js_set m (e_parentId e)
          ((case js_get m (e_parentId e) of None \<Rightarrow> [] | Some cs \<Rightarrow> cs) @ [e_id e])) [] es"

definition lifecycle_ids :: "entry_map \<Rightarrow> input_map \<Rightarrow> (client_input_record \<Rightarrow> bool) \<Rightarrow> client_message_id list" where
  "lifecycle_ids byId inputs member =
     map ir_clientMessageId (sort_key (record_admission byId) (filter member (js_values inputs)))"

datatype restore_error = RestoreWork fold_error | RestoreNoReturn

definition restore :: "conversation_snapshot \<Rightarrow> restore_error + conversation_state" where
  "restore v =
     (let byId = js_map_of (map (\<lambda>e. (e_id e, e)) (sn_entries v));
          inputs = js_map_of (map (\<lambda>r. (ir_clientMessageId r, r)) (sn_clientInputs v))
      in case pathTo byId (sn_leafId v) of
           None \<Rightarrow> Inl RestoreNoReturn
         | Some branch \<Rightarrow>
             let derived = deriveBranch byId branch in
             res_bind (map_sum RestoreWork id (rebuildWork (sn_entries v))) (\<lambda>wo.
               Inr \<lparr>st_ordinal = sn_ordinal v, st_byId = byId,
                 st_children = restore_children (sn_entries v), st_leafId = sn_leafId v,
                 st_branch = branch, st_branchOrdinal = sn_branchOrdinal v,
                 st_branchSwitchOrdinal = sn_branchSwitchOrdinal v, st_context = fst derived,
                 st_contextOrdinal = sn_contextOrdinal v, st_planning = snd derived,
                 st_labels = js_map_of (sn_labels v), st_name = sn_name v, st_inputs = inputs,
                 st_queued = lifecycle_ids byId inputs is_queued,
                 st_started = lifecycle_ids byId inputs is_started,
                 st_work = fst wo, st_openWork = snd wo\<rparr>))"

end
