(* ===== verification/Entry_Json.thy ===== *)
theory Entry_Json
  imports Entries
begin

text \<open>
  The JSON objects of entry drafts, with the property names of
  \<^verbatim>\<open>packages/protocol/src/entries.ts\<close> and \<^verbatim>\<open>packages/ai/src/schemas.ts\<close>: an absent optional
  property is left out. \<open>sameJson\<close> (\<^verbatim>\<open>in-memory-log.ts\<close>) compares them without regard to key order.
\<close>

definition jnat :: "nat \<Rightarrow> json" where
  "jnat n = JNum (int n)"

definition opt_field :: "string \<Rightarrow> ('a \<Rightarrow> json) \<Rightarrow> 'a option \<Rightarrow> (string \<times> json) list" where
  "opt_field k f x = (case x of None \<Rightarrow> [] | Some v \<Rightarrow> [(k, f v)])"

definition nullable :: "('a \<Rightarrow> json) \<Rightarrow> 'a option \<Rightarrow> json" where
  "nullable f x = (case x of None \<Rightarrow> JNull | Some v \<Rightarrow> f v)"

definition strings_json :: "string list \<Rightarrow> json" where
  "strings_json xs = JArr (map JStr xs)"

section \<open>Messages\<close>

fun content_block_json :: "content_block \<Rightarrow> json" where
  "content_block_json (TextContent t sig) =
     JObj ([(''type'', JStr ''text''), (''text'', JStr t)] @ opt_field ''textSignature'' JStr sig)"
| "content_block_json (ImageContent d m) =
     JObj [(''type'', JStr ''image''), (''data'', JStr d), (''mimeType'', JStr m)]"

fun user_content_json :: "user_content \<Rightarrow> json" where
  "user_content_json (PlainText t) = JStr t"
| "user_content_json (Blocks bs) = JArr (map content_block_json bs)"

fun assistant_block_json :: "assistant_block \<Rightarrow> json" where
  "assistant_block_json (AText t sig) =
     JObj ([(''type'', JStr ''text''), (''text'', JStr t)] @ opt_field ''textSignature'' JStr sig)"
| "assistant_block_json (AThinking t sig r) =
     JObj ([(''type'', JStr ''thinking''), (''thinking'', JStr t)]
       @ opt_field ''thinkingSignature'' JStr sig @ opt_field ''redacted'' JBool r)"
| "assistant_block_json (AToolCall i n args sig) =
     JObj ([(''type'', JStr ''toolCall''), (''id'', JStr i), (''name'', JStr n),
        (''arguments'', args)] @ opt_field ''thoughtSignature'' JStr sig)"

fun stop_reason_string :: "stop_reason \<Rightarrow> string" where
  "stop_reason_string Stop = ''stop''"
| "stop_reason_string Length = ''length''"
| "stop_reason_string ToolUse = ''toolUse''"
| "stop_reason_string ErrorStop = ''error''"
| "stop_reason_string Aborted = ''aborted''"

fun log_message_json :: "log_message \<Rightarrow> json" where
  "log_message_json (UserMessage m) =
     JObj [(''role'', JStr ''user''), (''content'', user_content_json (u_content m)),
        (''timestamp'', JNum (u_timestamp m))]"
| "log_message_json (AssistantMessage m) =
     JObj ([(''role'', JStr ''assistant''),
        (''content'', JArr (map assistant_block_json (a_content m))),
        (''api'', JStr (a_api m)), (''provider'', JStr (a_provider m)), (''model'', JStr (a_model m))]
       @ opt_field ''responseModel'' JStr (a_responseModel m)
       @ opt_field ''responseId'' JStr (a_responseId m)
       @ opt_field ''diagnostics'' (\<lambda>j. j) (a_diagnostics m)
       @ [(''usage'', a_usage m), (''stopReason'', JStr (stop_reason_string (a_stopReason m)))]
       @ opt_field ''error'' (\<lambda>j. j) (a_error m)
       @ [(''timestamp'', JNum (a_timestamp m))])"
| "log_message_json (ToolResultMessage m) =
     JObj ([(''role'', JStr ''toolResult''), (''toolCallId'', JStr (t_toolCallId m)),
        (''toolName'', JStr (t_toolName m)),
        (''content'', JArr (map content_block_json (t_content m)))]
       @ opt_field ''details'' (\<lambda>j. j) (t_details m)
       @ [(''isError'', JBool (t_isError m)), (''timestamp'', JNum (t_timestamp m))]
       @ opt_field ''durationMs'' jnat (t_durationMs m))"
| "log_message_json (BashExecutionMessage m) =
     JObj ([(''role'', JStr ''bashExecution''), (''command'', JStr (b_command m)),
        (''output'', JStr (b_output m))]
       @ opt_field ''exitCode'' JNum (b_exitCode m)
       @ [(''cancelled'', JBool (b_cancelled m)), (''truncated'', JBool (b_truncated m))]
       @ opt_field ''fullOutputPath'' JStr (b_fullOutputPath m)
       @ [(''timestamp'', JNum (b_timestamp m))]
       @ opt_field ''excludeFromContext'' JBool (b_excludeFromContext m))"
| "log_message_json (CustomMessage m) =
     JObj ([(''role'', JStr ''custom''), (''customType'', JStr (c_customType m)),
        (''content'', user_content_json (c_content m)), (''display'', JBool (c_display m))]
       @ opt_field ''details'' (\<lambda>j. j) (c_details m)
       @ [(''timestamp'', JNum (c_timestamp m))])"

section \<open>Payloads\<close>

fun command_string :: "client_input_command \<Rightarrow> string" where
  "command_string Prompt = ''prompt''"
| "command_string Steer = ''steer''"
| "command_string FollowUp = ''follow_up''"

fun input_state_string :: "client_input_state \<Rightarrow> string" where
  "input_state_string Accepted = ''accepted''"
| "input_state_string Started = ''started''"
| "input_state_string Completed = ''completed''"
| "input_state_string Failed = ''failed''"
| "input_state_string Withdrawn = ''withdrawn''"

fun delivery_string :: "queued_delivery \<Rightarrow> string" where
  "delivery_string DeliverSteer = ''steer''"
| "delivery_string DeliverFollowUp = ''follow_up''"

fun behavior_string :: "streaming_behavior \<Rightarrow> string" where
  "behavior_string StreamSteer = ''steer''"
| "behavior_string StreamFollowUp = ''followUp''"

fun thinking_string :: "thinking_level \<Rightarrow> string" where
  "thinking_string Off = ''off''"
| "thinking_string Minimal = ''minimal''"
| "thinking_string Low = ''low''"
| "thinking_string Medium = ''medium''"
| "thinking_string High = ''high''"
| "thinking_string XHigh = ''xhigh''"
| "thinking_string Max = ''max''"

fun kind_string :: "work_kind \<Rightarrow> string" where
  "kind_string Job = ''job''"
| "kind_string Subagent = ''subagent''"
| "kind_string Review = ''review''"
| "kind_string HostAction = ''host_action''"
| "kind_string (ExtensionKind k) = k"

fun work_state_string :: "work_state \<Rightarrow> string" where
  "work_state_string AwaitingApproval = ''awaiting_approval''"
| "work_state_string Running = ''running''"
| "work_state_string Cancelling = ''cancelling''"

fun outcome_string :: "work_outcome \<Rightarrow> string" where
  "outcome_string WCompleted = ''completed''"
| "outcome_string WFailed = ''failed''"
| "outcome_string WCancelled = ''cancelled''"
| "outcome_string WInterrupted = ''interrupted''"

fun work_delivery_string :: "work_delivery \<Rightarrow> string" where
  "work_delivery_string DeliverNone = ''none''"
| "work_delivery_string DeliverMessage = ''message''"
| "work_delivery_string DeliverWake = ''wake''"

definition input_json :: "client_input_payload \<Rightarrow> json" where
  "input_json i =
     JObj ([(''message'', JStr (ci_message i)),
        (''images'', JArr (map content_block_json (ci_images i)))]
       @ opt_field ''streamingBehavior'' (\<lambda>b. JStr (behavior_string b)) (ci_streamingBehavior i))"

definition queued_input_json :: "client_input_queued_payload \<Rightarrow> json" where
  "queued_input_json q =
     JObj ([(''delivery'', JStr (delivery_string (ciq_delivery q))),
        (''message'', JStr (ciq_message q)),
        (''images'', JArr (map content_block_json (ciq_images q)))]
       @ opt_field ''messages'' (\<lambda>ms. JArr (map log_message_json ms)) (ciq_messages q)
       @ (if ciq_wake q then [(''wake'', JBool False)] else []))"

definition child_json :: "work_child \<Rightarrow> json" where
  "child_json c =
     JObj ([(''conversation'', JStr (wch_conversation c))] @ opt_field ''ref'' (\<lambda>j. j) (wch_ref c))"

definition result_json :: "work_result \<Rightarrow> json" where
  "result_json r =
     JObj (opt_field ''summary'' JStr (wr_summary r)
       @ opt_field ''output''
           (\<lambda>(t, b). JObj [(''text'', JStr t), (''truncated'', JBool b)]) (wr_output r)
       @ opt_field ''child'' (\<lambda>c. JObj [(''conversation'', JStr c)]) (wr_child r)
       @ opt_field ''data'' (\<lambda>j. j) (wr_data r))"

fun type_string :: "entry_body \<Rightarrow> string" where
  "type_string (Message _ _) = ''message''"
| "type_string (ClientInputReceipt _) = ''client_input_receipt''"
| "type_string (ClientInputQueued _) = ''client_input_queued''"
| "type_string (ClientInputStateEntry _) = ''client_input_state''"
| "type_string (ThinkingLevelChange _) = ''thinking_level_change''"
| "type_string (FastModeChange _) = ''fast_mode_change''"
| "type_string (ModelChange _ _) = ''model_change''"
| "type_string (PlanningStateChange _) = ''planning_state_change''"
| "type_string (Compaction _) = ''compaction''"
| "type_string (BranchSummary _) = ''branch_summary''"
| "type_string (CustomEntry _ _) = ''custom''"
| "type_string (CustomMessageEntry _) = ''custom_message''"
| "type_string (Label _ _) = ''label''"
| "type_string (SessionInfo _) = ''session_info''"
| "type_string (Leaf _) = ''leaf''"
| "type_string (ForkedFrom _ _) = ''forked_from''"
| "type_string (WorkStarted _) = ''work_started''"
| "type_string (WorkCheckpoint _) = ''work_checkpoint''"
| "type_string (WorkFinished _) = ''work_finished''"
| "type_string (Product t _) = t"

fun payload_json :: "entry_body \<Rightarrow> json" where
  "payload_json (Message m _) = JObj [(''message'', log_message_json m)]"
| "payload_json (ClientInputReceipt p) =
     JObj ([(''clientMessageId'', JStr (rp_clientMessageId p)),
        (''command'', JStr (command_string (rp_command p))),
        (''semanticDigest'', JStr (rp_semanticDigest p)), (''input'', input_json (rp_input p))]
       @ (if rp_origin p then [(''origin'', JStr ''host'')] else []))"
| "payload_json (ClientInputQueued p) =
     JObj [(''receiptId'', JStr (qp_receiptId p)), (''clientMessageId'', JStr (qp_clientMessageId p)),
        (''queuedInput'', queued_input_json (qp_queuedInput p))]"
| "payload_json (ClientInputStateEntry p) =
     JObj ([(''receiptId'', JStr (sp_receiptId p)), (''clientMessageId'', JStr (sp_clientMessageId p)),
        (''state'', JStr (input_state_string (sp_state p)))] @ opt_field ''error'' JStr (sp_error p))"
| "payload_json (ThinkingLevelChange l) = JObj [(''thinkingLevel'', JStr (thinking_string l))]"
| "payload_json (FastModeChange b) = JObj [(''enabled'', JBool b)]"
| "payload_json (ModelChange p m) = JObj [(''provider'', JStr p), (''modelId'', JStr m)]"
| "payload_json (PlanningStateChange j) = JObj [(''planning'', j)]"
| "payload_json (Compaction p) =
     JObj ([(''summary'', JStr (cp_summary p)), (''firstKeptEntryId'', JStr (cp_firstKeptEntryId p)),
        (''tokensBefore'', jnat (cp_tokensBefore p))]
       @ opt_field ''details'' (\<lambda>j. j) (cp_details p) @ opt_field ''fromHook'' JBool (cp_fromHook p))"
| "payload_json (BranchSummary p) =
     JObj ([(''fromId'', JStr (bs_fromId p)), (''summary'', JStr (bs_summary p)),
        (''readFiles'', strings_json (bs_readFiles p)),
        (''modifiedFiles'', strings_json (bs_modifiedFiles p))]
       @ opt_field ''details'' (\<lambda>j. j) (bs_details p) @ opt_field ''fromHook'' JBool (bs_fromHook p))"
| "payload_json (CustomEntry t d) =
     JObj ([(''customType'', JStr t)] @ opt_field ''data'' (\<lambda>j. j) d)"
| "payload_json (CustomMessageEntry p) =
     JObj ([(''customType'', JStr (cm_customType p)), (''content'', user_content_json (cm_content p))]
       @ opt_field ''details'' (\<lambda>j. j) (cm_details p) @ [(''display'', JBool (cm_display p))])"
| "payload_json (Label t l) = JObj ([(''targetId'', JStr t)] @ opt_field ''label'' JStr l)"
| "payload_json (SessionInfo n) = JObj (opt_field ''name'' JStr n)"
| "payload_json (Leaf t) = JObj [(''targetId'', nullable JStr t)]"
| "payload_json (ForkedFrom s e) = JObj [(''sessionId'', JStr s), (''entryId'', nullable JStr e)]"
| "payload_json (WorkStarted p) =
     JObj ([(''workId'', JStr (ws_workId p)), (''kind'', JStr (kind_string (ws_kind p))),
        (''title'', JStr (ws_title p))]
       @ opt_field ''parentWorkId'' JStr (ws_parentWorkId p)
       @ [(''input'', ws_input p), (''cancellable'', JBool (ws_cancellable p)),
          (''delivery'', JStr (work_delivery_string (ws_delivery p))),
          (''resume'', JBool (ws_resume p)), (''state'', JStr (work_state_string (ws_state p)))]
       @ opt_field ''toolCallId'' JStr (ws_toolCallId p)
       @ opt_field ''child'' child_json (ws_child p)
       @ opt_field ''requires'' strings_json (ws_requires p)
       @ opt_field ''remote''
           (\<lambda>(c, r). JObj [(''cancel'', JBool c), (''resume'', JBool r)]) (ws_remote p)
       @ opt_field ''opens'' JBool (ws_opens p))"
| "payload_json (WorkCheckpoint p) =
     JObj ([(''workId'', JStr (wc_workId p))]
       @ opt_field ''state'' (\<lambda>s. JStr (work_state_string s)) (wc_state p)
       @ opt_field ''progress'' (\<lambda>j. j) (wc_progress p) @ opt_field ''detail'' (\<lambda>j. j) (wc_detail p)
       @ opt_field ''child'' child_json (wc_child p))"
| "payload_json (WorkFinished p) =
     JObj ([(''workId'', JStr (wf_workId p)), (''outcome'', JStr (outcome_string (wf_outcome p)))]
       @ opt_field ''result'' result_json (wf_result p) @ opt_field ''error'' JStr (wf_error p))"
| "payload_json (Product _ j) = j"

fun visibility_string :: "visibility \<Rightarrow> string" where
  "visibility_string Public = ''public''"
| "visibility_string Host = ''host''"

fun envelope_extension :: "entry_body \<Rightarrow> (string \<times> json) list" where
  "envelope_extension (Message _ c) = opt_field ''clientMessageId'' JStr c"
| "envelope_extension _ = []"

definition draft_json :: "entry_draft \<Rightarrow> json" where
  "draft_json d =
     JObj ([(''id'', JStr (d_id d)), (''parentId'', nullable JStr (d_parentId d)),
        (''type'', JStr (type_string (d_body d))), (''timestamp'', JStr (d_timestamp d)),
        (''visibility'', JStr (visibility_string (d_visibility d))),
        (''payload'', payload_json (d_body d))] @ envelope_extension (d_body d))"

section \<open>Structural equality of JSON data\<close>

lemma size_zip_left [termination_simp]:
  "(a, b) \<in> set (zip xs ys) \<Longrightarrow> size a < Suc (size_list size xs)"
  by (auto dest!: set_zip_leftD intro: le_imp_less_Suc size_list_estimation')

fun sameJson :: "json \<Rightarrow> json \<Rightarrow> bool" where
  "sameJson (JArr xs) (JArr ys) =
     (length xs = length ys \<and> list_all (\<lambda>(x, y). sameJson x y) (zip xs ys))"
| "sameJson (JObj xs) (JObj ys) =
     (length xs = length ys \<and>
      list_all (\<lambda>(k, x). case js_get ys k of None \<Rightarrow> False | Some y \<Rightarrow> sameJson x y) xs)"
| "sameJson x y = (x = y)"

text \<open>Objects have one value per key, at every depth.\<close>

fun json_ok :: "json \<Rightarrow> bool" where
  "json_ok (JArr xs) = list_all json_ok xs"
| "json_ok (JObj xs) = (distinct (js_keys xs) \<and> list_all (\<lambda>(k, x). json_ok x) xs)"
| "json_ok _ = True"

lemma sameJson_refl: "json_ok j \<Longrightarrow> sameJson j j"
proof (induction j rule: json_ok.induct)
  case (1 xs)
  then show ?case by (auto simp: list_all_iff zip_same)
next
  case (2 xs)
  have "case js_get xs k of None \<Rightarrow> False | Some y \<Rightarrow> sameJson x y" if "(k, x) \<in> set xs" for k x
    using 2 that js_get_mem [of xs k x] by (auto simp: list_all_iff)
  then show ?case by (auto simp: list_all_iff)
qed auto

end
