(* ===== verification/Conversation_Log.thy ===== *)
theory Conversation_Log
  imports Entry_Json
begin

text \<open>
  The conversation log: its contract (\<^verbatim>\<open>packages/agent/src/conversation/log.ts\<close>) as the locale
  \<open>conversation_log\<close>, and the reference implementation
  (\<^verbatim>\<open>packages/agent/src/conversation/in-memory-log.ts\<close>) as the record \<open>mem_log\<close> with its operations
  \<open>mem_append\<close>, \<open>mem_read\<close> and \<open>mem_close\<close>. A rejected promise is \<open>Inl\<close>; \<open>append\<close> also returns the
  log after the call, whatever the outcome.

  The lemmas show the type invariant (contiguous ordinals, unique ids, every recorded commit's range
  holds exactly its entries), that each operation keeps it, what each branch of \<open>append\<close> does, and
  that the implementation satisfies the contract.
\<close>

section \<open>Data\<close>

datatype loss_reason = FenceConflict | UncertainCommit | StorageFailure | LogClosed

record log_append =
  ap_expectedOrdinal :: nat
  ap_commitId :: string
  ap_entries :: "entry_draft list"

datatype rollback_reason =
    CommitIdReused string
  | EmptyCommitId
  | EmptyBatch
  | EntryIdInLog entry_id
  | BatchInvalid
  | RequestFailed

datatype append_result = Committed nat nat | RolledBack rollback_reason

record log_page =
  pg_entries :: "log_entry list"
  pg_lastOrdinal :: nat

datatype read_error = ReadLost loss_reason | BadAfterOrdinal | BadLimit

definition CONVERSATION_LOG_READ_LIMIT_MAX :: int where
  "CONVERSATION_LOG_READ_LIMIT_MAX = 1000"

record commit_record =
  cr_expectedOrdinal :: nat
  cr_entries :: "entry_draft list"
  cr_first :: nat
  cr_last :: nat

record mem_log =
  ml_entries :: "log_entry list"
  ml_entryIds :: "entry_id set"
  ml_commits :: "(string, commit_record) js_map"
  ml_lostError :: "loss_reason option"

definition empty_mem_log :: mem_log where
  "empty_mem_log =
     \<lparr>ml_entries = [], ml_entryIds = {}, ml_commits = [], ml_lostError = None\<rparr>"

section \<open>Operations\<close>

definition mem_head :: "mem_log \<Rightarrow> nat" where
  "mem_head l = length (ml_entries l)"

definition sameDrafts :: "entry_draft list \<Rightarrow> entry_draft list \<Rightarrow> bool" where
  "sameDrafts xs ys = sameJson (JArr (map draft_json xs)) (JArr (map draft_json ys))"

text \<open>The first id of the batch that the log or an earlier entry of the batch has.\<close>

fun first_duplicate :: "entry_id set \<Rightarrow> entry_id set \<Rightarrow> entry_draft list \<Rightarrow> entry_id option" where
  "first_duplicate ids batchIds [] = None"
| "first_duplicate ids batchIds (d # ds) =
     (if d_id d \<in> ids \<or> d_id d \<in> batchIds then Some (d_id d)
      else first_duplicate ids (insert (d_id d) batchIds) ds)"

definition stamp_drafts :: "nat \<Rightarrow> entry_draft list \<Rightarrow> log_entry list" where
  "stamp_drafts head ds = map (\<lambda>(i, d). commit_entry (head + i + 1) d) (enumerate 0 ds)"

definition mem_append :: "mem_log \<Rightarrow> log_append \<Rightarrow> (loss_reason + append_result) \<times> mem_log" where
  "mem_append l b =
     (case ml_lostError l of
        Some e \<Rightarrow> (Inl e, l)
      | None \<Rightarrow>
        (case js_get (ml_commits l) (ap_commitId b) of
           Some previous \<Rightarrow>
             if cr_expectedOrdinal previous = ap_expectedOrdinal b
                \<and> sameDrafts (cr_entries previous) (ap_entries b)
             then (Inr (Committed (cr_first previous) (cr_last previous)), l)
             else (Inr (RolledBack (CommitIdReused (ap_commitId b))), l)
         | None \<Rightarrow>
           let head = mem_head l in
           if ap_expectedOrdinal b \<noteq> head then (Inl FenceConflict, l\<lparr>ml_lostError := Some FenceConflict\<rparr>)
           else if ap_commitId b = '''' then (Inr (RolledBack EmptyCommitId), l)
           else if ap_entries b = [] then (Inr (RolledBack EmptyBatch), l)
           else
             (case first_duplicate (ml_entryIds l) {} (ap_entries b) of
                Some i \<Rightarrow> (Inr (RolledBack (EntryIdInLog i)), l)
              | None \<Rightarrow>
                let n = length (ap_entries b) in
                (Inr (Committed (head + 1) (head + n)),
                 l\<lparr>ml_entries := ml_entries l @ stamp_drafts head (ap_entries b),
                   ml_entryIds := ml_entryIds l \<union> d_id ` set (ap_entries b),
                   ml_commits := js_set (ml_commits l) (ap_commitId b)
                     \<lparr>cr_expectedOrdinal = ap_expectedOrdinal b, cr_entries = ap_entries b,
                      cr_first = head + 1, cr_last = head + n\<rparr>\<rparr>))))"

definition safe_integer :: "int \<Rightarrow> bool" where
  "safe_integer n \<longleftrightarrow> \<bar>n\<bar> \<le> int max_safe_integer"

definition mem_read :: "mem_log \<Rightarrow> int \<Rightarrow> int \<Rightarrow> read_error + log_page" where
  "mem_read l afterOrdinal limit =
     (case ml_lostError l of
        Some e \<Rightarrow> Inl (ReadLost e)
      | None \<Rightarrow>
        if \<not> safe_integer afterOrdinal \<or> afterOrdinal < 0 then Inl BadAfterOrdinal
        else if \<not> safe_integer limit \<or> limit < 1 \<or> limit > CONVERSATION_LOG_READ_LIMIT_MAX
        then Inl BadLimit
        else Inr \<lparr>pg_entries = take (nat limit) (drop (nat afterOrdinal) (ml_entries l)),
                  pg_lastOrdinal = mem_head l\<rparr>)"

definition mem_close :: "mem_log \<Rightarrow> mem_log" where
  "mem_close l = (if ml_lostError l = None then l\<lparr>ml_lostError := Some LogClosed\<rparr> else l)"

text \<open>Ordinals are contiguous and start at 1.\<close>

definition contiguous :: "log_entry list \<Rightarrow> bool" where
  "contiguous es \<longleftrightarrow> map e_ordinal es = map Suc [0..<length es]"

section \<open>The contract\<close>

text \<open>
  What a log promises its writer and its readers. \<open>used\<close> are the commit ids of the batches it
  committed; a batch with a used id is a retry. A log that loses an append with \<open>UncertainCommit\<close> may or may
  not hold its entries; any other failed append leaves the entries alone.
\<close>

locale conversation_log =
  fixes entries :: "'l \<Rightarrow> log_entry list"
    and append :: "'l \<Rightarrow> log_append \<Rightarrow> (loss_reason + append_result) \<times> 'l"
    and read :: "'l \<Rightarrow> int \<Rightarrow> int \<Rightarrow> read_error + log_page"
    and lost :: "'l \<Rightarrow> loss_reason option"
    and used :: "'l \<Rightarrow> string set"
    and inv :: "'l \<Rightarrow> bool"
  assumes inv_append: "inv l \<Longrightarrow> append l b = (r, l') \<Longrightarrow> inv l'"
    and ordinals: "inv l \<Longrightarrow> contiguous (entries l)"
    and append_lost: "lost l = Some x \<Longrightarrow> append l b = (Inl x, l)"
    and append_loses: "append l b = (Inl x, l') \<Longrightarrow> used l' = used l \<and> lost l' = Some x"
    and append_keeps: "inv l \<Longrightarrow> append l b = (Inl x, l') \<Longrightarrow> x \<noteq> UncertainCommit \<Longrightarrow> entries l' = entries l"
    and append_uncertain:
      "inv l \<Longrightarrow> append l b = (Inl x, l') \<Longrightarrow>
       entries l' = entries l \<or> entries l' = entries l @ stamp_drafts (length (entries l)) (ap_entries b)"
    and append_rolled_back:
      "inv l \<Longrightarrow> append l b = (Inr (RolledBack why), l') \<Longrightarrow>
       entries l' = entries l \<and> used l' = used l \<and> lost l' = lost l"
    and append_commits:
      "inv l \<Longrightarrow> append l b = (Inr (Committed m n), l') \<Longrightarrow> ap_commitId b \<notin> used l \<Longrightarrow>
       ap_expectedOrdinal b = length (entries l) \<and> lost l' = None \<and>
       entries l' = entries l @ stamp_drafts (length (entries l)) (ap_entries b) \<and>
       m = length (entries l) + 1 \<and> n = length (entries l) + length (ap_entries b) \<and>
       used l' = insert (ap_commitId b) (used l)"
    and append_retries:
      "append l b = (Inr (Committed m n), l') \<Longrightarrow> ap_commitId b \<in> used l \<Longrightarrow> l' = l"
    and read_page:
      "inv l \<Longrightarrow> lost l = None \<Longrightarrow> 0 \<le> a \<Longrightarrow> a \<le> int (length (entries l)) \<Longrightarrow>
       length (entries l) \<le> max_safe_integer \<Longrightarrow> 1 \<le> k \<Longrightarrow> k \<le> CONVERSATION_LOG_READ_LIMIT_MAX \<Longrightarrow>
       read l a k = Inr \<lparr>pg_entries = take (nat k) (drop (nat a) (entries l)),
                         pg_lastOrdinal = length (entries l)\<rparr>"
begin

lemma entries_prefix: "inv l \<Longrightarrow> append l b = (r, l') \<Longrightarrow> \<exists>es. entries l' = entries l @ es"
proof (cases r)
  case (Inl x)
  assume "append l b = (r, l')"
  with Inl have lost: "append l b = (Inl x, l')" by simp
  assume inv: "inv l"
  from append_uncertain [OF inv lost] show ?thesis by auto
next
  case (Inr a)
  assume inv: "inv l" and app: "append l b = (r, l')"
  show ?thesis
  proof (cases a)
    case (Committed m n)
    with Inr app have c: "append l b = (Inr (Committed m n), l')" by simp
    show ?thesis
    proof (cases "ap_commitId b \<in> used l")
      case True
      from append_retries [OF c True] show ?thesis by simp
    next
      case False
      from append_commits [OF inv c False] show ?thesis by simp
    qed
  next
    case (RolledBack x)
    with Inr app have "append l b = (Inr (RolledBack x), l')" by simp
    from append_rolled_back [OF inv this] show ?thesis by simp
  qed
qed

end

text \<open>A log that always knows what it committed.\<close>

locale certain_log = conversation_log +
  assumes append_certain: "lost l = None \<Longrightarrow> append l b \<noteq> (Inl UncertainCommit, l')"
begin

lemma append_lost_keeps:
  assumes inv: "inv l" and app: "append l b = (Inl x, l')"
  shows "entries l' = entries l"
proof (cases "lost l")
  case None
  from append_certain [OF None, of b l'] app have "x \<noteq> UncertainCommit" by auto
  from append_keeps [OF inv app this] show ?thesis .
next
  case (Some y)
  from append_lost [OF Some, of b] app show ?thesis by simp
qed

end

section \<open>The invariant of the reference log\<close>

definition commit_ok :: "log_entry list \<Rightarrow> commit_record \<Rightarrow> bool" where
  "commit_ok es c \<longleftrightarrow>
     cr_first c = cr_expectedOrdinal c + 1 \<and>
     cr_last c = cr_expectedOrdinal c + length (cr_entries c) \<and> cr_last c \<le> length es \<and>
     cr_entries c \<noteq> [] \<and>
     take (length (cr_entries c)) (drop (cr_expectedOrdinal c) es) =
       stamp_drafts (cr_expectedOrdinal c) (cr_entries c)"

definition mem_log_ok :: "mem_log \<Rightarrow> bool" where
  "mem_log_ok l \<longleftrightarrow>
     contiguous (ml_entries l) \<and>
     distinct (map e_id (ml_entries l)) \<and>
     ml_entryIds l = e_id ` set (ml_entries l) \<and>
     (\<forall>k c. js_get (ml_commits l) k = Some c \<longrightarrow> k \<noteq> '''' \<and> commit_ok (ml_entries l) c)"

lemma length_stamp_drafts [simp]: "length (stamp_drafts n ds) = length ds"
  by (simp add: stamp_drafts_def)

lemma commit_entry_sel [simp]:
  "e_ordinal (commit_entry n d) = n" "e_id (commit_entry n d) = d_id d"
  "e_parentId (commit_entry n d) = d_parentId d" "e_body (commit_entry n d) = d_body d"
  "e_visibility (commit_entry n d) = d_visibility d"
  "e_timestamp (commit_entry n d) = d_timestamp d"
  by (simp_all add: commit_entry_def)

lemma contiguous_Nil [simp]: "contiguous []"
  by (simp add: contiguous_def)

lemma contiguous_nth: "contiguous es \<Longrightarrow> i < length es \<Longrightarrow> e_ordinal (es ! i) = Suc i"
  by (metis (no_types, lifting) contiguous_def length_map nth_map map_nth nth_upt add_0 diff_zero length_upt)

lemma contiguous_snoc: "contiguous (es @ [e]) \<longleftrightarrow> contiguous es \<and> e_ordinal e = Suc (length es)"
  by (auto simp: contiguous_def)

lemma stamp_drafts_snoc:
  "stamp_drafts n (ds @ [d]) = stamp_drafts n ds @ [commit_entry (n + length ds + 1) d]"
  by (simp add: stamp_drafts_def enumerate_append_eq)

lemma stamp_drafts_Nil [simp]: "stamp_drafts n [] = []"
  by (simp add: stamp_drafts_def)

lemma contiguous_stamp: "contiguous es \<Longrightarrow> contiguous (es @ stamp_drafts (length es) ds)"
proof (induction ds rule: rev_induct)
  case (snoc d ds)
  then show ?case
    using contiguous_snoc [of "es @ stamp_drafts (length es) ds"] by (simp add: stamp_drafts_snoc)
qed simp

lemma stamp_drafts_ids: "map e_id (stamp_drafts n ds) = map d_id ds"
  by (rule nth_equalityI) (auto simp: stamp_drafts_def nth_enumerate_eq)

lemma first_duplicate_None:
  "first_duplicate ids seen ds = None \<longleftrightarrow>
   distinct (map d_id ds) \<and> (\<forall>d\<in>set ds. d_id d \<notin> ids \<and> d_id d \<notin> seen)"
  by (induction ids seen ds rule: first_duplicate.induct) (auto simp: image_iff)

lemma commit_ok_append: "commit_ok es c \<Longrightarrow> commit_ok (es @ es') c"
  by (auto simp: commit_ok_def)

lemma empty_mem_log_ok: "mem_log_ok empty_mem_log"
  by (simp add: mem_log_ok_def empty_mem_log_def)

lemma mem_close_ok: "mem_log_ok l \<Longrightarrow> mem_log_ok (mem_close l)"
  by (simp add: mem_log_ok_def mem_close_def)

text \<open>Every way \<open>append\<close> can end, for the case analyses below.\<close>

lemma mem_append_cases:
  assumes "mem_append l b = (r, l')"
  obtains
    (lost) e where "ml_lostError l = Some e" "r = Inl e" "l' = l"
  | (retry) c where "ml_lostError l = None" "js_get (ml_commits l) (ap_commitId b) = Some c"
      "cr_expectedOrdinal c = ap_expectedOrdinal b" "sameDrafts (cr_entries c) (ap_entries b)"
      "r = Inr (Committed (cr_first c) (cr_last c))" "l' = l"
  | (rolled_back) x where "ml_lostError l = None" "r = Inr (RolledBack x)" "l' = l"
  | (fence) "ml_lostError l = None" "js_get (ml_commits l) (ap_commitId b) = None"
      "ap_expectedOrdinal b \<noteq> mem_head l" "r = Inl FenceConflict"
      "l' = l\<lparr>ml_lostError := Some FenceConflict\<rparr>"
  | (commit) "ml_lostError l = None" "js_get (ml_commits l) (ap_commitId b) = None"
      "ap_expectedOrdinal b = mem_head l" "ap_commitId b \<noteq> ''''" "ap_entries b \<noteq> []"
      "first_duplicate (ml_entryIds l) {} (ap_entries b) = None"
      "r = Inr (Committed (mem_head l + 1) (mem_head l + length (ap_entries b)))"
      "l' = l\<lparr>ml_entries := ml_entries l @ stamp_drafts (mem_head l) (ap_entries b),
              ml_entryIds := ml_entryIds l \<union> d_id ` set (ap_entries b),
              ml_commits := js_set (ml_commits l) (ap_commitId b)
                \<lparr>cr_expectedOrdinal = ap_expectedOrdinal b, cr_entries = ap_entries b,
                 cr_first = mem_head l + 1, cr_last = mem_head l + length (ap_entries b)\<rparr>\<rparr>"
  using assms
  by (auto simp: mem_append_def Let_def split: option.splits if_splits)

lemma mem_append_ok:
  assumes ok: "mem_log_ok l" and app: "mem_append l b = (r, l')"
  shows "mem_log_ok l'"
  using app
proof (cases rule: mem_append_cases)
  case commit
  let ?n = "length (ml_entries l)"
  let ?new = "stamp_drafts ?n (ap_entries b)"
  have entries: "ml_entries l' = ml_entries l @ ?new"
    using commit(8) by (simp add: mem_head_def)
  have ids: "e_id ` set ?new = d_id ` set (ap_entries b)"
    using stamp_drafts_ids [of ?n "ap_entries b"] by (metis list.set_map)
  have "contiguous (ml_entries l')"
    using ok entries by (simp add: mem_log_ok_def contiguous_stamp)
  moreover have "distinct (map e_id (ml_entries l'))"
  proof -
    have "ml_entryIds l \<inter> d_id ` set (ap_entries b) = {}"
      using commit(6) by (auto simp: first_duplicate_None)
    then have "e_id ` set (ml_entries l) \<inter> d_id ` set (ap_entries b) = {}"
      using ok by (simp add: mem_log_ok_def)
    with ok entries ids commit(6) show ?thesis
      by (simp add: mem_log_ok_def stamp_drafts_ids first_duplicate_None)
  qed
  moreover have "ml_entryIds l' = e_id ` set (ml_entries l')"
    using ok entries ids commit(8) by (simp add: mem_log_ok_def image_Un)
  moreover have "k \<noteq> '''' \<and> commit_ok (ml_entries l') c" if "js_get (ml_commits l') k = Some c" for k c
  proof (cases "k = ap_commitId b")
    case True
    with that commit have "c = \<lparr>cr_expectedOrdinal = ?n, cr_entries = ap_entries b,
        cr_first = ?n + 1, cr_last = ?n + length (ap_entries b)\<rparr>"
      by (simp add: js_get_set mem_head_def)
    with True commit(4,5) entries show ?thesis by (simp add: commit_ok_def)
  next
    case False
    with that commit have "js_get (ml_commits l) k = Some c" by (simp add: js_get_set)
    with ok entries show ?thesis by (auto simp: mem_log_ok_def intro: commit_ok_append)
  qed
  ultimately show ?thesis by (simp add: mem_log_ok_def)
qed (use ok in \<open>auto simp: mem_log_ok_def\<close>)

interpretation mem: certain_log ml_entries mem_append mem_read ml_lostError
  "\<lambda>l. set (js_keys (ml_commits l))" mem_log_ok
proof unfold_locales
  fix l b r l'
  show "mem_log_ok l \<Longrightarrow> mem_append l b = (r, l') \<Longrightarrow> mem_log_ok l'" by (rule mem_append_ok)
next
  fix l x b
  show "ml_lostError l = Some x \<Longrightarrow> mem_append l b = (Inl x, l)" by (simp add: mem_append_def)
next
  fix l b x l'
  assume "mem_append l b = (Inl x, l')"
  then show "set (js_keys (ml_commits l')) = set (js_keys (ml_commits l)) \<and> ml_lostError l' = Some x"
    by (cases rule: mem_append_cases) auto
next
  fix l b x l'
  assume "mem_append l b = (Inl x, l')"
  then show "ml_entries l' = ml_entries l"
    by (cases rule: mem_append_cases) auto
next
  fix l b x l'
  assume "mem_append l b = (Inl x, l')"
  then show "ml_entries l' = ml_entries l \<or> ml_entries l' = ml_entries l @ stamp_drafts (length (ml_entries l)) (ap_entries b)"
    by (cases rule: mem_append_cases) auto
next
  fix l b x l'
  assume "mem_append l b = (Inr (RolledBack x), l')"
  then show "ml_entries l' = ml_entries l \<and> set (js_keys (ml_commits l')) = set (js_keys (ml_commits l)) \<and> ml_lostError l' = ml_lostError l"
    by (cases rule: mem_append_cases) auto
next
  fix l :: mem_log and b l'
  assume "ml_lostError l = None"
  then show "mem_append l b \<noteq> (Inl UncertainCommit, l')"
    by (auto elim!: mem_append_cases)
next
  fix l b m n l'
  assume "mem_append l b = (Inr (Committed m n), l')"
    and "ap_commitId b \<notin> set (js_keys (ml_commits l))"
  then show "ap_expectedOrdinal b = length (ml_entries l) \<and> ml_lostError l' = None \<and>
       ml_entries l' = ml_entries l @ stamp_drafts (length (ml_entries l)) (ap_entries b) \<and>
       m = length (ml_entries l) + 1 \<and> n = length (ml_entries l) + length (ap_entries b) \<and>
       set (js_keys (ml_commits l')) = insert (ap_commitId b) (set (js_keys (ml_commits l)))"
    by (cases rule: mem_append_cases) (auto simp: mem_head_def js_keys_set dest: js_get_Some_key)
next
  fix l b m n l'
  assume "mem_append l b = (Inr (Committed m n), l')"
    and "ap_commitId b \<in> set (js_keys (ml_commits l))"
  then show "l' = l"
    by (cases rule: mem_append_cases) (auto simp: js_get_None_iff)
qed (auto simp: mem_log_ok_def mem_read_def mem_head_def safe_integer_def max_safe_integer_def
    CONVERSATION_LOG_READ_LIMIT_MAX_def)

section \<open>Durability and retries\<close>

definition mem_appends :: "mem_log \<Rightarrow> log_append list \<Rightarrow> mem_log" where
  "mem_appends l bs = foldl (\<lambda>l b. snd (mem_append l b)) l bs"

definition draft_ok :: "entry_draft \<Rightarrow> bool" where
  "draft_ok d = json_ok (draft_json d)"

lemma sameDrafts_refl: "list_all draft_ok ds \<Longrightarrow> sameDrafts ds ds"
  unfolding sameDrafts_def by (intro sameJson_refl) (simp add: list_all_iff draft_ok_def)

lemma mem_append_keeps_commit:
  "js_get (ml_commits l) k = Some c \<Longrightarrow> mem_append l b = (r, l') \<Longrightarrow>
   js_get (ml_commits l') k = Some c"
  by (erule mem_append_cases) (auto simp: js_get_set)

lemma mem_append_lost_stays:
  "mem_append l b = (r, l') \<Longrightarrow> ml_lostError l' = None \<Longrightarrow> ml_lostError l = None"
  by (erule mem_append_cases) auto

lemma mem_appends_Cons: "mem_appends l (b # bs) = mem_appends (snd (mem_append l b)) bs"
  by (simp add: mem_appends_def)

lemma mem_appends_keeps_commit:
  "js_get (ml_commits l) k = Some c \<Longrightarrow> js_get (ml_commits (mem_appends l bs)) k = Some c"
proof (induction bs arbitrary: l)
  case (Cons b bs)
  from Cons.prems have "js_get (ml_commits (snd (mem_append l b))) k = Some c"
    by (cases "mem_append l b") (auto intro: mem_append_keeps_commit)
  with Cons.IH show ?case by (simp add: mem_appends_Cons)
qed (simp add: mem_appends_def)

lemma mem_appends_prefix:
  "mem_log_ok l \<Longrightarrow> \<exists>es. ml_entries (mem_appends l bs) = ml_entries l @ es"
proof (induction bs arbitrary: l)
  case (Cons b bs)
  obtain r l' where app: "mem_append l b = (r, l')" by (cases "mem_append l b")
  from mem.entries_prefix [OF Cons.prems app] Cons.IH [OF mem_append_ok [OF Cons.prems app]] app
  show ?case by (auto simp: mem_appends_Cons)
qed (simp add: mem_appends_def)

lemma mem_append_records:
  assumes "mem_append l b = (Inr (Committed m n), l')"
  obtains c where "js_get (ml_commits l') (ap_commitId b) = Some c" "cr_first c = m" "cr_last c = n"
    "cr_expectedOrdinal c = ap_expectedOrdinal b"
    "cr_entries c = ap_entries b \<or> sameDrafts (cr_entries c) (ap_entries b)"
  using assms by (cases rule: mem_append_cases) (auto simp: js_get_set)

end
