(* ===== verification/Fold_Tree.thy ===== *)
theory Fold_Tree
  imports Conversation_Fold Conversation_Log
begin

text \<open>
  The entry tree of a folded log: entries in ordinal order under their ids, every parent an earlier
  entry (a public one for a public entry), every compaction's first kept entry one of its ancestors.
  On such a tree the walks of the fold end, and appending an entry extends exactly the path to it.
\<close>

section \<open>Lists of optional results\<close>

lemma map_filter_Nil [simp]: "List.map_filter f [] = []"
  by (simp add: List.map_filter_def)

lemma map_filter_Cons:
  "List.map_filter f (x # xs) =
     (case f x of None \<Rightarrow> List.map_filter f xs | Some y \<Rightarrow> y # List.map_filter f xs)"
  by (simp add: List.map_filter_def split: option.split)

lemma map_filter_append [simp]:
  "List.map_filter f (xs @ ys) = List.map_filter f xs @ List.map_filter f ys"
  by (simp add: List.map_filter_def)

lemma map_filter_cong:
  "(\<And>x. x \<in> set xs \<Longrightarrow> f x = g x) \<Longrightarrow> List.map_filter f xs = List.map_filter g xs"
  by (induction xs) (auto simp: map_filter_Cons split: option.split)

lemma map_filter_all_Some:
  "(\<And>x. x \<in> set xs \<Longrightarrow> f x = Some (g x)) \<Longrightarrow> List.map_filter f xs = map g xs"
  by (induction xs) (auto simp: map_filter_Cons)

section \<open>The tree invariant\<close>

definition entry_ok :: "entry_map \<Rightarrow> log_entry \<Rightarrow> bool" where
  "entry_ok m e \<longleftrightarrow>
     (\<forall>p. e_parentId e = Some p \<longrightarrow>
        (\<exists>pe. js_get m p = Some pe \<and> e_ordinal pe < e_ordinal e \<and>
              (e_visibility e = Public \<longrightarrow> e_visibility pe = Public)))"

definition kept_ok :: "entry_map \<Rightarrow> log_entry \<Rightarrow> bool" where
  "kept_ok m e \<longleftrightarrow>
     (\<forall>p. e_body e = Compaction p \<longrightarrow>
        (\<exists>is. pathTo m (e_parentId e) = Some is \<and> cp_firstKeptEntryId p \<in> set is))"

definition tree_ok :: "entry_map \<Rightarrow> bool" where
  "tree_ok m \<longleftrightarrow>
     js_keys m = map e_id (js_values m) \<and> distinct (js_keys m) \<and> contiguous (js_values m) \<and>
     (\<forall>i e. js_get m i = Some e \<longrightarrow> entry_ok m e \<and> kept_ok m e)"

lemma tree_ok_empty [simp]: "tree_ok []"
  by (simp add: tree_ok_def)

lemma tree_okD:
  assumes "tree_ok m"
  shows "js_keys m = map e_id (js_values m)" "distinct (js_keys m)" "contiguous (js_values m)"
    "js_get m i = Some e \<Longrightarrow> entry_ok m e" "js_get m i = Some e \<Longrightarrow> kept_ok m e"
  using assms by (auto simp: tree_ok_def)

lemma tree_ok_id: "tree_ok m \<Longrightarrow> js_get m i = Some e \<Longrightarrow> e_id e = i"
proof -
  assume ok: "tree_ok m" and get: "js_get m i = Some e"
  then have "(i, e) \<in> set m" using js_get_mem_iff tree_okD(2) by metis
  then obtain n where "n < length m" "m ! n = (i, e)" by (auto simp: in_set_conv_nth)
  moreover have "js_keys m ! n = map e_id (js_values m) ! n" using ok by (simp add: tree_ok_def)
  ultimately show ?thesis by (simp add: js_keys_def js_values_def)
qed

lemma tree_ok_ordinal:
  assumes "tree_ok m" and "js_get m i = Some e"
  shows "1 \<le> e_ordinal e" "e_ordinal e \<le> length m"
proof -
  from assms have "e \<in> set (js_values m)" by (simp add: js_get_value)
  then obtain n where "n < length m" "js_values m ! n = e" by (auto simp: in_set_conv_nth)
  with assms(1) have "e_ordinal e = Suc n" using contiguous_nth [of "js_values m" n]
    by (simp add: tree_ok_def)
  with \<open>n < length m\<close> show "1 \<le> e_ordinal e" "e_ordinal e \<le> length m" by simp_all
qed

lemma tree_ok_parent:
  assumes "tree_ok m" and "js_get m i = Some e" and "e_parentId e = Some p"
  obtains pe where "js_get m p = Some pe" "e_ordinal pe < e_ordinal e"
    "e_visibility e = Public \<Longrightarrow> e_visibility pe = Public"
  using tree_okD(4) [OF assms(1,2)] assms(3) that by (auto simp: entry_ok_def)

lemma tree_ok_ordinal_inj:
  assumes "tree_ok m" and "js_get m i = Some e" and "js_get m j = Some f"
    and "e_ordinal e = e_ordinal f"
  shows "i = j"
proof -
  from assms have "e \<in> set (js_values m)" "f \<in> set (js_values m)" by (simp_all add: js_get_value)
  then obtain n k where "n < length m" "js_values m ! n = e" "k < length m" "js_values m ! k = f"
    by (auto simp: in_set_conv_nth)
  moreover from this have "e_ordinal e = Suc n" "e_ordinal f = Suc k"
    using contiguous_nth [OF tree_okD(3) [OF assms(1)]] by (metis length_js_values)+
  ultimately have "e = f" using assms(4) by auto
  with assms show ?thesis using tree_ok_id by metis
qed

section \<open>Walks end\<close>

lemma walk_up_mono: "walk_up n m i = Some is \<Longrightarrow> n \<le> k \<Longrightarrow> walk_up k m i = Some is"
proof (induction n m i arbitrary: k "is" rule: walk_up.induct)
  case (3 fuel m i)
  from "3.prems"(2) obtain k' where k: "k = Suc k'" "fuel \<le> k'" by (cases k) auto
  from "3.prems"(1) obtain js where "walk_up fuel m (parent_of m i) = Some js" "is = i # js"
    by auto
  with "3.IH" [of js k'] k show ?case by simp
qed auto

lemma walk_up_enough:
  "tree_ok m \<Longrightarrow> js_get m i = Some e \<Longrightarrow> e_ordinal e \<le> n \<Longrightarrow> \<exists>is. walk_up n m (Some i) = Some is"
proof (induction n arbitrary: i e)
  case 0
  then show ?case using tree_ok_ordinal by fastforce
next
  case (Suc n)
  show ?case
  proof (cases "e_parentId e")
    case None
    with Suc.prems show ?thesis by (simp add: parent_of_def)
  next
    case (Some p)
    with Suc.prems obtain pe where "js_get m p = Some pe" "e_ordinal pe < e_ordinal e"
      by (meson tree_ok_parent)
    with Suc.IH [of p pe] Suc.prems Some show ?thesis by (auto simp: parent_of_def)
  qed
qed

definition known :: "entry_map \<Rightarrow> entry_id option \<Rightarrow> bool" where
  "known m i \<longleftrightarrow> (\<forall>j. i = Some j \<longrightarrow> js_get m j \<noteq> None)"

lemma known_None [simp]: "known m None"
  by (simp add: known_def)

lemma known_parent: "tree_ok m \<Longrightarrow> js_get m i = Some e \<Longrightarrow> known m (e_parentId e)"
  by (auto simp: known_def elim: tree_ok_parent)

lemma pathTo_known: "tree_ok m \<Longrightarrow> known m i \<Longrightarrow> \<exists>is. pathTo m i = Some is"
proof (cases i)
  case (Some j)
  assume ok: "tree_ok m" and "known m i"
  with Some obtain e where e: "js_get m j = Some e" by (auto simp: known_def)
  with ok have "e_ordinal e \<le> walk_fuel m" using tree_ok_ordinal by (fastforce simp: walk_fuel_def)
  from walk_up_enough [OF ok e this] Some show ?thesis by (auto simp: pathTo_def)
qed (simp add: pathTo_def walk_fuel_def)

text \<open>The path to an entry is the path to its parent followed by the entry.\<close>

lemma pathTo_step:
  assumes "tree_ok m" and "js_get m i = Some e" and "pathTo m (e_parentId e) = Some is"
  shows "pathTo m (Some i) = Some (is @ [i])"
proof -
  have "known m (Some i)" using assms(2) by (simp add: known_def)
  with pathTo_known [OF assms(1)] obtain js where js: "walk_up (walk_fuel m) m (Some i) = Some js"
    by (auto simp: pathTo_def)
  then obtain ks where ks: "walk_up (length m) m (e_parentId e) = Some ks" "js = i # ks"
    using assms(2) by (auto simp: walk_fuel_def parent_of_def)
  then have "walk_up (walk_fuel m) m (e_parentId e) = Some ks"
    by (auto intro: walk_up_mono simp: walk_fuel_def)
  with assms(3) ks js show ?thesis by (auto simp: pathTo_def)
qed

lemma pathTo_Some_cases:
  assumes "tree_ok m" and "known m (Some i)" and "pathTo m (Some i) = Some is"
  obtains e js where "js_get m i = Some e" "pathTo m (e_parentId e) = Some js" "is = js @ [i]"
proof -
  from assms(2) obtain e where e: "js_get m i = Some e" by (auto simp: known_def)
  with pathTo_known [OF assms(1) known_parent [OF assms(1) e]] obtain js
    where js: "pathTo m (e_parentId e) = Some js" by auto
  with pathTo_step [OF assms(1) e js] assms(3) e that show ?thesis by simp
qed

lemma pathTo_None [simp]: "pathTo m None = Some []"
  by (simp add: pathTo_def walk_fuel_def)

text \<open>Induction along the path to a known entry.\<close>

lemma path_induct [consumes 2, case_names Root Step]:
  assumes ok: "tree_ok m" and "known m i"
    and root: "P None"
    and step: "\<And>i e. js_get m i = Some e \<Longrightarrow> P (e_parentId e) \<Longrightarrow> P (Some i)"
  shows "P i"
proof -
  have "P (Some j)" if "js_get m j = Some e" for j e
    using that
  proof (induction "e_ordinal e" arbitrary: j e rule: less_induct)
    case less
    show ?case
    proof (rule step [OF less.prems], cases "e_parentId e")
      case (Some p)
      with less ok show "P (e_parentId e)" by (metis tree_ok_parent)
    qed (simp add: root)
  qed
  with assms(2) root show ?thesis by (cases i) (auto simp: known_def)
qed

lemma pathTo_keys:
  assumes ok: "tree_ok m" and kn: "known m i"
  shows "pathTo m i = Some is \<Longrightarrow> set is \<subseteq> set (js_keys m)"
  using ok kn
proof (induction arbitrary: "is" rule: path_induct)
  case (Step i e)
  with pathTo_known [OF ok known_parent [OF ok Step.hyps]] obtain js
    where js: "pathTo m (e_parentId e) = Some js" by auto
  from Step.IH [OF js] pathTo_step [OF ok Step.hyps js] Step.prems js_get_Some_key [OF Step.hyps]
  show ?case by auto
qed auto

lemma pathTo_ordinals:
  assumes ok: "tree_ok m" and get: "js_get m i = Some e" and path: "pathTo m (Some i) = Some is"
  shows "j \<in> set is \<Longrightarrow> \<exists>f. js_get m j = Some f \<and> e_ordinal f \<le> e_ordinal e"
proof -
  have "known m (Some i)" using get by (simp add: known_def)
  with ok have "\<forall>e is. js_get m (the (Some i)) = Some e \<longrightarrow> pathTo m (Some i) = Some is \<longrightarrow>
      (\<forall>j\<in>set is. \<exists>f. js_get m j = Some f \<and> e_ordinal f \<le> e_ordinal e)"
  proof (induction rule: path_induct)
    case (Step i e)
    obtain js where js: "pathTo m (e_parentId e) = Some js"
      using pathTo_known [OF ok known_parent [OF ok Step.hyps]] by auto
    show ?case
    proof (cases "e_parentId e")
      case None
      with js pathTo_step [OF ok Step.hyps js] Step.hyps show ?thesis by auto
    next
      case (Some p)
      with Step.hyps ok obtain pe where "js_get m p = Some pe" "e_ordinal pe < e_ordinal e"
        by (meson tree_ok_parent)
      with Some js pathTo_step [OF ok Step.hyps js] Step.IH Step.hyps show ?thesis by fastforce
    qed
  qed (auto simp: pathTo_def walk_fuel_def)
  with get path show "j \<in> set is \<Longrightarrow> \<exists>f. js_get m j = Some f \<and> e_ordinal f \<le> e_ordinal e" by simp
qed

section \<open>Appending an entry\<close>

lemma js_get_snoc:
  "i \<notin> set (js_keys m) \<Longrightarrow> js_get (m @ [(i, e)]) j = (if j = i then Some e else js_get m j)"
  using js_get_None_iff [of m i]
  by (auto simp: js_get_append js_get_Cons split: option.split)

lemma known_snoc: "known m j \<Longrightarrow> known (m @ [(i, e)]) j"
  by (auto simp: known_def js_get_append split: option.splits)

lemma known_not_fresh: "known m (Some j) \<Longrightarrow> i \<notin> set (js_keys m) \<Longrightarrow> j \<noteq> i"
  by (auto simp: known_def js_get_None_iff)

lemma walk_up_snoc:
  assumes ok: "tree_ok m" and fresh: "i \<notin> set (js_keys m)"
  shows "known m j \<Longrightarrow> walk_up n (m @ [(i, e)]) j = walk_up n m j"
proof (induction n arbitrary: j)
  case 0
  then show ?case by (cases j) auto
next
  case (Suc n)
  show ?case
  proof (cases j)
    case (Some k)
    with Suc.prems obtain f where f: "js_get m k = Some f" by (auto simp: known_def)
    with fresh have "parent_of (m @ [(i, e)]) k = parent_of m k"
      by (simp add: parent_of_def js_get_append)
    moreover have "known m (parent_of m k)"
      using known_parent [OF ok f] f by (simp add: parent_of_def)
    ultimately show ?thesis using Some Suc.IH by simp
  qed simp
qed

lemma pathTo_snoc:
  assumes ok: "tree_ok m" and fresh: "i \<notin> set (js_keys m)" and kn: "known m j"
  shows "pathTo (m @ [(i, e)]) j = pathTo m j"
proof -
  from pathTo_known [OF ok kn] obtain js where "walk_up (walk_fuel m) m j = Some js"
    by (auto simp: pathTo_def)
  moreover from this have "walk_up (walk_fuel (m @ [(i, e)])) m j = Some js"
    by (rule walk_up_mono) (simp add: walk_fuel_def)
  ultimately show ?thesis by (simp add: pathTo_def walk_up_snoc [OF ok fresh kn])
qed

lemma find_ancestor_walk:
  "walk_up n m i = Some is \<Longrightarrow> find_ancestor n m t i = Some (t \<in> set is)"
proof (induction n m i arbitrary: "is" rule: walk_up.induct)
  case (3 fuel m i)
  from "3.prems" obtain js where "walk_up fuel m (parent_of m i) = Some js" "is = i # js" by auto
  with "3.IH" [of js] show ?case by auto
qed auto

lemma find_ancestor_path:
  assumes "tree_ok m" and "known m i"
  obtains "is" where "pathTo m i = Some is"
    "\<And>t. find_ancestor (walk_fuel m) m t i = Some (t \<in> set is)"
proof -
  from pathTo_known [OF assms] obtain js where "walk_up (walk_fuel m) m i = Some js"
    by (auto simp: pathTo_def)
  with that [of "rev js"] show ?thesis by (simp add: pathTo_def find_ancestor_walk)
qed

lemma tree_ok_snoc:
  assumes ok: "tree_ok m" and fresh: "e_id e \<notin> set (js_keys m)"
    and ord: "e_ordinal e = Suc (length m)" and eok: "entry_ok m e" and kok: "kept_ok m e"
  shows "tree_ok (m @ [(e_id e, e)])"
proof -
  let ?m = "m @ [(e_id e, e)]"
  have entry: "entry_ok ?m f" if "entry_ok m f" for f
    using that by (fastforce simp: entry_ok_def js_get_append)
  have known_p: "known m (e_parentId f)" if "entry_ok m f" for f
    using that by (auto simp: known_def entry_ok_def)
  have kept: "kept_ok ?m f" if "kept_ok m f" "entry_ok m f" for f
    using that(1) pathTo_snoc [OF ok fresh known_p [OF that(2)]] by (simp add: kept_ok_def)
  have "entry_ok ?m f \<and> kept_ok ?m f" if "js_get ?m i = Some f" for i f
  proof (cases "i = e_id e")
    case True
    with that fresh have "f = e" by (simp add: js_get_snoc)
    with eok kok entry kept show ?thesis by simp
  next
    case False
    with that fresh have "js_get m i = Some f" by (simp add: js_get_snoc)
    with tree_okD(4,5) [OF ok] entry kept show ?thesis by blast
  qed
  moreover have "contiguous (js_values ?m)"
    using tree_okD(3) [OF ok] ord by (simp add: contiguous_snoc)
  moreover have "js_keys ?m = map e_id (js_values ?m)" using tree_okD(1) [OF ok] by simp
  moreover have "distinct (js_keys ?m)" using tree_okD(2) [OF ok] fresh by simp
  ultimately show ?thesis unfolding tree_ok_def by blast
qed

section \<open>The tree of the fold\<close>

text \<open>What a successful application of an entry has checked and set.\<close>

lemma apply_entry_Inr:
  assumes "apply_entry s e = Inr s'"
  obtains input work s1 where
    "validateEnvelope s e = Inr ()" "validateReferences s e = Inr ()"
    "nextClientInput (st_inputs s) e = Inr input" "next_work s e = Inr work"
    "move_branch e (set_records e input work s) = Some s1" "s' = s1\<lparr>st_ordinal := e_ordinal e\<rparr>"
proof -
  from assms have "apply_kind s e = Inr s'"
    by (auto simp: apply_entry_def map_sum_def split: sum.splits)
  then show ?thesis
    using that by (auto simp: apply_kind_def res_simps split: option.splits)
qed

lemma validateEnvelope_Inr:
  "validateEnvelope s e = Inr () \<longleftrightarrow>
     e_ordinal e = st_ordinal s + 1 \<and> \<not> js_has (st_byId s) (e_id e) \<and>
     (\<forall>p. e_parentId e = Some p \<longrightarrow>
        (\<exists>pe. js_get (st_byId s) p = Some pe \<and>
              (e_visibility e = Public \<longrightarrow> e_visibility pe = Public)))"
  by (auto simp: validateEnvelope_def split: option.splits if_splits)

text \<open>
  The records an entry sets leave the branch alone, and the branch operations leave the records
  alone: one equation per untouched field.
\<close>

lemma setClientInput_frame [simp]:
  "st_byId (setClientInput r s) = st_byId s" "st_leafId (setClientInput r s) = st_leafId s"
  "st_branch (setClientInput r s) = st_branch s" "st_context (setClientInput r s) = st_context s"
  "st_planning (setClientInput r s) = st_planning s" "st_ordinal (setClientInput r s) = st_ordinal s"
  "st_children (setClientInput r s) = st_children s" "st_labels (setClientInput r s) = st_labels s"
  "st_name (setClientInput r s) = st_name s" "st_work (setClientInput r s) = st_work s"
  "st_openWork (setClientInput r s) = st_openWork s"
  "st_branchOrdinal (setClientInput r s) = st_branchOrdinal s"
  "st_branchSwitchOrdinal (setClientInput r s) = st_branchSwitchOrdinal s"
  "st_contextOrdinal (setClientInput r s) = st_contextOrdinal s"
  by (simp_all add: setClientInput_def Let_def)

lemma record_setters_frame [simp]:
  "st_byId (appendChild p i s) = st_byId s" "st_leafId (appendChild p i s) = st_leafId s"
  "st_branch (appendChild p i s) = st_branch s" "st_context (appendChild p i s) = st_context s"
  "st_planning (appendChild p i s) = st_planning s" "st_ordinal (appendChild p i s) = st_ordinal s"
  "st_byId (setWork r s) = st_byId s" "st_leafId (setWork r s) = st_leafId s"
  "st_branch (setWork r s) = st_branch s" "st_context (setWork r s) = st_context s"
  "st_planning (setWork r s) = st_planning s" "st_ordinal (setWork r s) = st_ordinal s"
  "st_byId (setLabel t l ts s) = st_byId s" "st_leafId (setLabel t l ts s) = st_leafId s"
  "st_branch (setLabel t l ts s) = st_branch s" "st_context (setLabel t l ts s) = st_context s"
  "st_planning (setLabel t l ts s) = st_planning s" "st_ordinal (setLabel t l ts s) = st_ordinal s"
  by (simp_all add: appendChild_def setWork_def setLabel_def)

lemma set_records_frame [simp]:
  "st_byId (set_records e input work s) = js_set (st_byId s) (e_id e) e"
  "st_leafId (set_records e input work s) = st_leafId s"
  "st_branch (set_records e input work s) = st_branch s"
  "st_context (set_records e input work s) = st_context s"
  "st_planning (set_records e input work s) = st_planning s"
  "st_ordinal (set_records e input work s) = st_ordinal s"
  by (cases input; cases work; cases "e_body e"; simp add: set_records_def Let_def)+

text \<open>The state apart from its branch fields.\<close>

definition same_records :: "conversation_state \<Rightarrow> conversation_state \<Rightarrow> bool" where
  "same_records s t \<longleftrightarrow>
     st_byId s = st_byId t \<and> st_children s = st_children t \<and> st_labels s = st_labels t \<and>
     st_name s = st_name t \<and> st_inputs s = st_inputs t \<and> st_queued s = st_queued t \<and>
     st_started s = st_started t \<and> st_work s = st_work t \<and> st_openWork s = st_openWork t"

lemma same_records_refl [simp]: "same_records s s"
  by (simp add: same_records_def)

lemma same_records_rederive [simp]: "same_records (rederiveBranch b n s) t = same_records s t"
  by (simp add: same_records_def rederiveBranch_def Let_def)

lemma extend_context_frame:
  "same_records (extend_context e s) s \<and> st_branch (extend_context e s) = st_branch s \<and>
   st_leafId (extend_context e s) = st_leafId s \<and>
   st_branchOrdinal (extend_context e s) = st_branchOrdinal s \<and>
   st_branchSwitchOrdinal (extend_context e s) = st_branchSwitchOrdinal s"
  by (cases "e_body e"; cases "contextMessage e")
    (auto simp: extend_context_def same_records_def rederiveBranch_def set_model_def
      push_message_def Let_def split: log_message.split)

lemma moveLeaf_frame: "moveLeaf t n s = Some s' \<Longrightarrow> same_records s' s"
  by (auto simp: moveLeaf_def Let_def same_records_def rederiveBranch_def split: if_splits)

lemma appendToBranch_frame: "appendToBranch e s = Some s' \<Longrightarrow> same_records s' s"
  using extend_context_frame [of e]
  by (fastforce simp: appendToBranch_def Let_def same_records_def rederiveBranch_def split: if_splits)

lemma move_branch_same: "move_branch e s = Some s' \<Longrightarrow> same_records s' s"
  by (cases "e_body e")
    (auto simp: move_branch_def split: if_splits dest: moveLeaf_frame appendToBranch_frame)

lemma move_branch_frame:
  assumes "move_branch e s = Some s'"
  shows "st_byId s' = st_byId s" "st_children s' = st_children s" "st_labels s' = st_labels s"
    "st_name s' = st_name s" "st_inputs s' = st_inputs s" "st_queued s' = st_queued s"
    "st_started s' = st_started s" "st_work s' = st_work s" "st_openWork s' = st_openWork s"
  using move_branch_same [OF assms] by (simp_all add: same_records_def)

lemma apply_entry_byId:
  assumes "apply_entry s e = Inr s'"
  shows "st_byId s' = st_byId s @ [(e_id e, e)]" "st_ordinal s' = e_ordinal e"
    "e_ordinal e = Suc (st_ordinal s)" "e_id e \<notin> set (js_keys (st_byId s))"
proof -
  from assms obtain input work s1 where env: "validateEnvelope s e = Inr ()"
    and mv: "move_branch e (set_records e input work s) = Some s1"
    and s': "s' = s1\<lparr>st_ordinal := e_ordinal e\<rparr>" by (rule apply_entry_Inr)
  show fresh: "e_id e \<notin> set (js_keys (st_byId s))"
    using env by (simp add: validateEnvelope_Inr js_has_iff_keys)
  show "st_byId s' = st_byId s @ [(e_id e, e)]"
    using move_branch_frame(1) [OF mv] s' fresh by (simp add: js_set_fresh)
  show "st_ordinal s' = e_ordinal e" using s' by simp
  show "e_ordinal e = Suc (st_ordinal s)" using env by (simp add: validateEnvelope_Inr)
qed

definition tree_inv :: "conversation_state \<Rightarrow> bool" where
  "tree_inv s \<longleftrightarrow> tree_ok (st_byId s) \<and> st_ordinal s = length (st_byId s)"

lemma tree_inv_entry:
  assumes inv: "tree_inv s" and env: "validateEnvelope s e = Inr ()"
  shows "entry_ok (st_byId s) e"
proof -
  have "e_ordinal e = Suc (length (st_byId s))" using assms by (simp add: tree_inv_def validateEnvelope_Inr)
  moreover have "e_ordinal pe \<le> length (st_byId s)" if "js_get (st_byId s) p = Some pe" for p pe
    using inv that tree_ok_ordinal by (auto simp: tree_inv_def)
  ultimately show ?thesis using env by (fastforce simp: entry_ok_def validateEnvelope_Inr)
qed

lemma tree_inv_empty: "tree_inv emptyState"
  by (simp add: tree_inv_def emptyState_def)

lemma tree_inv_apply:
  assumes inv: "tree_inv s" and app: "apply_entry s e = Inr s'"
  shows "tree_inv s'"
proof -
  from app obtain env: "validateEnvelope s e = Inr ()" and ref: "validateReferences s e = Inr ()"
    by (rule apply_entry_Inr) blast
  note byId = apply_entry_byId [OF app]
  have ok: "tree_ok (st_byId s)" and ord: "e_ordinal e = Suc (length (st_byId s))"
    using inv byId by (simp_all add: tree_inv_def)
  have eok: "entry_ok (st_byId s) e" using tree_inv_entry [OF inv env] .
  then have "known (st_byId s) (e_parentId e)" by (auto simp: entry_ok_def known_def)
  with ok obtain "is" where "pathTo (st_byId s) (e_parentId e) = Some is"
    "\<And>t. find_ancestor (walk_fuel (st_byId s)) (st_byId s) t (e_parentId e) = Some (t \<in> set is)"
    by (rule find_ancestor_path) blast
  with ref have "kept_ok (st_byId s) e"
    by (auto simp: kept_ok_def validateReferences_def split: if_splits)
  from tree_ok_snoc [OF ok byId(4) ord eok this] byId(1,2) ord show ?thesis by (simp add: tree_inv_def)
qed

end
