(* ===== verification/Fold_Branch.thy ===== *)
theory Fold_Branch
  imports Fold_Tree
begin

text \<open>
  The active branch of a folded log: \<open>st_branch\<close> is the path from the root to the leaf, and the
  context and planning state the fold keeps incrementally are the ones \<open>deriveBranch\<close> computes from
  scratch on that path.
\<close>

section \<open>Deriving a path one entry at a time\<close>

text \<open>What one entry that is not a compaction adds to a derived context.\<close>

fun entry_model :: "entry_body \<Rightarrow> model_ref option" where
  "entry_model (ModelChange p m) = Some (p, m)"
| "entry_model (Message (AssistantMessage a) _) = Some (a_provider a, a_model a)"
| "entry_model _ = None"

fun entry_thinking :: "entry_body \<Rightarrow> thinking_level option" where
  "entry_thinking (ThinkingLevelChange l) = Some l"
| "entry_thinking _ = None"

fun entry_fast :: "entry_body \<Rightarrow> bool option" where
  "entry_fast (FastModeChange b) = Some b"
| "entry_fast _ = None"

fun entry_planning :: "entry_body \<Rightarrow> json option" where
  "entry_planning (PlanningStateChange j) = Some j"
| "entry_planning _ = None"

fun is_compaction :: "entry_body \<Rightarrow> bool" where
  "is_compaction (Compaction _) = True"
| "is_compaction _ = False"

definition or_else :: "'a option \<Rightarrow> 'a \<Rightarrow> 'a" where
  "or_else x d = (case x of None \<Rightarrow> d | Some v \<Rightarrow> v)"

definition message_list :: "log_entry \<Rightarrow> agent_message list" where
  "message_list e = (case contextMessage e of None \<Rightarrow> [] | Some m \<Rightarrow> [m])"

definition extend_derived ::
    "log_entry \<Rightarrow> conversation_context \<times> json option \<Rightarrow> conversation_context \<times> json option" where
  "extend_derived e cp =
     (\<lparr>ctx_messages = ctx_messages (fst cp) @ message_list e,
       ctx_model = or_keep (entry_model (e_body e)) (ctx_model (fst cp)),
       ctx_thinkingLevel = or_else (entry_thinking (e_body e)) (ctx_thinkingLevel (fst cp)),
       ctx_fastMode = or_else (entry_fast (e_body e)) (ctx_fastMode (fst cp))\<rparr>,
      or_keep (entry_planning (e_body e)) (snd cp))"

lemma scan_path_Nil [simp]: "scan_path [] = scan_start"
  by (simp add: scan_path_def)

lemma scan_path_snoc: "scan_path (path @ [e]) = scan_entry (scan_path path) (length path, e)"
  by (simp add: scan_path_def enumerate_append_eq)

lemma scan_entry_fields:
  "sc_model (scan_entry sc (i, e)) = or_keep (entry_model (e_body e)) (sc_model sc)"
  "sc_thinkingLevel (scan_entry sc (i, e)) = or_else (entry_thinking (e_body e)) (sc_thinkingLevel sc)"
  "sc_fastMode (scan_entry sc (i, e)) = or_else (entry_fast (e_body e)) (sc_fastMode sc)"
  "sc_planning (scan_entry sc (i, e)) = or_keep (entry_planning (e_body e)) (sc_planning sc)"
  "sc_compaction (scan_entry sc (i, e)) =
     (case e_body e of Compaction p \<Rightarrow> Some (i, e, p) | _ \<Rightarrow> sc_compaction sc)"
  by (cases "e_body e"; simp add: scan_entry_def or_keep_def or_else_def split: log_message.split)+

lemma scan_compaction_mem:
  "sc_compaction (scan_path path) = Some (i, e, p) \<Longrightarrow>
   i < length path \<and> path ! i = e \<and> e_body e = Compaction p"
proof (induction path rule: rev_induct)
  case (snoc f path)
  then show ?case
    by (cases "e_body f") (auto simp: scan_path_snoc scan_entry_fields nth_append)
qed (simp add: scan_start_def)

text \<open>Every compaction of a path keeps from an entry of that path.\<close>

definition kept_in_path :: "log_entry list \<Rightarrow> bool" where
  "kept_in_path path \<longleftrightarrow>
     (\<forall>e\<in>set path. \<forall>p. e_body e = Compaction p \<longrightarrow> cp_firstKeptEntryId p \<in> e_id ` set path)"

lemma path_messages_snoc:
  assumes kept: "kept_in_path path" and sc: "c = sc_compaction (scan_path path)"
  shows "path_messages c (path @ [e]) = path_messages c path @ message_list e"
proof (cases c)
  case None
  then show ?thesis
    by (simp add: path_messages_def message_list_def map_filter_Cons split: option.split)
next
  case (Some t)
  obtain i f p where t: "t = (i, f, p)" by (cases t)
  with Some sc have mem: "i < length path" "path ! i = f" "e_body f = Compaction p"
    using scan_compaction_mem [of path i f p] by auto
  then have "f \<in> set path" by auto
  with kept mem(3) obtain x where x: "x \<in> set path" "e_id x = cp_firstKeptEntryId p"
    unfolding kept_in_path_def by (metis imageE)
  then obtain k where k: "find_index (\<lambda>e. e_id e = cp_firstKeptEntryId p) path = Some k"
    by (cases "find_index (\<lambda>e. e_id e = cp_firstKeptEntryId p) path")
      (auto simp: find_index_None)
  then have "k < length path" by (simp add: find_index_less)
  with Some t k mem(1) show ?thesis
    by (simp add: path_messages_def find_index_append enumerate_append_eq map_filter_Cons
        message_list_def Let_def split: option.split)
qed

lemma derive_path_snoc:
  assumes "kept_in_path path" and "\<not> is_compaction (e_body e)"
  shows "derive_path (path @ [e]) = extend_derived e (derive_path path)"
proof -
  have "sc_compaction (scan_path (path @ [e])) = sc_compaction (scan_path path)"
    using assms(2) by (cases "e_body e") (simp_all add: scan_path_snoc scan_entry_fields)
  with assms(1) show ?thesis
    by (simp add: derive_path_def extend_derived_def Let_def path_messages_snoc
        scan_path_snoc scan_entry_fields)
qed

lemma derive_path_Nil: "derive_path [] = (emptyContext, None)"
  by (simp add: derive_path_def Let_def scan_start_def path_messages_def emptyContext_def)

lemma extend_context_derived:
  assumes "\<not> is_compaction (e_body e)"
  shows "(st_context (extend_context e s), st_planning (extend_context e s)) =
     extend_derived e (st_context s, st_planning s)"
  using assms
  by (cases "e_body e")
    (auto simp: extend_context_def extend_derived_def message_list_def or_keep_def or_else_def
      set_model_def push_message_def contextMessage_def Let_def createCustomMessage_def
      split: option.split log_message.split)

lemma product_derived:
  "\<not> isCoreLogEntry e \<Longrightarrow> extend_derived e (c, pl) = (c, pl)"
  by (cases "e_body e")
    (auto simp: isCoreLogEntry_def extend_derived_def message_list_def contextMessage_def
      or_keep_def or_else_def)

section \<open>Paths in the tree\<close>

lemma path_entries_snoc:
  assumes "tree_ok m" and "i \<notin> set (js_keys m)" and "known m j" and "pathTo m j = Some is"
  shows "List.map_filter (js_get (m @ [(i, e)])) is = List.map_filter (js_get m) is"
proof (rule map_filter_cong)
  fix k assume "k \<in> set is"
  with pathTo_keys [OF assms(1,3,4)] assms(2) have "k \<noteq> i" by auto
  with assms(2) show "js_get (m @ [(i, e)]) k = js_get m k" by (simp add: js_get_snoc)
qed

lemma path_entries_ids:
  assumes "tree_ok m" and "known m j" and "pathTo m j = Some is"
  shows "e_id ` set (List.map_filter (js_get m) is) = set is"
proof -
  have "\<exists>e. js_get m k = Some e \<and> e_id e = k" if "k \<in> set is" for k
    using pathTo_keys [OF assms] that js_get_None_iff [of m k] tree_ok_id [OF assms(1)] by blast
  then show ?thesis
  proof (induction "is")
    case (Cons a xs)
    obtain e where "js_get m a = Some e" "e_id e = a" using Cons.prems [of a] by auto
    moreover have "e_id ` set (List.map_filter (js_get m) xs) = set xs"
      by (rule Cons.IH) (use Cons.prems in auto)
    ultimately show ?case by (simp add: map_filter_Cons)
  qed simp
qed

text \<open>Ancestors of ancestors are ancestors, so a compaction's kept entry is on every path through it.\<close>

lemma path_kept:
  assumes ok: "tree_ok m" and kn: "known m i"
  shows "pathTo m i = Some is \<Longrightarrow> kept_in_path (List.map_filter (js_get m) is)"
  using ok kn
proof (induction arbitrary: "is" rule: path_induct)
  case Root
  then show ?case by (simp add: kept_in_path_def)
next
  case (Step i e)
  obtain js where js: "pathTo m (e_parentId e) = Some js"
    using pathTo_known [OF ok known_parent [OF ok Step.hyps]] by auto
  then have "is": "is = js @ [i]" using pathTo_step [OF ok Step.hyps js] Step.prems by simp
  let ?path = "List.map_filter (js_get m) js"
  have ids: "e_id ` set ?path = set js"
    using path_entries_ids [OF ok known_parent [OF ok Step.hyps] js] .
  have "kept_in_path ?path" by (rule Step.IH [OF js])
  moreover have "cp_firstKeptEntryId p \<in> e_id ` set ?path" if "e_body e = Compaction p" for p
    using tree_okD(5) [OF ok Step.hyps] js that ids by (auto simp: kept_ok_def)
  ultimately show ?case
    using "is" Step.hyps by (auto simp: kept_in_path_def map_filter_Cons)
qed

section \<open>The branch invariant\<close>

definition branch_inv :: "conversation_state \<Rightarrow> bool" where
  "branch_inv s \<longleftrightarrow>
     (\<forall>i. st_leafId s = Some i \<longrightarrow> is_public (st_byId s) i) \<and>
     pathTo (st_byId s) (st_leafId s) = Some (st_branch s) \<and>
     deriveBranch (st_byId s) (st_branch s) = (st_context s, st_planning s)"

lemma is_public_known: "is_public m i \<Longrightarrow> known m (Some i)"
  by (auto simp: is_public_def known_def split: option.splits)

lemma branch_inv_known: "branch_inv s \<Longrightarrow> known (st_byId s) (st_leafId s)"
  using is_public_known by (cases "st_leafId s") (auto simp: branch_inv_def)

lemma branch_inv_empty: "branch_inv emptyState"
  by (simp add: branch_inv_def emptyState_def deriveBranch_def derive_path_Nil)

lemma is_public_snoc:
  "i \<notin> set (js_keys m) \<Longrightarrow> is_public m j \<Longrightarrow> is_public (m @ [(i, e)]) j"
  by (auto simp: is_public_def js_get_snoc split: option.splits dest: js_get_Some_key)

text \<open>The invariant of a state whose entry map has grown by one entry and whose branch has not moved.\<close>

lemma branch_inv_grow:
  assumes ok: "tree_ok (st_byId s)" and fresh: "i \<notin> set (js_keys (st_byId s))" and inv: "branch_inv s"
  shows "(\<forall>j. st_leafId s = Some j \<longrightarrow> is_public (st_byId s @ [(i, e)]) j) \<and>
     pathTo (st_byId s @ [(i, e)]) (st_leafId s) = Some (st_branch s) \<and>
     deriveBranch (st_byId s @ [(i, e)]) (st_branch s) = (st_context s, st_planning s)"
  using inv pathTo_snoc [OF ok fresh branch_inv_known [OF inv]]
    path_entries_snoc [OF ok fresh branch_inv_known [OF inv]] is_public_snoc [OF fresh]
  by (simp add: branch_inv_def deriveBranch_def)

lemma branch_inv_rederive:
  assumes "pathTo (st_byId s) (st_leafId s) = Some is"
    and "\<And>i. st_leafId s = Some i \<Longrightarrow> is_public (st_byId s) i"
  shows "branch_inv (rederiveBranch is n s)"
  using assms by (simp add: branch_inv_def rederiveBranch_def Let_def)

lemma branch_inv_ordinal [simp]: "branch_inv (s\<lparr>st_ordinal := n\<rparr>) = branch_inv s"
  by (simp add: branch_inv_def)

lemma branch_inv_moveLeaf:
  assumes "moveLeaf t n s = Some s'" and "branch_inv s"
    and "\<And>i. t = Some i \<Longrightarrow> is_public (st_byId s) i"
  shows "branch_inv s'"
proof (cases "t = st_leafId s")
  case False
  with assms(1) obtain "is" where "is": "pathTo (st_byId s) t = Some is"
    and s': "s' = rederiveBranch is n
      (s\<lparr>st_leafId := t, st_branchOrdinal := n, st_branchSwitchOrdinal := n\<rparr>)"
    by (auto simp: moveLeaf_def Let_def)
  show ?thesis unfolding s' by (rule branch_inv_rederive) (use "is" assms(3) in auto)
qed (use assms in \<open>simp add: moveLeaf_def\<close>)

lemma branch_inv_appendToBranch:
  assumes ok: "tree_ok (st_byId s)" and get: "js_get (st_byId s) (e_id e) = Some e"
    and pub: "e_visibility e = Public" and inv: "branch_inv s"
    and app: "appendToBranch e s = Some s'"
  shows "branch_inv s'"
proof (cases "e_parentId e = st_leafId s")
  case False
  with app obtain "is" where path: "pathTo (st_byId s) (Some (e_id e)) = Some is"
    and s': "s' = rederiveBranch is (e_ordinal e) (s\<lparr>st_leafId := Some (e_id e),
      st_branchOrdinal := e_ordinal e, st_branchSwitchOrdinal := e_ordinal e\<rparr>)"
    by (auto simp: appendToBranch_def Let_def)
  show ?thesis unfolding s'
    by (rule branch_inv_rederive) (use path get pub in \<open>auto simp: is_public_def\<close>)
next
  case True
  let ?s = "s\<lparr>st_leafId := Some (e_id e), st_branchOrdinal := e_ordinal e,
    st_branch := st_branch s @ [e_id e]\<rparr>"
  have s': "s' = (if isCoreLogEntry e then extend_context e ?s else ?s)"
    using True app by (simp add: appendToBranch_def Let_def)
  have path: "pathTo (st_byId s) (Some (e_id e)) = Some (st_branch s @ [e_id e])"
    using pathTo_step [OF ok get] inv True by (simp add: branch_inv_def)
  have pub': "is_public (st_byId s) (e_id e)" using get pub by (simp add: is_public_def)
  show ?thesis
  proof (cases "is_compaction (e_body e)")
    case True
    then obtain p where "e_body e = Compaction p" by (cases "e_body e") auto
    then have "s' = rederiveBranch (st_branch ?s) (e_ordinal e) ?s"
      using s' by (simp add: isCoreLogEntry_def extend_context_def)
    then show ?thesis using path pub' by (auto intro: branch_inv_rederive)
  next
    case False
    have "kept_in_path (List.map_filter (js_get (st_byId s)) (st_branch s))"
      using path_kept [OF ok branch_inv_known [OF inv]] inv by (simp add: branch_inv_def)
    then have "deriveBranch (st_byId s) (st_branch s @ [e_id e]) =
        extend_derived e (st_context s, st_planning s)"
      using derive_path_snoc [OF _ False] inv get
      by (simp add: deriveBranch_def map_filter_Cons branch_inv_def)
    moreover have "(st_context s', st_planning s') = extend_derived e (st_context s, st_planning s)"
      using s' extend_context_derived [OF False, of ?s] product_derived [of e] by simp
    moreover have "st_byId s' = st_byId s" "st_leafId s' = Some (e_id e)"
      "st_branch s' = st_branch s @ [e_id e]"
      using s' extend_context_frame [of e ?s] by (simp_all add: same_records_def)
    ultimately show ?thesis using path pub' by (simp add: branch_inv_def)
  qed
qed

lemma validateTarget_Inr:
  "validateTarget s t = Inr () \<longleftrightarrow> (\<forall>i. t = Some i \<longrightarrow> is_public (st_byId s) i)"
  by (auto simp: validateTarget_def split: option.splits)

lemma branch_inv_apply:
  assumes tree: "tree_inv s" and inv: "branch_inv s" and app: "apply_entry s e = Inr s'"
  shows "branch_inv s'"
proof -
  from app obtain input work s1 where env: "validateEnvelope s e = Inr ()"
    and ref: "validateReferences s e = Inr ()"
    and mv: "move_branch e (set_records e input work s) = Some s1"
    and s': "s' = s1\<lparr>st_ordinal := e_ordinal e\<rparr>" by (rule apply_entry_Inr)
  note byId = apply_entry_byId [OF app]
  let ?r = "set_records e input work s"
  have ok: "tree_ok (st_byId s)" using tree by (simp add: tree_inv_def)
  have rbyId: "st_byId ?r = st_byId s @ [(e_id e, e)]" using byId(4) by (simp add: js_set_fresh)
  have rinv: "branch_inv ?r"
    using branch_inv_grow [OF ok byId(4) inv, of e] rbyId by (simp add: branch_inv_def)
  have "branch_inv s1"
  proof (cases "\<exists>t. e_body e = Leaf t")
    case True
    then obtain t where t: "e_body e = Leaf t" by blast
    then have "moveLeaf t (e_ordinal e) ?r = Some s1" using mv by (simp add: move_branch_def)
    then show ?thesis using rinv
    proof (rule branch_inv_moveLeaf)
      fix i assume "t = Some i"
      with ref t have "is_public (st_byId s) i"
        by (simp add: validateReferences_def validateTarget_Inr)
      then show "is_public (st_byId ?r) i" using is_public_snoc [OF byId(4)] rbyId by simp
    qed
  next
    case False
    then have mv': "(if e_visibility e = Public then appendToBranch e ?r else Some ?r) = Some s1"
      using mv by (cases "e_body e") (auto simp: move_branch_def)
    show ?thesis
    proof (cases "e_visibility e = Public")
      case True
      have "tree_ok (st_byId ?r)"
        using tree_inv_apply [OF tree app] byId(1) rbyId by (simp add: tree_inv_def)
      moreover have "js_get (st_byId ?r) (e_id e) = Some e"
        using byId(4) rbyId js_get_snoc by metis
      moreover have "appendToBranch e ?r = Some s1" using True mv' by simp
      ultimately show ?thesis using branch_inv_appendToBranch [OF _ _ True rinv] by blast
    qed (use mv' rinv in auto)
  qed
  with s' show ?thesis by simp
qed

end
