(* ===== verification/Fold_Inputs.thy ===== *)
theory Fold_Inputs
  imports Fold_Tree
begin

text \<open>
  The client inputs of a folded log: every record is backed by its receipt and queued entries, the
  queued and started lists hold exactly the records in those states in admission order, a finished
  input never changes again, and an input is delivered as a message at most once.
\<close>

section \<open>Records and the entries behind them\<close>

definition input_ok :: "entry_map \<Rightarrow> client_message_id \<Rightarrow> client_input_record \<Rightarrow> bool" where
  "input_ok byId c r \<longleftrightarrow>
     ir_clientMessageId r = c \<and>
     (\<exists>e p. js_get byId (ir_receiptId r) = Some e \<and> e_body e = ClientInputReceipt p \<and>
            rp_clientMessageId p = c) \<and>
     (\<forall>q. ir_queuedEntryId r = Some q \<longrightarrow>
        (\<exists>e p. js_get byId q = Some e \<and> e_body e = ClientInputQueued p \<and> qp_clientMessageId p = c)) \<and>
     (ir_queuedEntryId r = None \<longleftrightarrow> ir_queuedInput r = None) \<and>
     (ir_canonicalEntryId r \<noteq> None \<longrightarrow> ir_state r = Completed)"

definition inputs_ok :: "entry_map \<Rightarrow> input_map \<Rightarrow> bool" where
  "inputs_ok byId inputs \<longleftrightarrow>
     distinct (js_keys inputs) \<and> (\<forall>c r. js_get inputs c = Some r \<longrightarrow> input_ok byId c r)"

text \<open>Every message entry that answers an input is that input's canonical entry.\<close>

definition delivered_ok :: "entry_map \<Rightarrow> input_map \<Rightarrow> bool" where
  "delivered_ok byId inputs \<longleftrightarrow>
     (\<forall>i e m c. js_get byId i = Some e \<longrightarrow> e_body e = Message m (Some c) \<longrightarrow>
        (\<exists>r. js_get inputs c = Some r \<and> ir_state r = Completed \<and> ir_canonicalEntryId r = Some i))"

definition input_open :: "client_input_record \<Rightarrow> bool" where
  "input_open r \<longleftrightarrow> ir_state r = Accepted \<or> ir_state r = Started"

text \<open>The part of a record that its receipt fixed.\<close>

definition same_receipt :: "client_input_record \<Rightarrow> client_input_record \<Rightarrow> bool" where
  "same_receipt r r' \<longleftrightarrow>
     ir_clientMessageId r = ir_clientMessageId r' \<and> ir_receiptId r = ir_receiptId r' \<and>
     ir_command r = ir_command r' \<and> ir_origin r = ir_origin r' \<and>
     ir_semanticDigest r = ir_semanticDigest r' \<and> ir_input r = ir_input r'"

text \<open>What an entry does to an input: receives it, or moves an open one that it names.\<close>

lemma nextClientInput_cases:
  assumes "nextClientInput inputs e = Inr (Some r)" and ok: "inputs_ok byId inputs"
  obtains (Received) p where "e_body e = ClientInputReceipt p" "ir_clientMessageId r = rp_clientMessageId p"
      "js_get inputs (ir_clientMessageId r) = None" "ir_receiptId r = e_id e" "ir_state r = Accepted"
      "ir_queuedEntryId r = None" "ir_queuedInput r = None" "ir_canonicalEntryId r = None"
  | (Queued) p old where "e_body e = ClientInputQueued p" "ir_clientMessageId r = qp_clientMessageId p"
      "js_get inputs (ir_clientMessageId r) = Some old" "input_open old" "ir_queuedInput old = None"
      "same_receipt r old" "ir_state r = Accepted" "ir_queuedEntryId r = Some (e_id e)"
      "ir_queuedInput r \<noteq> None" "ir_canonicalEntryId r = None"
  | (Moved) p old where "e_body e = ClientInputStateEntry p" "ir_clientMessageId r = sp_clientMessageId p"
      "js_get inputs (ir_clientMessageId r) = Some old" "input_move_allowed (ir_state old) (ir_state r)"
      "same_receipt r old" "ir_queuedEntryId r = ir_queuedEntryId old"
      "ir_queuedInput r = ir_queuedInput old" "ir_canonicalEntryId r = None"
  | (Delivered) m old where "e_body e = Message m (Some (ir_clientMessageId r))"
      "js_get inputs (ir_clientMessageId r) = Some old" "ir_state old = Started"
      "same_receipt r old" "ir_queuedEntryId r = ir_queuedEntryId old"
      "ir_queuedInput r = ir_queuedInput old" "ir_state r = Completed"
      "ir_canonicalEntryId r = Some (e_id e)"
proof (cases "e_body e")
  case (ClientInputReceipt p)
  with assms show ?thesis
    by (intro Received [of p])
      (auto simp: nextClientInput_def receive_input_def js_has_def map_sum_def split: sum.splits if_splits)
next
  case (ClientInputQueued p)
  with assms have "queue_input inputs (e_id e) p = Inr r"
    by (auto simp: nextClientInput_def map_sum_def split: sum.splits)
  then obtain old where "requireReceipt inputs (qp_clientMessageId p) (qp_receiptId p) = Inr old"
    "input_open old" "ir_queuedInput old = None"
    "r = (with_lifecycle old Accepted None None)
       \<lparr>ir_queuedEntryId := Some (e_id e), ir_queuedInput := Some (qp_queuedInput p)\<rparr>"
    by (auto simp: queue_input_def res_simps input_open_def split: if_splits)
  moreover from this(1) ok have "js_get inputs (qp_clientMessageId p) = Some old"
    "ir_clientMessageId old = qp_clientMessageId p"
    by (auto simp: requireReceipt_def inputs_ok_def input_ok_def split: option.splits if_splits)
  ultimately show ?thesis using ClientInputQueued
    by (intro Queued [of p old]) (auto simp: with_lifecycle_def same_receipt_def)
next
  case (ClientInputStateEntry p)
  with assms have "move_input inputs p = Inr r"
    by (auto simp: nextClientInput_def map_sum_def split: sum.splits)
  then obtain old where "requireReceipt inputs (sp_clientMessageId p) (sp_receiptId p) = Inr old"
    "input_move_allowed (ir_state old) (sp_state p)"
    "r = with_lifecycle old (sp_state p) (sp_error p) None"
    by (auto simp: move_input_def res_simps split: if_splits)
  moreover from this(1) ok have "js_get inputs (sp_clientMessageId p) = Some old"
    "ir_clientMessageId old = sp_clientMessageId p"
    by (auto simp: requireReceipt_def inputs_ok_def input_ok_def split: option.splits if_splits)
  ultimately show ?thesis using ClientInputStateEntry
    by (intro Moved [of p old]) (auto simp: with_lifecycle_def same_receipt_def)
next
  case (Message m co)
  with assms(1) obtain c where "co = Some c" "complete_input inputs (e_id e) c = Inr r"
    by (cases co) (auto simp: nextClientInput_def map_sum_def split: sum.splits)
  moreover from this(2) obtain old where "js_get inputs c = Some old" "ir_state old = Started"
    "r = with_lifecycle old Completed None (Some (e_id e))"
    by (auto simp: complete_input_def split: option.splits if_splits)
  moreover from this(1) ok have "ir_clientMessageId old = c" by (auto simp: inputs_ok_def input_ok_def)
  ultimately show ?thesis using Message
    by (intro Delivered [of m old]) (auto simp: with_lifecycle_def same_receipt_def)
qed (use assms in \<open>simp_all add: nextClientInput_def\<close>)

text \<open>An entry that produces no record is neither a receipt nor a delivery.\<close>

lemma nextClientInput_None:
  "nextClientInput inputs e = Inr None \<Longrightarrow> e_body e \<noteq> Message m (Some c)"
  by (auto simp: nextClientInput_def complete_input_def map_sum_def split: option.splits if_splits)

lemma input_move_open:
  "input_move_allowed a b \<Longrightarrow> (a = Accepted \<or> a = Started) \<and> a \<noteq> b"
  by (auto simp: input_move_allowed_def)

text \<open>Only open inputs change, and never into a state they were already listed under.\<close>

lemma nextClientInput_open:
  assumes "nextClientInput inputs e = Inr (Some r)" and "inputs_ok byId inputs"
    and "js_get inputs (ir_clientMessageId r) = Some old"
  shows "input_open old" "same_receipt r old" "is_queued old \<Longrightarrow> \<not> is_queued r"
    "is_started old \<Longrightarrow> \<not> is_started r"
  using assms(1,2)
  by (cases rule: nextClientInput_cases;
      use assms(3) input_move_open in \<open>fastforce simp: input_open_def is_queued_def is_started_def\<close>)+

section \<open>Records stay backed\<close>

lemma input_ok_snoc:
  "i \<notin> set (js_keys m) \<Longrightarrow> input_ok m c r \<Longrightarrow> input_ok (m @ [(i, e)]) c r"
  unfolding input_ok_def by (fastforce simp: js_get_append)

lemma next_input_ok:
  assumes nx: "nextClientInput inputs e = Inr (Some r)" and ok: "inputs_ok m inputs"
    and fresh: "e_id e \<notin> set (js_keys m)"
  shows "input_ok (m @ [(e_id e, e)]) (ir_clientMessageId r) r"
proof -
  have get: "js_get (m @ [(e_id e, e)]) (e_id e) = Some e" using fresh by (simp add: js_get_snoc)
  have old: "input_ok (m @ [(e_id e, e)]) (ir_clientMessageId r) old"
    if "js_get inputs (ir_clientMessageId r) = Some old" for old
    using ok that by (auto simp: inputs_ok_def intro: input_ok_snoc [OF fresh])
  from nx ok show ?thesis
  proof (cases rule: nextClientInput_cases)
    case (Received p)
    with get show ?thesis by (simp add: input_ok_def)
  next
    case (Queued p old)
    with get old [OF Queued(3)] show ?thesis by (simp add: input_ok_def same_receipt_def)
  next
    case (Moved p old)
    with old [OF Moved(3)] show ?thesis by (simp add: input_ok_def same_receipt_def)
  next
    case (Delivered mm old)
    with old [OF Delivered(2)] show ?thesis by (simp add: input_ok_def same_receipt_def)
  qed
qed

text \<open>The input map after an entry.\<close>

definition next_inputs :: "input_map \<Rightarrow> client_input_record option \<Rightarrow> input_map" where
  "next_inputs inputs input =
     (case input of None \<Rightarrow> inputs | Some r \<Rightarrow> js_set inputs (ir_clientMessageId r) r)"

lemma next_inputs_ok:
  assumes "nextClientInput inputs e = Inr input" and "inputs_ok m inputs"
    and "e_id e \<notin> set (js_keys m)"
  shows "inputs_ok (m @ [(e_id e, e)]) (next_inputs inputs input)"
proof (cases input)
  case None
  with assms show ?thesis by (auto simp: inputs_ok_def next_inputs_def input_ok_snoc)
next
  case (Some r)
  with assms next_input_ok [of inputs e r m] show ?thesis
    by (auto simp: inputs_ok_def next_inputs_def js_map_simps input_ok_snoc)
qed

lemma next_inputs_delivered:
  assumes nx: "nextClientInput inputs e = Inr input" and ok: "inputs_ok m inputs"
    and del: "delivered_ok m inputs" and fresh: "e_id e \<notin> set (js_keys m)"
  shows "delivered_ok (m @ [(e_id e, e)]) (next_inputs inputs input)"
  unfolding delivered_ok_def
proof (intro allI impI)
  fix i f mm c
  assume get: "js_get (m @ [(e_id e, e)]) i = Some f" and body: "e_body f = Message mm (Some c)"
  show "\<exists>r. js_get (next_inputs inputs input) c = Some r \<and> ir_state r = Completed \<and>
      ir_canonicalEntryId r = Some i"
  proof (cases "i = e_id e")
    case True
    with get fresh have "f = e" by (simp add: js_get_snoc)
    with body nx nextClientInput_None obtain r where r: "input = Some r" by (cases input) blast+
    with nx have "nextClientInput inputs e = Inr (Some r)" by simp
    from this ok have "ir_clientMessageId r = c \<and> ir_state r = Completed \<and> ir_canonicalEntryId r = Some i"
      using \<open>f = e\<close> body True by (cases rule: nextClientInput_cases) auto
    with r show ?thesis by (simp add: next_inputs_def js_map_simps)
  next
    case False
    with get fresh have "js_get m i = Some f" by (simp add: js_get_snoc)
    with del body obtain old where old: "js_get inputs c = Some old" "ir_state old = Completed"
      "ir_canonicalEntryId old = Some i" unfolding delivered_ok_def by blast
    have "ir_clientMessageId r \<noteq> c" if "input = Some r" for r
      using nextClientInput_open(1) [of inputs e r m old] that nx ok old by (auto simp: input_open_def)
    with old show ?thesis by (auto simp: next_inputs_def js_map_simps split: option.split)
  qed
qed

section \<open>The lifecycle lists\<close>

text \<open>Exactly the records with the property, in admission order.\<close>

definition member_list ::
    "entry_map \<Rightarrow> input_map \<Rightarrow> (client_input_record \<Rightarrow> bool) \<Rightarrow> client_message_id list \<Rightarrow> bool" where
  "member_list byId inputs P ids \<longleftrightarrow>
     sorted_by (admissionOrdinal byId inputs) ids \<and>
     set ids = {c. \<exists>r. js_get inputs c = Some r \<and> P r}"

definition admission_id :: "client_input_record \<Rightarrow> entry_id" where
  "admission_id r = (case ir_queuedEntryId r of None \<Rightarrow> ir_receiptId r | Some q \<Rightarrow> q)"

lemma input_admission:
  assumes "input_ok m c r"
  obtains e where "js_get m (admission_id r) = Some e" "record_admission m r = e_ordinal e"
    "(\<exists>p. e_body e = ClientInputReceipt p \<and> rp_clientMessageId p = c) \<or>
     (\<exists>p. e_body e = ClientInputQueued p \<and> qp_clientMessageId p = c)"
  using assms
  by (cases "ir_queuedEntryId r") (auto simp: input_ok_def record_admission_def admission_id_def)

text \<open>Two inputs never share an admission ordinal.\<close>

lemma admission_inj:
  assumes ok: "tree_ok m" and a: "input_ok m c r" and b: "input_ok m d r'"
    and eq: "record_admission m r = record_admission m r'"
  shows "c = d"
proof -
  from a obtain e where e: "js_get m (admission_id r) = Some e" "record_admission m r = e_ordinal e"
    "(\<exists>p. e_body e = ClientInputReceipt p \<and> rp_clientMessageId p = c) \<or>
     (\<exists>p. e_body e = ClientInputQueued p \<and> qp_clientMessageId p = c)" by (rule input_admission)
  from b obtain f where f: "js_get m (admission_id r') = Some f" "record_admission m r' = e_ordinal f"
    "(\<exists>p. e_body f = ClientInputReceipt p \<and> rp_clientMessageId p = d) \<or>
     (\<exists>p. e_body f = ClientInputQueued p \<and> qp_clientMessageId p = d)" by (rule input_admission)
  have "e = f" using tree_ok_ordinal_inj [OF ok e(1) f(1)] e f eq by simp
  with e(3) f(3) show ?thesis by auto
qed

lemma admission_grows:
  assumes "input_ok m c r" and "i \<notin> set (js_keys m)"
  shows "record_admission (m @ [(i, e)]) r = record_admission m r"
  using assms(1)
  by (rule input_admission) (simp add: record_admission_def admission_id_def js_get_append)

lemma admissionOrdinal_get:
  "js_get inputs c = Some r \<Longrightarrow> admissionOrdinal m inputs c = record_admission m r"
  by (simp add: admissionOrdinal_def)

text \<open>Updating one record keeps a lifecycle list, when the record does not stay a member.\<close>

lemma member_list_update:
  assumes tree: "tree_ok m'" and m': "m' = m @ [(e_id e, e)]" and fresh: "e_id e \<notin> set (js_keys m)"
    and nx: "nextClientInput inputs e = Inr (Some r)" and ok: "inputs_ok m inputs"
    and mem: "member_list m inputs P ids"
    and leaves: "\<And>old. js_get inputs (ir_clientMessageId r) = Some old \<Longrightarrow> P old \<Longrightarrow> \<not> P r"
  shows "member_list m' (next_inputs inputs (Some r)) P
    (update_members (admissionOrdinal m' (next_inputs inputs (Some r))) ids (ir_clientMessageId r) (P r))"
proof -
  define c where "c = ir_clientMessageId r"
  define inputs' where "inputs' = next_inputs inputs (Some r)"
  have get: "js_get inputs' d = (if d = c then Some r else js_get inputs d)" for d
    by (simp add: inputs'_def next_inputs_def c_def js_map_simps)
  have ok': "inputs_ok m' inputs'" unfolding inputs'_def m' using nx ok fresh by (rule next_inputs_ok)
  let ?f = "admissionOrdinal m inputs" and ?g = "admissionOrdinal m' inputs'"
  have same: "?g d = ?f d" if d: "d \<in> set ids" "d \<noteq> c" for d
  proof -
    from mem d(1) obtain q where q: "js_get inputs d = Some q" by (auto simp: member_list_def)
    with ok have "input_ok m d q" by (simp add: inputs_ok_def)
    with q get d(2) admission_grows [OF _ fresh] show ?thesis by (simp add: admissionOrdinal_def m')
  qed
  let ?rest = "filter (\<lambda>x. x \<noteq> c) ids"
  have sorted_rest: "sorted_by ?g ?rest"
  proof -
    have "sorted_by ?f ?rest" using mem by (simp add: member_list_def sorted_by_filter)
    then show ?thesis using same sorted_by_cong [of ?rest ?g ?f] by auto
  qed
  have other: "?g d \<noteq> ?g c" if "d \<in> set ids" "d \<noteq> c" for d
  proof
    assume eq: "?g d = ?g c"
    from mem that obtain q where "js_get inputs' d = Some q" using get by (auto simp: member_list_def)
    moreover have "js_get inputs' c = Some r" by (simp add: get)
    ultimately have "d = c" using ok' eq admission_inj [OF tree]
      by (metis admissionOrdinal_get inputs_ok_def)
    with that show False by simp
  qed
  have ids: "set ids = {d. \<exists>q. js_get inputs d = Some q \<and> P q}" using mem by (simp add: member_list_def)
  have notin: "c \<notin> set ids" if "P r" using that leaves ids by (auto simp: c_def)
  have rest: "?rest = ids" if "c \<notin> set ids" using that by (auto intro: filter_True)
  have upd: "update_members ?g ids c (P r) = (if P r then insert_by ?g c ?rest else ?rest)"
    using notin rest by (auto simp: update_members_def withMembership_def Let_def)
  have "sorted_by ?g (update_members ?g ids c (P r))"
    using sorted_rest other by (auto simp: upd intro!: sorted_by_insert_by)
  moreover have "set (update_members ?g ids c (P r)) = {d. \<exists>q. js_get inputs' d = Some q \<and> P q}"
    using ids by (auto simp: upd get split: if_splits)
  ultimately show ?thesis by (simp add: member_list_def inputs'_def c_def)
qed

lemma member_list_grow:
  assumes "inputs_ok m inputs" and "i \<notin> set (js_keys m)" and "member_list m inputs P ids"
  shows "member_list (m @ [(i, e)]) inputs P ids"
proof -
  have "admissionOrdinal (m @ [(i, e)]) inputs c = admissionOrdinal m inputs c" if "c \<in> set ids" for c
    using assms that admission_grows [OF _ assms(2)]
    by (fastforce simp: member_list_def admissionOrdinal_def inputs_ok_def)
  then have "sorted_by (admissionOrdinal (m @ [(i, e)]) inputs) ids =
      sorted_by (admissionOrdinal m inputs) ids" by (rule sorted_by_cong)
  with assms(3) show ?thesis by (simp add: member_list_def)
qed

section \<open>The input invariant\<close>

definition inputs_inv :: "conversation_state \<Rightarrow> bool" where
  "inputs_inv s \<longleftrightarrow>
     inputs_ok (st_byId s) (st_inputs s) \<and> delivered_ok (st_byId s) (st_inputs s) \<and>
     member_list (st_byId s) (st_inputs s) is_queued (st_queued s) \<and>
     member_list (st_byId s) (st_inputs s) is_started (st_started s)"

lemma inputs_inv_empty: "inputs_inv emptyState"
  by (simp add: inputs_inv_def emptyState_def inputs_ok_def delivered_ok_def member_list_def)

lemma set_records_inputs:
  fixes e s input work
  defines "inputs' \<equiv> next_inputs (st_inputs s) input"
    and "ordinal \<equiv> admissionOrdinal (js_set (st_byId s) (e_id e) e) (next_inputs (st_inputs s) input)"
  shows "st_inputs (set_records e input work s) = inputs'"
    "st_queued (set_records e input work s) = (case input of None \<Rightarrow> st_queued s
       | Some r \<Rightarrow> update_members ordinal (st_queued s) (ir_clientMessageId r) (is_queued r))"
    "st_started (set_records e input work s) = (case input of None \<Rightarrow> st_started s
       | Some r \<Rightarrow> update_members ordinal (st_started s) (ir_clientMessageId r) (is_started r))"
  unfolding inputs'_def ordinal_def
  by (cases input; cases work; cases "e_body e";
      simp add: set_records_def Let_def setClientInput_def setWork_def setLabel_def appendChild_def
        next_inputs_def)+

lemma apply_entry_inputs:
  assumes "apply_entry s e = Inr s'"
  obtains input where "nextClientInput (st_inputs s) e = Inr input"
    "st_inputs s' = next_inputs (st_inputs s) input"
    "st_queued s' = (case input of None \<Rightarrow> st_queued s
       | Some r \<Rightarrow> update_members (admissionOrdinal (st_byId s') (st_inputs s')) (st_queued s)
           (ir_clientMessageId r) (is_queued r))"
    "st_started s' = (case input of None \<Rightarrow> st_started s
       | Some r \<Rightarrow> update_members (admissionOrdinal (st_byId s') (st_inputs s')) (st_started s)
           (ir_clientMessageId r) (is_started r))"
proof -
  from assms obtain input work s1 where nx: "nextClientInput (st_inputs s) e = Inr input"
    and mv: "move_branch e (set_records e input work s) = Some s1"
    and s': "s' = s1\<lparr>st_ordinal := e_ordinal e\<rparr>" by (rule apply_entry_Inr)
  show ?thesis
    by (rule that [OF nx])
      (simp_all add: s' move_branch_frame [OF mv] set_records_inputs
        split: option.split)
qed

lemma inputs_inv_apply:
  assumes tree: "tree_inv s" and inv: "inputs_inv s" and app: "apply_entry s e = Inr s'"
  shows "inputs_inv s'"
proof -
  note byId = apply_entry_byId [OF app]
  from app obtain input where nx: "nextClientInput (st_inputs s) e = Inr input"
    and inp: "st_inputs s' = next_inputs (st_inputs s) input"
    and q: "st_queued s' = (case input of None \<Rightarrow> st_queued s
       | Some r \<Rightarrow> update_members (admissionOrdinal (st_byId s') (st_inputs s')) (st_queued s)
           (ir_clientMessageId r) (is_queued r))"
    and st: "st_started s' = (case input of None \<Rightarrow> st_started s
       | Some r \<Rightarrow> update_members (admissionOrdinal (st_byId s') (st_inputs s')) (st_started s)
           (ir_clientMessageId r) (is_started r))" by (rule apply_entry_inputs)
  have tree': "tree_ok (st_byId s')" using tree_inv_apply [OF tree app] by (simp add: tree_inv_def)
  have ok: "inputs_ok (st_byId s) (st_inputs s)" using inv by (simp add: inputs_inv_def)
  have "member_list (st_byId s') (st_inputs s') is_queued (st_queued s') \<and>
      member_list (st_byId s') (st_inputs s') is_started (st_started s')"
  proof (cases input)
    case None
    with inv member_list_grow [OF ok byId(4)] show ?thesis
      by (simp add: q st inp byId(1) next_inputs_def inputs_inv_def)
  next
    case (Some r)
    with nx have nx': "nextClientInput (st_inputs s) e = Inr (Some r)" by simp
    note upd = member_list_update [OF tree' byId(1,4) nx' ok]
    from Some inv upd nextClientInput_open(3,4) [OF nx' ok] show ?thesis
      by (simp add: q st inp inputs_inv_def)
  qed
  moreover have "inputs_ok (st_byId s') (st_inputs s')"
    unfolding byId(1) inp using nx ok byId(4) by (rule next_inputs_ok)
  moreover have "delivered_ok (st_byId s') (st_inputs s')"
    unfolding byId(1) inp using inv by (intro next_inputs_delivered [OF nx ok _ byId(4)]) (simp add: inputs_inv_def)
  ultimately show ?thesis by (simp add: inputs_inv_def)
qed

text \<open>A finished input is never touched again, and an open one keeps what its receipt fixed.\<close>

lemma apply_entry_input_kept:
  assumes inv: "inputs_inv s" and app: "apply_entry s e = Inr s'"
    and old: "js_get (st_inputs s) c = Some old"
  obtains r where "js_get (st_inputs s') c = Some r" "same_receipt r old"
    "\<not> input_open old \<Longrightarrow> r = old"
proof -
  from app obtain input where nx: "nextClientInput (st_inputs s) e = Inr input"
    and inp: "st_inputs s' = next_inputs (st_inputs s) input" by (rule apply_entry_inputs)
  have ok: "inputs_ok (st_byId s) (st_inputs s)" using inv by (simp add: inputs_inv_def)
  show ?thesis
  proof (cases "\<exists>r. input = Some r \<and> ir_clientMessageId r = c")
    case True
    then obtain r where r: "input = Some r" "ir_clientMessageId r = c" by blast
    with nx have "nextClientInput (st_inputs s) e = Inr (Some r)" by simp
    from nextClientInput_open(1,2) [OF this ok] old r that [of r] show ?thesis
      by (simp add: inp next_inputs_def js_map_simps)
  next
    case False
    then have "js_get (st_inputs s') c = Some old"
      using old by (auto simp: inp next_inputs_def js_map_simps split: option.split)
    with that [of old] show ?thesis by (simp add: same_receipt_def)
  qed
qed

end
