(* ===== verification/Fold_Work.thy ===== *)
theory Fold_Work
  imports Fold_Tree
begin

text \<open>
  The work of a folded log: the record map is what \<open>rebuildWork\<close> recomputes from the entries, the
  open list holds exactly the unfinished records in start order, a parent starts before its
  children, and the reconciliation of open work interrupts exactly the items that cannot go on.
\<close>

section \<open>Well-formed record maps\<close>

definition record_ok :: "nat \<Rightarrow> work_map \<Rightarrow> work_record \<Rightarrow> bool" where
  "record_ok n m r \<longleftrightarrow>
     w_startedOrdinal r \<le> w_updatedOrdinal r \<and> w_updatedOrdinal r \<le> n \<and>
     (w_outcome r = None \<longleftrightarrow> w_finishedOrdinal r = None) \<and>
     (\<forall>q pr. w_parentWorkId r = Some q \<longrightarrow> js_get m q = Some pr \<longrightarrow>
        w_startedOrdinal pr < w_startedOrdinal r)"

definition work_ok :: "nat \<Rightarrow> work_map \<Rightarrow> bool" where
  "work_ok n m \<longleftrightarrow>
     distinct (js_keys m) \<and> sorted_by w_startedOrdinal (js_values m) \<and>
     (\<forall>k r. js_get m k = Some r \<longrightarrow> w_workId r = k \<and> record_ok n m r)"

definition open_ids :: "work_map \<Rightarrow> work_id list" where
  "open_ids m = map fst (filter (\<lambda>p. w_outcome (snd p) = None) m)"

lemma work_okD:
  assumes "work_ok n m"
  shows "distinct (js_keys m)" "sorted_by w_startedOrdinal (js_values m)"
    "js_get m k = Some r \<Longrightarrow> w_workId r = k" "js_get m k = Some r \<Longrightarrow> record_ok n m r"
  using assms by (simp_all add: work_ok_def)

lemma record_okD:
  assumes "record_ok n m r"
  shows "w_startedOrdinal r \<le> n" "w_outcome r = None \<longleftrightarrow> w_finishedOrdinal r = None"
    "w_parentWorkId r = Some q \<Longrightarrow> js_get m q = Some pr \<Longrightarrow> w_startedOrdinal pr < w_startedOrdinal r"
  using assms by (auto simp: record_ok_def)

lemma map_values_js_set:
  "js_get m k = Some old \<Longrightarrow> f r = f old \<Longrightarrow> map f (js_values (js_set m k r)) = map f (js_values m)"
  by (induction m k r rule: js_set.induct) (auto simp: js_get_def js_values_def split: if_splits)

lemma open_ids_mem:
  "distinct (js_keys m) \<Longrightarrow> k \<in> set (open_ids m) \<longleftrightarrow> (\<exists>r. js_get m k = Some r \<and> w_outcome r = None)"
  by (auto simp: open_ids_def js_get_mem_iff image_iff)

lemma open_ids_values:
  assumes "work_ok n m"
  shows "map w_workId (filter (\<lambda>r. w_outcome r = None) (js_values m)) = open_ids m"
proof -
  have "w_workId (snd p) = fst p" if "p \<in> set m" for p
    using work_okD(1,3) [OF assms] js_get_mem [of m "fst p" "snd p"] that by simp
  then show ?thesis by (simp add: js_values_def open_ids_def filter_map o_def)
qed

text \<open>What a work entry does: starts a fresh item, or updates an open one in place.\<close>

lemma reduceWork_cases:
  assumes "reduceWork m ps n b = Some (Inr r)" and ok: "work_ok k m"
  obtains (Fresh) "js_get m (w_workId r) = None" "w_workId r \<notin> ps" "w_outcome r = None"
      "w_finishedOrdinal r = None" "w_startedOrdinal r = n" "w_updatedOrdinal r = n"
      "w_parentWorkId r \<noteq> Some (w_workId r)"
  | (Update) old where "js_get m (w_workId r) = Some old" "w_outcome old = None"
      "w_parentWorkId r = w_parentWorkId old" "w_startedOrdinal r = w_startedOrdinal old"
      "w_updatedOrdinal r = n" "w_outcome r = None \<longleftrightarrow> w_finishedOrdinal r = None"
      "w_outcome r \<noteq> None \<Longrightarrow> w_finishedOrdinal r = Some n"
proof (cases b)
  case (WorkStarted p)
  with assms have "start_work m ps n p = Inr r" by simp
  from start_work_Inr [OF this] show ?thesis by (intro Fresh) (auto simp: js_has_def)
next
  case (WorkCheckpoint p)
  with assms have "checkpoint_work m n p = Inr r" by simp
  then obtain old where old: "js_get m (wc_workId p) = Some old" "w_outcome old = None" "w_outcome r = None"
    "w_workId r = w_workId old" "w_parentWorkId r = w_parentWorkId old" "w_kind r = w_kind old"
    "w_startedOrdinal r = w_startedOrdinal old" "w_updatedOrdinal r = n"
    "w_finishedOrdinal r = w_finishedOrdinal old"
    "w_state r = w_state old \<or> w_state r \<in> set (CHECKPOINT_STATES (w_state old))"
    by (rule checkpoint_work_Inr)
  with work_okD(3) [OF ok] record_okD(2) [OF work_okD(4) [OF ok old(1)]] show ?thesis
    by (intro Update [of old]) auto
next
  case (WorkFinished p)
  with assms have "finish_work m n p = Inr r" by simp
  then obtain old where "js_get m (wf_workId p) = Some old" "w_outcome old = None"
    "w_outcome r = Some (wf_outcome p)" "w_workId r = w_workId old"
    "w_parentWorkId r = w_parentWorkId old" "w_kind r = w_kind old"
    "w_startedOrdinal r = w_startedOrdinal old" "w_updatedOrdinal r = n"
    "w_finishedOrdinal r = Some n" "w_state r = w_state old"
    by (rule finish_work_Inr)
  with work_okD(3) [OF ok] show ?thesis by (intro Update [of old]) auto
qed (use assms in simp_all)

lemma named_parents_set:
  assumes "js_get m k = Some old" and "w_parentWorkId r = w_parentWorkId old"
  shows "named_parents (js_set m k r) = named_parents m"
  using map_values_js_set [OF assms] by (metis named_parents_alt set_map)

lemma named_parents_snoc:
  "named_parents (m @ [(k, r)]) =
     (case w_parentWorkId r of None \<Rightarrow> named_parents m | Some p \<Rightarrow> insert p (named_parents m))"
  by (auto simp: named_parents_alt split: option.split)

lemma named_parents_get:
  "js_get m k = Some r \<Longrightarrow> w_parentWorkId r = Some p \<Longrightarrow> p \<in> named_parents m"
  using js_get_value [of m k r] by (force simp: named_parents_alt image_iff)

section \<open>One work entry\<close>

lemma work_ok_set:
  assumes red: "reduceWork m (named_parents m) n b = Some (Inr r)" and ok: "work_ok k m" and le: "k < n"
  shows "work_ok n (js_set m (w_workId r) r)"
  using red ok
proof (cases rule: reduceWork_cases)
  case Fresh
  have less: "w_startedOrdinal q < n" if "js_get m d = Some q" for d q
    using record_okD(1) [OF work_okD(4) [OF ok that]] le by simp
  have nochild: "w_parentWorkId q \<noteq> Some (w_workId r)" if "js_get m d = Some q" for d q
    using named_parents_get that Fresh(2) by blast
  have "w_startedOrdinal v < n" if "v \<in> set (js_values m)" for v
    using that less js_get_mem [OF work_okD(1) [OF ok]] unfolding js_values_def by fastforce
  moreover have "js_set m (w_workId r) r = m @ [(w_workId r, r)]"
    using Fresh(1) by (simp add: js_set_fresh js_get_None_iff)
  ultimately have "sorted_by w_startedOrdinal (js_values (js_set m (w_workId r) r))"
    using work_okD(2) [OF ok] Fresh(5) by (simp add: sorted_by_append)
  moreover have "record_ok n (js_set m (w_workId r) r) r"
    using Fresh less by (auto simp: record_ok_def js_map_simps)
  moreover have "record_ok n (js_set m (w_workId r) r) q" if "js_get m d = Some q" for d q
    using work_okD(4) [OF ok that] le nochild [OF that] by (auto simp: record_ok_def js_map_simps)
  ultimately show ?thesis
    using js.distinct_put [OF work_okD(1) [OF ok]] work_okD(3) [OF ok]
    by (auto simp: work_ok_def js_get_set split: if_splits)
next
  case (Update old)
  note old = work_okD(4) [OF ok Update(1)]
  have "sorted_by w_startedOrdinal (js_values (js_set m (w_workId r) r))"
    using work_okD(2) [OF ok] map_values_js_set [OF Update(1,4)]
    by (metis sorted_by_map [where g = "\<lambda>x. x" and f = w_startedOrdinal])
  moreover have "record_ok n (js_set m (w_workId r) r) r"
    using old le Update by (auto simp: record_ok_def js_map_simps)
  moreover have "record_ok n (js_set m (w_workId r) r) q" if "js_get m d = Some q" for d q
    using work_okD(4) [OF ok that] le Update(1,4) by (auto simp: record_ok_def js_map_simps)
  ultimately show ?thesis
    using js.distinct_put [OF work_okD(1) [OF ok]] work_okD(3) [OF ok]
    by (auto simp: work_ok_def js_get_set split: if_splits)
qed

lemma open_ids_set:
  assumes "distinct (js_keys m)" and "js_get m k = Some old" and "w_outcome old = None"
  shows "open_ids (js_set m k r) =
     (if w_outcome r = None then open_ids m else filter (\<lambda>x. x \<noteq> k) (open_ids m))"
proof -
  have "k \<notin> fst ` set m \<Longrightarrow>
      filter (\<lambda>x. x \<noteq> k) (map fst (filter (\<lambda>p. w_outcome (snd p) = None) m)) =
      map fst (filter (\<lambda>p. w_outcome (snd p) = None) m)" for m :: work_map
    by (auto intro!: filter_True)
  with assms show ?thesis
    by (induction m k r rule: js_set.induct) (auto simp: open_ids_def js_get_def js_keys_def split: if_splits)
qed

lemma update_open_ids:
  assumes red: "reduceWork m ps n b = Some (Inr r)" and ok: "work_ok k m"
  shows "update_open (open_ids m) r = open_ids (js_set m (w_workId r) r)"
  using red ok
proof (cases rule: reduceWork_cases)
  case Fresh
  then have "w_workId r \<notin> set (open_ids m)" using open_ids_mem work_okD(1) [OF ok] by fastforce
  with Fresh show ?thesis
    by (simp add: update_open_def Let_def js_set_fresh js_get_None_iff open_ids_def)
next
  case (Update old)
  then have "w_workId r \<in> set (open_ids m)" using open_ids_mem work_okD(1) [OF ok] by fastforce
  with Update open_ids_set [OF work_okD(1) [OF ok] Update(1,2)] show ?thesis
    by (simp add: update_open_def Let_def)
qed

section \<open>The work invariant\<close>

definition work_inv :: "conversation_state \<Rightarrow> bool" where
  "work_inv s \<longleftrightarrow>
     work_ok (st_ordinal s) (st_work s) \<and> st_openWork s = open_ids (st_work s) \<and>
     res_fold rebuild_step ([], {}) (js_values (st_byId s)) = Inr (st_work s, named_parents (st_work s))"

lemma work_inv_empty: "work_inv emptyState"
  by (simp add: work_inv_def emptyState_def work_ok_def open_ids_def named_parents_alt)

lemma set_records_work:
  "st_work (set_records e input work s) =
     (case work of None \<Rightarrow> st_work s | Some r \<Rightarrow> js_set (st_work s) (w_workId r) r)"
  "st_openWork (set_records e input work s) =
     (case work of None \<Rightarrow> st_openWork s | Some r \<Rightarrow> update_open (st_openWork s) r)"
  by (cases input; cases work; cases "e_body e";
      simp add: set_records_def Let_def setWork_def setLabel_def appendChild_def)+

lemma apply_entry_work:
  assumes "apply_entry s e = Inr s'"
  obtains work where "next_work s e = Inr work"
    "st_work s' = (case work of None \<Rightarrow> st_work s | Some r \<Rightarrow> js_set (st_work s) (w_workId r) r)"
    "st_openWork s' = (case work of None \<Rightarrow> st_openWork s | Some r \<Rightarrow> update_open (st_openWork s) r)"
proof -
  from assms obtain input work s1 where nx: "next_work s e = Inr work"
    and mv: "move_branch e (set_records e input work s) = Some s1"
    and s': "s' = s1\<lparr>st_ordinal := e_ordinal e\<rparr>" by (rule apply_entry_Inr)
  show ?thesis
    by (rule that [OF nx]) (simp_all add: s' move_branch_frame [OF mv] set_records_work)
qed

lemma next_work_Some:
  "next_work s e = Inr (Some r) \<longleftrightarrow>
   reduceWork (st_work s) (named_parents (st_work s)) (e_ordinal e) (e_body e) = Some (Inr r)"
  by (auto simp: next_work_def split: option.splits sum.splits)

lemma next_work_None:
  "next_work s e = Inr None \<longleftrightarrow>
   reduceWork (st_work s) (named_parents (st_work s)) (e_ordinal e) (e_body e) = None"
  by (auto simp: next_work_def split: option.splits sum.splits)

lemma rebuild_step_set:
  assumes red: "reduceWork m (named_parents m) (e_ordinal e) (e_body e) = Some (Inr r)" and ok: "work_ok k m"
  shows "rebuild_step (m, named_parents m) e =
     Inr (js_set m (w_workId r) r, named_parents (js_set m (w_workId r) r))"
  using red ok
proof (cases rule: reduceWork_cases)
  case Fresh
  then show ?thesis
    using red by (simp add: rebuild_step_def js_set_fresh js_get_None_iff named_parents_snoc
        split: option.split)
next
  case (Update old)
  have "insert p (named_parents m) = named_parents m" if "w_parentWorkId r = Some p" for p
    using Update named_parents_get that by auto
  with red named_parents_set [OF Update(1,3)] show ?thesis
    by (simp add: rebuild_step_def split: option.split)
qed

lemma work_inv_apply:
  assumes inv: "work_inv s" and app: "apply_entry s e = Inr s'"
  shows "work_inv s'"
proof -
  note byId = apply_entry_byId [OF app]
  have ok: "work_ok (st_ordinal s) (st_work s)" using inv by (simp add: work_inv_def)
  from app obtain work where nx: "next_work s e = Inr work"
    and w: "st_work s' = (case work of None \<Rightarrow> st_work s | Some r \<Rightarrow> js_set (st_work s) (w_workId r) r)"
    and o: "st_openWork s' = (case work of None \<Rightarrow> st_openWork s | Some r \<Rightarrow> update_open (st_openWork s) r)"
    by (rule apply_entry_work)
  have fold: "res_fold rebuild_step ([], {}) (js_values (st_byId s')) =
      rebuild_step (st_work s, named_parents (st_work s)) e"
    using inv by (cases "rebuild_step (st_work s, named_parents (st_work s)) e")
      (simp_all add: byId(1) res_fold_append work_inv_def)
  show ?thesis
  proof (cases work)
    case None
    with nx have "reduceWork (st_work s) (named_parents (st_work s)) (e_ordinal e) (e_body e) = None"
      by (simp add: next_work_None)
    moreover have "work_ok (st_ordinal s') (st_work s)"
      using ok byId(2,3) by (auto simp: work_ok_def record_ok_def intro: le_SucI)
    ultimately show ?thesis
      using None inv w o fold by (simp add: work_inv_def rebuild_step_def)
  next
    case (Some r)
    with nx have red: "reduceWork (st_work s) (named_parents (st_work s)) (e_ordinal e) (e_body e) = Some (Inr r)"
      by (simp add: next_work_Some)
    have w': "st_work s' = js_set (st_work s) (w_workId r) r" using w Some by simp
    have "st_openWork s' = open_ids (st_work s')"
      using update_open_ids [OF red ok] o Some w' inv by (simp add: work_inv_def)
    moreover have "work_ok (st_ordinal s') (st_work s')"
      using work_ok_set [OF red ok] byId(2,3) by (simp add: w')
    ultimately show ?thesis
      using rebuild_step_set [OF red ok] fold w' by (simp add: work_inv_def)
  qed
qed

section \<open>Finished work is final\<close>

lemma apply_entry_work_kept:
  assumes inv: "work_inv s" and app: "apply_entry s e = Inr s'"
    and old: "js_get (st_work s) k = Some old" "w_outcome old \<noteq> None"
  shows "js_get (st_work s') k = Some old"
proof -
  have ok: "work_ok (st_ordinal s) (st_work s)" using inv by (simp add: work_inv_def)
  from app obtain work where nx: "next_work s e = Inr work"
    and w: "st_work s' = (case work of None \<Rightarrow> st_work s | Some r \<Rightarrow> js_set (st_work s) (w_workId r) r)"
    by (rule apply_entry_work)
  have "w_workId r \<noteq> k" if "work = Some r" for r
  proof -
    from that nx have "reduceWork (st_work s) (named_parents (st_work s)) (e_ordinal e) (e_body e) = Some (Inr r)"
      by (simp add: next_work_Some)
    from this ok show ?thesis by (cases rule: reduceWork_cases) (use old in auto)
  qed
  with w old show ?thesis by (auto simp: js_map_simps split: option.split)
qed

section \<open>Reconciliation\<close>

text \<open>
  The items that cannot go on in a new runtime: finished ones, those whose owner has no resume
  capability, and the children of either.
\<close>

inductive cannot_continue :: "work_map \<Rightarrow> work_id \<Rightarrow> bool" for work where
  Ended: "js_get work k = Some r \<Longrightarrow> w_outcome r \<noteq> None \<Longrightarrow> cannot_continue work k"
| Unresumable: "js_get work k = Some r \<Longrightarrow> \<not> w_resume r \<Longrightarrow> cannot_continue work k"
| Child: "js_get work k = Some r \<Longrightarrow> w_parentWorkId r = Some p \<Longrightarrow> cannot_continue work p \<Longrightarrow>
    cannot_continue work k"

inductive_simps cannot_continue_iff: "cannot_continue work k"

lemma cannot_continue_known: "cannot_continue work k \<Longrightarrow> \<exists>r. js_get work k = Some r"
  by (auto elim: cannot_continue.cases)

lemma open_ids_sorted:
  assumes ok: "work_ok n work"
  shows "sorted_by (\<lambda>i. w_startedOrdinal (the (js_get work i))) (open_ids work)"
proof -
  have "sorted_by (\<lambda>q. w_startedOrdinal (snd q)) work"
    using work_okD(2) [OF ok] by (simp add: js_values_def sorted_by_map)
  then have "sorted_by (\<lambda>q. w_startedOrdinal (the (js_get work (fst q)))) work"
    by (subst sorted_by_cong [where g = "\<lambda>q. w_startedOrdinal (snd q)"])
      (use js_get_mem [OF work_okD(1) [OF ok]] in auto)
  then show ?thesis unfolding open_ids_def sorted_by_map by (rule sorted_by_filter)
qed

text \<open>The open ids before an item contain its open parent.\<close>

lemma open_ids_parent_before:
  assumes ok: "work_ok n work" and split: "open_ids work = xs @ k # ys"
    and r: "js_get work k = Some r" "w_parentWorkId r = Some p"
    and p: "js_get work p = Some pr" "w_outcome pr = None"
  shows "p \<in> set xs"
proof -
  have less: "w_startedOrdinal pr < w_startedOrdinal r"
    using record_okD(3) [OF work_okD(4) [OF ok r(1)] r(2) p(1)] .
  let ?ord = "\<lambda>i. w_startedOrdinal (the (js_get work i))"
  have "sorted_by ?ord (open_ids work)" using ok by (rule open_ids_sorted)
  then have "\<forall>j\<in>set ys. ?ord k < ?ord j" using split by (simp add: sorted_by_append)
  moreover have "p \<in> set (open_ids work)" using open_ids_mem [OF work_okD(1) [OF ok]] p by auto
  ultimately show ?thesis using split less r p by auto
qed

lemma reconcile_prefix:
  assumes ok: "work_ok n work"
  shows "open_ids work = xs @ ys \<Longrightarrow>
    foldl (reconcile_step work) \<lparr>rec_interrupt = [], rec_suspended = []\<rparr> xs =
    \<lparr>rec_interrupt = filter (cannot_continue work) xs,
     rec_suspended = filter (\<lambda>k. \<not> cannot_continue work k) xs\<rparr>"
proof (induction xs arbitrary: ys rule: rev_induct)
  case (snoc k xs)
  then have split: "open_ids work = xs @ k # ys" by simp
  then have "k \<in> set (open_ids work)" by simp
  then obtain r where r: "js_get work k = Some r" "w_outcome r = None"
    using open_ids_mem [OF work_okD(1) [OF ok]] by auto
  have parent: "(w_outcome pr \<noteq> None \<or> w_workId pr \<in> set (filter (cannot_continue work) xs)) \<longleftrightarrow>
      cannot_continue work p" if "w_parentWorkId r = Some p" "js_get work p = Some pr" for p pr
    using open_ids_parent_before [OF ok split r(1) that(1,2)] work_okD(3) [OF ok that(2)] that(2)
    by (auto intro: cannot_continue.Ended)
  have "cannot_continue work k \<longleftrightarrow> \<not> w_resume r \<or>
      (\<exists>p. w_parentWorkId r = Some p \<and> cannot_continue work p)"
    using r by (subst cannot_continue_iff) auto
  then have step: "reconcile_step work \<lparr>rec_interrupt = filter (cannot_continue work) xs,
       rec_suspended = filter (\<lambda>k. \<not> cannot_continue work k) xs\<rparr> k =
     \<lparr>rec_interrupt = filter (cannot_continue work) (xs @ [k]),
      rec_suspended = filter (\<lambda>k. \<not> cannot_continue work k) (xs @ [k])\<rparr>"
  proof (cases "w_parentWorkId r")
    case (Some p)
    note parent = parent [OF Some]
    show ?thesis
    proof (cases "js_get work p")
      case None
      then have "\<not> cannot_continue work p" using cannot_continue_known by fastforce
      with \<open>cannot_continue work k \<longleftrightarrow> _\<close> Some None r(1) show ?thesis by simp
    next
      case (Some pr)
      with \<open>cannot_continue work k \<longleftrightarrow> _\<close> \<open>w_parentWorkId r = Some p\<close> r(1) parent [OF Some]
      show ?thesis by (auto simp: Let_def)
    qed
  qed (use r(1) in simp)
  from snoc.IH [OF split] show ?case by (simp only: foldl_append foldl_Cons foldl_Nil step)
qed simp

end
