(* ===== verification/Fold_Snapshot.thy ===== *)
theory Fold_Snapshot
  imports Fold_Branch Fold_Inputs Fold_Work
begin

text \<open>
  The whole fold: its invariant \<open>conv_inv\<close>, that no walk along parent ids fails to return, and that
  \<open>restore\<close> rebuilds from a snapshot exactly the state it was taken of, which is the \<open>replay_fold\<close>
  contract for this fold.
\<close>

section \<open>Children and labels\<close>

lemma record_setters_listing [simp]:
  "st_children (setWork r s) = st_children s" "st_labels (setWork r s) = st_labels s"
  "st_name (setWork r s) = st_name s" "st_children (setLabel t l ts s) = st_children s"
  "st_name (setLabel t l ts s) = st_name s" "st_labels (appendChild i j s) = st_labels s"
  "st_name (appendChild i j s) = st_name s"
  by (simp_all add: setWork_def setLabel_def appendChild_def)

lemma set_records_tree:
  "st_children (set_records e input work s) =
     (if e_visibility e = Public then st_children (appendChild (e_parentId e) (e_id e) s)
      else st_children s)"
  "st_labels (set_records e input work s) =
     (case e_body e of Label t l \<Rightarrow> st_labels (setLabel t l (e_timestamp e) s) | _ \<Rightarrow> st_labels s)"
  "st_name (set_records e input work s) =
     (case e_body e of SessionInfo n \<Rightarrow> trim_or_null n | _ \<Rightarrow> st_name s)"
proof -
  have child: "st_children (appendChild p i (s\<lparr>st_byId := m\<rparr>)) = st_children (appendChild p i s)" for p i m
    by (simp add: appendChild_def)
  show "st_children (set_records e input work s) =
     (if e_visibility e = Public then st_children (appendChild (e_parentId e) (e_id e) s)
      else st_children s)"
    by (cases input; cases work; cases "e_body e"; simp add: set_records_def Let_def child)
  show "st_labels (set_records e input work s) =
     (case e_body e of Label t l \<Rightarrow> st_labels (setLabel t l (e_timestamp e) s) | _ \<Rightarrow> st_labels s)"
    by (cases input; cases work; cases "e_body e"; simp add: set_records_def Let_def setLabel_def split: option.split)
  show "st_name (set_records e input work s) =
     (case e_body e of SessionInfo n \<Rightarrow> trim_or_null n | _ \<Rightarrow> st_name s)"
    by (cases input; cases work; cases "e_body e"; simp add: set_records_def Let_def)
qed

lemma apply_entry_tree:
  assumes "apply_entry s e = Inr s'"
  shows "st_children s' = (if e_visibility e = Public
       then st_children (appendChild (e_parentId e) (e_id e) s) else st_children s)"
    "st_labels s' = (case e_body e of Label t l \<Rightarrow> st_labels (setLabel t l (e_timestamp e) s)
       | _ \<Rightarrow> st_labels s)"
    "st_name s' = (case e_body e of SessionInfo n \<Rightarrow> trim_or_null n | _ \<Rightarrow> st_name s)"
proof -
  from assms obtain input work s1 where mv: "move_branch e (set_records e input work s) = Some s1"
    and s': "s' = s1\<lparr>st_ordinal := e_ordinal e\<rparr>" by (rule apply_entry_Inr)
  show "st_children s' = (if e_visibility e = Public
       then st_children (appendChild (e_parentId e) (e_id e) s) else st_children s)"
    "st_labels s' = (case e_body e of Label t l \<Rightarrow> st_labels (setLabel t l (e_timestamp e) s)
       | _ \<Rightarrow> st_labels s)"
    "st_name s' = (case e_body e of SessionInfo n \<Rightarrow> trim_or_null n | _ \<Rightarrow> st_name s)"
    using s' move_branch_frame [OF mv] set_records_tree [of e input work s] by simp_all
qed

definition listing_inv :: "conversation_state \<Rightarrow> bool" where
  "listing_inv s \<longleftrightarrow>
     st_children s = restore_children (js_values (st_byId s)) \<and> distinct (js_keys (st_labels s))"

lemma restore_children_snoc:
  "restore_children (es @ [e]) =
     (if e_visibility e \<noteq> Public then restore_children es
      else js_set (restore_children es) (e_parentId e)
        ((case js_get (restore_children es) (e_parentId e) of None \<Rightarrow> [] | Some cs \<Rightarrow> cs) @ [e_id e]))"
  by (simp add: restore_children_def)

text \<open>The children of a parent are the public entries that name it, in the order of the log.\<close>

lemma restore_children_get:
  "(case js_get (restore_children es) p of None \<Rightarrow> [] | Some cs \<Rightarrow> cs) =
     map e_id (filter (\<lambda>e. e_visibility e = Public \<and> e_parentId e = p) es)"
proof (induction es rule: rev_induct)
  case (snoc e es)
  then show ?case
    by (cases "e_visibility e = Public"; cases "e_parentId e = p") (simp_all add: restore_children_snoc js_map_simps)
qed (simp add: restore_children_def)

lemma listing_inv_apply:
  assumes "listing_inv s" and app: "apply_entry s e = Inr s'"
  shows "listing_inv s'"
proof -
  have "distinct (js_keys (st_labels (setLabel t l ts s)))" for t l ts
    using assms(1) by (auto simp: listing_inv_def setLabel_def js_map_simps split: option.split)
  then have "distinct (js_keys (st_labels s'))"
    using assms(1) by (cases "e_body e") (simp_all add: apply_entry_tree(2) [OF app] listing_inv_def)
  then show ?thesis
    using assms(1) apply_entry_byId(1) [OF app]
    by (simp add: listing_inv_def apply_entry_tree(1) [OF app] restore_children_snoc appendChild_def)
qed

section \<open>The invariant of the fold\<close>

definition conv_inv :: "conversation_state \<Rightarrow> bool" where
  "conv_inv s \<longleftrightarrow> tree_inv s \<and> branch_inv s \<and> inputs_inv s \<and> work_inv s \<and> listing_inv s"

lemma conv_inv_empty: "conv_inv emptyState"
  using tree_inv_empty branch_inv_empty inputs_inv_empty work_inv_empty
  by (simp add: conv_inv_def listing_inv_def emptyState_def restore_children_def)

lemma conv_inv_apply: "conv_inv s \<Longrightarrow> apply_entry s e = Inr s' \<Longrightarrow> conv_inv s'"
  unfolding conv_inv_def
  using tree_inv_apply branch_inv_apply inputs_inv_apply work_inv_apply listing_inv_apply by blast

section \<open>Every walk returns\<close>

lemma validateReferences_returns:
  assumes inv: "tree_inv s" and env: "validateEnvelope s e = Inr ()"
  shows "validateReferences s e \<noteq> Inl NoReturn"
proof (cases "e_body e")
  case (Compaction p)
  have "known (st_byId s) (e_parentId e)"
    using tree_inv_entry [OF inv env] by (auto simp: entry_ok_def known_def)
  with inv obtain "is" where
    "\<And>t. find_ancestor (walk_fuel (st_byId s)) (st_byId s) t (e_parentId e) = Some (t \<in> set is)"
    unfolding tree_inv_def by (metis find_ancestor_path)
  with Compaction show ?thesis by (simp add: validateReferences_def)
qed (auto simp: validateReferences_def validateTarget_def split: option.split)

lemma move_branch_returns:
  assumes inv: "tree_inv s" and env: "validateEnvelope s e = Inr ()"
    and ref: "validateReferences s e = Inr ()"
  shows "move_branch e (set_records e input work s) \<noteq> None"
proof -
  let ?m = "st_byId s @ [(e_id e, e)]"
  have ok: "tree_ok (st_byId s)" using inv by (simp add: tree_inv_def)
  have fresh: "e_id e \<notin> set (js_keys (st_byId s))"
    using env by (simp add: validateEnvelope_Inr js_has_iff_keys)
  have eok: "entry_ok (st_byId s) e" using tree_inv_entry [OF inv env] .
  have kp: "known (st_byId s) (e_parentId e)" using eok by (auto simp: entry_ok_def known_def)
  from ok kp obtain "is" where "pathTo (st_byId s) (e_parentId e) = Some is"
    "\<And>t. find_ancestor (walk_fuel (st_byId s)) (st_byId s) t (e_parentId e) = Some (t \<in> set is)"
    by (rule find_ancestor_path) blast
  with ref have kok: "kept_ok (st_byId s) e"
    by (auto simp: kept_ok_def validateReferences_def split: if_splits)
  have ok': "tree_ok ?m"
    using tree_ok_snoc [OF ok fresh _ eok kok] env inv by (simp add: tree_inv_def validateEnvelope_Inr)
  have ret: "pathTo ?m i \<noteq> None" if "known ?m i" for i
    using pathTo_known [OF ok' that] by auto
  have "known ?m (Some (e_id e))" using fresh by (simp add: known_def js_get_snoc)
  moreover have "known ?m t" if "e_body e = Leaf t" for t
    using ref that is_public_known [THEN known_snoc]
    by (cases t) (auto simp: validateReferences_def validateTarget_Inr)
  ultimately show ?thesis
    using ret fresh by (cases "e_body e")
      (auto simp: move_branch_def moveLeaf_def appendToBranch_def Let_def js_set_fresh)
qed

lemma input_steps_return:
  "receive_input inputs i p \<noteq> Inl NoReturn" "requireReceipt inputs c j \<noteq> Inl NoReturn"
  "queue_input inputs i q \<noteq> Inl NoReturn" "move_input inputs st \<noteq> Inl NoReturn"
  "complete_input inputs i c \<noteq> Inl NoReturn"
proof -
  show req: "requireReceipt inputs c j \<noteq> Inl NoReturn" for c j
    by (simp add: requireReceipt_def split: option.split)
  show "receive_input inputs i p \<noteq> Inl NoReturn" by (simp add: receive_input_def)
  show "queue_input inputs i q \<noteq> Inl NoReturn" using req by (simp add: queue_input_def res_simps)
  show "move_input inputs st \<noteq> Inl NoReturn" using req by (simp add: move_input_def res_simps)
  show "complete_input inputs i c \<noteq> Inl NoReturn" by (simp add: complete_input_def split: option.split)
qed

lemma map_sum_Inl_iff: "map_sum id f r = Inl x \<longleftrightarrow> r = Inl x"
  by (cases r) auto

lemma nextClientInput_returns: "nextClientInput inputs e \<noteq> Inl NoReturn"
proof (cases "e_body e")
  case (Message m co)
  then show ?thesis by (cases co) (simp_all add: nextClientInput_def map_sum_Inl_iff input_steps_return)
qed (simp_all add: nextClientInput_def map_sum_Inl_iff input_steps_return)

lemma validateEnvelope_returns: "validateEnvelope s e \<noteq> Inl NoReturn"
  by (auto simp: validateEnvelope_def split: option.splits)

lemma next_work_returns: "next_work s e \<noteq> Inl NoReturn"
  by (auto simp: next_work_def split: option.splits sum.splits)

lemma apply_entry_returns:
  assumes "tree_inv s" and "apply_entry s e = Inl err"
  shows "fe_kind err \<noteq> NoReturn"
proof -
  have "apply_kind s e \<noteq> Inl NoReturn"
    using assms(1) validateReferences_returns [of s e] move_branch_returns [of s e]
      validateEnvelope_returns [of s e] nextClientInput_returns [of "st_inputs s" e] next_work_returns [of s e]
    by (fastforce simp: apply_kind_def res_simps split: option.splits)
  with assms(2) show ?thesis
    by (auto simp: apply_entry_def map_sum_def fold_fail_def split: sum.splits)
qed

section \<open>Restoring a snapshot\<close>

lemma inputs_ok_keys:
  assumes "inputs_ok m inputs"
  shows "map (\<lambda>r. (ir_clientMessageId r, r)) (js_values inputs) = inputs"
proof -
  have "ir_clientMessageId (snd p) = fst p" if "p \<in> set inputs" for p
    using assms that js_get_mem [of inputs "fst p" "snd p"] by (auto simp: inputs_ok_def input_ok_def)
  then show ?thesis by (auto simp: js_values_def o_def intro: map_idI)
qed

lemma lifecycle_ids_member_list:
  assumes ok: "inputs_ok m inputs" and mem: "member_list m inputs P ids"
  shows "lifecycle_ids m inputs P = ids"
proof -
  have dist: "distinct (js_keys inputs)" using ok by (simp add: inputs_ok_def)
  define recs where "recs = map (\<lambda>c. the (js_get inputs c)) ids"
  have get: "\<exists>r. js_get inputs c = Some r \<and> P r \<and> ir_clientMessageId r = c" if "c \<in> set ids" for c
    using that mem ok by (auto simp: member_list_def inputs_ok_def input_ok_def)
  have ids: "map ir_clientMessageId recs = ids"
    unfolding recs_def map_map by (rule map_idI) (use get in fastforce)
  have "sorted_by (record_admission m) recs"
  proof -
    have "sorted_by (\<lambda>c. record_admission m (the (js_get inputs c))) ids"
      using mem sorted_by_cong [of ids "\<lambda>c. record_admission m (the (js_get inputs c))" "admissionOrdinal m inputs"] get
      by (fastforce simp: member_list_def admissionOrdinal_def)
    then show ?thesis by (simp add: recs_def sorted_by_map)
  qed
  moreover have "set (filter P (js_values inputs)) = set recs"
  proof -
    have "r \<in> set recs" if "(c, r) \<in> set inputs" "P r" for c r
      using that js_get_mem [OF dist that(1)] mem by (force simp: recs_def member_list_def)
    moreover have "r \<in> set (js_values inputs) \<and> P r" if "r \<in> set recs" for r
      using that get js_get_value by (fastforce simp: recs_def)
    ultimately show ?thesis by (auto simp: js_values_def)
  qed
  moreover have "distinct (filter P (js_values inputs))"
  proof -
    have "map ir_clientMessageId (js_values inputs) = js_keys inputs"
      using arg_cong [OF inputs_ok_keys [OF ok], of "map fst"] by (simp add: js_keys_def o_def)
    with dist have "distinct (js_values inputs)" by (metis distinct_map)
    then show ?thesis by simp
  qed
  ultimately have "sort_key (record_admission m) (filter P (js_values inputs)) = recs"
    by (rule sort_key_sorted_by)
  with ids show ?thesis by (simp add: lifecycle_ids_def)
qed

lemma tree_ok_pairs: "tree_ok m \<Longrightarrow> map (\<lambda>e. (e_id e, e)) (js_values m) = m"
  using tree_okD(2) tree_ok_id [of m] js_get_mem [of m]
  by (auto simp: js_values_def o_def intro!: map_idI)

lemma restore_snapshot:
  assumes inv: "conv_inv s"
  shows "restore (snapshot s) = Inr s"
proof -
  note invs = inv [unfolded conv_inv_def]
  have tree: "tree_ok (st_byId s)" using invs by (simp add: tree_inv_def)
  have byId: "js_map_of (map (\<lambda>e. (e_id e, e)) (js_values (st_byId s))) = st_byId s"
    using tree_ok_pairs [OF tree] tree_okD(2) [OF tree] by (simp add: js_map_of_id)
  have ok: "inputs_ok (st_byId s) (st_inputs s)" using invs by (simp add: inputs_inv_def)
  then have inputs: "js_map_of (map (\<lambda>r. (ir_clientMessageId r, r)) (js_values (st_inputs s))) = st_inputs s"
    unfolding inputs_ok_keys [OF ok] by (simp add: js_map_of_id inputs_ok_def)
  have lists: "lifecycle_ids (st_byId s) (st_inputs s) is_queued = st_queued s"
    "lifecycle_ids (st_byId s) (st_inputs s) is_started = st_started s"
    using invs lifecycle_ids_member_list [OF ok] by (simp_all add: inputs_inv_def)
  have work: "rebuildWork (js_values (st_byId s)) = Inr (st_work s, st_openWork s)"
    using invs open_ids_values by (auto simp: rebuildWork_def work_inv_def)
  have labels: "js_map_of (st_labels s) = st_labels s"
    using invs by (simp add: listing_inv_def js_map_of_id)
  show ?thesis
    using invs
    by (simp add: restore_def snapshot_def Let_def byId inputs lists work labels listing_inv_def branch_inv_def)
qed

interpretation kernel: replay_fold apply_entry emptyState snapshot restore conv_inv
  using conv_inv_empty conv_inv_apply restore_snapshot by unfold_locales

end
