(* ===== verification/Sample_Log.thy ===== *)
theory Sample_Log
  imports Fold_Snapshot
begin

text \<open>
  A concrete conversation log, on which the properties of the fold are exercised: a prompt that is
  received, started, delivered and answered, a steer that is still queued, a job that has finished and
  a child of an open one, a model change, a label, a move of the leaf and a compaction on the new
  branch.
\<close>

definition sample_entry :: "nat \<Rightarrow> string \<Rightarrow> string option \<Rightarrow> visibility \<Rightarrow> entry_body \<Rightarrow> log_entry" where
  "sample_entry n i parent vis body =
     \<lparr>e_ordinal = n, e_id = i, e_parentId = parent, e_timestamp = ''2025-01-01T00:00:00.000Z'',
      e_visibility = vis, e_body = body\<rparr>"

definition sample_user :: user_message where
  "sample_user = \<lparr>u_content = PlainText ''hello'', u_timestamp = 1\<rparr>"

definition sample_assistant :: assistant_message where
  "sample_assistant =
     \<lparr>a_content = [AText ''hi'' None], a_api = ''api'', a_provider = ''p'', a_model = ''m'',
      a_responseModel = None, a_responseId = None, a_diagnostics = None, a_usage = JNull,
      a_stopReason = Stop, a_error = None, a_timestamp = 2\<rparr>"

definition sample_receipt :: "client_message_id \<Rightarrow> client_input_command \<Rightarrow> entry_body" where
  "sample_receipt c cmd = ClientInputReceipt
     \<lparr>rp_clientMessageId = c, rp_command = cmd, rp_semanticDigest = ''d'',
      rp_input = \<lparr>ci_message = ''hello'', ci_images = [], ci_streamingBehavior = None\<rparr>, rp_origin = False\<rparr>"

definition sample_move :: "entry_id \<Rightarrow> client_message_id \<Rightarrow> client_input_state \<Rightarrow> entry_body" where
  "sample_move i c state = ClientInputStateEntry
     \<lparr>sp_receiptId = i, sp_clientMessageId = c, sp_state = state, sp_error = None\<rparr>"

definition sample_queued :: "entry_id \<Rightarrow> client_message_id \<Rightarrow> entry_body" where
  "sample_queued i c = ClientInputQueued
     \<lparr>qp_receiptId = i, qp_clientMessageId = c,
      qp_queuedInput = \<lparr>ciq_delivery = DeliverSteer, ciq_message = ''stop'', ciq_images = [],
        ciq_messages = None, ciq_wake = False\<rparr>\<rparr>"

definition sample_work :: "work_id \<Rightarrow> work_id option \<Rightarrow> bool \<Rightarrow> entry_body" where
  "sample_work w parent resume = WorkStarted
     \<lparr>ws_workId = w, ws_kind = Job, ws_title = ''job'', ws_parentWorkId = parent, ws_input = JNull,
      ws_cancellable = True, ws_delivery = DeliverNone, ws_resume = resume, ws_state = Running,
      ws_toolCallId = None, ws_child = None, ws_requires = None, ws_remote = None, ws_opens = None\<rparr>"

definition sample_log :: "log_entry list" where
  "sample_log =
     [sample_entry 1 ''e1'' None Host (sample_receipt ''c1'' Prompt),
      sample_entry 2 ''e2'' None Host (sample_move ''e1'' ''c1'' Started),
      sample_entry 3 ''e3'' None Public (Message (UserMessage sample_user) (Some ''c1'')),
      sample_entry 4 ''e4'' (Some ''e3'') Public (Message (AssistantMessage sample_assistant) None),
      sample_entry 5 ''e5'' (Some ''e4'') Host (sample_receipt ''c2'' Steer),
      sample_entry 6 ''e6'' (Some ''e4'') Host (sample_queued ''e5'' ''c2''),
      sample_entry 7 ''e7'' (Some ''e4'') Host (sample_work ''w1'' None False),
      sample_entry 8 ''e8'' (Some ''e4'') Host (sample_work ''w2'' (Some ''w1'') True),
      sample_entry 9 ''e9'' (Some ''e4'') Host (sample_work ''w3'' None True),
      sample_entry 10 ''e10'' (Some ''e4'') Host
        (WorkFinished \<lparr>wf_workId = ''w3'', wf_outcome = WCompleted, wf_result = None, wf_error = None\<rparr>),
      sample_entry 11 ''e11'' (Some ''e4'') Public (Label ''e3'' (Some ''start'')),
      sample_entry 12 ''e12'' (Some ''e11'') Host (Leaf (Some ''e3'')),
      sample_entry 13 ''e13'' (Some ''e3'') Public (ModelChange ''p'' ''m2''),
      sample_entry 14 ''e14'' (Some ''e13'') Public
        (Compaction \<lparr>cp_summary = ''s'', cp_firstKeptEntryId = ''e13'', cp_tokensBefore = 10,
           cp_details = None, cp_fromHook = None\<rparr>)]"

definition sample_state :: conversation_state where
  "sample_state = (case fold_log sample_log emptyState of Inr s \<Rightarrow> s | Inl _ \<Rightarrow> emptyState)"

text \<open>The fold accepts the log.\<close>

lemma sample_accepted: "\<not> isl (fold_log sample_log emptyState)"
  by code_simp

lemma sample_fold: "fold_log sample_log emptyState = Inr sample_state"
  using sample_accepted by (auto simp: sample_state_def split: sum.splits)

lemma sample_branch: "st_branch sample_state = [''e3'', ''e13'', ''e14'']"
  by code_simp

lemma sample_queue: "st_queued sample_state = [''c2'']"
  by code_simp

lemma sample_open: "st_openWork sample_state = [''w1'', ''w2'']"
  by code_simp

end
