(* ===== verification/Kernel_Commit.thy ===== *)
theory Kernel_Commit
  imports Fold_Snapshot
begin

text \<open>
  The commit lane of the conversation kernel (\<^verbatim>\<open>packages/agent/src/conversation/conversation.ts\<close>):
  \<open>EntryDrafts\<close>, which builds a batch against a provisional leaf, \<open>commitInLane\<close>, which folds a batch,
  appends it to the log and only then replaces the fold state, and \<open>open\<close>, which reads the log page by
  page and folds it.

  The log is a parameter (its \<open>append\<close> and \<open>read\<close>), with the contract \<open>conversation_log\<close>. \<open>createId\<close>
  is the supply of unique ids: \<open>createId n\<close> is the result of its \<open>n\<close>-th call, and a state counts the
  calls made so far. The clock is the argument \<open>now\<close>. Jobs of the lane run one at a time, so a commit
  is one step on the conversation.
\<close>

section \<open>Drafts of a batch\<close>

record entry_drafts =
  ed_drafts :: "entry_draft list"
  ed_leafId :: "entry_id option"
  ed_timestamp :: string
  ed_calls :: nat

definition new_drafts :: "conversation_state \<Rightarrow> string \<Rightarrow> nat \<Rightarrow> entry_drafts" where
  "new_drafts s now calls =
     \<lparr>ed_drafts = [], ed_leafId = st_leafId s, ed_timestamp = now, ed_calls = calls\<rparr>"

definition next_draft :: "(nat \<Rightarrow> string) \<Rightarrow> visibility \<Rightarrow> entry_body \<Rightarrow> entry_drafts \<Rightarrow> entry_draft" where
  "next_draft createId vis body d =
     \<lparr>d_id = createId (ed_calls d), d_parentId = ed_leafId d, d_timestamp = ed_timestamp d,
      d_visibility = vis, d_body = body\<rparr>"

definition drafts_add :: "(nat \<Rightarrow> string) \<Rightarrow> visibility \<Rightarrow> entry_body \<Rightarrow> entry_drafts \<Rightarrow> entry_drafts" where
  "drafts_add createId vis body d =
     (let draft = next_draft createId vis body d in
      d\<lparr>ed_drafts := ed_drafts d @ [draft], ed_calls := ed_calls d + 1,
        ed_leafId := (if vis = Public then Some (d_id draft) else ed_leafId d)\<rparr>)"

definition drafts_moveLeaf :: "(nat \<Rightarrow> string) \<Rightarrow> entry_id option \<Rightarrow> entry_drafts \<Rightarrow> entry_drafts" where
  "drafts_moveLeaf createId target d = (drafts_add createId Host (Leaf target) d)\<lparr>ed_leafId := target\<rparr>"

text \<open>A batch is a sequence of these calls.\<close>

datatype draft_call = Add visibility entry_body | MoveLeaf "entry_id option"

fun draft_step :: "(nat \<Rightarrow> string) \<Rightarrow> entry_drafts \<Rightarrow> draft_call \<Rightarrow> entry_drafts" where
  "draft_step createId d (Add vis body) = drafts_add createId vis body d"
| "draft_step createId d (MoveLeaf target) = drafts_moveLeaf createId target d"

definition run_drafts :: "(nat \<Rightarrow> string) \<Rightarrow> entry_drafts \<Rightarrow> draft_call list \<Rightarrow> entry_drafts" where
  "run_drafts createId d calls = foldl (draft_step createId) d calls"

section \<open>The lane\<close>

datatype conversation_event = CommittedEvent "log_entry list" nat | EndedEvent loss_reason

record 'l conversation =
  cv_log :: 'l
  cv_foldState :: conversation_state
  cv_endState :: "loss_reason option"
  cv_calls :: nat
  cv_events :: "conversation_event list"

datatype conversation_error =
    Ended loss_reason
  | Rejected fold_error
  | CommitRolledBack rollback_reason
  | NotALogMessage string
  | InputCannotStart client_message_id
  | UnknownClientInput client_message_id
  | WorkNotOpen work_id

definition handleLoss :: "loss_reason \<Rightarrow> 'l conversation \<Rightarrow> 'l conversation" where
  "handleLoss reason c =
     (case cv_endState c of
        Some _ \<Rightarrow> c
      | None \<Rightarrow> c\<lparr>cv_endState := Some reason, cv_events := cv_events c @ [EndedEvent reason]\<rparr>)"

definition commit_id :: "(nat \<Rightarrow> string) \<Rightarrow> nat \<Rightarrow> string" where
  "commit_id createId n = ''conversation-commit:'' @ createId n"

definition commitInLane ::
    "('l \<Rightarrow> log_append \<Rightarrow> (loss_reason + append_result) \<times> 'l) \<Rightarrow> (nat \<Rightarrow> string) \<Rightarrow> string \<Rightarrow>
     (entry_drafts \<Rightarrow> conversation_state \<Rightarrow> conversation_error + entry_drafts) \<Rightarrow> 'l conversation \<Rightarrow>
     (conversation_error + log_entry list) \<times> 'l conversation" where
  "commitInLane logAppend createId now build c =
     (case cv_endState c of
        Some reason \<Rightarrow> (Inl (Ended reason), c)
      | None \<Rightarrow>
        let state = cv_foldState c in
        (case build (new_drafts state now (cv_calls c)) state of
           Inl err \<Rightarrow> (Inl err, c)
         | Inr d \<Rightarrow>
             let c1 = c\<lparr>cv_calls := ed_calls d\<rparr> in
             if ed_drafts d = [] then (Inr [], c1)
             else
               let entries = stamp_drafts (st_ordinal state) (ed_drafts d) in
               (case fold_log entries state of
                  Inl err \<Rightarrow> (Inl (Rejected err), c1)
                | Inr nextState \<Rightarrow>
                    let c2 = c1\<lparr>cv_calls := cv_calls c1 + 1\<rparr>;
                        (result, l) = logAppend (cv_log c2)
                          \<lparr>ap_expectedOrdinal = st_ordinal state,
                           ap_commitId = commit_id createId (cv_calls c1),
                           ap_entries = ed_drafts d\<rparr>;
                        c3 = c2\<lparr>cv_log := l\<rparr>
                    in case result of
                         Inl reason \<Rightarrow> (Inl (Ended reason), handleLoss reason c3)
                       | Inr (RolledBack why) \<Rightarrow> (Inl (CommitRolledBack why), c3)
                       | Inr (Committed m n) \<Rightarrow>
                           (Inr entries,
                            c3\<lparr>cv_foldState := nextState,
                               cv_events := cv_events c3 @ [CommittedEvent entries n]\<rparr>))))"

section \<open>Opening\<close>

text \<open>The read loop of \<open>open\<close>: \<open>None\<close> is a loop that has not ended within the fuel.\<close>

fun read_log ::
    "(nat \<Rightarrow> read_error + log_page) \<Rightarrow> nat \<Rightarrow> log_entry list \<Rightarrow> (read_error + log_entry list) option" where
  "read_log readPage 0 entries = None"
| "read_log readPage (Suc fuel) entries =
     (case readPage (length entries) of
        Inl err \<Rightarrow> Some (Inl err)
      | Inr page \<Rightarrow>
          let entries' = entries @ pg_entries page in
          if pg_entries page = [] \<or> length entries' \<ge> pg_lastOrdinal page then Some (Inr entries')
          else read_log readPage fuel entries')"

datatype open_error = OpenRead read_error | OpenFold fold_error

definition open_conversation ::
    "('l \<Rightarrow> int \<Rightarrow> int \<Rightarrow> read_error + log_page) \<Rightarrow> nat \<Rightarrow> nat \<Rightarrow> 'l \<Rightarrow>
     (open_error + 'l conversation) option" where
  "open_conversation read fuel calls l =
     map_option (\<lambda>r. res_bind (map_sum OpenRead id r) (\<lambda>entries.
         res_bind (map_sum OpenFold id (fold_log entries emptyState)) (\<lambda>state.
           Inr \<lparr>cv_log = l, cv_foldState = state, cv_endState = None, cv_calls = calls, cv_events = []\<rparr>)))
       (read_log (\<lambda>n. read l (int n) CONVERSATION_LOG_READ_LIMIT_MAX) fuel [])"

section \<open>The provisional leaf\<close>

lemma run_drafts_snoc:
  "run_drafts createId d (calls @ [a]) = draft_step createId (run_drafts createId d calls) a"
  by (simp add: run_drafts_def)

lemma draft_step_drafts:
  "\<exists>vis body. ed_drafts (draft_step createId d a) = ed_drafts d @ [next_draft createId vis body d] \<and>
     ed_calls (draft_step createId d a) = Suc (ed_calls d) \<and>
     ed_leafId (draft_step createId d a) =
       (case a of MoveLeaf t \<Rightarrow> t | Add _ _ \<Rightarrow> if vis = Public then Some (createId (ed_calls d)) else ed_leafId d) \<and>
     (case a of Add v b \<Rightarrow> vis = v \<and> body = b | MoveLeaf t \<Rightarrow> vis = Host \<and> body = Leaf t)"
  by (cases a) (auto simp: drafts_add_def drafts_moveLeaf_def next_draft_def Let_def)

lemma apply_entry_leaf:
  assumes "apply_entry s e = Inr s'"
  shows "st_leafId s' = (case e_body e of Leaf t \<Rightarrow> t
     | _ \<Rightarrow> if e_visibility e = Public then Some (e_id e) else st_leafId s)"
proof -
  from assms obtain input work s1 where mv: "move_branch e (set_records e input work s) = Some s1"
    and s': "s' = s1\<lparr>st_ordinal := e_ordinal e\<rparr>" by (rule apply_entry_Inr)
  let ?r = "set_records e input work s"
  have move: "st_leafId s1 = t" if "moveLeaf t n ?r = Some s1" for t n
    using that by (auto simp: moveLeaf_def Let_def rederiveBranch_def split: if_splits)
  have app: "st_leafId s1 = Some (e_id e)" if "appendToBranch e ?r = Some s1"
    using that extend_context_frame
    by (auto simp: appendToBranch_def Let_def rederiveBranch_def split: if_splits)
  show ?thesis using mv s' move app
    by (cases "e_body e") (auto simp: move_branch_def split: if_splits)
qed

text \<open>Calls of \<open>add\<close> do not write leaf entries; \<open>moveLeaf\<close> does.\<close>

definition plain_calls :: "draft_call list \<Rightarrow> bool" where
  "plain_calls calls \<longleftrightarrow> list_all (\<lambda>a. case a of Add _ (Leaf _) \<Rightarrow> False | _ \<Rightarrow> True) calls"

lemma provisional_leaf:
  assumes "plain_calls calls"
    and "fold_log (stamp_drafts (st_ordinal s) (ed_drafts (run_drafts createId (new_drafts s now n) calls))) s = Inr s'"
  shows "st_leafId s' = ed_leafId (run_drafts createId (new_drafts s now n) calls)"
  using assms
proof (induction calls arbitrary: s' rule: rev_induct)
  case Nil
  then show ?case by (simp add: run_drafts_def new_drafts_def fold_log_def)
next
  case (snoc a calls)
  let ?d = "run_drafts createId (new_drafts s now n) calls"
  obtain vis body where d: "ed_drafts (draft_step createId ?d a) = ed_drafts ?d @ [next_draft createId vis body ?d]"
    and leaf: "ed_leafId (draft_step createId ?d a) = (case a of MoveLeaf t \<Rightarrow> t
       | Add _ _ \<Rightarrow> if vis = Public then Some (createId (ed_calls ?d)) else ed_leafId ?d)"
    and a: "case a of Add v b \<Rightarrow> vis = v \<and> body = b | MoveLeaf t \<Rightarrow> vis = Host \<and> body = Leaf t"
    using draft_step_drafts [of createId ?d a] by blast
  let ?e = "commit_entry (st_ordinal s + length (ed_drafts ?d) + 1) (next_draft createId vis body ?d)"
  from snoc.prems(2) d obtain u where u: "fold_log (stamp_drafts (st_ordinal s) (ed_drafts ?d)) s = Inr u"
    and ap: "apply_entry u ?e = Inr s'"
    by (auto simp: run_drafts_snoc stamp_drafts_snoc fold_log_def res_fold_append res_simps)
  have "st_leafId u = ed_leafId ?d"
    using snoc.IH [OF _ u] snoc.prems(1) by (simp add: plain_calls_def)
  moreover have "st_leafId s' = (case body of Leaf t \<Rightarrow> t
     | _ \<Rightarrow> if vis = Public then Some (createId (ed_calls ?d)) else st_leafId u)"
    using apply_entry_leaf [OF ap] by (cases body) (simp_all add: next_draft_def)
  moreover have "body \<noteq> Leaf t" if "a = Add v b" for v b t
    using snoc.prems(1) that a by (cases b) (auto simp: plain_calls_def)
  ultimately show ?case
    using leaf a by (cases a; cases body) (auto simp: run_drafts_snoc)
qed

section \<open>The fold of a whole log\<close>

lemma fold_log_append: "fold_log (xs @ ys) s = res_bind (fold_log xs s) (fold_log ys)"
  by (simp add: fold_log_def [abs_def] res_fold_append)

lemma fold_log_snoc:
  "fold_log (es @ [e]) s = Inr t \<longleftrightarrow> (\<exists>u. fold_log es s = Inr u \<and> apply_entry u e = Inr t)"
  by (simp add: fold_log_def res_fold_snoc)

lemma fold_log_inv: "fold_log es emptyState = Inr s \<Longrightarrow> conv_inv s"
  unfolding fold_log_def by (rule kernel.fold_inv)

lemma fold_log_entries:
  "fold_log es emptyState = Inr s \<Longrightarrow> js_values (st_byId s) = es \<and> st_ordinal s = length es"
proof (induction es arbitrary: s rule: rev_induct)
  case Nil
  then show ?case by (auto simp: fold_log_def emptyState_def)
next
  case (snoc e es)
  then obtain u where u: "fold_log es emptyState = Inr u" and ap: "apply_entry u e = Inr s"
    by (auto simp: fold_log_snoc)
  with snoc.IH [OF u] apply_entry_byId [OF ap] show ?case by simp
qed

section \<open>Commits over any log\<close>

definition kernel_ok ::
    "('l \<Rightarrow> log_entry list) \<Rightarrow> ('l \<Rightarrow> string set) \<Rightarrow> ('l \<Rightarrow> bool) \<Rightarrow> (nat \<Rightarrow> string) \<Rightarrow>
     'l conversation \<Rightarrow> bool" where
  "kernel_ok entries used logInv createId c \<longleftrightarrow>
     logInv (cv_log c) \<and> fold_log (entries (cv_log c)) emptyState = Inr (cv_foldState c) \<and>
     (\<forall>n \<ge> cv_calls c. commit_id createId n \<notin> used (cv_log c))"

text \<open>
  A conversation is in doubt after a commit when that commit ended it without knowing whether the batch was
  appended, and the log does hold the batch: the entries the builder drafted on the state the conversation keeps.
\<close>

definition in_doubt ::
    "('l \<Rightarrow> log_entry list) \<Rightarrow> string \<Rightarrow>
     (entry_drafts \<Rightarrow> conversation_state \<Rightarrow> conversation_error + entry_drafts) \<Rightarrow>
     'l conversation \<Rightarrow> 'l conversation \<Rightarrow> bool" where
  "in_doubt entries now build c c' \<longleftrightarrow>
     cv_endState c' = Some UncertainCommit \<and> cv_foldState c' = cv_foldState c \<and>
     (\<exists>d s. build (new_drafts (cv_foldState c) now (cv_calls c)) (cv_foldState c) = Inr d \<and>
        entries (cv_log c') = entries (cv_log c) @ stamp_drafts (st_ordinal (cv_foldState c)) (ed_drafts d) \<and>
        fold_log (stamp_drafts (st_ordinal (cv_foldState c)) (ed_drafts d)) (cv_foldState c) = Inr s)"

text \<open>A builder only ever asks for more ids.\<close>

definition counting ::
    "(entry_drafts \<Rightarrow> conversation_state \<Rightarrow> conversation_error + entry_drafts) \<Rightarrow> bool" where
  "counting build \<longleftrightarrow> (\<forall>d s d'. build d s = Inr d' \<longrightarrow> ed_calls d \<le> ed_calls d')"

lemma counting_calls:
  assumes "counting build" and "build (new_drafts s now n) t = Inr d"
  shows "n \<le> ed_calls d"
proof -
  have "ed_calls (new_drafts s now n) \<le> ed_calls d" using assms unfolding counting_def by blast
  then show ?thesis by (simp add: new_drafts_def)
qed

lemma commitInLane_cases:
  assumes "commitInLane logAppend createId now build c = (r, c')"
  obtains (ended) reason where "cv_endState c = Some reason" "r = Inl (Ended reason)" "c' = c"
  | (build_fails) err where "cv_endState c = None" "r = Inl err" "c' = c"
  | (empty) d where "cv_endState c = None" "build (new_drafts (cv_foldState c) now (cv_calls c)) (cv_foldState c) = Inr d"
      "ed_drafts d = []" "r = Inr []" "c' = c\<lparr>cv_calls := ed_calls d\<rparr>"
  | (fold_fails) d err where "cv_endState c = None"
      "build (new_drafts (cv_foldState c) now (cv_calls c)) (cv_foldState c) = Inr d"
      "r = Inl (Rejected err)" "c' = c\<lparr>cv_calls := ed_calls d\<rparr>"
  | (appended) d nextState result l where "cv_endState c = None" "ed_drafts d \<noteq> []"
      "build (new_drafts (cv_foldState c) now (cv_calls c)) (cv_foldState c) = Inr d"
      "fold_log (stamp_drafts (st_ordinal (cv_foldState c)) (ed_drafts d)) (cv_foldState c) = Inr nextState"
      "logAppend (cv_log c) \<lparr>ap_expectedOrdinal = st_ordinal (cv_foldState c),
         ap_commitId = commit_id createId (ed_calls d), ap_entries = ed_drafts d\<rparr> = (result, l)"
      "(r, c') = (let c3 = c\<lparr>cv_calls := ed_calls d + 1, cv_log := l\<rparr>;
           entries = stamp_drafts (st_ordinal (cv_foldState c)) (ed_drafts d) in
         case result of Inl reason \<Rightarrow> (Inl (Ended reason), handleLoss reason c3)
         | Inr (RolledBack why) \<Rightarrow> (Inl (CommitRolledBack why), c3)
         | Inr (Committed m n) \<Rightarrow> (Inr entries, c3\<lparr>cv_foldState := nextState,
             cv_events := cv_events c3 @ [CommittedEvent entries n]\<rparr>))"
proof -
  let ?build = "build (new_drafts (cv_foldState c) now (cv_calls c)) (cv_foldState c)"
  show ?thesis
  proof (cases "cv_endState c")
    case (Some reason)
    show ?thesis by (rule ended) (use Some assms in \<open>auto simp: commitInLane_def\<close>)
  next
    case ne: None
    show ?thesis
    proof (cases ?build)
      case (Inl err)
      show ?thesis
        by (rule build_fails) (use assms ne Inl in \<open>auto simp: commitInLane_def Let_def\<close>)
    next
      case build: (Inr d)
      let ?fold = "fold_log (stamp_drafts (st_ordinal (cv_foldState c)) (ed_drafts d)) (cv_foldState c)"
      show ?thesis
      proof (cases "ed_drafts d = []")
        case True
        show ?thesis
          by (rule empty [OF ne build True]) (use assms ne build True in \<open>auto simp: commitInLane_def Let_def\<close>)
      next
        case False
        show ?thesis
        proof (cases ?fold)
          case (Inl err)
          show ?thesis
            by (rule fold_fails [OF ne build])
              (use assms ne build False Inl in \<open>auto simp: commitInLane_def Let_def\<close>)
        next
          case (Inr nextState)
          obtain result l where "logAppend (cv_log c) \<lparr>ap_expectedOrdinal = st_ordinal (cv_foldState c),
             ap_commitId = commit_id createId (ed_calls d), ap_entries = ed_drafts d\<rparr> = (result, l)"
            by (cases "logAppend (cv_log c) \<lparr>ap_expectedOrdinal = st_ordinal (cv_foldState c),
             ap_commitId = commit_id createId (ed_calls d), ap_entries = ed_drafts d\<rparr>")
          with assms ne build False Inr show ?thesis
            by (intro appended [OF ne False build Inr])
              (auto simp: commitInLane_def Let_def split: sum.splits append_result.splits)
        qed
      qed
    qed
  qed
qed

lemma handleLoss_sel [simp]:
  "cv_log (handleLoss x c) = cv_log c" "cv_foldState (handleLoss x c) = cv_foldState c"
  "cv_calls (handleLoss x c) = cv_calls c"
  by (simp_all add: handleLoss_def split: option.split)

context conversation_log
begin

text \<open>
  A commit that fails leaves the fold state alone, and the log's entries too unless the conversation ended
  without knowing whether its batch was appended; the batch then folds onto the state.
\<close>

lemma commit_fails:
  assumes inv: "inv (cv_log c)" and com: "commitInLane append createId now build c = (Inl err, c')"
    and ord: "st_ordinal (cv_foldState c) = length (entries (cv_log c))"
  shows "cv_foldState c' = cv_foldState c \<and>
    (entries (cv_log c') = entries (cv_log c) \<or> err = Ended UncertainCommit \<and> in_doubt entries now build c c')"
  using com
proof (cases rule: commitInLane_cases)
  case (appended d s result l)
  show ?thesis
  proof (cases result)
    case (Inl x)
    then have c': "err = Ended x" "c' = handleLoss x (c\<lparr>cv_calls := ed_calls d + 1, cv_log := l\<rparr>)"
      using appended(6) by (auto simp: Let_def)
    then have f: "cv_foldState c' = cv_foldState c" "cv_log c' = l" by simp_all
    have e: "cv_endState c' = Some x" using c'(2) appended(1) by (simp add: handleLoss_def)
    note app = appended(5) [unfolded Inl]
    show ?thesis
    proof (cases "x = UncertainCommit")
      case True
      from append_uncertain [OF inv app] f e c'(1) True appended(3,4) ord show ?thesis
        by (auto simp: in_doubt_def)
    next
      case False
      from append_keeps [OF inv app False] f show ?thesis by simp
    qed
  next
    case (Inr a)
    then show ?thesis using appended(5,6) append_rolled_back [OF inv]
      by (cases a) (auto simp: Let_def)
  qed
qed auto

text \<open>A commit that succeeds appends its entries, and the new state is their fold.\<close>

lemma commit_effect:
  assumes ok: "kernel_ok entries used inv createId c" and cnt: "counting build"
    and com: "commitInLane append createId now build c = (Inr es, c')"
  shows "entries (cv_log c') = entries (cv_log c) @ es \<and>
     fold_log es (cv_foldState c) = Inr (cv_foldState c') \<and>
     (es \<noteq> [] \<longrightarrow> used (cv_log c') = insert (commit_id createId (cv_calls c' - 1)) (used (cv_log c)) \<and>
        0 < cv_calls c' \<and> cv_calls c < cv_calls c') \<and> (es = [] \<longrightarrow> cv_log c' = cv_log c) \<and> cv_calls c \<le> cv_calls c'"
  using com
proof (cases rule: commitInLane_cases)
  case (empty d)
  then have "cv_calls c \<le> ed_calls d" using counting_calls [OF cnt] by simp
  with empty show ?thesis by (auto simp: fold_log_def)
next
  case (appended d s result l)
  have calls: "cv_calls c \<le> ed_calls d" using counting_calls [OF cnt appended(3)] .
  then have fresh: "commit_id createId (ed_calls d) \<notin> used (cv_log c)" and inv: "inv (cv_log c)"
    using ok by (auto simp: kernel_ok_def)
  have ord: "st_ordinal (cv_foldState c) = length (entries (cv_log c))"
    using ok fold_log_entries by (auto simp: kernel_ok_def)
  obtain m n where res: "result = Inr (Committed m n)"
    using appended(6) by (cases result) (auto simp: Let_def split: append_result.splits)
  let ?b = "\<lparr>ap_expectedOrdinal = st_ordinal (cv_foldState c),
         ap_commitId = commit_id createId (ed_calls d), ap_entries = ed_drafts d\<rparr>"
  have "entries l = entries (cv_log c) @ stamp_drafts (length (entries (cv_log c))) (ed_drafts d) \<and>
      used l = insert (commit_id createId (ed_calls d)) (used (cv_log c))"
    using append_commits [OF inv appended(5) [unfolded res]] fresh by simp
  moreover have "stamp_drafts k (ed_drafts d) \<noteq> []" for k
    using appended(2) length_stamp_drafts [of k "ed_drafts d"] by (metis length_0_conv)
  ultimately show ?thesis using appended(4,6) res ord calls by (auto simp: Let_def)
qed auto

text \<open>Only a successful commit uses a commit id, and the next ones are fresh again.\<close>

lemma commit_used:
  assumes ok: "kernel_ok entries used inv createId c" and cnt: "counting build" and inj: "inj createId"
    and com: "commitInLane append createId now build c = (r, c')"
  shows "inv (cv_log c') \<and> (\<forall>n \<ge> cv_calls c'. commit_id createId n \<notin> used (cv_log c'))"
  using com
proof (cases rule: commitInLane_cases)
  case (empty d)
  with ok counting_calls [OF cnt empty(2)] show ?thesis by (simp add: kernel_ok_def)
next
  case (fold_fails d err)
  with ok counting_calls [OF cnt fold_fails(2)] show ?thesis by (simp add: kernel_ok_def)
next
  case (appended d s result l)
  have calls: "cv_calls c \<le> ed_calls d" using counting_calls [OF cnt appended(3)] .
  have inv: "inv (cv_log c)" using ok by (simp add: kernel_ok_def)
  have inv': "inv l" using inv_append [OF inv appended(5)] .
  have c': "cv_log c' = l" "cv_calls c' = ed_calls d + 1"
    using appended(6) by (auto simp: Let_def split: sum.splits append_result.splits)
  have fresh: "commit_id createId (ed_calls d) \<notin> used (cv_log c)" using ok calls by (auto simp: kernel_ok_def)
  have "used l \<subseteq> insert (commit_id createId (ed_calls d)) (used (cv_log c))"
  proof (cases result)
    case (Inl x)
    then show ?thesis using append_loses [OF appended(5) [unfolded Inl]] by blast
  next
    case (Inr a)
    then show ?thesis
      using append_rolled_back [OF inv] append_commits [OF inv] appended(5) fresh by (cases a) fastforce+
  qed
  moreover have "commit_id createId n \<noteq> commit_id createId (ed_calls d)" if "ed_calls d < n" for n
    using inj that by (auto simp: commit_id_def dest: injD)
  ultimately show ?thesis using inv' c' ok calls by (fastforce simp: kernel_ok_def)
qed (use ok in \<open>auto simp: kernel_ok_def\<close>)

text \<open>
  What one commit keeps: the fold state stays the fold of the log, unless this commit leaves the conversation in
  doubt.
\<close>

lemma commit_keeps:
  assumes ok: "kernel_ok entries used inv createId c" and cnt: "counting build" and inj: "inj createId"
    and com: "commitInLane append createId now build c = (r, c')"
  shows "kernel_ok entries used inv createId c' \<or>
    r = Inl (Ended UncertainCommit) \<and> inv (cv_log c') \<and> in_doubt entries now build c c'"
proof (cases r)
  case (Inl err)
  have inv: "inv (cv_log c)" and fold: "fold_log (entries (cv_log c)) emptyState = Inr (cv_foldState c)"
    using ok by (simp_all add: kernel_ok_def)
  from commit_fails [OF inv com [unfolded Inl]] fold_log_entries [OF fold] commit_used [OF ok cnt inj com] fold Inl
  show ?thesis by (auto simp: kernel_ok_def)
next
  case (Inr es)
  from commit_effect [OF ok cnt com [unfolded Inr]] commit_used [OF ok cnt inj com] ok
  show ?thesis by (simp add: kernel_ok_def fold_log_append)
qed

text \<open>The read loop returns every entry of an open log within one step per entry and one more.\<close>

lemma read_log_all:
  assumes inv: "inv l" and opn: "lost l = None" and bound: "length (entries l) \<le> max_safe_integer"
  shows "k \<le> length (entries l) \<Longrightarrow> length (entries l) - k < fuel \<Longrightarrow>
    read_log (\<lambda>n. read l (int n) CONVERSATION_LOG_READ_LIMIT_MAX) fuel (take k (entries l)) =
    Some (Inr (entries l))"
proof (induction fuel arbitrary: k)
  case (Suc fuel)
  define w where "w = nat CONVERSATION_LOG_READ_LIMIT_MAX"
  have w: "0 < w" by (simp add: w_def CONVERSATION_LOG_READ_LIMIT_MAX_def)
  have page: "read l (int k) CONVERSATION_LOG_READ_LIMIT_MAX =
      Inr \<lparr>pg_entries = take w (drop k (entries l)), pg_lastOrdinal = length (entries l)\<rparr>"
    using read_page [OF inv opn _ _ bound, of "int k" CONVERSATION_LOG_READ_LIMIT_MAX] Suc.prems(1)
    by (simp add: w_def CONVERSATION_LOG_READ_LIMIT_MAX_def)
  have more: "take k (entries l) @ take w (drop k (entries l)) = take (k + w) (entries l)"
    by (simp add: take_add)
  show ?case
  proof (cases "length (entries l) \<le> k + w")
    case True
    with page more Suc.prems(1) show ?thesis by (simp add: Let_def min_absorb2)
  next
    case False
    then have "read_log (\<lambda>n. read l (int n) CONVERSATION_LOG_READ_LIMIT_MAX) fuel (take (k + w) (entries l)) =
        Some (Inr (entries l))"
      using w Suc.prems by (intro Suc.IH) auto
    with page more Suc.prems(1) False w show ?thesis by (simp add: Let_def min_absorb2)
  qed
qed simp

lemma open_folds:
  assumes "inv l" and "lost l = None" and "length (entries l) \<le> max_safe_integer" and "length (entries l) < fuel"
    and "fold_log (entries l) emptyState = Inr s"
  shows "open_conversation read fuel calls l =
    Some (Inr \<lparr>cv_log = l, cv_foldState = s, cv_endState = None, cv_calls = calls, cv_events = []\<rparr>)"
  using read_log_all [OF assms(1-3), of 0 fuel] assms(4,5) by (simp add: open_conversation_def)

end

context certain_log
begin

lemma commit_atomic:
  assumes inv: "inv (cv_log c)" and com: "commitInLane append createId now build c = (Inl err, c')"
  shows "entries (cv_log c') = entries (cv_log c) \<and> cv_foldState c' = cv_foldState c"
  using com
proof (cases rule: commitInLane_cases)
  case (appended d s result l)
  show ?thesis
  proof (cases result)
    case (Inl x)
    then show ?thesis using appended(5,6) append_lost_keeps [OF inv] by (auto simp: Let_def)
  next
    case (Inr a)
    then show ?thesis using appended(5,6) append_rolled_back [OF inv] by (cases a) (auto simp: Let_def)
  qed
qed auto

lemma commit_keeps_ok:
  assumes ok: "kernel_ok entries used inv createId c" and cnt: "counting build" and inj: "inj createId"
    and com: "commitInLane append createId now build c = (r, c')"
  shows "kernel_ok entries used inv createId c'"
proof (cases r)
  case (Inl err)
  have "inv (cv_log c)" using ok by (simp add: kernel_ok_def)
  from commit_atomic [OF this com [unfolded Inl]] commit_used [OF ok cnt inj com] ok
  show ?thesis by (simp add: kernel_ok_def)
next
  case (Inr es)
  from commit_effect [OF ok cnt com [unfolded Inr]] commit_used [OF ok cnt inj com] ok
  show ?thesis by (simp add: kernel_ok_def fold_log_append)
qed

end

end
