(* ===== verification/Fold_Correctness.thy ===== *)
theory Fold_Correctness
  imports Sample_Log Kernel_Commit
begin

text \<open>
  What the fold guarantees of every log it accepts, from the invariants of the tree, the branch, the
  client inputs and the work.
\<close>

lemma fold_log_keeps:
  assumes "fold_log es s = Inr s'" and "conv_inv s"
    and "P s" and "\<And>u e u'. conv_inv u \<Longrightarrow> P u \<Longrightarrow> apply_entry u e = Inr u' \<Longrightarrow> P u'"
  shows "P s'"
proof -
  have "conv_inv s' \<and> P s'"
    using assms(1) unfolding fold_log_def
  proof (rule res_fold_invariant [where P = "\<lambda>u. conv_inv u \<and> P u"])
    fix u e u' assume "conv_inv u \<and> P u" "apply_entry u e = Inr u'"
    with assms(4) conv_inv_apply show "conv_inv u' \<and> P u'" by blast
  qed (use assms in simp)
  then show ?thesis by simp
qed

lemma fold_log_get:
  assumes "fold_log es emptyState = Inr s" and "e \<in> set es"
  shows "js_get (st_byId s) (e_id e) = Some e"
proof -
  have ok: "tree_ok (st_byId s)" using fold_log_inv [OF assms(1)] by (simp add: conv_inv_def tree_inv_def)
  have "e \<in> set (js_values (st_byId s))" using fold_log_entries [OF assms(1)] assms(2) by simp
  then obtain i where "(i, e) \<in> set (st_byId s)" by (auto simp: js_values_def)
  then have "js_get (st_byId s) i = Some e" using js_get_mem [OF tree_okD(2) [OF ok]] by blast
  with tree_ok_id [OF ok this] show ?thesis by simp
qed

text \<open>
  C1: A snapshot loses nothing. For every log the fold accepts, restoring the snapshot of its state
  gives that state back, and folding further entries from the restored state gives the same result,
  errors included, as folding the whole log.
\<close>

theorem fold_snapshot_resume:
  assumes "fold_log xs emptyState = Inr s"
  shows "restore (snapshot s) = Inr s \<and>
    (\<forall>s' ys. restore (snapshot s) = Inr s' \<longrightarrow> fold_log ys s' = fold_log (xs @ ys) emptyState)"
  using kernel.restore_fold [of xs s] kernel.resume [of xs s] assms by (auto simp: fold_log_def)

theorem fold_snapshot_resume_witness:
  "fold_log sample_log emptyState = Inr sample_state \<and> restore (snapshot sample_state) = Inr sample_state \<and>
   fold_log [sample_entry 15 ''e15'' (Some ''e14'') Public (FastModeChange True)] sample_state =
   fold_log (sample_log @ [sample_entry 15 ''e15'' (Some ''e14'') Public (FastModeChange True)]) emptyState"
  using fold_snapshot_resume [OF sample_fold] sample_fold by blast

text \<open>
  C2: The branch of a folded log is the path from the root to its leaf, the leaf is a public entry,
  and the context and planning state the fold maintains entry by entry are exactly what
  \<open>deriveBranch\<close> computes from scratch along that path.
\<close>

theorem fold_branch_derivation:
  assumes "fold_log es emptyState = Inr s"
  shows "pathTo (st_byId s) (st_leafId s) = Some (st_branch s) \<and>
    deriveBranch (st_byId s) (st_branch s) = (st_context s, st_planning s) \<and>
    (\<forall>i. st_leafId s = Some i \<longrightarrow> is_public (st_byId s) i)"
  using fold_log_inv [OF assms] by (simp add: conv_inv_def branch_inv_def)

theorem fold_branch_derivation_witness:
  "pathTo (st_byId sample_state) (st_leafId sample_state) = Some [''e3'', ''e13'', ''e14''] \<and>
   deriveBranch (st_byId sample_state) [''e3'', ''e13'', ''e14''] =
     (st_context sample_state, st_planning sample_state)"
  using fold_branch_derivation [OF sample_fold] by (simp add: sample_branch)

text \<open>
  C3: The fold always returns. Whatever the entries are, no walk along parent ids revisits an entry, so
  every log is either folded or rejected with one of the documented violations.
\<close>

theorem fold_always_returns:
  assumes "fold_log es emptyState = Inl err"
  shows "fe_kind err \<noteq> NoReturn"
proof -
  have "res_fold apply_entry u xs = Inl err \<Longrightarrow> conv_inv u \<Longrightarrow> fe_kind err \<noteq> NoReturn" for u xs
  proof (induction xs arbitrary: u)
    case (Cons e xs)
    have tree: "tree_inv u" using Cons.prems(2) by (simp add: conv_inv_def)
    show ?case
    proof (cases "apply_entry u e")
      case (Inl x)
      with Cons.prems(1) apply_entry_returns [OF tree Inl] show ?thesis by simp
    next
      case (Inr u')
      with Cons conv_inv_apply show ?thesis by auto
    qed
  qed simp
  with assms conv_inv_empty show ?thesis by (simp add: fold_log_def)
qed

theorem fold_always_returns_witness:
  "fold_log [sample_entry 2 ''e1'' None Public (FastModeChange True)] emptyState =
     Inl \<lparr>fe_entryId = ''e1'', fe_ordinal = 2, fe_kind = ExpectedOrdinal 1\<rparr> \<and> ExpectedOrdinal 1 \<noteq> NoReturn"
proof -
  have eq: "fold_log [sample_entry 2 ''e1'' None Public (FastModeChange True)] emptyState =
     Inl \<lparr>fe_entryId = ''e1'', fe_ordinal = 2, fe_kind = ExpectedOrdinal 1\<rparr>" by code_simp
  show ?thesis using fold_always_returns [OF eq] eq by simp
qed

text \<open>
  C4: The tree of a folded log is the log: its entries in order, their ordinals counting from 1, their
  ids distinct, every parent an earlier entry of the log and public whenever the child is; and the
  children the fold lists of a parent, or of the root, are exactly the public entries that name it, in
  the order of the log.
\<close>

theorem fold_tree:
  assumes "fold_log es emptyState = Inr s"
  shows "js_values (st_byId s) = es \<and> js_keys (st_byId s) = map e_id es \<and> distinct (map e_id es) \<and>
    map e_ordinal es = map Suc [0..<length es] \<and> st_ordinal s = length es \<and>
    (\<forall>e\<in>set es. \<forall>p. e_parentId e = Some p \<longrightarrow> (\<exists>q\<in>set es. e_id q = p \<and> e_ordinal q < e_ordinal e \<and>
       (e_visibility e = Public \<longrightarrow> e_visibility q = Public))) \<and>
    (\<forall>p. (case js_get (st_children s) p of None \<Rightarrow> [] | Some cs \<Rightarrow> cs) =
       map e_id (filter (\<lambda>e. e_visibility e = Public \<and> e_parentId e = p) es))"
proof -
  have ok: "tree_ok (st_byId s)" using fold_log_inv [OF assms] by (simp add: conv_inv_def tree_inv_def)
  note vals = fold_log_entries [OF assms]
  have parents: "\<exists>q\<in>set es. e_id q = p \<and> e_ordinal q < e_ordinal e \<and>
       (e_visibility e = Public \<longrightarrow> e_visibility q = Public)" if e: "e \<in> set es" "e_parentId e = Some p" for e p
  proof -
    have "js_get (st_byId s) (e_id e) = Some e" using fold_log_get [OF assms e(1)] .
    then have "entry_ok (st_byId s) e" using tree_okD(4) [OF ok] by blast
    with e(2) obtain q where q: "js_get (st_byId s) p = Some q" "e_ordinal q < e_ordinal e"
      "e_visibility e = Public \<longrightarrow> e_visibility q = Public" unfolding entry_ok_def by blast
    have "q \<in> set es" "e_id q = p" using vals js_get_value [OF q(1)] tree_ok_id [OF ok q(1)] by simp_all
    with q(2,3) show ?thesis by blast
  qed
  have keys: "js_keys (st_byId s) = map e_id es" "distinct (map e_id es)" "map e_ordinal es = map Suc [0..<length es]"
    using vals tree_okD(1,2,3) [OF ok] by (simp_all add: contiguous_def)
  have "\<forall>e\<in>set es. \<forall>p. e_parentId e = Some p \<longrightarrow> (\<exists>q\<in>set es. e_id q = p \<and> e_ordinal q < e_ordinal e \<and>
       (e_visibility e = Public \<longrightarrow> e_visibility q = Public))"
    using parents by blast
  moreover have "\<forall>p. (case js_get (st_children s) p of None \<Rightarrow> [] | Some cs \<Rightarrow> cs) =
       map e_id (filter (\<lambda>e. e_visibility e = Public \<and> e_parentId e = p) es)"
    using fold_log_inv [OF assms] vals by (simp add: conv_inv_def listing_inv_def restore_children_get)
  ultimately show ?thesis using vals keys by blast
qed

theorem fold_tree_witness:
  "js_keys (st_byId sample_state) = map e_id sample_log \<and> st_ordinal sample_state = 14 \<and> distinct (map e_id sample_log) \<and>
   (case js_get (st_children sample_state) (Some ''e3'') of None \<Rightarrow> [] | Some cs \<Rightarrow> cs) \<noteq> []"
proof -
  note tree = fold_tree [OF sample_fold]
  then have "(case js_get (st_children sample_state) (Some ''e3'') of None \<Rightarrow> [] | Some cs \<Rightarrow> cs) =
      map e_id (filter (\<lambda>e. e_visibility e = Public \<and> e_parentId e = Some ''e3'') sample_log)" by blast
  moreover have "filter (\<lambda>e. e_visibility e = Public \<and> e_parentId e = Some ''e3'') sample_log \<noteq> []" by code_simp
  moreover have "length sample_log = 14" by code_simp
  ultimately show ?thesis using tree by auto
qed

text \<open>
  C5: Exactly-once delivery. In a folded log a client input is answered by at most one message entry;
  that entry completes the input's record and is its canonical entry.
\<close>

theorem fold_delivers_once:
  assumes "fold_log es emptyState = Inr s"
    and "e \<in> set es" and "e_body e = Message m (Some c)"
    and "f \<in> set es" and "e_body f = Message m' (Some c)"
  shows "e = f \<and> (\<exists>r. js_get (st_inputs s) c = Some r \<and> ir_state r = Completed \<and>
    ir_canonicalEntryId r = Some (e_id e))"
proof -
  have inv: "delivered_ok (st_byId s) (st_inputs s)"
    using fold_log_inv [OF assms(1)] by (simp add: conv_inv_def inputs_inv_def)
  note e = fold_log_get [OF assms(1,2)] and f = fold_log_get [OF assms(1,4)]
  obtain r where r: "js_get (st_inputs s) c = Some r" "ir_state r = Completed"
    "ir_canonicalEntryId r = Some (e_id e)" using inv e assms(3) unfolding delivered_ok_def by blast
  moreover have "ir_canonicalEntryId r = Some (e_id f)"
    using inv f assms(5) r(1) unfolding delivered_ok_def by fastforce
  ultimately show ?thesis using e f by simp
qed

theorem fold_delivers_once_witness:
  "\<exists>r. js_get (st_inputs sample_state) ''c1'' = Some r \<and> ir_state r = Completed \<and>
     ir_canonicalEntryId r = Some ''e3''"
proof -
  let ?e = "sample_entry 3 ''e3'' None Public (Message (UserMessage sample_user) (Some ''c1''))"
  have mem: "?e \<in> set sample_log" by (simp add: sample_log_def)
  have body: "e_body ?e = Message (UserMessage sample_user) (Some ''c1'')" "e_id ?e = ''e3''"
    by (simp_all add: sample_entry_def)
  show ?thesis using fold_delivers_once [OF sample_fold mem body(1) mem body(1)] body(2) by simp
qed

text \<open>
  The queue and the started list of a folded log are exactly the accepted queued and the started
  inputs, each in the order of their admission, which is the order of their queued entry or, before
  that, of their receipt; and the recovery plan replays that queue unless a started input blocks it.
\<close>

theorem fold_lifecycle_lists:
  assumes "fold_log es emptyState = Inr s"
  shows "sorted_by (admissionOrdinal (st_byId s) (st_inputs s)) (st_queued s) \<and>
    set (st_queued s) = {c. \<exists>r. js_get (st_inputs s) c = Some r \<and> is_queued r} \<and>
    sorted_by (admissionOrdinal (st_byId s) (st_inputs s)) (st_started s) \<and>
    set (st_started s) = {c. \<exists>r. js_get (st_inputs s) c = Some r \<and> is_started r} \<and>
    clientInputRecovery s =
      (let records = map (\<lambda>c. the (js_get (st_inputs s) c)) (st_queued s) in
       if st_started s \<noteq> [] then Blocked records (the (js_get (st_inputs s) (hd (st_started s))))
       else if st_queued s \<noteq> [] then Replay records else Idle)"
proof -
  have inv: "inputs_inv s" using fold_log_inv [OF assms] by (simp add: conv_inv_def)
  then have q: "member_list (st_byId s) (st_inputs s) is_queued (st_queued s)"
    and st: "member_list (st_byId s) (st_inputs s) is_started (st_started s)"
    by (simp_all add: inputs_inv_def)
  have recs: "List.map_filter (js_get (st_inputs s)) (st_queued s) =
      map (\<lambda>c. the (js_get (st_inputs s) c)) (st_queued s)"
    by (rule map_filter_all_Some) (use q in \<open>auto simp: member_list_def\<close>)
  have "clientInputRecovery s =
      (let records = map (\<lambda>c. the (js_get (st_inputs s) c)) (st_queued s) in
       if st_started s \<noteq> [] then Blocked records (the (js_get (st_inputs s) (hd (st_started s))))
       else if st_queued s \<noteq> [] then Replay records else Idle)"
  proof (cases "st_started s")
    case (Cons c cs)
    then have "c \<in> set (st_started s)" by simp
    with st obtain b where "js_get (st_inputs s) c = Some b" by (auto simp: member_list_def)
    with Cons recs show ?thesis by (simp add: clientInputRecovery_def)
  qed (simp add: clientInputRecovery_def recs Let_def)
  with q st show ?thesis unfolding member_list_def by blast
qed

theorem fold_lifecycle_lists_witness:
  "st_queued sample_state = [''c2''] \<and>
   set (st_queued sample_state) = {c. \<exists>r. js_get (st_inputs sample_state) c = Some r \<and> is_queued r}"
  using fold_lifecycle_lists [OF sample_fold] by (simp add: sample_queue)

text \<open>
  A finished client input is final: no further entry changes its record, and whatever entries
  follow, the command, origin, digest and payload its receipt recorded stay.
\<close>

theorem fold_input_final:
  assumes "fold_log xs emptyState = Inr s" and "fold_log ys s = Inr s'"
    and "js_get (st_inputs s) c = Some r"
  shows "\<exists>r'. js_get (st_inputs s') c = Some r' \<and> same_receipt r' r \<and> (\<not> input_open r \<longrightarrow> r' = r)"
  using assms(2) fold_log_inv [OF assms(1)]
proof (rule fold_log_keeps)
  show "\<exists>r'. js_get (st_inputs s) c = Some r' \<and> same_receipt r' r \<and> (\<not> input_open r \<longrightarrow> r' = r)"
    using assms(3) by (auto simp: same_receipt_def)
next
  fix u e u' assume inv: "conv_inv u" and app: "apply_entry u e = Inr u'"
    and "\<exists>r'. js_get (st_inputs u) c = Some r' \<and> same_receipt r' r \<and> (\<not> input_open r \<longrightarrow> r' = r)"
  then obtain r1 where r1: "js_get (st_inputs u) c = Some r1" "same_receipt r1 r" "\<not> input_open r \<longrightarrow> r1 = r" by blast
  have "inputs_inv u" using inv by (simp add: conv_inv_def)
  from apply_entry_input_kept [OF this app r1(1)] obtain r2 where
    "js_get (st_inputs u') c = Some r2" "same_receipt r2 r1" "\<not> input_open r1 \<longrightarrow> r2 = r1" by metis
  with r1 show "\<exists>r'. js_get (st_inputs u') c = Some r' \<and> same_receipt r' r \<and> (\<not> input_open r \<longrightarrow> r' = r)"
    by (auto simp: same_receipt_def)
qed

theorem fold_input_final_witness:
  "\<exists>r r' s'. js_get (st_inputs sample_state) ''c1'' = Some r \<and> \<not> input_open r \<and>
     fold_log [sample_entry 15 ''e15'' (Some ''e14'') Host (sample_move ''e5'' ''c2'' Withdrawn)] sample_state = Inr s' \<and>
     js_get (st_inputs s') ''c1'' = Some r' \<and> r' = r"
proof -
  let ?f = "fold_log [sample_entry 15 ''e15'' (Some ''e14'') Host (sample_move ''e5'' ''c2'' Withdrawn)] sample_state"
  have "\<not> isl ?f" by code_simp
  then obtain s' where s': "?f = Inr s'" by (cases ?f) auto
  have "(case js_get (st_inputs sample_state) ''c1'' of Some r \<Rightarrow> \<not> input_open r | None \<Rightarrow> False)" by code_simp
  then obtain r where "js_get (st_inputs sample_state) ''c1'' = Some r" "\<not> input_open r"
    by (auto split: option.splits)
  with fold_input_final [OF sample_fold s'] s' show ?thesis by blast
qed

text \<open>
  Finished work is final: once a work item has an outcome, no accepted entry changes its record.
\<close>

theorem fold_work_final:
  assumes "fold_log xs emptyState = Inr s" and "fold_log ys s = Inr s'"
    and "js_get (st_work s) w = Some r" and "w_outcome r \<noteq> None"
  shows "js_get (st_work s') w = Some r"
  using assms(2) fold_log_inv [OF assms(1)] assms(3)
proof (rule fold_log_keeps)
  fix u e u' assume "conv_inv u" "js_get (st_work u) w = Some r" "apply_entry u e = Inr u'"
  then show "js_get (st_work u') w = Some r"
    using apply_entry_work_kept assms(4) by (auto simp: conv_inv_def)
qed

theorem fold_work_final_witness:
  "\<exists>r s'. js_get (st_work sample_state) ''w3'' = Some r \<and> w_outcome r = Some WCompleted \<and>
     fold_log [sample_entry 15 ''e15'' (Some ''e14'') Host (sample_work ''w4'' (Some ''w3'') True)] sample_state = Inr s' \<and>
     js_get (st_work s') ''w3'' = Some r"
proof -
  let ?f = "fold_log [sample_entry 15 ''e15'' (Some ''e14'') Host (sample_work ''w4'' (Some ''w3'') True)] sample_state"
  have "\<not> isl ?f" by code_simp
  then obtain s' where s': "?f = Inr s'" by (cases ?f) auto
  have "map_option w_outcome (js_get (st_work sample_state) ''w3'') = Some (Some WCompleted)" by code_simp
  then obtain r where r: "js_get (st_work sample_state) ''w3'' = Some r" "w_outcome r = Some WCompleted" by auto
  with fold_work_final [OF sample_fold s' r(1)] s' show ?thesis by auto
qed

text \<open>
  C6: The open work of a folded log is exactly its unfinished work, in start order, and the
  reconciliation of a new runtime interrupts exactly the open items that cannot continue: those
  without the resume capability and every descendant of an ended or interrupted item. The others are
  suspended, in the same order.
\<close>

theorem fold_reconciliation:
  assumes "fold_log es emptyState = Inr s"
  shows "set (st_openWork s) = {w. \<exists>r. js_get (st_work s) w = Some r \<and> w_outcome r = None} \<and>
    sorted_by (\<lambda>w. w_startedOrdinal (the (js_get (st_work s) w))) (st_openWork s) \<and>
    workReconciliation (st_work s) (st_openWork s) =
      \<lparr>rec_interrupt = filter (cannot_continue (st_work s)) (st_openWork s),
       rec_suspended = filter (\<lambda>w. \<not> cannot_continue (st_work s) w) (st_openWork s)\<rparr>"
proof -
  have inv: "work_inv s" using fold_log_inv [OF assms] by (simp add: conv_inv_def)
  then have ok: "work_ok (st_ordinal s) (st_work s)" and opn: "st_openWork s = open_ids (st_work s)"
    by (simp_all add: work_inv_def)
  show ?thesis
    using open_ids_mem [OF work_okD(1) [OF ok]] open_ids_sorted [OF ok] reconcile_prefix [OF ok, of "open_ids (st_work s)" "[]"]
    by (auto simp: opn workReconciliation_def)
qed

theorem fold_reconciliation_witness:
  "st_openWork sample_state = [''w1'', ''w2''] \<and>
   rec_interrupt (workReconciliation (st_work sample_state) (st_openWork sample_state)) =
     filter (cannot_continue (st_work sample_state)) [''w1'', ''w2''] \<and>
   rec_interrupt (workReconciliation (st_work sample_state) [''w1'', ''w2'']) = [''w1'', ''w2'']"
proof -
  have "rec_interrupt (workReconciliation (st_work sample_state) [''w1'', ''w2'']) = [''w1'', ''w2'']" by code_simp
  with fold_reconciliation [OF sample_fold] show ?thesis by (simp add: sample_open)
qed

end
