(* ===== verification/Kernel_Operations.thy ===== *)
theory Kernel_Operations
  imports Kernel_Commit
begin

text \<open>
  The batches the conversation kernel commits (\<^verbatim>\<open>packages/agent/src/conversation/conversation.ts\<close>):
  delivered inputs, host inputs, input transitions, settings, navigation, compaction and work. Each
  builder is the \<open>build\<close> callback of one \<open>commit\<close>; the lemmas show which batches the fold accepts and
  what the state says afterwards.
\<close>

section \<open>Messages as entries\<close>

fun clientMessageIdOf :: "agent_message \<Rightarrow> client_message_id option" where
  "clientMessageIdOf (ClientUser _ c) = Some c"
| "clientMessageIdOf _ = None"

fun messageEntryBody :: "agent_message \<Rightarrow> conversation_error + entry_body" where
  "messageEntryBody (Stored (CustomMessage m)) =
     Inr (CustomMessageEntry \<lparr>cm_customType = c_customType m, cm_content = c_content m,
       cm_details = c_details m, cm_display = c_display m\<rparr>)"
| "messageEntryBody (EntryCustom t content display details _) =
     Inr (CustomMessageEntry \<lparr>cm_customType = t, cm_content = content, cm_details = details,
       cm_display = display\<rparr>)"
| "messageEntryBody (BranchSummaryMessage _ _ _) =
     Inl (NotALogMessage ''branchSummary'')"
| "messageEntryBody (CompactionSummaryMessage _ _ _) =
     Inl (NotALogMessage ''compactionSummary'')"
| "messageEntryBody (ClientUser m _) = Inr (Message (UserMessage m) None)"
| "messageEntryBody (Stored m) = Inr (Message m None)"

section \<open>Input batches\<close>

definition HOST_INPUT :: client_input_payload where
  "HOST_INPUT = \<lparr>ci_message = '''', ci_images = [], ci_streamingBehavior = None\<rparr>"

definition state_body ::
    "client_input_record \<Rightarrow> client_message_id \<Rightarrow> client_input_state \<Rightarrow> string option \<Rightarrow> entry_body" where
  "state_body r c state err =
     ClientInputStateEntry \<lparr>sp_receiptId = ir_receiptId r, sp_clientMessageId = c,
       sp_state = state, sp_error = err\<rparr>"

definition addHostInput ::
    "(nat \<Rightarrow> string) \<Rightarrow> client_message_id \<Rightarrow> string \<Rightarrow> client_input_queued_payload \<Rightarrow> entry_drafts \<Rightarrow> entry_drafts" where
  "addHostInput createId c digest queuedInput d =
     (let receipt = createId (ed_calls d);
          d1 = drafts_add createId Host (ClientInputReceipt
            \<lparr>rp_clientMessageId = c,
             rp_command = (case ciq_delivery queuedInput of DeliverSteer \<Rightarrow> Steer | DeliverFollowUp \<Rightarrow> FollowUp),
             rp_semanticDigest = digest, rp_input = HOST_INPUT, rp_origin = True\<rparr>) d
      in drafts_add createId Host (ClientInputQueued
           \<lparr>qp_receiptId = receipt, qp_clientMessageId = c, qp_queuedInput = queuedInput\<rparr>) d1)"

definition add_message ::
    "(nat \<Rightarrow> string) \<Rightarrow> client_message_id option \<Rightarrow> entry_drafts \<Rightarrow> agent_message \<Rightarrow>
     conversation_error + entry_drafts" where
  "add_message createId c d m =
     (if c = None \<or> clientMessageIdOf m \<noteq> c
      then res_bind (messageEntryBody m) (\<lambda>body. Inr (drafts_add createId Public body d))
      else case withoutClientMessageId m of
        Stored u \<Rightarrow> Inr (drafts_add createId Public (Message u c) d)
      | _ \<Rightarrow> Inr d)"

definition addDeliveryDrafts ::
    "(nat \<Rightarrow> string) \<Rightarrow> agent_message list \<Rightarrow> client_message_id option \<Rightarrow> (visibility \<times> entry_body) list \<Rightarrow>
     entry_drafts \<Rightarrow> conversation_state \<Rightarrow> conversation_error + entry_drafts" where
  "addDeliveryDrafts createId messages c prepared d s =
     (let record = (case c of None \<Rightarrow> None | Some i \<Rightarrow> js_get (st_inputs s) i);
          identified = list_ex (\<lambda>m. clientMessageIdOf m = c) messages;
          d1 = (case record of
              Some r \<Rightarrow> if identified \<and> ir_state r = Accepted
                then drafts_add createId Host (state_body r (ir_clientMessageId r) Started None) d else d
            | None \<Rightarrow> d);
          d2 = foldl (\<lambda>d (vis, body). drafts_add createId vis body d) d1 prepared
      in res_bind (res_fold (add_message createId c) d2 messages) (\<lambda>d3.
           Inr (case record of
              Some r \<Rightarrow> if \<not> identified \<and> ir_state r = Accepted
                then drafts_add createId Host (state_body r (ir_clientMessageId r) Completed None) d3 else d3
            | None \<Rightarrow> d3)))"

text \<open>\<open>markInputStarted\<close>, \<open>clearQueue\<close>, \<open>settleClientInput\<close>, \<open>withdrawHostInput\<close>.\<close>

definition markInputStarted_build ::
    "(nat \<Rightarrow> string) \<Rightarrow> client_message_id \<Rightarrow> bool \<Rightarrow> entry_drafts \<Rightarrow> conversation_state \<Rightarrow>
     conversation_error + entry_drafts" where
  "markInputStarted_build createId c pending d s =
     (case js_get (st_inputs s) c of
        Some r \<Rightarrow> if ir_state r = Accepted \<and> \<not> pending
          then Inr (drafts_add createId Host (state_body r c Started None) d)
          else Inl (InputCannotStart c)
      | None \<Rightarrow> Inl (InputCannotStart c))"

definition withdraw_one :: "(nat \<Rightarrow> string) \<Rightarrow> conversation_state \<Rightarrow> entry_drafts \<Rightarrow> client_message_id \<Rightarrow> entry_drafts" where
  "withdraw_one createId s d c =
     (case js_get (st_inputs s) c of
        Some r \<Rightarrow> if ir_state r = Accepted
          then drafts_add createId Host (state_body r c Withdrawn None) d else d
      | None \<Rightarrow> d)"

definition clearQueue_build ::
    "(nat \<Rightarrow> string) \<Rightarrow> client_message_id list \<Rightarrow> entry_drafts \<Rightarrow> conversation_state \<Rightarrow>
     conversation_error + entry_drafts" where
  "clearQueue_build createId withdrawn d s = Inr (foldl (withdraw_one createId s) d withdrawn)"

definition settleClientInput_build ::
    "(nat \<Rightarrow> string) \<Rightarrow> client_message_id \<Rightarrow> client_input_state \<Rightarrow> string option \<Rightarrow> entry_drafts \<Rightarrow>
     conversation_state \<Rightarrow> conversation_error + entry_drafts" where
  "settleClientInput_build createId c state err d s =
     (case js_get (st_inputs s) c of
        None \<Rightarrow> Inl (UnknownClientInput c)
      | Some r \<Rightarrow> Inr (drafts_add createId Host
          (state_body r c state (if state = Failed then err else None)) d))"

section \<open>Work batches\<close>

definition interrupted_body :: "work_id \<Rightarrow> entry_body" where
  "interrupted_body w =
     WorkFinished \<lparr>wf_workId = w, wf_outcome = WInterrupted, wf_result = None, wf_error = None\<rparr>"

definition reconcileWork_build ::
    "(nat \<Rightarrow> string) \<Rightarrow> work_reconciliation \<Rightarrow> entry_drafts \<Rightarrow> conversation_state \<Rightarrow>
     conversation_error + entry_drafts" where
  "reconcileWork_build createId rec d s =
     Inr (foldl (\<lambda>d w. drafts_add createId Host (interrupted_body w) d) d (rec_interrupt rec))"

section \<open>Batches the fold accepts\<close>

text \<open>
  A batch under construction: its drafts so far fold from \<open>s\<close> to \<open>u\<close>, the provisional leaf is \<open>u\<close>'s
  leaf, and the ids still to come are new.
\<close>

definition building :: "(nat \<Rightarrow> string) \<Rightarrow> conversation_state \<Rightarrow> entry_drafts \<Rightarrow> conversation_state \<Rightarrow> bool" where
  "building createId s d u \<longleftrightarrow>
     fold_log (stamp_drafts (st_ordinal s) (ed_drafts d)) s = Inr u \<and> conv_inv u \<and>
     st_ordinal u = st_ordinal s + length (ed_drafts d) \<and> st_leafId u = ed_leafId d \<and>
     (\<forall>i \<ge> ed_calls d. createId i \<notin> set (js_keys (st_byId u)))"

definition draft_entry ::
    "(nat \<Rightarrow> string) \<Rightarrow> conversation_state \<Rightarrow> entry_drafts \<Rightarrow> visibility \<Rightarrow> entry_body \<Rightarrow> log_entry" where
  "draft_entry createId u d vis body = commit_entry (st_ordinal u + 1) (next_draft createId vis body d)"

lemma building_start:
  assumes "conv_inv s" and "\<forall>i \<ge> n. createId i \<notin> set (js_keys (st_byId s))"
  shows "building createId s (new_drafts s now n) s"
  using assms by (simp add: building_def new_drafts_def fold_log_def)

lemma draft_entry_sel [simp]:
  "e_body (draft_entry createId u d vis body) = body" "e_visibility (draft_entry createId u d vis body) = vis"
  "e_id (draft_entry createId u d vis body) = createId (ed_calls d)"
  "e_parentId (draft_entry createId u d vis body) = ed_leafId d"
  "e_ordinal (draft_entry createId u d vis body) = st_ordinal u + 1"
  by (simp_all add: draft_entry_def next_draft_def)

text \<open>The envelope of a draft is always accepted.\<close>

lemma building_envelope:
  assumes "building createId s d u"
  shows "validateEnvelope u (draft_entry createId u d vis body) = Inr ()"
proof -
  have br: "branch_inv u" using assms by (simp add: building_def conv_inv_def)
  have "\<exists>pe. js_get (st_byId u) p = Some pe \<and> e_visibility pe = Public" if "ed_leafId d = Some p" for p
    using that assms br by (auto simp: building_def branch_inv_def is_public_def split: option.splits)
  then show ?thesis
    using assms by (auto simp: validateEnvelope_Inr building_def js_has_iff_keys)
qed

lemma apply_entry_accepts:
  assumes inv: "conv_inv s" and env: "validateEnvelope s e = Inr ()" and ref: "validateReferences s e = Inr ()"
    and input: "nextClientInput (st_inputs s) e = Inr input" and work: "next_work s e = Inr work"
  obtains s' where "apply_entry s e = Inr s'"
    "st_inputs s' = next_inputs (st_inputs s) input"
    "st_work s' = (case work of None \<Rightarrow> st_work s | Some r \<Rightarrow> js_set (st_work s) (w_workId r) r)"
proof -
  have tree: "tree_inv s" using inv by (simp add: conv_inv_def)
  obtain s1 where "move_branch e (set_records e input work s) = Some s1"
    using move_branch_returns [OF tree env ref] by fastforce
  then have app: "apply_entry s e = Inr (s1\<lparr>st_ordinal := e_ordinal e\<rparr>)"
    using env ref input work by (simp add: apply_entry_def apply_kind_def)
  moreover have "st_inputs (s1\<lparr>st_ordinal := e_ordinal e\<rparr>) = next_inputs (st_inputs s) input"
    using apply_entry_inputs [OF app] input by (metis sum.inject(2))
  moreover have "st_work (s1\<lparr>st_ordinal := e_ordinal e\<rparr>) =
      (case work of None \<Rightarrow> st_work s | Some r \<Rightarrow> js_set (st_work s) (w_workId r) r)"
    using apply_entry_work [OF app] work by (metis sum.inject(2))
  ultimately show ?thesis using that by blast
qed

lemma building_step:
  assumes b: "building createId s d u" and inj: "inj createId" and nl: "\<forall>t. body \<noteq> Leaf t"
    and app: "apply_entry u (draft_entry createId u d vis body) = Inr u'"
  shows "building createId s (drafts_add createId vis body d) u'"
proof -
  note byId = apply_entry_byId [OF app]
  have "fold_log (stamp_drafts (st_ordinal s) (ed_drafts (drafts_add createId vis body d))) s = Inr u'"
    using b app
    by (simp add: building_def drafts_add_def Let_def stamp_drafts_snoc fold_log_append draft_entry_def)
      (simp add: fold_log_def)
  moreover have "st_leafId u' = ed_leafId (drafts_add createId vis body d)"
    using apply_entry_leaf [OF app] nl b
    by (cases body) (auto simp: building_def drafts_add_def Let_def next_draft_def)
  moreover have "createId i \<notin> set (js_keys (st_byId u'))" if "ed_calls d < i" for i
    using b that byId(1) inj by (auto simp: building_def dest: injD)
  moreover have "conv_inv u'" using conv_inv_apply [OF _ app] b by (simp add: building_def)
  ultimately show ?thesis
    using b byId(2) by (simp add: building_def drafts_add_def Let_def)
qed

lemma building_add:
  assumes b: "building createId s d u" and inj: "inj createId" and nl: "\<forall>t. body \<noteq> Leaf t"
    and ref: "validateReferences u (draft_entry createId u d vis body) = Inr ()"
    and input: "nextClientInput (st_inputs u) (draft_entry createId u d vis body) = Inr input"
    and work: "next_work u (draft_entry createId u d vis body) = Inr work"
  obtains u' where "building createId s (drafts_add createId vis body d) u'"
    "st_inputs u' = next_inputs (st_inputs u) input"
    "st_work u' = (case work of None \<Rightarrow> st_work u | Some r \<Rightarrow> js_set (st_work u) (w_workId r) r)"
    "st_byId u' = st_byId u @ [(createId (ed_calls d), draft_entry createId u d vis body)]"
proof -
  let ?e = "draft_entry createId u d vis body"
  have "conv_inv u" using b by (simp add: building_def)
  from apply_entry_accepts [OF this building_envelope [OF b] ref input work]
  obtain u' where app: "apply_entry u ?e = Inr u'" and eff: "st_inputs u' = next_inputs (st_inputs u) input"
    "st_work u' = (case work of None \<Rightarrow> st_work u | Some r \<Rightarrow> js_set (st_work u) (w_workId r) r)" by blast
  show ?thesis
    by (rule that [OF building_step [OF b inj nl app] eff]) (simp add: apply_entry_byId(1) [OF app])
qed

lemma building_add_input:
  assumes b: "building createId s d u" and inj: "inj createId"
    and nw: "\<not> isWorkBody body" "\<forall>t. body \<noteq> Leaf t"
    and ref: "validateReferences u (draft_entry createId u d vis body) = Inr ()"
    and input: "nextClientInput (st_inputs u) (draft_entry createId u d vis body) = Inr input"
  obtains u' where "building createId s (drafts_add createId vis body d) u'"
    "st_inputs u' = next_inputs (st_inputs u) input" "st_work u' = st_work u"
    "st_byId u' = st_byId u @ [(createId (ed_calls d), draft_entry createId u d vis body)]"
proof -
  have work: "next_work u (draft_entry createId u d vis body) = Inr None"
    using nw(1) by (simp add: next_work_None isWorkBody_reduceWork)
  show ?thesis
  proof (rule building_add [OF b inj nw(2) ref input work])
    fix u' assume "building createId s (drafts_add createId vis body d) u'"
      "st_inputs u' = next_inputs (st_inputs u) input"
      "st_work u' = (case None of None \<Rightarrow> st_work u | Some r \<Rightarrow> js_set (st_work u) (w_workId r) r)"
      "st_byId u' = st_byId u @ [(createId (ed_calls d), draft_entry createId u d vis body)]"
    then show thesis using that [of u'] by simp
  qed
qed

text \<open>Bodies the fold accepts wherever the envelope is.\<close>

fun plain_body :: "entry_body \<Rightarrow> bool" where
  "plain_body (Message _ None) = True"
| "plain_body (ThinkingLevelChange _) = True"
| "plain_body (FastModeChange _) = True"
| "plain_body (ModelChange _ _) = True"
| "plain_body (PlanningStateChange _) = True"
| "plain_body (CustomEntry _ _) = True"
| "plain_body (CustomMessageEntry _) = True"
| "plain_body (SessionInfo _) = True"
| "plain_body (Product _ _) = True"
| "plain_body _ = False"

lemma building_plain:
  assumes "building createId s d u" and "inj createId" and "plain_body body"
  obtains u' where "building createId s (drafts_add createId vis body d) u'"
    "st_inputs u' = st_inputs u" "st_work u' = st_work u"
    "st_byId u' = st_byId u @ [(createId (ed_calls d), draft_entry createId u d vis body)]"
proof -
  have nw: "\<not> isWorkBody body" "\<forall>t. body \<noteq> Leaf t" using assms(3) by (cases body; simp)+
  have "validateReferences u (draft_entry createId u d vis body) = Inr ()"
    "nextClientInput (st_inputs u) (draft_entry createId u d vis body) = Inr None"
    using assms(3) by (cases body rule: plain_body.cases;
      simp add: validateReferences_def nextClientInput_def)+
  then obtain u' where "building createId s (drafts_add createId vis body d) u'"
    "st_inputs u' = next_inputs (st_inputs u) None" "st_work u' = st_work u"
    "st_byId u' = st_byId u @ [(createId (ed_calls d), draft_entry createId u d vis body)]"
    by (rule building_add_input [OF assms(1,2) nw])
  with that show ?thesis by (simp add: next_inputs_def)
qed

section \<open>Delivering an input\<close>

lemma building_get:
  assumes "building createId s d u" and "js_get (st_inputs u) c = Some r"
  shows "ir_clientMessageId r = c"
proof -
  have "inputs_ok (st_byId u) (st_inputs u)"
    using assms(1) by (simp add: building_def conv_inv_def inputs_inv_def)
  with assms(2) show ?thesis by (simp add: inputs_ok_def input_ok_def)
qed

text \<open>A permitted move of an open input is always accepted.\<close>

lemma building_move:
  assumes b: "building createId s d u" and inj: "inj createId"
    and r: "js_get (st_inputs u) c = Some r" and move: "input_move_allowed (ir_state r) state"
    and err: "err \<noteq> None \<Longrightarrow> state = Failed"
  obtains u' where "building createId s (drafts_add createId vis (state_body r c state err) d) u'"
    "st_inputs u' = js_set (st_inputs u) c (with_lifecycle r state err None)" "st_work u' = st_work u"
    "st_byId u' = st_byId u @ [(createId (ed_calls d), draft_entry createId u d vis (state_body r c state err))]"
proof -
  have id: "ir_clientMessageId (with_lifecycle r state err None) = c"
    using building_get [OF b r] by (simp add: with_lifecycle_def)
  have "nextClientInput (st_inputs u) (draft_entry createId u d vis (state_body r c state err)) =
      Inr (Some (with_lifecycle r state err None))"
    using r move err by (cases err) (simp_all add: nextClientInput_def state_body_def move_input_def requireReceipt_def)
  moreover have "validateReferences u (draft_entry createId u d vis (state_body r c state err)) = Inr ()"
    "\<not> isWorkBody (state_body r c state err)" "\<forall>t. state_body r c state err \<noteq> Leaf t"
    by (simp_all add: validateReferences_def state_body_def)
  ultimately obtain u' where "building createId s (drafts_add createId vis (state_body r c state err) d) u'"
    "st_inputs u' = next_inputs (st_inputs u) (Some (with_lifecycle r state err None))" "st_work u' = st_work u"
    "st_byId u' = st_byId u @ [(createId (ed_calls d), draft_entry createId u d vis (state_body r c state err))]"
    using building_add_input [OF b inj] by blast
  with that id show ?thesis by (simp add: next_inputs_def)
qed

text \<open>The message of a started input completes it.\<close>

lemma building_deliver:
  assumes b: "building createId s d u" and inj: "inj createId"
    and r: "js_get (st_inputs u) c = Some r" and started: "ir_state r = Started"
  obtains u' where "building createId s (drafts_add createId Public (Message m (Some c)) d) u'"
    "st_inputs u' = js_set (st_inputs u) c (with_lifecycle r Completed None (Some (createId (ed_calls d))))"
    "st_work u' = st_work u"
    "st_byId u' = st_byId u @ [(createId (ed_calls d), draft_entry createId u d Public (Message m (Some c)))]"
proof -
  let ?r = "with_lifecycle r Completed None (Some (createId (ed_calls d)))"
  have id: "ir_clientMessageId ?r = c" using building_get [OF b r] by (simp add: with_lifecycle_def)
  have "nextClientInput (st_inputs u) (draft_entry createId u d Public (Message m (Some c))) = Inr (Some ?r)"
    using r started by (simp add: nextClientInput_def complete_input_def)
  moreover have "validateReferences u (draft_entry createId u d Public (Message m (Some c))) = Inr ()"
    by (simp add: validateReferences_def)
  ultimately obtain u' where "building createId s (drafts_add createId Public (Message m (Some c)) d) u'"
    "st_inputs u' = next_inputs (st_inputs u) (Some ?r)" "st_work u' = st_work u"
    "st_byId u' = st_byId u @ [(createId (ed_calls d), draft_entry createId u d Public (Message m (Some c)))]"
    using building_add_input [OF b inj, of "Message m (Some c)" Public] by auto
  with that id show ?thesis by (simp add: next_inputs_def)
qed

lemma building_prepared:
  assumes "inj createId" and "building createId s d u" and "list_all (\<lambda>p. plain_body (snd p)) prepared"
  obtains u' where "building createId s (foldl (\<lambda>d (vis, body). drafts_add createId vis body d) d prepared) u'"
    "st_inputs u' = st_inputs u"
proof -
  have "\<exists>u'. building createId s (foldl (\<lambda>d (vis, body). drafts_add createId vis body d) d prepared) u' \<and>
      st_inputs u' = st_inputs u"
    using assms(2,3)
  proof (induction prepared arbitrary: d u)
    case (Cons p prepared)
    obtain vis body where p: "p = (vis, body)" by (cases p)
    with Cons.prems have "plain_body body" by simp
    from building_plain [OF Cons.prems(1) assms(1) this] obtain u1
      where "building createId s (drafts_add createId vis body d) u1" "st_inputs u1 = st_inputs u" by metis
    with Cons.IH [of "drafts_add createId vis body d" u1] Cons.prems(2) p show ?case by auto
  qed auto
  with that show ?thesis by blast
qed

text \<open>Messages that do not carry the delivered input's id are plain entries.\<close>

lemma messageEntryBody_plain: "messageEntryBody m = Inr body \<Longrightarrow> plain_body body"
  by (cases m rule: messageEntryBody.cases) auto

lemma building_messages:
  assumes inj: "inj createId" and "building createId s d u"
    and "list_all (\<lambda>m. clientMessageIdOf m \<noteq> Some c \<and> (\<exists>body. messageEntryBody m = Inr body)) ms"
  obtains d' u' where "res_fold (add_message createId (Some c)) d ms = Inr d'"
    "building createId s d' u'" "st_inputs u' = st_inputs u"
    "\<forall>i e. js_get (st_byId u) i = Some e \<longrightarrow> js_get (st_byId u') i = Some e"
proof -
  have "\<exists>d' u'. res_fold (add_message createId (Some c)) d ms = Inr d' \<and> building createId s d' u' \<and>
      st_inputs u' = st_inputs u \<and> (\<forall>i e. js_get (st_byId u) i = Some e \<longrightarrow> js_get (st_byId u') i = Some e)"
    using assms(2,3)
  proof (induction ms arbitrary: d u)
    case (Cons m ms)
    then obtain body where body: "messageEntryBody m = Inr body" "clientMessageIdOf m \<noteq> Some c" by auto
    from building_plain [OF Cons.prems(1) inj messageEntryBody_plain [OF body(1)]] obtain u1
      where u1: "building createId s (drafts_add createId Public body d) u1" "st_inputs u1 = st_inputs u"
        "st_byId u1 = st_byId u @ [(createId (ed_calls d), draft_entry createId u d Public body)]" by metis
    obtain d' u' where "res_fold (add_message createId (Some c)) (drafts_add createId Public body d) ms = Inr d'"
      "building createId s d' u'" "st_inputs u' = st_inputs u1"
      "\<forall>i e. js_get (st_byId u1) i = Some e \<longrightarrow> js_get (st_byId u') i = Some e"
      using Cons.IH [OF u1(1)] Cons.prems(2) by auto
    moreover have "res_fold (add_message createId (Some c)) d (m # ms) =
        res_fold (add_message createId (Some c)) (drafts_add createId Public body d) ms"
      using body by (simp add: add_message_def [of createId "Some c" d m])
    moreover have "js_get (st_byId u1) i = Some e" if "js_get (st_byId u) i = Some e" for i e
      using that by (simp add: u1(3) js_get_append)
    ultimately show ?case using u1(2) by metis
  qed auto
  with that show ?thesis by blast
qed

text \<open>The batch from the point where the input is started.\<close>

lemma deliver_from_started:
  assumes inj: "inj createId" and b: "building createId s d u"
    and r: "js_get (st_inputs u) c = Some r" "ir_state r = Started"
    and prep: "list_all (\<lambda>p. plain_body (snd p)) prepared"
    and others: "list_all (\<lambda>m. clientMessageIdOf m \<noteq> Some c \<and> (\<exists>body. messageEntryBody m = Inr body)) (pre @ post)"
  obtains d' u' r' i e where
    "res_fold (add_message createId (Some c))
       (foldl (\<lambda>d (vis, body). drafts_add createId vis body d) d prepared) (pre @ ClientUser m c # post) = Inr d'"
    "building createId s d' u'" "js_get (st_inputs u') c = Some r'" "ir_state r' = Completed"
    "ir_canonicalEntryId r' = Some i" "js_get (st_byId u') i = Some e"
    "e_body e = Message (UserMessage m) (Some c)" "e_visibility e = Public"
proof -
  let ?d1 = "foldl (\<lambda>d (vis, body). drafts_add createId vis body d) d prepared"
  obtain u1 where u1: "building createId s ?d1 u1" "st_inputs u1 = st_inputs u"
    by (rule building_prepared [OF inj b prep])
  have ms: "list_all (\<lambda>m. clientMessageIdOf m \<noteq> Some c \<and> (\<exists>body. messageEntryBody m = Inr body)) pre"
    "list_all (\<lambda>m. clientMessageIdOf m \<noteq> Some c \<and> (\<exists>body. messageEntryBody m = Inr body)) post"
    using others by simp_all
  obtain d2 u2 where d2: "res_fold (add_message createId (Some c)) ?d1 pre = Inr d2"
    and u2: "building createId s d2 u2" "st_inputs u2 = st_inputs u1"
    by (rule building_messages [OF inj u1(1) ms(1)])
  let ?d3 = "drafts_add createId Public (Message (UserMessage m) (Some c)) d2"
  let ?e = "draft_entry createId u2 d2 Public (Message (UserMessage m) (Some c))"
  have "js_get (st_inputs u2) c = Some r" using r u1(2) u2(2) by simp
  from building_deliver [OF u2(1) inj this r(2)] obtain u3 where u3: "building createId s ?d3 u3"
    "st_inputs u3 = js_set (st_inputs u2) c (with_lifecycle r Completed None (Some (createId (ed_calls d2))))"
    "st_byId u3 = st_byId u2 @ [(createId (ed_calls d2), ?e)]" by metis
  obtain d4 u4 where d4: "res_fold (add_message createId (Some c)) ?d3 post = Inr d4"
    and u4: "building createId s d4 u4" "st_inputs u4 = st_inputs u3"
      "\<forall>i e. js_get (st_byId u3) i = Some e \<longrightarrow> js_get (st_byId u4) i = Some e"
    by (rule building_messages [OF inj u3(1) ms(2)])
  have "createId (ed_calls d2) \<notin> set (js_keys (st_byId u2))" using u2(1) by (simp add: building_def)
  then have "js_get (st_byId u4) (createId (ed_calls d2)) = Some ?e"
    using u4(3) by (simp add: u3(3) js_get_snoc)
  moreover have "res_fold (add_message createId (Some c)) ?d1 (pre @ ClientUser m c # post) = Inr d4"
    using d2 d4 by (simp add: res_fold_append add_message_def [of createId "Some c" d2 "ClientUser m c"])
  moreover have "js_get (st_inputs u4) c = Some (with_lifecycle r Completed None (Some (createId (ed_calls d2))))"
    by (simp add: u4(2) u3(2) js_get_set)
  ultimately show ?thesis
    using u4(1) that [of d4 u4 "with_lifecycle r Completed None (Some (createId (ed_calls d2)))"
        "createId (ed_calls d2)" ?e]
    by (simp add: with_lifecycle_def)
qed

lemma deliver_accepts:
  assumes inv: "conv_inv s" and inj: "inj createId"
    and fresh: "\<forall>i \<ge> n. createId i \<notin> set (js_keys (st_byId s))"
    and r: "js_get (st_inputs s) c = Some r" "input_open r"
    and prep: "list_all (\<lambda>p. plain_body (snd p)) prepared"
    and others: "list_all (\<lambda>m. clientMessageIdOf m \<noteq> Some c \<and> (\<exists>body. messageEntryBody m = Inr body)) (pre @ post)"
  obtains d u r' i e where
    "addDeliveryDrafts createId (pre @ ClientUser m c # post) (Some c) prepared (new_drafts s now n) s = Inr d"
    "building createId s d u" "js_get (st_inputs u) c = Some r'" "ir_state r' = Completed"
    "ir_canonicalEntryId r' = Some i" "js_get (st_byId u) i = Some e"
    "e_body e = Message (UserMessage m) (Some c)" "e_visibility e = Public"
proof -
  let ?d = "new_drafts s now n"
  let ?d1 = "if ir_state r = Accepted
    then drafts_add createId Host (state_body r (ir_clientMessageId r) Started None) ?d else ?d"
  have b: "building createId s ?d s" using inv fresh by (rule building_start)
  have id: "ir_clientMessageId r = c" using building_get [OF b r(1)] .
  obtain u1 r1 where u1: "building createId s ?d1 u1" "js_get (st_inputs u1) c = Some r1" "ir_state r1 = Started"
  proof (cases "ir_state r = Accepted")
    case True
    then have "input_move_allowed (ir_state r) Started" by (simp add: input_move_allowed_def)
    from building_move [OF b inj r(1) this, of None Host] obtain u' where
      "building createId s (drafts_add createId Host (state_body r c Started None) ?d) u'"
      "st_inputs u' = js_set (st_inputs s) c (with_lifecycle r Started None None)" by auto
    with True id that [of u' "with_lifecycle r Started None None"] show ?thesis
      by (simp add: js_get_set with_lifecycle_def)
  next
    case False
    with r(2) b r(1) that show ?thesis by (auto simp: input_open_def)
  qed
  from deliver_from_started [OF inj u1 prep others] obtain d' u' r' i e where
    fold: "res_fold (add_message createId (Some c))
       (foldl (\<lambda>d (vis, body). drafts_add createId vis body d) ?d1 prepared) (pre @ ClientUser m c # post) = Inr d'"
    and rest: "building createId s d' u'" "js_get (st_inputs u') c = Some r'" "ir_state r' = Completed"
    "ir_canonicalEntryId r' = Some i" "js_get (st_byId u') i = Some e"
    "e_body e = Message (UserMessage m) (Some c)" "e_visibility e = Public" by metis
  have "addDeliveryDrafts createId (pre @ ClientUser m c # post) (Some c) prepared ?d s = Inr d'"
    using fold r(1) by (auto simp: addDeliveryDrafts_def Let_def)
  then show ?thesis by (rule that) (fact rest)+
qed

section \<open>Reconciling work\<close>

lemma building_finish:
  assumes b: "building createId s d u" and inj: "inj createId"
    and r: "js_get (st_work u) w = Some r" "w_outcome r = None"
  obtains u' where "building createId s (drafts_add createId Host (interrupted_body w) d) u'"
    "st_work u' = js_set (st_work u) w (r\<lparr>w_outcome := Some WInterrupted,
       w_updatedOrdinal := st_ordinal u + 1, w_finishedOrdinal := Some (st_ordinal u + 1)\<rparr>)"
proof -
  let ?e = "draft_entry createId u d Host (interrupted_body w)"
  let ?r = "r\<lparr>w_outcome := Some WInterrupted, w_updatedOrdinal := st_ordinal u + 1,
    w_finishedOrdinal := Some (st_ordinal u + 1)\<rparr>"
  have "work_ok (st_ordinal u) (st_work u)" using b unfolding building_def conv_inv_def work_inv_def by blast
  then have id: "w_workId r = w" using work_okD(3) r(1) by blast
  have work: "next_work u ?e = Inr (Some ?r)"
    using r by (simp add: next_work_Some interrupted_body_def finish_work_def open_record_def or_keep_def)
  have nl: "\<forall>t. interrupted_body w \<noteq> Leaf t"
    and ref: "validateReferences u ?e = Inr ()" and input: "nextClientInput (st_inputs u) ?e = Inr None"
    by (simp_all add: interrupted_body_def validateReferences_def nextClientInput_def)
  show ?thesis
  proof (rule building_add [OF b inj nl ref input work])
    fix u' assume "building createId s (drafts_add createId Host (interrupted_body w) d) u'"
      "st_work u' = (case Some ?r of None \<Rightarrow> st_work u | Some r \<Rightarrow> js_set (st_work u) (w_workId r) r)"
    then show thesis using that [of u'] id by simp
  qed
qed

text \<open>Ending an item that cannot continue changes nothing for the items that can.\<close>

lemma cannot_continue_end:
  assumes "js_get m w = Some r" and "cannot_continue m w" and "w_outcome r' \<noteq> None"
    and "w_resume r' = w_resume r" and "w_parentWorkId r' = w_parentWorkId r"
  shows "cannot_continue (js_set m w r') k \<longleftrightarrow> cannot_continue m k"
proof
  assume "cannot_continue (js_set m w r') k"
  then show "cannot_continue m k"
  proof induction
    case (Ended k q)
    then show ?case using assms(2) by (cases "k = w") (auto simp: js_get_set intro: cannot_continue.Ended)
  next
    case (Unresumable k q)
    then show ?case using assms(2) by (cases "k = w") (auto simp: js_get_set intro: cannot_continue.Unresumable)
  next
    case (Child k q p)
    then show ?case using assms(2) by (cases "k = w") (auto simp: js_get_set intro: cannot_continue.Child)
  qed
next
  assume "cannot_continue m k"
  then show "cannot_continue (js_set m w r') k"
  proof induction
    case (Ended k q)
    then show ?case using assms(3)
      by (cases "k = w") (auto simp: js_get_set intro: cannot_continue.Ended)
  next
    case (Unresumable k q)
    then show ?case using assms(3)
      by (cases "k = w") (auto simp: js_get_set intro: cannot_continue.Unresumable cannot_continue.Ended)
  next
    case (Child k q p)
    then show ?case using assms(3)
      by (cases "k = w") (auto simp: js_get_set intro: cannot_continue.Child cannot_continue.Ended)
  qed
qed

lemma building_interrupts:
  assumes inj: "inj createId" and "building createId s d u" and "distinct ws"
    and "\<forall>w\<in>set ws. cannot_continue (st_work u) w \<and> w \<in> set (st_openWork u)"
  obtains u' where "building createId s (foldl (\<lambda>d w. drafts_add createId Host (interrupted_body w) d) d ws) u'"
    "st_openWork u' = filter (\<lambda>k. k \<notin> set ws) (st_openWork u)"
    "\<And>k. cannot_continue (st_work u') k = cannot_continue (st_work u) k"
proof -
  have "\<exists>u'. building createId s (foldl (\<lambda>d w. drafts_add createId Host (interrupted_body w) d) d ws) u' \<and>
      st_openWork u' = filter (\<lambda>k. k \<notin> set ws) (st_openWork u) \<and>
      (\<forall>k. cannot_continue (st_work u') k = cannot_continue (st_work u) k)"
    using assms(2-)
  proof (induction ws arbitrary: d u)
    case (Cons w ws)
    have inv: "work_inv u" using Cons.prems(1) by (simp add: building_def conv_inv_def)
    have dist: "distinct (js_keys (st_work u))" and opn: "st_openWork u = open_ids (st_work u)"
      using inv work_okD(1) by (auto simp: work_inv_def)
    obtain r where r: "js_get (st_work u) w = Some r" "w_outcome r = None"
      using Cons.prems(3) open_ids_mem [OF dist] opn by auto
    let ?r = "r\<lparr>w_outcome := Some WInterrupted, w_updatedOrdinal := st_ordinal u + 1,
      w_finishedOrdinal := Some (st_ordinal u + 1)\<rparr>"
    obtain u1 where u1: "building createId s (drafts_add createId Host (interrupted_body w) d) u1"
      "st_work u1 = js_set (st_work u) w ?r" by (rule building_finish [OF Cons.prems(1) inj r])
    have open1: "st_openWork u1 = filter (\<lambda>k. k \<noteq> w) (st_openWork u)"
      using u1 opn open_ids_set [OF dist r, of ?r] by (simp add: building_def conv_inv_def work_inv_def)
    have cc: "cannot_continue (st_work u1) k = cannot_continue (st_work u) k" for k
      using cannot_continue_end [OF r(1), of ?r] Cons.prems(3) by (simp add: u1(2))
    have "\<forall>v\<in>set ws. cannot_continue (st_work u1) v \<and> v \<in> set (st_openWork u1)"
      using Cons.prems(2,3) cc open1 by auto
    from Cons.IH [OF u1(1) _ this] Cons.prems(2) obtain u' where
      "building createId s (foldl (\<lambda>d w. drafts_add createId Host (interrupted_body w) d)
         (drafts_add createId Host (interrupted_body w) d) ws) u'"
      "st_openWork u' = filter (\<lambda>k. k \<notin> set ws) (st_openWork u1)"
      "\<forall>k. cannot_continue (st_work u') k = cannot_continue (st_work u1) k" by auto
    with open1 cc show ?case by (auto simp: conj_commute intro!: exI [of _ u'])
  qed auto
  with that show ?thesis by blast
qed

end
