(* ===== verification/Kernel_Correctness.thy ===== *)
theory Kernel_Correctness
  imports Sample_Log Kernel_Operations
begin

text \<open>
  What the log and the commit lane guarantee: retries and durability of committed batches, agreement
  of the fold state with the log over any sequence of commits, reopening, and the batches for
  deliveries and for reconciled work.
\<close>

section \<open>The log\<close>

text \<open>
  C7: Retrying a committed batch is harmless. Whatever batches were appended after it, appending the
  same batch again to the log, as long as the log is not lost, returns the same range of ordinals and
  changes nothing.
\<close>

theorem append_retry_idempotent:
  assumes "mem_append l b = (Inr (Committed m n), l')" and "list_all draft_ok (ap_entries b)"
    and "js_get (ml_commits l) (ap_commitId b) = None"
    and "ml_lostError (mem_appends l' bs) = None"
  shows "mem_append (mem_appends l' bs) b = (Inr (Committed m n), mem_appends l' bs)"
proof -
  from assms(1) obtain c where c: "js_get (ml_commits l') (ap_commitId b) = Some c" "cr_first c = m"
    "cr_last c = n" "cr_expectedOrdinal c = ap_expectedOrdinal b" "cr_entries c = ap_entries b"
    using assms(3) by (cases rule: mem_append_cases) (auto simp: js_get_set)
  have "js_get (ml_commits (mem_appends l' bs)) (ap_commitId b) = Some c"
    using c(1) by (rule mem_appends_keeps_commit)
  with c assms(4) sameDrafts_refl [OF assms(2)] show ?thesis by (simp add: mem_append_def)
qed

definition sample_batch :: "nat \<Rightarrow> string \<Rightarrow> log_append" where
  "sample_batch n i =
     \<lparr>ap_expectedOrdinal = n, ap_commitId = ''k'' @ i,
      ap_entries = [\<lparr>d_id = i, d_parentId = None, d_timestamp = ''2025-01-01T00:00:00.000Z'',
        d_visibility = Public, d_body = FastModeChange True\<rparr>]\<rparr>"

theorem append_retry_idempotent_witness:
  "mem_append (mem_appends (snd (mem_append empty_mem_log (sample_batch 0 ''a''))) [sample_batch 1 ''b'']) (sample_batch 0 ''a'') =
   (Inr (Committed 1 1), mem_appends (snd (mem_append empty_mem_log (sample_batch 0 ''a''))) [sample_batch 1 ''b''])"
proof (rule append_retry_idempotent)
  show "mem_append empty_mem_log (sample_batch 0 ''a'') =
      (Inr (Committed 1 1), snd (mem_append empty_mem_log (sample_batch 0 ''a'')))"
    "list_all draft_ok (ap_entries (sample_batch 0 ''a''))"
    "js_get (ml_commits empty_mem_log) (ap_commitId (sample_batch 0 ''a'')) = None"
    "ml_lostError (mem_appends (snd (mem_append empty_mem_log (sample_batch 0 ''a''))) [sample_batch 1 ''b'']) = None"
    by code_simp+
qed

text \<open>
  A committed batch is durable: whatever is appended later, by whatever writer and with whatever
  outcome, the log still holds exactly the batch's entries at the ordinals its result named, and stays
  a well-formed log (contiguous ordinals from 1, unique ids).
\<close>

theorem append_durable:
  assumes "mem_log_ok l" and "mem_append l b = (Inr (Committed m n), l')"
    and "js_get (ml_commits l) (ap_commitId b) = None"
  shows "take (length (ap_entries b)) (drop (m - 1) (ml_entries (mem_appends l' bs))) =
      stamp_drafts (m - 1) (ap_entries b) \<and>
    n = m - 1 + length (ap_entries b) \<and> m = length (ml_entries l) + 1 \<and> mem_log_ok (mem_appends l' bs)"
proof -
  have fresh: "ap_commitId b \<notin> set (js_keys (ml_commits l))" using assms(3) by (simp add: js_get_None_iff)
  note com = mem.append_commits [OF assms(1,2) fresh]
  have ok': "mem_log_ok l'" using mem_append_ok [OF assms(1,2)] .
  obtain es where es: "ml_entries (mem_appends l' bs) = ml_entries l' @ es"
    using mem_appends_prefix [OF ok'] by blast
  have "mem_log_ok (mem_appends k bs)" if "mem_log_ok k" for k
    using that
  proof (induction bs arbitrary: k)
    case (Cons b bs)
    then show ?case using mem_append_ok by (cases "mem_append k b") (auto simp: mem_appends_Cons)
  qed (simp add: mem_appends_def)
  with ok' com es show ?thesis by simp
qed

theorem append_durable_witness:
  "take 1 (drop 0 (ml_entries (mem_appends (snd (mem_append empty_mem_log (sample_batch 0 ''a''))) [sample_batch 1 ''b'']))) =
     stamp_drafts 0 (ap_entries (sample_batch 0 ''a''))"
proof -
  have eq: "mem_append empty_mem_log (sample_batch 0 ''a'') =
      (Inr (Committed 1 1), snd (mem_append empty_mem_log (sample_batch 0 ''a'')))"
    "js_get (ml_commits empty_mem_log) (ap_commitId (sample_batch 0 ''a'')) = None"
    "length (ap_entries (sample_batch 0 ''a'')) = 1" by code_simp+
  show ?thesis using append_durable [OF empty_mem_log_ok eq(1,2), of "[sample_batch 1 ''b'']"] eq(3) by simp
qed

text \<open>
  A stale writer is fenced. A new batch whose expected ordinal is not the head of an open log is
  refused, the log's entries stay, and from then on every append fails with that loss.
\<close>

theorem stale_writer_fenced:
  assumes "ml_lostError l = None" and "js_get (ml_commits l) (ap_commitId b) = None"
    and "ap_expectedOrdinal b \<noteq> length (ml_entries l)"
  shows "\<exists>l'. mem_append l b = (Inl FenceConflict, l') \<and> ml_entries l' = ml_entries l \<and>
    (\<forall>b'. mem_append l' b' = (Inl FenceConflict, l'))"
  using assms by (simp add: mem_append_def mem_head_def)

theorem stale_writer_fenced_witness:
  "\<exists>l'. mem_append (snd (mem_append empty_mem_log (sample_batch 0 ''a''))) (sample_batch 0 ''b'') = (Inl FenceConflict, l') \<and>
    length (ml_entries l') = 1"
proof -
  let ?l = "snd (mem_append empty_mem_log (sample_batch 0 ''a''))"
  have h: "ml_lostError ?l = None" "js_get (ml_commits ?l) (ap_commitId (sample_batch 0 ''b'')) = None"
    "ap_expectedOrdinal (sample_batch 0 ''b'') \<noteq> length (ml_entries ?l)" "length (ml_entries ?l) = 1"
    by code_simp+
  show ?thesis using stale_writer_fenced [OF h(1-3)] h(4) by auto
qed

section \<open>The commit lane\<close>

definition run_commits ::
    "(nat \<Rightarrow> string) \<Rightarrow> string \<Rightarrow>
     (entry_drafts \<Rightarrow> conversation_state \<Rightarrow> conversation_error + entry_drafts) list \<Rightarrow>
     mem_log conversation \<Rightarrow> mem_log conversation" where
  "run_commits createId now builds c =
     foldl (\<lambda>c build. snd (commitInLane mem_append createId now build c)) c builds"

definition mem_kernel_ok :: "(nat \<Rightarrow> string) \<Rightarrow> mem_log conversation \<Rightarrow> bool" where
  "mem_kernel_ok = kernel_ok ml_entries (\<lambda>l. set (js_keys (ml_commits l))) mem_log_ok"

lemma run_commits_ok:
  "mem_kernel_ok createId c \<Longrightarrow> list_all counting builds \<Longrightarrow> inj createId \<Longrightarrow>
   mem_kernel_ok createId (run_commits createId now builds c)"
proof (induction builds arbitrary: c)
  case (Cons build builds)
  have "mem_kernel_ok createId (snd (commitInLane mem_append createId now build c))"
    using mem.commit_keeps_ok [of createId c build now] Cons.prems
    by (cases "commitInLane mem_append createId now build c") (simp add: mem_kernel_ok_def)
  with Cons show ?case by (simp add: run_commits_def)
qed (simp add: run_commits_def)

text \<open>
  C8: The fold state of a conversation is always the fold of its log. It holds for a fresh
  conversation and after any sequence of commits, whatever their builders do and whether they succeed,
  are rejected, are rolled back or lose the log; and opening the log again gives the same state.
\<close>

theorem commits_agree_with_log:
  assumes "inj createId" and "list_all counting builds"
    and "c = run_commits createId now builds
      \<lparr>cv_log = empty_mem_log, cv_foldState = emptyState, cv_endState = None, cv_calls = 0, cv_events = []\<rparr>"
  shows "fold_log (ml_entries (cv_log c)) emptyState = Inr (cv_foldState c) \<and>
    (ml_lostError (cv_log c) = None \<longrightarrow> length (ml_entries (cv_log c)) \<le> max_safe_integer \<longrightarrow>
     (\<forall>fuel > length (ml_entries (cv_log c)). \<exists>c'. open_conversation mem_read fuel (cv_calls c) (cv_log c) = Some (Inr c') \<and>
        cv_foldState c' = cv_foldState c))"
proof -
  have "mem_kernel_ok createId
      \<lparr>cv_log = empty_mem_log, cv_foldState = emptyState, cv_endState = None, cv_calls = 0, cv_events = []\<rparr>"
    using empty_mem_log_ok by (simp add: mem_kernel_ok_def kernel_ok_def empty_mem_log_def fold_log_def)
  from run_commits_ok [OF this assms(2,1)] have "mem_kernel_ok createId c" by (simp add: assms(3))
  then have inv: "mem_log_ok (cv_log c)" and fold: "fold_log (ml_entries (cv_log c)) emptyState = Inr (cv_foldState c)"
    by (simp_all add: mem_kernel_ok_def kernel_ok_def)
  then show ?thesis using mem.open_folds [OF inv _ _ _ fold] by auto
qed

definition sample_ids :: "nat \<Rightarrow> string" where
  "sample_ids n = replicate n (CHR ''x'')"

lemma inj_sample_ids: "inj sample_ids"
  by (rule injI) (metis length_replicate sample_ids_def)

lemma sample_fresh: "\<forall>i\<ge>1. sample_ids i \<notin> set (map e_id sample_log)"
proof -
  have "hd (sample_ids i) = CHR ''x''" if "1 \<le> i" for i using that by (cases i) (simp_all add: sample_ids_def)
  moreover have "hd x = CHR ''e''" if "x \<in> set (map e_id sample_log)" for x
    using that by (auto simp: sample_log_def sample_entry_def)
  ultimately show ?thesis by fastforce
qed

definition sample_build :: "entry_drafts \<Rightarrow> conversation_state \<Rightarrow> conversation_error + entry_drafts" where
  "sample_build d s = Inr (drafts_add sample_ids Public (FastModeChange True) d)"

lemma counting_sample_build: "counting sample_build"
  by (simp add: counting_def sample_build_def drafts_add_def Let_def)

theorem commits_agree_with_log_witness:
  "\<exists>c. c = run_commits sample_ids ''now'' [sample_build, sample_build]
      \<lparr>cv_log = empty_mem_log, cv_foldState = emptyState, cv_endState = None, cv_calls = 0, cv_events = []\<rparr> \<and>
    fold_log (ml_entries (cv_log c)) emptyState = Inr (cv_foldState c) \<and> length (ml_entries (cv_log c)) = 2"
proof -
  let ?c = "run_commits sample_ids ''now'' [sample_build, sample_build]
      \<lparr>cv_log = empty_mem_log, cv_foldState = emptyState, cv_endState = None, cv_calls = 0, cv_events = []\<rparr>"
  have len: "length (ml_entries (cv_log ?c)) = 2" by code_simp
  have cnt: "list_all counting [sample_build, sample_build]" using counting_sample_build by simp
  have "fold_log (ml_entries (cv_log ?c)) emptyState = Inr (cv_foldState ?c)"
    using commits_agree_with_log [OF inj_sample_ids cnt refl] by (rule conjunct1)
  with len show ?thesis by blast
qed

text \<open>
  A commit is atomic. When it fails, neither the log's entries nor the fold state change; when it
  succeeds, exactly the returned entries are appended to the log and the new state is their fold.
\<close>

theorem commit_all_or_nothing:
  assumes "mem_kernel_ok createId c" and "counting build"
    and "commitInLane mem_append createId now build c = (r, c')"
  shows "case r of
      Inl err \<Rightarrow> ml_entries (cv_log c') = ml_entries (cv_log c) \<and> cv_foldState c' = cv_foldState c
    | Inr es \<Rightarrow> ml_entries (cv_log c') = ml_entries (cv_log c) @ es \<and>
        fold_log es (cv_foldState c) = Inr (cv_foldState c')"
proof (cases r)
  case (Inl err)
  with assms(1,3) mem.commit_atomic [of c createId now build err c'] show ?thesis
    by (simp add: mem_kernel_ok_def kernel_ok_def)
next
  case (Inr es)
  with assms mem.commit_effect [of createId c build now es c'] show ?thesis by (simp add: mem_kernel_ok_def)
qed

theorem commit_all_or_nothing_witness:
  "\<exists>es c'. commitInLane mem_append sample_ids ''now'' sample_build
       \<lparr>cv_log = empty_mem_log, cv_foldState = emptyState, cv_endState = None, cv_calls = 0, cv_events = []\<rparr> = (Inr es, c') \<and>
     length es = 1 \<and> ml_entries (cv_log c') = es"
proof -
  let ?c = "\<lparr>cv_log = empty_mem_log, cv_foldState = emptyState, cv_endState = None, cv_calls = 0, cv_events = []\<rparr>"
  let ?r = "commitInLane mem_append sample_ids ''now'' sample_build ?c"
  have "\<not> isl (fst ?r) \<and> length (projr (fst ?r)) = 1" by code_simp
  then obtain es c' where r: "?r = (Inr es, c')" "length es = 1"
    by (cases ?r; cases "fst ?r") auto
  have "mem_kernel_ok sample_ids ?c"
    using empty_mem_log_ok by (simp add: mem_kernel_ok_def kernel_ok_def empty_mem_log_def fold_log_def)
  from commit_all_or_nothing [OF this counting_sample_build r(1)] r show ?thesis
    by (simp add: empty_mem_log_def)
qed

text \<open>
  The provisional leaf of a batch is right. Whatever calls of \<open>add\<close> and \<open>moveLeaf\<close> build a batch,
  when the fold accepts it the leaf it arrives at is the one \<open>EntryDrafts\<close> tracked, so every draft's
  parent was the branch tip before it.
\<close>

theorem drafts_track_leaf:
  assumes "list_all (\<lambda>a. case a of Add _ (Leaf _) \<Rightarrow> False | _ \<Rightarrow> True) calls"
    and "fold_log (stamp_drafts (st_ordinal s) (ed_drafts (run_drafts createId (new_drafts s now n) calls))) s = Inr s'"
  shows "st_leafId s' = ed_leafId (run_drafts createId (new_drafts s now n) calls)"
  using assms by (intro provisional_leaf) (simp_all add: plain_calls_def)

theorem drafts_track_leaf_witness:
  "\<exists>s'. fold_log (stamp_drafts 14 (ed_drafts (run_drafts sample_ids (new_drafts sample_state ''now'' 1)
        [MoveLeaf (Some ''e3''), Add Public (FastModeChange True)]))) sample_state = Inr s' \<and>
     st_leafId s' = Some ''xx''"
proof -
  let ?calls = "[MoveLeaf (Some ''e3''), Add Public (FastModeChange True)]"
  let ?d = "run_drafts sample_ids (new_drafts sample_state ''now'' 1) ?calls"
  have ord: "st_ordinal sample_state = 14" and leaf: "ed_leafId ?d = Some ''xx''" by code_simp+
  have "\<not> isl (fold_log (stamp_drafts 14 (ed_drafts ?d)) sample_state)" by code_simp
  then obtain s' where s': "fold_log (stamp_drafts 14 (ed_drafts ?d)) sample_state = Inr s'"
    by (cases "fold_log (stamp_drafts 14 (ed_drafts ?d)) sample_state") auto
  have "st_leafId s' = ed_leafId ?d"
    by (rule drafts_track_leaf) (use s' ord in simp_all)
  with s' leaf show ?thesis by simp
qed

section \<open>Batches\<close>

text \<open>
  Delivering a pending input is accepted and completes it. For an accepted or started input of a
  folded log, the delivery batch with its own user message among other log messages and prepared
  entries is accepted by the fold, and afterwards the input is completed with that message's public
  entry as its canonical entry.
\<close>

theorem delivery_completes_input:
  assumes "fold_log es emptyState = Inr s" and "inj createId"
    and "\<forall>i \<ge> n. createId i \<notin> set (map e_id es)"
    and "js_get (st_inputs s) c = Some r" and "ir_state r = Accepted \<or> ir_state r = Started"
    and "list_all (\<lambda>p. plain_body (snd p)) prepared"
    and "list_all (\<lambda>m. clientMessageIdOf m \<noteq> Some c \<and> (\<exists>body. messageEntryBody m = Inr body)) (pre @ post)"
  shows "\<exists>d s' r' i e.
    addDeliveryDrafts createId (pre @ ClientUser m c # post) (Some c) prepared (new_drafts s now n) s = Inr d \<and>
    fold_log (stamp_drafts (st_ordinal s) (ed_drafts d)) s = Inr s' \<and>
    js_get (st_inputs s') c = Some r' \<and> ir_state r' = Completed \<and> ir_canonicalEntryId r' = Some i \<and>
    js_get (st_byId s') i = Some e \<and> e_body e = Message (UserMessage m) (Some c) \<and> e_visibility e = Public"
proof -
  have inv: "conv_inv s" using fold_log_inv [OF assms(1)] .
  have "js_keys (st_byId s) = map e_id es"
    using inv fold_log_entries [OF assms(1)] tree_okD(1) by (auto simp: conv_inv_def tree_inv_def)
  then have fresh: "\<forall>i \<ge> n. createId i \<notin> set (js_keys (st_byId s))" using assms(3) by simp
  have opn: "input_open r" using assms(5) by (simp add: input_open_def)
  show ?thesis
    by (rule deliver_accepts [OF inv assms(2) fresh assms(4) opn assms(6,7), of m now]) (auto simp: building_def)
qed

theorem delivery_completes_input_witness:
  "\<exists>d s' r'. addDeliveryDrafts sample_ids [ClientUser sample_user ''c2''] (Some ''c2'') [] (new_drafts sample_state ''now'' 1) sample_state = Inr d \<and>
    fold_log (stamp_drafts (st_ordinal sample_state) (ed_drafts d)) sample_state = Inr s' \<and>
    js_get (st_inputs s') ''c2'' = Some r' \<and> ir_state r' = Completed"
proof -
  have "map_option ir_state (js_get (st_inputs sample_state) ''c2'') = Some Accepted" by code_simp
  then obtain r where r: "js_get (st_inputs sample_state) ''c2'' = Some r" "ir_state r = Accepted \<or> ir_state r = Started"
    by auto
  show ?thesis
    using delivery_completes_input [OF sample_fold inj_sample_ids sample_fresh r, of "[]" "[]" "[]" sample_user "''now''"] by auto
qed

text \<open>
  Reconciling twice changes nothing. The batch that interrupts what a reconciliation lists is
  accepted by the fold; afterwards the open work is exactly the suspended work, and reconciling again
  interrupts nothing.
\<close>

theorem reconcile_settles:
  assumes "fold_log es emptyState = Inr s" and "inj createId"
    and "\<forall>i \<ge> n. createId i \<notin> set (map e_id es)"
    and "rec = workReconciliation (st_work s) (st_openWork s)"
  shows "\<exists>d s'. reconcileWork_build createId rec (new_drafts s now n) s = Inr d \<and>
    fold_log (stamp_drafts (st_ordinal s) (ed_drafts d)) s = Inr s' \<and>
    st_openWork s' = rec_suspended rec \<and>
    workReconciliation (st_work s') (st_openWork s') = \<lparr>rec_interrupt = [], rec_suspended = rec_suspended rec\<rparr>"
proof -
  have inv: "conv_inv s" using fold_log_inv [OF assms(1)] .
  then have ok: "work_ok (st_ordinal s) (st_work s)" and opn: "st_openWork s = open_ids (st_work s)"
    by (simp_all add: conv_inv_def work_inv_def)
  have rec: "rec = \<lparr>rec_interrupt = filter (cannot_continue (st_work s)) (st_openWork s),
       rec_suspended = filter (\<lambda>w. \<not> cannot_continue (st_work s) w) (st_openWork s)\<rparr>"
    using reconcile_prefix [OF ok, of "open_ids (st_work s)" "[]"] by (simp add: assms(4) workReconciliation_def opn)
  have "js_keys (st_byId s) = map e_id es"
    using inv fold_log_entries [OF assms(1)] tree_okD(1) by (auto simp: conv_inv_def tree_inv_def)
  then have b: "building createId s (new_drafts s now n) s"
    using assms(3) inv by (intro building_start) simp_all
  have "distinct (rec_interrupt rec)"
    using sorted_by_distinct [OF open_ids_sorted [OF ok]] by (simp add: rec opn)
  then obtain s' where b': "building createId s
      (foldl (\<lambda>d w. drafts_add createId Host (interrupted_body w) d) (new_drafts s now n) (rec_interrupt rec)) s'"
    and op': "st_openWork s' = filter (\<lambda>k. k \<notin> set (rec_interrupt rec)) (st_openWork s)"
    and cc: "\<And>k. cannot_continue (st_work s') k = cannot_continue (st_work s) k"
    by (rule building_interrupts [OF assms(2) b]) (auto simp: rec)
  have susp: "st_openWork s' = rec_suspended rec"
    using op' by (auto simp: rec intro: filter_cong)
  have ok': "work_ok (st_ordinal s') (st_work s')" and opn': "st_openWork s' = open_ids (st_work s')"
    using b' unfolding building_def conv_inv_def work_inv_def by blast+
  have "workReconciliation (st_work s') (st_openWork s') = \<lparr>rec_interrupt = [], rec_suspended = rec_suspended rec\<rparr>"
    using reconcile_prefix [OF ok', of "open_ids (st_work s')" "[]"] susp cc
    by (simp add: workReconciliation_def opn' [symmetric]) (simp add: rec)
  with b' susp show ?thesis by (auto simp: reconcileWork_build_def building_def)
qed

theorem reconcile_settles_witness:
  "\<exists>d s'. reconcileWork_build sample_ids (workReconciliation (st_work sample_state) [''w1'', ''w2''])
      (new_drafts sample_state ''now'' 1) sample_state = Inr d \<and>
    fold_log (stamp_drafts (st_ordinal sample_state) (ed_drafts d)) sample_state = Inr s' \<and> st_openWork s' = []"
proof -
  have "rec_suspended (workReconciliation (st_work sample_state) [''w1'', ''w2'']) = []" by code_simp
  then show ?thesis
    using reconcile_settles [OF sample_fold inj_sample_ids sample_fresh refl, of "''now''"]
    by (auto simp: sample_open)
qed

end
