(* ===== verification/Delivery_Inbox.thy ===== *)
theory Delivery_Inbox
  imports Volt_Prelude "HOL-Library.Multiset"
begin

text \<open>
  The delivery inbox (\<^verbatim>\<open>packages/agent/src/delivery-inbox.ts\<close>): a FIFO of pending deliveries with one
  revocable lease at a time. A lease is an object that outlives its time as the inbox's active lease,
  so the model keeps every lease the inbox created and names one by its index; \<open>ls_generation\<close> is the
  reset generation its restore callback closed over. Delivery and attempt ids come from the id
  supplies, which are arguments. The issued ids are kept in the order of issue.
\<close>

section \<open>Data\<close>

record ('k, 'm) delivery =
  dl_id :: string
  dl_kind :: 'k
  dl_messages :: "'m list"
  dl_sequence :: nat
  dl_epoch :: nat

datatype lease_status =
    Leased | Preparing | Ready | Committing | DeliveryCommitted | RollingBack | RollbackRevoked
  | Restored | Revoked | TerminallyFailed

record ('k, 'm) lease_entry =
  le_delivery :: "('k, 'm) delivery"
  le_status :: lease_status
  le_attemptId :: "string option"

record ('k, 'm) lease =
  ls_entries :: "('k, 'm) lease_entry list"
  ls_active :: bool
  ls_generation :: nat

record ('k, 'm) inbox =
  ib_pending :: "('k, 'm) delivery list"
  ib_leases :: "('k, 'm) lease list"
  ib_activeLease :: "nat option"
  ib_nextSequence :: nat
  ib_resetGeneration :: nat
  ib_issuedIds :: "string list"

definition empty_inbox :: "('k, 'm) inbox" where
  "empty_inbox = \<lparr>ib_pending = [], ib_leases = [], ib_activeLease = None, ib_nextSequence = 0,
     ib_resetGeneration = 0, ib_issuedIds = []\<rparr>"

datatype queue_mode = AllAtOnce | OneAtATime

datatype settlement = SettleCommitted | SettleRetained | SettleTerminallyFailed

datatype preparation = Prepared | PrepareRetained | PrepareTerminallyFailed

datatype inbox_error =
    DuplicateDeliveryId string
  | LeaseActive
  | DuplicateSelection string
  | NotPending string
  | FifoViolation

section \<open>Leases\<close>

text \<open>Statuses of an entry a lease can still revoke, and of one that keeps the lease active.\<close>

fun revocable :: "lease_status \<Rightarrow> bool" where
  "revocable Leased = True" | "revocable Preparing = True" | "revocable Ready = True"
| "revocable _ = False"

fun unsettled :: "lease_status \<Rightarrow> bool" where
  "unsettled Leased = True" | "unsettled Preparing = True" | "unsettled Ready = True"
| "unsettled Committing = True" | "unsettled RollingBack = True" | "unsettled RollbackRevoked = True"
| "unsettled _ = False"

definition entry_index :: "('k, 'm) lease \<Rightarrow> string \<Rightarrow> nat option" where
  "entry_index l i = find_index (\<lambda>e. dl_id (le_delivery e) = i) (ls_entries l)"

definition set_lease :: "nat \<Rightarrow> ('k, 'm) lease \<Rightarrow> ('k, 'm) inbox \<Rightarrow> ('k, 'm) inbox" where
  "set_lease n l ib = ib\<lparr>ib_leases := (ib_leases ib)[n := l]\<rparr>"

definition set_status :: "nat \<Rightarrow> nat \<Rightarrow> lease_status \<Rightarrow> ('k, 'm) inbox \<Rightarrow> ('k, 'm) inbox" where
  "set_status n k st ib =
     (let l = ib_leases ib ! n in
      set_lease n (l\<lparr>ls_entries := (ls_entries l)[k := (ls_entries l ! k)\<lparr>le_status := st\<rparr>]\<rparr>) ib)"

definition finishLease :: "nat \<Rightarrow> ('k, 'm) inbox \<Rightarrow> ('k, 'm) inbox" where
  "finishLease n ib =
     (if ib_activeLease ib \<noteq> Some n then ib
      else ib\<lparr>ib_pending := sort_key dl_sequence (ib_pending ib), ib_activeLease := None\<rparr>)"

definition finishIfExhausted :: "nat \<Rightarrow> ('k, 'm) inbox \<Rightarrow> ('k, 'm) inbox" where
  "finishIfExhausted n ib =
     (let l = ib_leases ib ! n in
      if \<not> ls_active l \<or> list_ex (\<lambda>e. unsettled (le_status e)) (ls_entries l) then ib
      else finishLease n (set_lease n (l\<lparr>ls_active := False\<rparr>) ib))"

definition restoreSettlement :: "nat \<Rightarrow> ('k, 'm) delivery \<Rightarrow> ('k, 'm) inbox \<Rightarrow> ('k, 'm) inbox" where
  "restoreSettlement generation d ib =
     (if ib_resetGeneration ib \<noteq> generation then ib
      else ib\<lparr>ib_pending := sort_key dl_sequence (d # ib_pending ib)\<rparr>)"

text \<open>Settle entry \<open>k\<close>: restored to the inbox, or left with a final status.\<close>

definition settle_entry :: "nat \<Rightarrow> nat \<Rightarrow> lease_status \<Rightarrow> ('k, 'm) inbox \<Rightarrow> ('k, 'm) inbox" where
  "settle_entry n k st ib =
     (let l = ib_leases ib ! n;
          ib1 = set_status n k st ib;
          ib2 = (if st = Restored
            then restoreSettlement (ls_generation l) (le_delivery (ls_entries l ! k)) ib1 else ib1)
      in finishIfExhausted n ib2)"

definition lease_prepare ::
    "nat \<Rightarrow> string \<Rightarrow> string \<Rightarrow> ('k, 'm) inbox \<Rightarrow> ('k, 'm) delivery option \<times> ('k, 'm) inbox" where
  "lease_prepare n i attempt ib =
     (let l = ib_leases ib ! n in
      if \<not> ls_active l then (None, ib)
      else case entry_index l i of
        None \<Rightarrow> (None, ib)
      | Some k \<Rightarrow>
          if le_status (ls_entries l ! k) \<noteq> Leased then (None, ib)
          else (Some (le_delivery (ls_entries l ! k)),
            set_lease n (l\<lparr>ls_entries := (ls_entries l)[k := (ls_entries l ! k)
              \<lparr>le_status := Preparing, le_attemptId := Some attempt\<rparr>]\<rparr>) ib))"

definition completePreparation ::
    "nat \<Rightarrow> string \<Rightarrow> string \<Rightarrow> preparation \<Rightarrow> ('k, 'm) inbox \<Rightarrow> ('k, 'm) delivery option \<times> ('k, 'm) inbox" where
  "completePreparation n i attempt outcome ib =
     (let l = ib_leases ib ! n in
      case entry_index l i of
        None \<Rightarrow> (None, ib)
      | Some k \<Rightarrow>
          let e = ls_entries l ! k in
          if \<not> ls_active l \<or> le_status e \<noteq> Preparing \<or> le_attemptId e \<noteq> Some attempt then (None, ib)
          else (Some (le_delivery e),
            (case outcome of
               Prepared \<Rightarrow> set_status n k Ready ib
             | PrepareRetained \<Rightarrow> settle_entry n k Restored ib
             | PrepareTerminallyFailed \<Rightarrow> settle_entry n k TerminallyFailed ib)))"

definition beginCommit ::
    "nat \<Rightarrow> string \<Rightarrow> string \<Rightarrow> ('k, 'm) inbox \<Rightarrow> ('k, 'm) delivery option \<times> ('k, 'm) inbox" where
  "beginCommit n i attempt ib =
     (let l = ib_leases ib ! n in
      if \<not> ls_active l then (None, ib)
      else case entry_index l i of
        None \<Rightarrow> (None, ib)
      | Some k \<Rightarrow>
          let e = ls_entries l ! k in
          if le_status e \<noteq> Ready \<or> le_attemptId e \<noteq> Some attempt then (None, ib)
          else (Some (le_delivery e), set_status n k Committing ib))"

definition settleCommit ::
    "nat \<Rightarrow> string \<Rightarrow> string \<Rightarrow> settlement \<Rightarrow> ('k, 'm) inbox \<Rightarrow> ('k, 'm) delivery option \<times> ('k, 'm) inbox" where
  "settleCommit n i attempt outcome ib =
     (let l = ib_leases ib ! n in
      case entry_index l i of
        None \<Rightarrow> (None, ib)
      | Some k \<Rightarrow>
          let e = ls_entries l ! k in
          if le_status e \<noteq> Committing \<or> le_attemptId e \<noteq> Some attempt then (None, ib)
          else (Some (le_delivery e),
            settle_entry n k (case outcome of SettleRetained \<Rightarrow> Restored
              | SettleCommitted \<Rightarrow> DeliveryCommitted | SettleTerminallyFailed \<Rightarrow> TerminallyFailed) ib))"

definition rollback_entry :: "('k, 'm) lease_entry \<Rightarrow> ('k, 'm) lease_entry" where
  "rollback_entry e = (if revocable (le_status e) then e\<lparr>le_status := RollingBack\<rparr> else e)"

definition lease_rollback :: "nat \<Rightarrow> ('k, 'm) inbox \<Rightarrow> ('k, 'm) delivery list \<times> ('k, 'm) inbox" where
  "lease_rollback n ib =
     (let l = ib_leases ib ! n in
      if \<not> ls_active l then ([], ib)
      else (map le_delivery (filter (\<lambda>e. revocable (le_status e)) (ls_entries l)),
        finishIfExhausted n (set_lease n (l\<lparr>ls_entries := map rollback_entry (ls_entries l)\<rparr>) ib)))"

definition settleRollback ::
    "nat \<Rightarrow> string \<Rightarrow> bool \<Rightarrow> ('k, 'm) inbox \<Rightarrow> ('k, 'm) delivery option \<times> ('k, 'm) inbox" where
  "settleRollback n i retained ib =
     (let l = ib_leases ib ! n in
      case entry_index l i of
        None \<Rightarrow> (None, ib)
      | Some k \<Rightarrow>
          let e = ls_entries l ! k in
          if le_status e \<noteq> RollingBack \<and> le_status e \<noteq> RollbackRevoked then (None, ib)
          else (Some (le_delivery e),
            settle_entry n k (if le_status e = RollbackRevoked then Revoked
              else if retained then Restored else TerminallyFailed) ib))"

definition discard_entry :: "('k, 'm) lease_entry \<Rightarrow> ('k, 'm) lease_entry" where
  "discard_entry e =
     (if le_status e \<noteq> Committing \<and> le_status e \<noteq> DeliveryCommitted then e\<lparr>le_status := Revoked\<rparr> else e)"

definition lease_discard :: "nat \<Rightarrow> ('k, 'm) inbox \<Rightarrow> ('k, 'm) inbox" where
  "lease_discard n ib =
     (let l = ib_leases ib ! n in
      if \<not> ls_active l then ib
      else finishLease n (set_lease n (l\<lparr>ls_active := False,
        ls_entries := map discard_entry (ls_entries l)\<rparr>) ib))"

fun revokes :: "lease_status \<Rightarrow> bool" where
  "revokes RollingBack = True" | "revokes st = revocable st"

definition revoke_entry :: "'k \<Rightarrow> ('k, 'm) lease_entry \<Rightarrow> ('k, 'm) lease_entry" where
  "revoke_entry kind e =
     (if dl_kind (le_delivery e) \<noteq> kind then e
      else if revocable (le_status e) then e\<lparr>le_status := Revoked\<rparr>
      else if le_status e = RollingBack then e\<lparr>le_status := RollbackRevoked\<rparr>
      else e)"

definition lease_revoke :: "nat \<Rightarrow> 'k \<Rightarrow> ('k, 'm) inbox \<Rightarrow> ('k, 'm) delivery list \<times> ('k, 'm) inbox" where
  "lease_revoke n kind ib =
     (let l = ib_leases ib ! n in
      if \<not> ls_active l then ([], ib)
      else (map le_delivery (filter (\<lambda>e. dl_kind (le_delivery e) = kind \<and> revokes (le_status e)) (ls_entries l)),
        finishIfExhausted n (set_lease n (l\<lparr>ls_entries := map (revoke_entry kind) (ls_entries l)\<rparr>) ib)))"

definition listRevocable :: "('k, 'm) lease \<Rightarrow> 'k option \<Rightarrow> ('k, 'm) delivery list" where
  "listRevocable l kind =
     (if \<not> ls_active l then []
      else map le_delivery (filter (\<lambda>e. revocable (le_status e) \<and>
        (kind = None \<or> Some (dl_kind (le_delivery e)) = kind)) (ls_entries l)))"

definition lease_deliveries :: "('k, 'm) lease \<Rightarrow> ('k, 'm) delivery list" where
  "lease_deliveries l =
     (if \<not> ls_active l then []
      else map le_delivery (filter (\<lambda>e. le_status e = Leased) (ls_entries l)))"

definition lease_owns :: "('k, 'm) lease \<Rightarrow> string \<Rightarrow> bool" where
  "lease_owns l i =
     (case entry_index l i of
        None \<Rightarrow> False
      | Some k \<Rightarrow>
          let st = le_status (ls_entries l ! k) in st = Committing \<or> (ls_active l \<and> revocable st))"

definition canPrepare :: "('k, 'm) lease \<Rightarrow> string \<Rightarrow> bool" where
  "canPrepare l i =
     (ls_active l \<and> list_ex (\<lambda>e. dl_id (le_delivery e) = i \<and> le_status e = Leased) (ls_entries l))"

section \<open>The inbox\<close>

definition inbox_enqueue ::
    "string \<Rightarrow> 'k \<Rightarrow> 'm list \<Rightarrow> ('k, 'm) inbox \<Rightarrow> inbox_error + ('k, 'm) delivery \<times> ('k, 'm) inbox" where
  "inbox_enqueue i kind messages ib =
     (if i \<in> set (ib_issuedIds ib) then Inl (DuplicateDeliveryId i)
      else
        let d = \<lparr>dl_id = i, dl_kind = kind, dl_messages = messages, dl_sequence = ib_nextSequence ib,
                 dl_epoch = ib_resetGeneration ib\<rparr>
        in Inr (d, ib\<lparr>ib_issuedIds := ib_issuedIds ib @ [i], ib_nextSequence := ib_nextSequence ib + 1,
                      ib_pending := ib_pending ib @ [d]\<rparr>))"

definition inbox_select :: "'k \<Rightarrow> queue_mode \<Rightarrow> ('k, 'm) inbox \<Rightarrow> ('k, 'm) delivery list" where
  "inbox_select kind mode ib =
     (let matching = filter (\<lambda>d. dl_kind d = kind) (ib_pending ib) in
      if mode = AllAtOnce then matching else take 1 matching)"

fun selection_error ::
    "('k, 'm) delivery list \<Rightarrow> string set \<Rightarrow> ('k, 'm) delivery list \<Rightarrow> inbox_error option" where
  "selection_error pending selectedIds [] = None"
| "selection_error pending selectedIds (d # ds) =
     (if dl_id d \<in> selectedIds then Some (DuplicateSelection (dl_id d))
      else if d \<notin> set pending then Some (NotPending (dl_id d))
      else selection_error pending (insert (dl_id d) selectedIds) ds)"

text \<open>The selected deliveries of each kind are the first pending ones of that kind.\<close>

definition fifo_selection :: "('k, 'm) delivery list \<Rightarrow> ('k, 'm) delivery list \<Rightarrow> bool" where
  "fifo_selection pending ds \<longleftrightarrow>
     list_all (\<lambda>kind. let selected = filter (\<lambda>d. dl_kind d = kind) ds in
         take (length selected) (filter (\<lambda>d. dl_kind d = kind) pending) = selected) (map dl_kind ds)"

definition inbox_lease ::
    "('k, 'm) delivery list \<Rightarrow> ('k, 'm) inbox \<Rightarrow> inbox_error + nat \<times> ('k, 'm) inbox" where
  "inbox_lease ds ib =
     (if (case ib_activeLease ib of None \<Rightarrow> False | Some n \<Rightarrow> ls_active (ib_leases ib ! n))
      then Inl LeaseActive
      else case selection_error (ib_pending ib) {} ds of
        Some err \<Rightarrow> Inl err
      | None \<Rightarrow>
          if \<not> fifo_selection (ib_pending ib) ds then Inl FifoViolation
          else
            let claimed = filter (\<lambda>d. d \<in> set ds) (ib_pending ib);
                l = \<lparr>ls_entries = map (\<lambda>d. \<lparr>le_delivery = d, le_status = Leased, le_attemptId = None\<rparr>) claimed,
                     ls_active = True, ls_generation = ib_resetGeneration ib\<rparr>
            in Inr (length (ib_leases ib),
                 ib\<lparr>ib_pending := filter (\<lambda>d. d \<notin> set ds) (ib_pending ib),
                    ib_leases := ib_leases ib @ [l], ib_activeLease := Some (length (ib_leases ib))\<rparr>))"

definition inbox_revoke :: "'k \<Rightarrow> ('k, 'm) inbox \<Rightarrow> ('k, 'm) delivery list \<times> ('k, 'm) inbox" where
  "inbox_revoke kind ib =
     (let revoked = filter (\<lambda>d. dl_kind d = kind) (ib_pending ib);
          ib1 = ib\<lparr>ib_pending := filter (\<lambda>d. dl_kind d \<noteq> kind) (ib_pending ib)\<rparr>;
          (leased, ib2) = (case ib_activeLease ib1 of None \<Rightarrow> ([], ib1) | Some n \<Rightarrow> lease_revoke n kind ib1)
      in (sort_key dl_sequence (revoked @ leased), ib2))"

definition inbox_withdraw :: "string \<Rightarrow> ('k, 'm) inbox \<Rightarrow> ('k, 'm) delivery option \<times> ('k, 'm) inbox" where
  "inbox_withdraw i ib =
     (case find (\<lambda>d. dl_id d = i) (ib_pending ib) of
        None \<Rightarrow> (None, ib)
      | Some d \<Rightarrow> (Some d, ib\<lparr>ib_pending := filter (\<lambda>x. x \<noteq> d) (ib_pending ib)\<rparr>))"

definition inbox_list :: "'k option \<Rightarrow> ('k, 'm) inbox \<Rightarrow> ('k, 'm) delivery list" where
  "inbox_list kind ib =
     sort_key dl_sequence (filter (\<lambda>d. kind = None \<or> Some (dl_kind d) = kind) (ib_pending ib) @
       (case ib_activeLease ib of None \<Rightarrow> [] | Some n \<Rightarrow> listRevocable (ib_leases ib ! n) kind))"

definition rollbackActiveLease :: "('k, 'm) inbox \<Rightarrow> ('k, 'm) delivery list \<times> ('k, 'm) inbox" where
  "rollbackActiveLease ib =
     (case ib_activeLease ib of None \<Rightarrow> ([], ib) | Some n \<Rightarrow> lease_rollback n ib)"

definition inbox_reset :: "('k, 'm) inbox \<Rightarrow> ('k, 'm) inbox" where
  "inbox_reset ib =
     (let ib1 = ib\<lparr>ib_resetGeneration := ib_resetGeneration ib + 1\<rparr>;
          ib2 = (case ib_activeLease ib1 of None \<Rightarrow> ib1 | Some n \<Rightarrow> lease_discard n ib1)
      in ib2\<lparr>ib_pending := [], ib_activeLease := None\<rparr>)"

definition hasPending :: "'k option \<Rightarrow> ('k, 'm) inbox \<Rightarrow> bool" where
  "hasPending kind ib \<longleftrightarrow> inbox_list kind ib \<noteq> []"

section \<open>Where a delivery is\<close>

text \<open>
  A delivery has a token while it is pending, held by a lease entry that is not settled, or committed.
  The inbox never has two tokens of one delivery.
\<close>

fun keeps_token :: "lease_status \<Rightarrow> bool" where
  "keeps_token DeliveryCommitted = True" | "keeps_token st = unsettled st"

definition entry_token :: "('k, 'm) lease_entry \<Rightarrow> string multiset" where
  "entry_token e = (if keeps_token (le_status e) then {#dl_id (le_delivery e)#} else {#})"

definition lease_tokens :: "('k, 'm) lease \<Rightarrow> string multiset" where
  "lease_tokens l = sum_list (map entry_token (ls_entries l))"

definition tokens :: "('k, 'm) inbox \<Rightarrow> string multiset" where
  "tokens ib = mset (map dl_id (ib_pending ib)) + sum_list (map lease_tokens (ib_leases ib))"

definition issued_ok :: "('k, 'm) inbox \<Rightarrow> ('k, 'm) delivery \<Rightarrow> bool" where
  "issued_ok ib d \<longleftrightarrow>
     dl_sequence d < length (ib_issuedIds ib) \<and> ib_issuedIds ib ! dl_sequence d = dl_id d"

definition lease_ok :: "('k, 'm) inbox \<Rightarrow> ('k, 'm) lease \<Rightarrow> bool" where
  "lease_ok ib l \<longleftrightarrow>
     (\<forall>e\<in>set (ls_entries l). issued_ok ib (le_delivery e) \<and> dl_epoch (le_delivery e) = ls_generation l)"

definition active_ok :: "('k, 'm) inbox \<Rightarrow> bool" where
  "active_ok ib \<longleftrightarrow>
     (\<forall>n. ib_activeLease ib = Some n \<longrightarrow> n < length (ib_leases ib)) \<and>
     (\<forall>n < length (ib_leases ib). ls_active (ib_leases ib ! n) \<longrightarrow> ib_activeLease ib = Some n)"

definition inbox_ok :: "('k, 'm) inbox \<Rightarrow> bool" where
  "inbox_ok ib \<longleftrightarrow>
     distinct (ib_issuedIds ib) \<and> ib_nextSequence ib = length (ib_issuedIds ib) \<and>
     (\<forall>d\<in>set (ib_pending ib). issued_ok ib d \<and> dl_epoch d = ib_resetGeneration ib) \<and>
     (\<forall>l\<in>set (ib_leases ib). lease_ok ib l) \<and>
     (\<forall>i. count (tokens ib) i \<le> 1) \<and> sorted_by dl_sequence (ib_pending ib) \<and> active_ok ib"

lemma inbox_okD:
  assumes "inbox_ok ib"
  shows "distinct (ib_issuedIds ib)" "ib_nextSequence ib = length (ib_issuedIds ib)"
    "d \<in> set (ib_pending ib) \<Longrightarrow> issued_ok ib d" "d \<in> set (ib_pending ib) \<Longrightarrow> dl_epoch d = ib_resetGeneration ib"
    "l \<in> set (ib_leases ib) \<Longrightarrow> lease_ok ib l" "count (tokens ib) i \<le> 1"
    "sorted_by dl_sequence (ib_pending ib)" "active_ok ib"
  using assms unfolding inbox_ok_def by blast+

lemma active_okD:
  assumes "active_ok ib"
  shows "ib_activeLease ib = Some n \<Longrightarrow> n < length (ib_leases ib)"
    "n < length (ib_leases ib) \<Longrightarrow> ls_active (ib_leases ib ! n) \<Longrightarrow> ib_activeLease ib = Some n"
  using assms unfolding active_ok_def by blast+

lemma active_ok_same:
  assumes "active_ok ib" and "ib_leases ib' = ib_leases ib" and "ib_activeLease ib' = ib_activeLease ib"
  shows "active_ok ib'"
  using assms(1) unfolding active_ok_def assms(2,3) .

lemma sum_list_update:
  fixes g :: "'a \<Rightarrow> 'b multiset"
  assumes "n < length xs"
  shows "sum_list (map g (xs[n := y])) + g (xs ! n) = sum_list (map g xs) + g y"
  using assms
proof (induction xs arbitrary: n)
  case (Cons x xs)
  then show ?case by (cases n) (simp_all add: ac_simps)
qed simp

lemma sum_list_mono_mset:
  fixes f g :: "'a \<Rightarrow> 'b multiset"
  assumes "\<And>x. x \<in> set xs \<Longrightarrow> f x \<subseteq># g x"
  shows "sum_list (map f xs) \<subseteq># sum_list (map g xs)"
  using assms by (induction xs) (simp_all add: subset_mset.add_mono)

text \<open>Distinct ids give distinct sequence numbers.\<close>

lemma issued_inj: "distinct (ib_issuedIds ib) \<Longrightarrow> issued_ok ib d \<Longrightarrow> issued_ok ib d' \<Longrightarrow>
    dl_sequence d = dl_sequence d' \<Longrightarrow> dl_id d = dl_id d'"
  by (simp add: issued_ok_def)

lemma count_le_1_distinct: "(\<forall>i. count (mset xs) i \<le> 1) \<longleftrightarrow> distinct xs"
proof (induction xs)
  case (Cons x xs)
  have "(\<forall>i. count (mset (x # xs)) i \<le> 1) \<longleftrightarrow> x \<notin> set xs \<and> (\<forall>i. count (mset xs) i \<le> 1)"
    by (auto simp: le_Suc_eq count_mset_0_iff split: if_splits)
  with Cons.IH show ?case by simp
qed simp

lemma distinct_sequences:
  assumes "distinct (ib_issuedIds ib)" and "\<forall>d\<in>set ds. issued_ok ib d" and "\<forall>i. count (mset (map dl_id ds)) i \<le> 1"
  shows "distinct (map dl_sequence ds)"
proof -
  have "distinct (map dl_id ds)" using assms(3) count_le_1_distinct by blast
  then show ?thesis
    using assms(1,2) issued_inj [OF assms(1)] by (auto simp: distinct_map inj_on_def)
qed

section \<open>The invariant is kept\<close>

lemma inbox_ok_change:
  assumes ok: "inbox_ok ib"
    and same: "ib_issuedIds ib' = ib_issuedIds ib" "ib_nextSequence ib' = ib_nextSequence ib"
    and pend: "\<And>d. d \<in> set (ib_pending ib') \<Longrightarrow> issued_ok ib d \<and> dl_epoch d = ib_resetGeneration ib'"
    and leases: "\<And>l. l \<in> set (ib_leases ib') \<Longrightarrow> lease_ok ib l"
    and tok: "tokens ib' \<subseteq># tokens ib" and sorted: "sorted_by dl_sequence (ib_pending ib')"
    and active: "active_ok ib'"
  shows "inbox_ok ib'"
proof -
  have "count (tokens ib') i \<le> 1" for i
    using mset_subset_eq_count [OF tok, of i] inbox_okD(6) [OF ok, of i] by linarith
  moreover have "issued_ok ib' d = issued_ok ib d" for d using same by (simp add: issued_ok_def)
  moreover have "lease_ok ib' l = lease_ok ib l" for l using same by (simp add: lease_ok_def issued_ok_def)
  moreover have "distinct (ib_issuedIds ib')" "ib_nextSequence ib' = length (ib_issuedIds ib')"
    using inbox_okD(1,2) [OF ok] same by simp_all
  ultimately show ?thesis
    unfolding inbox_ok_def using pend leases sorted active by blast
qed

lemma set_lease_sel [simp]:
  "ib_pending (set_lease n l ib) = ib_pending ib" "ib_issuedIds (set_lease n l ib) = ib_issuedIds ib"
  "ib_nextSequence (set_lease n l ib) = ib_nextSequence ib"
  "ib_resetGeneration (set_lease n l ib) = ib_resetGeneration ib"
  "ib_activeLease (set_lease n l ib) = ib_activeLease ib"
  "ib_leases (set_lease n l ib) = (ib_leases ib)[n := l]"
  by (simp_all add: set_lease_def)

lemma tokens_set_lease:
  assumes "n < length (ib_leases ib)"
  shows "tokens (set_lease n l ib) + lease_tokens (ib_leases ib ! n) = tokens ib + lease_tokens l"
  using sum_list_update [OF assms, of lease_tokens l] by (simp add: tokens_def ac_simps)

text \<open>A lease whose entries keep their deliveries and only give up tokens.\<close>

definition lease_le :: "('k, 'm) lease \<Rightarrow> ('k, 'm) lease \<Rightarrow> bool" where
  "lease_le l' l \<longleftrightarrow>
     map le_delivery (ls_entries l') = map le_delivery (ls_entries l) \<and>
     ls_generation l' = ls_generation l \<and> (ls_active l' \<longrightarrow> ls_active l) \<and>
     lease_tokens l' \<subseteq># lease_tokens l"

lemma lease_le_ok:
  assumes "lease_le l' l" and "lease_ok ib l"
  shows "lease_ok ib l'"
proof -
  have "le_delivery ` set (ls_entries l') = le_delivery ` set (ls_entries l)"
    using assms(1) unfolding lease_le_def by (metis list.set_map)
  moreover have "ls_generation l' = ls_generation l" using assms(1) by (simp add: lease_le_def)
  ultimately show ?thesis using assms(2) unfolding lease_ok_def by (metis (no_types, lifting) imageE imageI)
qed

lemma set_lease_ok:
  assumes ok: "inbox_ok ib" and n: "n < length (ib_leases ib)" and le: "lease_le l (ib_leases ib ! n)"
  shows "inbox_ok (set_lease n l ib)"
proof (rule inbox_ok_change [OF ok])
  fix d assume "d \<in> set (ib_pending (set_lease n l ib))"
  then show "issued_ok ib d \<and> dl_epoch d = ib_resetGeneration (set_lease n l ib)"
    using inbox_okD(3,4) [OF ok] by simp
next
  fix k assume "k \<in> set (ib_leases (set_lease n l ib))"
  then have "k = l \<or> k \<in> set (ib_leases ib)" using set_update_subset_insert by fastforce
  then show "lease_ok ib k" using lease_le_ok [OF le] inbox_okD(5) [OF ok] n by auto
next
  have "tokens (set_lease n l ib) + lease_tokens (ib_leases ib ! n) = tokens ib + lease_tokens l"
    using n by (rule tokens_set_lease)
  moreover have "lease_tokens l \<subseteq># lease_tokens (ib_leases ib ! n)" using le by (simp add: lease_le_def)
  ultimately show "tokens (set_lease n l ib) \<subseteq># tokens ib"
    by (metis subset_mset.add_le_cancel_right subset_mset.add_left_mono)
next
  have "ib_activeLease ib = Some m" if "m < length (ib_leases ib)" "ls_active ((ib_leases ib)[n := l] ! m)" for m
    using active_okD(2) [OF inbox_okD(8) [OF ok] that(1)] that(2) n le
    by (cases "m = n") (auto simp: lease_le_def)
  with active_okD(1) [OF inbox_okD(8) [OF ok]] show "active_ok (set_lease n l ib)"
    unfolding active_ok_def set_lease_sel length_list_update by blast
qed (use inbox_okD(7) [OF ok] in simp_all)

lemma entry_token_update:
  assumes "k < length (ls_entries l)" and "le_delivery e = le_delivery (ls_entries l ! k)"
    and "keeps_token (le_status e) \<Longrightarrow> keeps_token (le_status (ls_entries l ! k))"
  shows "lease_le (l\<lparr>ls_entries := (ls_entries l)[k := e]\<rparr>) l"
proof -
  have "sum_list (map entry_token ((ls_entries l)[k := e])) + entry_token (ls_entries l ! k) =
      sum_list (map entry_token (ls_entries l)) + entry_token e"
    using assms(1) by (rule sum_list_update)
  moreover have "entry_token e \<subseteq># entry_token (ls_entries l ! k)" using assms(2,3) by (simp add: entry_token_def)
  ultimately have "sum_list (map entry_token ((ls_entries l)[k := e])) \<subseteq># sum_list (map entry_token (ls_entries l))"
    by (metis subset_mset.add_le_cancel_right subset_mset.add_left_mono)
  moreover have "map le_delivery ((ls_entries l)[k := e]) = map le_delivery (ls_entries l)"
    using assms(1,2) by (metis list_update_id map_update)
  ultimately show ?thesis by (simp add: lease_le_def lease_tokens_def)
qed

lemma entry_tokens_map:
  assumes "\<And>e. e \<in> set (ls_entries l) \<Longrightarrow> le_delivery (f e) = le_delivery e \<and>
      (keeps_token (le_status (f e)) \<longrightarrow> keeps_token (le_status e))"
    and "ls_active l' \<longrightarrow> ls_active l" and "ls_generation l' = ls_generation l"
    and "ls_entries l' = map f (ls_entries l)"
  shows "lease_le l' l"
proof -
  have "sum_list (map (\<lambda>e. entry_token (f e)) (ls_entries l)) \<subseteq># sum_list (map entry_token (ls_entries l))"
    using assms(1) by (intro sum_list_mono_mset) (auto simp: entry_token_def)
  with assms show ?thesis by (simp add: lease_le_def lease_tokens_def o_def)
qed

lemma finishLease_ok:
  assumes "inbox_ok ib" and "n < length (ib_leases ib)" and "\<not> ls_active (ib_leases ib ! n)"
  shows "inbox_ok (finishLease n ib)"
proof (cases "ib_activeLease ib = Some n")
  case True
  have eq: "sort_key dl_sequence (ib_pending ib) = ib_pending ib"
    using sorted_by_sorted [OF inbox_okD(7) [OF assms(1)]] by (rule sort_key_id_if_sorted)
  have inactive: "\<not> ls_active (ib_leases ib ! m)" if "m < length (ib_leases ib)" for m
    using active_okD(2) [OF inbox_okD(8) [OF assms(1)] that] True assms(3) by auto
  have "inbox_ok (ib\<lparr>ib_activeLease := None\<rparr>)"
    by (rule inbox_ok_change [OF assms(1)])
      (use inbox_okD(3,4,5,7) [OF assms(1)] inactive in \<open>simp_all add: tokens_def active_ok_def\<close>)
  with True show ?thesis by (simp add: finishLease_def eq)
qed (use assms(1) in \<open>simp add: finishLease_def\<close>)

lemma finishIfExhausted_ok:
  assumes ok: "inbox_ok ib" and n: "n < length (ib_leases ib)"
  shows "inbox_ok (finishIfExhausted n ib)"
proof -
  let ?l = "(ib_leases ib ! n)\<lparr>ls_active := False\<rparr>"
  have "lease_le ?l (ib_leases ib ! n)" by (simp add: lease_le_def lease_tokens_def)
  from finishLease_ok [OF set_lease_ok [OF ok n this], of n] n have "inbox_ok (finishLease n (set_lease n ?l ib))"
    by simp
  with ok show ?thesis by (simp add: finishIfExhausted_def Let_def)
qed

text \<open>Settling an unsettled entry.\<close>

definition entry_at :: "('k, 'm) inbox \<Rightarrow> nat \<Rightarrow> nat \<Rightarrow> ('k, 'm) lease_entry" where
  "entry_at ib n k = ls_entries (ib_leases ib ! n) ! k"

definition has_entry :: "('k, 'm) inbox \<Rightarrow> nat \<Rightarrow> nat \<Rightarrow> bool" where
  "has_entry ib n k \<longleftrightarrow> n < length (ib_leases ib) \<and> k < length (ls_entries (ib_leases ib ! n))"

lemma set_status_ok:
  assumes "inbox_ok ib" and "has_entry ib n k"
    and "keeps_token st \<Longrightarrow> keeps_token (le_status (entry_at ib n k))"
  shows "inbox_ok (set_status n k st ib)"
  unfolding set_status_def Let_def
  using assms by (intro set_lease_ok entry_token_update) (auto simp: has_entry_def entry_at_def)

lemma set_status_sel [simp]:
  "ib_pending (set_status n k st ib) = ib_pending ib"
  "ib_resetGeneration (set_status n k st ib) = ib_resetGeneration ib"
  "length (ib_leases (set_status n k st ib)) = length (ib_leases ib)"
  by (simp_all add: set_status_def Let_def)

lemma tokens_set_status:
  assumes "has_entry ib n k" and "keeps_token (le_status (entry_at ib n k))" and "\<not> keeps_token st"
  shows "tokens ib = tokens (set_status n k st ib) + {#dl_id (le_delivery (entry_at ib n k))#}"
proof -
  let ?l = "ib_leases ib ! n" and ?e = "(entry_at ib n k)\<lparr>le_status := st\<rparr>"
  let ?l' = "?l\<lparr>ls_entries := (ls_entries ?l)[k := ?e]\<rparr>"
  have "lease_tokens ?l' + entry_token (entry_at ib n k) = lease_tokens ?l + entry_token ?e"
    using sum_list_update [of k "ls_entries ?l" entry_token ?e] assms(1)
    by (simp add: lease_tokens_def has_entry_def entry_at_def)
  then have "lease_tokens ?l = lease_tokens ?l' + {#dl_id (le_delivery (entry_at ib n k))#}"
    using assms(2,3) by (simp add: entry_token_def)
  moreover have "tokens (set_lease n ?l' ib) + lease_tokens ?l = tokens ib + lease_tokens ?l'"
    using assms(1) by (intro tokens_set_lease) (simp add: has_entry_def)
  ultimately show ?thesis by (simp add: set_status_def Let_def entry_at_def)
qed

lemma restore_ok:
  assumes ok: "inbox_ok ib" and h: "has_entry ib n k" and held: "keeps_token (le_status (entry_at ib n k))"
  shows "inbox_ok (restoreSettlement (ls_generation (ib_leases ib ! n)) (le_delivery (entry_at ib n k))
    (set_status n k Restored ib))"
proof (cases "ib_resetGeneration ib = ls_generation (ib_leases ib ! n)")
  case False
  with set_status_ok [OF ok h, of Restored] show ?thesis by (simp add: restoreSettlement_def)
next
  case True
  let ?d = "le_delivery (entry_at ib n k)" and ?ib = "set_status n k Restored ib"
  have ok1: "inbox_ok ?ib" using set_status_ok [OF ok h, of Restored] by simp
  have lok: "lease_ok ib (ib_leases ib ! n)" using inbox_okD(5) [OF ok] h by (simp add: has_entry_def)
  have d: "issued_ok ib ?d" "dl_epoch ?d = ib_resetGeneration ib"
    using lok h True by (auto simp: lease_ok_def has_entry_def entry_at_def)
  let ?ib2 = "?ib\<lparr>ib_pending := sort_key dl_sequence (?d # ib_pending ib)\<rparr>"
  have tok: "tokens ?ib2 = tokens ib"
    using tokens_set_status [OF h held, of Restored] by (simp add: tokens_def)
  have "count (mset (map dl_id (?d # ib_pending ib))) i \<le> 1" for i
  proof -
    have "mset (map dl_id (?d # ib_pending ib)) = mset (map dl_id (ib_pending ?ib2))" by simp
    then have "mset (map dl_id (?d # ib_pending ib)) \<subseteq># tokens ?ib2"
      unfolding tokens_def by (metis mset_subset_eq_add_left)
    then have "mset (map dl_id (?d # ib_pending ib)) \<subseteq># tokens ib" using tok by simp
    from mset_subset_eq_count [OF this, of i] inbox_okD(6) [OF ok, of i] show ?thesis by linarith
  qed
  then have "distinct (map dl_sequence (?d # ib_pending ib))"
    using inbox_okD(1,3) [OF ok] d(1) by (intro distinct_sequences [of ib]) auto
  from sorted_by_sort_key [OF this] have "sorted_by dl_sequence (ib_pending ?ib2)" by simp
  moreover have "issued_ok ib x \<and> dl_epoch x = ib_resetGeneration ib" if "x \<in> set (ib_pending ?ib2)" for x
    using that inbox_okD(3,4) [OF ok] d by (auto simp: set_insort_key)
  moreover have "lease_ok ib l" if "l \<in> set (ib_leases ?ib)" for l
    using inbox_okD(5) [OF ok1 that] by (simp add: lease_ok_def issued_ok_def set_status_def Let_def)
  ultimately have "inbox_ok ?ib2"
    using tok active_ok_same [OF inbox_okD(8) [OF ok1], of ?ib2]
    by (intro inbox_ok_change [OF ok]) (simp_all add: set_status_def Let_def)
  with True show ?thesis by (simp add: restoreSettlement_def)
qed

lemma settle_entry_ok:
  assumes "inbox_ok ib" and "has_entry ib n k" and "keeps_token (le_status (entry_at ib n k))"
  shows "inbox_ok (settle_entry n k st ib)"
proof -
  have "length (ib_leases (restoreSettlement g d x)) = length (ib_leases x)" for g d and x :: "('a, 'b) inbox"
    by (simp add: restoreSettlement_def)
  then show ?thesis
    using assms restore_ok [OF assms] set_status_ok [OF assms(1,2), of st]
    by (auto simp: settle_entry_def Let_def entry_at_def has_entry_def intro!: finishIfExhausted_ok)
qed

section \<open>Every operation keeps the invariant\<close>

lemma entry_index_has:
  assumes "entry_index (ib_leases ib ! n) i = Some k" and "n < length (ib_leases ib)"
  shows "has_entry ib n k" "dl_id (le_delivery (entry_at ib n k)) = i"
  using find_index_less assms by (fastforce simp: entry_index_def has_entry_def entry_at_def)+

lemma lease_prepare_ok:
  "inbox_ok ib \<Longrightarrow> n < length (ib_leases ib) \<Longrightarrow> lease_prepare n i attempt ib = (r, ib') \<Longrightarrow> inbox_ok ib'"
  using entry_index_has(1) [of ib n i]
  by (fastforce simp: lease_prepare_def Let_def has_entry_def entry_at_def
      split: if_splits option.splits intro!: set_lease_ok entry_token_update)

lemma completePreparation_ok:
  "inbox_ok ib \<Longrightarrow> n < length (ib_leases ib) \<Longrightarrow> completePreparation n i attempt out ib = (r, ib') \<Longrightarrow> inbox_ok ib'"
  using entry_index_has(1) [of ib n i]
  by (fastforce simp: completePreparation_def Let_def entry_at_def [symmetric]
      split: if_splits option.splits preparation.splits intro!: set_status_ok settle_entry_ok)

lemma beginCommit_ok:
  "inbox_ok ib \<Longrightarrow> n < length (ib_leases ib) \<Longrightarrow> beginCommit n i attempt ib = (r, ib') \<Longrightarrow> inbox_ok ib'"
  using entry_index_has(1) [of ib n i]
  by (fastforce simp: beginCommit_def Let_def entry_at_def [symmetric]
      split: if_splits option.splits intro!: set_status_ok)

lemma settleCommit_ok:
  "inbox_ok ib \<Longrightarrow> n < length (ib_leases ib) \<Longrightarrow> settleCommit n i attempt out ib = (r, ib') \<Longrightarrow> inbox_ok ib'"
  using entry_index_has(1) [of ib n i]
  by (fastforce simp: settleCommit_def Let_def entry_at_def [symmetric]
      split: if_splits option.splits intro!: settle_entry_ok)

lemma settleRollback_ok:
  "inbox_ok ib \<Longrightarrow> n < length (ib_leases ib) \<Longrightarrow> settleRollback n i retained ib = (r, ib') \<Longrightarrow> inbox_ok ib'"
  using entry_index_has(1) [of ib n i]
  by (fastforce simp: settleRollback_def Let_def entry_at_def [symmetric]
      split: if_splits option.splits intro!: settle_entry_ok)

lemma revocable_keeps: "revocable st \<Longrightarrow> keeps_token st"
  by (cases st) auto

lemma lease_rollback_ok:
  assumes "inbox_ok ib" and "n < length (ib_leases ib)" and "lease_rollback n ib = (r, ib')"
  shows "inbox_ok ib'"
proof -
  let ?l = "(ib_leases ib ! n)\<lparr>ls_entries := map rollback_entry (ls_entries (ib_leases ib ! n))\<rparr>"
  have "lease_le ?l (ib_leases ib ! n)"
    by (rule entry_tokens_map [where f = rollback_entry]) (auto simp: rollback_entry_def revocable_keeps)
  from set_lease_ok [OF assms(1,2) this] assms(2) have "inbox_ok (finishIfExhausted n (set_lease n ?l ib))"
    by (intro finishIfExhausted_ok) simp_all
  with assms(1,3) show ?thesis by (auto simp: lease_rollback_def Let_def split: if_splits)
qed

lemma lease_revoke_ok:
  assumes "inbox_ok ib" and "n < length (ib_leases ib)" and "lease_revoke n kind ib = (r, ib')"
  shows "inbox_ok ib'"
proof -
  let ?l = "(ib_leases ib ! n)\<lparr>ls_entries := map (revoke_entry kind) (ls_entries (ib_leases ib ! n))\<rparr>"
  have "lease_le ?l (ib_leases ib ! n)"
    by (rule entry_tokens_map [where f = "revoke_entry kind"]) (auto simp: revoke_entry_def)
  from set_lease_ok [OF assms(1,2) this] assms(2) have "inbox_ok (finishIfExhausted n (set_lease n ?l ib))"
    by (intro finishIfExhausted_ok) simp_all
  with assms(1,3) show ?thesis by (auto simp: lease_revoke_def Let_def split: if_splits)
qed

text \<open>Dropping pending deliveries.\<close>

lemma pending_filter_ok:
  assumes "inbox_ok ib"
  shows "inbox_ok (ib\<lparr>ib_pending := filter P (ib_pending ib)\<rparr>)"
proof (rule inbox_ok_change [OF assms])
  show "tokens (ib\<lparr>ib_pending := filter P (ib_pending ib)\<rparr>) \<subseteq># tokens ib"
    by (simp add: tokens_def image_mset_subseteq_mono)
  show "active_ok (ib\<lparr>ib_pending := filter P (ib_pending ib)\<rparr>)"
    using inbox_okD(8) [OF assms] by (rule active_ok_same) simp_all
qed (use inbox_okD(3,4,5,7) [OF assms] in \<open>auto simp: sorted_by_filter\<close>)

lemma inbox_revoke_ok: "inbox_ok ib \<Longrightarrow> inbox_revoke kind ib = (r, ib') \<Longrightarrow> inbox_ok ib'"
  using pending_filter_ok [of ib "\<lambda>d. dl_kind d \<noteq> kind"] active_okD(1) [OF inbox_okD(8), of ib] lease_revoke_ok
  by (fastforce simp: inbox_revoke_def Let_def split: option.splits prod.splits)

lemma inbox_withdraw_ok: "inbox_ok ib \<Longrightarrow> inbox_withdraw i ib = (r, ib') \<Longrightarrow> inbox_ok ib'"
  using pending_filter_ok [of ib] by (auto simp: inbox_withdraw_def split: option.splits)

lemma rollbackActiveLease_ok: "inbox_ok ib \<Longrightarrow> rollbackActiveLease ib = (r, ib') \<Longrightarrow> inbox_ok ib'"
  using active_okD(1) [OF inbox_okD(8), of ib] lease_rollback_ok by (auto simp: rollbackActiveLease_def split: option.splits)

lemma inbox_enqueue_ok:
  assumes ok: "inbox_ok ib" and enq: "inbox_enqueue i kind ms ib = Inr (d, ib')"
  shows "inbox_ok ib'"
proof -
  from enq have fresh: "i \<notin> set (ib_issuedIds ib)"
    and d: "d = \<lparr>dl_id = i, dl_kind = kind, dl_messages = ms, dl_sequence = ib_nextSequence ib,
                 dl_epoch = ib_resetGeneration ib\<rparr>"
    and ib': "ib' = ib\<lparr>ib_issuedIds := ib_issuedIds ib @ [i], ib_nextSequence := ib_nextSequence ib + 1,
                      ib_pending := ib_pending ib @ [d]\<rparr>"
    by (auto simp: inbox_enqueue_def Let_def split: if_splits)
  have keep: "issued_ok ib' x" if "issued_ok ib x" for x
    using that by (simp add: issued_ok_def ib' nth_append)
  have tokm: "x \<in> set (ib_issuedIds ib)" if "x \<in># tokens ib" for x
  proof -
    have "x \<in> dl_id ` set (ib_pending ib) \<or> (\<exists>l\<in>set (ib_leases ib). x \<in># lease_tokens l)"
      using that by (auto simp: tokens_def)
    then obtain y where "issued_ok ib y" "dl_id y = x"
      using inbox_okD(3,5) [OF ok]
      by (auto simp: lease_tokens_def lease_ok_def entry_token_def split: if_splits)
    then show ?thesis by (auto simp: issued_ok_def in_set_conv_nth)
  qed
  have tok: "tokens ib' = tokens ib + {#i#}" by (simp add: tokens_def ib' d)
  have cnt: "count (tokens ib') j \<le> 1" for j
  proof (cases "j = i")
    case True
    have "count (tokens ib) i = 0" using tokm [of i] fresh by (meson count_eq_zero_iff)
    with True tok show ?thesis by simp
  qed (use inbox_okD(6) [OF ok, of j] tok in simp)
  have "sorted_by dl_sequence (ib_pending ib')"
    using inbox_okD(2,3,7) [OF ok] by (auto simp: ib' d sorted_by_append issued_ok_def)
  moreover have "issued_ok ib' d" using inbox_okD(2) [OF ok] by (simp add: issued_ok_def ib' d)
  moreover have "lease_ok ib' l" if "l \<in> set (ib_leases ib)" for l
    using inbox_okD(5) [OF ok that] keep by (auto simp: lease_ok_def)
  moreover have "active_ok ib'" using inbox_okD(8) [OF ok] by (rule active_ok_same) (simp_all add: ib')
  ultimately show ?thesis
    unfolding inbox_ok_def
    using inbox_okD(1,2,3,4) [OF ok] cnt fresh keep by (auto simp: ib' d)
qed

lemma inbox_lease_ok:
  assumes ok: "inbox_ok ib" and ls: "inbox_lease ds ib = Inr (n, ib')"
  shows "inbox_ok ib'"
proof -
  let ?claimed = "filter (\<lambda>d. d \<in> set ds) (ib_pending ib)"
  let ?l = "\<lparr>ls_entries = map (\<lambda>d. \<lparr>le_delivery = d, le_status = Leased, le_attemptId = None\<rparr>) ?claimed,
                     ls_active = True, ls_generation = ib_resetGeneration ib\<rparr>"
  from ls have free: "\<not> (case ib_activeLease ib of None \<Rightarrow> False | Some n \<Rightarrow> ls_active (ib_leases ib ! n))"
    and ib': "ib' = ib\<lparr>ib_pending := filter (\<lambda>d. d \<notin> set ds) (ib_pending ib),
                    ib_leases := ib_leases ib @ [?l], ib_activeLease := Some (length (ib_leases ib))\<rparr>"
    by (auto simp: inbox_lease_def Let_def split: if_splits option.splits)
  have inactive: "\<not> ls_active (ib_leases ib ! m)" if "m < length (ib_leases ib)" for m
    using active_okD(2) [OF inbox_okD(8) [OF ok] that] free by (auto split: option.splits)
  have leased: "sum_list (map (entry_token \<circ> (\<lambda>d. \<lparr>le_delivery = d, le_status = Leased, le_attemptId = None\<rparr>)) xs) =
      mset (map dl_id xs)" for xs :: "('a, 'b) delivery list"
    by (induction xs) (simp_all add: entry_token_def)
  have split: "mset (map dl_id xs) = mset (map dl_id (filter (\<lambda>d. d \<notin> set ds) xs)) +
      mset (map dl_id (filter (\<lambda>d. d \<in> set ds) xs))" for xs :: "('a, 'b) delivery list"
    by (induction xs) simp_all
  have tok: "tokens ib' = tokens ib"
    using leased [of ?claimed] split [of "ib_pending ib"] by (simp add: ib' tokens_def lease_tokens_def ac_simps)
  show ?thesis
  proof (rule inbox_ok_change [OF ok])
    show "active_ok ib'" using inactive by (auto simp: active_ok_def ib' nth_append less_Suc_eq)
    show "\<And>l. l \<in> set (ib_leases ib') \<Longrightarrow> lease_ok ib l"
      using inbox_okD(3,4,5) [OF ok] by (auto simp: ib' lease_ok_def)
  qed (use inbox_okD(3,4,7) [OF ok] tok in \<open>auto simp: ib' sorted_by_filter\<close>)
qed

lemma inbox_reset_ok:
  assumes ok: "inbox_ok ib"
  shows "inbox_ok (inbox_reset ib)"
proof -
  let ?ib = "ib\<lparr>ib_resetGeneration := ib_resetGeneration ib + 1, ib_pending := []\<rparr>"
  have ok1: "inbox_ok ?ib"
  proof (rule inbox_ok_change [OF ok])
    show "active_ok ?ib" using inbox_okD(8) [OF ok] by (rule active_ok_same) simp_all
  qed (use inbox_okD(5) [OF ok] in \<open>auto simp: tokens_def\<close>)
  show ?thesis
  proof (cases "ib_activeLease ib")
    case None
    then have "inbox_reset ib = ?ib" by (simp add: inbox_reset_def Let_def)
    with ok1 show ?thesis by simp
  next
    case (Some n)
    let ?l = "(ib_leases ib ! n)\<lparr>ls_active := False, ls_entries := map discard_entry (ls_entries (ib_leases ib ! n))\<rparr>"
    have n: "n < length (ib_leases ib)" using active_okD(1) [OF inbox_okD(8) [OF ok] Some] .
    have le: "lease_le ?l (ib_leases ?ib ! n)"
      by (rule entry_tokens_map [where f = discard_entry]) (auto simp: discard_entry_def)
    have ok2: "inbox_ok (finishLease n (set_lease n ?l ?ib))"
      using set_lease_ok [OF ok1 _ le] n by (intro finishLease_ok) simp_all
    have ok3: "inbox_ok (finishLease n ?ib)" if "\<not> ls_active (ib_leases ib ! n)"
      using ok1 n that by (intro finishLease_ok) simp_all
    have "inbox_reset ib = (if ls_active (ib_leases ib ! n) then finishLease n (set_lease n ?l ?ib)
        else finishLease n ?ib)"
      using Some by (simp add: inbox_reset_def Let_def lease_discard_def finishLease_def set_lease_def)
    with ok2 ok3 show ?thesis by simp
  qed
qed

lemma empty_inbox_ok: "inbox_ok empty_inbox"
  by (simp add: inbox_ok_def empty_inbox_def tokens_def active_ok_def)

section \<open>Runs\<close>

text \<open>Any order of calls of the inbox and of the leases it handed out.\<close>

inductive inbox_step :: "('k, 'm) inbox \<Rightarrow> ('k, 'm) inbox \<Rightarrow> bool" where
  Enqueue: "inbox_enqueue i kind ms ib = Inr (d, ib') \<Longrightarrow> inbox_step ib ib'"
| Lease: "inbox_lease ds ib = Inr (n, ib') \<Longrightarrow> inbox_step ib ib'"
| Prepare: "n < length (ib_leases ib) \<Longrightarrow> lease_prepare n i attempt ib = (r, ib') \<Longrightarrow> inbox_step ib ib'"
| CompletePreparation: "n < length (ib_leases ib) \<Longrightarrow>
    completePreparation n i attempt prep ib = (r, ib') \<Longrightarrow> inbox_step ib ib'"
| BeginCommit: "n < length (ib_leases ib) \<Longrightarrow> beginCommit n i attempt ib = (r, ib') \<Longrightarrow> inbox_step ib ib'"
| SettleCommit: "n < length (ib_leases ib) \<Longrightarrow> settleCommit n i attempt out ib = (r, ib') \<Longrightarrow> inbox_step ib ib'"
| Rollback: "n < length (ib_leases ib) \<Longrightarrow> lease_rollback n ib = (ds, ib') \<Longrightarrow> inbox_step ib ib'"
| SettleRollback: "n < length (ib_leases ib) \<Longrightarrow> settleRollback n i retained ib = (r, ib') \<Longrightarrow> inbox_step ib ib'"
| RollbackActive: "rollbackActiveLease ib = (ds, ib') \<Longrightarrow> inbox_step ib ib'"
| Revoke: "inbox_revoke kind ib = (ds, ib') \<Longrightarrow> inbox_step ib ib'"
| Withdraw: "inbox_withdraw i ib = (r, ib') \<Longrightarrow> inbox_step ib ib'"
| Reset: "inbox_step ib (inbox_reset ib)"

lemma inbox_step_ok: "inbox_step ib ib' \<Longrightarrow> inbox_ok ib \<Longrightarrow> inbox_ok ib'"
  by (induction rule: inbox_step.induct)
    (blast intro: inbox_enqueue_ok inbox_lease_ok lease_prepare_ok completePreparation_ok beginCommit_ok
      settleCommit_ok lease_rollback_ok settleRollback_ok rollbackActiveLease_ok inbox_revoke_ok
      inbox_withdraw_ok inbox_reset_ok)+

lemma inbox_steps_ok: "inbox_step\<^sup>*\<^sup>* ib ib' \<Longrightarrow> inbox_ok ib \<Longrightarrow> inbox_ok ib'"
  by (induction rule: rtranclp_induct) (auto intro: inbox_step_ok)

section \<open>Committed deliveries stay committed\<close>

definition committed_at :: "('k, 'm) inbox \<Rightarrow> nat \<Rightarrow> nat \<Rightarrow> ('k, 'm) delivery \<Rightarrow> bool" where
  "committed_at ib n k d \<longleftrightarrow>
     has_entry ib n k \<and> le_status (entry_at ib n k) = DeliveryCommitted \<and> le_delivery (entry_at ib n k) = d"

text \<open>A change of the leases that keeps every committed entry.\<close>

definition keeps_committed :: "('k, 'm) inbox \<Rightarrow> ('k, 'm) inbox \<Rightarrow> bool" where
  "keeps_committed ib ib' \<longleftrightarrow> (\<forall>n k d. committed_at ib n k d \<longrightarrow> committed_at ib' n k d)"

lemma keeps_committed_refl: "keeps_committed ib ib"
  by (simp add: keeps_committed_def)

lemma keeps_committed_trans: "keeps_committed a b \<Longrightarrow> keeps_committed b c \<Longrightarrow> keeps_committed a c"
  by (simp add: keeps_committed_def)

lemma keeps_committed_leases:
  "ib_leases ib' = ib_leases ib \<Longrightarrow> keeps_committed ib ib'"
  by (simp add: keeps_committed_def committed_at_def has_entry_def entry_at_def)

lemma keeps_committed_set_lease:
  assumes "length (ls_entries l) = length (ls_entries (ib_leases ib ! n))"
    and "\<And>k. k < length (ls_entries l) \<Longrightarrow> le_status (entry_at ib n k) = DeliveryCommitted \<Longrightarrow>
      ls_entries l ! k = entry_at ib n k"
  shows "keeps_committed ib (set_lease n l ib)"
proof -
  have "committed_at (set_lease n l ib) m k d" if c: "committed_at ib m k d" for m k d
  proof (cases "m = n")
    case True
    with c assms show ?thesis by (simp add: committed_at_def has_entry_def entry_at_def)
  next
    case False
    with c show ?thesis by (simp add: committed_at_def has_entry_def entry_at_def)
  qed
  then show ?thesis by (simp add: keeps_committed_def)
qed

lemma keeps_committed_finish: "keeps_committed ib (finishLease n ib)" "keeps_committed ib (finishIfExhausted n ib)"
proof -
  show fin: "keeps_committed ib (finishLease n ib)" for ib :: "('a, 'b) inbox"
    by (rule keeps_committed_leases) (simp add: finishLease_def)
  show "keeps_committed ib (finishIfExhausted n ib)"
    by (auto simp: finishIfExhausted_def Let_def keeps_committed_refl entry_at_def
        intro: keeps_committed_trans [OF keeps_committed_set_lease fin])
qed

lemma keeps_committed_set_status:
  "le_status (entry_at ib n k) \<noteq> DeliveryCommitted \<Longrightarrow> keeps_committed ib (set_status n k st ib)"
  unfolding set_status_def Let_def
proof (rule keeps_committed_set_lease)
  fix j assume "le_status (entry_at ib n k) \<noteq> DeliveryCommitted" "le_status (entry_at ib n j) = DeliveryCommitted"
  then have "j \<noteq> k" by auto
  then show "ls_entries ((ib_leases ib ! n)\<lparr>ls_entries := (ls_entries (ib_leases ib ! n))
      [k := (ls_entries (ib_leases ib ! n) ! k)\<lparr>le_status := st\<rparr>]\<rparr>) ! j = entry_at ib n j"
    by (simp add: entry_at_def)
qed simp

lemma keeps_committed_settle:
  assumes "le_status (entry_at ib n k) \<noteq> DeliveryCommitted"
  shows "keeps_committed ib (settle_entry n k st ib)"
proof -
  have r: "keeps_committed x (restoreSettlement g d x)" for g d and x :: "('a, 'b) inbox"
    by (rule keeps_committed_leases) (simp add: restoreSettlement_def)
  note st = keeps_committed_set_status [OF assms]
  show ?thesis
    unfolding settle_entry_def Let_def
    by (rule keeps_committed_trans [OF _ keeps_committed_finish(2)])
      (auto intro: st keeps_committed_trans [OF st r])
qed

lemma keeps_committed_map:
  assumes "\<And>e. le_status e = DeliveryCommitted \<Longrightarrow> f e = e"
    and "ls_entries l = map f (ls_entries (ib_leases ib ! n))"
  shows "keeps_committed ib (set_lease n l ib)"
  by (rule keeps_committed_set_lease) (use assms in \<open>simp_all add: entry_at_def\<close>)

lemma keeps_committed_append:
  "ib_leases ib' = ib_leases ib @ ls \<Longrightarrow> keeps_committed ib ib'"
  by (simp add: keeps_committed_def committed_at_def has_entry_def entry_at_def nth_append)

lemma keeps_committed_map_finish:
  assumes "\<And>e. le_status e = DeliveryCommitted \<Longrightarrow> f e = e"
    and "ls_entries l = map f (ls_entries (ib_leases ib ! n))"
  shows "keeps_committed ib (finishIfExhausted n (set_lease n l ib))"
    "keeps_committed ib (finishLease n (set_lease n l ib))"
  using keeps_committed_trans [OF keeps_committed_map [OF assms]] keeps_committed_finish by blast+

lemma keeps_committed_lease_ops:
  "keeps_committed ib (snd (lease_rollback n ib))" "keeps_committed ib (snd (lease_revoke n kind ib))"
  "keeps_committed ib (lease_discard n ib)"
proof -
  have f: "le_status e = DeliveryCommitted \<Longrightarrow> rollback_entry e = e"
    "le_status e = DeliveryCommitted \<Longrightarrow> revoke_entry kind e = e"
    "le_status e = DeliveryCommitted \<Longrightarrow> discard_entry e = e" for e :: "('a, 'b) lease_entry"
    by (simp_all add: rollback_entry_def revoke_entry_def discard_entry_def)
  show "keeps_committed ib (snd (lease_rollback n ib))"
    using keeps_committed_map_finish(1) [OF f(1)] by (auto simp: lease_rollback_def Let_def keeps_committed_refl)
  show "keeps_committed ib (snd (lease_revoke n kind ib))"
    using keeps_committed_map_finish(1) [OF f(2)] by (auto simp: lease_revoke_def Let_def keeps_committed_refl)
  show "keeps_committed ib (lease_discard n ib)"
    using keeps_committed_map_finish(2) [OF f(3)] by (auto simp: lease_discard_def Let_def keeps_committed_refl)
qed

lemma inbox_step_committed:
  assumes "inbox_step ib ib'"
  shows "keeps_committed ib ib'"
  using assms
proof (induction rule: inbox_step.induct)
  case (Lease ds ib n ib')
  then show ?case
    by (auto simp: inbox_lease_def Let_def split: if_splits option.splits intro: keeps_committed_append)
next
  case (Prepare n ib i attempt r ib')
  then show ?case
    by (auto simp: lease_prepare_def Let_def keeps_committed_refl entry_at_def
        split: if_splits option.splits intro!: keeps_committed_set_lease)
      (metis lease_status.distinct(7) nth_list_update_neq)
next
  case (Revoke kind ib ds ib')
  let ?ib = "ib\<lparr>ib_pending := filter (\<lambda>d. dl_kind d \<noteq> kind) (ib_pending ib)\<rparr>"
  have "keeps_committed ib ?ib" by (rule keeps_committed_leases) simp
  note keep = this keeps_committed_trans [OF this keeps_committed_lease_ops(2)]
  have "ib' = (case ib_activeLease ib of None \<Rightarrow> ?ib | Some n \<Rightarrow> snd (lease_revoke n kind ?ib))"
    using Revoke by (auto simp: inbox_revoke_def Let_def split: option.splits prod.splits)
  with keep show ?case by (simp split: option.split)
next
  case (Reset ib)
  have a: "keeps_committed ib (ib\<lparr>ib_resetGeneration := Suc (ib_resetGeneration ib)\<rparr>)"
    by (rule keeps_committed_leases) simp
  have b: "keeps_committed x (x\<lparr>ib_pending := [], ib_activeLease := None\<rparr>)" for x :: "('a, 'b) inbox"
    by (rule keeps_committed_leases) simp
  show ?case
    unfolding inbox_reset_def Let_def
    by (rule keeps_committed_trans [OF _ b])
      (auto intro: a keeps_committed_trans [OF a keeps_committed_lease_ops(3)] split: option.split)
next
  case (RollbackActive ib ds ib')
  then show ?case
    using keeps_committed_lease_ops(1) [of ib] keeps_committed_refl
    by (auto simp: rollbackActiveLease_def split: option.splits) (metis snd_conv)
next
  case (Rollback n ib ds ib')
  then show ?case using keeps_committed_lease_ops(1) [of ib n] by simp
qed (auto simp: inbox_enqueue_def inbox_withdraw_def completePreparation_def beginCommit_def settleCommit_def
    settleRollback_def Let_def entry_at_def keeps_committed_refl
    split: if_splits option.splits preparation.splits
    intro!: keeps_committed_leases keeps_committed_settle keeps_committed_set_status)

text \<open>What a token in a lease takes from the rest of the inbox.\<close>

lemma sum_list_ge:
  fixes g :: "'a \<Rightarrow> 'b multiset"
  shows "k < length xs \<Longrightarrow> g (xs ! k) \<subseteq># sum_list (map g xs)"
  by (induction xs arbitrary: k)
    (auto simp: nth_Cons' less_Suc_eq_0_disj intro: subset_mset.add_increasing subset_mset.add_increasing2)

lemma sum_list_ge2:
  fixes g :: "'a \<Rightarrow> 'b multiset"
  assumes "k < length xs" and "j < length xs" and "k \<noteq> j"
  shows "g (xs ! k) + g (xs ! j) \<subseteq># sum_list (map g xs)"
  using assms
proof (induction xs arbitrary: k j)
  case (Cons x xs)
  show ?case
  proof (cases "k = 0 \<or> j = 0")
    case True
    with Cons.prems sum_list_ge [of "k - 1" xs g] sum_list_ge [of "j - 1" xs g] show ?thesis
      by (auto simp: nth_Cons' add.commute)
  next
    case False
    then have "g (xs ! (k - 1)) + g (xs ! (j - 1)) \<subseteq># sum_list (map g xs)"
      using Cons.prems by (intro Cons.IH) auto
    with False show ?thesis by (simp add: nth_Cons' subset_mset.add_increasing)
  qed
qed simp

lemma entry_in_lease:
  assumes "has_entry ib n k" and "keeps_token (le_status (entry_at ib n k))"
  shows "{#dl_id (le_delivery (entry_at ib n k))#} \<subseteq># lease_tokens (ib_leases ib ! n)"
  using sum_list_ge [of k "ls_entries (ib_leases ib ! n)" entry_token] assms
  by (simp add: lease_tokens_def has_entry_def entry_at_def entry_token_def)

lemma tokens_entry:
  assumes "has_entry ib n k" and "keeps_token (le_status (entry_at ib n k))"
  shows "mset (map dl_id (ib_pending ib)) + {#dl_id (le_delivery (entry_at ib n k))#} \<subseteq># tokens ib"
proof -
  have "lease_tokens (ib_leases ib ! n) \<subseteq># sum_list (map lease_tokens (ib_leases ib))"
    using assms(1) by (intro sum_list_ge) (simp add: has_entry_def)
  with entry_in_lease [OF assms] have "{#dl_id (le_delivery (entry_at ib n k))#} \<subseteq># sum_list (map lease_tokens (ib_leases ib))"
    by (rule subset_mset.order_trans)
  then show ?thesis by (simp only: tokens_def subset_mset.add_left_mono)
qed

lemma two_entries_tokens:
  assumes "has_entry ib n k" and "has_entry ib m j"
    and "keeps_token (le_status (entry_at ib n k))" and "keeps_token (le_status (entry_at ib m j))"
    and "(n, k) \<noteq> (m, j)"
  shows "{#dl_id (le_delivery (entry_at ib n k)), dl_id (le_delivery (entry_at ib m j))#} \<subseteq># tokens ib"
proof -
  let ?a = "{#dl_id (le_delivery (entry_at ib n k))#}" and ?b = "{#dl_id (le_delivery (entry_at ib m j))#}"
  have "?a + ?b \<subseteq># sum_list (map lease_tokens (ib_leases ib))"
  proof (cases "n = m")
    case True
    with assms have "?a + ?b \<subseteq># lease_tokens (ib_leases ib ! n)"
      using sum_list_ge2 [of k "ls_entries (ib_leases ib ! n)" j entry_token]
      by (simp add: lease_tokens_def has_entry_def entry_at_def entry_token_def)
    moreover have "lease_tokens (ib_leases ib ! n) \<subseteq># sum_list (map lease_tokens (ib_leases ib))"
      using assms(1) by (intro sum_list_ge) (simp add: has_entry_def)
    ultimately show ?thesis by (rule subset_mset.order_trans)
  next
    case False
    have "?a + ?b \<subseteq># lease_tokens (ib_leases ib ! n) + lease_tokens (ib_leases ib ! m)"
      using entry_in_lease [OF assms(1,3)] entry_in_lease [OF assms(2,4)] by (rule subset_mset.add_mono)
    moreover have "lease_tokens (ib_leases ib ! n) + lease_tokens (ib_leases ib ! m) \<subseteq># sum_list (map lease_tokens (ib_leases ib))"
      using False assms(1,2) by (intro sum_list_ge2) (simp_all add: has_entry_def)
    ultimately show ?thesis by (rule subset_mset.order_trans)
  qed
  then have "?a + ?b \<subseteq># tokens ib" unfolding tokens_def by (intro subset_mset.add_increasing) simp_all
  then show ?thesis by (simp add: add.commute)
qed

lemma finishIfExhausted_tokens:
  assumes "n < length (ib_leases ib)"
  shows "tokens (finishIfExhausted n ib) = tokens ib"
    "set (ib_pending (finishIfExhausted n ib)) = set (ib_pending ib)"
proof -
  let ?l = "(ib_leases ib ! n)\<lparr>ls_active := False\<rparr>"
  have "tokens (finishLease n x) = tokens x" "set (ib_pending (finishLease n x)) = set (ib_pending x)" for x :: "('a, 'b) inbox"
    by (simp_all add: finishLease_def tokens_def)
  moreover have "tokens (set_lease n ?l ib) = tokens ib"
    using tokens_set_lease [OF assms, of ?l] by (simp add: lease_tokens_def)
  ultimately show "tokens (finishIfExhausted n ib) = tokens ib"
    "set (ib_pending (finishIfExhausted n ib)) = set (ib_pending ib)"
    by (simp_all add: finishIfExhausted_def Let_def)
qed

section \<open>Properties\<close>

text \<open>
  C26: In every run of the inbox, whatever the order of its calls and of the calls on the leases it
  handed out, the pending deliveries are in strict admission order and of the current epoch, no
  delivery is in two places (pending, held by a lease, committed), and at most one lease is active.
\<close>

theorem inbox_never_duplicates:
  assumes "inbox_step\<^sup>*\<^sup>* empty_inbox ib"
  shows "sorted_by dl_sequence (ib_pending ib) \<and> (\<forall>d\<in>set (ib_pending ib). dl_epoch d = ib_resetGeneration ib) \<and>
    (\<forall>i. count (tokens ib) i \<le> 1) \<and>
    (\<forall>m n. m < length (ib_leases ib) \<longrightarrow> n < length (ib_leases ib) \<longrightarrow>
       ls_active (ib_leases ib ! m) \<longrightarrow> ls_active (ib_leases ib ! n) \<longrightarrow> m = n)"
proof -
  have ok: "inbox_ok ib" using inbox_steps_ok [OF assms empty_inbox_ok] .
  have "m = n" if "m < length (ib_leases ib)" "n < length (ib_leases ib)"
    "ls_active (ib_leases ib ! m)" "ls_active (ib_leases ib ! n)" for m n
    using active_okD(2) [OF inbox_okD(8) [OF ok]] that by (metis option.inject)
  with inbox_okD(4,6,7) [OF ok] show ?thesis by blast
qed

definition sample_inbox :: "(nat, string) inbox" where
  "sample_inbox = snd (projr (inbox_enqueue ''b'' 1 [''y''] (snd (projr (inbox_enqueue ''a'' 0 [''x''] empty_inbox)))))"

definition sample_leased :: "(nat, string) inbox" where
  "sample_leased = snd (projr (inbox_lease (inbox_select 0 OneAtATime sample_inbox) sample_inbox))"

definition sample_committed :: "(nat, string) inbox" where
  "sample_committed =
     snd (settleCommit 0 ''a'' ''t'' SettleCommitted (snd (beginCommit 0 ''a'' ''t''
       (snd (completePreparation 0 ''a'' ''t'' Prepared (snd (lease_prepare 0 ''a'' ''t'' sample_leased)))))))"

lemma sample_leased_run: "inbox_step\<^sup>*\<^sup>* empty_inbox sample_leased"
proof -
  have "inbox_step (empty_inbox :: (nat, string) inbox) (snd (projr (inbox_enqueue ''a'' 0 [''x''] empty_inbox)))"
    by (rule Enqueue [of "''a''" 0 "[''x'']" _ "fst (projr (inbox_enqueue ''a'' 0 [''x''] empty_inbox))"])
      (simp add: inbox_enqueue_def Let_def empty_inbox_def)
  moreover have "inbox_step (snd (projr (inbox_enqueue ''a'' 0 [''x''] empty_inbox))) sample_inbox"
    unfolding sample_inbox_def
    by (rule Enqueue [of "''b''" 1 "[''y'']" _
        "fst (projr (inbox_enqueue ''b'' 1 [''y''] (snd (projr (inbox_enqueue ''a'' 0 [''x''] empty_inbox)))))"])
      (simp add: inbox_enqueue_def Let_def empty_inbox_def)
  moreover have "inbox_step sample_inbox sample_leased"
    unfolding sample_leased_def
    by (rule Lease [of "inbox_select 0 OneAtATime sample_inbox" _ 0])
      (simp add: sample_inbox_def inbox_enqueue_def Let_def empty_inbox_def inbox_select_def inbox_lease_def
        fifo_selection_def)
  ultimately show ?thesis by (meson rtranclp.rtrancl_into_rtrancl rtranclp.rtrancl_refl)
qed

theorem inbox_never_duplicates_witness:
  "map dl_id (ib_pending sample_leased) = [''b''] \<and> sorted_by dl_sequence (ib_pending sample_leased) \<and>
   (\<forall>i. count (tokens sample_leased) i \<le> 1)"
proof -
  have "map dl_id (ib_pending sample_leased) = [''b'']" by code_simp
  with inbox_never_duplicates [OF sample_leased_run] show ?thesis by simp
qed

text \<open>
  C27: A committed delivery is delivered once. From the moment a lease entry is committed, whatever
  calls follow, it stays committed, its delivery never becomes pending again, and no other lease entry
  ever holds or commits that delivery.
\<close>

theorem committed_delivery_final:
  assumes "inbox_step\<^sup>*\<^sup>* empty_inbox ib" and "committed_at ib n k d" and "inbox_step\<^sup>*\<^sup>* ib ib'"
  shows "committed_at ib' n k d \<and> dl_id d \<notin> dl_id ` set (ib_pending ib') \<and>
    (\<forall>m j. has_entry ib' m j \<longrightarrow> keeps_token (le_status (entry_at ib' m j)) \<longrightarrow>
       dl_id (le_delivery (entry_at ib' m j)) = dl_id d \<longrightarrow> m = n \<and> j = k)"
proof -
  have ok: "inbox_ok ib'" using inbox_steps_ok [OF assms(3) inbox_steps_ok [OF assms(1) empty_inbox_ok]] .
  have com: "committed_at ib' n k d"
    using assms(3,2)
  proof (induction rule: rtranclp_induct)
    case (step y z)
    then show ?case using inbox_step_committed unfolding keeps_committed_def by blast
  qed
  then have h: "has_entry ib' n k" "keeps_token (le_status (entry_at ib' n k))"
    "dl_id (le_delivery (entry_at ib' n k)) = dl_id d" by (simp_all add: committed_at_def)
  have one: "count (tokens ib') (dl_id d) \<le> 1" using inbox_okD(6) [OF ok] .
  have "dl_id d \<notin> dl_id ` set (ib_pending ib')"
  proof
    assume "dl_id d \<in> dl_id ` set (ib_pending ib')"
    then have "0 < count (mset (map dl_id (ib_pending ib'))) (dl_id d)" by (simp add: count_greater_zero_iff)
    moreover have "count (mset (map dl_id (ib_pending ib'))) (dl_id d) + 1 \<le> count (tokens ib') (dl_id d)"
      using mset_subset_eq_count [OF tokens_entry [OF h(1,2)], of "dl_id d"] h(3) by simp
    ultimately show False using one by linarith
  qed
  moreover have "m = n \<and> j = k" if "has_entry ib' m j" "keeps_token (le_status (entry_at ib' m j))"
    "dl_id (le_delivery (entry_at ib' m j)) = dl_id d" for m j
  proof (rule ccontr)
    assume "\<not> (m = n \<and> j = k)"
    then have "(n, k) \<noteq> (m, j)" by auto
    from mset_subset_eq_count [OF two_entries_tokens [OF h(1) that(1) h(2) that(2) this], of "dl_id d"] h(3) that(3) one
    show False by simp
  qed
  ultimately show ?thesis using com by blast
qed

theorem committed_delivery_final_witness:
  "\<exists>d. committed_at sample_committed 0 0 d \<and> dl_id d = ''a'' \<and> dl_id d \<notin> dl_id ` set (ib_pending (inbox_reset sample_committed))"
proof -
  let ?i1 = "snd (lease_prepare 0 ''a'' ''t'' sample_leased)"
  let ?i2 = "snd (completePreparation 0 ''a'' ''t'' Prepared ?i1)"
  let ?i3 = "snd (beginCommit 0 ''a'' ''t'' ?i2)"
  have len: "0 < length (ib_leases sample_leased)" "0 < length (ib_leases ?i1)" "0 < length (ib_leases ?i2)"
    "0 < length (ib_leases ?i3)" by code_simp+
  have "inbox_step sample_leased ?i1" by (rule Prepare [OF len(1)]) (rule prod.collapse [symmetric])
  moreover have "inbox_step ?i1 ?i2" by (rule CompletePreparation [OF len(2)]) (rule prod.collapse [symmetric])
  moreover have "inbox_step ?i2 ?i3" by (rule BeginCommit [OF len(3)]) (rule prod.collapse [symmetric])
  moreover have "inbox_step ?i3 sample_committed"
    unfolding sample_committed_def by (rule SettleCommit [OF len(4)]) (rule prod.collapse [symmetric])
  ultimately have run: "inbox_step\<^sup>*\<^sup>* empty_inbox sample_committed"
    using sample_leased_run by (meson rtranclp.rtrancl_into_rtrancl)
  have com: "committed_at sample_committed 0 0 \<lparr>dl_id = ''a'', dl_kind = 0, dl_messages = [''x''], dl_sequence = 0, dl_epoch = 0\<rparr>"
    by code_simp
  have "inbox_step\<^sup>*\<^sup>* sample_committed (inbox_reset sample_committed)" by (rule r_into_rtranclp) (rule Reset)
  from committed_delivery_final [OF run com this] com show ?thesis by auto
qed

text \<open>
  A retained commit loses nothing. When the commit of a leased delivery is rolled back and settled
  as retained, and the inbox was not reset meanwhile, the delivery is pending again, exactly once and
  in its place by admission order, and the set of deliveries the inbox accounts for is unchanged.
\<close>

theorem retained_delivery_returns:
  assumes "inbox_step\<^sup>*\<^sup>* empty_inbox ib" and "n < length (ib_leases ib)"
    and "ls_generation (ib_leases ib ! n) = ib_resetGeneration ib"
    and "settleCommit n i attempt SettleRetained ib = (Some d, ib')"
  shows "set (ib_pending ib') = insert d (set (ib_pending ib)) \<and> sorted_by dl_sequence (ib_pending ib') \<and>
    tokens ib' = tokens ib"
proof -
  have ok: "inbox_ok ib" using inbox_steps_ok [OF assms(1) empty_inbox_ok] .
  have ok': "inbox_ok ib'" using settleCommit_ok [OF ok assms(2,4)] .
  from assms(4) obtain k where k: "entry_index (ib_leases ib ! n) i = Some k"
    and st: "le_status (entry_at ib n k) = Committing" and d: "d = le_delivery (entry_at ib n k)"
    and ib': "ib' = settle_entry n k Restored ib"
    by (auto simp: settleCommit_def Let_def entry_at_def split: if_splits option.splits)
  note h = entry_index_has [OF k assms(2)]
  let ?ib2 = "restoreSettlement (ls_generation (ib_leases ib ! n)) d (set_status n k Restored ib)"
  have fin: "ib' = finishIfExhausted n ?ib2" by (simp add: ib' settle_entry_def Let_def d entry_at_def)
  have pend: "ib_pending ?ib2 = sort_key dl_sequence (d # ib_pending ib)"
    using assms(3) by (simp add: restoreSettlement_def)
  have tok: "tokens ?ib2 = tokens ib"
    using tokens_set_status [OF h(1), of Restored] st d assms(3) by (simp add: restoreSettlement_def tokens_def)
  have n2: "n < length (ib_leases ?ib2)" using assms(2) by (simp add: restoreSettlement_def)
  note same = finishIfExhausted_tokens [OF n2]
  show ?thesis
    using same pend tok fin inbox_okD(7) [OF ok'] by (simp add: set_insort_key)
qed

theorem retained_delivery_returns_witness:
  "\<exists>ib d ib'. settleCommit 0 ''a'' ''t'' SettleRetained ib = (Some d, ib') \<and>
     map dl_id (ib_pending ib) = [''b''] \<and> map dl_id (ib_pending ib') = [''a'', ''b''] \<and>
     set (ib_pending ib') = insert (d :: (nat, string) delivery) (set (ib_pending ib))"
proof -
  let ?i1 = "snd (lease_prepare 0 ''a'' ''t'' sample_leased)"
  let ?i2 = "snd (completePreparation 0 ''a'' ''t'' Prepared ?i1)"
  let ?i3 = "snd (beginCommit 0 ''a'' ''t'' ?i2)"
  have len: "0 < length (ib_leases sample_leased)" "0 < length (ib_leases ?i1)" "0 < length (ib_leases ?i2)"
    "0 < length (ib_leases ?i3)" by code_simp+
  have "inbox_step sample_leased ?i1" by (rule Prepare [OF len(1)]) (rule prod.collapse [symmetric])
  moreover have "inbox_step ?i1 ?i2" by (rule CompletePreparation [OF len(2)]) (rule prod.collapse [symmetric])
  moreover have "inbox_step ?i2 ?i3" by (rule BeginCommit [OF len(3)]) (rule prod.collapse [symmetric])
  ultimately have run: "inbox_step\<^sup>*\<^sup>* empty_inbox ?i3"
    using sample_leased_run by (meson rtranclp.rtrancl_into_rtrancl)
  have gen: "ls_generation (ib_leases ?i3 ! 0) = ib_resetGeneration ?i3" by code_simp
  let ?s = "settleCommit 0 ''a'' ''t'' SettleRetained ?i3"
  have facts: "fst ?s \<noteq> None" "map dl_id (ib_pending ?i3) = [''b'']" "map dl_id (ib_pending (snd ?s)) = [''a'', ''b'']"
    by code_simp+
  then obtain d where s: "?s = (Some d, snd ?s)" by (cases ?s) auto
  have "set (ib_pending (snd ?s)) = insert d (set (ib_pending ?i3))"
    using retained_delivery_returns [OF run len(4) gen s] by (rule conjunct1)
  with s facts(2,3) show ?thesis by (intro exI [of _ ?i3] exI [of _ d] exI [of _ "snd ?s"] conjI)
qed

text \<open>
  Revoking a kind takes it back completely: afterwards nothing of that kind is listed, and every
  delivery of the kind that was listed before is among the deliveries handed back, which are in
  admission order.
\<close>

theorem revoked_kind_gone:
  assumes "inbox_revoke kind ib = (ds, ib')" and "inbox_step\<^sup>*\<^sup>* empty_inbox ib"
  shows "inbox_list (Some kind) ib' = [] \<and> set (inbox_list (Some kind) ib) \<subseteq> set ds \<and>
    sorted (map dl_sequence ds) \<and> (\<forall>d\<in>set ds. dl_kind d = kind)"
proof -
  have ok: "inbox_ok ib" using inbox_steps_ok [OF assms(2) empty_inbox_ok] .
  let ?ib = "ib\<lparr>ib_pending := filter (\<lambda>d. dl_kind d \<noteq> kind) (ib_pending ib)\<rparr>"
  have none: "\<not> revocable (le_status (revoke_entry kind e))" if "dl_kind (le_delivery (revoke_entry kind e)) = kind" for e
    using that by (auto simp: revoke_entry_def split: if_splits)
  show ?thesis
  proof (cases "ib_activeLease ib")
    case None
    with assms(1) have "ds = sort_key dl_sequence (filter (\<lambda>d. dl_kind d = kind) (ib_pending ib))" "ib' = ?ib"
      by (simp_all add: inbox_revoke_def Let_def)
    with None show ?thesis by (auto simp: inbox_list_def)
  next
    case (Some n)
    then have n: "n < length (ib_leases ib)" using active_okD(1) [OF inbox_okD(8) [OF ok]] by blast
    let ?l = "ib_leases ib ! n"
    let ?l' = "?l\<lparr>ls_entries := map (revoke_entry kind) (ls_entries ?l)\<rparr>"
    have rev: "lease_revoke n kind ?ib = (if \<not> ls_active ?l then ([], ?ib)
      else (map le_delivery (filter (\<lambda>e. dl_kind (le_delivery e) = kind \<and> revokes (le_status e)) (ls_entries ?l)),
        finishIfExhausted n (set_lease n ?l' ?ib)))"
      by (simp add: lease_revoke_def Let_def)
    have ds: "ds = sort_key dl_sequence (filter (\<lambda>d. dl_kind d = kind) (ib_pending ib) @ fst (lease_revoke n kind ?ib))"
      and ib': "ib' = snd (lease_revoke n kind ?ib)"
      using assms(1) Some by (auto simp: inbox_revoke_def Let_def split: prod.splits)
    have "listRevocable ?l' (Some kind) = []"
      using none by (auto simp: listRevocable_def filter_empty_conv)
    then have empty: "inbox_list (Some kind) (finishIfExhausted n (set_lease n ?l' ?ib)) = []"
      using Some n by (auto simp: inbox_list_def finishIfExhausted_def finishLease_def Let_def listRevocable_def
          set_lease_def split: option.splits)
    have "inbox_list (Some kind) ?ib = []" if "\<not> ls_active ?l"
      using that Some by (auto simp: inbox_list_def listRevocable_def)
    with empty have gone: "inbox_list (Some kind) ib' = []" by (simp add: ib' rev)
    have "revokes st" if "revocable st" for st using that by (cases st) auto
    then have "set (inbox_list (Some kind) ib) \<subseteq> set ds"
      using Some by (auto simp: ds rev inbox_list_def listRevocable_def)
    with gone show ?thesis by (auto simp: ds rev)
  qed
qed

theorem revoked_kind_gone_witness:
  "map dl_id (fst (inbox_revoke 0 sample_leased)) = [''a''] \<and> inbox_list (Some 0) (snd (inbox_revoke 0 sample_leased)) = []"
proof -
  have "map dl_id (fst (inbox_revoke 0 sample_leased)) = [''a'']" by code_simp
  with revoked_kind_gone [OF prod.collapse [symmetric] sample_leased_run] show ?thesis by blast
qed

end
