(* ===== verification/Coordinator.thy ===== *)
theory Coordinator
  imports Volt_Prelude
begin

text \<open>
  The operation coordinator (\<^verbatim>\<open>packages/agent/src/conversation/coordinator.ts\<close>) and the admission gate
  it shares with its host (\<^verbatim>\<open>packages/agent/src/conversation/admission-gate.ts\<close>): one exclusive
  operation at a time, one reserved successor, counted activities, and the phase derived from them.

  Leases are objects that others hold, so the state keeps every lease and names it by its index, which
  stands for its unique id. Promises are represented by what is still unresolved: the ready promises of
  successors by their lease (\<open>co_pendingReady\<close>), the idle promise of a busy period by its number, the
  waiters for the not-busy state by their tokens. Calls of \<open>onPhaseChange\<close> are the list \<open>co_published\<close>.
\<close>

section \<open>The admission gate\<close>

record admission_gate =
  gt_holds :: nat
  gt_revision :: nat
  gt_released :: "bool list"

definition gate_open :: "admission_gate \<Rightarrow> bool" where
  "gate_open g \<longleftrightarrow> gt_holds g = 0"

definition gate_current :: "admission_gate \<Rightarrow> nat \<Rightarrow> bool" where
  "gate_current g revision \<longleftrightarrow> gate_open g \<and> revision = gt_revision g"

text \<open>\<open>suspend\<close> returns a release function, named by its index.\<close>

definition gate_suspend :: "admission_gate \<Rightarrow> nat \<times> admission_gate" where
  "gate_suspend g =
     (length (gt_released g),
      \<lparr>gt_holds = gt_holds g + 1, gt_revision = gt_revision g + 1, gt_released = gt_released g @ [False]\<rparr>)"

definition gate_release :: "nat \<Rightarrow> admission_gate \<Rightarrow> admission_gate" where
  "gate_release n g =
     (if gt_released g ! n then g
      else g\<lparr>gt_released := (gt_released g)[n := True], gt_holds := gt_holds g - 1\<rparr>)"

section \<open>Leases and phases\<close>

datatype operation_stage = Admitted | Executing | Terminalizing | Notifying | Settled

datatype activity_kind = BashActivity | ExtensionCommand | BackgroundActivity

definition ACTIVITY_KINDS :: "activity_kind list" where
  "ACTIVITY_KINDS = [BashActivity, ExtensionCommand, BackgroundActivity]"

record 'k op_lease =
  ol_admissionRevision :: nat
  ol_kind :: 'k
  ol_stage :: operation_stage
  ol_sealed :: bool
  ol_aborted :: bool
  ol_abortSource :: "string option"
  ol_diagnosticTimestamp :: "int option"
  ol_requestAccepted :: bool

record 'k coordinator_phase =
  ph_operation :: "'k option"
  ph_activities :: "activity_kind \<Rightarrow> nat"
  ph_busy :: bool

datatype lifecycle = LifecycleOpen | LifecycleClosing | LifecycleClosed

record 'k coordinator =
  co_gate :: admission_gate
  co_leases :: "'k op_lease list"
  co_active :: "nat option"
  co_successor :: "nat option"
  co_cancelled :: "nat set"
  co_waiters :: "(nat, nat list) js_map"
  co_pendingReady :: "nat set"
  co_activities :: "activity_kind \<Rightarrow> nat"
  co_releases :: "(activity_kind \<times> bool) list"
  co_lifecycle :: lifecycle
  co_idlePromise :: nat
  co_resolveIdle :: "nat option"
  co_unresolvedIdle :: "nat set"
  co_notBusyWaiters :: "nat list"
  co_waiterTokens :: nat
  co_phase :: "'k coordinator_phase"
  co_published :: "'k coordinator_phase list"
  co_closedResolved :: bool

datatype coordinator_error = AdmissionSuspended | LeaseCannotStart | AdmissionRevoked | AdmissionClosed

definition lease_at :: "'k coordinator \<Rightarrow> nat \<Rightarrow> 'k op_lease" where
  "lease_at c n = co_leases c ! n"

definition update_lease :: "nat \<Rightarrow> ('k op_lease \<Rightarrow> 'k op_lease) \<Rightarrow> 'k coordinator \<Rightarrow> 'k coordinator" where
  "update_lease n f c = c\<lparr>co_leases := (co_leases c)[n := f (co_leases c ! n)]\<rparr>"

section \<open>The phase\<close>

definition computePhase :: "'k coordinator \<Rightarrow> 'k coordinator_phase" where
  "computePhase c =
     (let operation = map_option (\<lambda>n. ol_kind (lease_at c n)) (co_active c) in
      \<lparr>ph_operation = operation, ph_activities = co_activities c,
       ph_busy = (operation \<noteq> None \<or> list_ex (\<lambda>k. co_activities c k > 0) ACTIVITY_KINDS)\<rparr>)"

definition publishPhase :: "'k coordinator \<Rightarrow> 'k coordinator" where
  "publishPhase c =
     (let nxt = computePhase c; previous = co_phase c in
      if ph_operation nxt = ph_operation previous \<and> ph_busy nxt = ph_busy previous \<and>
         list_all (\<lambda>k. ph_activities nxt k = ph_activities previous k) ACTIVITY_KINDS
      then c
      else c\<lparr>co_phase := nxt,
             co_notBusyWaiters := (if \<not> ph_busy nxt then [] else co_notBusyWaiters c),
             co_published := co_published c @ [nxt]\<rparr>)"

definition new_coordinator :: "admission_gate \<Rightarrow> 'k coordinator" where
  "new_coordinator g =
     \<lparr>co_gate = g, co_leases = [], co_active = None, co_successor = None, co_cancelled = {},
      co_waiters = [], co_pendingReady = {}, co_activities = (\<lambda>_. 0), co_releases = [],
      co_lifecycle = LifecycleOpen, co_idlePromise = 0, co_resolveIdle = None, co_unresolvedIdle = {},
      co_notBusyWaiters = [], co_waiterTokens = 0,
      co_phase = \<lparr>ph_operation = None, ph_activities = (\<lambda>_. 0), ph_busy = False\<rparr>,
      co_published = [], co_closedResolved = False\<rparr>"

section \<open>Reservations\<close>

definition createLease :: "'k \<Rightarrow> 'k coordinator \<Rightarrow> nat \<times> 'k coordinator" where
  "createLease kind c =
     (length (co_leases c),
      c\<lparr>co_leases := co_leases c @
        [\<lparr>ol_admissionRevision = gt_revision (co_gate c), ol_kind = kind, ol_stage = Admitted,
          ol_sealed = False, ol_aborted = False, ol_abortSource = None, ol_diagnosticTimestamp = None,
          ol_requestAccepted = False\<rparr>]\<rparr>)"

definition beginBusyPeriod :: "'k coordinator \<Rightarrow> 'k coordinator" where
  "beginBusyPeriod c =
     (let n = co_idlePromise c + 1 in
      c\<lparr>co_idlePromise := n, co_resolveIdle := Some n, co_unresolvedIdle := insert n (co_unresolvedIdle c)\<rparr>)"

definition reserve :: "'k \<Rightarrow> 'k coordinator \<Rightarrow> coordinator_error + nat option \<times> 'k coordinator" where
  "reserve kind c =
     (if \<not> gate_open (co_gate c) then Inl AdmissionSuspended
      else if co_lifecycle c \<noteq> LifecycleOpen \<or> co_active c \<noteq> None \<or> co_successor c \<noteq> None then Inr (None, c)
      else
        let (n, c1) = createLease kind c
        in Inr (Some n, publishPhase (beginBusyPeriod (c1\<lparr>co_active := Some n\<rparr>))))"

definition createSuccessor :: "'k \<Rightarrow> 'k coordinator \<Rightarrow> nat \<times> 'k coordinator" where
  "createSuccessor kind c =
     (let (n, c1) = createLease kind c
      in (n, c1\<lparr>co_successor := Some n, co_pendingReady := insert n (co_pendingReady c1)\<rparr>))"

definition resolveReady :: "nat \<Rightarrow> 'k coordinator \<Rightarrow> 'k coordinator" where
  "resolveReady n c = c\<lparr>co_pendingReady := co_pendingReady c - {n}\<rparr>"

definition resolveSuccessorSettlementWaiters :: "nat \<Rightarrow> 'k coordinator \<Rightarrow> 'k coordinator" where
  "resolveSuccessorSettlementWaiters n c =
     (case js_get (co_waiters c) n of
        None \<Rightarrow> c
      | Some ws \<Rightarrow> c\<lparr>co_waiters := js_delete (co_waiters c) n, co_pendingReady := co_pendingReady c - set ws\<rparr>)"

definition reserveSuccessor :: "'k \<Rightarrow> 'k coordinator \<Rightarrow> coordinator_error + nat option \<times> 'k coordinator" where
  "reserveSuccessor kind c =
     (if \<not> gate_open (co_gate c) then Inl AdmissionSuspended
      else if co_lifecycle c \<noteq> LifecycleOpen \<or> co_active c = None \<or> co_successor c \<noteq> None then Inr (None, c)
      else let (n, c1) = createSuccessor kind c in Inr (Some n, c1))"

definition reserveSuccessorReplacing ::
    "'k \<Rightarrow> 'k \<Rightarrow> 'k coordinator \<Rightarrow> coordinator_error + nat option \<times> 'k coordinator" where
  "reserveSuccessorReplacing replacedKind kind c =
     (if \<not> gate_open (co_gate c) then Inl AdmissionSuspended
      else case co_successor c of
        None \<Rightarrow> Inr (None, c)
      | Some replaced \<Rightarrow>
          if co_lifecycle c \<noteq> LifecycleOpen \<or> co_active c = None \<or> ol_kind (lease_at c replaced) \<noteq> replacedKind
          then Inr (None, c)
          else
            let c1 = c\<lparr>co_cancelled := insert replaced (co_cancelled c), co_successor := None\<rparr>;
                (n, c2) = createSuccessor kind c1;
                inherited = (case js_get (co_waiters c2) replaced of None \<Rightarrow> [] | Some ws \<Rightarrow> ws)
            in Inr (Some n, c2\<lparr>co_waiters :=
                 js_set (js_delete (co_waiters c2) replaced) n (inherited @ [replaced])\<rparr>))"

text \<open>The \<open>cancel\<close> function of a successor reservation.\<close>

definition cancelSuccessor :: "nat \<Rightarrow> 'k coordinator \<Rightarrow> bool \<times> 'k coordinator" where
  "cancelSuccessor n c =
     (if co_successor c \<noteq> Some n then (False, c)
      else (True, resolveSuccessorSettlementWaiters n
        (resolveReady n (c\<lparr>co_cancelled := insert n (co_cancelled c), co_successor := None\<rparr>))))"

section \<open>Running and finishing\<close>

definition set_stage :: "nat \<Rightarrow> operation_stage \<Rightarrow> 'k coordinator \<Rightarrow> 'k coordinator" where
  "set_stage n st c = update_lease n (\<lambda>l. l\<lparr>ol_stage := st\<rparr>) c"

definition finishClose :: "'k coordinator \<Rightarrow> 'k coordinator" where
  "finishClose c =
     (if co_lifecycle c \<noteq> LifecycleClosing then c
      else c\<lparr>co_lifecycle := LifecycleClosed, co_closedResolved := True\<rparr>)"

definition resolve_idle :: "'k coordinator \<Rightarrow> 'k coordinator" where
  "resolve_idle c =
     c\<lparr>co_resolveIdle := None,
       co_unresolvedIdle := (case co_resolveIdle c of None \<Rightarrow> co_unresolvedIdle c | Some n \<Rightarrow> co_unresolvedIdle c - {n})\<rparr>"

definition finish :: "nat \<Rightarrow> 'k coordinator \<Rightarrow> 'k coordinator" where
  "finish n c =
     (if co_active c \<noteq> Some n then c
      else
        let c1 = resolveSuccessorSettlementWaiters n (set_stage n Settled c);
            successor = co_successor c1;
            c2 = c1\<lparr>co_successor := None\<rparr>;
            idle = (\<lambda>c3. let c4 = publishPhase (resolve_idle (c3\<lparr>co_active := None\<rparr>)) in
              if co_lifecycle c4 = LifecycleClosing then finishClose c4 else c4)
        in case successor of
             Some s \<Rightarrow>
               if s \<notin> co_cancelled c2 \<and> co_lifecycle c2 = LifecycleOpen \<and>
                  gate_current (co_gate c2) (ol_admissionRevision (lease_at c2 s))
               then resolveReady s (publishPhase (c2\<lparr>co_active := Some s\<rparr>))
               else idle (resolveSuccessorSettlementWaiters s (resolveReady s
                 (set_stage s Settled (c2\<lparr>co_cancelled := insert s (co_cancelled c2)\<rparr>))))
           | None \<Rightarrow> idle c2)"

definition start :: "nat \<Rightarrow> 'k coordinator \<Rightarrow> (coordinator_error + unit) \<times> 'k coordinator" where
  "start n c =
     (if co_active c \<noteq> Some n \<or> ol_stage (lease_at c n) \<noteq> Admitted then (Inl LeaseCannotStart, c)
      else if \<not> gate_current (co_gate c) (ol_admissionRevision (lease_at c n)) then (Inl AdmissionRevoked, finish n c)
      else (Inr (), set_stage n Executing c))"

definition canStart :: "nat \<Rightarrow> 'k coordinator \<Rightarrow> bool" where
  "canStart n c \<longleftrightarrow>
     co_active c = Some n \<and> ol_stage (lease_at c n) = Admitted \<and>
     gate_current (co_gate c) (ol_admissionRevision (lease_at c n))"

definition reclassify :: "nat \<Rightarrow> 'k \<Rightarrow> 'k coordinator \<Rightarrow> bool \<times> 'k coordinator" where
  "reclassify n kind c =
     (if co_active c \<noteq> Some n \<or> ol_stage (lease_at c n) \<noteq> Admitted then (False, c)
      else if \<not> gate_current (co_gate c) (ol_admissionRevision (lease_at c n)) then (False, finish n c)
      else (True, publishPhase (update_lease n (\<lambda>l. l\<lparr>ol_kind := kind\<rparr>) c)))"

definition sealTerminal :: "nat \<Rightarrow> 'k coordinator \<Rightarrow> bool \<times> 'k coordinator" where
  "sealTerminal n c =
     (if co_active c \<noteq> Some n \<or> ol_stage (lease_at c n) = Settled then (False, c)
      else if ol_sealed (lease_at c n) then (False, c)
      else (True, update_lease n (\<lambda>l. l\<lparr>ol_sealed := True, ol_stage := Terminalizing\<rparr>) c))"

definition beginNotifications :: "nat \<Rightarrow> 'k coordinator \<Rightarrow> 'k coordinator" where
  "beginNotifications n c =
     (if co_active c \<noteq> Some n \<or> ol_stage (lease_at c n) = Settled then c else set_stage n Notifying c)"

section \<open>Aborting and closing\<close>

record abort_acceptance =
  aa_runId :: "nat option"
  aa_accepted :: bool
  aa_source :: "string option"

definition requestAbort :: "string option \<Rightarrow> int \<Rightarrow> 'k coordinator \<Rightarrow> abort_acceptance \<times> 'k coordinator" where
  "requestAbort source now c =
     (case co_active c of
        None \<Rightarrow> (\<lparr>aa_runId = None, aa_accepted = False, aa_source = None\<rparr>, c)
      | Some n \<Rightarrow>
          let l = lease_at c n in
          if ol_stage l = Settled \<or> ol_sealed l \<or> ol_aborted l
          then (\<lparr>aa_runId = Some n, aa_accepted = False, aa_source = ol_abortSource l\<rparr>, c)
          else
            let l1 = (if source \<noteq> None \<and> ol_abortSource l = None
                then l\<lparr>ol_abortSource := source, ol_diagnosticTimestamp := Some now\<rparr> else l);
                l2 = l1\<lparr>ol_aborted := True\<rparr>
            in (\<lparr>aa_runId = Some n, aa_accepted = True, aa_source = ol_abortSource l2\<rparr>,
                update_lease n (\<lambda>_. l2) c))"

definition requestClose :: "string \<Rightarrow> int \<Rightarrow> 'k coordinator \<Rightarrow> bool \<times> 'k coordinator" where
  "requestClose source now c =
     (if co_lifecycle c \<noteq> LifecycleOpen then (False, c)
      else
        let c1 = c\<lparr>co_lifecycle := LifecycleClosing, co_successor := None\<rparr>;
            c2 = (case co_successor c of
                None \<Rightarrow> c1
              | Some s \<Rightarrow> resolveSuccessorSettlementWaiters s
                  (resolveReady s (c1\<lparr>co_cancelled := insert s (co_cancelled c1)\<rparr>)));
            c3 = snd (requestAbort (Some source) now c2)
        in (True, if co_active c3 = None then finishClose c3 else c3))"

section \<open>Activities and waiting\<close>

definition beginActivity :: "activity_kind \<Rightarrow> 'k coordinator \<Rightarrow> coordinator_error + nat \<times> 'k coordinator" where
  "beginActivity kind c =
     (if \<not> gate_open (co_gate c) then Inl AdmissionSuspended
      else if co_lifecycle c \<noteq> LifecycleOpen then Inl AdmissionClosed
      else Inr (length (co_releases c),
        publishPhase (c\<lparr>co_activities := (co_activities c)(kind := co_activities c kind + 1),
                        co_releases := co_releases c @ [(kind, False)]\<rparr>)))"

definition releaseActivity :: "nat \<Rightarrow> 'k coordinator \<Rightarrow> 'k coordinator" where
  "releaseActivity n c =
     (let (kind, released) = co_releases c ! n in
      if released then c
      else publishPhase (c\<lparr>co_releases := (co_releases c)[n := (kind, True)],
             co_activities := (co_activities c)(kind := co_activities c kind - 1)\<rparr>))"

text \<open>\<open>None\<close> is a promise that is already resolved.\<close>

definition waitForNotBusy :: "'k coordinator \<Rightarrow> nat option \<times> 'k coordinator" where
  "waitForNotBusy c =
     (if \<not> ph_busy (co_phase c) then (None, c)
      else (Some (co_waiterTokens c),
        c\<lparr>co_notBusyWaiters := co_notBusyWaiters c @ [co_waiterTokens c],
          co_waiterTokens := co_waiterTokens c + 1\<rparr>))"

definition waitForIdle :: "'k coordinator \<Rightarrow> nat" where
  "waitForIdle c = co_idlePromise c"

section \<open>Which fields a helper touches\<close>

lemma publishPhase_frame [simp]:
  "co_gate (publishPhase c) = co_gate c" "co_leases (publishPhase c) = co_leases c"
  "co_active (publishPhase c) = co_active c" "co_successor (publishPhase c) = co_successor c"
  "co_cancelled (publishPhase c) = co_cancelled c" "co_waiters (publishPhase c) = co_waiters c"
  "co_pendingReady (publishPhase c) = co_pendingReady c" "co_activities (publishPhase c) = co_activities c"
  "co_releases (publishPhase c) = co_releases c" "co_lifecycle (publishPhase c) = co_lifecycle c"
  "co_idlePromise (publishPhase c) = co_idlePromise c" "co_resolveIdle (publishPhase c) = co_resolveIdle c"
  "co_unresolvedIdle (publishPhase c) = co_unresolvedIdle c"
  "co_closedResolved (publishPhase c) = co_closedResolved c" "computePhase (publishPhase c) = computePhase c"
  by (simp_all add: publishPhase_def computePhase_def lease_at_def Let_def)

lemma list_all_ACTIVITY_KINDS: "list_all P ACTIVITY_KINDS \<longleftrightarrow> (\<forall>k. P k)"
proof -
  have "P k" if "P BashActivity" "P ExtensionCommand" "P BackgroundActivity" for k
    using that by (cases k) auto
  then show ?thesis by (auto simp: ACTIVITY_KINDS_def)
qed

text \<open>After publishing, the published phase is the computed one and nobody waits for an idle coordinator.\<close>

lemma publishPhase_phase [simp]: "co_phase (publishPhase c) = computePhase c"
proof -
  have "p = q" if "ph_operation p = ph_operation q" "ph_busy p = ph_busy q"
    "\<forall>k. ph_activities p k = ph_activities q k" for p q :: "'a coordinator_phase"
    using that by (simp add: fun_eq_iff)
  then show ?thesis by (auto simp: publishPhase_def Let_def list_all_ACTIVITY_KINDS)
qed

definition quiet_phase :: "'k coordinator_phase" where
  "quiet_phase = \<lparr>ph_operation = None, ph_activities = (\<lambda>_. 0), ph_busy = False\<rparr>"

text \<open>What the observer of \<open>onPhaseChange\<close> was told last.\<close>

definition last_published :: "'k coordinator \<Rightarrow> 'k coordinator_phase" where
  "last_published c = last (quiet_phase # co_published c)"

lemma publishPhase_last: "co_phase c = last_published c \<Longrightarrow> last_published (publishPhase c) = computePhase c"
  using publishPhase_phase [of c] by (auto simp: publishPhase_def last_published_def Let_def split: if_splits)

lemma publishPhase_waiters:
  "(co_notBusyWaiters c \<noteq> [] \<longrightarrow> ph_busy (co_phase c)) \<Longrightarrow>
   co_notBusyWaiters (publishPhase c) \<noteq> [] \<Longrightarrow> ph_busy (computePhase c)"
  by (auto simp: publishPhase_def Let_def split: if_splits)

lemma resolve_frame [simp]:
  "co_gate (resolveReady n c) = co_gate c" "co_leases (resolveReady n c) = co_leases c"
  "co_active (resolveReady n c) = co_active c" "co_successor (resolveReady n c) = co_successor c"
  "co_cancelled (resolveReady n c) = co_cancelled c" "co_waiters (resolveReady n c) = co_waiters c"
  "co_lifecycle (resolveReady n c) = co_lifecycle c" "co_activities (resolveReady n c) = co_activities c"
  "co_releases (resolveReady n c) = co_releases c" "co_phase (resolveReady n c) = co_phase c"
  "co_idlePromise (resolveReady n c) = co_idlePromise c" "co_resolveIdle (resolveReady n c) = co_resolveIdle c"
  "co_unresolvedIdle (resolveReady n c) = co_unresolvedIdle c"
  "co_notBusyWaiters (resolveReady n c) = co_notBusyWaiters c"
  "co_closedResolved (resolveReady n c) = co_closedResolved c"
  "co_pendingReady (resolveReady n c) = co_pendingReady c - {n}" "co_published (resolveReady n c) = co_published c"
  by (simp_all add: resolveReady_def)

lemma resolveWaiters_frame [simp]:
  "co_gate (resolveSuccessorSettlementWaiters n c) = co_gate c"
  "co_leases (resolveSuccessorSettlementWaiters n c) = co_leases c"
  "co_active (resolveSuccessorSettlementWaiters n c) = co_active c"
  "co_successor (resolveSuccessorSettlementWaiters n c) = co_successor c"
  "co_cancelled (resolveSuccessorSettlementWaiters n c) = co_cancelled c"
  "co_lifecycle (resolveSuccessorSettlementWaiters n c) = co_lifecycle c"
  "co_activities (resolveSuccessorSettlementWaiters n c) = co_activities c"
  "co_releases (resolveSuccessorSettlementWaiters n c) = co_releases c"
  "co_phase (resolveSuccessorSettlementWaiters n c) = co_phase c"
  "co_idlePromise (resolveSuccessorSettlementWaiters n c) = co_idlePromise c"
  "co_resolveIdle (resolveSuccessorSettlementWaiters n c) = co_resolveIdle c"
  "co_unresolvedIdle (resolveSuccessorSettlementWaiters n c) = co_unresolvedIdle c"
  "co_notBusyWaiters (resolveSuccessorSettlementWaiters n c) = co_notBusyWaiters c"
  "co_closedResolved (resolveSuccessorSettlementWaiters n c) = co_closedResolved c"
  "co_published (resolveSuccessorSettlementWaiters n c) = co_published c"
  by (simp_all add: resolveSuccessorSettlementWaiters_def split: option.split)

lemma update_lease_frame [simp]:
  "co_gate (update_lease n f c) = co_gate c" "co_active (update_lease n f c) = co_active c"
  "co_successor (update_lease n f c) = co_successor c" "co_cancelled (update_lease n f c) = co_cancelled c"
  "co_waiters (update_lease n f c) = co_waiters c" "co_pendingReady (update_lease n f c) = co_pendingReady c"
  "co_lifecycle (update_lease n f c) = co_lifecycle c" "co_activities (update_lease n f c) = co_activities c"
  "co_releases (update_lease n f c) = co_releases c" "co_phase (update_lease n f c) = co_phase c"
  "co_idlePromise (update_lease n f c) = co_idlePromise c" "co_resolveIdle (update_lease n f c) = co_resolveIdle c"
  "co_unresolvedIdle (update_lease n f c) = co_unresolvedIdle c"
  "co_notBusyWaiters (update_lease n f c) = co_notBusyWaiters c"
  "co_closedResolved (update_lease n f c) = co_closedResolved c"
  "length (co_leases (update_lease n f c)) = length (co_leases c)"
  "co_published (update_lease n f c) = co_published c"
  by (simp_all add: update_lease_def)

lemma update_lease_at [simp]:
  "n < length (co_leases c) \<Longrightarrow> lease_at (update_lease n f c) m = (if m = n then f (lease_at c n) else lease_at c m)"
  by (simp add: update_lease_def lease_at_def)

end
