(* ===== verification/Coordinator_Invariant.thy ===== *)
theory Coordinator_Invariant
  imports Coordinator
begin

text \<open>
  The invariant of the operation coordinator, that every operation keeps it, and what no operation
  undoes: the order \<open>co_le\<close> on coordinators.
\<close>

section \<open>The invariant\<close>

definition started_stage :: "operation_stage \<Rightarrow> bool" where
  "started_stage st \<longleftrightarrow> st = Executing \<or> st = Terminalizing \<or> st = Notifying"

text \<open>The active operation: it exists, nothing else runs, and a closed coordinator has none.\<close>

definition runs :: "'k coordinator \<Rightarrow> nat \<Rightarrow> bool" where
  "runs c n \<longleftrightarrow> co_active c = Some n"

definition exclusive_ok :: "'k coordinator \<Rightarrow> bool" where
  "exclusive_ok c \<longleftrightarrow>
     (\<forall>n. runs c n \<longrightarrow> n < length (co_leases c) \<and> ol_stage (co_leases c ! n) \<noteq> Settled) \<and>
     (\<forall>m < length (co_leases c). started_stage (ol_stage (co_leases c ! m)) \<longrightarrow> runs c m) \<and>
     (co_lifecycle c = LifecycleClosing \<longrightarrow> co_active c \<noteq> None) \<and>
     (co_lifecycle c = LifecycleClosed \<longrightarrow> co_active c = None) \<and>
     (co_closedResolved c \<longleftrightarrow> co_lifecycle c = LifecycleClosed)"

text \<open>The successor: an admitted lease waiting behind the active operation of an open coordinator.\<close>

definition successor_ok :: "'k coordinator \<Rightarrow> bool" where
  "successor_ok c \<longleftrightarrow>
     pred_option (\<lambda>s. s < length (co_leases c) \<and> co_active c \<noteq> None \<and> \<not> runs c s \<and>
        ol_stage (co_leases c ! s) = Admitted \<and> s \<notin> co_cancelled c \<and> co_lifecycle c = LifecycleOpen) (co_successor c) \<and>
     (\<forall>x \<in> co_cancelled c. x < length (co_leases c))"

text \<open>Who still waits for a ready promise, and who will resolve it.\<close>

definition waiting_at :: "(nat, nat list) js_map \<Rightarrow> nat option \<Rightarrow> nat set" where
  "waiting_at w x =
     (case x of None \<Rightarrow> {} | Some n \<Rightarrow> (case js_get w n of None \<Rightarrow> {} | Some ws \<Rightarrow> set ws))"

definition ready_ok :: "'k coordinator \<Rightarrow> bool" where
  "ready_ok c \<longleftrightarrow>
     co_pendingReady c \<subseteq> set_option (co_successor c) \<union>
       waiting_at (co_waiters c) (co_successor c) \<union> waiting_at (co_waiters c) (co_active c)"

definition idle_ok :: "'k coordinator \<Rightarrow> bool" where
  "idle_ok c \<longleftrightarrow>
     (if co_active c = None then co_unresolvedIdle c = {} \<and> co_resolveIdle c = None
      else co_unresolvedIdle c = {co_idlePromise c} \<and> co_resolveIdle c = Some (co_idlePromise c))"

definition phase_ok :: "'k coordinator \<Rightarrow> bool" where
  "phase_ok c \<longleftrightarrow> co_phase c = computePhase c \<and> (co_notBusyWaiters c \<noteq> [] \<longrightarrow> ph_busy (co_phase c)) \<and>
     co_phase c = last_published c"

definition counts_ok :: "'k coordinator \<Rightarrow> bool" where
  "counts_ok c \<longleftrightarrow> (\<forall>k. co_activities c k = count_list (co_releases c) (k, False))"

text \<open>A lease never carries a revision the gate has not reached.\<close>

definition gate_ok :: "'k coordinator \<Rightarrow> bool" where
  "gate_ok c \<longleftrightarrow>
     gt_holds (co_gate c) = count_list (gt_released (co_gate c)) False \<and>
     (\<forall>m < length (co_leases c). ol_admissionRevision (co_leases c ! m) \<le> gt_revision (co_gate c))"

definition co_inv :: "'k coordinator \<Rightarrow> bool" where
  "co_inv c \<longleftrightarrow> exclusive_ok c \<and> successor_ok c \<and> ready_ok c \<and> idle_ok c \<and> phase_ok c \<and> counts_ok c \<and> gate_ok c"

lemma count_list_update:
  "n < length xs \<Longrightarrow> count_list (xs[n := y]) x + (if xs ! n = x then 1 else 0) = count_list xs x + (if y = x then 1 else 0)"
proof (induction xs arbitrary: n)
  case (Cons a xs)
  show ?case
  proof (cases n)
    case (Suc k)
    then show ?thesis using Cons.IH [of k] Cons.prems by (auto split: if_splits)
  qed simp
qed simp

text \<open>The parts of the invariant depend on the fields they name.\<close>

lemma ok_cong:
  assumes "co_active c' = co_active c"
  shows "co_leases c' = co_leases c \<Longrightarrow> co_lifecycle c' = co_lifecycle c \<Longrightarrow>
      co_closedResolved c' = co_closedResolved c \<Longrightarrow> exclusive_ok c' = exclusive_ok c"
    and "co_leases c' = co_leases c \<Longrightarrow> co_lifecycle c' = co_lifecycle c \<Longrightarrow>
      co_successor c' = co_successor c \<Longrightarrow> co_cancelled c' = co_cancelled c \<Longrightarrow> successor_ok c' = successor_ok c"
    and "co_successor c' = co_successor c \<Longrightarrow> co_waiters c' = co_waiters c \<Longrightarrow>
      co_pendingReady c' = co_pendingReady c \<Longrightarrow> ready_ok c' = ready_ok c"
    and "co_unresolvedIdle c' = co_unresolvedIdle c \<Longrightarrow> co_idlePromise c' = co_idlePromise c \<Longrightarrow>
      co_resolveIdle c' = co_resolveIdle c \<Longrightarrow> idle_ok c' = idle_ok c"
  using assms by (simp_all only: exclusive_ok_def successor_ok_def ready_ok_def idle_ok_def runs_def waiting_at_def)

lemma counts_ok_cong:
  "co_activities c' = co_activities c \<Longrightarrow> co_releases c' = co_releases c \<Longrightarrow> counts_ok c' = counts_ok c"
  by (simp only: counts_ok_def)

lemma gate_ok_cong: "co_gate c' = co_gate c \<Longrightarrow> co_leases c' = co_leases c \<Longrightarrow> gate_ok c' = gate_ok c"
  by (simp only: gate_ok_def)

lemma phase_ok_cong:
  "co_phase c' = co_phase c \<Longrightarrow> co_notBusyWaiters c' = co_notBusyWaiters c \<Longrightarrow> co_active c' = co_active c \<Longrightarrow>
   co_leases c' = co_leases c \<Longrightarrow> co_activities c' = co_activities c \<Longrightarrow> co_published c' = co_published c \<Longrightarrow>
   phase_ok c' = phase_ok c"
  by (simp only: phase_ok_def computePhase_def lease_at_def last_published_def)

lemma co_invD:
  assumes "co_inv c"
  shows "exclusive_ok c" "successor_ok c" "ready_ok c" "idle_ok c" "phase_ok c" "counts_ok c" "gate_ok c"
  using assms by (simp_all add: co_inv_def)

lemma exclusive_okD:
  assumes "exclusive_ok c"
  shows "runs c n \<Longrightarrow> n < length (co_leases c)" "runs c n \<Longrightarrow> ol_stage (co_leases c ! n) \<noteq> Settled"
    "m < length (co_leases c) \<Longrightarrow> started_stage (ol_stage (co_leases c ! m)) \<Longrightarrow> runs c m"
    "co_lifecycle c = LifecycleClosing \<Longrightarrow> co_active c \<noteq> None"
    "co_lifecycle c = LifecycleClosed \<Longrightarrow> co_active c = None"
    "co_closedResolved c \<longleftrightarrow> co_lifecycle c = LifecycleClosed"
  using assms unfolding exclusive_ok_def by blast+

lemma exclusive_okI:
  assumes "\<And>n. runs c n \<Longrightarrow> n < length (co_leases c) \<and> ol_stage (co_leases c ! n) \<noteq> Settled"
    and "\<And>m. m < length (co_leases c) \<Longrightarrow> started_stage (ol_stage (co_leases c ! m)) \<Longrightarrow> runs c m"
    and "co_lifecycle c = LifecycleClosing \<Longrightarrow> co_active c \<noteq> None"
    and "co_lifecycle c = LifecycleClosed \<Longrightarrow> co_active c = None"
    and "co_closedResolved c \<longleftrightarrow> co_lifecycle c = LifecycleClosed"
  shows "exclusive_ok c"
  using assms unfolding exclusive_ok_def by blast

lemma last_published_cong: "co_published c' = co_published c \<Longrightarrow> last_published c' = last_published c"
  by (simp add: last_published_def)

lemma phase_ok_publish:
  "phase_ok c \<Longrightarrow> co_notBusyWaiters c' = co_notBusyWaiters c \<Longrightarrow> co_phase c' = co_phase c \<Longrightarrow>
   co_published c' = co_published c \<Longrightarrow> phase_ok (publishPhase c')"
  using publishPhase_waiters [of c'] publishPhase_last [of c'] last_published_cong [of c' c] by (auto simp: phase_ok_def)

lemma co_inv_publish:
  assumes "exclusive_ok c" "successor_ok c" "ready_ok c" "idle_ok c" "counts_ok c" "gate_ok c"
    and "phase_ok (publishPhase c)"
  shows "co_inv (publishPhase c)"
  using assms ok_cong [of "publishPhase c" c] counts_ok_cong [of "publishPhase c" c] gate_ok_cong [of "publishPhase c" c]
  by (simp add: co_inv_def)

subsection \<open>Reserving\<close>

lemma reserve_inv:
  assumes inv: "co_inv c" and res: "reserve kind c = Inr (r, c')"
  shows "co_inv c'"
proof (cases "co_lifecycle c \<noteq> LifecycleOpen \<or> co_active c \<noteq> None \<or> co_successor c \<noteq> None")
  case True
  with assms show ?thesis by (auto simp: reserve_def split: if_splits)
next
  case False
  let ?d = "beginBusyPeriod (snd (createLease kind c)\<lparr>co_active := Some (length (co_leases c))\<rparr>)"
  have c': "c' = publishPhase ?d"
    using res False by (auto simp: reserve_def createLease_def Let_def split: if_splits)
  have old: "\<not> started_stage (ol_stage (co_leases c ! m))" if "m < length (co_leases c)" for m
    using exclusive_okD(3) [OF co_invD(1) [OF inv] that] False by (auto simp: runs_def)
  note defs = createLease_def beginBusyPeriod_def Let_def nth_append runs_def
  show ?thesis unfolding c'
  proof (rule co_inv_publish)
    show "exclusive_ok ?d" using exclusive_okD(6) [OF co_invD(1) [OF inv]] False old
      by (auto simp: exclusive_ok_def defs started_stage_def)
    show "successor_ok ?d" using co_invD(2) [OF inv] False by (auto simp: successor_ok_def defs)
    show "ready_ok ?d" using co_invD(3) [OF inv] False by (auto simp: ready_ok_def waiting_at_def defs)
    show "idle_ok ?d" using co_invD(4) [OF inv] False by (auto simp: idle_ok_def defs)
    show "counts_ok ?d" using co_invD(6) [OF inv] by (simp add: counts_ok_def defs)
    show "gate_ok ?d" using co_invD(7) [OF inv] by (auto simp: gate_ok_def defs)
    show "phase_ok (publishPhase ?d)" using co_invD(5) [OF inv]
      by (rule phase_ok_publish) (simp_all add: defs)
  qed
qed

lemma exclusive_ok_admit:
  assumes "exclusive_ok c" "co_leases c' = co_leases c @ [l]" "ol_stage l = Admitted"
    "co_active c' = co_active c" "co_lifecycle c' = co_lifecycle c" "co_closedResolved c' = co_closedResolved c"
  shows "exclusive_ok c'"
proof -
  have r: "runs c' m = runs c m" for m using assms(4) by (simp add: runs_def)
  have "runs c m" if "m < Suc (length (co_leases c))" "started_stage (ol_stage ((co_leases c @ [l]) ! m))" for m
    using that exclusive_okD(3) [OF assms(1)] assms(3) by (cases "m < length (co_leases c)") (auto simp: nth_append started_stage_def)
  moreover have "m < Suc (length (co_leases c)) \<and> ol_stage ((co_leases c @ [l]) ! m) \<noteq> Settled" if "runs c m" for m
    using exclusive_okD(1,2) [OF assms(1) that] by (simp add: nth_append)
  ultimately show ?thesis using exclusive_okD(4-6) [OF assms(1)] unfolding exclusive_ok_def r assms(2,4,5,6) by simp
qed

lemma createSuccessor_inv:
  assumes ex: "exclusive_ok c" and id: "idle_ok c" and ph: "phase_ok c" and co: "counts_ok c" and ga: "gate_ok c"
    and act: "co_active c \<noteq> None" and life: "co_lifecycle c = LifecycleOpen"
    and can: "\<forall>x \<in> co_cancelled c. x < length (co_leases c)"
    and ready: "co_pendingReady c \<subseteq> waiting_at w (Some (length (co_leases c))) \<union> waiting_at w (co_active c)"
  shows "co_inv ((snd (createSuccessor kind c))\<lparr>co_waiters := w\<rparr>)"
    (is "co_inv ?d")
proof -
  obtain n where n: "co_active c = Some n" "n < length (co_leases c)" using act exclusive_okD(1) [OF ex]
    by (auto simp: runs_def)
  note defs = createSuccessor_def createLease_def Let_def nth_append runs_def
  have "exclusive_ok ?d" using ex by (rule exclusive_ok_admit) (simp add: defs)+
  moreover have "successor_ok ?d" using can act life n by (auto simp: successor_ok_def defs)
  moreover have "ready_ok ?d" using ready by (auto simp: ready_ok_def defs)
  moreover have "idle_ok ?d" using id by (simp add: idle_ok_def defs)
  moreover have "counts_ok ?d" using co by (simp add: counts_ok_def defs)
  moreover have "gate_ok ?d" using ga by (auto simp: gate_ok_def defs)
  moreover have "phase_ok ?d" using ph n last_published_cong [of ?d c]
    by (auto simp: phase_ok_def computePhase_def lease_at_def defs)
  ultimately show ?thesis by (simp add: co_inv_def)
qed

lemma reserveSuccessor_inv:
  assumes inv: "co_inv c" and res: "reserveSuccessor kind c = Inr (r, c')"
  shows "co_inv c'"
proof (cases "co_lifecycle c \<noteq> LifecycleOpen \<or> co_active c = None \<or> co_successor c \<noteq> None")
  case True
  with assms show ?thesis by (auto simp: reserveSuccessor_def split: if_splits)
next
  case False
  have c': "c' = (snd (createSuccessor kind c))\<lparr>co_waiters := co_waiters c\<rparr>"
    using res False by (auto simp: reserveSuccessor_def createSuccessor_def createLease_def Let_def split: if_splits)
  show ?thesis unfolding c' using co_invD [OF inv] False
    by (intro createSuccessor_inv) (auto simp: successor_ok_def ready_ok_def waiting_at_def)
qed

lemma reserveSuccessorReplacing_inv:
  assumes inv: "co_inv c" and res: "reserveSuccessorReplacing replaced kind c = Inr (r, c')"
  shows "co_inv c'"
proof (cases "co_successor c")
  case None
  with assms show ?thesis by (auto simp: reserveSuccessorReplacing_def split: if_splits)
next
  case (Some s)
  show ?thesis
  proof (cases "c' = c")
    case False
    let ?c1 = "c\<lparr>co_cancelled := insert s (co_cancelled c), co_successor := None\<rparr>"
    let ?w = "js_set (js_delete (co_waiters c) s) (length (co_leases c))
       ((case js_get (co_waiters c) s of None \<Rightarrow> [] | Some ws \<Rightarrow> ws) @ [s])"
    have c': "c' = (snd (createSuccessor kind ?c1))\<lparr>co_waiters := ?w\<rparr>"
      using res Some False
      by (auto simp: reserveSuccessorReplacing_def createSuccessor_def createLease_def Let_def split: if_splits)
    have suc: "s < length (co_leases c)" "co_active c \<noteq> None" "\<not> runs c s" "co_lifecycle c = LifecycleOpen"
      using co_invD(2) [OF inv] Some by (auto simp: successor_ok_def)
    then obtain n where n: "co_active c = Some n" "n < length (co_leases c)" "n \<noteq> s"
      using exclusive_okD(1) [OF co_invD(1) [OF inv]] by (auto simp: runs_def)
    show ?thesis unfolding c'
    proof (rule createSuccessor_inv)
      show "exclusive_ok ?c1" using co_invD(1) [OF inv] ok_cong(1) [of ?c1 c] by simp
      show "idle_ok ?c1" using co_invD(4) [OF inv] ok_cong(4) [of ?c1 c] by simp
      show "phase_ok ?c1" using co_invD(5) [OF inv] phase_ok_cong [of ?c1 c] by simp
      show "counts_ok ?c1" using co_invD(6) [OF inv] counts_ok_cong [of ?c1 c] by simp
      show "gate_ok ?c1" using co_invD(7) [OF inv] gate_ok_cong [of ?c1 c] by simp
      show "\<forall>x \<in> co_cancelled ?c1. x < length (co_leases ?c1)"
        using co_invD(2) [OF inv] suc by (auto simp: successor_ok_def)
      show "co_pendingReady ?c1 \<subseteq> waiting_at ?w (Some (length (co_leases ?c1))) \<union> waiting_at ?w (co_active ?c1)"
        using co_invD(3) [OF inv] n Some
        by (auto simp: ready_ok_def waiting_at_def js_map_simps split: option.splits)
    qed (use suc in simp_all)
  qed (use inv in simp)
qed

lemma resolveWaiters_ready:
  "co_waiters (resolveSuccessorSettlementWaiters n c) =
     (case js_get (co_waiters c) n of None \<Rightarrow> co_waiters c | Some _ \<Rightarrow> js_delete (co_waiters c) n)"
  "co_pendingReady (resolveSuccessorSettlementWaiters n c) = co_pendingReady c - waiting_at (co_waiters c) (Some n)"
  by (auto simp: resolveSuccessorSettlementWaiters_def waiting_at_def split: option.split)

text \<open>Dropping the successor and resolving it and those who wait on it.\<close>

lemma drop_successor_ready:
  assumes "ready_ok c" "successor_ok c" "co_successor c = Some s"
    and "co_waiters d = co_waiters c" "co_pendingReady d = co_pendingReady c"
    and "co_active d = co_active c" "co_successor d = None"
  shows "ready_ok (resolveSuccessorSettlementWaiters s (resolveReady s d))"
  using assms
  by (auto simp: ready_ok_def successor_ok_def runs_def resolveWaiters_ready waiting_at_def js_map_simps resolveReady_def
      split: option.splits)

lemma cancelSuccessor_inv:
  assumes inv: "co_inv c"
  shows "co_inv (snd (cancelSuccessor n c))"
proof (cases "co_successor c = Some n")
  case True
  let ?c1 = "c\<lparr>co_cancelled := insert n (co_cancelled c), co_successor := None\<rparr>"
  let ?d = "resolveSuccessorSettlementWaiters n (resolveReady n ?c1)"
  have d: "snd (cancelSuccessor n c) = ?d" using True by (simp add: cancelSuccessor_def)
  note okD = co_invD [OF inv]
  have "exclusive_ok ?d" using okD(1) ok_cong(1) [of ?d c] by simp
  moreover have "successor_ok ?d" using okD(2) True by (auto simp: successor_ok_def)
  moreover have "ready_ok ?d" using okD True by (intro drop_successor_ready) simp_all
  moreover have "idle_ok ?d" using okD(4) ok_cong(4) [of ?d c] by simp
  moreover have "counts_ok ?d" using okD(6) counts_ok_cong [of ?d c] by simp
  moreover have "gate_ok ?d" using okD(7) gate_ok_cong [of ?d c] by simp
  moreover have "phase_ok ?d" using okD(5) phase_ok_cong [of ?d c] by simp
  ultimately show ?thesis unfolding d by (simp add: co_inv_def)
qed (use inv in \<open>simp add: cancelSuccessor_def\<close>)

subsection \<open>Changing a lease\<close>

definition lease_change :: "'k coordinator \<Rightarrow> nat \<Rightarrow> ('k op_lease \<Rightarrow> 'k op_lease) \<Rightarrow> bool" where
  "lease_change c n f \<longleftrightarrow> n < length (co_leases c) \<and>
     ol_admissionRevision (f (co_leases c ! n)) = ol_admissionRevision (co_leases c ! n) \<and>
     (ol_stage (f (co_leases c ! n)) = ol_stage (co_leases c ! n) \<or>
      runs c n \<and> ol_stage (f (co_leases c ! n)) \<noteq> Settled)"

lemma lease_change_parts:
  assumes inv: "co_inv c" and ch: "lease_change c n f"
  defines "d \<equiv> update_lease n f c"
  shows "exclusive_ok d" "successor_ok d" "ready_ok d" "idle_ok d" "counts_ok d" "gate_ok d"
proof -
  have l: "co_leases d = (co_leases c)[n := f (co_leases c ! n)]" by (simp add: d_def update_lease_def)
  have r: "runs d m = runs c m" for m by (simp add: d_def runs_def)
  have n: "n < length (co_leases c)" using ch by (simp add: lease_change_def)
  note okD = co_invD [OF inv]
  have "runs c m" if "m < length (co_leases c)" "started_stage (ol_stage (co_leases d ! m))" for m
    using that exclusive_okD(3) [OF okD(1)] ch n by (cases "m = n") (auto simp: l lease_change_def)
  moreover have "m < length (co_leases d) \<and> ol_stage (co_leases d ! m) \<noteq> Settled" if "runs c m" for m
    using exclusive_okD(1,2) [OF okD(1) that] ch n by (cases "m = n") (auto simp: l lease_change_def)
  ultimately show "exclusive_ok d" using exclusive_okD(4-6) [OF okD(1)]
    unfolding exclusive_ok_def r by (simp add: d_def)
  show "successor_ok d" using okD(2) ch n
    by (cases "co_successor c") (auto simp: successor_ok_def runs_def d_def update_lease_def nth_list_update lease_change_def)
  show "ready_ok d" using okD(3) ok_cong(3) [of d c] by (simp add: d_def)
  show "idle_ok d" using okD(4) ok_cong(4) [of d c] by (simp add: d_def)
  show "counts_ok d" using okD(6) counts_ok_cong [of d c] by (simp add: d_def)
  show "gate_ok d" using okD(7) ch by (auto simp: gate_ok_def update_lease_def nth_list_update lease_change_def d_def)
qed

lemma lease_change_inv:
  assumes "co_inv c" "lease_change c n f" and "ol_kind (f (co_leases c ! n)) = ol_kind (co_leases c ! n)"
  shows "co_inv (update_lease n f c)"
proof -
  have "computePhase (update_lease n f c) = computePhase c" using assms(2,3)
    by (cases "co_active c") (auto simp: computePhase_def lease_at_def update_lease_def nth_list_update lease_change_def)
  moreover have "last_published (update_lease n f c) = last_published c" by (rule last_published_cong) simp
  ultimately show ?thesis using lease_change_parts [OF assms(1,2)] co_invD(5) [OF assms(1)]
    by (auto simp: co_inv_def phase_ok_def)
qed

subsection \<open>Finishing\<close>

text \<open>The active operation settles: its lease leaves the running stages and its waiters are resolved.\<close>

definition settled_active :: "nat \<Rightarrow> 'k coordinator \<Rightarrow> 'k coordinator" where
  "settled_active n c = (resolveSuccessorSettlementWaiters n (set_stage n Settled c))\<lparr>co_successor := None\<rparr>"

lemma settled_active_frame [simp]:
  "co_gate (settled_active n c) = co_gate c" "co_cancelled (settled_active n c) = co_cancelled c"
  "co_lifecycle (settled_active n c) = co_lifecycle c" "co_activities (settled_active n c) = co_activities c"
  "co_releases (settled_active n c) = co_releases c" "co_phase (settled_active n c) = co_phase c"
  "co_idlePromise (settled_active n c) = co_idlePromise c" "co_resolveIdle (settled_active n c) = co_resolveIdle c"
  "co_unresolvedIdle (settled_active n c) = co_unresolvedIdle c" "co_successor (settled_active n c) = None"
  "co_notBusyWaiters (settled_active n c) = co_notBusyWaiters c"
  "co_closedResolved (settled_active n c) = co_closedResolved c"
  "co_active (settled_active n c) = co_active c" "co_published (settled_active n c) = co_published c"
  "co_leases (settled_active n c) = (co_leases c)[n := (co_leases c ! n)\<lparr>ol_stage := Settled\<rparr>]"
  by (simp_all add: settled_active_def set_stage_def update_lease_def)

lemma settled_active_ready:
  assumes "ready_ok c" "successor_ok c" "runs c n"
  shows "co_pendingReady (settled_active n c) \<subseteq>
      set_option (co_successor c) \<union> waiting_at (co_waiters (settled_active n c)) (co_successor c)"
  using assms
  by (auto simp: settled_active_def ready_ok_def successor_ok_def runs_def resolveWaiters_ready waiting_at_def js_map_simps
      set_stage_def split: option.splits)

definition go_idle :: "'k coordinator \<Rightarrow> 'k coordinator" where
  "go_idle c3 =
     (let c4 = publishPhase (resolve_idle (c3\<lparr>co_active := None\<rparr>)) in
      if co_lifecycle c4 = LifecycleClosing then finishClose c4 else c4)"

lemma finish_unfold:
  "runs c n \<Longrightarrow> finish n c =
     (case co_successor c of
        Some s \<Rightarrow>
          if s \<notin> co_cancelled c \<and> co_lifecycle c = LifecycleOpen \<and>
             gate_current (co_gate c) (ol_admissionRevision (lease_at (settled_active n c) s))
          then resolveReady s (publishPhase ((settled_active n c)\<lparr>co_active := Some s\<rparr>))
          else go_idle (resolveSuccessorSettlementWaiters s (resolveReady s
            (set_stage s Settled ((settled_active n c)\<lparr>co_cancelled := insert s (co_cancelled c)\<rparr>))))
      | None \<Rightarrow> go_idle (settled_active n c))"
  by (simp add: runs_def finish_def settled_active_def Let_def set_stage_def lease_at_def update_lease_def go_idle_def
      split: option.split)

lemma handover_inv:
  assumes inv: "co_inv c" and run: "runs c n" and suc: "co_successor c = Some s"
  shows "co_inv (resolveReady s (publishPhase ((settled_active n c)\<lparr>co_active := Some s\<rparr>)))"
proof -
  note okD = co_invD [OF inv]
  let ?d = "resolveReady s ((settled_active n c)\<lparr>co_active := Some s\<rparr>)"
  have s: "s < length (co_leases c)" "s \<noteq> n" "ol_stage (co_leases c ! s) = Admitted" "co_lifecycle c = LifecycleOpen"
    using okD(2) suc run by (auto simp: successor_ok_def runs_def)
  have n: "n < length (co_leases c)" using exclusive_okD(1) [OF okD(1) run] .
  have "exclusive_ok ?d"
  proof (rule exclusive_okI)
    fix m assume "m < length (co_leases ?d)" "started_stage (ol_stage (co_leases ?d ! m))"
    then show "runs ?d m"
      using exclusive_okD(3) [OF okD(1), of m] run n by (cases "m = n") (auto simp: runs_def started_stage_def)
  qed (use s n exclusive_okD(6) [OF okD(1)] in \<open>auto simp: runs_def\<close>)
  moreover have "successor_ok ?d" using okD(2) by (auto simp: successor_ok_def)
  moreover have "ready_ok ?d" using settled_active_ready [OF okD(3,2) run] suc
    by (auto simp: ready_ok_def)
  moreover have "idle_ok ?d" using okD(4) run by (simp add: idle_ok_def runs_def)
  moreover have "counts_ok ?d" using okD(6) counts_ok_cong [of ?d c] by simp
  moreover have "gate_ok ?d" using okD(7) n by (auto simp: gate_ok_def nth_list_update)
  moreover have "phase_ok (publishPhase ?d)" using okD(5) by (rule phase_ok_publish) simp_all
  ultimately have "co_inv (publishPhase ?d)" by (intro co_inv_publish)
  moreover have "publishPhase ?d = resolveReady s (publishPhase ((settled_active n c)\<lparr>co_active := Some s\<rparr>))"
    by (simp add: publishPhase_def resolveReady_def computePhase_def lease_at_def Let_def)
  ultimately show ?thesis by simp
qed

lemma go_idle_inv:
  assumes none: "\<And>m. m < length (co_leases d) \<Longrightarrow> \<not> started_stage (ol_stage (co_leases d ! m))"
    and can: "\<forall>x \<in> co_cancelled d. x < length (co_leases d)" and suc: "co_successor d = None"
    and ready: "co_pendingReady d = {}"
    and idle: "co_unresolvedIdle d = {i}" "co_resolveIdle d = Some i"
    and life: "co_lifecycle d \<noteq> LifecycleClosed" "\<not> co_closedResolved d"
    and phase: "phase_ok c" "co_notBusyWaiters d = co_notBusyWaiters c" "co_phase d = co_phase c"
      "co_published d = co_published c"
    and ok: "counts_ok d" "gate_ok d"
  shows "co_inv (go_idle d)"
proof -
  let ?e = "resolve_idle (d\<lparr>co_active := None\<rparr>)"
  let ?f = "publishPhase ?e"
  let ?g = "if co_lifecycle d = LifecycleClosing then finishClose ?f else ?f"
  have frame: "co_active ?g = None" "co_leases ?g = co_leases d" "co_successor ?g = None" "co_cancelled ?g = co_cancelled d"
    "co_pendingReady ?g = {}" "co_unresolvedIdle ?g = {}" "co_resolveIdle ?g = None"
    "co_phase ?g = co_phase ?f" "co_notBusyWaiters ?g = co_notBusyWaiters ?f" "co_gate ?g = co_gate d"
    "co_activities ?g = co_activities d" "co_releases ?g = co_releases d" "co_published ?g = co_published ?f"
    using suc ready idle by (simp_all add: finishClose_def resolve_idle_def)
  have life': "co_lifecycle ?g = (if co_lifecycle d = LifecycleClosing then LifecycleClosed else co_lifecycle d)"
    "co_closedResolved ?g = (co_lifecycle d = LifecycleClosing)"
    using life by (simp_all add: finishClose_def resolve_idle_def)
  have "phase_ok ?f" using phase(1) by (rule phase_ok_publish) (use phase in \<open>simp_all add: resolve_idle_def\<close>)
  then have "phase_ok ?g"
    using phase_ok_cong [of ?g ?f] frame by (simp add: resolve_idle_def)
  moreover have "exclusive_ok ?g"
    using none life life' frame(1,2) by (intro exclusive_okI) (auto simp: runs_def)
  moreover have "successor_ok ?g" using can frame(2-4) by (simp add: successor_ok_def)
  moreover have "ready_ok ?g" using frame(5) by (simp add: ready_ok_def)
  moreover have "idle_ok ?g" using frame by (simp add: idle_ok_def)
  moreover have "counts_ok ?g" using ok counts_ok_cong [of ?g d] frame by simp
  moreover have "gate_ok ?g" using ok gate_ok_cong [of ?g d] frame by simp
  ultimately have "co_inv ?g" by (simp add: co_inv_def)
  moreover have "go_idle d = ?g" by (simp add: go_idle_def Let_def resolve_idle_def)
  ultimately show ?thesis by simp
qed

lemma finish_inv:
  assumes inv: "co_inv c"
  shows "co_inv (finish n c)"
proof (cases "runs c n")
  case True
  note okD = co_invD [OF inv] and run = True
  have n: "n < length (co_leases c)" using exclusive_okD(1) [OF okD(1) run] .
  have stop: "\<not> started_stage (ol_stage (co_leases (settled_active n c) ! m))" if "m < length (co_leases c)" for m
    using exclusive_okD(3) [OF okD(1) that] run n by (cases "m = n") (auto simp: runs_def started_stage_def)
  have idle: "co_unresolvedIdle c = {co_idlePromise c}" "co_resolveIdle c = Some (co_idlePromise c)"
    using okD(4) run by (simp_all add: idle_ok_def runs_def)
  have life: "co_lifecycle c \<noteq> LifecycleClosed" "\<not> co_closedResolved c"
    using exclusive_okD(5,6) [OF okD(1)] run by (auto simp: runs_def)
  have gate: "gate_ok (settled_active n c)" using okD(7) n by (auto simp: gate_ok_def nth_list_update)
  have counts: "counts_ok (settled_active n c)" using okD(6) counts_ok_cong [of "settled_active n c" c] by simp
  show ?thesis
  proof (cases "co_successor c")
    case None
    have "co_inv (go_idle (settled_active n c))"
      using stop life idle okD(2,5) gate counts settled_active_ready [OF okD(3,2) run] None
      by (intro go_idle_inv [where c = c]) (auto simp: successor_ok_def waiting_at_def)
    then show ?thesis using run None by (simp add: finish_unfold)
  next
    case (Some s)
    let ?c2 = "settled_active n c"
    let ?d = "resolveSuccessorSettlementWaiters s (resolveReady s
               (set_stage s Settled (?c2\<lparr>co_cancelled := insert s (co_cancelled ?c2)\<rparr>)))"
    have s: "s < length (co_leases c)" using okD(2) Some by (auto simp: successor_ok_def)
    have leases: "co_leases ?d = (co_leases ?c2)[s := (co_leases ?c2 ! s)\<lparr>ol_stage := Settled\<rparr>]"
      by (simp add: set_stage_def update_lease_def)
    have "co_inv (go_idle ?d)"
    proof (rule go_idle_inv [where c = c])
      fix m assume "m < length (co_leases ?d)"
      then show "\<not> started_stage (ol_stage (co_leases ?d ! m))"
        unfolding leases using stop [of m] s by (cases "m = s") (auto simp: started_stage_def nth_list_update)
    next
      show "co_pendingReady ?d = {}" using settled_active_ready [OF okD(3,2) run] Some
        by (auto simp: resolveWaiters_ready set_stage_def)
      show "counts_ok ?d" using counts counts_ok_cong [of ?d ?c2] by (simp add: set_stage_def)
      show "gate_ok ?d" using gate s unfolding gate_ok_def leases by (auto simp: set_stage_def nth_list_update)
    qed (use s okD(2,5) idle life in \<open>auto simp: successor_ok_def set_stage_def\<close>)
    moreover have "finish n c = (if s \<notin> co_cancelled c \<and> co_lifecycle c = LifecycleOpen \<and>
        gate_current (co_gate c) (ol_admissionRevision (lease_at ?c2 s))
      then resolveReady s (publishPhase (?c2\<lparr>co_active := Some s\<rparr>)) else go_idle ?d)"
      using run Some by (simp add: finish_unfold)
    ultimately show ?thesis using handover_inv [OF inv run Some] by simp
  qed
qed (use inv in \<open>simp add: finish_def runs_def\<close>)

subsection \<open>The other operations\<close>

lemma runsD: "co_inv c \<Longrightarrow> co_active c = Some n \<Longrightarrow> runs c n \<and> n < length (co_leases c)"
  using exclusive_okD(1) [OF co_invD(1)] by (auto simp: runs_def)

lemma start_inv:
  assumes "co_inv c" shows "co_inv (snd (start n c))"
proof (cases "fst (start n c)")
  case (Inr u)
  then have "snd (start n c) = update_lease n (\<lambda>l. l\<lparr>ol_stage := Executing\<rparr>) c" "co_active c = Some n"
    by (auto simp: start_def set_stage_def split: if_splits)
  then show ?thesis using runsD [OF assms]
    by (auto intro!: lease_change_inv assms simp: lease_change_def)
next
  case (Inl e)
  then show ?thesis using finish_inv [OF assms] assms by (auto simp: start_def split: if_splits)
qed

lemma reclassify_inv:
  assumes inv: "co_inv c" shows "co_inv (snd (reclassify n kind c))"
proof (cases "fst (reclassify n kind c)")
  case True
  let ?f = "\<lambda>l. l\<lparr>ol_kind := kind\<rparr>"
  have res: "snd (reclassify n kind c) = publishPhase (update_lease n ?f c)" "co_active c = Some n"
    using True by (auto simp: reclassify_def split: if_splits)
  then have "lease_change c n ?f" using runsD [OF inv] by (auto simp: lease_change_def)
  moreover have "phase_ok (publishPhase (update_lease n ?f c))"
    using co_invD(5) [OF inv] by (rule phase_ok_publish) simp_all
  ultimately show ?thesis unfolding res using lease_change_parts [OF inv] by (intro co_inv_publish)
next
  case False
  then show ?thesis using finish_inv [OF inv] inv by (auto simp: reclassify_def split: if_splits)
qed

lemma sealTerminal_inv:
  assumes "co_inv c" shows "co_inv (snd (sealTerminal n c))"
  using runsD [OF assms, of n] assms
  by (auto simp: sealTerminal_def lease_change_def intro!: lease_change_inv)

lemma beginNotifications_inv:
  assumes "co_inv c" shows "co_inv (beginNotifications n c)"
  using runsD [OF assms, of n] assms
  by (auto simp: beginNotifications_def set_stage_def lease_change_def intro!: lease_change_inv)

lemma requestAbort_inv:
  assumes "co_inv c" shows "co_inv (snd (requestAbort source now c))"
  using runsD [OF assms] assms
  by (auto simp: requestAbort_def Let_def lease_change_def lease_at_def intro!: lease_change_inv split: option.split)

lemma requestAbort_frame:
  "co_active (snd (requestAbort source now c)) = co_active c"
  "co_lifecycle (snd (requestAbort source now c)) = co_lifecycle c"
  by (auto simp: requestAbort_def Let_def split: option.split)

lemma requestClose_inv:
  assumes inv: "co_inv c" shows "co_inv (snd (requestClose source now c))"
proof (cases "co_lifecycle c = LifecycleOpen")
  case True
  note okD = co_invD [OF inv]
  let ?c1 = "c\<lparr>co_lifecycle := LifecycleClosing, co_successor := None\<rparr>"
  let ?c2 = "case co_successor c of None \<Rightarrow> ?c1
    | Some s \<Rightarrow> resolveSuccessorSettlementWaiters s (resolveReady s (?c1\<lparr>co_cancelled := insert s (co_cancelled ?c1)\<rparr>))"
  have frame: "co_active ?c2 = co_active c" "co_leases ?c2 = co_leases c" "co_lifecycle ?c2 = LifecycleClosing"
    "co_closedResolved ?c2 = co_closedResolved c" "co_successor ?c2 = None" "co_phase ?c2 = co_phase c"
    "co_notBusyWaiters ?c2 = co_notBusyWaiters c" "co_activities ?c2 = co_activities c" "co_releases ?c2 = co_releases c"
    "co_gate ?c2 = co_gate c" "co_idlePromise ?c2 = co_idlePromise c" "co_resolveIdle ?c2 = co_resolveIdle c"
    "co_unresolvedIdle ?c2 = co_unresolvedIdle c" "co_published ?c2 = co_published c"
    by (simp_all split: option.split)
  have parts: "successor_ok ?c2" "ready_ok ?c2" "idle_ok ?c2" "counts_ok ?c2" "gate_ok ?c2" "phase_ok ?c2"
  proof -
    show "successor_ok ?c2" using okD(2) by (auto simp: successor_ok_def split: option.split)
    show "ready_ok ?c2"
    proof (cases "co_successor c")
      case None
      then show ?thesis using okD(3) by (simp add: ready_ok_def waiting_at_def)
    next
      case (Some s)
      then show ?thesis by (auto intro!: drop_successor_ready [OF okD(3,2) Some])
    qed
    show "idle_ok ?c2" using okD(4) ok_cong(4) [OF frame(1)] frame by simp
    show "counts_ok ?c2" using okD(6) counts_ok_cong frame by blast
    show "gate_ok ?c2" using okD(7) gate_ok_cong frame by blast
    show "phase_ok ?c2" using okD(5) phase_ok_cong frame by blast
  qed
  have closed: "\<not> co_closedResolved c" using exclusive_okD(6) [OF okD(1)] True by simp
  have res: "snd (requestClose source now c) =
     (if co_active c = None then finishClose ?c2 else snd (requestAbort (Some source) now ?c2))"
    using True requestAbort_frame(1) [of "Some source" now ?c2] frame(1)
    by (auto simp: requestClose_def Let_def) (simp_all add: requestAbort_def)
  show ?thesis
  proof (cases "co_active c")
    case None
    let ?d = "finishClose ?c2"
    have d: "?d = ?c2\<lparr>co_lifecycle := LifecycleClosed, co_closedResolved := True\<rparr>" using frame by (simp add: finishClose_def)
    have "exclusive_ok ?d" unfolding d using None exclusive_okD(3) [OF okD(1)] frame
      by (intro exclusive_okI) (auto simp: runs_def)
    moreover have "successor_ok ?d" using parts(1) frame(5) by (simp add: d successor_ok_def)
    moreover have "ready_ok ?d" using parts(2) ok_cong(3) [of ?d ?c2] by (simp add: d)
    moreover have "idle_ok ?d" using parts(3) ok_cong(4) [of ?d ?c2] by (simp add: d)
    moreover have "counts_ok ?d" using parts(4) counts_ok_cong [of ?d ?c2] by (simp add: d)
    moreover have "gate_ok ?d" using parts(5) gate_ok_cong [of ?d ?c2] by (simp add: d)
    moreover have "phase_ok ?d" using parts(6) phase_ok_cong [of ?d ?c2] by (simp add: d)
    ultimately show ?thesis using res None by (simp add: co_inv_def)
  next
    case (Some n)
    have r: "runs ?c2 m = runs c m" for m using frame(1) by (simp add: runs_def)
    have "exclusive_ok ?c2"
    proof (rule exclusive_okI)
      fix m assume "runs ?c2 m"
      then show "m < length (co_leases ?c2) \<and> ol_stage (co_leases ?c2 ! m) \<noteq> Settled"
        unfolding frame(2) r using exclusive_okD(1,2) [OF okD(1)] by blast
    next
      fix m assume "m < length (co_leases ?c2)" "started_stage (ol_stage (co_leases ?c2 ! m))"
      then show "runs ?c2 m" unfolding frame(2) r using exclusive_okD(3) [OF okD(1)] by blast
    qed (use Some frame closed in simp_all)
    with parts have "co_inv ?c2" by (simp add: co_inv_def)
    then show ?thesis using res Some requestAbort_inv by simp
  qed
qed (use inv in \<open>simp add: requestClose_def\<close>)

lemma publish_counts_inv:
  assumes inv: "co_inv c" and same: "co_active c' = co_active c" "co_leases c' = co_leases c" "co_lifecycle c' = co_lifecycle c"
    "co_closedResolved c' = co_closedResolved c" "co_successor c' = co_successor c" "co_cancelled c' = co_cancelled c"
    "co_waiters c' = co_waiters c" "co_pendingReady c' = co_pendingReady c" "co_idlePromise c' = co_idlePromise c"
    "co_resolveIdle c' = co_resolveIdle c" "co_unresolvedIdle c' = co_unresolvedIdle c" "co_gate c' = co_gate c"
    "co_notBusyWaiters c' = co_notBusyWaiters c" "co_phase c' = co_phase c"
    "co_published c' = co_published c"
    and counts: "counts_ok c'"
  shows "co_inv (publishPhase c')"
proof (rule co_inv_publish)
  show "phase_ok (publishPhase c')" using co_invD(5) [OF inv] same by (intro phase_ok_publish) simp_all
qed (use co_invD [OF inv] ok_cong [OF same(1)] gate_ok_cong [of c' c] same counts in simp_all)

lemma beginActivity_inv:
  assumes inv: "co_inv c" and res: "beginActivity kind c = Inr (n, c')"
  shows "co_inv c'"
proof -
  let ?d = "c\<lparr>co_activities := (co_activities c)(kind := co_activities c kind + 1), co_releases := co_releases c @ [(kind, False)]\<rparr>"
  have "c' = publishPhase ?d" using res by (auto simp: beginActivity_def split: if_splits)
  moreover have "counts_ok ?d" using co_invD(6) [OF inv] by (auto simp: counts_ok_def)
  ultimately show ?thesis using publish_counts_inv [OF inv, of ?d] by simp
qed

lemma releaseActivity_inv:
  assumes inv: "co_inv c" and n: "n < length (co_releases c)"
  shows "co_inv (releaseActivity n c)"
proof (cases "co_releases c ! n")
  case (Pair k r)
  show ?thesis
  proof (cases r)
    case False
    let ?d = "c\<lparr>co_releases := (co_releases c)[n := (k, True)], co_activities := (co_activities c)(k := co_activities c k - 1)\<rparr>"
    have "co_activities ?d j = count_list (co_releases ?d) (j, False)" for j
      using count_list_update [OF n, of "(k, True)" "(j, False)"] co_invD(6) [OF inv] Pair False
      by (auto simp: counts_ok_def split: if_splits)
    then have "counts_ok ?d" by (simp add: counts_ok_def)
    then have "co_inv (publishPhase ?d)" using publish_counts_inv [OF inv, of ?d] by simp
    then show ?thesis using Pair False by (simp add: releaseActivity_def)
  qed (use inv Pair in \<open>simp add: releaseActivity_def\<close>)
qed

lemma waitForNotBusy_inv:
  assumes inv: "co_inv c" shows "co_inv (snd (waitForNotBusy c))"
proof (cases "ph_busy (co_phase c)")
  case True
  let ?d = "c\<lparr>co_notBusyWaiters := co_notBusyWaiters c @ [co_waiterTokens c], co_waiterTokens := co_waiterTokens c + 1\<rparr>"
  have "computePhase ?d = computePhase c" by (simp add: computePhase_def lease_at_def)
  moreover have "last_published ?d = last_published c" by (rule last_published_cong) simp
  ultimately have "phase_ok ?d" using co_invD(5) [OF inv] True by (auto simp: phase_ok_def)
  moreover have "exclusive_ok ?d" using co_invD(1) [OF inv] ok_cong(1) [of ?d c] by simp
  moreover have "successor_ok ?d" using co_invD(2) [OF inv] ok_cong(2) [of ?d c] by simp
  moreover have "ready_ok ?d" using co_invD(3) [OF inv] ok_cong(3) [of ?d c] by simp
  moreover have "idle_ok ?d" using co_invD(4) [OF inv] ok_cong(4) [of ?d c] by simp
  moreover have "counts_ok ?d" using co_invD(6) [OF inv] counts_ok_cong [of ?d c] by simp
  moreover have "gate_ok ?d" using co_invD(7) [OF inv] gate_ok_cong [of ?d c] by simp
  ultimately have "co_inv ?d" by (simp add: co_inv_def)
  then show ?thesis using True by (simp add: waitForNotBusy_def)
qed (use inv in \<open>simp add: waitForNotBusy_def\<close>)

lemma gate_change_inv:
  assumes inv: "co_inv c" and "gt_holds g = count_list (gt_released g) False" and "gt_revision g \<ge> gt_revision (co_gate c)"
  shows "co_inv (c\<lparr>co_gate := g\<rparr>)" (is "co_inv ?d")
proof -
  have "gate_ok ?d" using co_invD(7) [OF inv] assms(2,3) by (fastforce simp: gate_ok_def)
  moreover have "exclusive_ok ?d" using co_invD(1) [OF inv] ok_cong(1) [of ?d c] by simp
  moreover have "successor_ok ?d" using co_invD(2) [OF inv] ok_cong(2) [of ?d c] by simp
  moreover have "ready_ok ?d" using co_invD(3) [OF inv] ok_cong(3) [of ?d c] by simp
  moreover have "idle_ok ?d" using co_invD(4) [OF inv] ok_cong(4) [of ?d c] by simp
  moreover have "counts_ok ?d" using co_invD(6) [OF inv] counts_ok_cong [of ?d c] by simp
  moreover have "phase_ok ?d" using co_invD(5) [OF inv] phase_ok_cong [of ?d c] by simp
  ultimately show ?thesis by (simp add: co_inv_def)
qed

lemma suspend_inv:
  assumes "co_inv c" shows "co_inv (c\<lparr>co_gate := snd (gate_suspend (co_gate c))\<rparr>)"
  using assms co_invD(7) [OF assms] by (intro gate_change_inv) (auto simp: gate_suspend_def gate_ok_def)

lemma release_inv:
  assumes "co_inv c" "n < length (gt_released (co_gate c))"
  shows "co_inv (c\<lparr>co_gate := gate_release n (co_gate c)\<rparr>)"
  using assms co_invD(7) [OF assms(1)] count_list_update [OF assms(2), of True False]
  by (intro gate_change_inv) (auto simp: gate_release_def gate_ok_def)

section \<open>Runs of the coordinator\<close>

text \<open>
  A step is a call of one of its operations, a suspension of the shared gate or the release of one, or
  the conversation marking a request of a lease as accepted.
\<close>

inductive co_step :: "'k coordinator \<Rightarrow> 'k coordinator \<Rightarrow> bool" where
  Reserve: "reserve kind c = Inr (r, c') \<Longrightarrow> co_step c c'"
| ReserveSuccessor: "reserveSuccessor kind c = Inr (r, c') \<Longrightarrow> co_step c c'"
| ReserveReplacing: "reserveSuccessorReplacing replaced kind c = Inr (r, c') \<Longrightarrow> co_step c c'"
| Cancel: "co_step c (snd (cancelSuccessor n c))"
| Start: "co_step c (snd (start n c))"
| Reclassify: "co_step c (snd (reclassify n kind c))"
| Seal: "co_step c (snd (sealTerminal n c))"
| Notify: "co_step c (beginNotifications n c)"
| Finish: "co_step c (finish n c)"
| Abort: "co_step c (snd (requestAbort source now c))"
| Close: "co_step c (snd (requestClose closing now c))"
| BeginActivity: "beginActivity kind' c = Inr (n, c') \<Longrightarrow> co_step c c'"
| ReleaseActivity: "n < length (co_releases c) \<Longrightarrow> co_step c (releaseActivity n c)"
| WaitNotBusy: "co_step c (snd (waitForNotBusy c))"
| Suspend: "co_step c (c\<lparr>co_gate := snd (gate_suspend (co_gate c))\<rparr>)"
| Release: "n < length (gt_released (co_gate c)) \<Longrightarrow> co_step c (c\<lparr>co_gate := gate_release n (co_gate c)\<rparr>)"
| AcceptRequest: "n < length (co_leases c) \<Longrightarrow> co_step c (update_lease n (\<lambda>l. l\<lparr>ol_requestAccepted := True\<rparr>) c)"

lemma co_step_inv:
  assumes "co_step c c'" "co_inv c" shows "co_inv c'"
  using assms
proof (cases rule: co_step.cases)
  case (AcceptRequest n)
  then show ?thesis using assms(2) by (auto simp: lease_change_def intro!: lease_change_inv)
qed (auto intro: reserve_inv reserveSuccessor_inv reserveSuccessorReplacing_inv cancelSuccessor_inv start_inv reclassify_inv
    sealTerminal_inv beginNotifications_inv finish_inv requestAbort_inv requestClose_inv beginActivity_inv
    releaseActivity_inv waitForNotBusy_inv suspend_inv release_inv)

definition new_gate :: admission_gate where
  "new_gate = \<lparr>gt_holds = 0, gt_revision = 0, gt_released = []\<rparr>"

lemma new_coordinator_inv: "co_inv (new_coordinator new_gate)"
  by (simp add: co_inv_def exclusive_ok_def successor_ok_def ready_ok_def waiting_at_def idle_ok_def phase_ok_def
      counts_ok_def gate_ok_def runs_def quiet_phase_def last_published_def new_coordinator_def new_gate_def computePhase_def ACTIVITY_KINDS_def)

lemma co_steps_inv: "co_step\<^sup>*\<^sup>* c c' \<Longrightarrow> co_inv c \<Longrightarrow> co_inv c'"
  by (induction rule: rtranclp_induct) (auto intro: co_step_inv)

section \<open>What a lease never undoes\<close>

definition op_lease_le :: "'k op_lease \<Rightarrow> 'k op_lease \<Rightarrow> bool" where
  "op_lease_le l l' \<longleftrightarrow>
     ol_admissionRevision l' = ol_admissionRevision l \<and>
     (ol_stage l = Settled \<longrightarrow> ol_stage l' = Settled) \<and>
     (ol_aborted l \<longrightarrow> ol_aborted l') \<and>
     (ol_abortSource l \<noteq> None \<longrightarrow> ol_abortSource l' = ol_abortSource l) \<and>
     (ol_sealed l \<longrightarrow> ol_sealed l' \<and> ol_aborted l' = ol_aborted l \<and> ol_abortSource l' = ol_abortSource l)"

definition co_le :: "'k coordinator \<Rightarrow> 'k coordinator \<Rightarrow> bool" where
  "co_le c c' \<longleftrightarrow>
     length (co_leases c) \<le> length (co_leases c') \<and>
     (\<forall>m < length (co_leases c). op_lease_le (co_leases c ! m) (co_leases c' ! m)) \<and>
     gt_revision (co_gate c) \<le> gt_revision (co_gate c')"

lemma op_lease_le_refl [simp]: "op_lease_le l l"
  by (simp add: op_lease_le_def)

lemma co_le_refl [simp]: "co_le c c"
  by (simp add: co_le_def)

lemma op_lease_le_trans: "op_lease_le a b \<Longrightarrow> op_lease_le b c \<Longrightarrow> op_lease_le a c"
  by (auto simp: op_lease_le_def)

lemma co_le_trans: "co_le a b \<Longrightarrow> co_le b c \<Longrightarrow> co_le a c"
  unfolding co_le_def by (meson op_lease_le_trans order_trans order_less_le_trans)

lemma co_le_same: "co_leases c' = co_leases c \<Longrightarrow> co_gate c' = co_gate c \<Longrightarrow> co_le c c'"
  by (simp add: co_le_def)

lemma co_le_update: "op_lease_le (co_leases c ! n) (f (co_leases c ! n)) \<Longrightarrow> co_le c (update_lease n f c)"
  by (cases "n < length (co_leases c)") (auto simp: co_le_def update_lease_def nth_list_update)

lemma co_le_add: "co_leases c' = co_leases c @ ls \<Longrightarrow> co_gate c' = co_gate c \<Longrightarrow> co_le c c'"
  by (simp add: co_le_def nth_append)

lemma co_le_finish: "co_le c (finish n c)"
proof (cases "runs c n")
  case True
  have settle: "op_lease_le l (l\<lparr>ol_stage := Settled\<rparr>)" for l :: "'a op_lease" by (simp add: op_lease_le_def)
  have one: "co_le c (settled_active n c)"
    using co_le_update [of c n "\<lambda>l. l\<lparr>ol_stage := Settled\<rparr>", OF settle] by (simp add: co_le_def update_lease_def)
  have two: "co_le d (resolveSuccessorSettlementWaiters s (resolveReady s (set_stage s Settled (d\<lparr>co_cancelled := x\<rparr>))))"
    for d :: "'a coordinator" and s x
    using co_le_update [of d s "\<lambda>l. l\<lparr>ol_stage := Settled\<rparr>", OF settle] by (simp add: co_le_def set_stage_def update_lease_def)
  have idle: "co_le d (go_idle d)" for d :: "'a coordinator"
    by (rule co_le_same) (simp_all add: go_idle_def Let_def finishClose_def resolve_idle_def)
  have hand: "co_le d (resolveReady s (publishPhase (d\<lparr>co_active := x\<rparr>)))" for d :: "'a coordinator" and s x
    by (rule co_le_same) simp_all
  show ?thesis using True co_le_trans [OF one hand] co_le_trans [OF one idle] co_le_trans [OF one co_le_trans [OF two idle]]
    by (auto simp: finish_unfold split: option.split)
qed (simp add: finish_def runs_def)

lemma co_le_abort: "co_le c (snd (requestAbort source now c))"
  by (auto simp: requestAbort_def Let_def lease_at_def op_lease_le_def intro!: co_le_update split: option.split)

lemma co_le_close: "co_le c (snd (requestClose closing now c))"
proof (cases "co_lifecycle c = LifecycleOpen")
  case True
  let ?c1 = "c\<lparr>co_lifecycle := LifecycleClosing, co_successor := None\<rparr>"
  let ?c2 = "case co_successor c of None \<Rightarrow> ?c1
    | Some s \<Rightarrow> resolveSuccessorSettlementWaiters s (resolveReady s (?c1\<lparr>co_cancelled := insert s (co_cancelled ?c1)\<rparr>))"
  let ?c3 = "snd (requestAbort (Some closing) now ?c2)"
  have "co_le c ?c2" by (rule co_le_same) (simp_all split: option.split)
  moreover have "co_le ?c2 ?c3" by (rule co_le_abort)
  moreover have "co_le ?c3 (if b then finishClose ?c3 else ?c3)" for b
    by (rule co_le_same) (simp_all add: finishClose_def)
  ultimately have "co_le c (if co_active ?c3 = None then finishClose ?c3 else ?c3)" by (blast intro: co_le_trans)
  then show ?thesis using True by (simp add: requestClose_def Let_def)
qed (simp add: requestClose_def)

lemma co_step_le:
  assumes "co_step c c'" shows "co_le c c'"
  using assms
proof (cases rule: co_step.cases)
  case (Reserve kind r)
  then show ?thesis
    by (auto simp: reserve_def createLease_def Let_def beginBusyPeriod_def intro!: co_le_add split: if_splits)
next
  case (ReserveSuccessor kind r)
  then show ?thesis
    by (auto simp: reserveSuccessor_def createSuccessor_def createLease_def Let_def intro!: co_le_add split: if_splits)
next
  case (ReserveReplacing replaced kind r)
  then show ?thesis
    by (auto simp: reserveSuccessorReplacing_def createSuccessor_def createLease_def Let_def intro!: co_le_add
        split: if_splits option.splits)
next
  case (Start n)
  have "op_lease_le (co_leases c ! n) ((co_leases c ! n)\<lparr>ol_stage := Executing\<rparr>)" if "ol_stage (co_leases c ! n) = Admitted"
    using that by (simp add: op_lease_le_def)
  then show ?thesis unfolding Start using co_le_finish [of c n]
    by (auto simp: start_def set_stage_def lease_at_def intro!: co_le_update)
next
  case (Reclassify n kind)
  have "co_le c (publishPhase (update_lease n (\<lambda>l. l\<lparr>ol_kind := kind\<rparr>) c))"
    using co_le_update [of c n "\<lambda>l. l\<lparr>ol_kind := kind\<rparr>"] by (simp add: co_le_def op_lease_le_def)
  then show ?thesis unfolding Reclassify using co_le_finish [of c n] by (auto simp: reclassify_def)
next
  case (Seal n)
  then show ?thesis by (auto simp: sealTerminal_def lease_at_def op_lease_le_def intro!: co_le_update)
next
  case (Notify n)
  then show ?thesis by (auto simp: beginNotifications_def set_stage_def lease_at_def op_lease_le_def intro!: co_le_update)
next
  case (Finish n)
  then show ?thesis by (simp add: co_le_finish)
next
  case (Abort source now)
  then show ?thesis by (simp add: co_le_abort)
next
  case (Close closing now)
  then show ?thesis by (simp add: co_le_close)
next
  case (AcceptRequest n)
  then show ?thesis by (auto simp: op_lease_le_def intro!: co_le_update)
qed (auto simp: cancelSuccessor_def beginActivity_def releaseActivity_def waitForNotBusy_def gate_suspend_def gate_release_def
    co_le_def Let_def split: if_splits prod.splits)

lemma co_steps_le: "co_step\<^sup>*\<^sup>* c c' \<Longrightarrow> co_le c c'"
  by (induction rule: rtranclp_induct) (auto intro: co_le_trans co_step_le)

end
