(* ===== verification/Coordinator_Correctness.thy ===== *)
theory Coordinator_Correctness
  imports Coordinator_Invariant
begin

text \<open>
  What the operation coordinator guarantees in every run, whatever the order of the calls on it, on
  its leases and on the admission gate.
\<close>

lemma list_ex_ACTIVITY_KINDS: "list_ex P ACTIVITY_KINDS \<longleftrightarrow> (\<exists>k. P k)"
  using list_all_ACTIVITY_KINDS [of "\<lambda>k. \<not> P k"] by (auto simp: list_ex_iff list_all_iff)

section \<open>A run\<close>

text \<open>A turn is reserved and started, a compaction is reserved behind it, and a bash activity runs.\<close>

definition sample_reserved :: "string coordinator" where
  "sample_reserved = snd (projr (reserve ''turn'' (new_coordinator new_gate)))"

definition sample_running :: "string coordinator" where
  "sample_running = snd (start 0 sample_reserved)"

definition sample_successor :: "string coordinator" where
  "sample_successor = snd (projr (reserveSuccessor ''compaction'' sample_running))"

definition sample_busy :: "string coordinator" where
  "sample_busy = snd (projr (beginActivity BashActivity sample_successor))"

lemma reached_reserved: "co_step\<^sup>*\<^sup>* (new_coordinator new_gate) sample_reserved"
proof -
  have "reserve ''turn'' (new_coordinator new_gate) = Inr (Some 0, sample_reserved)"
    by (simp add: sample_reserved_def reserve_def new_coordinator_def new_gate_def gate_open_def createLease_def Let_def)
  then show ?thesis by (blast intro: co_step.Reserve)
qed

lemma reached_running: "co_step\<^sup>*\<^sup>* (new_coordinator new_gate) sample_running"
  unfolding sample_running_def by (rule rtranclp.rtrancl_into_rtrancl [OF reached_reserved co_step.Start])

lemma reserved_eq:
  "sample_reserved = \<lparr>co_gate = new_gate, co_leases = [\<lparr>ol_admissionRevision = 0, ol_kind = ''turn'', ol_stage = Admitted,
     ol_sealed = False, ol_aborted = False, ol_abortSource = None, ol_diagnosticTimestamp = None, ol_requestAccepted = False\<rparr>],
     co_active = Some 0, co_successor = None, co_cancelled = {}, co_waiters = [], co_pendingReady = {},
     co_activities = (\<lambda>_. 0), co_releases = [], co_lifecycle = LifecycleOpen, co_idlePromise = 1, co_resolveIdle = Some 1,
     co_unresolvedIdle = {1}, co_notBusyWaiters = [], co_waiterTokens = 0,
     co_phase = \<lparr>ph_operation = Some ''turn'', ph_activities = (\<lambda>_. 0), ph_busy = True\<rparr>,
     co_published = [\<lparr>ph_operation = Some ''turn'', ph_activities = (\<lambda>_. 0), ph_busy = True\<rparr>], co_closedResolved = False\<rparr>"
  by (simp add: sample_reserved_def reserve_def new_coordinator_def new_gate_def gate_open_def createLease_def Let_def
      beginBusyPeriod_def publishPhase_def computePhase_def lease_at_def)

lemma running_eq: "sample_running = sample_reserved\<lparr>co_leases := [(co_leases sample_reserved ! 0)\<lparr>ol_stage := Executing\<rparr>]\<rparr>"
  by (simp add: sample_running_def start_def reserved_eq lease_at_def gate_current_def gate_open_def new_gate_def set_stage_def
      update_lease_def)

lemma successor_step: "reserveSuccessor ''compaction'' sample_running = Inr (Some 1, sample_successor)"
  by (simp add: sample_successor_def reserveSuccessor_def running_eq reserved_eq gate_open_def new_gate_def createSuccessor_def
      createLease_def)

lemma reached_successor: "co_step\<^sup>*\<^sup>* (new_coordinator new_gate) sample_successor"
  by (rule rtranclp.rtrancl_into_rtrancl [OF reached_running co_step.ReserveSuccessor [OF successor_step]])

lemma busy_step: "beginActivity BashActivity sample_successor = Inr (0, sample_busy)"
  by (simp add: sample_busy_def beginActivity_def sample_successor_def reserveSuccessor_def running_eq reserved_eq gate_open_def
      new_gate_def createSuccessor_def createLease_def)

lemma reached_busy: "co_step\<^sup>*\<^sup>* (new_coordinator new_gate) sample_busy"
  by (rule rtranclp.rtrancl_into_rtrancl [OF reached_successor co_step.BeginActivity [OF busy_step]])

lemmas sample_coordinator_defs =
  sample_busy_def beginActivity_def sample_successor_def reserveSuccessor_def running_eq reserved_eq gate_open_def
  new_gate_def createSuccessor_def createLease_def lease_at_def gate_current_def

section \<open>At rest\<close>

lemma co_inv_idle:
  assumes inv: "co_inv c" and none: "co_active c = None"
  shows "co_successor c = None" "co_pendingReady c = {}" "co_unresolvedIdle c = {}" "co_lifecycle c \<noteq> LifecycleClosing"
    "co_closedResolved c \<longleftrightarrow> co_lifecycle c \<noteq> LifecycleOpen"
proof -
  show suc: "co_successor c = None"
    using co_invD(2) [OF inv] none by (cases "co_successor c") (auto simp: successor_ok_def)
  show "co_pendingReady c = {}" using co_invD(3) [OF inv] none suc by (simp add: ready_ok_def waiting_at_def)
  show "co_unresolvedIdle c = {}" using co_invD(4) [OF inv] none by (simp add: idle_ok_def)
  show "co_lifecycle c \<noteq> LifecycleClosing" using exclusive_okD(4) [OF co_invD(1) [OF inv]] none by blast
  then show "co_closedResolved c \<longleftrightarrow> co_lifecycle c \<noteq> LifecycleOpen"
    using exclusive_okD(6) [OF co_invD(1) [OF inv]] by (cases "co_lifecycle c") auto
qed

section \<open>One exclusive operation\<close>

text \<open>
  C28: At most one exclusive operation runs. In every run of the coordinator, the leases that execute,
  terminalize or notify are at most one, the active one; a reserved successor is still admitted and
  waits behind an active operation; and a closed coordinator has neither.
\<close>

theorem coordinator_exclusive:
  assumes "co_step\<^sup>*\<^sup>* (new_coordinator new_gate) c"
  shows "(\<forall>m n. m < length (co_leases c) \<and> started_stage (ol_stage (lease_at c m)) \<and>
        n < length (co_leases c) \<and> started_stage (ol_stage (lease_at c n)) \<longrightarrow> m = n \<and> co_active c = Some m) \<and>
    (\<forall>s. co_successor c = Some s \<longrightarrow>
        co_active c \<noteq> None \<and> co_active c \<noteq> Some s \<and> ol_stage (lease_at c s) = Admitted) \<and>
    (co_lifecycle c = LifecycleClosed \<longrightarrow> co_active c = None \<and> co_successor c = None)"
proof -
  have inv: "co_inv c" by (rule co_steps_inv [OF assms new_coordinator_inv])
  have suc: "co_active c \<noteq> None \<and> co_active c \<noteq> Some s \<and> ol_stage (lease_at c s) = Admitted \<and> co_lifecycle c = LifecycleOpen"
    if "co_successor c = Some s" for s
    using co_invD(2) [OF inv] that by (auto simp: successor_ok_def runs_def lease_at_def)
  have one: "co_active c = Some m" if "m < length (co_leases c)" "started_stage (ol_stage (lease_at c m))" for m
    using exclusive_okD(3) [OF co_invD(1) [OF inv]] that by (simp add: runs_def lease_at_def)
  have "m = n \<and> co_active c = Some m" if "m < length (co_leases c)" "started_stage (ol_stage (lease_at c m))"
    "n < length (co_leases c)" "started_stage (ol_stage (lease_at c n))" for m n
    using one [OF that(1,2)] one [OF that(3,4)] by simp
  moreover have "co_active c = None \<and> co_successor c = None" if "co_lifecycle c = LifecycleClosed"
    using exclusive_okD(5) [OF co_invD(1) [OF inv] that] suc that by (cases "co_successor c") auto
  ultimately show ?thesis using suc by blast
qed

theorem coordinator_exclusive_witness:
  "started_stage (ol_stage (lease_at sample_busy 0)) \<and> co_active sample_busy = Some 0 \<and>
   \<not> started_stage (ol_stage (lease_at sample_busy 1)) \<and>
   ol_stage (lease_at sample_busy 1) = Admitted"
proof -
  have "co_successor sample_busy = Some 1" "started_stage (ol_stage (lease_at sample_busy 0))"
    "co_active sample_busy = Some 0" "length (co_leases sample_busy) = 2"
    by (simp_all add: sample_coordinator_defs started_stage_def)
  then show ?thesis using coordinator_exclusive [OF reached_busy] by (auto simp: started_stage_def)
qed

text \<open>
  C29: The published phase is true. In every run, it names the active operation's kind, counts for each
  activity the begun ones that were not released, says busy exactly when there is one of either, and
  is what the observer was told last.
\<close>

theorem coordinator_phase_truthful:
  assumes "co_step\<^sup>*\<^sup>* (new_coordinator new_gate) c"
  shows "ph_operation (co_phase c) = map_option (\<lambda>n. ol_kind (lease_at c n)) (co_active c) \<and>
    (\<forall>k. ph_activities (co_phase c) k = count_list (co_releases c) (k, False)) \<and>
    (ph_busy (co_phase c) \<longleftrightarrow> co_active c \<noteq> None \<or> (\<exists>k. (k, False) \<in> set (co_releases c))) \<and>
    co_phase c = last (\<lparr>ph_operation = None, ph_activities = (\<lambda>_. 0), ph_busy = False\<rparr> # co_published c)"
proof -
  have inv: "co_inv c" by (rule co_steps_inv [OF assms new_coordinator_inv])
  have p: "co_phase c = computePhase c" "co_phase c = last_published c" using co_invD(5) [OF inv] by (auto simp: phase_ok_def)
  have n: "co_activities c k = count_list (co_releases c) (k, False)" for k
    using co_invD(6) [OF inv] by (simp add: counts_ok_def)
  have busy: "list_ex (\<lambda>k. co_activities c k > 0) ACTIVITY_KINDS \<longleftrightarrow> (\<exists>k. (k, False) \<in> set (co_releases c))"
    unfolding list_ex_ACTIVITY_KINDS n by (simp add: neq0_conv [symmetric] count_list_0_iff del: neq0_conv)
  have "ph_busy (co_phase c) \<longleftrightarrow> co_active c \<noteq> None \<or> (\<exists>k. (k, False) \<in> set (co_releases c))"
    unfolding p(1) computePhase_def Let_def using busy by auto
  moreover have "ph_operation (co_phase c) = map_option (\<lambda>n. ol_kind (lease_at c n)) (co_active c)"
    "ph_activities (co_phase c) k = count_list (co_releases c) (k, False)" for k
    unfolding p(1) by (simp_all add: computePhase_def Let_def n)
  ultimately show ?thesis using p(2) by (simp add: last_published_def quiet_phase_def)
qed

theorem coordinator_phase_truthful_witness:
  "ph_operation (co_phase sample_busy) = Some ''turn'' \<and> ph_activities (co_phase sample_busy) BashActivity = 1"
proof -
  have "co_releases sample_busy = [(BashActivity, False)]" "co_active sample_busy = Some 0"
    "ol_kind (lease_at sample_busy 0) = ''turn''"
    by (simp_all add: sample_coordinator_defs)
  then have "count_list (co_releases sample_busy) (BashActivity, False) = 1"
    "map_option (\<lambda>n. ol_kind (lease_at sample_busy n)) (co_active sample_busy) = Some ''turn''"
    by simp_all
  then show ?thesis using coordinator_phase_truthful [OF reached_busy] by metis
qed

text \<open>
  C30: Nobody waits for ever. In every run, when no exclusive operation is active, every ready promise of
  a successor and every idle promise handed out is resolved and a requested close has completed; when
  nothing is busy, no waiter for that is left; and an active operation keeps exactly the idle promise
  of its busy period open, the one \<open>waitForIdle\<close> returns.
\<close>

theorem coordinator_resolves_waiters:
  assumes "co_step\<^sup>*\<^sup>* (new_coordinator new_gate) c"
  shows "(co_active c = None \<longrightarrow> co_pendingReady c = {} \<and> co_unresolvedIdle c = {} \<and>
        (co_lifecycle c \<noteq> LifecycleOpen \<longrightarrow> co_closedResolved c)) \<and>
    (\<not> ph_busy (co_phase c) \<longrightarrow> co_notBusyWaiters c = []) \<and>
    (co_active c \<noteq> None \<longrightarrow> co_unresolvedIdle c = {waitForIdle c})"
proof -
  have inv: "co_inv c" by (rule co_steps_inv [OF assms new_coordinator_inv])
  show ?thesis using co_inv_idle [OF inv] co_invD(4,5) [OF inv] by (auto simp: idle_ok_def phase_ok_def waitForIdle_def)
qed

theorem coordinator_resolves_waiters_witness:
  "co_unresolvedIdle sample_busy = {waitForIdle sample_busy} \<and> co_active sample_busy = Some 0"
proof -
  have "co_active sample_busy = Some 0" by (simp add: sample_coordinator_defs)
  then show ?thesis using coordinator_resolves_waiters [OF reached_busy] by simp
qed

text \<open>
  Finishing hands over or comes to rest. In every run, finishing the active operation makes the
  reserved successor the active operation, ready and able to start, when admission was not suspended
  since it was reserved; otherwise nothing is active, nobody waits, and a requested close completes.
\<close>

theorem finish_hands_over:
  assumes "co_step\<^sup>*\<^sup>* (new_coordinator new_gate) c" and "co_active c = Some n"
  shows "(case co_successor c of
      Some s \<Rightarrow> if gate_current (co_gate c) (ol_admissionRevision (lease_at c s))
        then canStart s (finish n c) \<and> s \<notin> co_pendingReady (finish n c) \<and> co_successor (finish n c) = None
        else co_active (finish n c) = None
    | None \<Rightarrow> co_active (finish n c) = None) \<and>
    (co_active (finish n c) = None \<longrightarrow> co_pendingReady (finish n c) = {} \<and> co_unresolvedIdle (finish n c) = {} \<and>
       co_lifecycle (finish n c) \<noteq> LifecycleClosing \<and> co_closedResolved (finish n c) = (co_lifecycle c \<noteq> LifecycleOpen))"
proof -
  have inv: "co_inv c" by (rule co_steps_inv [OF assms(1) new_coordinator_inv])
  have run: "runs c n" using assms(2) by (simp add: runs_def)
  have settled: "co_active (go_idle d) = None" for d :: "'a coordinator"
    by (simp add: go_idle_def Let_def finishClose_def resolve_idle_def)
  have life: "co_lifecycle (finish n c) \<noteq> LifecycleOpen \<longleftrightarrow> co_lifecycle c \<noteq> LifecycleOpen" for d :: "'a coordinator"
    using run by (auto simp: finish_unfold go_idle_def Let_def finishClose_def resolve_idle_def set_stage_def split: option.split)
  have "case co_successor c of
      Some s \<Rightarrow> if gate_current (co_gate c) (ol_admissionRevision (lease_at c s))
        then canStart s (finish n c) \<and> s \<notin> co_pendingReady (finish n c) \<and> co_successor (finish n c) = None
        else co_active (finish n c) = None
    | None \<Rightarrow> co_active (finish n c) = None"
  proof (cases "co_successor c")
    case None
    then show ?thesis using run settled by (simp add: finish_unfold)
  next
    case (Some s)
    then have "s \<noteq> n" "ol_stage (co_leases c ! s) = Admitted" "s \<notin> co_cancelled c" "co_lifecycle c = LifecycleOpen"
      using co_invD(2) [OF inv] run by (auto simp: successor_ok_def runs_def)
    then show ?thesis using run settled Some by (auto simp: finish_unfold canStart_def lease_at_def)
  qed
  then show ?thesis using co_inv_idle [OF finish_inv [OF inv]] life by blast
qed

theorem finish_hands_over_witness:
  "canStart 1 (finish 0 sample_busy) \<and> \<not> canStart 1 sample_busy"
proof -
  have f: "co_active sample_busy = Some 0" "co_successor sample_busy = Some 1"
    "gate_current (co_gate sample_busy) (ol_admissionRevision (lease_at sample_busy 1))"
    by (simp_all add: sample_coordinator_defs)
  then show ?thesis using finish_hands_over [OF reached_busy f(1)] by (simp add: canStart_def)
qed

text \<open>
  A suspension revokes every reservation. After the admission gate is suspended, whatever happens
  then, the release of the suspension included, no lease reserved before it can start: \<open>canStart\<close>
  denies it and \<open>start\<close> fails.
\<close>

theorem suspension_revokes:
  assumes "co_step\<^sup>*\<^sup>* (new_coordinator new_gate) c" and "n < length (co_leases c)"
    and "co_step\<^sup>*\<^sup>* (c\<lparr>co_gate := snd (gate_suspend (co_gate c))\<rparr>) c'"
  shows "\<not> canStart n c' \<and> (\<exists>e. fst (start n c') = Inl e)"
proof -
  let ?s = "c\<lparr>co_gate := snd (gate_suspend (co_gate c))\<rparr>"
  have inv: "co_inv c" by (rule co_steps_inv [OF assms(1) new_coordinator_inv])
  have "ol_admissionRevision (co_leases c ! n) < gt_revision (co_gate ?s)"
    using co_invD(7) [OF inv] assms(2) by (auto simp: gate_ok_def gate_suspend_def less_Suc_eq_le)
  moreover have le: "co_le ?s c'" by (rule co_steps_le [OF assms(3)])
  then have "ol_admissionRevision (co_leases c' ! n) = ol_admissionRevision (co_leases c ! n)"
    using assms(2) by (simp add: co_le_def op_lease_le_def)
  moreover have "gt_revision (co_gate ?s) \<le> gt_revision (co_gate c')" using le by (simp add: co_le_def)
  ultimately have "\<not> gate_current (co_gate c') (ol_admissionRevision (lease_at c' n))"
    by (simp add: gate_current_def lease_at_def)
  then show ?thesis by (simp add: canStart_def start_def)
qed

theorem suspension_revokes_witness:
  "let c = sample_reserved\<lparr>co_gate := snd (gate_suspend (co_gate sample_reserved))\<rparr>;
       c' = c\<lparr>co_gate := gate_release 0 (co_gate c)\<rparr>
   in canStart 0 sample_reserved \<and> gate_open (co_gate c') \<and> \<not> canStart 0 c'"
proof -
  let ?c = "sample_reserved\<lparr>co_gate := snd (gate_suspend (co_gate sample_reserved))\<rparr>"
  let ?c' = "?c\<lparr>co_gate := gate_release 0 (co_gate ?c)\<rparr>"
  have "co_step ?c ?c'" by (rule co_step.Release) (simp add: gate_suspend_def)
  then have "\<not> canStart 0 ?c'"
    using suspension_revokes [OF reached_reserved, of 0 ?c'] by (auto simp: reserved_eq)
  moreover have "gate_open (co_gate ?c')" "canStart 0 sample_reserved"
    by (simp_all add: reserved_eq gate_suspend_def gate_release_def gate_open_def new_gate_def canStart_def gate_current_def
        lease_at_def)
  ultimately show ?thesis by (simp add: Let_def)
qed

text \<open>
  Sealing decides the race with an abort. Once an operation is sealed for its terminal work,
  whatever happens then, its abort signal and its abort source stay what they were, and no abort
  request on it is accepted.
\<close>

theorem sealed_refuses_abort:
  assumes "sealTerminal n c = (True, c1)" and "n < length (co_leases c)" and "co_step\<^sup>*\<^sup>* c1 c'"
  shows "ol_sealed (lease_at c' n) \<and> ol_aborted (lease_at c' n) = ol_aborted (lease_at c n) \<and>
    ol_abortSource (lease_at c' n) = ol_abortSource (lease_at c n) \<and>
    (\<forall>source now. co_active c' = Some n \<longrightarrow>
       \<not> aa_accepted (fst (requestAbort source now c')) \<and> snd (requestAbort source now c') = c')"
proof -
  have c1: "c1 = update_lease n (\<lambda>l. l\<lparr>ol_sealed := True, ol_stage := Terminalizing\<rparr>) c"
    using assms(1) by (auto simp: sealTerminal_def split: if_splits)
  have "op_lease_le (co_leases c1 ! n) (co_leases c' ! n)"
    using co_steps_le [OF assms(3)] assms(2) by (simp add: co_le_def c1)
  then have "ol_sealed (lease_at c' n)" "ol_aborted (lease_at c' n) = ol_aborted (lease_at c n)"
    "ol_abortSource (lease_at c' n) = ol_abortSource (lease_at c n)"
    using assms(2) by (auto simp: op_lease_le_def lease_at_def c1 update_lease_def)
  then show ?thesis by (simp add: requestAbort_def Let_def)
qed

theorem sealed_refuses_abort_witness:
  "let c = snd (sealTerminal 0 sample_running) in
     aa_accepted (fst (requestAbort (Some ''user'') 7 sample_running)) \<and>
     \<not> aa_accepted (fst (requestAbort (Some ''user'') 7 c)) \<and> \<not> ol_aborted (lease_at c 0)"
proof -
  let ?c = "snd (sealTerminal 0 sample_running)"
  have "sealTerminal 0 sample_running = (True, ?c)" "0 < length (co_leases sample_running)" "co_active ?c = Some 0"
    "\<not> ol_aborted (lease_at sample_running 0)" "aa_accepted (fst (requestAbort (Some ''user'') 7 sample_running))"
    by (simp_all add: sealTerminal_def running_eq reserved_eq lease_at_def update_lease_def requestAbort_def)
  then show ?thesis using sealed_refuses_abort [of 0 sample_running ?c ?c] by (simp add: Let_def)
qed

end
