(* ===== verification/Client_Fold.thy ===== *)
theory Client_Fold
  imports Conversation_Fold
begin

text \<open>
  The client fold (\<^verbatim>\<open>packages/protocol/src/client-fold.ts\<close>): what a client knows of a conversation is the
  fold of the projected entries it received (\<^verbatim>\<open>packages/protocol/src/projected.ts\<close>). It tracks the active
  leaf, the branch's model, thinking level, fast mode and planning state, the name, the labels, the
  pending client inputs, the fork lineage and the work.

  A projected entry has its type and an optional payload; the fold reads nothing of its view but the
  submitting client's id. The builder's copy-on-write of collections is not observable and is left out.
\<close>

section \<open>Projected entries\<close>

datatype entry_type =
    TMessage | TClientInputReceipt | TClientInputQueued | TClientInputState | TThinkingLevelChange
  | TFastModeChange | TModelChange | TPlanningStateChange | TCompaction | TBranchSummary | TCustom
  | TCustomMessage | TLabel | TSessionInfo | TLeaf | TForkedFrom | TWorkStarted | TWorkCheckpoint
  | TWorkFinished

record projected_entry =
  pe_ordinal :: nat
  pe_id :: entry_id
  pe_parentId :: "entry_id option"
  pe_type :: entry_type
  pe_timestamp :: string
  pe_payload :: "entry_body option"
  pe_viewClient :: "client_message_id option"

definition isPublicProjectedEntryType :: "entry_type \<Rightarrow> bool" where
  "isPublicProjectedEntryType t \<longleftrightarrow>
     t \<notin> {TClientInputReceipt, TClientInputQueued, TClientInputState, TLeaf, TForkedFrom, TWorkStarted,
          TWorkCheckpoint, TWorkFinished}"

section \<open>The client's state\<close>

record branch_values =
  bv_model :: "model_ref option"
  bv_thinkingLevel :: thinking_level
  bv_fastMode :: bool
  bv_planning :: "json option"

record client_queued_input =
  cq_clientMessageId :: client_message_id
  cq_state :: client_input_state
  cq_ordinal :: nat
  cq_command :: "client_input_command option"
  cq_delivery :: "queued_delivery option"
  cq_origin :: bool
  cq_message :: string
  cq_imageCount :: nat

record client_work_result =
  kr_summary :: "string option"
  kr_child :: "string option"
  kr_output :: "bool option"

record client_work_item =
  k_workId :: work_id
  k_kind :: work_kind
  k_title :: string
  k_parentWorkId :: "work_id option"
  k_cancellable :: bool
  k_delivery :: work_delivery
  k_resume :: bool
  k_toolCallId :: "string option"
  k_child :: "work_child option"
  k_opens :: bool
  k_state :: work_state
  k_outcome :: "work_outcome option"
  k_progress :: "json option"
  k_detail :: "json option"
  k_result :: "client_work_result option"
  k_error :: "string option"
  k_startedOrdinal :: nat
  k_updatedOrdinal :: nat
  k_finishedOrdinal :: "nat option"
  k_startedAt :: "string option"
  k_finishedAt :: "string option"

record client_state =
  cs_ordinal :: nat
  cs_entries :: "projected_entry list"
  cs_byId :: "(entry_id, projected_entry) js_map"
  cs_earlier :: bool
  cs_leafId :: "entry_id option"
  cs_values :: branch_values
  cs_name :: "string option"
  cs_labels :: "(entry_id, conversation_label) js_map"
  cs_queue :: "client_queued_input list"
  cs_forkedFrom :: "(string \<times> entry_id option) option"
  cs_work :: "(work_id, client_work_item) js_map"
  cs_base :: branch_values

definition CLIENT_WORK_FINISHED_MAX :: nat where
  "CLIENT_WORK_FINISHED_MAX = 64"

definition DEFAULT_CLIENT_BRANCH_VALUES :: branch_values where
  "DEFAULT_CLIENT_BRANCH_VALUES =
     \<lparr>bv_model = None, bv_thinkingLevel = Off, bv_fastMode = False, bv_planning = None\<rparr>"

definition emptyClientState :: client_state where
  "emptyClientState =
     \<lparr>cs_ordinal = 0, cs_entries = [], cs_byId = [], cs_earlier = False, cs_leafId = None,
      cs_values = DEFAULT_CLIENT_BRANCH_VALUES, cs_name = None, cs_labels = [], cs_queue = [],
      cs_forkedFrom = None, cs_work = [], cs_base = DEFAULT_CLIENT_BRANCH_VALUES\<rparr>"

datatype client_fold_error =
    OrdinalNotAfter nat nat
  | DuplicateProjectedId nat entry_id
  | PositionAlready nat nat
  | BeyondSnapshot nat nat

section \<open>The held branch\<close>

function held_walk ::
    "(entry_id, projected_entry) js_map \<Rightarrow> entry_id set \<Rightarrow> entry_id option \<Rightarrow> projected_entry list" where
  "held_walk byId seen None = []"
| "held_walk byId seen (Some i) =
     (if i \<in> seen then []
      else case js_get byId i of
        None \<Rightarrow> []
      | Some e \<Rightarrow> e # held_walk byId (insert i seen) (pe_parentId e))"
  by pat_completeness auto

termination
proof (relation "measure (\<lambda>(byId, seen, _). card (set (js_keys byId) - seen))")
  fix byId :: "(entry_id, projected_entry) js_map" and seen i e
  assume i: "i \<notin> seen" "js_get byId i = Some e"
  then have "set (js_keys byId) - insert i seen \<subset> set (js_keys byId) - seen"
    using js_get_Some_key [OF i(2)] by blast
  then show "((byId, insert i seen, pe_parentId e), byId, seen, Some i)
      \<in> measure (\<lambda>(byId, seen, _). card (set (js_keys byId) - seen))"
    by (simp add: psubset_card_mono)
qed simp

definition heldBranch :: "(entry_id, projected_entry) js_map \<Rightarrow> entry_id option \<Rightarrow> projected_entry list" where
  "heldBranch byId leafId = rev (held_walk byId {} leafId)"

section \<open>Branch values\<close>

definition applyBranchValue :: "branch_values \<Rightarrow> projected_entry \<Rightarrow> branch_values" where
  "applyBranchValue v e =
     (case pe_type e of
        TModelChange \<Rightarrow> (case pe_payload e of Some (ModelChange p m) \<Rightarrow> v\<lparr>bv_model := Some (p, m)\<rparr> | _ \<Rightarrow> v)
      | TThinkingLevelChange \<Rightarrow>
          (case pe_payload e of Some (ThinkingLevelChange l) \<Rightarrow> v\<lparr>bv_thinkingLevel := l\<rparr> | _ \<Rightarrow> v)
      | TFastModeChange \<Rightarrow> (case pe_payload e of Some (FastModeChange b) \<Rightarrow> v\<lparr>bv_fastMode := b\<rparr> | _ \<Rightarrow> v)
      | TPlanningStateChange \<Rightarrow>
          (case pe_payload e of Some (PlanningStateChange j) \<Rightarrow> v\<lparr>bv_planning := Some j\<rparr> | _ \<Rightarrow> v)
      | TMessage \<Rightarrow>
          (case pe_payload e of
             Some (Message (AssistantMessage a) _) \<Rightarrow> v\<lparr>bv_model := Some (a_provider a, a_model a)\<rparr> | _ \<Rightarrow> v)
      | _ \<Rightarrow> v)"

definition rederive :: "client_state \<Rightarrow> client_state" where
  "rederive s = s\<lparr>cs_values := foldl applyBranchValue (cs_base s) (heldBranch (cs_byId s) (cs_leafId s))\<rparr>"

definition client_moveLeaf :: "entry_id option \<Rightarrow> client_state \<Rightarrow> client_state" where
  "client_moveLeaf target s =
     (if target = cs_leafId s then s else rederive (s\<lparr>cs_leafId := target\<rparr>))"

definition client_appendToBranch :: "projected_entry \<Rightarrow> client_state \<Rightarrow> client_state" where
  "client_appendToBranch e s =
     (let extendsBranch = (pe_parentId e = cs_leafId s);
          s1 = s\<lparr>cs_leafId := Some (pe_id e)\<rparr>
      in if extendsBranch then s1\<lparr>cs_values := applyBranchValue (cs_values s1) e\<rparr> else rederive s1)"

section \<open>The queue\<close>

definition upsertInput :: "client_queued_input \<Rightarrow> client_queued_input list \<Rightarrow> client_queued_input list" where
  "upsertInput q queue =
     insert_by cq_ordinal q (filter (\<lambda>c. cq_clientMessageId c \<noteq> cq_clientMessageId q) queue)"

definition removeInput :: "client_message_id \<Rightarrow> client_queued_input list \<Rightarrow> client_queued_input list" where
  "removeInput i queue = filter (\<lambda>c. cq_clientMessageId c \<noteq> i) queue"

definition find_input :: "client_message_id \<Rightarrow> client_queued_input list \<Rightarrow> client_queued_input option" where
  "find_input i queue = find (\<lambda>c. cq_clientMessageId c = i) queue"

definition receive :: "receipt_payload \<Rightarrow> nat \<Rightarrow> client_queued_input list \<Rightarrow> client_queued_input list" where
  "receive p ordinal queue = upsertInput
     \<lparr>cq_clientMessageId = rp_clientMessageId p, cq_state = Accepted, cq_ordinal = ordinal,
      cq_command = Some (rp_command p), cq_delivery = None, cq_origin = rp_origin p,
      cq_message = ci_message (rp_input p), cq_imageCount = length (ci_images (rp_input p))\<rparr> queue"

definition client_enqueue :: "queued_entry_payload \<Rightarrow> nat \<Rightarrow> client_queued_input list \<Rightarrow> client_queued_input list" where
  "client_enqueue p ordinal queue =
     (let existing = find_input (qp_clientMessageId p) queue;
          input = qp_queuedInput p
      in upsertInput
        \<lparr>cq_clientMessageId = qp_clientMessageId p, cq_state = Accepted, cq_ordinal = ordinal,
         cq_command = Option.bind existing cq_command, cq_delivery = Some (ciq_delivery input),
         cq_origin = (case existing of None \<Rightarrow> False | Some q \<Rightarrow> cq_origin q),
         cq_message = ciq_message input, cq_imageCount = length (ciq_images input)\<rparr> queue)"

definition transition :: "state_entry_payload \<Rightarrow> client_queued_input list \<Rightarrow> client_queued_input list" where
  "transition p queue =
     (case find_input (sp_clientMessageId p) queue of
        None \<Rightarrow> queue
      | Some existing \<Rightarrow>
          if sp_state p = Accepted \<or> sp_state p = Started
          then (if cq_state existing \<noteq> sp_state p
                then upsertInput (existing\<lparr>cq_state := sp_state p\<rparr>) queue else queue)
          else removeInput (sp_clientMessageId p) queue)"

section \<open>Work\<close>

type_synonym client_work = "(work_id, client_work_item) js_map"

definition client_startWork :: "work_started_payload \<Rightarrow> nat \<Rightarrow> string \<Rightarrow> client_work \<Rightarrow> client_work" where
  "client_startWork p ordinal timestamp work =
     (if js_has work (ws_workId p) then work
      else js_set work (ws_workId p)
        \<lparr>k_workId = ws_workId p, k_kind = ws_kind p, k_title = ws_title p, k_parentWorkId = ws_parentWorkId p,
         k_cancellable = ws_cancellable p, k_delivery = ws_delivery p, k_resume = ws_resume p,
         k_toolCallId = ws_toolCallId p, k_child = ws_child p, k_opens = (ws_opens p = Some True),
         k_state = ws_state p, k_outcome = None, k_progress = None, k_detail = None, k_result = None,
         k_error = None, k_startedOrdinal = ordinal, k_updatedOrdinal = ordinal, k_finishedOrdinal = None,
         k_startedAt = Some timestamp, k_finishedAt = None\<rparr>)"

definition client_checkpointWork :: "work_checkpoint_payload \<Rightarrow> nat \<Rightarrow> client_work \<Rightarrow> client_work" where
  "client_checkpointWork p ordinal work =
     (case js_get work (wc_workId p) of
        None \<Rightarrow> work
      | Some item \<Rightarrow>
          if k_outcome item \<noteq> None then work
          else js_set work (k_workId item)
            (item\<lparr>k_state := (case wc_state p of None \<Rightarrow> k_state item | Some st \<Rightarrow> st),
                  k_progress := or_keep (wc_progress p) (k_progress item),
                  k_detail := or_keep (wc_detail p) (k_detail item),
                  k_child := or_keep (wc_child p) (k_child item),
                  k_updatedOrdinal := ordinal\<rparr>))"

definition client_result :: "work_finished_payload \<Rightarrow> client_work_result option" where
  "client_result p =
     (case wf_result p of
        None \<Rightarrow> None
      | Some r \<Rightarrow>
          if wr_summary r = None \<and> wr_child r = None \<and> wr_output r = None then None
          else Some \<lparr>kr_summary = wr_summary r, kr_child = wr_child r, kr_output = map_option snd (wr_output r)\<rparr>)"

text \<open>The finished items, oldest first, and the ones beyond the bound.\<close>

definition finished_items :: "client_work \<Rightarrow> client_work_item list" where
  "finished_items work =
     sort_key (\<lambda>k. case k_finishedOrdinal k of None \<Rightarrow> 0 | Some n \<Rightarrow> n)
       (filter (\<lambda>k. k_finishedOrdinal k \<noteq> None) (js_values work))"

definition evict :: "client_work \<Rightarrow> client_work" where
  "evict work =
     foldl (\<lambda>w k. js_delete w (k_workId k)) work
       (take (length (finished_items work) - CLIENT_WORK_FINISHED_MAX) (finished_items work))"

definition client_finishWork :: "work_finished_payload \<Rightarrow> nat \<Rightarrow> string \<Rightarrow> client_work \<Rightarrow> client_work" where
  "client_finishWork p ordinal timestamp work =
     (case js_get work (wf_workId p) of
        None \<Rightarrow> work
      | Some item \<Rightarrow>
          if k_outcome item \<noteq> None then work
          else evict (js_set work (k_workId item)
            (item\<lparr>k_outcome := Some (wf_outcome p), k_result := or_keep (client_result p) (k_result item),
                  k_error := or_keep (wf_error p) (k_error item),
                  k_updatedOrdinal := ordinal, k_finishedOrdinal := Some ordinal,
                  k_finishedAt := Some timestamp\<rparr>)))"

section \<open>One entry, and the fold\<close>

definition client_setLabel ::
    "entry_id \<Rightarrow> string option \<Rightarrow> string \<Rightarrow> (entry_id, conversation_label) js_map \<Rightarrow>
     (entry_id, conversation_label) js_map" where
  "client_setLabel target label timestamp labels =
     (case label of
        Some l \<Rightarrow> if l \<noteq> '''' then js_set labels target \<lparr>lab_label = l, lab_timestamp = timestamp\<rparr>
          else js_delete labels target
      | None \<Rightarrow> js_delete labels target)"

definition apply_queue :: "projected_entry \<Rightarrow> client_queued_input list \<Rightarrow> client_queued_input list" where
  "apply_queue e queue =
     (case pe_type e of
        TClientInputReceipt \<Rightarrow>
          (case pe_payload e of Some (ClientInputReceipt p) \<Rightarrow> receive p (pe_ordinal e) queue | _ \<Rightarrow> queue)
      | TClientInputQueued \<Rightarrow>
          (case pe_payload e of Some (ClientInputQueued p) \<Rightarrow> client_enqueue p (pe_ordinal e) queue | _ \<Rightarrow> queue)
      | TClientInputState \<Rightarrow>
          (case pe_payload e of Some (ClientInputStateEntry p) \<Rightarrow> transition p queue | _ \<Rightarrow> queue)
      | TMessage \<Rightarrow>
          (case or_keep (case pe_payload e of Some (Message _ c) \<Rightarrow> c | _ \<Rightarrow> None) (pe_viewClient e) of
             None \<Rightarrow> queue | Some c \<Rightarrow> removeInput c queue)
      | _ \<Rightarrow> queue)"

definition apply_work :: "projected_entry \<Rightarrow> client_work \<Rightarrow> client_work" where
  "apply_work e work =
     (case pe_type e of
        TWorkStarted \<Rightarrow>
          (case pe_payload e of
             Some (WorkStarted p) \<Rightarrow> client_startWork p (pe_ordinal e) (pe_timestamp e) work | _ \<Rightarrow> work)
      | TWorkCheckpoint \<Rightarrow>
          (case pe_payload e of Some (WorkCheckpoint p) \<Rightarrow> client_checkpointWork p (pe_ordinal e) work | _ \<Rightarrow> work)
      | TWorkFinished \<Rightarrow>
          (case pe_payload e of
             Some (WorkFinished p) \<Rightarrow> client_finishWork p (pe_ordinal e) (pe_timestamp e) work | _ \<Rightarrow> work)
      | _ \<Rightarrow> work)"

definition applyRecords :: "projected_entry \<Rightarrow> client_state \<Rightarrow> client_state" where
  "applyRecords e s =
     s\<lparr>cs_queue := apply_queue e (cs_queue s),
       cs_work := apply_work e (cs_work s),
       cs_labels := (case pe_type e of
           TLabel \<Rightarrow> (case pe_payload e of
             Some (Label t l) \<Rightarrow> client_setLabel t l (pe_timestamp e) (cs_labels s) | _ \<Rightarrow> cs_labels s)
         | _ \<Rightarrow> cs_labels s),
       cs_name := (case pe_type e of
           TSessionInfo \<Rightarrow> (case pe_payload e of Some (SessionInfo n) \<Rightarrow> trim_or_null n | _ \<Rightarrow> cs_name s)
         | _ \<Rightarrow> cs_name s),
       cs_forkedFrom := (case pe_type e of
           TForkedFrom \<Rightarrow> (case pe_payload e of Some (ForkedFrom c i) \<Rightarrow> Some (c, i) | _ \<Rightarrow> cs_forkedFrom s)
         | _ \<Rightarrow> cs_forkedFrom s)\<rparr>"

definition client_move :: "projected_entry \<Rightarrow> client_state \<Rightarrow> client_state" where
  "client_move e s =
     (if pe_type e = TLeaf
      then (case pe_payload e of Some (Leaf t) \<Rightarrow> client_moveLeaf t s | _ \<Rightarrow> s)
      else if isPublicProjectedEntryType (pe_type e) then client_appendToBranch e s
      else s)"

definition client_apply :: "client_state \<Rightarrow> projected_entry \<Rightarrow> client_fold_error + client_state" where
  "client_apply s e =
     (if pe_ordinal e \<le> cs_ordinal s then Inl (OrdinalNotAfter (pe_ordinal e) (cs_ordinal s))
      else if js_has (cs_byId s) (pe_id e) then Inl (DuplicateProjectedId (pe_ordinal e) (pe_id e))
      else
        let s1 = s\<lparr>cs_entries := cs_entries s @ [e], cs_byId := js_set (cs_byId s) (pe_id e) e\<rparr>
        in Inr ((client_move e (applyRecords e s1))\<lparr>cs_ordinal := pe_ordinal e\<rparr>))"

definition clientFold :: "projected_entry list \<Rightarrow> client_state \<Rightarrow> client_fold_error + client_state" where
  "clientFold es s = res_fold client_apply s es"

definition clientAdvance :: "client_state \<Rightarrow> nat \<Rightarrow> client_fold_error + client_state" where
  "clientAdvance s ordinal =
     (if ordinal < cs_ordinal s then Inl (PositionAlready ordinal (cs_ordinal s))
      else Inr (s\<lparr>cs_ordinal := ordinal\<rparr>))"

section \<open>Snapshots\<close>

record client_label =
  cl_targetId :: entry_id
  cl_label :: string
  cl_timestamp :: string

record client_snapshot =
  cn_leafId :: "entry_id option"
  cn_entries :: "projected_entry list"
  cn_earlier :: bool
  cn_model :: "model_ref option"
  cn_thinkingLevel :: thinking_level
  cn_fastMode :: bool
  cn_planning :: "json option"
  cn_name :: "string option"
  cn_labels :: "client_label list"
  cn_queue :: "client_queued_input list"
  cn_forkedFrom :: "(string \<times> entry_id option) option"
  cn_work :: "client_work_item list option"

definition clientSnapshotWith :: "client_state \<Rightarrow> projected_entry list \<Rightarrow> bool \<Rightarrow> client_snapshot" where
  "clientSnapshotWith s entries earlier =
     \<lparr>cn_leafId = cs_leafId s, cn_entries = entries, cn_earlier = earlier,
      cn_model = bv_model (cs_values s), cn_thinkingLevel = bv_thinkingLevel (cs_values s),
      cn_fastMode = bv_fastMode (cs_values s), cn_planning = bv_planning (cs_values s), cn_name = cs_name s,
      cn_labels = map (\<lambda>(t, l). \<lparr>cl_targetId = t, cl_label = lab_label l, cl_timestamp = lab_timestamp l\<rparr>) (cs_labels s),
      cn_queue = cs_queue s, cn_forkedFrom = cs_forkedFrom s,
      cn_work = (if cs_work s = [] then None else Some (js_values (cs_work s)))\<rparr>"

definition clientSnapshot :: "client_state \<Rightarrow> client_snapshot" where
  "clientSnapshot s = clientSnapshotWith s (cs_entries s) (cs_earlier s)"

text \<open>The loop over a snapshot's entries: what it has read so far and the previous ordinal.\<close>

definition restore_entry ::
    "nat \<Rightarrow> projected_entry list \<times> (entry_id, projected_entry) js_map \<times> nat \<Rightarrow> projected_entry \<Rightarrow>
     client_fold_error + projected_entry list \<times> (entry_id, projected_entry) js_map \<times> nat" where
  "restore_entry ordinal acc e =
     (case acc of (entries, byId, previous) \<Rightarrow>
        if pe_ordinal e \<le> previous then Inl (OrdinalNotAfter (pe_ordinal e) previous)
        else if pe_ordinal e > ordinal then Inl (BeyondSnapshot (pe_ordinal e) ordinal)
        else if js_has byId (pe_id e) then Inl (DuplicateProjectedId (pe_ordinal e) (pe_id e))
        else Inr (entries @ [e], js_set byId (pe_id e) e, pe_ordinal e))"

definition clientRestore :: "nat \<Rightarrow> client_snapshot \<Rightarrow> client_fold_error + client_state" where
  "clientRestore ordinal n =
     res_bind (res_fold (restore_entry ordinal) ([], [], 0) (cn_entries n)) (\<lambda>(entries, byId, previous).
       let values = \<lparr>bv_model = cn_model n, bv_thinkingLevel = cn_thinkingLevel n, bv_fastMode = cn_fastMode n,
             bv_planning = cn_planning n\<rparr>
       in Inr
         \<lparr>cs_ordinal = ordinal, cs_entries = entries, cs_byId = byId, cs_earlier = cn_earlier n,
          cs_leafId = cn_leafId n, cs_values = values, cs_name = cn_name n,
          cs_labels = js_map_of (map (\<lambda>l. (cl_targetId l, \<lparr>lab_label = cl_label l, lab_timestamp = cl_timestamp l\<rparr>))
            (cn_labels n)),
          cs_queue = sort_key cq_ordinal (cn_queue n), cs_forkedFrom = cn_forkedFrom n,
          cs_work = js_map_of (map (\<lambda>k. (k_workId k, k))
            (sort_key k_startedOrdinal (case cn_work n of None \<Rightarrow> [] | Some w \<Rightarrow> w))),
          cs_base = (if cn_earlier n then values else DEFAULT_CLIENT_BRANCH_VALUES)\<rparr>)"

definition clientActiveBranch :: "client_state \<Rightarrow> projected_entry list" where
  "clientActiveBranch s = heldBranch (cs_byId s) (cs_leafId s)"

end
