(* ===== verification/Projection.thy ===== *)
theory Projection
  imports Client_Fold Fold_Tree
begin

text \<open>
  The projected log at full fidelity (\<^verbatim>\<open>packages/coding-agent/src/core/protocol/projection/entries.ts\<close>,
  \<^verbatim>\<open>projection/transcript.ts\<close>, \<^verbatim>\<open>profiles.ts\<close>): which committed entries the local profile includes, the nearest
  visible ancestor that stands for a hidden parent or leaf target, and the entry the client fold reads.
  The visibility each stored entry type has is the one of \<^verbatim>\<open>session-entry-types.ts\<close>, which
  \<^verbatim>\<open>conversation-log/entry-codec.ts\<close> enforces on every entry a session log stores.
\<close>

section \<open>Entry types and their visibility\<close>

fun entry_type_of :: "entry_body \<Rightarrow> entry_type option" where
  "entry_type_of (Message _ _) = Some TMessage"
| "entry_type_of (ClientInputReceipt _) = Some TClientInputReceipt"
| "entry_type_of (ClientInputQueued _) = Some TClientInputQueued"
| "entry_type_of (ClientInputStateEntry _) = Some TClientInputState"
| "entry_type_of (ThinkingLevelChange _) = Some TThinkingLevelChange"
| "entry_type_of (FastModeChange _) = Some TFastModeChange"
| "entry_type_of (ModelChange _ _) = Some TModelChange"
| "entry_type_of (PlanningStateChange _) = Some TPlanningStateChange"
| "entry_type_of (Compaction _) = Some TCompaction"
| "entry_type_of (BranchSummary _) = Some TBranchSummary"
| "entry_type_of (CustomEntry _ _) = Some TCustom"
| "entry_type_of (CustomMessageEntry _) = Some TCustomMessage"
| "entry_type_of (Label _ _) = Some TLabel"
| "entry_type_of (SessionInfo _) = Some TSessionInfo"
| "entry_type_of (Leaf _) = Some TLeaf"
| "entry_type_of (ForkedFrom _ _) = Some TForkedFrom"
| "entry_type_of (WorkStarted _) = Some TWorkStarted"
| "entry_type_of (WorkCheckpoint _) = Some TWorkCheckpoint"
| "entry_type_of (WorkFinished _) = Some TWorkFinished"
| "entry_type_of (Product _ _) = None"

text \<open>Product types are host records; core types have the visibility of the protocol's table.\<close>

definition shape_visibility :: "entry_body \<Rightarrow> visibility" where
  "shape_visibility b = (case core_visibility b of Some v \<Rightarrow> v | None \<Rightarrow> Host)"

definition stored_visibility :: "log_entry \<Rightarrow> bool" where
  "stored_visibility e \<longleftrightarrow> e_visibility e = shape_visibility (e_body e)"

section \<open>The local projection\<close>

definition local_includes :: "log_entry \<Rightarrow> bool" where
  "local_includes e \<longleftrightarrow> entry_type_of (e_body e) \<noteq> None"

definition HIDDEN_ANCESTOR_DEPTH :: nat where
  "HIDDEN_ANCESTOR_DEPTH = 4096"

fun visible_walk :: "nat \<Rightarrow> (log_entry \<Rightarrow> bool) \<Rightarrow> entry_map \<Rightarrow> entry_id option \<Rightarrow> entry_id option" where
  "visible_walk depth includes source None = None"
| "visible_walk 0 includes source (Some i) = None"
| "visible_walk (Suc depth) includes source (Some i) =
     (case js_get source i of
        None \<Rightarrow> Some i
      | Some e \<Rightarrow> if includes e then Some i else visible_walk depth includes source (e_parentId e))"

definition visibleAncestor :: "entry_id option \<Rightarrow> entry_map \<Rightarrow> (log_entry \<Rightarrow> bool) \<Rightarrow> entry_id option" where
  "visibleAncestor i source includes = visible_walk HIDDEN_ANCESTOR_DEPTH includes source i"

fun transcriptClientMessageId :: "entry_body \<Rightarrow> client_message_id option" where
  "transcriptClientMessageId (Message (UserMessage _) c) = c"
| "transcriptClientMessageId _ = None"

definition project_payload :: "entry_map \<Rightarrow> entry_body \<Rightarrow> entry_body" where
  "project_payload source b =
     (case b of Leaf target \<Rightarrow> Leaf (visibleAncestor target source local_includes) | _ \<Rightarrow> b)"

definition projectFoldEntry :: "entry_map \<Rightarrow> log_entry \<Rightarrow> projected_entry option" where
  "projectFoldEntry source e =
     (case entry_type_of (e_body e) of
        None \<Rightarrow> None
      | Some t \<Rightarrow> Some
          \<lparr>pe_ordinal = e_ordinal e, pe_id = e_id e,
           pe_parentId = visibleAncestor (e_parentId e) source local_includes, pe_type = t,
           pe_timestamp = e_timestamp e, pe_payload = Some (project_payload source (e_body e)),
           pe_viewClient = transcriptClientMessageId (e_body e)\<rparr>)"

text \<open>The projection of a log that the session store holds as \<open>source\<close>.\<close>

definition projectLog :: "entry_map \<Rightarrow> log_entry list \<Rightarrow> projected_entry list" where
  "projectLog source es = List.map_filter (projectFoldEntry source) es"

section \<open>Visible ancestors\<close>

lemma visible_walk_self:
  "js_get source i = Some e \<Longrightarrow> includes e \<Longrightarrow> visible_walk (Suc depth) includes source (Some i) = Some i"
  by simp

lemma visibleAncestor_None [simp]: "visibleAncestor None source includes = None"
  by (simp add: visibleAncestor_def)

lemma visibleAncestor_self:
  assumes "js_get source i = Some e" and "includes e"
  shows "visibleAncestor (Some i) source includes = Some i"
proof -
  have depth: "HIDDEN_ANCESTOR_DEPTH = Suc 4095" by (simp add: HIDDEN_ANCESTOR_DEPTH_def)
  show ?thesis unfolding visibleAncestor_def depth using assms by (rule visible_walk_self)
qed

lemma public_included: "stored_visibility e \<Longrightarrow> e_visibility e = Public \<Longrightarrow> local_includes e"
  by (cases "e_body e") (simp_all add: stored_visibility_def shape_visibility_def local_includes_def)

lemma public_type:
  "stored_visibility e \<Longrightarrow> entry_type_of (e_body e) = Some t \<Longrightarrow>
   isPublicProjectedEntryType t \<longleftrightarrow> e_visibility e = Public"
  by (cases "e_body e")
    (auto simp: stored_visibility_def shape_visibility_def isPublicProjectedEntryType_def)

text \<open>
  The walk along the path to a known entry: it takes the nearest included entry, and the root when the
  nearest \<open>depth\<close> entries of the path are all hidden.
\<close>

lemma visible_walk_path:
  assumes ok: "tree_ok source" and "known source i" and "pathTo source i = Some is"
  shows "visible_walk depth includes source i =
    find (\<lambda>j. includes (the (js_get source j))) (take depth (rev is))"
  using ok assms(2,3)
proof (induction arbitrary: depth "is" rule: path_induct)
  case Root
  then show ?case by simp
next
  case (Step i e)
  have "known source (Some i)" using Step.hyps by (simp add: known_def)
  from pathTo_Some_cases [OF ok this Step.prems] Step.hyps
  obtain js where js: "pathTo source (e_parentId e) = Some js" "is = js @ [i]" by auto
  show ?case
  proof (cases depth)
    case (Suc d)
    with Step.IH [OF js(1), of d] js(2) Step.hyps show ?thesis by simp
  qed simp
qed

end
