(* ===== verification/Client_Snapshot.thy ===== *)
theory Client_Snapshot
  imports Client_Fold "HOL-Library.Multiset"
begin

text \<open>
  The invariant of a client that folds from the first entry, that every frame it receives keeps it, and
  that its snapshot restores it: the client fold is a \<open>replay_fold\<close>.
\<close>

section \<open>The invariant\<close>

definition held_ok :: "nat \<Rightarrow> projected_entry list \<Rightarrow> (entry_id, projected_entry) js_map \<Rightarrow> bool" where
  "held_ok ordinal entries byId \<longleftrightarrow>
     byId = map (\<lambda>e. (pe_id e, e)) entries \<and> distinct (map pe_id entries) \<and> sorted_by pe_ordinal entries \<and>
     (\<forall>e \<in> set entries. 0 < pe_ordinal e \<and> pe_ordinal e \<le> ordinal)"

definition queue_ok :: "nat \<Rightarrow> client_queued_input list \<Rightarrow> bool" where
  "queue_ok ordinal queue \<longleftrightarrow>
     sorted_by cq_ordinal queue \<and> distinct (map cq_clientMessageId queue) \<and>
     (\<forall>q \<in> set queue. cq_ordinal q \<le> ordinal \<and> (cq_state q = Accepted \<or> cq_state q = Started))"

definition finished_count :: "client_work \<Rightarrow> nat" where
  "finished_count work = length (filter (\<lambda>k. k_finishedOrdinal k \<noteq> None) (js_values work))"

definition client_work_ok :: "nat \<Rightarrow> client_work \<Rightarrow> bool" where
  "client_work_ok ordinal work \<longleftrightarrow>
     js_keys work = map k_workId (js_values work) \<and> distinct (js_keys work) \<and>
     sorted_by k_startedOrdinal (js_values work) \<and>
     (\<forall>k \<in> set (js_values work). k_startedOrdinal k \<le> ordinal \<and> (k_outcome k = None \<longleftrightarrow> k_finishedOrdinal k = None)) \<and>
     finished_count work \<le> CLIENT_WORK_FINISHED_MAX"

definition client_inv :: "client_state \<Rightarrow> bool" where
  "client_inv s \<longleftrightarrow>
     held_ok (cs_ordinal s) (cs_entries s) (cs_byId s) \<and> queue_ok (cs_ordinal s) (cs_queue s) \<and>
     client_work_ok (cs_ordinal s) (cs_work s) \<and> distinct (js_keys (cs_labels s)) \<and>
     \<not> cs_earlier s \<and> cs_base s = DEFAULT_CLIENT_BRANCH_VALUES"

section \<open>The queue\<close>

lemma queue_ok_mono: "queue_ok n queue \<Longrightarrow> n \<le> m \<Longrightarrow> queue_ok m queue"
  by (auto simp: queue_ok_def)

lemma queue_ok_filter: "queue_ok n queue \<Longrightarrow> queue_ok n (filter P queue)"
  by (auto simp: queue_ok_def sorted_by_filter intro: distinct_map_filter)

lemma removeInput_ok: "queue_ok n queue \<Longrightarrow> queue_ok n (removeInput i queue)"
  by (simp add: removeInput_def queue_ok_filter)

lemma distinct_map_insert_by:
  "distinct (map g (insert_by f x xs)) \<longleftrightarrow> g x \<notin> g ` set xs \<and> distinct (map g xs)"
  by (induction xs) auto

lemma upsertInput_ok:
  assumes "queue_ok n queue" "cq_ordinal q \<le> n" "cq_state q = Accepted \<or> cq_state q = Started"
    and "\<And>c. c \<in> set queue \<Longrightarrow> cq_clientMessageId c \<noteq> cq_clientMessageId q \<Longrightarrow> cq_ordinal c \<noteq> cq_ordinal q"
  shows "queue_ok n (upsertInput q queue)"
proof -
  let ?rest = "filter (\<lambda>c. cq_clientMessageId c \<noteq> cq_clientMessageId q) queue"
  have rest: "queue_ok n ?rest" by (rule queue_ok_filter [OF assms(1)])
  then have "sorted_by cq_ordinal (insert_by cq_ordinal q ?rest)"
    using assms(4) by (intro sorted_by_insert_by) (auto simp: queue_ok_def)
  then show ?thesis using rest assms(2,3)
    by (auto simp: queue_ok_def upsertInput_def distinct_map_insert_by)
qed

lemma find_input_Some:
  "find_input i queue = Some q \<Longrightarrow> q \<in> set queue \<and> cq_clientMessageId q = i"
  by (auto simp: find_input_def find_Some_iff)

lemma apply_queue_ok:
  assumes ok: "queue_ok n queue" and new: "n < pe_ordinal e"
  shows "queue_ok (pe_ordinal e) (apply_queue e queue)"
proof -
  have ok': "queue_ok (pe_ordinal e) queue" using queue_ok_mono [OF ok] new by simp
  have old: "cq_ordinal c \<noteq> pe_ordinal e" if "c \<in> set queue" for c using ok new that by (auto simp: queue_ok_def)
  have "queue_ok (pe_ordinal e) (receive p (pe_ordinal e) queue)" for p
    unfolding receive_def using ok' old by (intro upsertInput_ok) auto
  moreover have "queue_ok (pe_ordinal e) (client_enqueue p (pe_ordinal e) queue)" for p
    unfolding client_enqueue_def Let_def using ok' old by (intro upsertInput_ok) auto
  moreover have "queue_ok (pe_ordinal e) (transition p queue)" for p
  proof (cases "find_input (sp_clientMessageId p) queue")
    case (Some q)
    note q = find_input_Some [OF Some]
    have apart: "cq_ordinal c \<noteq> cq_ordinal q" if "c \<in> set queue" "cq_clientMessageId c \<noteq> cq_clientMessageId q" for c
    proof -
      have "c \<noteq> q" using that(2) by blast
      then show ?thesis using ok q that(1) sorted_by_inj [of cq_ordinal queue c q] by (auto simp: queue_ok_def)
    qed
    have "queue_ok (pe_ordinal e) (upsertInput (q\<lparr>cq_state := st\<rparr>) queue)" if "st = Accepted \<or> st = Started" for st
      using ok' q apart that by (intro upsertInput_ok) (auto simp: queue_ok_def)
    then show ?thesis using Some ok' removeInput_ok [OF ok'] by (simp add: transition_def)
  qed (use ok' in \<open>simp add: transition_def\<close>)
  ultimately show ?thesis using ok' removeInput_ok [OF ok']
    by (simp add: apply_queue_def split: entry_type.split option.split entry_body.split)
qed

section \<open>Work\<close>

lemma js_delete_fold:
  "foldl (\<lambda>w k. js_delete w (f k)) work xs = filter (\<lambda>p. fst p \<notin> f ` set xs) work"
  by (induction xs arbitrary: work) (auto simp: js_delete_def intro!: filter_cong)

lemma js_values_filter:
  assumes "js_keys work = map f (js_values work)"
  shows "js_values (filter (\<lambda>p. P (fst p)) work) = filter (\<lambda>k. P (f k)) (js_values work)"
    "js_keys (filter (\<lambda>p. P (fst p)) work) = map f (js_values (filter (\<lambda>p. P (fst p)) work))"
  using assms by (induction work) (auto simp: js_keys_def js_values_def)

lemma js_pairs: "js_keys m = map f (js_values m) \<Longrightarrow> map (\<lambda>k. (f k, k)) (js_values m) = m"
  by (induction m) (auto simp: js_keys_def js_values_def)

definition evicted :: "client_work \<Rightarrow> client_work_item list" where
  "evicted work = take (length (finished_items work) - CLIENT_WORK_FINISHED_MAX) (finished_items work)"

lemma evict_alt: "evict work = filter (\<lambda>p. fst p \<notin> k_workId ` set (evicted work)) work"
  by (simp add: evict_def evicted_def js_delete_fold)

lemma length_finished_items: "length (finished_items work) = finished_count work"
  by (simp add: finished_items_def finished_count_def)

lemma set_finished_items: "set (finished_items work) = {k \<in> set (js_values work). k_finishedOrdinal k \<noteq> None}"
  by (simp add: finished_items_def)

text \<open>What is left after an eviction: every open item, and at most the bound of finished ones.\<close>

lemma finished_after_evict:
  assumes keys: "js_keys work = map k_workId (js_values work)" and dist: "distinct (js_keys work)"
  shows "finished_count (evict work) \<le> CLIENT_WORK_FINISHED_MAX"
proof -
  let ?n = "length (finished_items work) - CLIENT_WORK_FINISHED_MAX"
  let ?F = "finished_items work" and ?P = "\<lambda>k. k_workId k \<notin> k_workId ` set (evicted work)"
  let ?f = "\<lambda>k. case k_finishedOrdinal k of None \<Rightarrow> 0 | Some n \<Rightarrow> n"
  have vals: "js_values (evict work) = filter ?P (js_values work)"
    unfolding evict_alt by (rule js_values_filter(1) [OF keys])
  have "filter (\<lambda>k. k_finishedOrdinal k \<noteq> None) (filter ?P (js_values work)) =
      filter ?P (filter (\<lambda>k. k_finishedOrdinal k \<noteq> None) (js_values work))"
    by (simp add: conj_commute)
  moreover have "mset (filter ?P (filter (\<lambda>k. k_finishedOrdinal k \<noteq> None) (js_values work))) = mset (filter ?P ?F)"
    by (simp only: finished_items_def mset_filter mset_sort)
  ultimately have count: "finished_count (evict work) = length (filter ?P ?F)"
    unfolding finished_count_def vals by (metis size_mset)
  have "filter ?P (take ?n ?F) = []" by (simp add: evicted_def filter_empty_conv)
  then have "length (filter ?P ?F) = length (filter ?P (drop ?n ?F))"
    by (metis append_take_drop_id filter_append append_Nil)
  also have "\<dots> \<le> length (drop ?n ?F)" by (rule length_filter_le)
  finally show ?thesis unfolding count by simp
qed

lemma evict_ok:
  assumes keys: "js_keys work = map k_workId (js_values work)" and dist: "distinct (js_keys work)"
    and sorted: "sorted_by k_startedOrdinal (js_values work)"
    and items: "\<forall>k \<in> set (js_values work). k_startedOrdinal k \<le> n \<and> (k_outcome k = None \<longleftrightarrow> k_finishedOrdinal k = None)"
  shows "client_work_ok n (evict work)"
proof -
  let ?P = "\<lambda>i. i \<notin> k_workId ` set (evicted work)"
  have vals: "js_values (evict work) = filter (\<lambda>k. ?P (k_workId k)) (js_values work)"
    "js_keys (evict work) = map k_workId (js_values (evict work))"
    unfolding evict_alt using js_values_filter [OF keys, of ?P] by simp_all
  have "distinct (map k_workId (js_values work))" using keys dist by simp
  then have "distinct (js_keys (evict work))" unfolding vals(2) vals(1) by (rule distinct_map_filter)
  then show ?thesis using vals sorted items finished_after_evict [OF keys dist]
    by (auto simp: client_work_ok_def sorted_by_filter)
qed

lemma js_set_item:
  assumes keys: "js_keys work = map k_workId (js_values work)" and dist: "distinct (js_keys work)"
    and old: "js_get work (k_workId item') = Some item" and same: "k_startedOrdinal item' = k_startedOrdinal item"
    and sorted: "sorted_by k_startedOrdinal (js_values work)"
  defines "work' \<equiv> js_set work (k_workId item') item'"
  shows "js_keys work' = map k_workId (js_values work')" "distinct (js_keys work')"
    "sorted_by k_startedOrdinal (js_values work')"
    "js_values work' = map (\<lambda>k. if k_workId k = k_workId item' then item' else k) (js_values work)"
proof -
  have key: "k_workId item' \<in> set (js_keys work)" by (rule js_get_Some_key [OF old])
  show vals: "js_values work' = map (\<lambda>k. if k_workId k = k_workId item' then item' else k) (js_values work)"
    unfolding work'_def js_set_present [OF key dist] using keys
    by (induction work) (auto simp: js_values_def js_keys_def)
  have ks: "js_keys work' = js_keys work" using key by (simp add: work'_def js_keys_set)
  show "distinct (js_keys work')" using dist ks by simp
  show "js_keys work' = map k_workId (js_values work')" unfolding ks keys vals by simp
  have item: "k = item" if "k \<in> set (js_values work)" "k_workId k = k_workId item'" for k
  proof -
    have "(k_workId k, k) \<in> set work" using that(1) keys
      by (induction work) (auto simp: js_values_def js_keys_def)
    then show ?thesis using js_get_mem [OF dist] old that(2) by fastforce
  qed
  have "map k_startedOrdinal (js_values work') = map k_startedOrdinal (js_values work)"
    unfolding vals using item same by auto
  then show "sorted_by k_startedOrdinal (js_values work')"
    using sorted by (metis sorted_by_def sorted_wrt_map)
qed

lemma client_work_okD:
  assumes "client_work_ok n work"
  shows "js_keys work = map k_workId (js_values work)" "distinct (js_keys work)"
    "sorted_by k_startedOrdinal (js_values work)"
    "k \<in> set (js_values work) \<Longrightarrow> k_startedOrdinal k \<le> n"
    "k \<in> set (js_values work) \<Longrightarrow> k_outcome k = None \<longleftrightarrow> k_finishedOrdinal k = None"
    "finished_count work \<le> CLIENT_WORK_FINISHED_MAX"
  using assms unfolding client_work_ok_def by blast+

lemma client_work_mono: "client_work_ok n work \<Longrightarrow> n \<le> m \<Longrightarrow> client_work_ok m work"
  unfolding client_work_ok_def by (meson order_trans)

lemma client_work_get:
  assumes "client_work_ok n work" and "js_get work w = Some item"
  shows "k_workId item = w" "item \<in> set (js_values work)"
proof -
  show "item \<in> set (js_values work)" by (rule js_get_value [OF assms(2)])
  have "(w, item) \<in> set work" using js_get_mem_iff [OF client_work_okD(2) [OF assms(1)]] assms(2) by blast
  then show "k_workId item = w" using client_work_okD(1) [OF assms(1)]
    by (induction work) (auto simp: js_values_def js_keys_def)
qed

lemma client_startWork_ok:
  assumes ok: "client_work_ok n work" and new: "n < ordinal"
  shows "client_work_ok ordinal (client_startWork p ordinal t work)"
proof (cases "js_has work (ws_workId p)")
  case False
  define k where "k = \<lparr>k_workId = ws_workId p, k_kind = ws_kind p, k_title = ws_title p, k_parentWorkId = ws_parentWorkId p,
       k_cancellable = ws_cancellable p, k_delivery = ws_delivery p, k_resume = ws_resume p,
       k_toolCallId = ws_toolCallId p, k_child = ws_child p, k_opens = (ws_opens p = Some True),
       k_state = ws_state p, k_outcome = None, k_progress = None, k_detail = None, k_result = None,
       k_error = None, k_startedOrdinal = ordinal, k_updatedOrdinal = ordinal, k_finishedOrdinal = None,
       k_startedAt = Some t, k_finishedAt = None\<rparr>"
  have "client_startWork p ordinal t work = work @ [(ws_workId p, k)]"
    using False js_set_fresh [of "ws_workId p" work] by (simp add: client_startWork_def js_has_iff_keys k_def)
  moreover have "k_workId k = ws_workId p" "k_startedOrdinal k = ordinal" "k_outcome k = None" "k_finishedOrdinal k = None"
    by (simp_all add: k_def)
  moreover have "\<forall>x \<in> set (js_values work). k_startedOrdinal x < ordinal"
    using client_work_okD(4) [OF ok] new by (meson order_le_less_trans)
  ultimately show ?thesis using client_work_okD [OF ok] False unfolding client_work_ok_def
    by (simp add: sorted_by_append finished_count_def js_has_iff_keys) (metis order_less_imp_le)
qed (use ok new client_work_mono [OF ok] in \<open>simp add: client_startWork_def\<close>)

lemma set_item_ok:
  assumes ok: "client_work_ok n work" and new: "n < ordinal" and old: "js_get work (k_workId item') = Some item"
    and same: "k_startedOrdinal item' = k_startedOrdinal item" "k_outcome item' = None \<longleftrightarrow> k_finishedOrdinal item' = None"
  defines "work' \<equiv> js_set work (k_workId item') item'"
  shows "js_keys work' = map k_workId (js_values work')" "distinct (js_keys work')" "sorted_by k_startedOrdinal (js_values work')"
    "\<forall>k \<in> set (js_values work'). k_startedOrdinal k \<le> ordinal \<and> (k_outcome k = None \<longleftrightarrow> k_finishedOrdinal k = None)"
proof -
  note okD = client_work_okD [OF ok]
  note set = js_set_item [OF okD(1,2) old same(1) okD(3)]
  have "k_startedOrdinal item' \<le> ordinal"
    using okD(4) [OF client_work_get(2) [OF ok old]] same(1) new by simp
  then show "\<forall>k \<in> set (js_values work'). k_startedOrdinal k \<le> ordinal \<and> (k_outcome k = None \<longleftrightarrow> k_finishedOrdinal k = None)"
    unfolding work'_def set(4) using okD(4,5) new same(2) by (fastforce dest: okD(4))
  show "js_keys work' = map k_workId (js_values work')" "distinct (js_keys work')" "sorted_by k_startedOrdinal (js_values work')"
    unfolding work'_def by (rule set)+
qed

lemma client_checkpointWork_ok:
  assumes ok: "client_work_ok n work" and new: "n < ordinal"
  shows "client_work_ok ordinal (client_checkpointWork p ordinal work)"
proof (cases "js_get work (wc_workId p)")
  case (Some item)
  show ?thesis
  proof (cases "k_outcome item = None")
    case True
    define item' where "item' = item\<lparr>k_state := (case wc_state p of None \<Rightarrow> k_state item | Some st \<Rightarrow> st),
                k_progress := or_keep (wc_progress p) (k_progress item),
                k_detail := or_keep (wc_detail p) (k_detail item),
                k_child := or_keep (wc_child p) (k_child item), k_updatedOrdinal := ordinal\<rparr>"
    note item = client_work_get [OF ok Some]
    have f: "k_workId item' = k_workId item" "k_startedOrdinal item' = k_startedOrdinal item" "k_outcome item' = None"
      "k_finishedOrdinal item' = k_finishedOrdinal item" "k_finishedOrdinal item = None"
      using True client_work_okD(5) [OF ok item(2)] by (simp_all add: item'_def)
    have old: "js_get work (k_workId item') = Some item" using Some item(1) f(1) by simp
    have only: "k = item" if "k \<in> set (js_values work)" "k_workId k = k_workId item" for k
      using that client_work_okD(1,2) [OF ok] item(2) by (auto simp: distinct_map inj_on_def)
    have same_fin: "k_finishedOrdinal (if k_workId k = k_workId item' then item' else k) = k_finishedOrdinal k"
      if "k \<in> set (js_values work)" for k using only [OF that] f by auto
    have "finished_count (js_set work (k_workId item') item') = finished_count work"
      unfolding finished_count_def js_set_item(4) [OF client_work_okD(1,2) [OF ok] old f(2) client_work_okD(3) [OF ok]]
      using same_fin by (simp add: filter_map comp_def cong: filter_cong)
    then show ?thesis
      using set_item_ok [OF ok new old f(2)] f Some True client_work_okD(6) [OF ok]
      unfolding client_checkpointWork_def client_work_ok_def by (simp add: item'_def [symmetric])
  qed (use client_work_mono [OF ok] new Some in \<open>simp add: client_checkpointWork_def\<close>)
qed (use client_work_mono [OF ok] new in \<open>simp add: client_checkpointWork_def\<close>)

lemma client_finishWork_ok:
  assumes ok: "client_work_ok n work" and new: "n < ordinal"
  shows "client_work_ok ordinal (client_finishWork p ordinal t work)"
proof (cases "js_get work (wf_workId p)")
  case (Some item)
  show ?thesis
  proof (cases "k_outcome item = None")
    case True
    define item' where "item' = item\<lparr>k_outcome := Some (wf_outcome p), k_result := or_keep (client_result p) (k_result item),
                  k_error := or_keep (wf_error p) (k_error item),
                  k_updatedOrdinal := ordinal, k_finishedOrdinal := Some ordinal, k_finishedAt := Some t\<rparr>"
    have old: "js_get work (k_workId item') = Some item" using Some client_work_get(1) [OF ok Some] by (simp add: item'_def)
    have f: "k_startedOrdinal item' = k_startedOrdinal item" "k_outcome item' = None \<longleftrightarrow> k_finishedOrdinal item' = None"
      by (simp_all add: item'_def)
    have "client_work_ok ordinal (evict (js_set work (k_workId item') item'))"
      by (rule evict_ok) (rule set_item_ok [OF ok new old f])+
    then show ?thesis using Some True by (simp add: client_finishWork_def item'_def)
  qed (use client_work_mono [OF ok] new Some in \<open>simp add: client_finishWork_def\<close>)
qed (use client_work_mono [OF ok] new in \<open>simp add: client_finishWork_def\<close>)

lemma apply_work_ok:
  "client_work_ok n work \<Longrightarrow> n < pe_ordinal e \<Longrightarrow> client_work_ok (pe_ordinal e) (apply_work e work)"
  using client_startWork_ok client_checkpointWork_ok client_finishWork_ok client_work_mono [of n work "pe_ordinal e"]
  by (simp add: apply_work_def split: entry_type.split option.split entry_body.split)

section \<open>The state\<close>

lemma move_frame [simp]:
  "cs_entries (client_move e s) = cs_entries s" "cs_byId (client_move e s) = cs_byId s"
  "cs_earlier (client_move e s) = cs_earlier s" "cs_base (client_move e s) = cs_base s"
  "cs_queue (client_move e s) = cs_queue s" "cs_work (client_move e s) = cs_work s"
  "cs_labels (client_move e s) = cs_labels s" "cs_name (client_move e s) = cs_name s"
  "cs_forkedFrom (client_move e s) = cs_forkedFrom s" "cs_ordinal (client_move e s) = cs_ordinal s"
  by (simp_all add: client_move_def client_moveLeaf_def client_appendToBranch_def rederive_def Let_def
      split: option.split entry_body.split)

lemma client_applyD:
  assumes "client_apply s e = Inr s'"
  shows "cs_ordinal s < pe_ordinal e" "pe_id e \<notin> set (js_keys (cs_byId s))"
    "cs_entries s' = cs_entries s @ [e]" "cs_byId s' = cs_byId s @ [(pe_id e, e)]" "cs_ordinal s' = pe_ordinal e"
    "cs_queue s' = apply_queue e (cs_queue s)" "cs_work s' = apply_work e (cs_work s)"
    "cs_earlier s' = cs_earlier s" "cs_base s' = cs_base s"
    "s' = (client_move e (applyRecords e (s\<lparr>cs_entries := cs_entries s @ [e], cs_byId := cs_byId s @ [(pe_id e, e)]\<rparr>)))
        \<lparr>cs_ordinal := pe_ordinal e\<rparr>"
proof -
  have guard: "cs_ordinal s < pe_ordinal e" "pe_id e \<notin> set (js_keys (cs_byId s))"
    and s': "s' = (client_move e (applyRecords e (s\<lparr>cs_entries := cs_entries s @ [e], cs_byId := js_set (cs_byId s) (pe_id e) e\<rparr>)))
        \<lparr>cs_ordinal := pe_ordinal e\<rparr>"
    using assms by (auto simp: client_apply_def Let_def js_has_iff_keys split: if_splits)
  show "cs_ordinal s < pe_ordinal e" "pe_id e \<notin> set (js_keys (cs_byId s))" by (rule guard)+
  show "s' = (client_move e (applyRecords e (s\<lparr>cs_entries := cs_entries s @ [e], cs_byId := cs_byId s @ [(pe_id e, e)]\<rparr>)))
        \<lparr>cs_ordinal := pe_ordinal e\<rparr>" using s' js_set_fresh [OF guard(2)] by simp
  then show "cs_entries s' = cs_entries s @ [e]" "cs_byId s' = cs_byId s @ [(pe_id e, e)]" "cs_ordinal s' = pe_ordinal e"
    "cs_queue s' = apply_queue e (cs_queue s)" "cs_work s' = apply_work e (cs_work s)"
    "cs_earlier s' = cs_earlier s" "cs_base s' = cs_base s"
    by (simp_all add: applyRecords_def)
qed

lemma client_setLabel_distinct:
  "distinct (js_keys labels) \<Longrightarrow> distinct (js_keys (client_setLabel t l ts labels))"
  by (auto simp: client_setLabel_def js_keys_set js_keys_delete split: option.split)

lemma client_apply_labels:
  assumes "client_apply s e = Inr s'" "distinct (js_keys (cs_labels s))"
  shows "distinct (js_keys (cs_labels s'))"
  using assms(2) client_setLabel_distinct [OF assms(2)] client_applyD(10) [OF assms(1)]
  by (simp add: applyRecords_def split: entry_type.split option.split entry_body.split)

lemma held_ok_snoc:
  assumes "held_ok n entries byId" "n < pe_ordinal e" "pe_id e \<notin> set (js_keys byId)"
  shows "held_ok (pe_ordinal e) (entries @ [e]) (byId @ [(pe_id e, e)])"
  using assms by (force simp: held_ok_def sorted_by_append js_keys_def)

lemma client_inv_apply:
  assumes inv: "client_inv s" and step: "client_apply s e = Inr s'"
  shows "client_inv s'"
proof -
  note d = client_applyD [OF step]
  show ?thesis unfolding client_inv_def d(3-9)
    using inv d(1,2) held_ok_snoc apply_queue_ok apply_work_ok client_apply_labels [OF step]
    unfolding client_inv_def by blast
qed

lemma client_inv_advance:
  assumes "client_inv s" and "clientAdvance s n = Inr s'"
  shows "client_inv s'"
proof -
  have s': "s' = s\<lparr>cs_ordinal := n\<rparr>" "cs_ordinal s \<le> n" using assms(2) by (auto simp: clientAdvance_def split: if_splits)
  then show ?thesis using assms(1) queue_ok_mono client_work_mono
    by (fastforce simp: client_inv_def held_ok_def)
qed

section \<open>Restoring\<close>

lemma restore_entries:
  assumes "sorted_by pe_ordinal es" "distinct (map pe_id es)" "\<forall>e \<in> set es. previous < pe_ordinal e \<and> pe_ordinal e \<le> n"
    and "\<forall>e \<in> set es. pe_id e \<notin> set (js_keys byId)"
  shows "\<exists>last. res_fold (restore_entry n) (held, byId, previous) es =
      Inr (held @ es, byId @ map (\<lambda>e. (pe_id e, e)) es, last)"
  using assms
proof (induction es arbitrary: held byId previous)
  case (Cons e es)
  have step: "restore_entry n (held, byId, previous) e = Inr (held @ [e], byId @ [(pe_id e, e)], pe_ordinal e)"
    using Cons.prems js_set_fresh [of "pe_id e" byId] by (simp add: restore_entry_def js_has_iff_keys)
  have "\<exists>last. res_fold (restore_entry n) (held @ [e], byId @ [(pe_id e, e)], pe_ordinal e) es =
      Inr ((held @ [e]) @ es, (byId @ [(pe_id e, e)]) @ map (\<lambda>e. (pe_id e, e)) es, last)"
    using Cons.prems by (intro Cons.IH) (auto simp: image_iff)
  then show ?case using step by simp
qed simp

text \<open>A snapshot restores everything but the entries it carries and where branch values start.\<close>

lemma restore_snapshot_with:
  assumes inv: "client_inv s" and entries: "res_fold (restore_entry (cs_ordinal s)) ([], [], 0) es = Inr (held, byId, prev)"
  shows "clientRestore (cs_ordinal s) (clientSnapshotWith s es earlier) =
    Inr (s\<lparr>cs_entries := held, cs_byId := byId, cs_earlier := earlier,
      cs_base := (if earlier then cs_values s else DEFAULT_CLIENT_BRANCH_VALUES)\<rparr>)"
proof -
  have queue: "queue_ok (cs_ordinal s) (cs_queue s)"
    and work: "client_work_ok (cs_ordinal s) (cs_work s)" and labels: "distinct (js_keys (cs_labels s))"
    using inv by (simp_all add: client_inv_def)
  have "sort_key cq_ordinal (cs_queue s) = cs_queue s"
    using queue sorted_by_distinct by (intro sort_key_sorted_by) (auto simp: queue_ok_def)
  moreover have "js_map_of (map (\<lambda>k. (k_workId k, k)) (sort_key k_startedOrdinal (js_values (cs_work s)))) = cs_work s"
  proof -
    note w = client_work_okD [OF work]
    have "sort_key k_startedOrdinal (js_values (cs_work s)) = js_values (cs_work s)"
      using w(3) sorted_by_distinct by (intro sort_key_sorted_by) auto
    moreover have "map (\<lambda>k. (k_workId k, k)) (js_values (cs_work s)) = cs_work s"
      by (rule js_pairs [OF w(1)])
    ultimately show ?thesis using js_map_of_id [OF w(2)] by simp
  qed
  moreover have "js_map_of (map (\<lambda>l. (cl_targetId l, \<lparr>lab_label = cl_label l, lab_timestamp = cl_timestamp l\<rparr>))
      (map (\<lambda>(t, l). \<lparr>cl_targetId = t, cl_label = lab_label l, cl_timestamp = lab_timestamp l\<rparr>) (cs_labels s))) = cs_labels s"
  proof -
    have "map (\<lambda>l. (cl_targetId l, \<lparr>lab_label = cl_label l, lab_timestamp = cl_timestamp l\<rparr>))
        (map (\<lambda>(t, l). \<lparr>cl_targetId = t, cl_label = lab_label l, cl_timestamp = lab_timestamp l\<rparr>) ls) = ls"
      for ls :: "(entry_id, conversation_label) js_map" by (induction ls) auto
    then show ?thesis using js_map_of_id [OF labels] by simp
  qed
  ultimately show ?thesis using entries
    by (auto simp: clientRestore_def clientSnapshotWith_def Let_def)
qed

lemma restore_clientSnapshot:
  assumes inv: "client_inv s"
  shows "clientRestore (cs_ordinal s) (clientSnapshot s) = Inr s"
proof -
  have held: "held_ok (cs_ordinal s) (cs_entries s) (cs_byId s)"
    and base: "\<not> cs_earlier s" "cs_base s = DEFAULT_CLIENT_BRANCH_VALUES" using inv by (simp_all add: client_inv_def)
  obtain last where "res_fold (restore_entry (cs_ordinal s)) ([], [], 0) (cs_entries s) = Inr (cs_entries s, cs_byId s, last)"
    using restore_entries [of "cs_entries s" 0 "cs_ordinal s" "[]" "[]"] held by (auto simp: held_ok_def)
  from restore_snapshot_with [OF inv this] base show ?thesis by (simp add: clientSnapshot_def)
qed

section \<open>The client as a replayable fold\<close>

text \<open>What a subscription sends: entries, and positions that cover the entries the profile hides.\<close>

datatype client_frame = EntryFrame projected_entry | HeadFrame nat

fun client_frame_step :: "client_state \<Rightarrow> client_frame \<Rightarrow> client_fold_error + client_state" where
  "client_frame_step s (EntryFrame e) = client_apply s e"
| "client_frame_step s (HeadFrame n) = clientAdvance s n"

definition client_checkpoint :: "client_state \<Rightarrow> nat \<times> client_snapshot" where
  "client_checkpoint s = (cs_ordinal s, clientSnapshot s)"

definition client_resume :: "nat \<times> client_snapshot \<Rightarrow> client_fold_error + client_state" where
  "client_resume c = clientRestore (fst c) (snd c)"

lemma client_inv_empty: "client_inv emptyClientState"
  by (simp add: client_inv_def emptyClientState_def held_ok_def queue_ok_def client_work_ok_def finished_count_def)

interpretation client: replay_fold client_frame_step emptyClientState client_checkpoint client_resume client_inv
proof unfold_locales
  show "client_inv emptyClientState" by (rule client_inv_empty)
next
  fix s a s' assume "client_inv s" "client_frame_step s a = Inr s'"
  then show "client_inv s'" by (cases a) (auto intro: client_inv_apply client_inv_advance)
next
  fix s assume "client_inv s"
  then show "client_resume (client_checkpoint s) = Inr s"
    by (simp add: client_resume_def client_checkpoint_def restore_clientSnapshot)
qed

lemma clientFold_inv: "clientFold es emptyClientState = Inr s \<Longrightarrow> client_inv s"
  unfolding clientFold_def
  by (erule res_fold_invariant) (auto intro: client_inv_empty client_inv_apply)

end
