(* ===== verification/Client_Agreement.thy ===== *)
theory Client_Agreement
  imports Projection Client_Snapshot Fold_Snapshot
begin

text \<open>
  The client fold of a log's local projection tracks the kernel fold of the log: the relation between a
  kernel state and the client state of its projection, component by component, and that every entry
  the kernel accepts keeps it.
\<close>

section \<open>What the projection keeps of an entry\<close>

lemma projectFoldEntry_Some:
  "projectFoldEntry source e = Some p \<Longrightarrow>
   pe_ordinal p = e_ordinal e \<and> pe_id p = e_id e \<and> pe_timestamp p = e_timestamp e \<and>
   entry_type_of (e_body e) = Some (pe_type p) \<and> pe_payload p = Some (project_payload source (e_body e)) \<and>
   pe_parentId p = visibleAncestor (e_parentId e) source local_includes \<and>
   pe_viewClient p = transcriptClientMessageId (e_body e)"
  by (auto simp: projectFoldEntry_def split: option.splits)

lemma projectFoldEntry_included: "local_includes e \<Longrightarrow> \<exists>p. projectFoldEntry source e = Some p"
  by (auto simp: projectFoldEntry_def local_includes_def split: option.split)

definition projected :: "entry_map \<Rightarrow> log_entry \<Rightarrow> projected_entry" where
  "projected source e = the (projectFoldEntry source e)"

lemma projected_eq: "projectFoldEntry source e = Some p \<Longrightarrow> projected source e = p"
  by (simp add: projected_def)

section \<open>Branch values\<close>

definition scan_values :: "branch_scan \<Rightarrow> branch_values" where
  "scan_values sc =
     \<lparr>bv_model = sc_model sc, bv_thinkingLevel = sc_thinkingLevel sc, bv_fastMode = sc_fastMode sc,
      bv_planning = sc_planning sc\<rparr>"

definition context_values :: "conversation_context \<Rightarrow> json option \<Rightarrow> branch_values" where
  "context_values c planning =
     \<lparr>bv_model = ctx_model c, bv_thinkingLevel = ctx_thinkingLevel c, bv_fastMode = ctx_fastMode c,
      bv_planning = planning\<rparr>"

lemma derive_path_values:
  "derive_path path = (c, planning) \<Longrightarrow> context_values c planning = scan_values (scan_path path)"
  by (auto simp: derive_path_def context_values_def scan_values_def Let_def)

text \<open>One entry changes the values on both sides alike.\<close>

lemma applyBranchValue_projected:
  assumes "projectFoldEntry source e = Some p"
  shows "applyBranchValue (scan_values sc) p = scan_values (scan_entry sc (n, e))"
  using projectFoldEntry_Some [OF assms]
  by (cases "e_body e")
    (auto simp: applyBranchValue_def scan_values_def scan_entry_def project_payload_def split: log_message.split)

lemma scan_values_start: "scan_values scan_start = DEFAULT_CLIENT_BRANCH_VALUES"
  by (simp add: scan_values_def scan_start_def DEFAULT_CLIENT_BRANCH_VALUES_def)

lemma projected_path_values:
  assumes "\<forall>e \<in> set path. local_includes e"
  shows "foldl applyBranchValue DEFAULT_CLIENT_BRANCH_VALUES (map (projected source) path) = scan_values (scan_path path)"
  using assms
proof (induction path rule: rev_induct)
  case (snoc e path)
  obtain p where "projectFoldEntry source e = Some p" using snoc.prems projectFoldEntry_included [of e source] by auto
  with snoc show ?case
    by (simp add: projected_eq applyBranchValue_projected [of source e p _ "length path"] scan_path_snoc)
qed (simp add: scan_values_start)

section \<open>The held branch is the path\<close>

text \<open>What relates the client's entries to the kernel's tree, which is a part of the whole log.\<close>

definition tree_sim :: "entry_map \<Rightarrow> entry_map \<Rightarrow> (entry_id, projected_entry) js_map \<Rightarrow> bool" where
  "tree_sim source tree byId \<longleftrightarrow>
     (\<forall>i e. js_get tree i = Some e \<longrightarrow> stored_visibility e \<and> js_get source i = Some e) \<and>
     (\<forall>i. js_get byId i = Option.bind (js_get tree i) (projectFoldEntry source))"

lemma tree_simD:
  assumes "tree_sim source tree byId" and "js_get tree i = Some e"
  shows "stored_visibility e" "js_get source i = Some e" "js_get byId i = projectFoldEntry source e"
  using assms by (auto simp: tree_sim_def)

text \<open>A public entry's parent and a public leaf target project to themselves.\<close>

lemma public_visible:
  assumes "tree_sim source tree byId" and "js_get tree i = Some e" and "e_visibility e = Public"
  shows "visibleAncestor (Some i) source local_includes = Some i" "js_get byId i = Some (projected source e)"
    "local_includes e"
proof -
  note d = tree_simD [OF assms(1,2)]
  show inc: "local_includes e" by (rule public_included [OF d(1) assms(3)])
  show "visibleAncestor (Some i) source local_includes = Some i" using d(2) inc by (rule visibleAncestor_self)
  show "js_get byId i = Some (projected source e)"
    using d(3) projectFoldEntry_included [OF inc, of source] by (auto simp: projected_def)
qed

lemma public_parent:
  assumes ok: "tree_ok tree" and sim: "tree_sim source tree byId" and e: "js_get tree i = Some e" "e_visibility e = Public"
  shows "pe_parentId (projected source e) = e_parentId e"
proof -
  have vis: "visibleAncestor (e_parentId e) source local_includes = e_parentId e"
  proof (cases "e_parentId e")
    case (Some p)
    then obtain q where "js_get tree p = Some q" "e_visibility q = Public" using tree_ok_parent [OF ok e(1)] e(2) by blast
    from public_visible(1) [OF sim this] Some show ?thesis by simp
  qed simp
  obtain p where "projectFoldEntry source e = Some p"
    using projectFoldEntry_included public_visible(3) [OF sim e] by blast
  then show ?thesis using projectFoldEntry_Some [of source e p] vis by (simp add: projected_eq)
qed

definition public_leaf :: "entry_map \<Rightarrow> entry_id option \<Rightarrow> bool" where
  "public_leaf tree leaf \<longleftrightarrow> (\<forall>i. leaf = Some i \<longrightarrow> is_public tree i)"

lemma public_leafE:
  assumes "public_leaf tree (Some i)"
  obtains e where "js_get tree i = Some e" "e_visibility e = Public"
  using assms by (auto simp: public_leaf_def is_public_def split: option.splits)

lemma public_leaf_parent:
  "tree_ok tree \<Longrightarrow> js_get tree i = Some e \<Longrightarrow> e_visibility e = Public \<Longrightarrow> public_leaf tree (e_parentId e)"
  by (auto simp: public_leaf_def is_public_def elim!: tree_ok_parent)

lemma public_leaf_known: "public_leaf tree leaf \<Longrightarrow> known tree leaf"
  by (auto simp: public_leaf_def known_def is_public_def split: option.splits)

definition path_entries :: "entry_map \<Rightarrow> entry_id list \<Rightarrow> log_entry list" where
  "path_entries tree is = List.map_filter (js_get tree) is"

lemma path_entries_snoc_get: "js_get tree i = Some e \<Longrightarrow> path_entries tree (is @ [i]) = path_entries tree is @ [e]"
  by (simp add: path_entries_def map_filter_Cons)

lemma held_walk_path:
  assumes ok: "tree_ok tree" and sim: "tree_sim source tree byId" and "known tree leaf"
    and "public_leaf tree leaf" and "pathTo tree leaf = Some is"
    and "\<forall>j \<in> seen. \<exists>f. js_get tree j = Some f \<and> (\<forall>i e. leaf = Some i \<longrightarrow> js_get tree i = Some e \<longrightarrow> e_ordinal e < e_ordinal f)"
  shows "rev (held_walk byId seen leaf) = map (projected source) (path_entries tree is)"
  using ok assms(3-6)
proof (induction arbitrary: seen "is" rule: path_induct)
  case Root
  then show ?case by (simp add: path_entries_def)
next
  case (Step i e)
  have pub: "e_visibility e = Public" using Step.hyps Step.prems(1) by (auto elim: public_leafE)
  have "known tree (Some i)" using Step.hyps by (simp add: known_def)
  from pathTo_Some_cases [OF ok this Step.prems(2)] Step.hyps
  obtain js where js: "pathTo tree (e_parentId e) = Some js" "is = js @ [i]" by auto
  have "i \<notin> seen" using Step.prems(3) Step.hyps by fastforce
  moreover have "rev (held_walk byId (insert i seen) (e_parentId e)) = map (projected source) (path_entries tree js)"
  proof (rule Step.IH [OF public_leaf_parent [OF ok Step.hyps pub] js(1)])
    show "\<forall>j \<in> insert i seen. \<exists>f. js_get tree j = Some f \<and>
        (\<forall>k d. e_parentId e = Some k \<longrightarrow> js_get tree k = Some d \<longrightarrow> e_ordinal d < e_ordinal f)"
    proof
      fix j assume "j \<in> insert i seen"
      then obtain f where f: "js_get tree j = Some f" "e_ordinal e \<le> e_ordinal f"
        using Step.prems(3) Step.hyps by fastforce
      have "e_ordinal d < e_ordinal e" if "e_parentId e = Some k" "js_get tree k = Some d" for k d
        using tree_ok_parent [OF ok Step.hyps that(1)] that(2) by auto
      with f show "\<exists>f. js_get tree j = Some f \<and>
          (\<forall>k d. e_parentId e = Some k \<longrightarrow> js_get tree k = Some d \<longrightarrow> e_ordinal d < e_ordinal f)"
        by (metis order_less_le_trans)
    qed
  qed
  ultimately show ?case
    using public_visible(2) [OF sim Step.hyps pub] public_parent [OF ok sim Step.hyps pub] js(2)
    by (simp add: path_entries_snoc_get [OF Step.hyps])
qed

lemma path_entries_public:
  assumes ok: "tree_ok tree" and sim: "tree_sim source tree byId" and "known tree leaf"
    and "public_leaf tree leaf" and "pathTo tree leaf = Some is"
  shows "\<forall>e \<in> set (path_entries tree is). local_includes e"
  using ok assms(3-5)
proof (induction arbitrary: "is" rule: path_induct)
  case Root
  then show ?case by (simp add: path_entries_def)
next
  case (Step i e)
  have pub: "e_visibility e = Public" using Step.hyps Step.prems(1) by (auto elim: public_leafE)
  have "known tree (Some i)" using Step.hyps by (simp add: known_def)
  from pathTo_Some_cases [OF ok this Step.prems(2)] Step.hyps
  obtain js where js: "pathTo tree (e_parentId e) = Some js" "is = js @ [i]" by auto
  show ?case using Step.IH [OF public_leaf_parent [OF ok Step.hyps pub] js(1)] public_visible(3) [OF sim Step.hyps pub] js(2)
    by (simp add: path_entries_snoc_get [OF Step.hyps])
qed

text \<open>Re-deriving on the client side gives the values along the kernel's path.\<close>

lemma heldBranch_values:
  assumes ok: "tree_ok tree" and sim: "tree_sim source tree byId" and pub: "public_leaf tree leaf"
    and path: "pathTo tree leaf = Some is"
  shows "foldl applyBranchValue DEFAULT_CLIENT_BRANCH_VALUES (heldBranch byId leaf) = scan_values (scan_path (path_entries tree is))"
proof -
  note kn = public_leaf_known [OF pub]
  have "heldBranch byId leaf = map (projected source) (path_entries tree is)"
    unfolding heldBranch_def by (rule held_walk_path [OF ok sim kn pub path]) simp
  then show ?thesis using projected_path_values path_entries_public [OF ok sim kn pub path] by simp
qed

section \<open>The branch\<close>

definition branch_sim :: "entry_map \<Rightarrow> conversation_state \<Rightarrow> client_state \<Rightarrow> bool" where
  "branch_sim source s c \<longleftrightarrow>
     tree_sim source (st_byId s) (cs_byId c) \<and> cs_leafId c = st_leafId s \<and>
     cs_values c = context_values (st_context s) (st_planning s) \<and> cs_base c = DEFAULT_CLIENT_BRANCH_VALUES"

definition next_leaf :: "log_entry \<Rightarrow> entry_id option \<Rightarrow> entry_id option" where
  "next_leaf e leaf =
     (case e_body e of Leaf t \<Rightarrow> t | _ \<Rightarrow> if e_visibility e = Public then Some (e_id e) else leaf)"

lemma moveLeaf_leaf: "moveLeaf t n s = Some s' \<Longrightarrow> st_leafId s' = t"
  by (auto simp: moveLeaf_def rederiveBranch_def Let_def split: if_splits)

lemma appendToBranch_leaf:
  assumes "appendToBranch e s = Some s'"
  shows "st_leafId s' = Some (e_id e)"
proof -
  have "st_leafId (extend_context e u) = st_leafId u" for u using extend_context_frame [of e u] by blast
  then show ?thesis using assms by (auto simp: appendToBranch_def rederiveBranch_def Let_def split: if_splits)
qed

lemma move_branch_leaf:
  assumes "move_branch e s = Some s'"
  shows "st_leafId s' = next_leaf e (st_leafId s)"
proof (cases "\<exists>t. e_body e = Leaf t")
  case True
  with assms show ?thesis by (auto simp: move_branch_def next_leaf_def moveLeaf_leaf)
next
  case False
  then have "move_branch e s = (if e_visibility e = Public then appendToBranch e s else Some s)"
    "next_leaf e (st_leafId s) = (if e_visibility e = Public then Some (e_id e) else st_leafId s)"
    by (cases "e_body e"; simp add: move_branch_def next_leaf_def)+
  with assms show ?thesis using appendToBranch_leaf by (auto split: if_splits)
qed

lemma accepted_leaf:
  assumes "apply_entry s e = Inr s'"
  shows "st_leafId s' = next_leaf e (st_leafId s)" "e_body e = Leaf t \<Longrightarrow> public_leaf (st_byId s) t"
proof -
  from assms obtain input work s1 where ref: "validateReferences s e = Inr ()"
    and mv: "move_branch e (set_records e input work s) = Some s1"
    and s': "s' = s1\<lparr>st_ordinal := e_ordinal e\<rparr>" by (rule apply_entry_Inr)
  show "st_leafId s' = next_leaf e (st_leafId s)" using move_branch_leaf [OF mv] s' by simp
  show "public_leaf (st_byId s) t" if "e_body e = Leaf t"
    using ref that by (simp add: validateReferences_def validateTarget_Inr public_leaf_def)
qed

text \<open>The values of a state are the ones along its branch.\<close>

lemma branch_values_path:
  assumes "branch_inv s"
  shows "context_values (st_context s) (st_planning s) = scan_values (scan_path (path_entries (st_byId s) (st_branch s)))"
  using assms derive_path_values by (simp add: branch_inv_def deriveBranch_def path_entries_def)

lemma tree_sim_snoc:
  assumes "tree_sim source tree byId" and fresh: "e_id e \<notin> set (js_keys tree)"
    and "stored_visibility e" "js_get source (e_id e) = Some e"
    and "byId' = (case projectFoldEntry source e of None \<Rightarrow> byId | Some p \<Rightarrow> byId @ [(e_id e, p)])"
  shows "tree_sim source (tree @ [(e_id e, e)]) byId'"
proof -
  have none: "js_get byId (e_id e) = None" using assms(1) fresh by (simp add: tree_sim_def js_get_None_iff [symmetric])
  then have "e_id e \<notin> set (js_keys byId)" by (simp add: js_get_None_iff)
  then have "js_get byId' i = Option.bind (js_get (tree @ [(e_id e, e)]) i) (projectFoldEntry source)" for i
    using assms(1,5) none by (auto simp: tree_sim_def js_get_snoc [OF fresh] js_get_snoc split: option.splits)
  then show ?thesis using assms(1,3,4) by (auto simp: tree_sim_def js_get_snoc [OF fresh])
qed

lemma client_move_projected:
  assumes p: "projectFoldEntry source e = Some p" and vis: "stored_visibility e"
  shows "client_move p c =
    (case e_body e of
       Leaf t \<Rightarrow> client_moveLeaf (visibleAncestor t source local_includes) c
     | _ \<Rightarrow> if e_visibility e = Public then client_appendToBranch p c else c)"
proof (cases "pe_type p = TLeaf")
  case True
  then obtain t where "e_body e = Leaf t" using projectFoldEntry_Some [OF p] by (cases "e_body e") auto
  with True show ?thesis using projectFoldEntry_Some [OF p] by (simp add: client_move_def project_payload_def)
next
  case False
  then have "client_move p c = (if e_visibility e = Public then client_appendToBranch p c else c)"
    using public_type [OF vis, of "pe_type p"] projectFoldEntry_Some [OF p] by (simp add: client_move_def)
  with False show ?thesis using projectFoldEntry_Some [OF p] by (cases "e_body e") auto
qed

lemma client_apply_projected:
  assumes sim: "tree_sim source tree (cs_byId c)" and fresh: "e_id e \<notin> set (js_keys tree)"
    and later: "cs_ordinal c < e_ordinal e" and p: "projectFoldEntry source e = Some p"
  obtains c' where "client_apply c p = Inr c'"
proof -
  have "js_get (cs_byId c) (e_id e) = None" using sim fresh by (simp add: tree_sim_def js_get_None_iff [symmetric])
  then have "\<not> js_has (cs_byId c) (pe_id p)" "\<not> pe_ordinal p \<le> cs_ordinal c"
    using projectFoldEntry_Some [OF p] later by (simp_all add: js_has_def)
  then show ?thesis using that by (simp add: client_apply_def Let_def)
qed

text \<open>Each entry the kernel accepts moves both branches alike.\<close>

lemma branch_sim_values:
  assumes inv: "conv_inv s" and inv': "conv_inv s'" and app: "apply_entry s e = Inr s'"
    and sim: "branch_sim source s c" and byId: "cs_byId u = cs_byId c @ [(pe_id p, p)]"
    and u: "cs_leafId u = cs_leafId c" "cs_values u = cs_values c" "cs_base u = cs_base c"
    and tree': "tree_sim source (st_byId s') (cs_byId u)" and p: "projectFoldEntry source e = Some p"
    and vis: "stored_visibility e"
  shows "cs_leafId (client_move p u) = st_leafId s' \<and>
    cs_values (client_move p u) = context_values (st_context s') (st_planning s')"
proof -
  note grow = apply_entry_byId [OF app] and leaf = accepted_leaf [OF app]
  have ok: "tree_ok (st_byId s)" "tree_ok (st_byId s')" and br: "branch_inv s" "branch_inv s'"
    using inv inv' by (simp_all add: conv_inv_def tree_inv_def)
  have pub': "public_leaf (st_byId s') (st_leafId s')" and path': "pathTo (st_byId s') (st_leafId s') = Some (st_branch s')"
    using br(2) by (simp_all add: branch_inv_def public_leaf_def)
  have path: "pathTo (st_byId s') (st_leafId s) = Some (st_branch s)"
    using br(1) pathTo_snoc [OF ok(1) grow(4) branch_inv_known [OF br(1)]] grow(1) by (simp add: branch_inv_def)
  have old: "path_entries (st_byId s') (st_branch s) = path_entries (st_byId s) (st_branch s)"
    using path_entries_snoc [OF ok(1) grow(4) branch_inv_known [OF br(1)]] br(1) grow(1)
    by (simp add: branch_inv_def path_entries_def)
  have cur: "cs_values u = scan_values (scan_path (path_entries (st_byId s') (st_branch s)))" "cs_leafId u = st_leafId s"
    "cs_base u = DEFAULT_CLIENT_BRANCH_VALUES"
    using sim u branch_values_path [OF br(1)] old by (simp_all add: branch_sim_def)
  have new: "context_values (st_context s') (st_planning s') = scan_values (scan_path (path_entries (st_byId s') (st_branch s')))"
    by (rule branch_values_path [OF br(2)])
  have derived: "foldl applyBranchValue DEFAULT_CLIENT_BRANCH_VALUES (heldBranch (cs_byId u) (st_leafId s')) =
      scan_values (scan_path (path_entries (st_byId s') (st_branch s')))"
    by (rule heldBranch_values [OF ok(2) tree' pub' path'])
  have same: "path_entries (st_byId s') (st_branch s') = path_entries (st_byId s') (st_branch s)" if "st_leafId s' = st_leafId s"
    using path path' that by simp
  consider (Leaf) t where "e_body e = Leaf t" | (Public) "e_visibility e = Public" "\<nexists>t. e_body e = Leaf t"
    | (Host) "e_visibility e \<noteq> Public" "\<nexists>t. e_body e = Leaf t" by blast
  then show ?thesis
  proof cases
    case (Leaf t)
    then have st: "st_leafId s' = t" using leaf(1) by (simp add: next_leaf_def)
    have "visibleAncestor t source local_includes = t"
    proof (cases t)
      case (Some i)
      then obtain f where "js_get (st_byId s') i = Some f" "e_visibility f = Public" using pub' st by (auto elim: public_leafE)
      then show ?thesis using public_visible(1) [OF tree'] Some by blast
    qed simp
    then have "client_move p u = client_moveLeaf (st_leafId s') u"
      using client_move_projected [OF p vis] Leaf st by simp
    then show ?thesis using cur new derived same by (simp add: client_moveLeaf_def rederive_def)
  next
    case Public
    then have st: "st_leafId s' = Some (e_id e)" using leaf(1) by (cases "e_body e") (simp_all add: next_leaf_def)
    have mv: "client_move p u = client_appendToBranch p u"
      using client_move_projected [OF p vis] Public by (cases "e_body e") simp_all
    have get: "js_get (st_byId s') (e_id e) = Some e" using grow(1) js_get_snoc [OF grow(4)] by simp
    have parent: "pe_parentId p = e_parentId e"
      using public_parent [OF ok(2) tree' get Public(1)] projected_eq [OF p] by simp
    have pid: "pe_id p = e_id e" using projectFoldEntry_Some [OF p] by simp
    show ?thesis
    proof (cases "e_parentId e = st_leafId s")
      case True
      then have "st_branch s' = st_branch s @ [e_id e]" using pathTo_step [OF ok(2) get] path path' st by simp
      then have "path_entries (st_byId s') (st_branch s') = path_entries (st_byId s') (st_branch s) @ [e]"
        using path_entries_snoc_get [OF get] by simp
      then have "scan_values (scan_path (path_entries (st_byId s') (st_branch s'))) = applyBranchValue (cs_values u) p"
        using applyBranchValue_projected [OF p] cur(1) by (simp add: scan_path_snoc)
      then show ?thesis using mv parent True cur(2) new st pid by (simp add: client_appendToBranch_def)
    next
      case False
      then show ?thesis using mv parent cur new derived st pid by (simp add: client_appendToBranch_def rederive_def)
    qed
  next
    case Host
    then have "client_move p u = u" using client_move_projected [OF p vis] by (cases "e_body e") simp_all
    moreover have "st_leafId s' = st_leafId s" using Host leaf(1) by (cases "e_body e") (simp_all add: next_leaf_def)
    ultimately show ?thesis using cur new same by simp
  qed
qed

end
