(* ===== verification/Client_Inputs.thy ===== *)
theory Client_Inputs
  imports Client_Agreement
begin

text \<open>
  The queue of a client and the client inputs of the kernel: what a client shows of an open input, and
  that each entry the kernel accepts changes the queue as it changes the inputs.
\<close>

section \<open>Looking up the queue\<close>

lemma find_insert_by: "cq_clientMessageId q \<noteq> i \<Longrightarrow> find_input i (insert_by f q xs) = find_input i xs"
  by (induction xs) (auto simp: find_input_def)

lemma find_insert_by_new:
  "\<forall>c \<in> set xs. cq_clientMessageId c \<noteq> cq_clientMessageId q \<Longrightarrow>
   find_input (cq_clientMessageId q) (insert_by f q xs) = Some q"
  by (induction xs) (auto simp: find_input_def)

lemma find_filter: "find_input i (filter (\<lambda>c. cq_clientMessageId c \<noteq> j) xs) = (if i = j then None else find_input i xs)"
  by (induction xs) (auto simp: find_input_def find_None_iff)

lemma find_input_mem:
  "distinct (map cq_clientMessageId queue) \<Longrightarrow> x \<in> set queue \<Longrightarrow> find_input (cq_clientMessageId x) queue = Some x"
  by (induction queue) (auto simp: find_input_def)

lemma find_upsertInput:
  "find_input i (upsertInput q queue) = (if i = cq_clientMessageId q then Some q else find_input i queue)"
  by (auto simp: upsertInput_def find_insert_by find_insert_by_new find_filter)

lemma find_removeInput: "find_input i (removeInput j queue) = (if i = j then None else find_input i queue)"
  by (simp add: removeInput_def find_filter)

section \<open>What a client shows of an input\<close>

definition input_view :: "entry_map \<Rightarrow> client_input_record \<Rightarrow> client_queued_input" where
  "input_view tree r =
     \<lparr>cq_clientMessageId = ir_clientMessageId r, cq_state = ir_state r, cq_ordinal = record_admission tree r,
      cq_command = Some (ir_command r), cq_delivery = map_option ciq_delivery (ir_queuedInput r),
      cq_origin = ir_origin r,
      cq_message = (case ir_queuedInput r of None \<Rightarrow> ci_message (ir_input r) | Some q \<Rightarrow> ciq_message q),
      cq_imageCount = (case ir_queuedInput r of None \<Rightarrow> length (ci_images (ir_input r)) | Some q \<Rightarrow> length (ciq_images q))\<rparr>"

definition shown :: "entry_map \<Rightarrow> client_input_record option \<Rightarrow> client_queued_input option" where
  "shown tree x = (case x of None \<Rightarrow> None | Some r \<Rightarrow> if input_open r then Some (input_view tree r) else None)"

definition queue_sim :: "entry_map \<Rightarrow> input_map \<Rightarrow> client_queued_input list \<Rightarrow> bool" where
  "queue_sim tree inputs queue \<longleftrightarrow> (\<forall>i. find_input i queue = shown tree (js_get inputs i))"

lemma shown_simps [simp]:
  "shown tree None = None" "input_open r \<Longrightarrow> shown tree (Some r) = Some (input_view tree r)"
  "\<not> input_open r \<Longrightarrow> shown tree (Some r) = None"
  by (simp_all add: shown_def)

lemma inputs_ok_get: "inputs_ok tree inputs \<Longrightarrow> js_get inputs i = Some r \<Longrightarrow> input_ok tree i r"
  by (simp add: inputs_ok_def)

lemma shown_grow:
  assumes "inputs_ok tree inputs" and "i \<notin> set (js_keys tree)"
  shows "shown (tree @ [(i, e)]) (js_get inputs c) = shown tree (js_get inputs c)"
proof (cases "js_get inputs c")
  case (Some r)
  from admission_grows [OF inputs_ok_get [OF assms(1) Some] assms(2)] Some show ?thesis
    by (simp add: shown_def input_view_def)
qed simp

lemma queue_sim_grow:
  "queue_sim tree inputs queue \<Longrightarrow> inputs_ok tree inputs \<Longrightarrow> i \<notin> set (js_keys tree) \<Longrightarrow>
   queue_sim (tree @ [(i, e)]) inputs queue"
  by (simp add: queue_sim_def shown_grow)

text \<open>An update of one record that the queue follows.\<close>

lemma queue_sim_set:
  assumes sim: "queue_sim tree inputs queue" and ok: "inputs_ok tree inputs" and fresh: "i \<notin> set (js_keys tree)"
    and others: "\<And>j. j \<noteq> ir_clientMessageId r \<Longrightarrow> find_input j queue' = find_input j queue"
    and own: "find_input (ir_clientMessageId r) queue' = shown (tree @ [(i, e)]) (Some r)"
  shows "queue_sim (tree @ [(i, e)]) (js_set inputs (ir_clientMessageId r) r) queue'"
  unfolding queue_sim_def
proof
  fix j show "find_input j queue' = shown (tree @ [(i, e)]) (js_get (js_set inputs (ir_clientMessageId r) r) j)"
    using others [of j] own sim shown_grow [OF ok fresh] by (cases "j = ir_clientMessageId r") (simp_all add: queue_sim_def js_get_set)
qed

lemma upsert_follows:
  assumes "queue_sim tree inputs queue" and "inputs_ok tree inputs" and "i \<notin> set (js_keys tree)"
    and "input_open r"
  shows "queue_sim (tree @ [(i, e)]) (js_set inputs (ir_clientMessageId r) r)
    (upsertInput (input_view (tree @ [(i, e)]) r) queue)"
  using assms by (intro queue_sim_set) (simp_all add: find_upsertInput input_view_def)

lemma remove_follows:
  assumes "queue_sim tree inputs queue" and "inputs_ok tree inputs" and "i \<notin> set (js_keys tree)"
    and "\<not> input_open r" and "ir_clientMessageId r = c"
  shows "queue_sim (tree @ [(i, e)]) (js_set inputs c r) (removeInput c queue)"
  using queue_sim_set [OF assms(1-3), where r = r and queue' = "removeInput c queue"] assms(4,5)
  by (auto simp: find_removeInput)

section \<open>One entry\<close>

lemma admission_new:
  assumes "i \<notin> set (js_keys tree)" and "admission_id r = i"
  shows "record_admission (tree @ [(i, e)]) r = e_ordinal e"
  using assms by (simp add: record_admission_def admission_id_def js_get_snoc)

lemma apply_queue_other:
  assumes "projectFoldEntry source e = Some p" and "nextClientInput inputs e = Inr None"
  shows "apply_queue p queue = queue"
  using projectFoldEntry_Some [OF assms(1)] assms(2)
  by (cases "e_body e")
    (auto simp: apply_queue_def project_payload_def nextClientInput_def map_sum_def or_keep_def
      split: option.splits sum.splits log_message.splits elim!: transcriptClientMessageId.elims)

lemma received_follows:
  assumes p: "projectFoldEntry source e = Some p" and body: "e_body e = ClientInputReceipt rp"
    and nx: "nextClientInput inputs e = Inr (Some r)" and fresh: "e_id e \<notin> set (js_keys tree)"
    and sim: "queue_sim tree inputs queue" and ok: "inputs_ok tree inputs"
  shows "queue_sim (tree @ [(e_id e, e)]) (js_set inputs (ir_clientMessageId r) r) (apply_queue p queue)"
proof -
  have r: "r = \<lparr>ir_clientMessageId = rp_clientMessageId rp, ir_receiptId = e_id e,
             ir_command = rp_command rp, ir_origin = rp_origin rp,
             ir_semanticDigest = rp_semanticDigest rp, ir_input = rp_input rp,
             ir_queuedEntryId = None, ir_queuedInput = None, ir_state = Accepted,
             ir_error = None, ir_canonicalEntryId = None\<rparr>"
    using nx body by (simp add: nextClientInput_def receive_input_def split: if_splits)
  have adm: "record_admission (tree @ [(e_id e, e)]) r = e_ordinal e"
    by (rule admission_new [OF fresh]) (simp add: r admission_id_def)
  have "apply_queue p queue = upsertInput (input_view (tree @ [(e_id e, e)]) r) queue"
    using projectFoldEntry_Some [OF p] body adm
    by (simp add: apply_queue_def project_payload_def receive_def input_view_def) (simp add: r)
  moreover have "input_open r" by (simp add: input_open_def r)
  ultimately show ?thesis using upsert_follows [OF sim ok fresh] by simp
qed

lemma queued_follows:
  assumes p: "projectFoldEntry source e = Some p" and body: "e_body e = ClientInputQueued qp"
    and nx: "nextClientInput inputs e = Inr (Some r)" and fresh: "e_id e \<notin> set (js_keys tree)"
    and sim: "queue_sim tree inputs queue" and ok: "inputs_ok tree inputs"
  shows "queue_sim (tree @ [(e_id e, e)]) (js_set inputs (ir_clientMessageId r) r) (apply_queue p queue)"
proof -
  have "queue_input inputs (e_id e) qp = Inr r" using nx body by (auto simp: nextClientInput_def map_sum_def split: sum.splits)
  then obtain old where old: "requireReceipt inputs (qp_clientMessageId qp) (qp_receiptId qp) = Inr old" "input_open old"
    and r: "r = (with_lifecycle old Accepted None None)
       \<lparr>ir_queuedEntryId := Some (e_id e), ir_queuedInput := Some (qp_queuedInput qp)\<rparr>"
    by (auto simp: queue_input_def res_simps input_open_def split: if_splits)
  from old(1) ok have get: "js_get inputs (qp_clientMessageId qp) = Some old" "ir_clientMessageId old = qp_clientMessageId qp"
    by (auto simp: requireReceipt_def inputs_ok_def input_ok_def split: option.splits if_splits)
  have found: "find_input (qp_clientMessageId qp) queue = Some (input_view tree old)"
    using sim get(1) old(2) by (simp add: queue_sim_def)
  have adm: "record_admission (tree @ [(e_id e, e)]) r = e_ordinal e"
    by (rule admission_new [OF fresh]) (simp add: r admission_id_def)
  have q: "apply_queue p queue = client_enqueue qp (e_ordinal e) queue"
    using projectFoldEntry_Some [OF p] body by (simp add: apply_queue_def project_payload_def)
  have "client_enqueue qp (e_ordinal e) queue = upsertInput (input_view (tree @ [(e_id e, e)]) r) queue"
    using adm get(2) by (simp add: client_enqueue_def found input_view_def Let_def) (simp add: r with_lifecycle_def)
  moreover have "input_open r" by (simp add: input_open_def r with_lifecycle_def)
  ultimately show ?thesis using upsert_follows [OF sim ok fresh] q by simp
qed

lemma moved_follows:
  assumes p: "projectFoldEntry source e = Some p" and body: "e_body e = ClientInputStateEntry sp"
    and nx: "nextClientInput inputs e = Inr (Some r)" and fresh: "e_id e \<notin> set (js_keys tree)"
    and sim: "queue_sim tree inputs queue" and ok: "inputs_ok tree inputs"
  shows "queue_sim (tree @ [(e_id e, e)]) (js_set inputs (ir_clientMessageId r) r) (apply_queue p queue)"
proof -
  have "move_input inputs sp = Inr r" using nx body by (auto simp: nextClientInput_def map_sum_def split: sum.splits)
  then obtain old where old: "requireReceipt inputs (sp_clientMessageId sp) (sp_receiptId sp) = Inr old"
      "input_move_allowed (ir_state old) (sp_state sp)"
    and r: "r = with_lifecycle old (sp_state sp) (sp_error sp) None"
    by (auto simp: move_input_def res_simps split: if_splits)
  from old(1) ok have get: "js_get inputs (sp_clientMessageId sp) = Some old" "ir_clientMessageId old = sp_clientMessageId sp"
    by (auto simp: requireReceipt_def inputs_ok_def input_ok_def split: option.splits if_splits)
  have opn: "input_open old" "ir_state old \<noteq> sp_state sp" using input_move_open [OF old(2)] by (simp_all add: input_open_def)
  have found: "find_input (sp_clientMessageId sp) queue = Some (input_view tree old)"
    using sim get(1) opn by (simp add: queue_sim_def)
  have adm: "record_admission (tree @ [(e_id e, e)]) r = record_admission tree old"
  proof -
    have "record_admission t r = record_admission t old" for t
      by (simp add: r with_lifecycle_def record_admission_def split: option.split)
    then show ?thesis using admission_grows [OF inputs_ok_get [OF ok get(1)] fresh] by simp
  qed
  have q: "apply_queue p queue = transition sp queue"
    using projectFoldEntry_Some [OF p] body by (simp add: apply_queue_def project_payload_def)
  have rid: "ir_clientMessageId r = sp_clientMessageId sp" "ir_state r = sp_state sp" using get(2) by (simp_all add: r with_lifecycle_def)
  show ?thesis
  proof (cases "input_open r")
    case True
    have "transition sp queue = upsertInput ((input_view tree old)\<lparr>cq_state := sp_state sp\<rparr>) queue"
      using True opn(2) rid(2) by (simp add: transition_def found input_open_def) (auto simp: input_view_def)
    moreover have "(input_view tree old)\<lparr>cq_state := sp_state sp\<rparr> = input_view (tree @ [(e_id e, e)]) r"
      using adm by (simp add: input_view_def) (simp add: r with_lifecycle_def split: option.split)
    ultimately show ?thesis using upsert_follows [OF sim ok fresh True] q by simp
  next
    case False
    have "transition sp queue = removeInput (sp_clientMessageId sp) queue"
      using False rid(2) by (simp add: transition_def found input_open_def)
    then show ?thesis using remove_follows [OF sim ok fresh False] q rid(1) by simp
  qed
qed

lemma delivered_follows:
  assumes p: "projectFoldEntry source e = Some p" and body: "e_body e = Message m co"
    and nx: "nextClientInput inputs e = Inr (Some r)" and fresh: "e_id e \<notin> set (js_keys tree)"
    and sim: "queue_sim tree inputs queue" and ok: "inputs_ok tree inputs"
  shows "queue_sim (tree @ [(e_id e, e)]) (js_set inputs (ir_clientMessageId r) r) (apply_queue p queue)"
  using nx ok
proof (cases rule: nextClientInput_cases)
  case (Delivered m' old)
  then have "\<not> input_open r" by (simp add: input_open_def)
  moreover have "apply_queue p queue = removeInput (ir_clientMessageId r) queue"
    using projectFoldEntry_Some [OF p] Delivered(1) by (simp add: apply_queue_def project_payload_def or_keep_def)
  ultimately show ?thesis using remove_follows [OF sim ok fresh] by simp
qed (use body in simp_all)

text \<open>Every accepted entry changes the queue as it changes the inputs.\<close>

lemma queue_sim_step:
  assumes p: "projectFoldEntry source e = Some p" and nx: "nextClientInput inputs e = Inr input"
    and fresh: "e_id e \<notin> set (js_keys tree)" and sim: "queue_sim tree inputs queue" and ok: "inputs_ok tree inputs"
  shows "queue_sim (tree @ [(e_id e, e)]) (next_inputs inputs input) (apply_queue p queue)"
proof (cases input)
  case None
  with apply_queue_other [OF p] nx queue_sim_grow [OF sim ok fresh] show ?thesis by (simp add: next_inputs_def)
next
  case (Some r)
  then have nx': "nextClientInput inputs e = Inr (Some r)" using nx by simp
  from nx' ok have "queue_sim (tree @ [(e_id e, e)]) (js_set inputs (ir_clientMessageId r) r) (apply_queue p queue)"
  proof (cases rule: nextClientInput_cases)
    case Received
    show ?thesis by (rule received_follows [OF p Received(1) nx' fresh sim ok])
  next
    case Queued
    show ?thesis by (rule queued_follows [OF p Queued(1) nx' fresh sim ok])
  next
    case Moved
    show ?thesis by (rule moved_follows [OF p Moved(1) nx' fresh sim ok])
  next
    case Delivered
    show ?thesis by (rule delivered_follows [OF p Delivered(1) nx' fresh sim ok])
  qed
  with Some show ?thesis by (simp add: next_inputs_def)
qed

text \<open>A queue that follows the inputs lists the open ones by admission.\<close>

lemma queue_sim_list:
  assumes tree: "tree_ok tree" and sim: "queue_sim tree inputs queue" and ok: "inputs_ok tree inputs" and q: "queue_ok n queue"
  shows "queue = map (input_view tree) (sort_key (record_admission tree) (filter input_open (js_values inputs)))"
proof -
  let ?open = "filter input_open (js_values inputs)"
  have dist: "distinct (js_keys inputs)" using ok by (simp add: inputs_ok_def)
  have key: "js_keys inputs = map ir_clientMessageId (js_values inputs)"
  proof -
    have "\<forall>x \<in> set inputs. fst x = ir_clientMessageId (snd x)"
      using ok js_get_mem [OF dist] by (force simp: inputs_ok_def input_ok_def)
    then show ?thesis by (simp add: js_keys_def js_values_def)
  qed
  have get: "js_get inputs (ir_clientMessageId r) = Some r" if r: "r \<in> set (js_values inputs)" for r
  proof -
    obtain c where "(c, r) \<in> set inputs" using r by (force simp: js_values_def)
    then have "js_get inputs c = Some r" by (rule js_get_mem [OF dist])
    with inputs_ok_get [OF ok this] show ?thesis by (simp add: input_ok_def)
  qed
  have find: "find_input (cq_clientMessageId x) queue = Some x \<longleftrightarrow> x \<in> set queue" for x
    using q find_input_mem [of queue x] find_input_Some by (auto simp: queue_ok_def)
  have "x \<in> set queue \<longleftrightarrow> x \<in> input_view tree ` set ?open" for x
  proof
    assume "x \<in> set queue"
    with find sim have "shown tree (js_get inputs (cq_clientMessageId x)) = Some x" by (simp add: queue_sim_def)
    then show "x \<in> input_view tree ` set ?open"
      using js_get_value by (fastforce simp: shown_def split: option.splits if_splits)
  next
    assume "x \<in> input_view tree ` set ?open"
    then obtain r where r: "r \<in> set (js_values inputs)" "input_open r" "x = input_view tree r" by auto
    then have "find_input (cq_clientMessageId x) queue = Some x"
      using sim get [OF r(1)] by (simp add: queue_sim_def input_view_def)
    with find show "x \<in> set queue" by blast
  qed
  then have "set queue = set (map (input_view tree) (sort_key (record_admission tree) ?open))" by auto
  moreover have "sorted_by cq_ordinal (map (input_view tree) (sort_key (record_admission tree) ?open))"
  proof -
    have "distinct ?open" using dist key by (simp add: distinct_map)
    moreover have "inj_on (record_admission tree) (set ?open)"
    proof (rule inj_onI)
      fix r r' assume r: "r \<in> set ?open" "r' \<in> set ?open" "record_admission tree r = record_admission tree r'"
      have "r \<in> set (js_values inputs)" "r' \<in> set (js_values inputs)" using r(1,2) by simp_all
      note gets = get [OF this(1)] get [OF this(2)]
      from admission_inj [OF tree inputs_ok_get [OF ok gets(1)] inputs_ok_get [OF ok gets(2)] r(3)] gets
      show "r = r'" by (metis option.inject)
    qed
    ultimately have "sorted_by (record_admission tree) (sort_key (record_admission tree) ?open)"
      by (intro sorted_by_sort_key) (simp add: distinct_map)
    moreover have "(\<lambda>r. cq_ordinal (input_view tree r)) = record_admission tree" by (simp add: input_view_def)
    ultimately show ?thesis by (simp only: sorted_by_map)
  qed
  ultimately show ?thesis using q by (intro sorted_by_unique) (auto simp: queue_ok_def)
qed

end
