(* ===== verification/Client_Work.thy ===== *)
theory Client_Work
  imports Client_Agreement
begin

text \<open>
  The work a client shows and the work of the kernel: a client keeps every open item and the newest
  finished ones, evicting one at a time as work finishes. Which items are kept depends on the ordinals
  they finished at alone, so eviction is studied on the map from work ids to those ordinals.
\<close>

section \<open>Keeping the newest\<close>

type_synonym finish_map = "work_id \<Rightarrow> nat option option"

definition newer :: "finish_map \<Rightarrow> nat \<Rightarrow> work_id set" where
  "newer F n = {j. \<exists>m. F j = Some (Some m) \<and> n < m}"

definition keep :: "finish_map \<Rightarrow> work_id \<Rightarrow> bool" where
  "keep F i \<longleftrightarrow> (\<exists>fo. F i = Some fo \<and> (\<forall>n. fo = Some n \<longrightarrow> card (newer F n) < CLIENT_WORK_FINISHED_MAX))"

lemma keep_simps:
  "F i = None \<Longrightarrow> \<not> keep F i" "F i = Some None \<Longrightarrow> keep F i"
  "F i = Some (Some n) \<Longrightarrow> keep F i \<longleftrightarrow> card (newer F n) < CLIENT_WORK_FINISHED_MAX"
  by (simp_all add: keep_def)

lemma keep_restrict: "keep (\<lambda>i. if P i then F i else None) i \<Longrightarrow> P i"
  by (auto simp: keep_def split: if_splits)

lemma newer_finite: "finite (dom F) \<Longrightarrow> finite (newer F n)"
  by (rule finite_subset [of _ "dom F"]) (auto simp: newer_def)

lemma newer_mono: "n \<le> m \<Longrightarrow> newer F m \<subseteq> newer F n"
  by (auto simp: newer_def)

text \<open>An open item finishes at the newest ordinal: evicting from what was kept is keeping from all.\<close>

lemma keep_finish:
  assumes fin: "finite (dom F)" and x: "F x = Some None" and last: "\<And>i m. F i = Some (Some m) \<Longrightarrow> m < n"
  shows "keep (\<lambda>i. if keep F i then (F(x \<mapsto> Some n)) i else None) i \<longleftrightarrow> keep (F(x \<mapsto> Some n)) i"
proof -
  let ?F = "F(x \<mapsto> Some n)"
  let ?G = "\<lambda>i. if keep F i then ?F i else None"
  have kx: "keep F x" using x by (simp add: keep_simps)
  show ?thesis
  proof (cases "F i")
    case None
    then have "?F i = None" "?G i = None" using x by (auto simp: keep_simps)
    then show ?thesis by (simp add: keep_simps)
  next
    case (Some fo)
    show ?thesis
    proof (cases "i = x")
      case True
      have "newer ?F n = {}" "newer ?G n = {}" using last kx by (auto simp: newer_def dest: order_less_asym split: if_splits)
      then show ?thesis using True kx by (simp add: keep_simps(3) [of _ _ n] CLIENT_WORK_FINISHED_MAX_def)
    next
      case False
      show ?thesis
      proof (cases fo)
        case None
        with Some False show ?thesis by (simp add: keep_simps)
      next
        case (Some m)
        then have Fi: "F i = Some (Some m)" "?F i = Some (Some m)" using \<open>F i = Some fo\<close> False by simp_all
        have newer_F: "newer ?F m = insert x (newer F m)" using last [OF Fi(1)] x by (auto simp: newer_def)
        show ?thesis
        proof (cases "keep F i")
          case True
          then have few: "card (newer F m) < CLIENT_WORK_FINISHED_MAX" using Fi(1) by (simp add: keep_simps)
          have "keep F j" if "F j = Some (Some k)" "m < k" for j k
            using that few card_mono [OF newer_finite [OF fin] newer_mono [of m k]] by (auto simp: keep_simps)
          then have "newer ?G m = newer ?F m" using kx by (auto simp: newer_def split: if_splits)
          moreover have "?G i = Some (Some m)" using True Fi by simp
          ultimately show ?thesis using Fi(2) by (simp add: keep_simps(3) del: fun_upd_apply)
        next
          case False
          have "newer F m \<subseteq> newer ?F m" "finite (newer ?F m)"
            using newer_F newer_finite [OF fin] by auto
          then have "card (newer F m) \<le> card (newer ?F m)" by (rule card_mono [rotated])
          then have "\<not> keep ?F i" using False Fi by (simp add: keep_simps(3) del: fun_upd_apply)
          moreover have "?G i = None" using False by simp
          ultimately show ?thesis by (simp add: keep_simps(1) del: fun_upd_apply)
        qed
      qed
    qed
  qed
qed

lemma keep_same_finished:
  assumes "\<And>j m. F' j = Some (Some m) \<longleftrightarrow> F j = Some (Some m)"
  shows "F' i = F i \<Longrightarrow> keep F' i \<longleftrightarrow> keep F i"
proof -
  have "newer F' n = newer F n" for n using assms by (simp add: newer_def)
  then show "F' i = F i \<Longrightarrow> keep F' i \<longleftrightarrow> keep F i" by (simp add: keep_def)
qed

section \<open>Eviction\<close>

definition client_finishes :: "client_work \<Rightarrow> finish_map" where
  "client_finishes work i = map_option k_finishedOrdinal (js_get work i)"

definition finishes :: "work_map \<Rightarrow> finish_map" where
  "finishes work i = map_option w_finishedOrdinal (js_get work i)"

lemma finite_finishes: "finite (dom (finishes work))"
proof (rule finite_subset)
  show "dom (finishes work) \<subseteq> set (js_keys work)" by (auto simp: finishes_def dest: js_get_Some_key)
qed simp

lemma card_get:
  assumes "distinct (js_keys m)"
  shows "length (filter P (js_values m)) = card {i. \<exists>v. js_get m i = Some v \<and> P v}"
proof -
  have "{i. \<exists>v. js_get m i = Some v \<and> P v} = fst ` set (filter (\<lambda>p. P (snd p)) m)"
    using js_get_mem_iff [OF assms] by (force simp: image_iff)
  moreover have "distinct (map fst (filter (\<lambda>p. P (snd p)) m))"
    using assms by (simp add: js_keys_def distinct_map_filter)
  ultimately have "card {i. \<exists>v. js_get m i = Some v \<and> P v} = length (filter (\<lambda>p. P (snd p)) m)"
    by (metis distinct_card length_map list.set_map)
  then show ?thesis by (simp add: js_values_def filter_map comp_def)
qed

lemma take_rank:
  assumes "sorted_by f xs" and "x \<in> set xs"
  shows "x \<in> set (take (length xs - n) xs) \<longleftrightarrow> n \<le> length (filter (\<lambda>y. f x < f y) xs)"
proof -
  obtain as bs where xs: "xs = as @ x # bs" using split_list [OF assms(2)] by blast
  have sorted: "\<forall>a \<in> set as. f a < f x" "\<forall>b \<in> set bs. f x < f b"
    using assms(1) by (auto simp: xs sorted_by_append)
  have as: "filter (\<lambda>y. f x < f y) as = []" using sorted(1) by (auto simp: filter_empty_conv)
  have bs: "filter (\<lambda>y. f x < f y) bs = bs" using sorted(2) by (simp add: filter_id_conv)
  have "x \<notin> set as" "x \<notin> set bs" using sorted by auto
  then have "x \<in> set (take k xs) \<longleftrightarrow> length as < k" for k
  proof (cases "k \<le> length as")
    case True
    then have "take k xs = take k as" by (simp add: xs)
    then show ?thesis using True \<open>x \<notin> set as\<close> in_set_takeD [of x k as] by auto
  next
    case False
    then obtain d where "k - length as = Suc d" by (metis Suc_diff_Suc not_le)
    then show ?thesis using False by (simp add: xs)
  qed
  then have "x \<in> set (take (length xs - n) xs) \<longleftrightarrow> length as < length xs - n" .
  moreover have "filter (\<lambda>y. f x < f y) xs = bs" by (simp add: xs as bs)
  moreover have "length xs = Suc (length as + length bs)" by (simp add: xs)
  ultimately show ?thesis by auto
qed

lemma js_get_filter: "js_get (filter (\<lambda>p. P (fst p)) m) i = (if P i then js_get m i else None)"
  by (induction m) (auto simp: js_get_def)

lemma evict_get:
  assumes keys: "js_keys work = map k_workId (js_values work)" and dist: "distinct (js_keys work)"
    and unique: "\<And>k q. k \<in> set (js_values work) \<Longrightarrow> q \<in> set (js_values work) \<Longrightarrow> k_finishedOrdinal k \<noteq> None \<Longrightarrow>
      k_finishedOrdinal k = k_finishedOrdinal q \<Longrightarrow> k = q"
  shows "js_get (evict work) i = (if keep (client_finishes work) i then js_get work i else None)"
proof -
  let ?f = "\<lambda>k. case k_finishedOrdinal k of None \<Rightarrow> 0 | Some n \<Rightarrow> n"
  let ?fin = "filter (\<lambda>k. k_finishedOrdinal k \<noteq> None) (js_values work)"
  have "distinct ?fin" using keys dist by (simp add: distinct_map)
  moreover have "inj_on ?f (set ?fin)" using unique by (auto simp: inj_on_def split: option.splits)
  ultimately have sorted: "sorted_by ?f (finished_items work)"
    unfolding finished_items_def
    by (intro sorted_by_sort_key) (simp add: distinct_map)
  have get: "js_get (evict work) i = (if i \<in> k_workId ` set (evicted work) then None else js_get work i)"
    unfolding evict_alt js_get_filter [of "\<lambda>j. j \<notin> k_workId ` set (evicted work)"] by simp
  show ?thesis
  proof (cases "js_get work i")
    case None
    then show ?thesis by (simp add: get)
  next
    case (Some k)
    have k: "k \<in> set (js_values work)" by (rule js_get_value [OF Some])
    have "(i, k) \<in> set work" using js_get_mem_iff [OF dist] Some by blast
    then have id: "k_workId k = i" using keys by (induction work) (auto simp: js_values_def js_keys_def)
    have inj: "q = k" if "q \<in> set (js_values work)" "k_workId q = i" for q
      using that k id keys dist by (auto simp: distinct_map inj_on_def)
    have sub: "set (evicted work) \<subseteq> set (finished_items work)" by (auto simp: evicted_def dest: in_set_takeD)
    then have mem: "i \<in> k_workId ` set (evicted work) \<longleftrightarrow> k \<in> set (evicted work)"
      using inj id set_finished_items by (auto simp: image_iff)
    show ?thesis
    proof (cases "k_finishedOrdinal k")
      case None
      then have "k \<notin> set (evicted work)" using sub set_finished_items by auto
      moreover have "keep (client_finishes work) i" using Some None by (simp add: keep_simps client_finishes_def)
      ultimately show ?thesis using get mem by simp
    next
      case (Some n)
      have kf: "k \<in> set (finished_items work)" using k Some by (simp add: set_finished_items)
      have "length (filter (\<lambda>y. ?f k < ?f y) (finished_items work)) = length (filter (\<lambda>y. ?f k < ?f y) ?fin)"
        unfolding finished_items_def filter_sort by simp
      also have "filter (\<lambda>y. ?f k < ?f y) ?fin = filter (\<lambda>y. \<exists>m. k_finishedOrdinal y = Some m \<and> n < m) (js_values work)"
        using Some by (auto intro: filter_cong split: option.splits)
      also have "length \<dots> = card (newer (client_finishes work) n)"
        unfolding card_get [OF dist] by (rule arg_cong [where f = card]) (auto simp: newer_def client_finishes_def)
      finally have "k \<in> set (evicted work) \<longleftrightarrow> CLIENT_WORK_FINISHED_MAX \<le> card (newer (client_finishes work) n)"
        using take_rank [OF sorted kf, of CLIENT_WORK_FINISHED_MAX] by (simp add: evicted_def)
      moreover have "client_finishes work i = Some (Some n)" using \<open>js_get work i = Some k\<close> Some by (simp add: client_finishes_def)
      ultimately show ?thesis using get mem by (simp add: keep_simps not_le)
    qed
  qed
qed

section \<open>What a client shows of a work item\<close>

definition result_view :: "work_result option \<Rightarrow> client_work_result option" where
  "result_view x =
     (case x of
        None \<Rightarrow> None
      | Some r \<Rightarrow>
          if wr_summary r = None \<and> wr_child r = None \<and> wr_output r = None then None
          else Some \<lparr>kr_summary = wr_summary r, kr_child = wr_child r, kr_output = map_option snd (wr_output r)\<rparr>)"

text \<open>
  A client item without the three fields the kernel's record does not have: whether the work opens, and
  the timestamps of its first and last entries.
\<close>

definition core_item :: "client_work_item \<Rightarrow> client_work_item" where
  "core_item k = k\<lparr>k_opens := False, k_startedAt := None, k_finishedAt := None\<rparr>"

definition item_view :: "work_record \<Rightarrow> client_work_item" where
  "item_view r =
     \<lparr>k_workId = w_workId r, k_kind = w_kind r, k_title = w_title r, k_parentWorkId = w_parentWorkId r,
      k_cancellable = w_cancellable r, k_delivery = w_delivery r, k_resume = w_resume r,
      k_toolCallId = w_toolCallId r, k_child = w_child r, k_opens = False, k_state = w_state r,
      k_outcome = w_outcome r, k_progress = w_progress r, k_detail = w_detail r,
      k_result = result_view (w_result r), k_error = w_error r, k_startedOrdinal = w_startedOrdinal r,
      k_updatedOrdinal = w_updatedOrdinal r, k_finishedOrdinal = w_finishedOrdinal r, k_startedAt = None,
      k_finishedAt = None\<rparr>"

text \<open>The kernel's side: open work has no result yet, and no two items finished at the same ordinal.\<close>

definition finish_ok :: "nat \<Rightarrow> work_map \<Rightarrow> bool" where
  "finish_ok n work \<longleftrightarrow>
     (\<forall>i r. js_get work i = Some r \<longrightarrow> (w_outcome r = None \<longrightarrow> w_result r = None) \<and> (\<forall>m. w_finishedOrdinal r = Some m \<longrightarrow> m \<le> n)) \<and>
     (\<forall>i j r q m. js_get work i = Some r \<longrightarrow> js_get work j = Some q \<longrightarrow>
        w_finishedOrdinal r = Some m \<longrightarrow> w_finishedOrdinal q = Some m \<longrightarrow> i = j)"

definition work_sim :: "work_map \<Rightarrow> client_work \<Rightarrow> bool" where
  "work_sim work client \<longleftrightarrow>
     (\<forall>i. map_option core_item (js_get client i) =
        (if keep (finishes work) i then map_option item_view (js_get work i) else None))"

lemma core_item_fields [simp]:
  "k_workId (core_item k) = k_workId k" "k_outcome (core_item k) = k_outcome k"
  "k_finishedOrdinal (core_item k) = k_finishedOrdinal k" "k_state (core_item k) = k_state k"
  "k_progress (core_item k) = k_progress k" "k_detail (core_item k) = k_detail k"
  "k_child (core_item k) = k_child k" "k_result (core_item k) = k_result k" "k_error (core_item k) = k_error k"
  by (simp_all add: core_item_def)

lemma item_view_fields [simp]:
  "k_workId (item_view r) = w_workId r" "k_outcome (item_view r) = w_outcome r"
  "k_finishedOrdinal (item_view r) = w_finishedOrdinal r" "k_state (item_view r) = w_state r"
  "k_progress (item_view r) = w_progress r" "k_detail (item_view r) = w_detail r"
  "k_child (item_view r) = w_child r" "k_result (item_view r) = result_view (w_result r)" "k_error (item_view r) = w_error r"
  by (simp_all add: item_view_def)

lemma keep_get: "keep (finishes work) i \<Longrightarrow> \<exists>r. js_get work i = Some r"
  by (cases "js_get work i") (auto simp: keep_def finishes_def)

lemma keep_open: "js_get work i = Some r \<Longrightarrow> w_finishedOrdinal r = None \<Longrightarrow> keep (finishes work) i"
  by (simp add: keep_simps finishes_def)

lemma work_sim_get:
  assumes "work_sim work client" and "js_get client i = Some k"
  obtains r where "js_get work i = Some r" "keep (finishes work) i" "core_item k = item_view r"
proof -
  have "map_option core_item (js_get client i) = (if keep (finishes work) i then map_option item_view (js_get work i) else None)"
    using assms(1) by (simp add: work_sim_def)
  with assms(2) show ?thesis using that by (cases "js_get work i") (auto split: if_splits)
qed

lemma work_sim_open:
  assumes "work_sim work client" and "js_get work i = Some r" and "w_finishedOrdinal r = None"
  obtains k where "js_get client i = Some k" "core_item k = item_view r"
proof -
  have "map_option core_item (js_get client i) = Some (item_view r)"
    using assms keep_open [OF assms(2,3)] by (simp add: work_sim_def)
  then show ?thesis using that by auto
qed

text \<open>The finish ordinals of a client's items are those of the kept kernel records.\<close>

lemma client_finishes_sim:
  assumes "work_sim work client"
  shows "client_finishes client = (\<lambda>i. if keep (finishes work) i then finishes work i else None)"
proof
  fix i
  have "map_option k_finishedOrdinal (map_option core_item (js_get client i)) =
      map_option k_finishedOrdinal (if keep (finishes work) i then map_option item_view (js_get work i) else None)"
    using assms by (simp add: work_sim_def)
  then show "client_finishes client i = (if keep (finishes work) i then finishes work i else None)"
    by (simp add: client_finishes_def finishes_def option.map_comp comp_def split: if_splits)
qed

section \<open>One entry\<close>

lemma finishes_set: "finishes (js_set work i r) = (finishes work)(i \<mapsto> w_finishedOrdinal r)"
  by (auto simp: finishes_def js_get_set)

text \<open>An item that is open before and after keeps every other item where it was.\<close>

lemma keep_set_open:
  assumes "finishes work i = None \<or> finishes work i = Some None" and "w_finishedOrdinal r = None"
  shows "keep (finishes (js_set work i r)) j \<longleftrightarrow> j = i \<or> keep (finishes work) j"
proof (cases "j = i")
  case True
  then show ?thesis using assms(2) by (simp add: keep_simps finishes_set)
next
  case False
  have "finishes (js_set work i r) k = Some (Some m) \<longleftrightarrow> finishes work k = Some (Some m)" for k m
    using assms by (auto simp: finishes_set)
  then have "finishes (js_set work i r) j = finishes work j \<Longrightarrow>
      keep (finishes (js_set work i r)) j \<longleftrightarrow> keep (finishes work) j" by (rule keep_same_finished)
  with False show ?thesis by (simp add: finishes_set)
qed

lemma work_sim_set_open:
  assumes sim: "work_sim work client" and "finishes work i = None \<or> finishes work i = Some None"
    and "w_finishedOrdinal r = None" and "core_item k = item_view r"
  shows "work_sim (js_set work i r) (js_set client i k)"
  unfolding work_sim_def
proof
  fix j
  show "map_option core_item (js_get (js_set client i k) j) =
      (if keep (finishes (js_set work i r)) j then map_option item_view (js_get (js_set work i r) j) else None)"
    using sim assms(4) unfolding keep_set_open [OF assms(2,3)] by (simp add: work_sim_def js_get_set)
qed

lemma start_follows:
  assumes sim: "work_sim work client" and st: "start_work work ps n p = Inr r"
  shows "work_sim (js_set work (w_workId r) r) (client_startWork p n t client)"
proof -
  note r = start_work_Inr [OF st]
  have none: "js_get work (ws_workId p) = None" using r(1) by (simp add: js_has_def)
  then have "\<not> keep (finishes work) (ws_workId p)" by (simp add: keep_simps finishes_def)
  then have "map_option core_item (js_get client (ws_workId p)) = None" using sim by (simp add: work_sim_def)
  then have has: "\<not> js_has client (ws_workId p)" by (simp add: js_has_def)
  define k where "k = \<lparr>k_workId = ws_workId p, k_kind = ws_kind p, k_title = ws_title p, k_parentWorkId = ws_parentWorkId p,
       k_cancellable = ws_cancellable p, k_delivery = ws_delivery p, k_resume = ws_resume p,
       k_toolCallId = ws_toolCallId p, k_child = ws_child p, k_opens = (ws_opens p = Some True),
       k_state = ws_state p, k_outcome = None, k_progress = None, k_detail = None, k_result = None,
       k_error = None, k_startedOrdinal = n, k_updatedOrdinal = n, k_finishedOrdinal = None,
       k_startedAt = Some t, k_finishedAt = None\<rparr>"
  have "client_startWork p n t client = js_set client (ws_workId p) k" using has by (simp add: client_startWork_def k_def)
  moreover have "r = \<lparr>w_workId = ws_workId p, w_kind = ws_kind p, w_title = ws_title p,
      w_parentWorkId = ws_parentWorkId p, w_input = ws_input p, w_cancellable = ws_cancellable p,
      w_delivery = ws_delivery p, w_resume = ws_resume p, w_toolCallId = ws_toolCallId p, w_child = ws_child p,
      w_requires = ws_requires p, w_remote = ws_remote p, w_state = ws_state p, w_outcome = None,
      w_progress = None, w_detail = None, w_result = None, w_error = None, w_startedOrdinal = n,
      w_updatedOrdinal = n, w_finishedOrdinal = None, w_checkpoints = 0\<rparr>"
    using st by (auto simp: start_work_def split: if_splits option.splits)
  then have "core_item k = item_view r" by (simp add: core_item_def item_view_def k_def result_view_def)
  ultimately show ?thesis using work_sim_set_open [OF sim, of "ws_workId p" r k] none r(3,5) by (simp add: finishes_def)
qed

text \<open>An open record and the item a client shows of it.\<close>

lemma open_item:
  assumes sim: "work_sim work client" and ok: "work_ok m work" and get: "js_get work i = Some old" and opn: "w_outcome old = None"
  obtains k where "js_get client i = Some k" "core_item k = item_view old" "k_workId k = i" "k_outcome k = None"
    "w_finishedOrdinal old = None" "w_workId old = i"
proof -
  have fin: "w_finishedOrdinal old = None" using record_okD(2) [OF work_okD(4) [OF ok get]] opn by simp
  from work_sim_open [OF sim get fin] obtain k where k: "js_get client i = Some k" "core_item k = item_view old" by blast
  have id: "w_workId old = i" by (rule work_okD(3) [OF ok get])
  have "k_workId k = i" "k_outcome k = None"
    using arg_cong [OF k(2), of k_workId] arg_cong [OF k(2), of k_outcome] id opn by simp_all
  with k fin id show ?thesis using that by blast
qed

lemma checkpoint_follows:
  assumes sim: "work_sim work client" and ok: "work_ok m work" and cp: "checkpoint_work work n p = Inr r"
  shows "work_sim (js_set work (w_workId r) r) (client_checkpointWork p n client)"
proof -
  from cp obtain old where get: "js_get work (wc_workId p) = Some old" "w_outcome old = None"
    and r: "r = old\<lparr>w_state := (case wc_state p of None \<Rightarrow> w_state old | Some t \<Rightarrow> t),
             w_progress := or_keep (wc_progress p) (w_progress old), w_detail := or_keep (wc_detail p) (w_detail old),
             w_child := or_keep (wc_child p) (w_child old), w_updatedOrdinal := n, w_checkpoints := w_checkpoints old + 1\<rparr>"
    by (auto simp: checkpoint_work_def res_simps open_record_Inr split: option.splits)
  obtain k where k: "js_get client (wc_workId p) = Some k" "core_item k = item_view old" "k_workId k = wc_workId p"
    "k_outcome k = None" "w_finishedOrdinal old = None" "w_workId old = wc_workId p" by (rule open_item [OF sim ok get])
  define k' where "k' = k\<lparr>k_state := (case wc_state p of None \<Rightarrow> k_state k | Some st \<Rightarrow> st),
                k_progress := or_keep (wc_progress p) (k_progress k), k_detail := or_keep (wc_detail p) (k_detail k),
                k_child := or_keep (wc_child p) (k_child k), k_updatedOrdinal := n\<rparr>"
  have old_fields: "k_state k = w_state old" "k_progress k = w_progress old" "k_detail k = w_detail old" "k_child k = w_child old"
    using arg_cong [OF k(2), of k_state] arg_cong [OF k(2), of k_progress] arg_cong [OF k(2), of k_detail]
      arg_cong [OF k(2), of k_child] by simp_all
  have "core_item k' = (core_item k)\<lparr>k_state := k_state k', k_progress := k_progress k', k_detail := k_detail k',
      k_child := k_child k', k_updatedOrdinal := n\<rparr>" by (simp add: core_item_def k'_def)
  also have "\<dots> = item_view r" unfolding k(2) by (simp add: item_view_def k'_def r old_fields split: option.split)
  finally have view: "core_item k' = item_view r" .
  have "client_checkpointWork p n client = js_set client (wc_workId p) k'"
    using k(1,3,4) by (simp add: client_checkpointWork_def k'_def)
  moreover have "finishes work (wc_workId p) = Some None" using get(1) k(5) by (simp add: finishes_def)
  moreover have "w_finishedOrdinal r = None" "w_workId r = wc_workId p" using k(5,6) by (simp_all add: r)
  ultimately show ?thesis using work_sim_set_open [OF sim _ _ view] by simp
qed

lemma finish_view:
  assumes k: "core_item k = item_view old" and res: "w_result old = None"
  shows "core_item (k\<lparr>k_outcome := Some (wf_outcome p), k_result := or_keep (client_result p) (k_result k),
      k_error := or_keep (wf_error p) (k_error k), k_updatedOrdinal := n, k_finishedOrdinal := Some n, k_finishedAt := Some t\<rparr>) =
    item_view (old\<lparr>w_outcome := Some (wf_outcome p), w_result := or_keep (wf_result p) (w_result old),
      w_error := or_keep (wf_error p) (w_error old), w_updatedOrdinal := n, w_finishedOrdinal := Some n\<rparr>)"
proof -
  have fields: "k_result k = result_view (w_result old)" "k_error k = w_error old"
    using arg_cong [OF k, of k_result] arg_cong [OF k, of k_error] by simp_all
  have result: "or_keep (client_result p) (result_view None) = result_view (or_keep (wf_result p) None)"
  proof -
    have "client_result p = result_view (wf_result p)" by (simp add: client_result_def result_view_def)
    moreover have "result_view None = None" by (simp add: result_view_def)
    ultimately show ?thesis by (cases "wf_result p"; cases "result_view (wf_result p)") (auto simp: or_keep_def)
  qed
  let ?k = "k\<lparr>k_outcome := Some (wf_outcome p), k_result := or_keep (client_result p) (k_result k),
      k_error := or_keep (wf_error p) (k_error k), k_updatedOrdinal := n, k_finishedOrdinal := Some n, k_finishedAt := Some t\<rparr>"
  have "core_item ?k = (core_item k)\<lparr>k_outcome := k_outcome ?k, k_result := k_result ?k, k_error := k_error ?k,
      k_updatedOrdinal := n, k_finishedOrdinal := Some n\<rparr>" by (simp add: core_item_def)
  then show ?thesis unfolding k by (simp add: item_view_def fields res result)
qed

lemma finish_follows:
  assumes sim: "work_sim work client" and ok: "work_ok m work" and fin: "finish_ok m work" and less: "m < n"
    and cok: "client_work_ok l client" and cless: "l < n" and fw: "finish_work work n p = Inr r"
  shows "work_sim (js_set work (w_workId r) r) (client_finishWork p n t client)"
proof -
  let ?F = "finishes work" and ?x = "wf_workId p"
  from fw obtain old where get: "js_get work ?x = Some old" "w_outcome old = None"
    and r: "r = old\<lparr>w_outcome := Some (wf_outcome p), w_result := or_keep (wf_result p) (w_result old),
      w_error := or_keep (wf_error p) (w_error old), w_updatedOrdinal := n, w_finishedOrdinal := Some n\<rparr>"
    by (auto simp: finish_work_def res_simps open_record_Inr)
  obtain k where k: "js_get client ?x = Some k" "core_item k = item_view old" "k_workId k = ?x" "k_outcome k = None"
    "w_finishedOrdinal old = None" "w_workId old = ?x" by (rule open_item [OF sim ok get])
  define k' where "k' = k\<lparr>k_outcome := Some (wf_outcome p), k_result := or_keep (client_result p) (k_result k),
      k_error := or_keep (wf_error p) (k_error k), k_updatedOrdinal := n, k_finishedOrdinal := Some n, k_finishedAt := Some t\<rparr>"
  define c1 where "c1 = js_set client ?x k'"
  have view: "core_item k' = item_view r"
    using finish_view [OF k(2)] fin get by (simp add: k'_def r finish_ok_def)
  have cl: "client_finishWork p n t client = evict c1" using k(1,3,4) by (simp add: client_finishWork_def k'_def c1_def)
  have kid: "k_workId k' = ?x" "k_startedOrdinal k' = k_startedOrdinal k" "k_outcome k' = None \<longleftrightarrow> k_finishedOrdinal k' = None"
    using k(3) by (simp_all add: k'_def)
  have c1_ok: "js_keys c1 = map k_workId (js_values c1)" "distinct (js_keys c1)"
    using set_item_ok(1,2) [OF cok cless _ kid(2,3)] k(1) kid(1) unfolding c1_def by simp_all
  have F: "finishes (js_set work ?x r) = ?F(?x \<mapsto> Some n)" by (simp add: finishes_set r)
  have kx: "?F ?x = Some None" "keep ?F ?x" using get(1) k(5) by (simp_all add: finishes_def keep_simps)
  have last: "v < n" if "?F i = Some (Some v)" for i v
    using that fin less by (fastforce simp: finishes_def finish_ok_def)
  have C: "client_finishes c1 = (\<lambda>i. if keep ?F i then (?F(?x \<mapsto> Some n)) i else None)"
  proof
    fix i
    have "client_finishes client i = (if keep ?F i then ?F i else None)" using client_finishes_sim [OF sim] by simp
    then show "client_finishes c1 i = (if keep ?F i then (?F(?x \<mapsto> Some n)) i else None)"
      using kx(2) by (auto simp: client_finishes_def c1_def js_get_set k'_def split: if_splits)
  qed
  have ids: "js_get c1 (k_workId v) = Some v" if v: "v \<in> set (js_values c1)" for v
  proof -
    obtain i where "(i, v) \<in> set c1" using v by (force simp: js_values_def)
    then have "js_get c1 i = Some v" by (rule js_get_mem [OF c1_ok(2)])
    moreover have "k_workId v = i" using \<open>(i, v) \<in> set c1\<close> c1_ok(1) by (induction c1) (auto simp: js_values_def js_keys_def)
    ultimately show ?thesis by simp
  qed
  have unique: "v = q" if v: "v \<in> set (js_values c1)" and q: "q \<in> set (js_values c1)"
      and f: "k_finishedOrdinal v \<noteq> None" "k_finishedOrdinal v = k_finishedOrdinal q" for v q
  proof -
    obtain z where z: "k_finishedOrdinal v = Some z" "k_finishedOrdinal q = Some z" using f by auto
    have "client_finishes c1 (k_workId v) = Some (Some z)" "client_finishes c1 (k_workId q) = Some (Some z)"
      using ids [OF v] ids [OF q] z by (simp_all add: client_finishes_def)
    then have "(?F(?x \<mapsto> Some n)) (k_workId v) = Some (Some z)" "(?F(?x \<mapsto> Some n)) (k_workId q) = Some (Some z)"
      unfolding C by (auto split: if_splits)
    then have "k_workId v = k_workId q"
      using last fin by (auto simp: finishes_def finish_ok_def split: if_splits)
    then show ?thesis using ids [OF v] ids [OF q] by (metis option.inject)
  qed
  have kf: "keep (\<lambda>i. if keep ?F i then (?F(?x \<mapsto> Some n)) i else None) i \<longleftrightarrow> keep (?F(?x \<mapsto> Some n)) i" for i
    by (rule keep_finish [OF finite_finishes kx(1)]) (rule last)
  have evict: "js_get (evict c1) i = (if keep (?F(?x \<mapsto> Some n)) i then js_get c1 i else None)" for i
    using evict_get [OF c1_ok, of i] unique unfolding C kf by blast
  have kept: "keep ?F i" if "keep (?F(?x \<mapsto> Some n)) i" for i
    using that keep_restrict [of "keep ?F" "?F(?x \<mapsto> Some n)" i] unfolding kf by blast
  have "w_workId r = ?x" using k(6) by (simp add: r)
  then show ?thesis unfolding work_sim_def cl evict F
    using sim view kept by (auto simp: work_sim_def c1_def js_get_set F)
qed

text \<open>Every accepted entry changes the client's work as it changes the kernel's.\<close>

definition next_works :: "work_map \<Rightarrow> work_record option \<Rightarrow> work_map" where
  "next_works work x = (case x of None \<Rightarrow> work | Some r \<Rightarrow> js_set work (w_workId r) r)"

lemma work_sim_step:
  assumes p: "projectFoldEntry source e = Some p" and nw: "next_work s e = Inr x"
    and sim: "work_sim (st_work s) client" and ok: "work_ok m (st_work s)" and fin: "finish_ok m (st_work s)"
    and less: "m < e_ordinal e" and cok: "client_work_ok l client" "l < e_ordinal e"
  shows "work_sim (next_works (st_work s) x) (apply_work p client)"
proof (cases "isWorkBody (e_body e)")
  case False
  then have "reduceWork (st_work s) (named_parents (st_work s)) (e_ordinal e) (e_body e) = None"
    by (simp add: isWorkBody_reduceWork)
  then have "x = None" using nw by (simp add: next_work_def)
  moreover have "apply_work p client = client"
    using False projectFoldEntry_Some [OF p] by (cases "e_body e") (auto simp: apply_work_def)
  ultimately show ?thesis using sim by (simp add: next_works_def)
next
  case True
  then have "reduceWork (st_work s) (named_parents (st_work s)) (e_ordinal e) (e_body e) \<noteq> None"
    by (simp add: isWorkBody_reduceWork)
  then obtain r where x: "x = Some r" using nw by (cases x) (simp_all add: next_work_None)
  have red: "reduceWork (st_work s) (named_parents (st_work s)) (e_ordinal e) (e_body e) = Some (Inr r)"
    using nw x by (simp add: next_work_Some)
  have "work_sim (js_set (st_work s) (w_workId r) r) (apply_work p client)"
    using True red projectFoldEntry_Some [OF p] start_follows [OF sim] checkpoint_follows [OF sim ok]
      finish_follows [OF sim ok fin less cok]
    by (cases "e_body e") (auto simp: apply_work_def project_payload_def)
  then show ?thesis by (simp add: next_works_def x)
qed

lemma finish_ok_set:
  assumes ok: "finish_ok m work" and le: "m < n" and r: "w_outcome r = None \<Longrightarrow> w_result r = None" "\<And>v. w_finishedOrdinal r = Some v \<Longrightarrow> v = n"
  shows "finish_ok n (js_set work i r)"
  unfolding finish_ok_def
proof (intro conjI allI impI)
  fix j q assume "js_get (js_set work i r) j = Some q"
  then have "q = r \<or> js_get work j = Some q" by (auto simp: js_get_set split: if_splits)
  then show "w_outcome q = None \<Longrightarrow> w_result q = None" "\<And>v. w_finishedOrdinal q = Some v \<Longrightarrow> v \<le> n"
    using ok le r by (fastforce simp: finish_ok_def)+
next
  fix j k q q' v assume "js_get (js_set work i r) j = Some q" "js_get (js_set work i r) k = Some q'"
    "w_finishedOrdinal q = Some v" "w_finishedOrdinal q' = Some v"
  moreover have "v' \<noteq> n" if "js_get work j' = Some z" "w_finishedOrdinal z = Some v'" for j' z v'
    using ok le that by (fastforce simp: finish_ok_def)
  ultimately show "j = k" using r(2) ok by (auto simp: js_get_set finish_ok_def split: if_splits)
qed

lemma finish_ok_mono: "finish_ok m work \<Longrightarrow> m \<le> n \<Longrightarrow> finish_ok n work"
  unfolding finish_ok_def by (meson order_trans)

lemma finish_ok_step:
  assumes nw: "next_work s e = Inr x" and fin: "finish_ok m (st_work s)" and ok: "work_ok m (st_work s)" and less: "m < e_ordinal e"
  shows "finish_ok (e_ordinal e) (next_works (st_work s) x)"
proof (cases x)
  case None
  then show ?thesis using finish_ok_mono [OF fin] less by (simp add: next_works_def)
next
  case (Some r)
  then have red: "reduceWork (st_work s) (named_parents (st_work s)) (e_ordinal e) (e_body e) = Some (Inr r)"
    using nw by (simp add: next_work_Some)
  have "w_outcome r = None \<Longrightarrow> w_result r = None"
  proof -
    assume opn: "w_outcome r = None"
    show "w_result r = None"
      using red opn fin
      by (cases "e_body e") (auto simp: start_work_def checkpoint_work_def finish_work_def res_simps open_record_Inr
          finish_ok_def split: if_splits option.splits)
  qed
  moreover have "v = e_ordinal e" if "w_finishedOrdinal r = Some v" for v
    using red ok by (cases rule: reduceWork_cases) (use that in auto)
  ultimately show ?thesis using finish_ok_set [OF fin less] Some by (simp add: next_works_def)
qed

section \<open>The list a client shows\<close>

definition finished_later :: "work_record \<Rightarrow> work_record \<Rightarrow> bool" where
  "finished_later r q \<longleftrightarrow>
     (case w_finishedOrdinal r of None \<Rightarrow> False
      | Some n \<Rightarrow> (case w_finishedOrdinal q of None \<Rightarrow> False | Some m \<Rightarrow> n < m))"

definition retained :: "work_map \<Rightarrow> work_record \<Rightarrow> bool" where
  "retained work r \<longleftrightarrow>
     w_finishedOrdinal r = None \<or> length (filter (finished_later r) (js_values work)) < CLIENT_WORK_FINISHED_MAX"

lemma retained_keep:
  assumes "distinct (js_keys work)" and "js_get work i = Some r"
  shows "retained work r \<longleftrightarrow> keep (finishes work) i"
proof (cases "w_finishedOrdinal r")
  case None
  then show ?thesis using assms(2) by (simp add: retained_def keep_simps finishes_def)
next
  case (Some n)
  have "length (filter (finished_later r) (js_values work)) = card (newer (finishes work) n)"
    unfolding card_get [OF assms(1)]
    by (rule arg_cong [where f = card]) (auto simp: newer_def finishes_def finished_later_def Some split: option.splits)
  moreover have "finishes work i = Some (Some n)" using assms(2) Some by (simp add: finishes_def)
  ultimately show ?thesis using Some by (simp add: retained_def keep_simps)
qed

lemma work_sim_list:
  assumes sim: "work_sim work client" and ok: "work_ok m work" and cok: "client_work_ok l client"
  shows "map core_item (js_values client) = map item_view (filter (retained work) (js_values work))"
proof -
  note w = work_okD [OF ok] and c = client_work_okD [OF cok]
  have "x \<in> core_item ` set (js_values client) \<longleftrightarrow> x \<in> item_view ` {r \<in> set (js_values work). retained work r}" for x
  proof
    assume "x \<in> core_item ` set (js_values client)"
    then obtain i k where "js_get client i = Some k" "x = core_item k"
      using js_get_mem [OF c(2)] by (force simp: js_values_def)
    then obtain r where "js_get work i = Some r" "keep (finishes work) i" "x = item_view r" using work_sim_get [OF sim] by metis
    then show "x \<in> item_view ` {r \<in> set (js_values work). retained work r}"
      using retained_keep [OF w(1)] js_get_value by fastforce
  next
    assume "x \<in> item_view ` {r \<in> set (js_values work). retained work r}"
    then obtain i r where r: "js_get work i = Some r" "retained work r" "x = item_view r"
      using js_get_mem [OF w(1)] by (force simp: js_values_def)
    then have "map_option core_item (js_get client i) = Some x" using sim retained_keep [OF w(1) r(1)] by (simp add: work_sim_def)
    then show "x \<in> core_item ` set (js_values client)" using js_get_value by fastforce
  qed
  moreover have "sorted_by k_startedOrdinal (map core_item (js_values client))"
    using c(3) by (simp add: sorted_by_map core_item_def)
  moreover have "sorted_by k_startedOrdinal (map item_view (filter (retained work) (js_values work)))"
    using sorted_by_filter [OF w(2)] by (simp add: sorted_by_map item_view_def)
  ultimately show ?thesis by (intro sorted_by_unique) auto
qed

end
