(* ===== verification/Client_Correctness.thy ===== *)
theory Client_Correctness
  imports Client_Inputs Client_Work Fold_Correctness
begin

text \<open>
  What a client knows of a conversation: the client fold of a log's local projection agrees with the
  kernel's fold of the log, and a client's snapshot resumes it.
\<close>

section \<open>The simulation\<close>

definition client_sim :: "entry_map \<Rightarrow> conversation_state \<Rightarrow> client_state \<Rightarrow> bool" where
  "client_sim source s c \<longleftrightarrow>
     branch_sim source s c \<and> queue_sim (st_byId s) (st_inputs s) (cs_queue c) \<and>
     work_sim (st_work s) (cs_work c) \<and> finish_ok (st_ordinal s) (st_work s) \<and>
     cs_labels c = st_labels s \<and> cs_name c = st_name s \<and> client_inv c \<and> cs_ordinal c \<le> st_ordinal s"

lemma client_simD:
  assumes "client_sim source s c"
  shows "branch_sim source s c" "queue_sim (st_byId s) (st_inputs s) (cs_queue c)" "work_sim (st_work s) (cs_work c)"
    "finish_ok (st_ordinal s) (st_work s)" "cs_labels c = st_labels s" "cs_name c = st_name s" "client_inv c"
    "cs_ordinal c \<le> st_ordinal s"
  using assms by (simp_all add: client_sim_def)

lemma client_sim_empty: "client_sim source emptyState emptyClientState"
  using client_inv_empty
  by (simp add: client_sim_def branch_sim_def tree_sim_def queue_sim_def work_sim_def finish_ok_def find_input_def
      context_values_def emptyContext_def emptyState_def emptyClientState_def DEFAULT_CLIENT_BRANCH_VALUES_def)

text \<open>What one accepted entry does to the labels, the name, the inputs and the work.\<close>

definition next_labels :: "log_entry \<Rightarrow> (entry_id, conversation_label) js_map \<Rightarrow> (entry_id, conversation_label) js_map" where
  "next_labels e labels = (case e_body e of Label t l \<Rightarrow> client_setLabel t l (e_timestamp e) labels | _ \<Rightarrow> labels)"

definition next_name :: "log_entry \<Rightarrow> string option \<Rightarrow> string option" where
  "next_name e name = (case e_body e of SessionInfo n \<Rightarrow> trim_or_null n | _ \<Rightarrow> name)"

lemma set_records_labels:
  "st_labels (set_records e input work s) = next_labels e (st_labels s)"
  "st_name (set_records e input work s) = next_name e (st_name s)"
  by (cases "e_body e"; simp add: set_records_def next_labels_def next_name_def setLabel_def client_setLabel_def
      setClientInput_def setWork_def appendChild_def Let_def split: option.split)+

lemma apply_entry_records:
  assumes "apply_entry s e = Inr s'"
  obtains input work where "nextClientInput (st_inputs s) e = Inr input" "next_work s e = Inr work"
    "st_inputs s' = next_inputs (st_inputs s) input" "st_work s' = next_works (st_work s) work"
    "st_labels s' = next_labels e (st_labels s)" "st_name s' = next_name e (st_name s)"
proof -
  from assms obtain input work s1 where rec: "nextClientInput (st_inputs s) e = Inr input" "next_work s e = Inr work"
    and mv: "move_branch e (set_records e input work s) = Some s1" and s': "s' = s1\<lparr>st_ordinal := e_ordinal e\<rparr>"
    by (rule apply_entry_Inr)
  note frame = move_branch_frame [OF mv]
  show ?thesis
    using that [OF rec] frame s' set_records_inputs(1) [of e input work s] set_records_work(1) [of e input work s]
      set_records_labels [of e input work s] by (simp add: next_works_def)
qed

lemma applyRecords_projected:
  assumes "projectFoldEntry source e = Some p"
  shows "cs_labels (applyRecords p c) = next_labels e (cs_labels c)" "cs_name (applyRecords p c) = next_name e (cs_name c)"
  using projectFoldEntry_Some [OF assms]
  by (cases "e_body e"; simp add: applyRecords_def next_labels_def next_name_def project_payload_def)+

lemma client_sim_hidden:
  assumes inv: "conv_inv s" and app: "apply_entry s e = Inr s'" and sim: "client_sim source s c"
    and vis: "stored_visibility e" and src: "js_get source (e_id e) = Some e" and hidden: "projectFoldEntry source e = None"
  shows "client_sim source s' c"
proof -
  note d = client_simD [OF sim] and grow = apply_entry_byId [OF app]
  obtain t j where body: "e_body e = Product t j"
    using hidden by (cases "e_body e") (auto simp: projectFoldEntry_def)
  then have host: "e_visibility e \<noteq> Public" using vis by (simp add: stored_visibility_def shape_visibility_def)
  have ok: "inputs_ok (st_byId s) (st_inputs s)" using inv by (simp add: conv_inv_def inputs_inv_def)
  from app obtain input work s1 where rec: "nextClientInput (st_inputs s) e = Inr input" "next_work s e = Inr work"
    and mv: "move_branch e (set_records e input work s) = Some s1" and s': "s' = s1\<lparr>st_ordinal := e_ordinal e\<rparr>"
    by (rule apply_entry_Inr)
  have none: "input = None" "work = None" using rec body by (simp_all add: nextClientInput_def next_work_def)
  have "s1 = set_records e None None s" using mv body host none by (simp add: move_branch_def)
  then have s'_eq: "s' = s\<lparr>st_byId := js_set (st_byId s) (e_id e) e, st_ordinal := e_ordinal e\<rparr>"
    using s' body host by (simp add: set_records_def)
  have tree: "tree_sim source (st_byId s') (cs_byId c)"
    using tree_sim_snoc [OF _ grow(4) vis src] d(1) grow(1) hidden by (simp add: branch_sim_def)
  show ?thesis unfolding client_sim_def branch_sim_def
    using tree d queue_sim_grow [OF d(2) ok grow(4)] grow(1,3) finish_ok_mono [OF d(4), of "e_ordinal e"]
    by (simp add: branch_sim_def s'_eq)
qed

lemma client_sim_step:
  assumes inv: "conv_inv s" and app: "apply_entry s e = Inr s'" and sim: "client_sim source s c"
    and vis: "stored_visibility e" and src: "js_get source (e_id e) = Some e" and p: "projectFoldEntry source e = Some p"
  obtains c' where "client_apply c p = Inr c'" "client_sim source s' c'"
proof -
  note d = client_simD [OF sim] and grow = apply_entry_byId [OF app]
  have inv': "conv_inv s'" by (rule conv_inv_apply [OF inv app])
  have ok: "inputs_ok (st_byId s) (st_inputs s)" and work: "work_ok (st_ordinal s) (st_work s)"
    using inv by (simp_all add: conv_inv_def inputs_inv_def work_inv_def)
  have tree: "tree_sim source (st_byId s) (cs_byId c)" using d(1) by (simp add: branch_sim_def)
  have ord: "cs_ordinal c < e_ordinal e" "st_ordinal s < e_ordinal e" using d(8) grow(3) by simp_all
  obtain c' where c': "client_apply c p = Inr c'" by (rule client_apply_projected [OF tree grow(4) ord(1) p])
  note cd = client_applyD [OF c']
  define u where "u = applyRecords p (c\<lparr>cs_entries := cs_entries c @ [p], cs_byId := cs_byId c @ [(pe_id p, p)]\<rparr>)"
  have c'_eq: "c' = (client_move p u)\<lparr>cs_ordinal := pe_ordinal p\<rparr>" using cd(10) by (simp add: u_def)
  have u: "cs_byId u = cs_byId c @ [(pe_id p, p)]" "cs_leafId u = cs_leafId c" "cs_values u = cs_values c" "cs_base u = cs_base c"
    by (simp_all add: u_def applyRecords_def)
  have pid: "pe_id p = e_id e" "pe_ordinal p = e_ordinal e" using projectFoldEntry_Some [OF p] by simp_all
  have tree': "tree_sim source (st_byId s') (cs_byId u)"
    using tree_sim_snoc [OF tree grow(4) vis src] grow(1) u(1) p pid by simp
  have branch: "branch_sim source s' c'"
    using branch_sim_values [OF inv inv' app d(1) u tree' p vis] tree' d(1) u(1,4)
    by (simp add: branch_sim_def c'_eq)
  from app obtain input x where rec: "nextClientInput (st_inputs s) e = Inr input" "next_work s e = Inr x"
    "st_inputs s' = next_inputs (st_inputs s) input" "st_work s' = next_works (st_work s) x"
    "st_labels s' = next_labels e (st_labels s)" "st_name s' = next_name e (st_name s)"
    by (rule apply_entry_records)
  have queue: "queue_sim (st_byId s') (st_inputs s') (cs_queue c')"
    using queue_sim_step [OF p rec(1) grow(4) d(2) ok] by (simp add: cd(6) rec(3) grow(1))
  have cwork: "client_work_ok (cs_ordinal c) (cs_work c)" using d(7) by (simp add: client_inv_def)
  have "work_sim (st_work s') (cs_work c')"
    using work_sim_step [OF p rec(2) d(3) work d(4) ord(2) cwork ord(1)] by (simp add: cd(7) rec(4))
  moreover have "finish_ok (st_ordinal s') (st_work s')"
    using finish_ok_step [OF rec(2) d(4) work ord(2)] by (simp add: rec(4) grow(2))
  moreover have "cs_labels c' = st_labels s'" "cs_name c' = st_name s'"
    using applyRecords_projected [OF p] d(5,6) rec(5,6) by (simp_all add: c'_eq u_def)
  moreover have "client_inv c'" by (rule client_inv_apply [OF d(7) c'])
  moreover have "cs_ordinal c' \<le> st_ordinal s'" using cd(5) pid(2) grow(2) by simp
  ultimately have "client_sim source s' c'" using branch queue by (simp add: client_sim_def)
  with c' show ?thesis using that by blast
qed

lemma client_fold_sim_from:
  assumes "fold_log es s = Inr s'" and "conv_inv s" and "client_sim source s c"
    and "\<forall>e \<in> set es. stored_visibility e \<and> js_get source (e_id e) = Some e"
  shows "\<exists>c'. clientFold (projectLog source es) c = Inr c' \<and> client_sim source s' c'"
  using assms
proof (induction es arbitrary: s c)
  case Nil
  then show ?case by (simp add: fold_log_def clientFold_def projectLog_def)
next
  case (Cons e es)
  then obtain t where t: "apply_entry s e = Inr t" "fold_log es t = Inr s'"
    by (auto simp: fold_log_def res_bind_Inr_iff)
  have vis: "stored_visibility e" "js_get source (e_id e) = Some e" using Cons.prems(4) by simp_all
  have inv: "conv_inv t" by (rule conv_inv_apply [OF Cons.prems(2) t(1)])
  show ?case
  proof (cases "projectFoldEntry source e")
    case None
    have "client_sim source t c" by (rule client_sim_hidden [OF Cons.prems(2) t(1) Cons.prems(3) vis None])
    from Cons.IH [OF t(2) inv this] Cons.prems(4) None show ?thesis by (simp add: projectLog_def map_filter_Cons)
  next
    case (Some p)
    obtain d where d: "client_apply c p = Inr d" "client_sim source t d"
      by (rule client_sim_step [OF Cons.prems(2) t(1) Cons.prems(3) vis Some])
    from Cons.IH [OF t(2) inv d(2)] Cons.prems(4) Some d(1) show ?thesis
      by (simp add: projectLog_def map_filter_Cons clientFold_def)
  qed
qed

text \<open>A client that folds the projection of a whole log.\<close>

lemma client_fold_sim:
  assumes "fold_log es emptyState = Inr s" and "\<forall>e \<in> set es. stored_visibility e"
  obtains c where "clientFold (projectLog (st_byId s) es) emptyClientState = Inr c" "client_sim (st_byId s) s c"
  using client_fold_sim_from [OF assms(1) conv_inv_empty client_sim_empty, of "st_byId s"] assms(2) fold_log_get [OF assms(1)] that
  by blast

section \<open>A sample client\<close>

lemma sample_stored: "\<forall>e \<in> set sample_log. stored_visibility e"
  by code_simp

lemma sample_client:
  "(case clientFold (projectLog (st_byId sample_state) sample_log) emptyClientState of
      Inl _ \<Rightarrow> None
    | Inr c \<Rightarrow> Some (cs_leafId c, bv_model (cs_values c), map cq_clientMessageId (cs_queue c), map k_workId (js_values (cs_work c)))) =
   Some (Some ''e14'', Some (''p'', ''m2''), [''c2''], [''w1'', ''w2'', ''w3''])"
  by code_simp

section \<open>The client agrees with the kernel\<close>

lemma client_sim_branch:
  assumes inv: "conv_inv s" and sim: "client_sim source s c"
  shows "clientActiveBranch c = map (projected source) (path_entries (st_byId s) (st_branch s))"
proof -
  have ok: "tree_ok (st_byId s)" and pub: "public_leaf (st_byId s) (st_leafId s)"
    and path: "pathTo (st_byId s) (st_leafId s) = Some (st_branch s)"
    using inv by (simp_all add: conv_inv_def tree_inv_def branch_inv_def public_leaf_def)
  have tree: "tree_sim source (st_byId s) (cs_byId c)" and leaf: "cs_leafId c = st_leafId s"
    using client_simD(1) [OF sim] by (simp_all add: branch_sim_def)
  show ?thesis unfolding clientActiveBranch_def heldBranch_def leaf
    by (rule held_walk_path [OF ok tree public_leaf_known [OF pub] pub path]) simp
qed

text \<open>
  C31: A client that folds the local projection of a log the kernel accepts never fails, holds the projection
  of the kernel's active branch as its own, and agrees with the kernel on the leaf, the branch's model,
  thinking level, fast mode and planning state, the name and the labels.
\<close>

theorem client_tracks_branch:
  assumes "fold_log es emptyState = Inr s" and "\<forall>e \<in> set es. stored_visibility e"
  shows "\<exists>c. clientFold (projectLog (st_byId s) es) emptyClientState = Inr c \<and>
    clientActiveBranch c = map (projected (st_byId s)) (path_entries (st_byId s) (st_branch s)) \<and>
    cs_leafId c = st_leafId s \<and> cs_values c = context_values (st_context s) (st_planning s) \<and>
    cs_name c = st_name s \<and> cs_labels c = st_labels s"
proof -
  obtain c where c: "clientFold (projectLog (st_byId s) es) emptyClientState = Inr c" "client_sim (st_byId s) s c"
    by (rule client_fold_sim [OF assms])
  note d = client_simD [OF c(2)]
  show ?thesis
    using c(1) client_sim_branch [OF fold_log_inv [OF assms(1)] c(2)] d(1,5,6) by (auto simp: branch_sim_def)
qed

theorem client_tracks_branch_witness:
  "\<exists>c. clientFold (projectLog (st_byId sample_state) sample_log) emptyClientState = Inr c \<and>
     cs_leafId c = Some ''e14'' \<and> cs_leafId c = st_leafId sample_state \<and>
     cs_values c = context_values (st_context sample_state) (st_planning sample_state) \<and>
     bv_model (cs_values c) = Some (''p'', ''m2'')"
  using client_tracks_branch [OF sample_fold sample_stored] sample_client by auto

text \<open>
  C32: The client's queue is exactly the kernel's open client inputs, in admission order, each with the state,
  command, delivery and text the kernel has for it.
\<close>

theorem client_tracks_queue:
  assumes "fold_log es emptyState = Inr s" and "\<forall>e \<in> set es. stored_visibility e"
  shows "\<exists>c. clientFold (projectLog (st_byId s) es) emptyClientState = Inr c \<and>
    cs_queue c = map (input_view (st_byId s))
      (sort_key (record_admission (st_byId s)) (filter input_open (js_values (st_inputs s))))"
proof -
  obtain c where c: "clientFold (projectLog (st_byId s) es) emptyClientState = Inr c" "client_sim (st_byId s) s c"
    by (rule client_fold_sim [OF assms])
  note d = client_simD [OF c(2)]
  have "tree_ok (st_byId s)" "inputs_ok (st_byId s) (st_inputs s)"
    using fold_log_inv [OF assms(1)] by (simp_all add: conv_inv_def tree_inv_def inputs_inv_def)
  then show ?thesis using c(1) queue_sim_list [OF _ d(2)] d(7) by (auto simp: client_inv_def)
qed

theorem client_tracks_queue_witness:
  "\<exists>c. clientFold (projectLog (st_byId sample_state) sample_log) emptyClientState = Inr c \<and>
     map cq_clientMessageId (cs_queue c) = [''c2''] \<and>
     cs_queue c = map (input_view (st_byId sample_state))
       (sort_key (record_admission (st_byId sample_state)) (filter input_open (js_values (st_inputs sample_state))))"
  using client_tracks_queue [OF sample_fold sample_stored] sample_client by auto

text \<open>
  C33: The client's work is the kernel's open work and the newest 64 finished items of it, in start order, each
  with the state, progress, outcome and result the kernel recorded; evicting one item at a time as work
  finishes keeps exactly those.
\<close>

theorem client_tracks_work:
  assumes "fold_log es emptyState = Inr s" and "\<forall>e \<in> set es. stored_visibility e"
  shows "\<exists>c. clientFold (projectLog (st_byId s) es) emptyClientState = Inr c \<and>
    map core_item (js_values (cs_work c)) = map item_view (filter (retained (st_work s)) (js_values (st_work s))) \<and>
    length (filter (\<lambda>k. k_finishedOrdinal k \<noteq> None) (js_values (cs_work c))) \<le> 64"
proof -
  obtain c where c: "clientFold (projectLog (st_byId s) es) emptyClientState = Inr c" "client_sim (st_byId s) s c"
    by (rule client_fold_sim [OF assms])
  note d = client_simD [OF c(2)]
  have work: "work_ok (st_ordinal s) (st_work s)" using fold_log_inv [OF assms(1)] by (simp add: conv_inv_def work_inv_def)
  have cwork: "client_work_ok (cs_ordinal c) (cs_work c)" using d(7) by (simp add: client_inv_def)
  show ?thesis using c(1) work_sim_list [OF d(3) work cwork] client_work_okD(6) [OF cwork]
    by (auto simp: finished_count_def CLIENT_WORK_FINISHED_MAX_def)
qed

theorem client_tracks_work_witness:
  "\<exists>c. clientFold (projectLog (st_byId sample_state) sample_log) emptyClientState = Inr c \<and>
     map k_workId (js_values (cs_work c)) = [''w1'', ''w2'', ''w3''] \<and>
     map core_item (js_values (cs_work c)) =
       map item_view (filter (retained (st_work sample_state)) (js_values (st_work sample_state)))"
  using client_tracks_work [OF sample_fold sample_stored] sample_client by auto

section \<open>Resuming\<close>

text \<open>
  C34: A client's snapshot loses nothing. Whatever frames a client received, entries or head positions,
  restoring its snapshot at its position gives its state back, and the frames that follow then have the
  effect, errors included, they would have had without the interruption.
\<close>

theorem client_resume_frames:
  assumes "res_fold client_frame_step emptyClientState xs = Inr c"
  shows "clientRestore (cs_ordinal c) (clientSnapshot c) = Inr c \<and>
    (\<forall>c' ys. clientRestore (cs_ordinal c) (clientSnapshot c) = Inr c' \<longrightarrow>
       res_fold client_frame_step c' ys = res_fold client_frame_step emptyClientState (xs @ ys))"
  using client.restore_fold [OF assms] client.resume [OF assms] by (auto simp: client_resume_def client_checkpoint_def)

theorem client_resume_frames_witness:
  "\<exists>c. res_fold client_frame_step emptyClientState (map EntryFrame (projectLog (st_byId sample_state) sample_log)) = Inr c \<and>
     clientRestore 14 (clientSnapshot c) = Inr c \<and>
     res_fold client_frame_step c [HeadFrame 16] =
       res_fold client_frame_step emptyClientState (map EntryFrame (projectLog (st_byId sample_state) sample_log) @ [HeadFrame 16])"
proof -
  have "case res_fold client_frame_step emptyClientState (map EntryFrame (projectLog (st_byId sample_state) sample_log)) of
      Inl _ \<Rightarrow> False | Inr c \<Rightarrow> cs_ordinal c = 14" by code_simp
  then obtain c where c: "res_fold client_frame_step emptyClientState (map EntryFrame (projectLog (st_byId sample_state) sample_log)) = Inr c"
    "cs_ordinal c = 14" by (auto split: sum.splits)
  have "clientRestore 14 (clientSnapshot c) = Inr c"
    and "res_fold client_frame_step c [HeadFrame 16] =
      res_fold client_frame_step emptyClientState (map EntryFrame (projectLog (st_byId sample_state) sample_log) @ [HeadFrame 16])"
    using client_resume_frames [OF c(1)] c(2) by metis+
  with c(1) show ?thesis by blast
qed

section \<open>Visible ancestors\<close>

lemma fold_branch_ok:
  "fold_log es emptyState = Inr s \<Longrightarrow> pathTo (st_byId s) (st_leafId s) = Some (st_branch s)"
  using fold_log_inv by (simp add: conv_inv_def branch_inv_def)

lemma fold_leaf_known: "fold_log es emptyState = Inr s \<Longrightarrow> known (st_byId s) (st_leafId s)"
  using fold_log_inv branch_inv_known by (simp add: conv_inv_def)

lemma find_nearest:
  "find P (rev xs) = Some x \<longleftrightarrow> (\<exists>above below. xs = above @ x # below \<and> P x \<and> (\<forall>y \<in> set below. \<not> P y))"
proof (induction xs rule: rev_induct)
  case (snoc a xs)
  show ?case
  proof (cases "P a")
    case True
    have "below = []" if "xs @ [a] = above @ x # below" "\<forall>y \<in> set below. \<not> P y" for above below
      using that True by (cases below rule: rev_cases) auto
    with True show ?thesis by fastforce
  next
    case False
    have "(\<exists>above below. xs @ [a] = above @ x # below \<and> P x \<and> (\<forall>y \<in> set below. \<not> P y)) \<longleftrightarrow>
        (\<exists>above below. xs = above @ x # below \<and> P x \<and> (\<forall>y \<in> set below. \<not> P y))" (is "?l \<longleftrightarrow> ?r")
    proof
      assume ?l
      then obtain above below where ab: "xs @ [a] = above @ x # below" "P x" "\<forall>y \<in> set below. \<not> P y" by blast
      with False obtain rest where "below = rest @ [a]" by (cases below rule: rev_cases) auto
      with ab show ?r by auto
    next
      assume ?r
      then obtain above below where "xs = above @ x # below" "P x" "\<forall>y \<in> set below. \<not> P y" by blast
      with False have "xs @ [a] = above @ x # (below @ [a])" "P x" "\<forall>y \<in> set (below @ [a]). \<not> P y" by auto
      then show ?l by blast
    qed
    with False snoc.IH show ?thesis by simp
  qed
qed simp

lemma find_take:
  "length (takeWhile (\<lambda>x. \<not> P x) xs) < n \<Longrightarrow> find P (take n xs) = find P xs"
proof (induction xs arbitrary: n)
  case (Cons x xs)
  then show ?case by (cases n) (auto split: if_splits)
qed simp

text \<open>
  C35: What a projection puts in place of a hidden parent or leaf target is the nearest entry of its path that it
  includes. As long as fewer than 4096 hidden entries precede it, the walk gives exactly the entry below which
  the path holds hidden entries only, and the root exactly when the path holds no included entry at all.
\<close>

theorem visible_ancestor_nearest:
  fixes shows_entry :: "log_entry \<Rightarrow> bool"
  assumes "fold_log es emptyState = Inr s" and "known (st_byId s) i" and "pathTo (st_byId s) i = Some path"
  defines "visible \<equiv> \<lambda>j. shows_entry (the (js_get (st_byId s) j))"
  assumes "length (takeWhile (\<lambda>j. \<not> visible j) (rev path)) < 4096"
  shows "(visibleAncestor i (st_byId s) shows_entry = Some j \<longleftrightarrow>
      (\<exists>above below. path = above @ j # below \<and> visible j \<and> (\<forall>k \<in> set below. \<not> visible k))) \<and>
    (visibleAncestor i (st_byId s) shows_entry = None \<longleftrightarrow> (\<forall>k \<in> set path. \<not> visible k))"
proof -
  have "tree_ok (st_byId s)" using fold_log_inv [OF assms(1)] by (simp add: conv_inv_def tree_inv_def)
  from visible_walk_path [OF this assms(2,3)]
  have "visibleAncestor i (st_byId s) shows_entry = find visible (rev path)"
    using find_take [OF assms(5)] by (simp add: visibleAncestor_def HIDDEN_ANCESTOR_DEPTH_def visible_def)
  then show ?thesis using find_nearest [of visible path j] by (auto simp: find_None_iff)
qed

theorem visible_ancestor_nearest_witness:
  "visibleAncestor (Some ''e14'') (st_byId sample_state) (\<lambda>e. e_ordinal e \<le> 3) = Some ''e3''"
proof -
  have leaf: "st_leafId sample_state = Some ''e14''" by code_simp
  have path: "pathTo (st_byId sample_state) (Some ''e14'') = Some [''e3'', ''e13'', ''e14'']"
    using fold_branch_ok [OF sample_fold] sample_branch leaf by simp
  then have kn: "known (st_byId sample_state) (Some ''e14'')"
    using fold_leaf_known [OF sample_fold] leaf by simp
  have ords: "map (\<lambda>j. e_ordinal (the (js_get (st_byId sample_state) j))) [''e14'', ''e13'', ''e3''] = [14, 13, 3]" by code_simp
  show ?thesis
    using visible_ancestor_nearest [OF sample_fold kn path, of "\<lambda>e. e_ordinal e \<le> 3" "''e3''"] ords by fastforce
qed

end
