(* ===== verification/Subscription.thy ===== *)
theory Subscription
  imports Client_Correctness
begin

text \<open>
  One subscription's writer (\<^verbatim>\<open>packages/coding-agent/src/core/protocol/server/subscription.ts\<close>) on the local
  projection: the frames it sends of a conversation's log and of its live lane, and what a client makes of
  them (\<^verbatim>\<open>Observation.apply\<close> of \<^verbatim>\<open>packages/coding-agent/src/client/protocol-client.ts\<close>).

  A sink may call back into the writer while a frame is being sent. \<open>pump\<close> is therefore split at the points
  where its loops look at the queue: \<open>sub_pump\<close> starts a pump or asks the running one for another pass, and
  \<open>drain\<close> is one round of its loops. Between two rounds anything else may happen. Live items are JSON and
  \<open>bytes\<close> is the length of their serialization.
\<close>

section \<open>Frames and state\<close>

datatype end_reason = Unsubscribed | EndClosed | EndLost | EndShutdown | EndMoved string

datatype host_frame =
    SnapshotFrame nat client_snapshot
  | EntryOut projected_entry
  | HeadOut nat
  | LiveFrame nat nat bool "json list"
  | EndedFrame end_reason

record queued_live =
  ql_basedOn :: nat
  ql_reset :: bool
  ql_items :: "json list"
  ql_bytes :: nat

record live_update =
  lu_basedOn :: nat
  lu_reset :: bool
  lu_items :: "json list"

record profile_limits =
  pl_snapshotTail :: nat
  pl_maxReplay :: nat
  pl_liveQueueBytes :: nat

text \<open>
  The fields of \<^verbatim>\<open>Subscription\<close>, the frames it sent, and what the conversation's live state
  (\<^verbatim>\<open>packages/coding-agent/src/core/host/live-state.ts\<close>) holds under the subscription's client id: \<open>sb_client\<close> is
  the attachment its table of clients has there, named by a number, and \<open>sb_attachments\<close> counts the attachments
  made. \<open>sb_detachLive\<close> is the attachment the function in \<open>detachLive\<close> detaches; it is assigned when \<open>attach\<close>
  returns, so an attach whose reset started a pump is \<open>sb_attaching\<close> until that pump is done.
\<close>

record subscription =
  sb_cursor :: nat
  sb_queue :: "queued_live list"
  sb_queuedBytes :: nat
  sb_seq :: nat
  sb_basedOn :: nat
  sb_pumping :: bool
  sb_again :: bool
  sb_live :: bool
  sb_ended :: bool
  sb_replacingLive :: bool
  sb_detachLive :: "nat option"
  sb_attaching :: "nat option"
  sb_client :: "nat option"
  sb_attachments :: nat
  sb_sent :: "host_frame list"

definition new_subscription :: "bool \<Rightarrow> subscription" where
  "new_subscription live =
     \<lparr>sb_cursor = 0, sb_queue = [], sb_queuedBytes = 0, sb_seq = 0, sb_basedOn = 0, sb_pumping = False,
      sb_again = False, sb_live = live, sb_ended = False, sb_replacingLive = False, sb_detachLive = None,
      sb_attaching = None, sb_client = None, sb_attachments = 0, sb_sent = []\<rparr>"

definition send_frame :: "host_frame \<Rightarrow> subscription \<Rightarrow> subscription" where
  "send_frame f s = s\<lparr>sb_sent := sb_sent s @ [f]\<rparr>"

section \<open>The log and its snapshots\<close>

definition log_source :: "log_entry list \<Rightarrow> entry_map" where
  "log_source log = map (\<lambda>e. (e_id e, e)) log"

text \<open>\<^verbatim>\<open>session-manager.ts\<close>: ordinals are the positions of the entries.\<close>

definition committedEntriesAfter :: "log_entry list \<Rightarrow> nat \<Rightarrow> nat \<Rightarrow> log_entry list" where
  "committedEntriesAfter log afterOrdinal limit =
     (if length log \<le> afterOrdinal then [] else take (min (length log) (afterOrdinal + limit) - afterOrdinal) (drop afterOrdinal log))"

definition slice_last :: "nat \<Rightarrow> 'a list \<Rightarrow> 'a list" where
  "slice_last n xs = (if n = 0 then xs else drop (length xs - n) xs)"

datatype snapshot_error = SnapshotFold client_fold_error | SnapshotEntry entry_id

fun project_carried :: "entry_map \<Rightarrow> projected_entry list \<Rightarrow> snapshot_error + projected_entry list" where
  "project_carried source [] = Inr []"
| "project_carried source (p # ps) =
     (case Option.bind (js_get source (pe_id p)) (projectFoldEntry source) of
        None \<Rightarrow> Inl (SnapshotEntry (pe_id p))
      | Some q \<Rightarrow> res_bind (project_carried source ps) (\<lambda>qs. Inr (q # qs)))"

definition logSnapshot :: "profile_limits \<Rightarrow> log_entry list \<Rightarrow> nat \<Rightarrow> snapshot_error + client_snapshot" where
  "logSnapshot limits log ordinal =
     (let source = log_source log in
      res_bind (map_sum SnapshotFold id
          (clientFold (projectLog source (committedEntriesAfter log 0 ordinal)) emptyClientState)) (\<lambda>state.
        let bounded = pl_snapshotTail limits < length (cs_entries state);
            carried = (if bounded then slice_last (pl_snapshotTail limits) (clientActiveBranch state) else cs_entries state)
        in res_bind (project_carried source carried) (\<lambda>entries. Inr (clientSnapshotWith state entries bounded))))"

section \<open>Writing\<close>

definition written_through :: "nat \<Rightarrow> projected_entry list \<Rightarrow> nat" where
  "written_through cursor ps = (if ps = [] then cursor else pe_ordinal (last ps))"

definition writeEntriesThrough :: "log_entry list \<Rightarrow> nat \<Rightarrow> subscription \<Rightarrow> subscription" where
  "writeEntriesThrough log ordinal s =
     (if ordinal \<le> sb_cursor s then s
      else
        let entries = committedEntriesAfter log (sb_cursor s) (ordinal - sb_cursor s)
        in if entries = [] then s
           else
             let ps = projectLog (log_source log) entries;
                 end_ordinal = e_ordinal (last entries);
                 s1 = s\<lparr>sb_sent := sb_sent s @ map EntryOut ps\<rparr>;
                 s2 = (if written_through (sb_cursor s) ps < end_ordinal then send_frame (HeadOut end_ordinal) s1 else s1)
             in s2\<lparr>sb_cursor := end_ordinal\<rparr>)"

definition writeLive :: "queued_live \<Rightarrow> subscription \<Rightarrow> subscription" where
  "writeLive f s =
     (let n = (if ql_reset f then 1 else sb_seq s + 1)
      in send_frame (LiveFrame (ql_basedOn f) n (ql_reset f) (ql_items f)) (s\<lparr>sb_seq := n\<rparr>))"

definition writeSnapshot :: "profile_limits \<Rightarrow> log_entry list \<Rightarrow> nat \<Rightarrow> subscription \<Rightarrow> snapshot_error + subscription" where
  "writeSnapshot limits log ordinal s =
     res_bind (logSnapshot limits log ordinal) (\<lambda>state.
       Inr ((send_frame (SnapshotFrame ordinal state) s)\<lparr>sb_cursor := ordinal\<rparr>))"

section \<open>Pumping\<close>

definition sub_pump :: "subscription \<Rightarrow> subscription" where
  "sub_pump s =
     (if sb_ended s then s
      else if sb_pumping s then s\<lparr>sb_again := True\<rparr>
      else s\<lparr>sb_pumping := True, sb_again := False\<rparr>)"

text \<open>When the pump that attaching started is done, the attach returns the function that detaches.\<close>

definition attach_returns :: "subscription \<Rightarrow> subscription" where
  "attach_returns s =
     (case sb_attaching s of None \<Rightarrow> s | Some n \<Rightarrow> s\<lparr>sb_detachLive := Some n, sb_attaching := None\<rparr>)"

definition drain :: "log_entry list \<Rightarrow> subscription \<Rightarrow> subscription" where
  "drain log s =
     (case sb_queue s of
        f # rest \<Rightarrow>
          let s1 = s\<lparr>sb_queue := rest\<rparr>
          in if sb_ended s1 then s1
             else writeLive f (writeEntriesThrough log (ql_basedOn f)
               (s1\<lparr>sb_queuedBytes := sb_queuedBytes s1 - ql_bytes f\<rparr>))
      | [] \<Rightarrow>
          let s1 = (if sb_ended s then s else writeEntriesThrough log (length log) s)
          in if sb_again s1 \<and> \<not> sb_ended s1 then s1\<lparr>sb_again := False\<rparr>
             else attach_returns (s1\<lparr>sb_pumping := False\<rparr>))"

text \<open>A pump that nothing interrupts.\<close>

fun drain_all :: "nat \<Rightarrow> log_entry list \<Rightarrow> subscription \<Rightarrow> subscription" where
  "drain_all 0 log s = s"
| "drain_all (Suc fuel) log s = (if sb_pumping s then drain_all fuel log (drain log s) else s)"

section \<open>The live lane\<close>

definition enqueue_live :: "(json list \<Rightarrow> nat) \<Rightarrow> live_update \<Rightarrow> subscription \<Rightarrow> subscription" where
  "enqueue_live bytes u s =
     (let s1 = (if lu_reset u then s\<lparr>sb_queue := [], sb_queuedBytes := 0\<rparr> else s);
          n = (if sb_pumping s1 then bytes (lu_items u) else 0)
      in s1\<lparr>sb_queue := sb_queue s1 @ [\<lparr>ql_basedOn = lu_basedOn u, ql_reset = lu_reset u, ql_items = lu_items u, ql_bytes = n\<rparr>],
            sb_basedOn := lu_basedOn u, sb_queuedBytes := sb_queuedBytes s1 + n\<rparr>)"

definition drop_live :: "subscription \<Rightarrow> subscription" where
  "drop_live s = s\<lparr>sb_queue := [], sb_queuedBytes := 0\<rparr>"

text \<open>
  Attaching a client id the live state has already throws. Detaching does nothing when the id has another
  attachment by then; the empty reset it delivers otherwise finds \<open>replacingLive\<close> set and is dropped.
\<close>

datatype live_error = AlreadyAttached

definition live_attach :: "subscription \<Rightarrow> live_error + nat \<times> subscription" where
  "live_attach s =
     (case sb_client s of
        Some _ \<Rightarrow> Inl AlreadyAttached
      | None \<Rightarrow> Inr (sb_attachments s, s\<lparr>sb_client := Some (sb_attachments s), sb_attachments := sb_attachments s + 1\<rparr>))"

definition live_detach :: "nat \<Rightarrow> subscription \<Rightarrow> subscription" where
  "live_detach n s = (if sb_client s \<noteq> Some n then s else s\<lparr>sb_client := None\<rparr>)"

definition detach_live :: "subscription \<Rightarrow> subscription" where
  "detach_live s = (case sb_detachLive s of None \<Rightarrow> s | Some n \<Rightarrow> live_detach n s)"

text \<open>A call is its outcome, \<open>Some\<close> of what it throws, and the state it leaves; \<open>deliver\<close> swallows what a client throws.\<close>

type_synonym live_call = "live_error option \<times> subscription"

definition deliver :: "live_call \<Rightarrow> subscription" where
  "deliver r = snd r"

definition detach_replaced :: "subscription \<Rightarrow> subscription" where
  "detach_replaced s = (detach_live ((drop_live s)\<lparr>sb_replacingLive := True\<rparr>))\<lparr>sb_replacingLive := False\<rparr>"

definition attached_live :: "nat \<Rightarrow> bool \<Rightarrow> subscription \<Rightarrow> subscription" where
  "attached_live n was_pumping s =
     (if \<not> was_pumping \<and> sb_pumping s then s\<lparr>sb_attaching := Some n\<rparr> else s\<lparr>sb_detachLive := Some n\<rparr>)"

text \<open>
  How many more times a call may attach: what \<open>detachLive\<close> names does not change before an attach returns, so
  after one attachment it names an older one, nothing detaches the new one, and a further attach throws.
\<close>

definition live_rank :: "subscription \<Rightarrow> nat" where
  "live_rank s =
     (case sb_client s of
        None \<Rightarrow> if sb_detachLive s = Some (sb_attachments s) then 3 else 1
      | Some m \<Rightarrow> if sb_detachLive s \<noteq> Some m then 0 else if m = sb_attachments s then 4 else 2)"

lemma enqueue_live_fields [simp]:
  "sb_client (enqueue_live bytes u s) = sb_client s" "sb_detachLive (enqueue_live bytes u s) = sb_detachLive s"
  "sb_attachments (enqueue_live bytes u s) = sb_attachments s" "sb_attaching (enqueue_live bytes u s) = sb_attaching s"
  "sb_live (enqueue_live bytes u s) = sb_live s" "sb_replacingLive (enqueue_live bytes u s) = sb_replacingLive s"
  "sb_pumping (enqueue_live bytes u s) = sb_pumping s" "sb_ended (enqueue_live bytes u s) = sb_ended s"
  by (simp_all add: enqueue_live_def Let_def)

lemma rank_attach: "live_attach s = Inr (n, s') \<Longrightarrow> live_rank s' < live_rank s"
  by (auto simp: live_attach_def live_rank_def split: option.splits)

lemma rank_replaced: "live_rank (detach_replaced s) \<le> live_rank s"
  by (auto simp: detach_replaced_def drop_live_def detach_live_def live_detach_def live_rank_def split: option.splits)

lemma rank_enqueue: "live_rank (enqueue_live bytes u s) = live_rank s"
  by (simp add: live_rank_def split: option.split)

function sub_receive ::
    "profile_limits \<Rightarrow> (json list \<Rightarrow> nat) \<Rightarrow> nat \<Rightarrow> json list \<Rightarrow> live_update \<Rightarrow> subscription \<Rightarrow> live_call"
  and attachLive :: "profile_limits \<Rightarrow> (json list \<Rightarrow> nat) \<Rightarrow> nat \<Rightarrow> json list \<Rightarrow> subscription \<Rightarrow> live_call"
  and replaceLive :: "profile_limits \<Rightarrow> (json list \<Rightarrow> nat) \<Rightarrow> nat \<Rightarrow> json list \<Rightarrow> subscription \<Rightarrow> live_call" where
  "sub_receive limits bytes head items u s =
     (if sb_ended s \<or> sb_replacingLive s then (None, s)
      else
        let s1 = enqueue_live bytes u s
        in if pl_liveQueueBytes limits < sb_queuedBytes s1 then replaceLive limits bytes head items s1
           else (None, sub_pump s1))"
| "attachLive limits bytes head items s =
     (case live_attach s of
        Inl e \<Rightarrow> (Some e, s)
      | Inr (n, s1) \<Rightarrow>
          (None, attached_live n (sb_pumping s1)
             (deliver (sub_receive limits bytes head items \<lparr>lu_basedOn = head, lu_reset = True, lu_items = items\<rparr> s1))))"
| "replaceLive limits bytes head items s = attachLive limits bytes head items (detach_replaced s)"
  by pat_completeness auto
termination
  by (relation "measure (\<lambda>x. case x of Inl (_, _, _, _, _, s) \<Rightarrow> 3 * live_rank s + 2
      | Inr (Inl (_, _, _, _, s)) \<Rightarrow> 3 * live_rank s | Inr (Inr (_, _, _, _, s)) \<Rightarrow> 3 * live_rank s + 1)")
    (auto simp: rank_enqueue le_imp_less_Suc rank_replaced dest!: rank_attach)

declare sub_receive.simps [simp del] attachLive.simps [simp del] replaceLive.simps [simp del]

text \<open>A notice comes from the connection, not from the live state: what \<open>receive\<close> throws reaches its caller.\<close>

definition sub_notice ::
    "profile_limits \<Rightarrow> (json list \<Rightarrow> nat) \<Rightarrow> nat \<Rightarrow> json list \<Rightarrow> json \<Rightarrow> subscription \<Rightarrow> live_call" where
  "sub_notice limits bytes head items item s =
     (if \<not> sb_live s \<or> sb_ended s then (None, s)
      else sub_receive limits bytes head items \<lparr>lu_basedOn = sb_basedOn s, lu_reset = False, lu_items = [item]\<rparr> s)"

section \<open>Starting and ending\<close>

datatype subscription_position = AfterSnapshot | AfterOrdinal nat string

definition subscriptionSnapshots :: "profile_limits \<Rightarrow> nat \<Rightarrow> string \<Rightarrow> subscription_position \<Rightarrow> bool" where
  "subscriptionSnapshots limits head generation position =
     (case position of
        AfterSnapshot \<Rightarrow> True
      | AfterOrdinal after g \<Rightarrow> g \<noteq> generation \<or> head < after \<or> pl_maxReplay limits < head - after)"

datatype start_error = StartSnapshot snapshot_error | StartAttach live_error

definition sub_start ::
    "profile_limits \<Rightarrow> (json list \<Rightarrow> nat) \<Rightarrow> log_entry list \<Rightarrow> string \<Rightarrow> json list \<Rightarrow> subscription_position \<Rightarrow> subscription \<Rightarrow>
     start_error + subscription" where
  "sub_start limits bytes log generation items position s =
     res_bind
       (map_sum StartSnapshot id (case position of
          AfterSnapshot \<Rightarrow> writeSnapshot limits log (length log) s
        | AfterOrdinal after g \<Rightarrow>
            if subscriptionSnapshots limits (length log) generation position then writeSnapshot limits log (length log) s
            else Inr (s\<lparr>sb_cursor := after\<rparr>)))
       (\<lambda>s1. if sb_live s1
             then case attachLive limits bytes (length log) items s1 of
                    (Some e, _) \<Rightarrow> Inl (StartAttach e)
                  | (None, s2) \<Rightarrow> Inr (sub_pump s2)
             else Inr (sub_pump s1))"

definition release :: "subscription \<Rightarrow> subscription" where
  "release s = (detach_live ((drop_live s)\<lparr>sb_replacingLive := True\<rparr>))\<lparr>sb_detachLive := None\<rparr>"

text \<open>Ending pumps what is due first; an end inside a running pump only asks it for another pass.\<close>

definition sub_end :: "log_entry list \<Rightarrow> end_reason \<Rightarrow> subscription \<Rightarrow> subscription" where
  "sub_end log reason s =
     (if sb_ended s then s
      else
        let s1 = (if sb_pumping s then sub_pump s else drain_all (Suc (length (sb_queue s))) log (sub_pump s))
        in send_frame (EndedFrame reason) (release (s1\<lparr>sb_ended := True\<rparr>)))"

definition sub_dispose :: "subscription \<Rightarrow> subscription" where
  "sub_dispose s = (if sb_ended s then s else release (s\<lparr>sb_ended := True\<rparr>))"

section \<open>The client's side\<close>

text \<open>
  What a client makes of a frame: \<^verbatim>\<open>Observation.apply\<close> for the log's frames. Live frames and the end of the
  subscription leave the fold of the log alone.
\<close>

fun client_receive :: "client_state \<Rightarrow> host_frame \<Rightarrow> client_fold_error + client_state" where
  "client_receive c (SnapshotFrame n state) = clientRestore n state"
| "client_receive c (EntryOut e) = clientFold [e] c"
| "client_receive c (HeadOut n) = clientAdvance c n"
| "client_receive c (LiveFrame b n r items) = Inr c"
| "client_receive c (EndedFrame reason) = Inr c"

end
