(* ===== verification/Subscription_Invariant.thy ===== *)
theory Subscription_Invariant
  imports Subscription
begin

text \<open>
  What a subscription's client knows: the frames the writer sends, folded by the client, are the client fold
  of the log's projection up to the writer's cursor, in every interleaving of commits, live updates and
  pump rounds.
\<close>

section \<open>Projections of a growing log\<close>

definition valid_log :: "log_entry list \<Rightarrow> bool" where
  "valid_log log \<longleftrightarrow> (\<exists>s. fold_log log emptyState = Inr s) \<and> (\<forall>e \<in> set log. stored_visibility e)"

lemma valid_logE:
  assumes "valid_log log"
  obtains s where "fold_log log emptyState = Inr s" "st_byId s = log_source log" "conv_inv s" "tree_ok (log_source log)"
    "\<forall>e \<in> set log. stored_visibility e" "st_ordinal s = length log"
proof -
  obtain s where s: "fold_log log emptyState = Inr s" using assms by (auto simp: valid_log_def)
  note inv = fold_log_inv [OF s]
  then have ok: "tree_ok (st_byId s)" "st_ordinal s = length (st_byId s)" by (simp_all add: conv_inv_def tree_inv_def)
  have vals: "js_values (st_byId s) = log" using fold_log_entries [OF s] by simp
  then have "st_byId s = log_source log"
    using js_pairs [of "st_byId s" e_id] tree_okD(1) [OF ok(1)] by (simp add: log_source_def)
  moreover have "length (st_byId s) = length log" using vals length_js_values by metis
  ultimately show ?thesis using that [OF s] inv ok assms by (simp add: valid_log_def)
qed

lemma valid_log_prefix:
  assumes "valid_log (xs @ ys)"
  shows "valid_log xs"
proof -
  obtain s where "fold_log (xs @ ys) emptyState = Inr s" using assms by (auto simp: valid_log_def)
  then have "\<exists>t. fold_log xs emptyState = Inr t" by (auto simp: fold_log_def res_fold_append res_bind_Inr_iff)
  then show ?thesis using assms by (simp add: valid_log_def)
qed

lemma valid_log_take: "valid_log log \<Longrightarrow> valid_log (take n log)"
  using valid_log_prefix [of "take n log" "drop n log"] by simp

lemma log_source_append: "log_source (xs @ ys) = log_source xs @ log_source ys"
  by (simp add: log_source_def)

lemma log_source_get:
  assumes "valid_log log" and "e \<in> set log"
  shows "js_get (log_source log) (e_id e) = Some e"
  using assms(1)
proof (rule valid_logE)
  fix s assume "fold_log log emptyState = Inr s" "st_byId s = log_source log"
  then show ?thesis using fold_log_get [OF _ assms(2)] by metis
qed

lemma visible_walk_grow:
  assumes ok: "tree_ok m" and same: "\<And>j. j \<in> set (js_keys m) \<Longrightarrow> js_get m' j = js_get m j"
  shows "known m i \<Longrightarrow> visible_walk depth includes m' i = visible_walk depth includes m i"
proof (induction depth arbitrary: i)
  case 0
  then show ?case by (cases i) simp_all
next
  case (Suc depth)
  show ?case
  proof (cases i)
    case (Some j)
    then obtain e where e: "js_get m j = Some e" using Suc.prems by (auto simp: known_def)
    then have "js_get m' j = Some e" using same js_get_Some_key by metis
    moreover have "visible_walk depth includes m' (e_parentId e) = visible_walk depth includes m (e_parentId e)"
      by (rule Suc.IH [OF known_parent [OF ok e]])
    ultimately show ?thesis using Some e by simp
  qed simp
qed

lemma projectFoldEntry_grow:
  assumes valid: "valid_log (xs @ ys)" and e: "e \<in> set xs"
  shows "projectFoldEntry (log_source (xs @ ys)) e = projectFoldEntry (log_source xs) e"
proof -
  have vx: "valid_log xs" by (rule valid_log_prefix [OF valid])
  obtain s where s: "fold_log xs emptyState = Inr s" "st_byId s = log_source xs" "tree_ok (log_source xs)" "conv_inv s"
    using vx by (rule valid_logE) blast
  have get: "js_get (log_source xs) (e_id e) = Some e" by (rule log_source_get [OF vx e])
  have same: "js_get (log_source (xs @ ys)) j = js_get (log_source xs) j" if "j \<in> set (js_keys (log_source xs))" for j
    using that js_get_None_iff [of "log_source xs" j] by (auto simp: log_source_append js_get_append)
  have anc: "visibleAncestor i (log_source (xs @ ys)) local_includes = visibleAncestor i (log_source xs) local_includes"
    if "known (log_source xs) i" for i
    unfolding visibleAncestor_def by (rule visible_walk_grow [OF s(3) same that])
  have parent: "known (log_source xs) (e_parentId e)" by (rule known_parent [OF s(3) get])
  have "known (log_source xs) t" if "e_body e = Leaf t" for t
  proof -
    obtain as bs where xs: "xs = as @ e # bs" using split_list [OF e] by blast
    from s(1) obtain u v where u: "fold_log as emptyState = Inr u" "apply_entry u e = Inr v"
      by (auto simp: xs fold_log_def res_fold_append res_bind_Inr_iff)
    have va: "valid_log as" using vx unfolding xs by (rule valid_log_prefix)
    have "st_byId u = log_source as" using va u(1) by (auto elim: valid_logE)
    then have "known (log_source as) t" using accepted_leaf(2) [OF u(2) that] public_leaf_known by simp
    then show ?thesis by (auto simp: known_def xs log_source_append js_get_append split: option.splits)
  qed
  then have "project_payload (log_source (xs @ ys)) (e_body e) = project_payload (log_source xs) (e_body e)"
    using anc by (cases "e_body e") (simp_all add: project_payload_def)
  then show ?thesis using anc [OF parent] by (simp add: projectFoldEntry_def split: option.split)
qed

lemma projectLog_grow:
  "valid_log (xs @ ys) \<Longrightarrow> set es \<subseteq> set xs \<Longrightarrow> projectLog (log_source (xs @ ys)) es = projectLog (log_source xs) es"
  unfolding projectLog_def by (rule map_filter_cong) (auto intro: projectFoldEntry_grow)

lemma projectLog_append: "projectLog source (xs @ ys) = projectLog source xs @ projectLog source ys"
  by (simp add: projectLog_def)

lemma projectLog_mem: "p \<in> set (projectLog source es) \<longleftrightarrow> (\<exists>e \<in> set es. projectFoldEntry source e = Some p)"
  by (induction es) (auto simp: projectLog_def map_filter_Cons split: option.split)

section \<open>The client at a position\<close>

definition client_at :: "log_entry list \<Rightarrow> nat \<Rightarrow> client_state" where
  "client_at log n =
     (case clientFold (projectLog (log_source log) (take n log)) emptyClientState of
        Inl _ \<Rightarrow> emptyClientState | Inr c \<Rightarrow> c\<lparr>cs_ordinal := n\<rparr>)"

lemma client_at_fold:
  assumes "valid_log log" and "n \<le> length log"
  obtains k where "clientFold (projectLog (log_source log) (take n log)) emptyClientState = Inr k"
    "client_at log n = k\<lparr>cs_ordinal := n\<rparr>" "cs_ordinal k \<le> n" "client_inv k"
proof -
  have take: "valid_log (take n log)" by (rule valid_log_take [OF assms(1)])
  obtain s where s: "fold_log (take n log) emptyState = Inr s" "st_ordinal s = length (take n log)"
    using take by (rule valid_logE) blast
  have "\<forall>e \<in> set (take n log). stored_visibility e \<and> js_get (log_source log) (e_id e) = Some e"
    using assms(1) log_source_get [OF assms(1)] by (auto simp: valid_log_def dest: in_set_takeD)
  from client_fold_sim_from [OF s(1) conv_inv_empty client_sim_empty this]
  obtain k where k: "clientFold (projectLog (log_source log) (take n log)) emptyClientState = Inr k" "client_sim (log_source log) s k"
    by blast
  then have "cs_ordinal k \<le> n" "client_inv k" using client_simD(7,8) [OF k(2)] s(2) assms(2) by simp_all
  with k(1) show ?thesis using that by (simp add: client_at_def)
qed

lemma client_at_sim:
  assumes "valid_log log" and "n \<le> length log"
  obtains s where "fold_log (take n log) emptyState = Inr s" "client_sim (log_source log) s (client_at log n)" "st_ordinal s = n"
proof -
  obtain s where s: "fold_log (take n log) emptyState = Inr s" "st_ordinal s = length (take n log)"
    using valid_log_take [OF assms(1)] by (rule valid_logE) blast
  have "\<forall>e \<in> set (take n log). stored_visibility e \<and> js_get (log_source log) (e_id e) = Some e"
    using assms(1) log_source_get [OF assms(1)] by (auto simp: valid_log_def dest: in_set_takeD)
  from client_fold_sim_from [OF s(1) conv_inv_empty client_sim_empty this]
  obtain k where k: "clientFold (projectLog (log_source log) (take n log)) emptyClientState = Inr k" "client_sim (log_source log) s k"
    by blast
  note d = client_simD [OF k(2)]
  have n: "st_ordinal s = n" using s(2) assms(2) by simp
  have "client_inv (k\<lparr>cs_ordinal := n\<rparr>)"
    using client_inv_advance [OF d(7), of n "k\<lparr>cs_ordinal := n\<rparr>"] d(8) n by (simp add: clientAdvance_def)
  then have "client_sim (log_source log) s (client_at log n)"
    using k d n by (simp add: client_at_def client_sim_def branch_sim_def)
  with s(1) n show ?thesis using that by blast
qed

lemma client_at_grow:
  assumes "valid_log (log @ es)" and "n \<le> length log"
  shows "client_at (log @ es) n = client_at log n"
proof -
  have "projectLog (log_source (log @ es)) (take n log) = projectLog (log_source log) (take n log)"
    by (rule projectLog_grow [OF assms(1)]) (rule set_take_subset)
  then show ?thesis using assms(2) by (simp add: client_at_def)
qed

lemma client_move_ordinal: "client_move e (s\<lparr>cs_ordinal := n\<rparr>) = (client_move e s)\<lparr>cs_ordinal := n\<rparr>"
  by (simp add: client_move_def client_moveLeaf_def client_appendToBranch_def rederive_def Let_def
      split: option.split entry_body.split)

lemma applyRecords_ordinal: "applyRecords e (s\<lparr>cs_ordinal := n\<rparr>) = (applyRecords e s)\<lparr>cs_ordinal := n\<rparr>"
  by (simp add: applyRecords_def cong: entry_type.case_cong option.case_cong entry_body.case_cong)

lemma client_apply_ordinal:
  assumes "cs_ordinal c < pe_ordinal e" and "n < pe_ordinal e"
  shows "client_apply (c\<lparr>cs_ordinal := n\<rparr>) e = client_apply c e"
proof -
  have "(client_move e (applyRecords e (c\<lparr>cs_ordinal := n, cs_entries := es, cs_byId := b\<rparr>)))\<lparr>cs_ordinal := k\<rparr> =
      (client_move e (applyRecords e (c\<lparr>cs_entries := es, cs_byId := b\<rparr>)))\<lparr>cs_ordinal := k\<rparr>" for es b k
  proof -
    have flip: "c\<lparr>cs_ordinal := n, cs_entries := es, cs_byId := b\<rparr> = (c\<lparr>cs_entries := es, cs_byId := b\<rparr>)\<lparr>cs_ordinal := n\<rparr>"
      by simp
    show ?thesis unfolding flip applyRecords_ordinal client_move_ordinal by simp
  qed
  then show ?thesis using assms by (simp add: client_apply_def Let_def)
qed

lemma fold_receive_entries: "res_fold client_receive c (map EntryOut ps) = res_fold client_apply c ps"
proof (induction ps arbitrary: c)
  case (Cons p ps)
  have "client_receive c (EntryOut p) = client_apply c p"
    by (simp add: clientFold_def) (cases "client_apply c p"; simp)
  with Cons show ?case by (cases "client_apply c p") simp_all
qed simp

lemma res_fold_ordinal:
  assumes "res_fold client_apply c ps = Inr c'" and "ps \<noteq> []"
  shows "cs_ordinal c' = pe_ordinal (last ps)"
  using assms
proof (induction ps arbitrary: c)
  case (Cons p ps)
  then obtain d where d: "client_apply c p = Inr d" "res_fold client_apply d ps = Inr c'" by (auto simp: res_bind_Inr_iff)
  then show ?case using Cons.IH [OF d(2)] client_applyD(5) [OF d(1)] by (cases "ps = []") auto
qed simp

section \<open>Writing entries\<close>

lemma valid_log_ordinal:
  assumes "valid_log log" and "i < length log"
  shows "e_ordinal (log ! i) = Suc i"
proof -
  have "tree_ok (log_source log)" using assms(1) by (rule valid_logE)
  then have "contiguous (js_values (log_source log))" by (rule tree_okD(3))
  moreover have "js_values (log_source log) = log" by (simp add: js_values_def log_source_def comp_def)
  ultimately show ?thesis using assms(2) contiguous_nth by simp
qed

lemma committedEntries_range:
  "n \<le> m \<Longrightarrow> m \<le> length log \<Longrightarrow> committedEntriesAfter log n (m - n) = take (m - n) (drop n log)"
  by (auto simp: committedEntriesAfter_def min_def)

lemma committedEntries_all: "committedEntriesAfter log 0 (length log) = log"
  by (simp add: committedEntriesAfter_def)

lemma written_frames:
  assumes valid: "valid_log log" and "n < m" and "m \<le> length log"
  defines "ps \<equiv> projectLog (log_source log) (take (m - n) (drop n log))"
  shows "res_fold client_receive (client_at log n)
      (map EntryOut ps @ (if written_through n ps < m then [HeadOut m] else [])) = Inr (client_at log m)"
proof -
  obtain k where k: "clientFold (projectLog (log_source log) (take n log)) emptyClientState = Inr k"
    "client_at log n = k\<lparr>cs_ordinal := n\<rparr>" "cs_ordinal k \<le> n"
    using client_at_fold [OF valid] assms(2,3) by (metis less_imp_le order_trans)
  obtain k' where k': "clientFold (projectLog (log_source log) (take m log)) emptyClientState = Inr k'"
    "client_at log m = k'\<lparr>cs_ordinal := m\<rparr>" "cs_ordinal k' \<le> m" by (rule client_at_fold [OF valid assms(3)])
  have "take m log = take n log @ take (m - n) (drop n log)" using assms(2) by (metis le_add_diff_inverse less_imp_le take_add)
  then have fold: "res_fold client_apply k ps = Inr k'"
    using k(1) k'(1) by (simp add: clientFold_def projectLog_append res_fold_append ps_def)
  show ?thesis
  proof (cases ps)
    case Nil
    then have "k' = k" using fold by simp
    then show ?thesis using Nil assms(2) k(2) k'(2) by (simp add: written_through_def clientAdvance_def)
  next
    case (Cons p rest)
    then have "p \<in> set ps" by simp
    then obtain e where e: "e \<in> set (drop n log)" "projectFoldEntry (log_source log) e = Some p"
      by (auto simp: ps_def projectLog_mem dest: in_set_takeD)
    then obtain i where "i < length (drop n log)" "e = drop n log ! i" by (metis in_set_conv_nth)
    then have "n + i < length log" "e = log ! (n + i)" by simp_all
    then have "n < pe_ordinal p" using valid_log_ordinal [OF valid] projectFoldEntry_Some [OF e(2)] by simp
    then have "client_apply (client_at log n) p = client_apply k p" using k(2,3) client_apply_ordinal by simp
    then have "res_fold client_apply (client_at log n) ps = Inr k'" using fold Cons by simp
    then have frames: "res_fold client_receive (client_at log n) (map EntryOut ps) = Inr k'" by (simp add: fold_receive_entries)
    have ord: "cs_ordinal k' = written_through n ps"
      using res_fold_ordinal [OF fold] Cons by (simp add: written_through_def)
    show ?thesis
    proof (cases "written_through n ps < m")
      case True
      then show ?thesis using frames ord k'(2,3) by (simp add: res_fold_append clientAdvance_def)
    next
      case False
      then have "k'\<lparr>cs_ordinal := m\<rparr> = k'" using ord k'(3) by (cases k') simp
      then show ?thesis using False frames k'(2) by (simp add: res_fold_append)
    qed
  qed
qed

lemma writeEntriesThrough_cases:
  assumes valid: "valid_log log" and cur: "sb_cursor s \<le> length log" and ord: "ordinal \<le> length log"
  obtains (Same) "ordinal \<le> sb_cursor s" "writeEntriesThrough log ordinal s = s"
  | (Wrote) ps where "sb_cursor s < ordinal" "ps = projectLog (log_source log) (take (ordinal - sb_cursor s) (drop (sb_cursor s) log))"
    "writeEntriesThrough log ordinal s = s\<lparr>sb_cursor := ordinal,
       sb_sent := sb_sent s @ map EntryOut ps @ (if written_through (sb_cursor s) ps < ordinal then [HeadOut ordinal] else [])\<rparr>"
proof (cases "ordinal \<le> sb_cursor s")
  case True
  then show ?thesis using Same by (simp add: writeEntriesThrough_def)
next
  case False
  let ?es = "take (ordinal - sb_cursor s) (drop (sb_cursor s) log)"
  have es: "committedEntriesAfter log (sb_cursor s) (ordinal - sb_cursor s) = ?es"
    using False ord by (intro committedEntries_range) simp_all
  have len: "length ?es = ordinal - sb_cursor s" "?es \<noteq> []" using False ord by auto
  have "last ?es = ?es ! (length ?es - 1)" by (rule last_conv_nth [OF len(2)])
  also have "\<dots> = log ! (ordinal - 1)" using False ord len(1) by simp
  finally have last: "e_ordinal (last ?es) = ordinal" using valid_log_ordinal [OF valid, of "ordinal - 1"] False ord by simp
  have "sb_cursor s < length log" using False ord by simp
  with False show ?thesis
    by (intro Wrote [of "projectLog (log_source log) ?es"])
      (simp_all add: writeEntriesThrough_def es last len(2) send_frame_def Let_def)
qed

section \<open>Every interleaving\<close>

record sub_world =
  sw_log :: "log_entry list"
  sw_sub :: subscription

text \<open>
  What can happen to a started subscription: the log commits a batch the kernel accepts, the running pump does
  a round, a live update or a notice based on a committed position arrives, or the subscription ends.
\<close>

inductive sub_step :: "profile_limits \<Rightarrow> (json list \<Rightarrow> nat) \<Rightarrow> sub_world \<Rightarrow> sub_world \<Rightarrow> bool" for limits bytes where
  Commit: "valid_log (log @ es) \<Longrightarrow> es \<noteq> [] \<Longrightarrow>
    sub_step limits bytes \<lparr>sw_log = log, sw_sub = s\<rparr> \<lparr>sw_log = log @ es, sw_sub = sub_pump s\<rparr>"
| Drain: "sb_pumping s \<Longrightarrow>
    sub_step limits bytes \<lparr>sw_log = log, sw_sub = s\<rparr> \<lparr>sw_log = log, sw_sub = drain log s\<rparr>"
| Live: "lu_basedOn u \<le> length log \<Longrightarrow>
    sub_step limits bytes \<lparr>sw_log = log, sw_sub = s\<rparr>
      \<lparr>sw_log = log, sw_sub = deliver (sub_receive limits bytes (length log) items u s)\<rparr>"
| Notice: "sub_step limits bytes \<lparr>sw_log = log, sw_sub = s\<rparr>
      \<lparr>sw_log = log, sw_sub = snd (sub_notice limits bytes (length log) items item s)\<rparr>"
| End: "sub_step limits bytes \<lparr>sw_log = log, sw_sub = s\<rparr> \<lparr>sw_log = log, sw_sub = sub_end log reason s\<rparr>"
| Dispose: "sub_step limits bytes \<lparr>sw_log = log, sw_sub = s\<rparr> \<lparr>sw_log = log, sw_sub = sub_dispose s\<rparr>"

definition sub_run :: "profile_limits \<Rightarrow> (json list \<Rightarrow> nat) \<Rightarrow> sub_world \<Rightarrow> sub_world \<Rightarrow> bool" where
  "sub_run limits bytes = (sub_step limits bytes)\<^sup>*\<^sup>*"

text \<open>The position the frames sent so far cover, from the position the client started at.\<close>

fun frame_position :: "nat \<Rightarrow> host_frame \<Rightarrow> nat" where
  "frame_position n (SnapshotFrame m state) = m"
| "frame_position n (EntryOut e) = pe_ordinal e"
| "frame_position n (HeadOut m) = m"
| "frame_position n (LiveFrame b k r items) = n"
| "frame_position n (EndedFrame reason) = n"

definition position_after :: "nat \<Rightarrow> host_frame list \<Rightarrow> nat" where
  "position_after n fs = foldl frame_position n fs"

text \<open>Live frames come after what they build on, and their numbers restart at every reset and never skip.\<close>

fun live_ok :: "nat \<Rightarrow> nat \<Rightarrow> host_frame list \<Rightarrow> bool" where
  "live_ok n seq [] = True"
| "live_ok n seq (f # fs) =
     (case f of
        LiveFrame b k r items \<Rightarrow> b \<le> n \<and> k = (if r then 1 else Suc seq) \<and> live_ok n k fs
      | _ \<Rightarrow> live_ok (frame_position n f) seq fs)"

fun last_seq :: "nat \<Rightarrow> host_frame list \<Rightarrow> nat" where
  "last_seq seq [] = seq"
| "last_seq seq (f # fs) = (case f of LiveFrame b k r items \<Rightarrow> last_seq k fs | _ \<Rightarrow> last_seq seq fs)"

lemma last_seq_append: "last_seq seq (fs @ gs) = last_seq (last_seq seq fs) gs"
  by (induction fs arbitrary: seq) (auto split: host_frame.split)

lemma live_ok_append:
  "live_ok n seq (fs @ gs) \<longleftrightarrow> live_ok n seq fs \<and> live_ok (position_after n fs) (last_seq seq fs) gs"
  by (induction fs arbitrary: n seq) (auto simp: position_after_def split: host_frame.split)

lemma position_after_append: "position_after n (fs @ gs) = position_after (position_after n fs) gs"
  by (simp add: position_after_def)

text \<open>What the writer keeps true, of a client that started in state \<open>c0\<close>.\<close>

definition sent_ok :: "client_state \<Rightarrow> log_entry list \<Rightarrow> subscription \<Rightarrow> bool" where
  "sent_ok c0 log s \<longleftrightarrow>
     sb_cursor s \<le> length log \<and>
     live_ok (cs_ordinal c0) 0 (sb_sent s) \<and> last_seq 0 (sb_sent s) = sb_seq s \<and>
     res_fold client_receive c0 (sb_sent s) = Inr (client_at log (sb_cursor s))"

definition queue_live_ok :: "log_entry list \<Rightarrow> subscription \<Rightarrow> bool" where
  "queue_live_ok log s \<longleftrightarrow>
     sb_basedOn s \<le> length log \<and> (\<forall>f \<in> set (sb_queue s). ql_basedOn f \<le> length log) \<and>
     sb_queuedBytes s = sum_list (map ql_bytes (sb_queue s)) \<and> (sb_ended s \<longrightarrow> sb_queue s = [])"

definition caught_up :: "log_entry list \<Rightarrow> subscription \<Rightarrow> bool" where
  "caught_up log s \<longleftrightarrow> (\<not> sb_pumping s \<longrightarrow> \<not> sb_ended s \<longrightarrow> sb_cursor s = length log \<and> sb_queue s = [])"

definition sub_inv :: "client_state \<Rightarrow> sub_world \<Rightarrow> bool" where
  "sub_inv c0 w \<longleftrightarrow>
     valid_log (sw_log w) \<and> sent_ok c0 (sw_log w) (sw_sub w) \<and> queue_live_ok (sw_log w) (sw_sub w) \<and>
     caught_up (sw_log w) (sw_sub w)"

section \<open>The invariant\<close>

text \<open>A client's position is the one of the frames it received.\<close>

lemma receive_position:
  assumes "client_receive c f = Inr c'"
  shows "cs_ordinal c' = frame_position (cs_ordinal c) f"
proof (cases f)
  case (SnapshotFrame n state)
  then show ?thesis using assms by (auto simp: clientRestore_def res_bind_Inr_iff Let_def)
next
  case (EntryOut e)
  then have "client_apply c e = Inr c'" using assms by (simp add: clientFold_def res_bind_Inr_iff)
  then show ?thesis using EntryOut client_applyD(5) by simp
next
  case (HeadOut n)
  then show ?thesis using assms by (auto simp: clientAdvance_def split: if_splits)
qed (use assms in simp_all)

lemma receive_positions:
  "res_fold client_receive c fs = Inr c' \<Longrightarrow> cs_ordinal c' = position_after (cs_ordinal c) fs"
proof (induction fs arbitrary: c)
  case (Cons f fs)
  then obtain d where d: "client_receive c f = Inr d" "res_fold client_receive d fs = Inr c'" by (auto simp: res_bind_Inr_iff)
  from Cons.IH [OF d(2)] receive_position [OF d(1)] show ?case by (simp add: position_after_def)
qed (simp add: position_after_def)

lemma client_at_ordinal:
  assumes "valid_log log" and "n \<le> length log"
  shows "cs_ordinal (client_at log n) = n"
proof -
  obtain k where "client_at log n = k\<lparr>cs_ordinal := n\<rparr>" by (rule client_at_fold [OF assms])
  then show ?thesis by simp
qed

lemma sent_position:
  assumes "valid_log log" and "sent_ok c0 log s"
  shows "position_after (cs_ordinal c0) (sb_sent s) = sb_cursor s"
  using receive_positions [of c0 "sb_sent s"] client_at_ordinal [OF assms(1)] assms(2) by (auto simp: sent_ok_def)

fun is_live :: "host_frame \<Rightarrow> bool" where
  "is_live (LiveFrame b n r items) = True"
| "is_live f = False"

definition no_live :: "host_frame list \<Rightarrow> bool" where
  "no_live fs \<longleftrightarrow> (\<forall>f \<in> set fs. \<not> is_live f)"

lemma no_live_ok: "no_live fs \<Longrightarrow> live_ok n seq fs \<and> last_seq seq fs = seq"
  by (induction fs arbitrary: n) (auto simp: no_live_def split: host_frame.split)

lemma no_live_entries: "no_live (map EntryOut ps @ (if b then [HeadOut m] else []))"
  by (auto simp: no_live_def)

lemma sent_ok_extend:
  assumes valid: "valid_log log" and ok: "sent_ok c0 log s" and fs: "no_live fs"
    and cl: "res_fold client_receive (client_at log (sb_cursor s)) fs = Inr (client_at log n)"
    and s': "sb_sent s' = sb_sent s @ fs" "sb_cursor s' = n" "sb_seq s' = sb_seq s" and n: "n \<le> length log"
  shows "sent_ok c0 log s'"
  using ok no_live_ok [OF fs] cl n unfolding sent_ok_def s'
  by (simp add: live_ok_append last_seq_append res_fold_append)

lemma write_keeps:
  assumes valid: "valid_log log" and ok: "sent_ok c0 log s" and ord: "ordinal \<le> length log"
  defines "s' \<equiv> writeEntriesThrough log ordinal s"
  shows "sent_ok c0 log s'" "sb_cursor s' = max (sb_cursor s) ordinal" "sb_queue s' = sb_queue s"
    "sb_queuedBytes s' = sb_queuedBytes s" "sb_basedOn s' = sb_basedOn s" "sb_ended s' = sb_ended s"
    "sb_pumping s' = sb_pumping s" "sb_again s' = sb_again s" "sb_seq s' = sb_seq s"
proof -
  have cur: "sb_cursor s \<le> length log" using ok by (simp add: sent_ok_def)
  have "sent_ok c0 log s' \<and> sb_cursor s' = max (sb_cursor s) ordinal \<and> sb_queue s' = sb_queue s \<and>
    sb_queuedBytes s' = sb_queuedBytes s \<and> sb_basedOn s' = sb_basedOn s \<and> sb_ended s' = sb_ended s \<and>
    sb_pumping s' = sb_pumping s \<and> sb_again s' = sb_again s \<and> sb_seq s' = sb_seq s"
    using valid cur ord
  proof (cases rule: writeEntriesThrough_cases)
    case Same
    then show ?thesis using ok by (simp add: s'_def)
  next
    case (Wrote ps)
    have "sent_ok c0 log s'"
      using written_frames [OF valid Wrote(1) ord] Wrote(2,3) ord
      by (intro sent_ok_extend [OF valid ok no_live_entries]) (auto simp: s'_def)
    then show ?thesis using Wrote by (simp add: s'_def)
  qed
  then show "sent_ok c0 log s'" "sb_cursor s' = max (sb_cursor s) ordinal" "sb_queue s' = sb_queue s"
    "sb_queuedBytes s' = sb_queuedBytes s" "sb_basedOn s' = sb_basedOn s" "sb_ended s' = sb_ended s"
    "sb_pumping s' = sb_pumping s" "sb_again s' = sb_again s" "sb_seq s' = sb_seq s" by blast+
qed

lemma writeLive_keeps:
  assumes valid: "valid_log log" and ok: "sent_ok c0 log s" and based: "ql_basedOn f \<le> sb_cursor s"
  shows "sent_ok c0 log (writeLive f s)"
  using ok sent_position [OF valid ok] based
  by (simp add: sent_ok_def writeLive_def send_frame_def live_ok_append last_seq_append res_fold_append Let_def)

definition same_sent :: "subscription \<Rightarrow> subscription \<Rightarrow> bool" where
  "same_sent s s' \<longleftrightarrow> sb_cursor s' = sb_cursor s \<and> sb_sent s' = sb_sent s \<and> sb_seq s' = sb_seq s"

lemma same_sent_ok: "sent_ok c0 log s \<Longrightarrow> same_sent s s' \<Longrightarrow> sent_ok c0 log s'"
  by (simp add: sent_ok_def same_sent_def)

lemma same_sent_trans: "same_sent s t \<Longrightarrow> same_sent t u \<Longrightarrow> same_sent s u"
  by (simp add: same_sent_def)

lemma sub_pump_keeps:
  "same_sent s (sub_pump s)" "queue_live_ok log s \<Longrightarrow> queue_live_ok log (sub_pump s)"
  "sb_pumping (sub_pump s) \<or> sb_ended (sub_pump s)"
  by (simp_all add: sub_pump_def same_sent_def queue_live_ok_def)

lemma enqueue_keeps:
  assumes "queue_live_ok log s" and "lu_basedOn u \<le> length log" and "\<not> sb_ended s"
  shows "same_sent s (enqueue_live bytes u s)" "queue_live_ok log (enqueue_live bytes u s)"
    "sb_pumping (enqueue_live bytes u s) = sb_pumping s" "sb_ended (enqueue_live bytes u s) = sb_ended s"
  using assms by (auto simp: enqueue_live_def same_sent_def queue_live_ok_def Let_def)

lemma drop_live_keeps:
  assumes "queue_live_ok log s"
  shows "same_sent s (drop_live s)" "queue_live_ok log (drop_live s)" "sb_pumping (drop_live s) = sb_pumping s"
    "sb_ended (drop_live s) = sb_ended s" "sb_queue (drop_live s) = []" "sb_queuedBytes (drop_live s) = 0"
  using assms by (simp_all add: drop_live_def same_sent_def queue_live_ok_def)

text \<open>Only a running pump counts bytes, so only then is the live queue replaced.\<close>

lemma overflow_pumping:
  assumes "queue_live_ok log s" and "caught_up log s" and "\<not> sb_ended s"
    and "limit < sb_queuedBytes (enqueue_live bytes u s)"
  shows "sb_pumping s"
  using assms by (auto simp: queue_live_ok_def caught_up_def enqueue_live_def Let_def split: if_splits)

text \<open>
  The calls of the live lane change the queue and the attachment, never what was sent. The laws hold through
  the nested calls of a replacement, whether its attach throws or not.
\<close>

lemma attach_fields:
  "live_attach s = Inr (n, s') \<Longrightarrow> s' = s\<lparr>sb_client := Some n, sb_attachments := Suc n\<rparr> \<and> n = sb_attachments s \<and> sb_client s = None"
  by (auto simp: live_attach_def split: option.splits)

lemma replaced_fields:
  "detach_replaced s = s\<lparr>sb_queue := [], sb_queuedBytes := 0, sb_replacingLive := False,
     sb_client := (if sb_client s = sb_detachLive s then None else sb_client s)\<rparr>"
  by (auto simp: detach_replaced_def drop_live_def detach_live_def live_detach_def split: option.split)

lemma attached_fields:
  "attached_live n p s = s\<lparr>sb_attaching := (if \<not> p \<and> sb_pumping s then Some n else sb_attaching s),
     sb_detachLive := (if \<not> p \<and> sb_pumping s then sb_detachLive s else Some n)\<rparr>"
  by (simp add: attached_live_def)

definition lane_call :: "log_entry list \<Rightarrow> subscription \<Rightarrow> subscription \<Rightarrow> bool" where
  "lane_call log s s' \<longleftrightarrow> same_sent s s' \<and> queue_live_ok log s' \<and> caught_up log s' \<and> sb_ended s' = sb_ended s"

lemma lane_call_attach:
  "lane_call log s (attached_live n p s') = lane_call log s s'"
  "lane_call log (s\<lparr>sb_client := x, sb_attachments := k\<rparr>) s' = lane_call log s s'"
  by (simp_all add: lane_call_def same_sent_def queue_live_ok_def caught_up_def attached_fields)

lemma lane_calls:
  "head \<le> length log \<Longrightarrow> queue_live_ok log s \<Longrightarrow> caught_up log s \<Longrightarrow> lu_basedOn u \<le> length log \<Longrightarrow>
     lane_call log s (deliver (sub_receive limits bytes head items u s))"
  "head \<le> length log \<Longrightarrow> queue_live_ok log s \<Longrightarrow> caught_up log s \<Longrightarrow>
     lane_call log s (deliver (attachLive limits bytes head items s))"
  "head \<le> length log \<Longrightarrow> queue_live_ok log s \<Longrightarrow> sb_pumping s \<Longrightarrow>
     lane_call log s (deliver (replaceLive limits bytes head items s))"
proof (induction limits bytes head items u s and limits bytes head items s and limits bytes head items s
    rule: sub_receive_attachLive_replaceLive.induct)
  case (1 limits bytes head items u s)
  let ?e = "enqueue_live bytes u s"
  show ?case
  proof (cases "sb_ended s \<or> sb_replacingLive s")
    case True
    then show ?thesis using "1.prems" by (simp add: sub_receive.simps deliver_def lane_call_def same_sent_def)
  next
    case False
    then have e: "same_sent s ?e" "queue_live_ok log ?e" "sb_pumping ?e = sb_pumping s" "sb_ended ?e = sb_ended s"
      using enqueue_keeps [OF "1.prems"(2,4), of bytes] by simp_all
    show ?thesis
    proof (cases "pl_liveQueueBytes limits < sb_queuedBytes ?e")
      case True
      have "sb_pumping ?e" using overflow_pumping [OF "1.prems"(2,3) _ True] False e(3) by simp
      from "1.IH" [OF False refl True "1.prems"(1) e(2) this] e(1) same_sent_trans show ?thesis
        using False True by (auto simp: sub_receive.simps [of limits] lane_call_def)
    next
      case no: False
      then have "deliver (sub_receive limits bytes head items u s) = sub_pump ?e"
        using False by (simp add: sub_receive.simps [of limits] deliver_def Let_def)
      then show ?thesis using sub_pump_keeps(1,3) [of ?e] sub_pump_keeps(2) [OF e(2)] same_sent_trans [OF e(1)] False
        by (auto simp: lane_call_def caught_up_def sub_pump_def)
    qed
  qed
next
  case (2 limits bytes head items s)
  show ?case
  proof (cases "live_attach s")
    case (Inl e)
    then show ?thesis using "2.prems" by (simp add: attachLive.simps deliver_def lane_call_def same_sent_def)
  next
    case (Inr r)
    then obtain n s1 where at: "live_attach s = Inr (n, s1)" by (cases r) auto
    note f = attach_fields [OF at]
    have "queue_live_ok log s1" "caught_up log s1" using "2.prems"(2,3) f by (simp_all add: queue_live_ok_def caught_up_def)
    from "2.IH" [OF at refl "2.prems"(1) this] "2.prems"(1)
    have "lane_call log s (deliver (sub_receive limits bytes head items \<lparr>lu_basedOn = head, lu_reset = True, lu_items = items\<rparr> s1))"
      using f by (simp add: lane_call_attach)
    moreover have "deliver (None, t) = t" for t by (simp add: deliver_def)
    ultimately show ?thesis by (simp add: attachLive.simps [of limits] at lane_call_attach)
  qed
next
  case (3 limits bytes head items s)
  have "queue_live_ok log (detach_replaced s)" "caught_up log (detach_replaced s)"
    using "3.prems"(2,3) by (simp_all add: replaced_fields queue_live_ok_def caught_up_def)
  from "3.IH" [OF "3.prems"(1) this] show ?case
    by (simp add: replaceLive.simps lane_call_def same_sent_def replaced_fields)
qed

text \<open>A first attach finds no pump running: its reset is not counted against the bound and starts one.\<close>

lemma attach_idle:
  assumes "sb_client s = None" and "\<not> sb_pumping s" and "\<not> sb_ended s" and "\<not> sb_replacingLive s"
  shows "attachLive limits bytes head items s =
    (None, (sub_pump (enqueue_live bytes \<lparr>lu_basedOn = head, lu_reset = True, lu_items = items\<rparr> s))\<lparr>
       sb_attaching := Some (sb_attachments s), sb_client := Some (sb_attachments s), sb_attachments := sb_attachments s + 1\<rparr>)"
  using assms
  by (simp add: attachLive.simps sub_receive.simps live_attach_def deliver_def attached_live_def enqueue_live_def sub_pump_def Let_def)

lemma sub_receive_keeps:
  assumes "queue_live_ok log s" and "lu_basedOn u \<le> length log" and "caught_up log s"
  shows "same_sent s (deliver (sub_receive limits bytes (length log) items u s))"
    "queue_live_ok log (deliver (sub_receive limits bytes (length log) items u s))"
    "caught_up log (deliver (sub_receive limits bytes (length log) items u s))"
  using lane_calls(1) [OF order_refl assms(1,3,2)] by (simp_all add: lane_call_def)

lemma attach_returns_fields:
  "attach_returns s = s\<lparr>sb_attaching := None, sb_detachLive := (if sb_attaching s = None then sb_detachLive s else sb_attaching s)\<rparr>"
  by (simp add: attach_returns_def split: option.split)

lemma drain_keeps:
  assumes valid: "valid_log log" and ok: "sent_ok c0 log s" and live: "queue_live_ok log s" and pumping: "sb_pumping s"
  shows "sent_ok c0 log (drain log s)" "queue_live_ok log (drain log s)" "caught_up log (drain log s)"
    "sb_ended (drain log s) = sb_ended s"
proof -
  have "sent_ok c0 log (drain log s) \<and> queue_live_ok log (drain log s) \<and> caught_up log (drain log s) \<and>
      sb_ended (drain log s) = sb_ended s"
  proof (cases "sb_queue s")
    case Nil
    note w = write_keeps [OF valid ok order_refl]
    have "sb_cursor s \<le> length log" using ok by (simp add: sent_ok_def)
    then show ?thesis using Nil live ok w unfolding drain_def
      by (auto simp: Let_def queue_live_ok_def caught_up_def sent_ok_def attach_returns_fields)
  next
    case (Cons f rest)
    have no: "\<not> sb_ended s" using live Cons by (auto simp: queue_live_ok_def)
    let ?s = "s\<lparr>sb_queue := rest, sb_queuedBytes := sb_queuedBytes s - ql_bytes f\<rparr>"
    have ok': "sent_ok c0 log ?s" using ok by (simp add: sent_ok_def)
    have based: "ql_basedOn f \<le> length log" using live Cons by (simp add: queue_live_ok_def)
    note w = write_keeps [OF valid ok' based]
    have "drain log s = writeLive f (writeEntriesThrough log (ql_basedOn f) ?s)" using Cons no by (simp add: drain_def Let_def)
    moreover have "sent_ok c0 log (writeLive f (writeEntriesThrough log (ql_basedOn f) ?s))"
      by (rule writeLive_keeps [OF valid w(1)]) (simp add: w(2))
    moreover have "queue_live_ok log (writeLive f (writeEntriesThrough log (ql_basedOn f) ?s))"
      using live Cons w no by (simp add: queue_live_ok_def writeLive_def send_frame_def Let_def)
    ultimately show ?thesis using w pumping by (simp add: caught_up_def writeLive_def send_frame_def Let_def)
  qed
  then show "sent_ok c0 log (drain log s)" "queue_live_ok log (drain log s)" "caught_up log (drain log s)"
    "sb_ended (drain log s) = sb_ended s" by blast+
qed

lemma drain_all_keeps:
  assumes "valid_log log" and "sent_ok c0 log s" and "queue_live_ok log s" and "sb_pumping s \<or> caught_up log s"
  shows "sent_ok c0 log (drain_all fuel log s) \<and> queue_live_ok log (drain_all fuel log s) \<and>
    (sb_pumping (drain_all fuel log s) \<or> caught_up log (drain_all fuel log s)) \<and> sb_ended (drain_all fuel log s) = sb_ended s"
  using assms(2-4)
proof (induction fuel arbitrary: s)
  case (Suc fuel)
  show ?case
  proof (cases "sb_pumping s")
    case True
    note d = drain_keeps [OF assms(1) Suc.prems(1,2) True]
    show ?thesis using Suc.IH [OF d(1,2)] d(3,4) True by simp
  qed (use Suc.prems in simp)
qed simp

lemma drain_frame:
  assumes valid: "valid_log log" and ok: "sent_ok c0 log s" and live: "queue_live_ok log s" and q: "sb_queue s = f # rest"
  shows "sb_queue (drain log s) = rest" "sb_pumping (drain log s) = sb_pumping s" "sb_again (drain log s) = sb_again s"
proof -
  have no: "\<not> sb_ended s" using live q by (auto simp: queue_live_ok_def)
  let ?s = "s\<lparr>sb_queue := rest, sb_queuedBytes := sb_queuedBytes s - ql_bytes f\<rparr>"
  have ok': "sent_ok c0 log ?s" using ok by (simp add: sent_ok_def)
  have based: "ql_basedOn f \<le> length log" using live q by (simp add: queue_live_ok_def)
  note w = write_keeps [OF valid ok' based]
  show "sb_queue (drain log s) = rest" "sb_pumping (drain log s) = sb_pumping s" "sb_again (drain log s) = sb_again s"
    using q no w by (simp_all add: drain_def writeLive_def send_frame_def Let_def)
qed

text \<open>An uninterrupted pump ends, after one round for each queued frame and one for the rest of the log.\<close>

lemma drain_all_done:
  assumes "valid_log log" and "sent_ok c0 log s" and "queue_live_ok log s" and "sb_pumping s" and "\<not> sb_again s"
  shows "\<not> sb_pumping (drain_all (Suc (length (sb_queue s))) log s)"
  using assms(2-5)
proof (induction "length (sb_queue s)" arbitrary: s)
  case 0
  note w = write_keeps [OF assms(1) "0.prems"(1) order_refl]
  show ?case using 0 w by (simp add: drain_def attach_returns_fields Let_def)
next
  case (Suc n)
  then obtain f rest where q: "sb_queue s = f # rest" by (cases "sb_queue s") auto
  note d = drain_keeps [OF assms(1) Suc.prems(1,2,3)] and fr = drain_frame [OF assms(1) Suc.prems(1,2) q]
  have dr: "sb_queue (drain log s) = rest" "sb_pumping (drain log s)" "\<not> sb_again (drain log s)"
    using fr Suc.prems by simp_all
  have n: "n = length (sb_queue (drain log s))" using Suc.hyps(2) q dr(1) by simp
  have "\<not> sb_pumping (drain_all (Suc (length (sb_queue (drain log s)))) log (drain log s))"
    by (rule Suc.hyps(1) [OF n d(1,2) dr(2,3)])
  then show ?case using Suc.prems(3) q dr(1) by (simp del: drain_all.simps add: drain_all.simps(2) [of "Suc (length rest)"])
qed

lemma release_fields:
  "release s = s\<lparr>sb_queue := [], sb_queuedBytes := 0, sb_replacingLive := True, sb_detachLive := None,
     sb_client := (if sb_client s = sb_detachLive s then None else sb_client s)\<rparr>"
  by (auto simp: release_def drop_live_def detach_live_def live_detach_def split: option.split)

lemma end_keeps:
  assumes valid: "valid_log log" and ok: "sent_ok c0 log s" and live: "queue_live_ok log s" and up: "caught_up log s"
  shows "sent_ok c0 log (sub_end log reason s) \<and> queue_live_ok log (sub_end log reason s) \<and> caught_up log (sub_end log reason s)"
proof (cases "sb_ended s")
  case True
  then show ?thesis using ok live up by (simp add: sub_end_def)
next
  case False
  define s1 where "s1 = (if sb_pumping s then sub_pump s else drain_all (Suc (length (sb_queue s))) log (sub_pump s))"
  have p: "sent_ok c0 log (sub_pump s)" "queue_live_ok log (sub_pump s)" "sb_pumping (sub_pump s) \<or> caught_up log (sub_pump s)"
    using same_sent_ok [OF ok sub_pump_keeps(1)] sub_pump_keeps(2) [OF live] sub_pump_keeps(3) [of s] by (auto simp: caught_up_def)
  have s1: "sent_ok c0 log s1" "queue_live_ok log s1"
    unfolding s1_def using p drain_all_keeps [OF valid p] by (simp_all del: drain_all.simps)
  have "sub_end log reason s = send_frame (EndedFrame reason) (release (s1\<lparr>sb_ended := True\<rparr>))"
    using False by (simp add: sub_end_def s1_def [symmetric] Let_def del: drain_all.simps)
  then show ?thesis using s1 sent_position [OF valid s1(1)]
    by (simp add: release_fields send_frame_def sent_ok_def queue_live_ok_def caught_up_def drop_live_def live_ok_append last_seq_append res_fold_append)
qed

lemma dispose_keeps:
  assumes "sent_ok c0 log s" and "queue_live_ok log s" and "caught_up log s"
  shows "sent_ok c0 log (sub_dispose s) \<and> queue_live_ok log (sub_dispose s) \<and> caught_up log (sub_dispose s)"
  using assms by (auto simp: sub_dispose_def release_fields sent_ok_def queue_live_ok_def caught_up_def)

lemma sub_commit_keeps:
  assumes valid: "valid_log (log @ es)" and ok: "sent_ok c0 log s" and live: "queue_live_ok log s"
  shows "sent_ok c0 (log @ es) (sub_pump s) \<and> queue_live_ok (log @ es) (sub_pump s) \<and> caught_up (log @ es) (sub_pump s)"
proof -
  have "sent_ok c0 (log @ es) s" using ok client_at_grow [OF valid] by (simp add: sent_ok_def)
  moreover have "queue_live_ok (log @ es) s" using live by (fastforce simp: queue_live_ok_def)
  ultimately show ?thesis using same_sent_ok [OF _ sub_pump_keeps(1)] sub_pump_keeps(2) sub_pump_keeps(3) [of s] by (auto simp: caught_up_def)
qed

lemma sub_inv_step:
  assumes step: "sub_step limits bytes w w'" and inv: "sub_inv c0 w"
  shows "sub_inv c0 w'"
  using step
proof (cases rule: sub_step.cases)
  case (Commit log es s)
  then show ?thesis using inv sub_commit_keeps [OF Commit(3), of c0 s] by (simp add: sub_inv_def)
next
  case (Drain s log)
  then show ?thesis using inv drain_keeps [of log c0 s] by (simp add: sub_inv_def)
next
  case (Live u log s items)
  then show ?thesis using inv sub_receive_keeps [of log s u limits bytes items] same_sent_ok by (auto simp: sub_inv_def)
next
  case (Notice log s items item)
  let ?u = "\<lparr>lu_basedOn = sb_basedOn s, lu_reset = False, lu_items = [item]\<rparr>"
  have "lu_basedOn ?u \<le> length log" using inv Notice by (simp add: sub_inv_def queue_live_ok_def)
  then show ?thesis using inv Notice sub_receive_keeps [of log s ?u limits bytes items] same_sent_ok
    by (auto simp: sub_inv_def sub_notice_def deliver_def)
next
  case (End log s reason)
  then show ?thesis using inv end_keeps [of log c0 s reason] by (simp add: sub_inv_def)
next
  case (Dispose log s)
  then show ?thesis using inv dispose_keeps [of c0 log s] by (simp add: sub_inv_def)
qed

lemma sub_inv_run:
  assumes "sub_run limits bytes w w'" and "sub_inv c0 w"
  shows "sub_inv c0 w'"
  using assms unfolding sub_run_def by (induction rule: rtranclp_induct) (auto intro: sub_inv_step)

section \<open>Starting\<close>

lemma client_fold_entries: "res_fold client_apply c ps = Inr k \<Longrightarrow> cs_entries k = cs_entries c @ ps"
proof (induction ps arbitrary: c)
  case (Cons p ps)
  then obtain d where d: "client_apply c p = Inr d" "res_fold client_apply d ps = Inr k" by (auto simp: res_bind_Inr_iff)
  from Cons.IH [OF d(2)] client_applyD(3) [OF d(1)] show ?case by simp
qed simp

lemma project_carried_id:
  assumes "\<And>p. p \<in> set ps \<Longrightarrow> \<exists>e. js_get source (pe_id p) = Some e \<and> projectFoldEntry source e = Some p"
  shows "project_carried source ps = Inr ps"
  using assms by (induction ps) fastforce+

lemma snapshot_unbounded:
  assumes valid: "valid_log log" and tail: "length (projectLog (log_source log) log) \<le> pl_snapshotTail limits"
  obtains sn where "logSnapshot limits log (length log) = Inr sn" "clientRestore (length log) sn = Inr (client_at log (length log))"
proof -
  obtain k where k: "clientFold (projectLog (log_source log) (take (length log) log)) emptyClientState = Inr k"
    "client_at log (length log) = k\<lparr>cs_ordinal := length log\<rparr>" "cs_ordinal k \<le> length log" "client_inv k"
    by (rule client_at_fold [OF valid order_refl])
  let ?ps = "projectLog (log_source log) log" and ?k = "k\<lparr>cs_ordinal := length log\<rparr>"
  have entries: "cs_entries k = ?ps"
    using client_fold_entries [of emptyClientState ?ps k] k(1) by (simp add: clientFold_def emptyClientState_def)
  have "project_carried (log_source log) ?ps = Inr ?ps"
    using log_source_get [OF valid] projectFoldEntry_Some by (intro project_carried_id) (fastforce simp: projectLog_mem)
  then have snap: "logSnapshot limits log (length log) = Inr (clientSnapshotWith k ?ps False)"
    using k(1) entries tail by (simp add: logSnapshot_def committedEntries_all Let_def)
  have inv: "client_inv ?k" using client_inv_advance [OF k(4), of "length log" ?k] k(3) by (simp add: clientAdvance_def)
  have "clientSnapshot ?k = clientSnapshotWith k ?ps False"
    using entries k(4) by (simp add: clientSnapshot_def clientSnapshotWith_def client_inv_def)
  then have "clientRestore (length log) (clientSnapshotWith k ?ps False) = Inr ?k" using restore_clientSnapshot [OF inv] by simp
  with snap k(2) show ?thesis using that by simp
qed

text \<open>
  A client may start anywhere: with nothing, from a snapshot that carries every entry, or after a position it
  holds.
\<close>

definition starts_at :: "profile_limits \<Rightarrow> log_entry list \<Rightarrow> string \<Rightarrow> subscription_position \<Rightarrow> client_state \<Rightarrow> bool" where
  "starts_at limits log generation position c0 \<longleftrightarrow>
     (if subscriptionSnapshots limits (length log) generation position
      then length (projectLog (log_source log) log) \<le> pl_snapshotTail limits
      else case position of AfterSnapshot \<Rightarrow> False | AfterOrdinal n g \<Rightarrow> c0 = client_at log n)"

lemma sub_start_inv:
  assumes valid: "valid_log log" and at: "starts_at limits log generation position c0"
  obtains s where "sub_start limits bytes log generation items position (new_subscription live) = Inr s"
    "sub_inv c0 \<lparr>sw_log = log, sw_sub = s\<rparr>"
proof -
  let ?n = "new_subscription live"
  obtain s1 where s1: "(case position of AfterSnapshot \<Rightarrow> writeSnapshot limits log (length log) ?n
        | AfterOrdinal after g \<Rightarrow> if subscriptionSnapshots limits (length log) generation position
            then writeSnapshot limits log (length log) ?n else Inr (?n\<lparr>sb_cursor := after\<rparr>)) = Inr s1"
    "sent_ok c0 log s1" "sb_queue s1 = []" "sb_queuedBytes s1 = 0" "sb_basedOn s1 = 0" "\<not> sb_ended s1" "\<not> sb_pumping s1"
    "sb_client s1 = None" "\<not> sb_replacingLive s1"
  proof (cases "subscriptionSnapshots limits (length log) generation position")
    case True
    then obtain sn where sn: "logSnapshot limits log (length log) = Inr sn"
      "clientRestore (length log) sn = Inr (client_at log (length log))"
      using snapshot_unbounded [OF valid] at by (auto simp: starts_at_def)
    let ?s = "(send_frame (SnapshotFrame (length log) sn) ?n)\<lparr>sb_cursor := length log\<rparr>"
    have w: "writeSnapshot limits log (length log) ?n = Inr ?s" using sn(1) by (simp add: writeSnapshot_def)
    have first: "(case position of AfterSnapshot \<Rightarrow> writeSnapshot limits log (length log) ?n
        | AfterOrdinal after g \<Rightarrow> if subscriptionSnapshots limits (length log) generation position
            then writeSnapshot limits log (length log) ?n else Inr (?n\<lparr>sb_cursor := after\<rparr>)) = Inr ?s"
      using True w by (cases position) simp_all
    show ?thesis by (rule that [OF first]) (use sn(2) in \<open>simp_all add: sent_ok_def send_frame_def new_subscription_def\<close>)
  next
    case False
    then obtain n g where p: "position = AfterOrdinal n g" "c0 = client_at log n" "n \<le> length log"
      using at by (cases position) (auto simp: starts_at_def subscriptionSnapshots_def)
    show ?thesis using that [of "?n\<lparr>sb_cursor := n\<rparr>"] False p
      by (simp add: sent_ok_def new_subscription_def)
  qed
  have live1: "queue_live_ok log s1" using s1 by (simp add: queue_live_ok_def)
  let ?u = "\<lparr>lu_basedOn = length log, lu_reset = True, lu_items = items\<rparr>"
  define s2 where "s2 = (if sb_live s1 then deliver (attachLive limits bytes (length log) items s1) else s1)"
  note idle = attach_idle [OF s1(8,7,6,9), of limits bytes "length log" items]
  have s2: "sent_ok c0 log s2" "queue_live_ok log s2"
  proof -
    have e: "same_sent s1 (enqueue_live bytes ?u s1)" "queue_live_ok log (enqueue_live bytes ?u s1)"
      using enqueue_keeps [OF live1, of ?u] s1(6) by simp_all
    have "same_sent s1 s2 \<and> queue_live_ok log s2"
      using same_sent_trans [OF e(1) sub_pump_keeps(1)] sub_pump_keeps(2) [OF e(2)] live1
      by (simp add: s2_def idle deliver_def same_sent_def queue_live_ok_def)
    then show "sent_ok c0 log s2" "queue_live_ok log s2" using same_sent_ok [OF s1(2)] by blast+
  qed
  have "sub_start limits bytes log generation items position ?n = Inr (sub_pump s2)"
    using s1(1) by (simp add: sub_start_def s2_def idle deliver_def)
  moreover have "sub_inv c0 \<lparr>sw_log = log, sw_sub = sub_pump s2\<rparr>"
    using valid same_sent_ok [OF s2(1) sub_pump_keeps(1)] sub_pump_keeps(2) [OF s2(2)] sub_pump_keeps(3) [of s2]
    by (auto simp: sub_inv_def caught_up_def)
  ultimately show ?thesis using that by blast
qed

text \<open>Every pump that nothing interrupts ends.\<close>

lemma drain_again:
  assumes "valid_log log" and "sent_ok c0 log s" and "sb_queue s = []" and "\<not> sb_ended s" and "sb_pumping s" and "sb_again s"
  shows "sb_queue (drain log s) = [] \<and> sb_pumping (drain log s) \<and> \<not> sb_again (drain log s) \<and> \<not> sb_ended (drain log s)"
  using assms write_keeps [OF assms(1,2) order_refl] by (simp add: drain_def Let_def)

lemma drain_all_returns:
  assumes valid: "valid_log log" and "sent_ok c0 log s" and "queue_live_ok log s" and "sb_pumping s"
  shows "\<not> sb_pumping (drain_all (Suc (Suc (length (sb_queue s)))) log s)"
  using assms(2-4)
proof (induction "length (sb_queue s)" arbitrary: s)
  case 0
  then have q: "sb_queue s = []" by simp
  note d = drain_keeps [OF valid 0(2,3,4)]
  show ?case
  proof (cases "sb_again s \<and> \<not> sb_ended s")
    case True
    then have t: "sb_queue (drain log s) = []" "sb_pumping (drain log s)" "\<not> sb_again (drain log s)"
      using drain_again [OF valid 0(2) q _ 0(4)] by simp_all
    then show ?thesis using drain_all_done [OF valid d(1,2) t(2,3)] 0(4) q by simp
  next
    case False
    then have "\<not> sb_pumping (drain log s)" using q write_keeps [OF valid 0(2) order_refl] by (auto simp: drain_def attach_returns_fields Let_def)
    then show ?thesis using 0(4) by simp
  qed
next
  case (Suc n)
  then obtain f rest where q: "sb_queue s = f # rest" by (cases "sb_queue s") auto
  note d = drain_keeps [OF valid Suc.prems] and fr = drain_frame [OF valid Suc.prems(1,2) q]
  have "n = length (sb_queue (drain log s))" using Suc.hyps(2) q fr(1) by simp
  then have "\<not> sb_pumping (drain_all (Suc (Suc (length (sb_queue (drain log s))))) log (drain log s))"
    using Suc.hyps(1) d(1,2) fr(2) Suc.prems(3) by blast
  then show ?case using Suc.prems(3) q fr(1) by (simp del: drain_all.simps add: drain_all.simps(2) [of "Suc (Suc (length rest))"])
qed

end
