(* ===== verification/Subscription_Live.thy ===== *)
theory Subscription_Live
  imports Subscription_Invariant
begin

text \<open>
  The live lane of a subscription: how much it queues, and how it stays attached to the conversation's live state
  through replacements, the ones whose reset is itself too large and the ones that meet an attach that has not
  returned yet included.
\<close>

section \<open>Bounds\<close>

definition lane_bounded :: "profile_limits \<Rightarrow> subscription \<Rightarrow> bool" where
  "lane_bounded limits s \<longleftrightarrow> sb_queuedBytes s \<le> pl_liveQueueBytes limits"

lemma bounded_calls:
  "lane_bounded limits s \<Longrightarrow> lane_bounded limits (deliver (sub_receive limits bytes head items u s))"
  "lane_bounded limits s \<Longrightarrow> lane_bounded limits (deliver (attachLive limits bytes head items s))"
  "lane_bounded limits (deliver (replaceLive limits bytes head items s))"
proof (induction limits bytes head items u s and limits bytes head items s and limits bytes head items s
    rule: sub_receive_attachLive_replaceLive.induct)
  case (1 limits bytes head items u s)
  then show ?case
    by (cases "pl_liveQueueBytes limits < sb_queuedBytes (enqueue_live bytes u s)")
      (auto simp: sub_receive.simps [of limits] deliver_def lane_bounded_def sub_pump_def Let_def)
next
  case (2 limits bytes head items s)
  show ?case
  proof (cases "live_attach s")
    case (Inr r)
    then obtain n s1 where at: "live_attach s = Inr (n, s1)" by (cases r) auto
    have "lane_bounded limits s1" using "2.prems" attach_fields [OF at] by (simp add: lane_bounded_def)
    from "2.IH" [OF at refl this] show ?thesis
      by (simp add: attachLive.simps [of limits] at deliver_def attached_fields lane_bounded_def)
  qed (use "2.prems" in \<open>simp add: attachLive.simps deliver_def\<close>)
next
  case (3 limits bytes head items s)
  then show ?case by (simp add: replaceLive.simps replaced_fields lane_bounded_def)
qed

section \<open>Attachments\<close>

text \<open>
  Until it ends, a live subscription is the live state's client under its id, by its newest attachment.
  \<open>detachLive\<close> detaches that one, except while the first attach waits for the pump its reset started.
\<close>

definition lane_attached :: "subscription \<Rightarrow> bool" where
  "lane_attached s \<longleftrightarrow>
     (sb_live s \<longrightarrow> \<not> sb_ended s \<longrightarrow>
        \<not> sb_replacingLive s \<and>
        (\<exists>n < sb_attachments s. sb_client s = Some n \<and>
           (if sb_attaching s = None then sb_detachLive s = Some n
            else sb_attaching s = Some n \<and> sb_detachLive s = None \<and> sb_pumping s)))"

lemma sub_pump_fields:
  "sub_pump s = s\<lparr>sb_again := (if sb_ended s then sb_again s else sb_pumping s), sb_pumping := (\<not> sb_ended s \<or> sb_pumping s)\<rparr>"
  by (simp add: sub_pump_def)

lemma receive_fits:
  assumes "\<not> sb_ended s" and "\<not> sb_replacingLive s" and "sb_queuedBytes (enqueue_live bytes u s) \<le> pl_liveQueueBytes limits"
  shows "sub_receive limits bytes head items u s = (None, sub_pump (enqueue_live bytes u s))"
  using assms by (simp add: sub_receive.simps)

text \<open>While the first attach has not returned, a replacement finds its client attached: the queue is dropped and it throws.\<close>

lemma receive_attaching:
  assumes "\<not> sb_ended s" and "\<not> sb_replacingLive s" and "sb_client s = Some n" and "sb_detachLive s = None"
    and "pl_liveQueueBytes limits < sb_queuedBytes (enqueue_live bytes u s)"
  shows "sub_receive limits bytes head items u s = (Some AlreadyAttached, drop_live (enqueue_live bytes u s))"
  using assms
  by (simp add: sub_receive.simps [of limits] replaceLive.simps attachLive.simps [of limits] replaced_fields live_attach_def drop_live_def Let_def)

text \<open>
  Otherwise the old attachment is replaced by a new one. Its reset is queued when it fits; a reset that does not
  fit asks for a replacement again, which throws, and the live state swallows that.
\<close>

lemma receive_replaces:
  assumes "\<not> sb_ended s" and "\<not> sb_replacingLive s" and "sb_client s = Some m" and "sb_detachLive s = Some m"
    and "m < sb_attachments s" and "sb_pumping s" and "pl_liveQueueBytes limits < sb_queuedBytes (enqueue_live bytes u s)"
  shows "sub_receive limits bytes head items u s =
    (None, s\<lparr>sb_queue := (if bytes items \<le> pl_liveQueueBytes limits
        then [\<lparr>ql_basedOn = head, ql_reset = True, ql_items = items, ql_bytes = bytes items\<rparr>] else []),
      sb_queuedBytes := (if bytes items \<le> pl_liveQueueBytes limits then bytes items else 0), sb_basedOn := head,
      sb_again := (sb_again s \<or> bytes items \<le> pl_liveQueueBytes limits),
      sb_client := Some (sb_attachments s), sb_detachLive := Some (sb_attachments s), sb_attachments := sb_attachments s + 1\<rparr>)"
proof -
  let ?reset = "\<lparr>lu_basedOn = head, lu_reset = True, lu_items = items\<rparr>"
  let ?s1 = "(detach_replaced (enqueue_live bytes u s))\<lparr>sb_client := Some (sb_attachments s), sb_attachments := Suc (sb_attachments s)\<rparr>"
  let ?e = "enqueue_live bytes ?reset ?s1"
  have at: "live_attach (detach_replaced (enqueue_live bytes u s)) = Inr (sb_attachments s, ?s1)"
    using assms by (simp add: replaced_fields live_attach_def)
  have running: "sb_pumping ?s1" using assms(6) by (simp add: replaced_fields)
  have "sub_receive limits bytes head items u s =
      (None, (deliver (sub_receive limits bytes head items ?reset ?s1))\<lparr>sb_detachLive := Some (sb_attachments s)\<rparr>)"
    using assms(1,2,7) running
    by (simp add: sub_receive.simps [of limits _ _ _ u] replaceLive.simps attachLive.simps [of limits] at attached_live_def Let_def)
  moreover have "deliver (sub_receive limits bytes head items ?reset ?s1) =
      (if bytes items \<le> pl_liveQueueBytes limits then sub_pump ?e else drop_live ?e)"
  proof (cases "bytes items \<le> pl_liveQueueBytes limits")
    case True
    then show ?thesis using receive_fits [of ?s1 bytes ?reset limits head items] assms(1,6)
      by (simp add: deliver_def replaced_fields enqueue_live_def Let_def)
  next
    case False
    then have "pl_liveQueueBytes limits < sb_queuedBytes ?e"
      using assms(6) by (simp add: replaced_fields enqueue_live_def Let_def)
    with False assms show ?thesis
      by (simp add: sub_receive.simps [of limits _ _ _ ?reset] replaceLive.simps attachLive.simps [of limits] replaced_fields
          live_attach_def deliver_def drop_live_def Let_def)
  qed
  ultimately show ?thesis using assms(1-6)
    by (auto simp: sub_pump_fields drop_live_def replaced_fields enqueue_live_def Let_def)
qed

lemma live_calls:
  "sb_live (deliver (sub_receive limits bytes head items u s)) = sb_live s"
  "sb_live (deliver (attachLive limits bytes head items s)) = sb_live s"
  "sb_live (deliver (replaceLive limits bytes head items s)) = sb_live s"
proof (induction limits bytes head items u s and limits bytes head items s and limits bytes head items s
    rule: sub_receive_attachLive_replaceLive.induct)
  case (1 limits bytes head items u s)
  then show ?case
    by (cases "pl_liveQueueBytes limits < sb_queuedBytes (enqueue_live bytes u s)")
      (auto simp: sub_receive.simps [of limits] deliver_def sub_pump_def Let_def)
next
  case (2 limits bytes head items s)
  show ?case
  proof (cases "live_attach s")
    case (Inr r)
    then obtain n s1 where at: "live_attach s = Inr (n, s1)" by (cases r) auto
    from "2.IH" [OF at refl] attach_fields [OF at] show ?thesis
      by (simp add: attachLive.simps [of limits] at deliver_def attached_fields)
  qed (simp add: attachLive.simps deliver_def)
next
  case (3 limits bytes head items s)
  then show ?case by (simp add: replaceLive.simps replaced_fields)
qed

lemma attached_receive:
  assumes "lane_attached s" and "queue_live_ok log s" and "caught_up log s"
  shows "lane_attached (deliver (sub_receive limits bytes head items u s))"
proof (cases "sb_live s \<and> \<not> sb_ended s")
  case True
  let ?e = "enqueue_live bytes u s"
  from True assms(1) obtain n where n: "\<not> sb_replacingLive s" "n < sb_attachments s" "sb_client s = Some n"
    "if sb_attaching s = None then sb_detachLive s = Some n else sb_attaching s = Some n \<and> sb_detachLive s = None \<and> sb_pumping s"
    by (auto simp: lane_attached_def)
  show ?thesis
  proof (cases "pl_liveQueueBytes limits < sb_queuedBytes ?e")
    case False
    then show ?thesis using receive_fits [of s bytes u limits head items] n True
      by (auto simp: lane_attached_def deliver_def sub_pump_fields split: if_splits)
  next
    case over: True
    have "sb_pumping s" using overflow_pumping [OF assms(2,3) _ over] True by blast
    then show ?thesis
      using receive_attaching [OF _ n(1,3) _ over, of head items] receive_replaces [OF _ n(1,3) _ n(2) _ over, of head items] n True
      by (cases "sb_attaching s") (auto simp: lane_attached_def deliver_def drop_live_def)
  qed
next
  case False
  show ?thesis
  proof (cases "sb_live s")
    case True
    with False assms(1) show ?thesis by (simp add: deliver_def sub_receive.simps)
  qed (simp add: lane_attached_def live_calls(1))
qed

lemma write_lane:
  "lane_attached (writeEntriesThrough log n s) = lane_attached s" "sb_queuedBytes (writeEntriesThrough log n s) = sb_queuedBytes s"
  "sb_ended (writeEntriesThrough log n s) = sb_ended s"
  "lane_attached (s\<lparr>sb_queue := q\<rparr>) = lane_attached s" "lane_attached (s\<lparr>sb_queue := q, sb_queuedBytes := n\<rparr>) = lane_attached s"
  "lane_attached (writeLive f s) = lane_attached s" "sb_queuedBytes (writeLive f s) = sb_queuedBytes s"
  by (simp_all add: writeEntriesThrough_def writeLive_def send_frame_def lane_attached_def Let_def)

lemma attached_drain: "lane_attached s \<Longrightarrow> lane_attached (drain log s)"
proof (cases "sb_queue s")
  case (Cons f rest)
  assume "lane_attached s"
  then show ?thesis using Cons by (simp add: drain_def write_lane Let_def)
next
  case Nil
  assume "lane_attached s"
  moreover define s1 where "s1 = (if sb_ended s then s else writeEntriesThrough log (length log) s)"
  ultimately have "lane_attached s1" by (simp add: write_lane)
  then show ?thesis using Nil unfolding drain_def
    by (auto simp: s1_def [symmetric] attach_returns_fields lane_attached_def Let_def split: if_splits)
qed

lemma bounded_drain: "lane_bounded limits s \<Longrightarrow> lane_bounded limits (drain log s)"
  by (auto simp: drain_def write_lane attach_returns_fields lane_bounded_def Let_def split: list.split)

section \<open>The lane through a run\<close>

definition lane_inv :: "profile_limits \<Rightarrow> subscription \<Rightarrow> bool" where
  "lane_inv limits s \<longleftrightarrow> lane_bounded limits s \<and> lane_attached s"

lemma lane_pump: "lane_inv limits s \<Longrightarrow> lane_inv limits (sub_pump s)"
  by (auto simp: lane_inv_def lane_bounded_def lane_attached_def sub_pump_fields)

lemma lane_ended: "sb_ended (send_frame f (release (s\<lparr>sb_ended := True\<rparr>)))"
  by (simp add: send_frame_def release_fields)

lemma lane_release: "lane_inv limits (send_frame f (release (s\<lparr>sb_ended := True\<rparr>)))" "lane_inv limits (release (s\<lparr>sb_ended := True\<rparr>))"
  by (simp_all add: lane_inv_def lane_bounded_def lane_attached_def send_frame_def release_fields)

lemma lane_receive:
  assumes "lane_inv limits s" and "queue_live_ok log s" and "caught_up log s"
  shows "lane_inv limits (deliver (sub_receive limits bytes head items u s))"
  using assms bounded_calls(1) attached_receive by (simp add: lane_inv_def)

lemma lane_step:
  assumes "sub_step limits bytes w w'" and "sub_inv c0 w" and "lane_inv limits (sw_sub w)"
  shows "lane_inv limits (sw_sub w')"
  using assms
proof (cases rule: sub_step.cases)
  case (Drain s log)
  then show ?thesis using assms(3) bounded_drain attached_drain by (simp add: lane_inv_def)
next
  case (Live u log s items)
  then show ?thesis using assms(2,3) lane_receive [of limits s log] by (simp add: sub_inv_def)
next
  case (Notice log s items item)
  then show ?thesis using assms(2,3) lane_receive [of limits s log] by (simp add: sub_inv_def sub_notice_def deliver_def)
next
  case (End log s reason)
  then show ?thesis using assms(3) lane_release(1) by (simp add: sub_end_def Let_def)
next
  case (Dispose log s)
  then show ?thesis using assms(3) lane_release(2) by (simp add: sub_dispose_def)
qed (use assms(3) lane_pump in simp)

lemma lane_run:
  assumes "sub_run limits bytes w w'" and "sub_inv c0 w" and "lane_inv limits (sw_sub w)"
  shows "lane_inv limits (sw_sub w')"
proof -
  have "sub_inv c0 w' \<and> lane_inv limits (sw_sub w')"
    using assms unfolding sub_run_def by (induction rule: rtranclp_induct) (auto intro: sub_inv_step lane_step)
  then show ?thesis ..
qed

text \<open>A start leaves the lane attached, with its attach waiting for the pump its reset started.\<close>

lemma lane_start:
  assumes "sub_start limits bytes log generation items position (new_subscription live) = Inr s"
  shows "lane_inv limits s"
proof -
  let ?n = "new_subscription live"
  let ?first = "case position of AfterSnapshot \<Rightarrow> writeSnapshot limits log (length log) ?n
     | AfterOrdinal after g \<Rightarrow> if subscriptionSnapshots limits (length log) generation position
         then writeSnapshot limits log (length log) ?n else Inr (?n\<lparr>sb_cursor := after\<rparr>)"
  obtain s1 where first: "?first = Inr s1"
    and s1: "(if sb_live s1 then case attachLive limits bytes (length log) items s1 of
          (Some e, _) \<Rightarrow> Inl (StartAttach e) | (None, s2) \<Rightarrow> Inr (sub_pump s2) else Inr (sub_pump s1)) = Inr s"
    using assms unfolding sub_start_def by (cases ?first) auto
  have snap: "\<exists>state. t = (send_frame (SnapshotFrame n state) ?n)\<lparr>sb_cursor := n\<rparr>"
    if "writeSnapshot limits log n ?n = Inr t" for n t
    using that by (auto simp: writeSnapshot_def res_bind_Inr_iff)
  have "(\<exists>n state. s1 = (send_frame (SnapshotFrame n state) ?n)\<lparr>sb_cursor := n\<rparr>) \<or> (\<exists>n. s1 = ?n\<lparr>sb_cursor := n\<rparr>)"
    using first snap by (cases position) (simp_all split: if_splits, blast+)
  then have new: "sb_client s1 = None" "\<not> sb_pumping s1" "\<not> sb_ended s1" "\<not> sb_replacingLive s1" "sb_queuedBytes s1 = 0"
      "sb_detachLive s1 = None"
    by (auto simp: new_subscription_def send_frame_def)
  show ?thesis
  proof (cases "sb_live s1")
    case True
    then show ?thesis using assms s1 new attach_idle [OF new(1-4), of limits bytes "length log" items]
      by (auto simp: lane_inv_def lane_bounded_def lane_attached_def sub_pump_fields enqueue_live_def Let_def)
  next
    case False
    then show ?thesis using assms s1 new
      by (auto simp: lane_inv_def lane_bounded_def lane_attached_def sub_pump_fields)
  qed
qed

text \<open>Ending a live subscription detaches its client, unless its first attach has not returned.\<close>

lemma attached_drain_all: "lane_attached s \<Longrightarrow> lane_attached (drain_all fuel log s)"
  by (induction fuel arbitrary: s) (simp_all add: attached_drain)

lemma drain_fields:
  "sb_live (drain log s) = sb_live s" "sb_ended (drain log s) = sb_ended s" "sb_attaching s = None \<Longrightarrow> sb_attaching (drain log s) = None"
  by (auto simp: drain_def writeEntriesThrough_def writeLive_def send_frame_def attach_returns_fields Let_def split: list.split)

lemma drain_all_fields:
  "sb_live (drain_all fuel log s) = sb_live s" "sb_ended (drain_all fuel log s) = sb_ended s"
  "sb_attaching s = None \<Longrightarrow> sb_attaching (drain_all fuel log s) = None"
  by (induction fuel arbitrary: s) (simp_all add: drain_fields)

lemma released_detached:
  assumes "lane_attached s" and "sb_live s" and "\<not> sb_ended s" and "sb_attaching s = None"
  shows "sb_client (release (s\<lparr>sb_ended := True\<rparr>)) = None"
  using assms by (auto simp: lane_attached_def release_fields)

lemma ended_detached:
  assumes "lane_attached s" and "sb_live s" and "\<not> sb_ended s" and "sb_attaching s = None"
  shows "sb_client (sub_dispose s) = None \<and> sb_client (sub_end log reason s) = None"
proof -
  define s1 where "s1 = (if sb_pumping s then sub_pump s else drain_all (Suc (length (sb_queue s))) log (sub_pump s))"
  have p: "lane_attached (sub_pump s)" "sb_live (sub_pump s)" "\<not> sb_ended (sub_pump s)" "sb_attaching (sub_pump s) = None"
    using assms by (auto simp: sub_pump_fields lane_attached_def)
  then have "lane_attached s1" "sb_live s1" "\<not> sb_ended s1" "sb_attaching s1 = None"
    using attached_drain_all [OF p(1)] drain_all_fields by (simp_all add: s1_def del: drain_all.simps)
  from released_detached [OF this] have "sb_client (sub_end log reason s) = None"
    using assms(3) by (simp add: sub_end_def s1_def [symmetric] send_frame_def Let_def del: drain_all.simps)
  then show ?thesis using released_detached [OF assms] assms(3) by (simp add: sub_dispose_def)
qed

lemma write_sends: "\<exists>ps. sb_sent (writeEntriesThrough log n s) = sb_sent s @ ps \<and> no_live ps"
  by (auto simp: writeEntriesThrough_def send_frame_def no_live_def Let_def intro: exI [of _ "[]"])

lemma drain_sends:
  assumes "sb_queue s = f # rest" and "\<not> sb_ended s" and "ql_reset f"
  obtains ps where "sb_sent (drain log s) = sb_sent s @ ps @ [LiveFrame (ql_basedOn f) 1 True (ql_items f)]" "no_live ps"
proof -
  let ?s = "s\<lparr>sb_queue := rest, sb_queuedBytes := sb_queuedBytes s - ql_bytes f\<rparr>"
  obtain ps where "sb_sent (writeEntriesThrough log (ql_basedOn f) ?s) = sb_sent ?s @ ps" "no_live ps" using write_sends by blast
  then show ?thesis using assms by (intro that [of ps]) (simp_all add: drain_def writeLive_def send_frame_def Let_def)
qed

end
