(* ===== verification/Subscription_Correctness.thy ===== *)
theory Subscription_Correctness
  imports Subscription_Live
begin

text \<open>
  What a subscription promises its client, for every interleaving of commits, live updates and pump rounds.
\<close>

lemma started_run_inv:
  assumes "valid_log log" and "starts_at limits log generation position c0"
    and "sub_start limits bytes log generation items position (new_subscription live) = Inr s0"
    and "sub_run limits bytes \<lparr>sw_log = log, sw_sub = s0\<rparr> w"
  shows "sub_inv c0 w"
proof -
  obtain s where "sub_start limits bytes log generation items position (new_subscription live) = Inr s"
    "sub_inv c0 \<lparr>sw_log = log, sw_sub = s\<rparr>" by (rule sub_start_inv [OF assms(1,2)])
  then show ?thesis using assms(3) sub_inv_run [OF assms(4)] by simp
qed

section \<open>A sample subscription\<close>

definition sub_log :: "log_entry list" where
  "sub_log = take 4 sample_log"

definition sample_limits :: profile_limits where
  "sample_limits = \<lparr>pl_snapshotTail = 100, pl_maxReplay = 50, pl_liveQueueBytes = 2\<rparr>"

definition sample_sub :: subscription where
  "sample_sub =
     (case sub_start sample_limits length sub_log ''g'' [JNull] AfterSnapshot (new_subscription True) of
        Inr s \<Rightarrow> s | Inl _ \<Rightarrow> new_subscription True)"

definition sample_world :: sub_world where
  "sample_world = \<lparr>sw_log = sub_log, sw_sub = drain sub_log sample_sub\<rparr>"

lemma sample_valid: "valid_log sub_log"
proof -
  have "valid_log sample_log" using sample_fold sample_stored by (auto simp: valid_log_def)
  then show ?thesis unfolding sub_log_def by (rule valid_log_take)
qed

lemma sample_starts: "starts_at sample_limits sub_log ''g'' AfterSnapshot emptyClientState"
  by code_simp

lemma sample_started:
  "sub_start sample_limits length sub_log ''g'' [JNull] AfterSnapshot (new_subscription True) = Inr sample_sub"
proof -
  obtain s where "sub_start sample_limits length sub_log ''g'' [JNull] AfterSnapshot (new_subscription True) = Inr s"
    by (rule sub_start_inv [OF sample_valid sample_starts])
  then show ?thesis by (simp add: sample_sub_def)
qed

lemma sample_pumping: "sb_pumping sample_sub"
  by code_simp

lemma sample_run: "sub_run sample_limits length \<lparr>sw_log = sub_log, sw_sub = sample_sub\<rparr> sample_world"
  unfolding sub_run_def sample_world_def by (rule r_into_rtranclp, rule sub_step.Drain, rule sample_pumping)

lemma sample_sent:
  "sb_cursor (sw_sub sample_world) = 4 \<and> length (sb_queue (sw_sub sample_world)) = 0 \<and>
   sb_sent (sw_sub sample_world) = [hd (sb_sent (sw_sub sample_world))] @ LiveFrame 4 1 True [JNull] # []"
  by code_simp

lemma sample_not_ended: "\<not> sb_ended (drain_all 2 sub_log (sw_sub sample_world))"
  by code_simp

section \<open>What the client knows\<close>

text \<open>
  C36: The frames a subscription sends give its client the conversation. Whatever the log commits, whatever
  live updates arrive and however the writer's rounds interleave with them, the client that applies the
  frames sent so far never fails, is at the writer's cursor, and agrees with the kernel's fold of the log up
  to there on the leaf, the branch values, the name, the labels, the queue and the work.
\<close>

theorem subscription_delivers_log:
  assumes "valid_log log" and "starts_at limits log generation position c0"
    and "sub_start limits bytes log generation items position (new_subscription live) = Inr s0"
    and "sub_run limits bytes \<lparr>sw_log = log, sw_sub = s0\<rparr> w"
  shows "\<exists>c s. res_fold client_receive c0 (sb_sent (sw_sub w)) = Inr c \<and>
    fold_log (take (sb_cursor (sw_sub w)) (sw_log w)) emptyState = Inr s \<and>
    cs_ordinal c = sb_cursor (sw_sub w) \<and> cs_leafId c = st_leafId s \<and>
    cs_values c = context_values (st_context s) (st_planning s) \<and> cs_name c = st_name s \<and> cs_labels c = st_labels s \<and>
    cs_queue c = map (input_view (st_byId s))
      (sort_key (record_admission (st_byId s)) (filter input_open (js_values (st_inputs s)))) \<and>
    map core_item (js_values (cs_work c)) = map item_view (filter (retained (st_work s)) (js_values (st_work s)))"
proof -
  let ?n = "sb_cursor (sw_sub w)"
  have inv: "sub_inv c0 w" by (rule started_run_inv [OF assms])
  then have valid: "valid_log (sw_log w)" and n: "?n \<le> length (sw_log w)"
    and cl: "res_fold client_receive c0 (sb_sent (sw_sub w)) = Inr (client_at (sw_log w) ?n)"
    by (simp_all add: sub_inv_def sent_ok_def)
  obtain s where s: "fold_log (take ?n (sw_log w)) emptyState = Inr s"
    "client_sim (log_source (sw_log w)) s (client_at (sw_log w) ?n)" by (rule client_at_sim [OF valid n])
  note d = client_simD [OF s(2)]
  have inv': "tree_ok (st_byId s)" "inputs_ok (st_byId s) (st_inputs s)" "work_ok (st_ordinal s) (st_work s)"
    using fold_log_inv [OF s(1)] unfolding conv_inv_def tree_inv_def inputs_inv_def work_inv_def by blast+
  have ci: "queue_ok (cs_ordinal (client_at (sw_log w) ?n)) (cs_queue (client_at (sw_log w) ?n))"
    "client_work_ok (cs_ordinal (client_at (sw_log w) ?n)) (cs_work (client_at (sw_log w) ?n))"
    using d(7) by (simp_all add: client_inv_def)
  have "cs_leafId (client_at (sw_log w) ?n) = st_leafId s"
    "cs_values (client_at (sw_log w) ?n) = context_values (st_context s) (st_planning s)"
    using d(1) by (simp_all add: branch_sim_def)
  with cl s(1) client_at_ordinal [OF valid n] d(5,6) queue_sim_list [OF inv'(1) d(2) inv'(2) ci(1)]
    work_sim_list [OF d(3) inv'(3) ci(2)] show ?thesis by blast
qed

theorem subscription_delivers_log_witness:
  "\<exists>c s. res_fold client_receive emptyClientState (sb_sent (sw_sub sample_world)) = Inr c \<and>
     fold_log (take 4 sub_log) emptyState = Inr s \<and> cs_ordinal c = 4 \<and> cs_leafId c = st_leafId s \<and>
     cs_values c = context_values (st_context s) (st_planning s)"
proof -
  have log: "sw_log sample_world = sub_log" by (simp add: sample_world_def)
  show ?thesis
    using subscription_delivers_log [OF sample_valid sample_starts sample_started sample_run] sample_sent
    unfolding log by metis
qed

text \<open>
  A client never sees streaming state ahead of the entries it builds on: at every live frame the frames
  before it already cover the log position the frame was published at. Live frames are numbered from 1
  at each reset, without a gap.
\<close>

theorem live_after_entries:
  assumes "valid_log log" and "starts_at limits log generation position c0"
    and "sub_start limits bytes log generation items position (new_subscription live) = Inr s0"
    and "sub_run limits bytes \<lparr>sw_log = log, sw_sub = s0\<rparr> w"
    and "sb_sent (sw_sub w) = xs @ LiveFrame basedOn seq reset payload # ys"
  shows "basedOn \<le> position_after (cs_ordinal c0) xs \<and> seq = (if reset then 1 else Suc (last_seq 0 xs))"
proof -
  have "sub_inv c0 w" by (rule started_run_inv [OF assms(1-4)])
  then have "live_ok (cs_ordinal c0) 0 (xs @ LiveFrame basedOn seq reset payload # ys)"
    using assms(5) by (simp add: sub_inv_def sent_ok_def)
  then show ?thesis by (simp add: live_ok_append)
qed

theorem live_after_entries_witness:
  "4 \<le> position_after 0 [hd (sb_sent (sw_sub sample_world))]"
proof -
  have sent: "sb_sent (sw_sub sample_world) = [hd (sb_sent (sw_sub sample_world))] @ LiveFrame 4 1 True [JNull] # []"
    using sample_sent by blast
  show ?thesis
    using live_after_entries [OF sample_valid sample_starts sample_started sample_run sent] by (simp add: emptyClientState_def)
qed

text \<open>
  C37: A subscription catches up. When no pump runs, a subscription that has not ended has sent everything: its
  cursor is the head of the log and no live frame is queued; and a pump that nothing interrupts ends, after
  at most two rounds more than there are queued live frames.
\<close>

theorem subscription_catches_up:
  assumes "valid_log log" and "starts_at limits log generation position c0"
    and "sub_start limits bytes log generation items position (new_subscription live) = Inr s0"
    and "sub_run limits bytes \<lparr>sw_log = log, sw_sub = s0\<rparr> w"
  defines "s \<equiv> drain_all (Suc (Suc (length (sb_queue (sw_sub w))))) (sw_log w) (sw_sub w)"
  shows "\<not> sb_pumping s \<and> (\<not> sb_ended s \<longrightarrow> sb_cursor s = length (sw_log w) \<and> sb_queue s = [])"
proof -
  have inv: "sub_inv c0 w" by (rule started_run_inv [OF assms(1-4)])
  then have ok: "valid_log (sw_log w)" "sent_ok c0 (sw_log w) (sw_sub w)" "queue_live_ok (sw_log w) (sw_sub w)"
    "sb_pumping (sw_sub w) \<or> caught_up (sw_log w) (sw_sub w)" by (simp_all add: sub_inv_def)
  have "\<not> sb_pumping s"
  proof (cases "sb_pumping (sw_sub w)")
    case True
    then show ?thesis using drain_all_returns [OF ok(1-3)] by (simp add: s_def)
  qed (simp add: s_def)
  then show ?thesis using drain_all_keeps [OF ok, of "Suc (Suc (length (sb_queue (sw_sub w))))"]
    unfolding s_def [symmetric] by (auto simp: caught_up_def)
qed

theorem subscription_catches_up_witness:
  "\<not> sb_pumping (drain_all 2 sub_log (sw_sub sample_world)) \<and>
   sb_cursor (drain_all 2 sub_log (sw_sub sample_world)) = 4"
proof -
  have log: "sw_log sample_world = sub_log" "length sub_log = 4" by (simp_all add: sample_world_def sub_log_def sample_log_def)
  have two: "Suc (Suc (length (sb_queue (sw_sub sample_world)))) = 2" using sample_sent by simp
  show ?thesis
    using subscription_catches_up [OF sample_valid sample_starts sample_started sample_run] sample_not_ended unfolding log two by simp
qed

section \<open>The live lane\<close>

lemma started_run_lane:
  assumes "valid_log log" and "starts_at limits log generation position c0"
    and "sub_start limits bytes log generation items position (new_subscription live) = Inr s0"
    and "sub_run limits bytes \<lparr>sw_log = log, sw_sub = s0\<rparr> w"
  shows "lane_inv limits (sw_sub w)"
proof -
  have "sub_run limits bytes \<lparr>sw_log = log, sw_sub = s0\<rparr> \<lparr>sw_log = log, sw_sub = s0\<rparr>" by (simp add: sub_run_def)
  from lane_run [OF assms(4) started_run_inv [OF assms(1-3) this]] lane_start [OF assms(3)] show ?thesis by simp
qed

text \<open>
  C38: The live lane of a subscription stays bounded and attached. In every state a started subscription reaches,
  the bytes it counts are those of the frames it queues and at most \<open>liveQueueBytes\<close>; and until it ends, a live
  subscription is the live state's client under its id, by the attachment its \<open>detachLive\<close> detaches, or by the one
  that its first attach, still waiting for the pump it started, is about to return. Ending it detaches that client,
  once the first attach has returned.
\<close>

theorem live_lane_kept:
  assumes "valid_log log" and "starts_at limits log generation position c0"
    and "sub_start limits bytes log generation items position (new_subscription live) = Inr s0"
    and "sub_run limits bytes \<lparr>sw_log = log, sw_sub = s0\<rparr> w"
  defines "s \<equiv> sw_sub w"
  shows "sb_queuedBytes s = sum_list (map ql_bytes (sb_queue s)) \<and> sb_queuedBytes s \<le> pl_liveQueueBytes limits \<and>
    (sb_live s \<longrightarrow> \<not> sb_ended s \<longrightarrow>
       (\<exists>n. sb_client s = Some n \<and> (sb_detachLive s = Some n \<or> sb_attaching s = Some n \<and> sb_pumping s)) \<and>
       (sb_attaching s = None \<longrightarrow> sb_client (sub_dispose s) = None \<and> sb_client (sub_end (sw_log w) reason s) = None))"
proof -
  have inv: "sub_inv c0 w" by (rule started_run_inv [OF assms(1-4)])
  have lane: "lane_inv limits s" using started_run_lane [OF assms(1-4)] by (simp add: s_def)
  have "sb_client (sub_dispose s) = None \<and> sb_client (sub_end (sw_log w) reason s) = None"
    if "sb_live s" "\<not> sb_ended s" "sb_attaching s = None"
    using lane ended_detached [OF _ that] by (simp add: lane_inv_def)
  moreover have "sb_queuedBytes s = sum_list (map ql_bytes (sb_queue s))" using inv by (simp add: sub_inv_def queue_live_ok_def s_def)
  ultimately show ?thesis using lane by (auto simp: lane_inv_def lane_bounded_def lane_attached_def split: if_splits)
qed

text \<open>A pump that ran to its end, and a live update that started another one.\<close>

definition resumed_world :: sub_world where
  "resumed_world = \<lparr>sw_log = sub_log, sw_sub = deliver (sub_receive sample_limits length 4 [JNull]
     \<lparr>lu_basedOn = 4, lu_reset = False, lu_items = [JNull]\<rparr> (drain sub_log (drain sub_log (sw_sub sample_world))))\<rparr>"

lemma resumed_run: "sub_run sample_limits length \<lparr>sw_log = sub_log, sw_sub = sample_sub\<rparr> resumed_world"
proof -
  let ?s1 = "sw_sub sample_world"
  have running: "sb_pumping ?s1" "sb_pumping (drain sub_log ?s1)" and len: "length sub_log = 4" by code_simp+
  have "sub_step sample_limits length sample_world \<lparr>sw_log = sub_log, sw_sub = drain sub_log ?s1\<rparr>"
    using sub_step.Drain [OF running(1), of sample_limits length sub_log] by (simp add: sample_world_def)
  moreover note sub_step.Drain [OF running(2), of sample_limits length sub_log]
  moreover have "sub_step sample_limits length \<lparr>sw_log = sub_log, sw_sub = drain sub_log (drain sub_log ?s1)\<rparr> resumed_world"
    using sub_step.Live [of "\<lparr>lu_basedOn = 4, lu_reset = False, lu_items = [JNull]\<rparr>" sub_log sample_limits length _ "[JNull]"]
    by (simp add: resumed_world_def len)
  ultimately show ?thesis using sample_run unfolding sub_run_def by (meson rtranclp.rtrancl_into_rtrancl)
qed

lemma resumed_state:
  "sb_pumping (sw_sub resumed_world) \<and> \<not> sb_ended (sw_sub resumed_world) \<and> sb_live (sw_sub resumed_world) \<and>
   sb_attaching (sw_sub resumed_world) = None \<and> sw_log resumed_world = sub_log"
  by code_simp

theorem live_lane_kept_witness:
  "sb_attaching (sw_sub resumed_world) = None \<and> (\<exists>n. sb_client (sw_sub resumed_world) = Some n) \<and>
   sb_client (sub_end sub_log Unsubscribed (sw_sub resumed_world)) = None"
  using live_lane_kept [OF sample_valid sample_starts sample_started resumed_run] resumed_state by auto

text \<open>
  C39: When the queued live frames outgrow their bound, they are dropped and the subscription takes a fresh reset from
  the live state. In every state a started live subscription reaches, once its first attach has returned, an update
  that outgrows the bound leaves exactly one frame queued, a reset of the current live state, if that reset fits:
  nothing is thrown, the client is attached anew and can be detached, and the next live frame sent is the reset, with
  number 1.
\<close>

theorem overflow_takes_reset:
  assumes "valid_log log" and "starts_at limits log generation position c0"
    and "sub_start limits bytes log generation items position (new_subscription live) = Inr s0"
    and "sub_run limits bytes \<lparr>sw_log = log, sw_sub = s0\<rparr> w"
  defines "s \<equiv> sw_sub w"
  assumes "sb_live s" and "\<not> sb_ended s" and "sb_attaching s = None"
    and "pl_liveQueueBytes limits < sb_queuedBytes (enqueue_live bytes u s)" and "bytes current \<le> pl_liveQueueBytes limits"
  shows "\<exists>s' n ps. sub_receive limits bytes (length (sw_log w)) current u s = (None, s') \<and>
    sb_queue s' = [\<lparr>ql_basedOn = length (sw_log w), ql_reset = True, ql_items = current, ql_bytes = bytes current\<rparr>] \<and>
    sb_client s' = Some n \<and> sb_detachLive s' = Some n \<and> sb_client s \<noteq> Some n \<and>
    sb_sent (drain (sw_log w) s') = sb_sent s @ ps @ [LiveFrame (length (sw_log w)) 1 True current] \<and> no_live ps"
proof -
  have inv: "sub_inv c0 w" by (rule started_run_inv [OF assms(1-4)])
  then have q: "queue_live_ok (sw_log w) s" and up: "caught_up (sw_log w) s" by (simp_all add: sub_inv_def s_def)
  have "lane_attached s" using started_run_lane [OF assms(1-4)] by (simp add: s_def lane_inv_def)
  then obtain n where n: "\<not> sb_replacingLive s" "n < sb_attachments s" "sb_client s = Some n" "sb_detachLive s = Some n"
    using assms(6-8) by (auto simp: lane_attached_def)
  have run: "sb_pumping s" by (rule overflow_pumping [OF q up assms(7,9)])
  let ?r = "\<lparr>ql_basedOn = length (sw_log w), ql_reset = True, ql_items = current, ql_bytes = bytes current\<rparr>"
  obtain s' where s': "sub_receive limits bytes (length (sw_log w)) current u s = (None, s')" "sb_queue s' = [?r]"
    "sb_client s' = Some (sb_attachments s)" "sb_detachLive s' = Some (sb_attachments s)" "sb_sent s' = sb_sent s" "\<not> sb_ended s'"
    using receive_replaces [OF assms(7) n(1,3,4,2) run assms(9), of "length (sw_log w)" current] assms(7,10) by simp
  obtain ps where "sb_sent (drain (sw_log w) s') = sb_sent s' @ ps @ [LiveFrame (length (sw_log w)) 1 True current]" "no_live ps"
    using drain_sends [OF s'(2,6), of "sw_log w"] by auto
  with s' n(2,3) show ?thesis by force
qed

theorem overflow_takes_reset_witness:
  "\<exists>s'. sub_receive sample_limits length 4 [JNull] \<lparr>lu_basedOn = 4, lu_reset = False, lu_items = [JNull, JNull, JNull]\<rparr>
     (sw_sub resumed_world) = (None, s') \<and>
     sb_queue s' = [\<lparr>ql_basedOn = 4, ql_reset = True, ql_items = [JNull], ql_bytes = 1\<rparr>]"
proof -
  let ?u = "\<lparr>lu_basedOn = 4, lu_reset = False, lu_items = [JNull, JNull, JNull]\<rparr>"
  have over: "pl_liveQueueBytes sample_limits < sb_queuedBytes (enqueue_live length ?u (sw_sub resumed_world))"
    and fits: "length [JNull] \<le> pl_liveQueueBytes sample_limits" and log: "length (sw_log resumed_world) = 4" by code_simp+
  show ?thesis
    using overflow_takes_reset [OF sample_valid sample_starts sample_started resumed_run _ _ _ over fits] resumed_state
    unfolding log by auto
qed

end
