(* ===== verification/Bounded_Snapshot.thy ===== *)
theory Bounded_Snapshot
  imports Subscription_Correctness
begin

text \<open>
  A bounded snapshot carries only the newest entries of the active branch. A client restored from it follows
  the conversation like one that folded the whole log, except that leaving the branch re-derives the branch
  values from the values at the snapshot's leaf.
\<close>

section \<open>The tail of the active branch restores\<close>

lemma path_entries_sorted:
  assumes ok: "tree_ok tree" and "known tree i" and "pathTo tree i = Some is"
  shows "sorted_by e_ordinal (path_entries tree is) \<and> (\<forall>j e. i = Some j \<longrightarrow> js_get tree j = Some e \<longrightarrow>
    (\<forall>f \<in> set (path_entries tree is). e_ordinal f \<le> e_ordinal e)) \<and>
    (\<forall>f \<in> set (path_entries tree is). js_get tree (e_id f) = Some f)"
  using ok assms(2,3)
proof (induction arbitrary: "is" rule: path_induct)
  case Root
  then show ?case by (simp add: path_entries_def)
next
  case (Step i e)
  have "known tree (Some i)" using Step.hyps by (simp add: known_def)
  from pathTo_Some_cases [OF ok this Step.prems] Step.hyps
  obtain js where js: "pathTo tree (e_parentId e) = Some js" "is = js @ [i]" by auto
  note IH = Step.IH [OF js(1)]
  have less: "e_ordinal f < e_ordinal e" if f: "f \<in> set (path_entries tree js)" for f
  proof (cases "e_parentId e")
    case None
    then show ?thesis using f js(1) by (simp add: path_entries_def)
  next
    case (Some p)
    then obtain q where q: "js_get tree p = Some q" "e_ordinal q < e_ordinal e" using tree_ok_parent [OF ok Step.hyps] by metis
    then have "e_ordinal f \<le> e_ordinal q" using IH Some f by blast
    with q(2) show ?thesis by simp
  qed
  have id: "e_id e = i" by (rule tree_ok_id [OF ok Step.hyps])
  show ?case unfolding js(2) path_entries_snoc_get [OF Step.hyps]
    using IH less Step.hyps id by (auto simp: sorted_by_append intro: less_imp_le)
qed

lemma slice_last_suffix: "\<exists>pre. xs = pre @ slice_last n xs"
  by (metis append_Nil append_take_drop_id slice_last_def)

text \<open>What a client restored from part of the entries still shares with the one that holds them all.\<close>

definition agrees :: "client_state \<Rightarrow> client_state \<Rightarrow> bool" where
  "agrees c r \<longleftrightarrow>
     cs_ordinal r = cs_ordinal c \<and> cs_leafId r = cs_leafId c \<and> cs_name r = cs_name c \<and> cs_labels r = cs_labels c \<and>
     cs_queue r = cs_queue c \<and> cs_forkedFrom r = cs_forkedFrom c \<and> cs_work r = cs_work c \<and>
     set (js_keys (cs_byId r)) \<subseteq> set (js_keys (cs_byId c))"

lemma restore_part:
  assumes inv: "client_inv c" and es: "sorted_by pe_ordinal es" "distinct (map pe_id es)"
    "\<forall>e \<in> set es. 0 < pe_ordinal e \<and> pe_ordinal e \<le> cs_ordinal c" and ids: "pe_id ` set es \<subseteq> set (js_keys (cs_byId c))"
  obtains r where "clientRestore (cs_ordinal c) (clientSnapshotWith c es earlier) = Inr r" "agrees c r" "cs_values r = cs_values c"
proof -
  obtain last where fold: "res_fold (restore_entry (cs_ordinal c)) ([], [], 0) es = Inr (es, map (\<lambda>e. (pe_id e, e)) es, last)"
    using restore_entries [OF es(1,2), of 0 "cs_ordinal c" "[]" "[]"] es(3) by auto
  define r where "r = c\<lparr>cs_entries := es, cs_byId := map (\<lambda>e. (pe_id e, e)) es, cs_earlier := earlier,
      cs_base := (if earlier then cs_values c else DEFAULT_CLIENT_BRANCH_VALUES)\<rparr>"
  have "clientRestore (cs_ordinal c) (clientSnapshotWith c es earlier) = Inr r"
    unfolding r_def by (rule restore_snapshot_with [OF inv fold])
  moreover have "agrees c r" using ids by (auto simp: agrees_def r_def js_keys_def)
  ultimately show ?thesis using that by (simp add: r_def)
qed

section \<open>Following the conversation\<close>

text \<open>The entries that extend the branch from a leaf, or leave it where it is.\<close>

fun stays_on_branch :: "entry_id option \<Rightarrow> projected_entry list \<Rightarrow> bool" where
  "stays_on_branch leaf [] = True"
| "stays_on_branch leaf (p # ps) =
     (if pe_type p = TLeaf
      then (case pe_payload p of Some (Leaf t) \<Rightarrow> t = leaf | _ \<Rightarrow> True) \<and> stays_on_branch leaf ps
      else if isPublicProjectedEntryType (pe_type p)
      then pe_parentId p = leaf \<and> stays_on_branch (Some (pe_id p)) ps
      else stays_on_branch leaf ps)"

lemma client_move_leaf:
  "cs_leafId (client_move p c) =
     (if pe_type p = TLeaf then (case pe_payload p of Some (Leaf t) \<Rightarrow> t | _ \<Rightarrow> cs_leafId c)
      else if isPublicProjectedEntryType (pe_type p) then Some (pe_id p) else cs_leafId c)"
  by (simp add: client_move_def client_moveLeaf_def client_appendToBranch_def rederive_def Let_def
      split: option.split entry_body.split)

lemma client_move_stays:
  assumes "stays_on_branch (cs_leafId c) (p # ps)" and "cs_leafId r = cs_leafId c" and "cs_values r = cs_values c"
  shows "cs_values (client_move p r) = cs_values (client_move p c)" "stays_on_branch (cs_leafId (client_move p c)) ps"
proof -
  show "cs_values (client_move p r) = cs_values (client_move p c)"
    using assms by (auto simp: client_move_def client_moveLeaf_def client_appendToBranch_def Let_def
        split: option.split entry_body.split if_splits)
  show "stays_on_branch (cs_leafId (client_move p c)) ps"
    using assms(1) by (auto simp: client_move_leaf split: option.splits entry_body.splits if_splits)
qed

lemma agrees_apply:
  assumes ag: "agrees c r" and app: "client_apply c p = Inr c'"
  obtains r' where "client_apply r p = Inr r'" "agrees c' r'"
    "stays_on_branch (cs_leafId c) (p # ps) \<and> cs_values r = cs_values c \<longrightarrow>
       cs_values r' = cs_values c' \<and> stays_on_branch (cs_leafId c') ps"
proof -
  note d = client_applyD [OF app]
  have fresh: "pe_id p \<notin> set (js_keys (cs_byId r))" "cs_ordinal r < pe_ordinal p" using ag d(1,2) by (auto simp: agrees_def)
  then obtain r' where r': "client_apply r p = Inr r'" by (simp add: client_apply_def js_has_iff_keys Let_def)
  note e = client_applyD [OF r']
  let ?u = "\<lambda>x. applyRecords p (x\<lparr>cs_entries := cs_entries x @ [p], cs_byId := cs_byId x @ [(pe_id p, p)]\<rparr>)"
  have u: "cs_leafId (?u x) = cs_leafId x" "cs_values (?u x) = cs_values x" for x by (simp_all add: applyRecords_def)
  have lf: "cs_leafId c' = cs_leafId (client_move p (?u c))" "cs_leafId r' = cs_leafId (client_move p (?u r))"
    "cs_values c' = cs_values (client_move p (?u c))" "cs_values r' = cs_values (client_move p (?u r))"
    using d(10) e(10) by simp_all
  have "agrees c' r'"
    unfolding agrees_def lf client_move_leaf u d(4,5,6,7) e(4,5,6,7) using ag d(10) e(10)
    by (auto simp: agrees_def applyRecords_def cong: entry_type.case_cong option.case_cong entry_body.case_cong)
  moreover have "cs_values r' = cs_values c' \<and> stays_on_branch (cs_leafId c') ps"
    if "stays_on_branch (cs_leafId c) (p # ps)" "cs_values r = cs_values c"
    using client_move_stays [of "?u c" p ps "?u r"] that ag u lf by (simp add: agrees_def)
  ultimately show ?thesis using that r' by blast
qed

lemma agrees_fold:
  assumes "agrees c r" and "res_fold client_apply c ps = Inr c'"
  obtains r' where "res_fold client_apply r ps = Inr r'" "agrees c' r'"
    "stays_on_branch (cs_leafId c) ps \<and> cs_values r = cs_values c \<longrightarrow> cs_values r' = cs_values c'"
  using assms
proof (induction ps arbitrary: c r thesis)
  case Nil
  then show ?case by auto
next
  case (Cons p ps)
  from Cons.prems(3) obtain d where d: "client_apply c p = Inr d" "res_fold client_apply d ps = Inr c'" by (auto simp: res_bind_Inr_iff)
  obtain q where q: "client_apply r p = Inr q" "agrees d q"
    "stays_on_branch (cs_leafId c) (p # ps) \<and> cs_values r = cs_values c \<longrightarrow>
       cs_values q = cs_values d \<and> stays_on_branch (cs_leafId d) ps"
    by (rule agrees_apply [OF Cons.prems(2) d(1), where ps = ps])
  obtain r' where r': "res_fold client_apply q ps = Inr r'" "agrees c' r'"
    "stays_on_branch (cs_leafId d) ps \<and> cs_values q = cs_values d \<longrightarrow> cs_values r' = cs_values c'"
    by (rule Cons.IH [OF _ q(2) d(2)])
  show ?case using Cons.prems(1) [of r'] q(1,3) r' by simp
qed

section \<open>Bounded snapshots\<close>

lemma client_at_extend:
  assumes "valid_log (log @ es)"
  obtains c' where "clientFold (projectLog (log_source (log @ es)) es) (client_at log (length log)) = Inr c'"
proof (cases "es = []")
  case True
  then show ?thesis using that by (simp add: projectLog_def clientFold_def)
next
  case False
  let ?ps = "projectLog (log_source (log @ es)) es" and ?n = "length log"
  have less: "?n < length (log @ es)" using False by simp
  from written_frames [OF assms less order_refl] client_at_grow [OF assms order_refl]
  obtain c' where "res_fold client_receive (client_at log ?n) (map EntryOut ?ps) = Inr c'"
    by (auto simp: res_fold_append res_bind_Inr_iff)
  then show ?thesis using that by (simp add: fold_receive_entries clientFold_def)
qed

lemma active_branch_part:
  assumes inv: "conv_inv s" and sim: "client_sim source s c" and p: "ps = slice_last n (clientActiveBranch c)"
  shows "sorted_by pe_ordinal ps" "distinct (map pe_id ps)" "\<forall>x \<in> set ps. 0 < pe_ordinal x \<and> pe_ordinal x \<le> st_ordinal s"
    "pe_id ` set ps \<subseteq> set (js_keys (cs_byId c))" "project_carried source ps = Inr ps"
proof -
  let ?path = "path_entries (st_byId s) (st_branch s)"
  have ok: "tree_ok (st_byId s)" and ord: "st_ordinal s = length (st_byId s)" and pub: "public_leaf (st_byId s) (st_leafId s)"
    and path: "pathTo (st_byId s) (st_leafId s) = Some (st_branch s)"
    using inv by (simp_all add: conv_inv_def tree_inv_def branch_inv_def public_leaf_def)
  have tree: "tree_sim source (st_byId s) (cs_byId c)" using client_simD(1) [OF sim] by (simp add: branch_sim_def)
  note sorted = path_entries_sorted [OF ok public_leaf_known [OF pub] path]
  have inc: "\<forall>e \<in> set ?path. local_includes e" by (rule path_entries_public [OF ok tree public_leaf_known [OF pub] pub path])
  have proj: "projectFoldEntry source e = Some (projected source e)" if "e \<in> set ?path" for e
    using projectFoldEntry_included [of e source] inc that by (auto simp: projected_def)
  have same: "pe_ordinal (projected source e) = e_ordinal e" "pe_id (projected source e) = e_id e" if "e \<in> set ?path" for e
    using projectFoldEntry_Some [OF proj [OF that]] by simp_all
  obtain pre where pre: "clientActiveBranch c = pre @ ps" using slice_last_suffix p by metis
  have branch: "clientActiveBranch c = map (projected source) ?path" by (rule client_sim_branch [OF inv sim])
  have "sorted_by pe_ordinal (clientActiveBranch c)"
    unfolding branch sorted_by_map
    using sorted sorted_by_cong [of ?path "\<lambda>e. pe_ordinal (projected source e)" e_ordinal] same(1) by blast
  then show "sorted_by pe_ordinal ps" unfolding pre by (simp add: sorted_by_append)
  have "inj_on e_id (set ?path)" using sorted by (metis inj_onI option.inject)
  then have "distinct (map e_id ?path)" using sorted sorted_by_distinct by (auto simp: distinct_map)
  moreover have "map pe_id (clientActiveBranch c) = map e_id ?path" unfolding branch using same(2) by simp
  ultimately have "distinct (map pe_id (pre @ ps))" using pre by simp
  then show "distinct (map pe_id ps)" by simp
  have mem: "\<exists>e \<in> set ?path. x = projected source e" if "x \<in> set ps" for x
    using that pre branch by (metis Un_iff image_iff list.set_map set_append)
  show "\<forall>x \<in> set ps. 0 < pe_ordinal x \<and> pe_ordinal x \<le> st_ordinal s"
  proof
    fix x assume "x \<in> set ps"
    then obtain e where e: "e \<in> set ?path" "x = projected source e" using mem by blast
    then have "js_get (st_byId s) (e_id e) = Some e" using sorted by blast
    from tree_ok_ordinal [OF ok this] e same(1) show "0 < pe_ordinal x \<and> pe_ordinal x \<le> st_ordinal s" by (simp add: ord)
  qed
  have held: "js_get source (pe_id x) = Some e \<and> projectFoldEntry source e = Some x \<and> js_get (cs_byId c) (pe_id x) = Some x"
    if "e \<in> set ?path" "x = projected source e" for x e
  proof -
    have get: "js_get (st_byId s) (e_id e) = Some e" using sorted that(1) by blast
    show ?thesis using tree_simD(2,3) [OF tree get] proj [OF that(1)] same(2) [OF that(1)] that(2) by simp
  qed
  show "pe_id ` set ps \<subseteq> set (js_keys (cs_byId c))" using held mem js_get_Some_key by fastforce
  show "project_carried source ps = Inr ps" using held mem by (intro project_carried_id) blast
qed

lemma bounded_restore:
  assumes valid: "valid_log log"
  obtains sn r where "logSnapshot limits log (length log) = Inr sn" "clientRestore (length log) sn = Inr r"
    "agrees (client_at log (length log)) r" "cs_values r = cs_values (client_at log (length log))"
proof (cases "length (projectLog (log_source log) log) \<le> pl_snapshotTail limits")
  case True
  obtain sn where "logSnapshot limits log (length log) = Inr sn" "clientRestore (length log) sn = Inr (client_at log (length log))"
    by (rule snapshot_unbounded [OF valid True])
  then show ?thesis using that by (simp add: agrees_def)
next
  case False
  let ?n = "length log" and ?src = "log_source log"
  obtain s where s: "fold_log (take ?n log) emptyState = Inr s" "client_sim ?src s (client_at log ?n)" "st_ordinal s = ?n"
    by (rule client_at_sim [OF valid order_refl])
  obtain k where k: "clientFold (projectLog ?src (take ?n log)) emptyClientState = Inr k" "client_at log ?n = k\<lparr>cs_ordinal := ?n\<rparr>"
    by (rule client_at_fold [OF valid order_refl])
  let ?c = "client_at log ?n" and ?ps = "slice_last (pl_snapshotTail limits) (clientActiveBranch (client_at log ?n))"
  note part = active_branch_part [OF fold_log_inv [OF s(1)] s(2) refl, of "pl_snapshotTail limits"]
  have entries: "cs_entries k = projectLog ?src log"
    using client_fold_entries [of emptyClientState "projectLog ?src log" k] k(1) by (simp add: clientFold_def emptyClientState_def)
  have same: "clientActiveBranch k = clientActiveBranch ?c" "clientSnapshotWith k es e = clientSnapshotWith ?c es e" for es e
    using k(2) by (simp_all add: clientActiveBranch_def clientSnapshotWith_def)
  have snap: "logSnapshot limits log ?n = Inr (clientSnapshotWith ?c ?ps True)"
    using k(1) entries False part(5) same by (simp add: logSnapshot_def committedEntries_all Let_def)
  have ord: "cs_ordinal ?c = ?n" by (rule client_at_ordinal [OF valid order_refl])
  obtain r where "clientRestore (cs_ordinal ?c) (clientSnapshotWith ?c ?ps True) = Inr r" "agrees ?c r" "cs_values r = cs_values ?c"
    using restore_part [OF client_simD(7) [OF s(2)] part(1,2) _ part(4)] part(3) ord s(3) by metis
  with snap ord show ?thesis using that by simp
qed

text \<open>
  C40: A client restored from a snapshot, however few entries it carries, follows the conversation: every
  later entry is accepted and it agrees with a client that holds every entry on the leaf, the name, the
  labels, the queue, the fork lineage and the work; on the branch values too as long as the conversation
  stays on its branch.
\<close>

theorem bounded_snapshot_follows:
  assumes "valid_log (log @ es)"
  shows "\<exists>sn r r' c'. logSnapshot limits log (length log) = Inr sn \<and> clientRestore (length log) sn = Inr r \<and>
    clientFold (projectLog (log_source (log @ es)) es) r = Inr r' \<and>
    clientFold (projectLog (log_source (log @ es)) es) (client_at log (length log)) = Inr c' \<and>
    cs_leafId r' = cs_leafId c' \<and> cs_name r' = cs_name c' \<and> cs_labels r' = cs_labels c' \<and> cs_queue r' = cs_queue c' \<and>
    cs_forkedFrom r' = cs_forkedFrom c' \<and> cs_work r' = cs_work c' \<and>
    (stays_on_branch (cs_leafId r) (projectLog (log_source (log @ es)) es) \<longrightarrow> cs_values r' = cs_values c')"
proof -
  let ?c = "client_at log (length log)" and ?ps = "projectLog (log_source (log @ es)) es"
  obtain sn r where r: "logSnapshot limits log (length log) = Inr sn" "clientRestore (length log) sn = Inr r"
    "agrees ?c r" "cs_values r = cs_values ?c" by (rule bounded_restore [OF valid_log_prefix [OF assms]])
  obtain c' where c': "clientFold ?ps ?c = Inr c'" by (rule client_at_extend [OF assms])
  obtain r' where r': "res_fold client_apply r ?ps = Inr r'" "agrees c' r'"
    "stays_on_branch (cs_leafId ?c) ?ps \<and> cs_values r = cs_values ?c \<longrightarrow> cs_values r' = cs_values c'"
    using agrees_fold [OF r(3)] c' by (auto simp: clientFold_def)
  have "cs_leafId r = cs_leafId ?c" using r(3) by (simp add: agrees_def)
  then show ?thesis using r c' r' unfolding agrees_def clientFold_def by auto
qed

theorem bounded_snapshot_follows_witness:
  "\<exists>sn r r' c'. logSnapshot (sample_limits\<lparr>pl_snapshotTail := 1\<rparr>) sub_log 4 = Inr sn \<and> clientRestore 4 sn = Inr r \<and>
     clientFold (projectLog (log_source (take 6 sample_log)) (take 2 (drop 4 sample_log))) r = Inr r' \<and>
     clientFold (projectLog (log_source (take 6 sample_log)) (take 2 (drop 4 sample_log))) (client_at sub_log 4) = Inr c' \<and>
     cs_queue r' = cs_queue c' \<and> cs_leafId r' = cs_leafId c'"
proof -
  have split: "take 6 sample_log = sub_log @ take 2 (drop 4 sample_log)" by (simp add: sub_log_def sample_log_def)
  have len: "length sub_log = 4" by (simp add: sub_log_def sample_log_def)
  have "valid_log sample_log" using sample_fold sample_stored by (auto simp: valid_log_def)
  then have "valid_log (sub_log @ take 2 (drop 4 sample_log))" unfolding split [symmetric] by (rule valid_log_take)
  from bounded_snapshot_follows [OF this, of "sample_limits\<lparr>pl_snapshotTail := 1\<rparr>"] show ?thesis
    unfolding split len by blast
qed

text \<open>
  Leaving the branch is where the two part: a snapshot that carries only a model change re-derives the values
  of an earlier entry from the model it carries, where the conversation had none.
\<close>

definition moved_log :: "log_entry list" where
  "moved_log =
     [sample_entry 1 ''a'' None Public (Message (UserMessage sample_user) None),
      sample_entry 2 ''b'' (Some ''a'') Public (ModelChange ''p'' ''m2'')]"

definition moved_back :: "log_entry list" where
  "moved_back = [sample_entry 3 ''c'' (Some ''b'') Host (Leaf (Some ''a''))]"

theorem bounded_restore_keeps_model:
  "(case logSnapshot (sample_limits\<lparr>pl_snapshotTail := 1\<rparr>) moved_log 2 of
      Inl _ \<Rightarrow> None
    | Inr sn \<Rightarrow> (case clientRestore 2 sn of
          Inl _ \<Rightarrow> None
        | Inr r \<Rightarrow> (case clientFold (projectLog (log_source (moved_log @ moved_back)) moved_back) r of
              Inl _ \<Rightarrow> None | Inr r' \<Rightarrow> Some (cs_leafId r', bv_model (cs_values r'))))) =
     Some (Some ''a'', Some (''p'', ''m2'')) \<and>
   (case clientFold (projectLog (log_source (moved_log @ moved_back)) (moved_log @ moved_back)) emptyClientState of
      Inl _ \<Rightarrow> None | Inr c \<Rightarrow> Some (cs_leafId c, bv_model (cs_values c))) = Some (Some ''a'', None)"
  by code_simp

end
