(* ===== verification/Json_Text.thy ===== *)
theory Json_Text
  imports Entry_Json
begin

text \<open>
  What the session store uses of the standard library: \<^verbatim>\<open>JSON.stringify\<close> as \<open>json_text\<close>, the UTF-8 length
  \<^verbatim>\<open>Buffer.byteLength\<close> as \<open>utf8_length\<close>, and \<^verbatim>\<open>Date.prototype.toISOString\<close> as \<open>toISOString\<close>. A \<open>char\<close> is a code
  point below 256: one byte in UTF-8 below 128, otherwise two. Byte counts are \<open>int\<close>.
\<close>

section \<open>Decimal numbers\<close>

definition digit :: "int \<Rightarrow> char" where
  "digit n = char_of (48 + nat (n mod 10))"

fun decimal_digits :: "nat \<Rightarrow> int \<Rightarrow> string" where
  "decimal_digits 0 n = []"
| "decimal_digits (Suc k) n = decimal_digits k (n div 10) @ [digit n]"

function decimal_width :: "int \<Rightarrow> nat" where
  "decimal_width n = (if n < 10 then 1 else Suc (decimal_width (n div 10)))"
  by pat_completeness auto
termination by (relation "measure nat") auto

declare decimal_width.simps [simp del]

definition int_text :: "int \<Rightarrow> string" where
  "int_text n =
     (if n < 0 then CHR ''-'' # decimal_digits (decimal_width (- n)) (- n) else decimal_digits (decimal_width n) n)"

definition padded :: "nat \<Rightarrow> int \<Rightarrow> string" where
  "padded w n = decimal_digits w n"

section \<open>JSON text\<close>

definition hex_digit :: "nat \<Rightarrow> char" where
  "hex_digit n = (if n < 10 then char_of (48 + n) else char_of (87 + n))"

definition escape_char :: "char \<Rightarrow> string" where
  "escape_char c =
     (let n = of_char c :: nat in
      if n = 34 then [CHR 0x5C, CHR 0x22] else if n = 92 then [CHR 0x5C, CHR 0x5C]
      else if n = 8 then [CHR 0x5C, CHR ''b''] else if n = 9 then [CHR 0x5C, CHR ''t'']
      else if n = 10 then [CHR 0x5C, CHR ''n''] else if n = 12 then [CHR 0x5C, CHR ''f'']
      else if n = 13 then [CHR 0x5C, CHR ''r'']
      else if n < 32 then [CHR 0x5C, CHR ''u'', CHR ''0'', CHR ''0'', hex_digit (n div 16), hex_digit (n mod 16)]
      else [c])"

definition string_text :: "string \<Rightarrow> string" where
  "string_text s = CHR 0x22 # concat (map escape_char s) @ [CHR 0x22]"

fun joined :: "string \<Rightarrow> string list \<Rightarrow> string" where
  "joined sep [] = []"
| "joined sep [x] = x"
| "joined sep (x # y # xs) = x @ sep @ joined sep (y # xs)"

fun json_text :: "json \<Rightarrow> string" where
  "json_text JNull = ''null''"
| "json_text (JBool b) = (if b then ''true'' else ''false'')"
| "json_text (JNum n) = int_text n"
| "json_text (JStr s) = string_text s"
| "json_text (JArr xs) = ''['' @ joined '','' (map json_text xs) @ '']''"
| "json_text (JObj fs) = ''{'' @ joined '','' (map (\<lambda>(k, v). string_text k @ '':'' @ json_text v) fs) @ ''}''"

definition utf8_length :: "string \<Rightarrow> int" where
  "utf8_length s = sum_list (map (\<lambda>c. if (of_char c :: nat) < 128 then 1 else 2) s)"

lemma utf8_length_nonneg [simp]: "0 \<le> utf8_length s"
  unfolding utf8_length_def by (rule sum_list_nonneg) auto

section \<open>Dates\<close>

text \<open>
  The proleptic Gregorian date of a day count since 1970-01-01, by cycles of 400 years that start on the
  first of March.
\<close>

definition civil_from_days :: "int \<Rightarrow> int \<times> int \<times> int" where
  "civil_from_days d =
     (let z = d + 719468; era = z div 146097; doe = z mod 146097;
          yoe = (doe - doe div 1460 + doe div 36524 - doe div 146096) div 365;
          doy = doe - (365 * yoe + yoe div 4 - yoe div 100);
          mp = (5 * doy + 2) div 153;
          day = doy - (153 * mp + 2) div 5 + 1;
          month = (if mp < 10 then mp + 3 else mp - 9)
      in (yoe + era * 400 + (if month \<le> 2 then 1 else 0), month, day))"

definition year_text :: "int \<Rightarrow> string" where
  "year_text y =
     (if 0 \<le> y \<and> y \<le> 9999 then padded 4 y
      else if y < 0 then CHR ''-'' # padded 6 (- y) else CHR ''+'' # padded 6 y)"

definition toISOString :: "int \<Rightarrow> string" where
  "toISOString ms =
     (let (y, mo, d) = civil_from_days (ms div 86400000); r = ms mod 86400000
      in year_text y @ ''-'' @ padded 2 mo @ ''-'' @ padded 2 d @ ''T'' @ padded 2 (r div 3600000) @ '':'' @
         padded 2 (r div 60000 mod 60) @ '':'' @ padded 2 (r div 1000 mod 60) @ ''.'' @ padded 3 (r mod 1000) @ ''Z'')"

end
