(* ===== verification/Session_Projection.thy ===== *)
theory Session_Projection
  imports Conversation_Fold Json_Text
begin

text \<open>
  What a session log derives beside its entries (\<^verbatim>\<open>core/session-store/projection.ts\<close>): the session's list
  row, its client inputs and its search text, as the record \<open>derived_state\<close> and the reducer
  \<open>applySessionEntry\<close>; and the checks the store makes of a transaction's projections.

  A stored entry is a log entry without its visibility, which its type determines
  (\<^verbatim>\<open>conversation-log/entry-codec.ts\<close>). A client input row has the fields of the fold's
  \<open>client_input_record\<close>; absent values are \<open>None\<close> whether the row has \<^verbatim>\<open>null\<close> or the record no property.

  \<open>store_env\<close> holds what is not modelled: the SHA-256 digests of a transaction payload and of a client
  input, the field checks of the entry codec, the length checks of the tables, and the real path of a
  working directory.
\<close>

section \<open>Stored entries\<close>

record session_entry =
  se_ordinal :: nat
  se_id :: entry_id
  se_parentId :: "entry_id option"
  se_timestamp :: string
  se_body :: entry_body

definition PRODUCT_SESSION_ENTRY_TYPES :: "string list" where
  "PRODUCT_SESSION_ENTRY_TYPES =
     [''session_start_git_context'', ''pr_review_binding'', ''review_general'', ''review_alias'',
      ''review_discussion'', ''review_discussion_reset'', ''review_discussion_link'']"

fun entryShape :: "entry_body \<Rightarrow> visibility option" where
  "entryShape (Product name _) = (if name \<in> set PRODUCT_SESSION_ENTRY_TYPES then Some Host else None)"
| "entryShape b = core_visibility b"

definition isHostOnlySessionEntryType :: "entry_body \<Rightarrow> bool" where
  "isHostOnlySessionEntryType b \<longleftrightarrow> entryShape b = Some Host"

datatype codec_error = NotStored | WrongVisibility | InvalidEntry

definition toSessionEntry :: "(session_entry \<Rightarrow> bool) \<Rightarrow> entry_draft \<Rightarrow> nat \<Rightarrow> codec_error + session_entry" where
  "toSessionEntry persisted d ordinal =
     (case entryShape (d_body d) of
        None \<Rightarrow> Inl NotStored
      | Some v \<Rightarrow>
          if d_visibility d \<noteq> v then Inl WrongVisibility
          else
            let e = \<lparr>se_ordinal = ordinal, se_id = d_id d, se_parentId = d_parentId d,
                     se_timestamp = d_timestamp d, se_body = d_body d\<rparr>
            in if persisted e then Inr e else Inl InvalidEntry)"

definition toLogEntry :: "session_entry \<Rightarrow> log_entry" where
  "toLogEntry e =
     \<lparr>e_ordinal = se_ordinal e, e_id = se_id e, e_parentId = se_parentId e, e_timestamp = se_timestamp e,
      e_visibility = (case entryShape (se_body e) of Some v \<Rightarrow> v | None \<Rightarrow> Host), e_body = se_body e\<rparr>"

section \<open>The derived state\<close>

record message_summary =
  ms_count :: nat
  ms_firstUserMessage :: string
  ms_firstFallbackMessage :: string
  ms_lastActivityTime :: "int option"

record search_chunk =
  sc_chunkIndex :: nat
  sc_entryId :: entry_id
  sc_text :: string

text \<open>The starting Git context is absent, null or a value.\<close>

record derived_state =
  ds_headerTimestamp :: string
  ds_messageSummary :: message_summary
  ds_hasPlanningState :: bool
  ds_hasWork :: bool
  ds_name :: "string option"
  ds_startingGitContext :: "json option option"
  ds_prReviewBinding :: "json option"
  ds_forkedFrom :: "(string \<times> entry_id option) option"
  ds_labelsById :: "(entry_id, string) js_map"
  ds_labelTimestampsById :: "(entry_id, string) js_map"
  ds_clientInputsById :: input_map
  ds_clientInputIdByEntryId :: "(entry_id, client_message_id) js_map"
  ds_searchChunks :: "search_chunk list"
  ds_searchChunkByEntryId :: "(entry_id, search_chunk) js_map"
  ds_leafId :: "entry_id option"
  ds_leafEntryOrdinal :: nat
  ds_nextOrdinal :: nat
  ds_nextSearchChunkIndex :: nat

definition createSessionMessageSummaryAccumulator :: message_summary where
  "createSessionMessageSummaryAccumulator =
     \<lparr>ms_count = 0, ms_firstUserMessage = '''', ms_firstFallbackMessage = '''', ms_lastActivityTime = None\<rparr>"

definition createSessionDerivedState :: "string \<Rightarrow> derived_state" where
  "createSessionDerivedState headerTimestamp =
     \<lparr>ds_headerTimestamp = headerTimestamp, ds_messageSummary = createSessionMessageSummaryAccumulator,
      ds_hasPlanningState = False, ds_hasWork = False, ds_name = None, ds_startingGitContext = None,
      ds_prReviewBinding = None, ds_forkedFrom = None, ds_labelsById = [], ds_labelTimestampsById = [],
      ds_clientInputsById = [], ds_clientInputIdByEntryId = [], ds_searchChunks = [],
      ds_searchChunkByEntryId = [], ds_leafId = None, ds_leafEntryOrdinal = 0, ds_nextOrdinal = 1,
      ds_nextSearchChunkIndex = 0\<rparr>"

section \<open>Messages and search text\<close>

fun block_text :: "content_block \<Rightarrow> string list" where
  "block_text (TextContent t _) = [t]"
| "block_text (ImageContent _ _) = []"

fun extractTextContentFromContent :: "user_content \<Rightarrow> string" where
  "extractTextContentFromContent (PlainText t) = t"
| "extractTextContentFromContent (Blocks bs) = joined '' '' (concat (map block_text bs))"

fun assistant_text :: "assistant_block \<Rightarrow> string list" where
  "assistant_text (AText t _) = [t]"
| "assistant_text _ = []"

definition extract_assistant_text :: "assistant_block list \<Rightarrow> string" where
  "extract_assistant_text bs = joined '' '' (concat (map assistant_text bs))"

definition count_activity :: "int option \<Rightarrow> message_summary \<Rightarrow> message_summary" where
  "count_activity activity m =
     m\<lparr>ms_count := ms_count m + 1,
       ms_lastActivityTime :=
         (case activity of
            None \<Rightarrow> ms_lastActivityTime m
          | Some t \<Rightarrow> Some (max (case ms_lastActivityTime m of None \<Rightarrow> 0 | Some u \<Rightarrow> u) t))\<rparr>"

definition first_user :: "string \<Rightarrow> message_summary \<Rightarrow> message_summary" where
  "first_user text m =
     (if text \<noteq> '''' \<and> ms_firstUserMessage m = '''' then m\<lparr>ms_firstUserMessage := text\<rparr> else m)"

definition first_fallback :: "string \<Rightarrow> message_summary \<Rightarrow> message_summary" where
  "first_fallback text m =
     (if text \<noteq> '''' \<and> ms_firstFallbackMessage m = '''' then m\<lparr>ms_firstFallbackMessage := text\<rparr> else m)"

definition accumulateMessageSummary :: "message_summary \<Rightarrow> session_entry \<Rightarrow> message_summary" where
  "accumulateMessageSummary m e =
     (case se_body e of
        Message (UserMessage u) _ \<Rightarrow>
          first_user (extractTextContentFromContent (u_content u)) (count_activity (Some (u_timestamp u)) m)
      | Message (AssistantMessage a) _ \<Rightarrow>
          first_fallback (extract_assistant_text (a_content a)) (count_activity (Some (a_timestamp a)) m)
      | Message _ _ \<Rightarrow> count_activity None m
      | CustomMessageEntry p \<Rightarrow>
          if cm_display p
          then first_fallback (extractTextContentFromContent (cm_content p))
                 (count_activity (date_getTime (se_timestamp e)) m)
          else m
      | _ \<Rightarrow> m)"

text \<open>\<open>firstUserMessage || firstFallbackMessage || "(no messages)"\<close>.\<close>

definition first_message :: "message_summary \<Rightarrow> string" where
  "first_message m =
     (if ms_firstUserMessage m \<noteq> '''' then ms_firstUserMessage m
      else if ms_firstFallbackMessage m \<noteq> '''' then ms_firstFallbackMessage m else ''(no messages)'')"

definition searchableText :: "session_entry \<Rightarrow> string" where
  "searchableText e =
     (case se_body e of
        Message (UserMessage u) _ \<Rightarrow> extractTextContentFromContent (u_content u)
      | Message (AssistantMessage a) _ \<Rightarrow> extract_assistant_text (a_content a)
      | CustomMessageEntry p \<Rightarrow> if cm_display p then extractTextContentFromContent (cm_content p) else ''''
      | _ \<Rightarrow> '''')"

section \<open>Client inputs\<close>

definition CLIENT_INPUT_MAX_RECOVERABLE_QUEUE_ENTRIES :: nat where
  "CLIENT_INPUT_MAX_RECOVERABLE_QUEUE_ENTRIES = 128"

definition CLIENT_INPUT_MAX_OUTSTANDING_ENTRIES :: nat where
  "CLIENT_INPUT_MAX_OUTSTANDING_ENTRIES = CLIENT_INPUT_MAX_RECOVERABLE_QUEUE_ENTRIES"

definition CLIENT_INPUT_MAX_OUTSTANDING_BYTES :: int where
  "CLIENT_INPUT_MAX_OUTSTANDING_BYTES = 16 * 1024 * 1024"

definition CLIENT_INPUT_ERROR_MAX_SCALARS :: nat where
  "CLIENT_INPUT_ERROR_MAX_SCALARS = 2000"

datatype projection_error =
    NonContiguousOrdinal
  | SecondGitContext
  | SecondReviewBinding
  | LineageNotFirst
  | LinkNotFirst
  | InputTooLarge
  | StreamingBehaviorNotPrompt
  | QuietWithoutMessages
  | QueuedMessagesEmpty
  | ReceiptRepeated client_message_id
  | DigestMismatch
  | OutstandingCount
  | OutstandingBytes
  | QueueCapacity
  | NoReceipt
  | QueuedLate
  | QueuedTwice
  | QueuedDeliveryConflict
  | QueuedMessagesNotHost
  | AfterTerminal
  | StartedTwice
  | RollbackNotStarted
  | WithdrawStarted
  | InvalidInputError
  | NotStartedReceipt
  | IncompleteQueued
  | DuplicateRow
  | InputsMismatch
  | ChunksMismatch

definition isTerminalClientInputState :: "client_input_state \<Rightarrow> bool" where
  "isTerminalClientInputState s \<longleftrightarrow> s = Completed \<or> s = Failed \<or> s = Withdrawn"

definition image_bytes :: "image \<Rightarrow> int \<times> int" where
  "image_bytes i = (case i of ImageContent d m \<Rightarrow> (utf8_length m, utf8_length d) | TextContent _ _ \<Rightarrow> (0, 0))"

fun is_image :: "image \<Rightarrow> bool" where
  "is_image (ImageContent _ m) = (m \<noteq> '''')"
| "is_image (TextContent _ _) = False"

text \<open>The loop over the images with the bytes of those before.\<close>

fun images_ok :: "int \<Rightarrow> image list \<Rightarrow> bool" where
  "images_ok before [] = True"
| "images_ok before (i # rest) =
     (let (m, d) = image_bytes i in
      is_image i \<and> m \<le> 256 \<and> d \<le> 1024 * 1024 \<and> before + m + d \<le> 1536 * 1024 \<and> images_ok (before + m + d) rest)"

definition content_json :: "string \<Rightarrow> image list \<Rightarrow> json" where
  "content_json message images = JObj [(''message'', JStr message), (''images'', JArr (map content_block_json images))]"

definition normalizeClientInputContent :: "string \<Rightarrow> image list \<Rightarrow> bool" where
  "normalizeClientInputContent message images \<longleftrightarrow>
     utf8_length message \<le> 512 * 1024 \<and> length images \<le> 8 \<and> images_ok 0 images \<and>
     utf8_length (json_text (content_json message images)) \<le> 2 * 1024 * 1024"

definition normalizeClientInputPayload ::
    "client_input_command \<Rightarrow> client_input_payload \<Rightarrow> projection_error + client_input_payload" where
  "normalizeClientInputPayload command i =
     (if \<not> normalizeClientInputContent (ci_message i) (ci_images i) then Inl InputTooLarge
      else if command \<noteq> Prompt \<and> ci_streamingBehavior i \<noteq> None then Inl StreamingBehaviorNotPrompt
      else Inr i)"

definition normalizeClientInputQueuedPayload ::
    "client_input_queued_payload \<Rightarrow> projection_error + client_input_queued_payload" where
  "normalizeClientInputQueuedPayload q =
     (if \<not> normalizeClientInputContent (ciq_message q) (ciq_images q) then Inl InputTooLarge
      else if ciq_messages q = None \<and> ciq_wake q then Inl QuietWithoutMessages
      else if ciq_messages q = Some [] then Inl QueuedMessagesEmpty
      else Inr q)"

definition measure_input :: "client_input_payload \<Rightarrow> int" where
  "measure_input i = utf8_length (json_text (input_json i))"

definition measure_queued :: "client_input_queued_payload \<Rightarrow> int" where
  "measure_queued q = utf8_length (json_text (queued_input_json q))"

definition outstandingClientInputBytes :: "client_input_record list \<Rightarrow> int" where
  "outstandingClientInputBytes rs =
     sum_list (map (\<lambda>r. if isTerminalClientInputState (ir_state r) then 0
       else measure_input (ir_input r) + (case ir_queuedInput r of None \<Rightarrow> 0 | Some q \<Rightarrow> measure_queued q)) rs)"

definition outstandingClientInputCount :: "client_input_record list \<Rightarrow> nat" where
  "outstandingClientInputCount rs = length (filter (\<lambda>r. \<not> isTerminalClientInputState (ir_state r)) rs)"

definition recoverableQueuedClientInputCount :: "client_input_record list \<Rightarrow> nat" where
  "recoverableQueuedClientInputCount rs = length (filter (\<lambda>r. ir_state r = Accepted \<and> ir_queuedInput r \<noteq> None) rs)"

definition assertClientInputProjectionBounds :: "client_input_record list \<Rightarrow> projection_error + unit" where
  "assertClientInputProjectionBounds rs =
     (if CLIENT_INPUT_MAX_OUTSTANDING_ENTRIES < outstandingClientInputCount rs then Inl OutstandingCount
      else if CLIENT_INPUT_MAX_OUTSTANDING_BYTES < outstandingClientInputBytes rs then Inl OutstandingBytes
      else if CLIENT_INPUT_MAX_RECOVERABLE_QUEUE_ENTRIES < recoverableQueuedClientInputCount rs then Inl QueueCapacity
      else Inr ())"

text \<open>The reducer of one client input; \<open>digestInput\<close> is the semantic digest of a client input.\<close>

type_synonym input_digest = "client_input_command \<Rightarrow> client_input_payload \<Rightarrow> string"

definition reduce_receipt ::
    "input_digest \<Rightarrow> input_map \<Rightarrow> entry_id \<Rightarrow> receipt_payload \<Rightarrow> projection_error + client_input_record" where
  "reduce_receipt digestInput inputs entryId p =
     (if js_has inputs (rp_clientMessageId p) then Inl (ReceiptRepeated (rp_clientMessageId p))
      else res_bind (normalizeClientInputPayload (rp_command p) (rp_input p)) (\<lambda>input.
        if rp_semanticDigest p \<noteq> digestInput (rp_command p) input then Inl DigestMismatch
        else if CLIENT_INPUT_MAX_OUTSTANDING_ENTRIES < outstandingClientInputCount (js_values inputs) + 1
        then Inl OutstandingCount
        else if CLIENT_INPUT_MAX_OUTSTANDING_BYTES < outstandingClientInputBytes (js_values inputs) + measure_input input
        then Inl OutstandingBytes
        else Inr \<lparr>ir_clientMessageId = rp_clientMessageId p, ir_receiptId = entryId,
               ir_command = rp_command p, ir_origin = rp_origin p,
               ir_semanticDigest = rp_semanticDigest p, ir_input = input,
               ir_queuedEntryId = None, ir_queuedInput = None, ir_state = Accepted,
               ir_error = None, ir_canonicalEntryId = None\<rparr>))"

definition reduce_queued ::
    "input_map \<Rightarrow> entry_id \<Rightarrow> queued_entry_payload \<Rightarrow> projection_error + client_input_record" where
  "reduce_queued inputs entryId p =
     (case js_get inputs (qp_clientMessageId p) of
        None \<Rightarrow> Inl NoReceipt
      | Some existing \<Rightarrow>
          if ir_receiptId existing \<noteq> qp_receiptId p then Inl NoReceipt
          else if ir_state existing \<noteq> Accepted \<and> ir_state existing \<noteq> Started then Inl QueuedLate
          else if ir_queuedInput existing \<noteq> None then Inl QueuedTwice
          else res_bind (normalizeClientInputQueuedPayload (qp_queuedInput p)) (\<lambda>queued.
            if Some (ciq_delivery queued) \<noteq> expectedQueuedDelivery existing then Inl QueuedDeliveryConflict
            else if ciq_messages queued \<noteq> None \<and> \<not> ir_origin existing then Inl QueuedMessagesNotHost
            else if CLIENT_INPUT_MAX_RECOVERABLE_QUEUE_ENTRIES \<le> recoverableQueuedClientInputCount (js_values inputs)
            then Inl QueueCapacity
            else if CLIENT_INPUT_MAX_OUTSTANDING_BYTES < outstandingClientInputBytes (js_values inputs) + measure_queued queued
            then Inl OutstandingBytes
            else Inr (existing\<lparr>ir_queuedEntryId := Some entryId, ir_queuedInput := Some queued,
                   ir_state := Accepted, ir_error := None\<rparr>)))"

definition reduce_state :: "input_map \<Rightarrow> state_entry_payload \<Rightarrow> projection_error + client_input_record" where
  "reduce_state inputs p =
     (case js_get inputs (sp_clientMessageId p) of
        None \<Rightarrow> Inl NoReceipt
      | Some existing \<Rightarrow>
          if ir_receiptId existing \<noteq> sp_receiptId p then Inl NoReceipt
          else if isTerminalClientInputState (ir_state existing) then Inl AfterTerminal
          else if sp_state p = Started \<and> ir_state existing \<noteq> Accepted then Inl StartedTwice
          else if sp_state p = Accepted \<and> ir_state existing \<noteq> Started then Inl RollbackNotStarted
          else if sp_state p = Withdrawn \<and> ir_state existing \<noteq> Accepted then Inl WithdrawStarted
          else if (sp_error p \<noteq> None \<and> sp_state p \<noteq> Failed) \<or>
                  (\<exists>x \<in> set_option (sp_error p). CLIENT_INPUT_ERROR_MAX_SCALARS < length x)
          then Inl InvalidInputError
          else Inr (existing\<lparr>ir_state := sp_state p,
                 ir_error := (if sp_state p = Failed then sp_error p else None)\<rparr>))"

definition reduce_message :: "input_map \<Rightarrow> entry_id \<Rightarrow> client_message_id \<Rightarrow> projection_error + client_input_record" where
  "reduce_message inputs entryId c =
     (case js_get inputs c of
        None \<Rightarrow> Inl NoReceipt
      | Some existing \<Rightarrow>
          if ir_state existing \<noteq> Started then Inl NotStartedReceipt
          else Inr (existing\<lparr>ir_state := Completed, ir_error := None, ir_canonicalEntryId := Some entryId\<rparr>))"

definition reduceClientInputEntry ::
    "input_digest \<Rightarrow> input_map \<Rightarrow> session_entry \<Rightarrow> projection_error + client_input_record option" where
  "reduceClientInputEntry digestInput inputs e =
     (case se_body e of
        ClientInputReceipt p \<Rightarrow> map_sum id Some (reduce_receipt digestInput inputs (se_id e) p)
      | ClientInputQueued p \<Rightarrow> map_sum id Some (reduce_queued inputs (se_id e) p)
      | ClientInputStateEntry p \<Rightarrow> map_sum id Some (reduce_state inputs p)
      | Message _ (Some c) \<Rightarrow> map_sum id Some (reduce_message inputs (se_id e) c)
      | _ \<Rightarrow> Inr None)"

section \<open>The reducer\<close>

definition json_field :: "string \<Rightarrow> json \<Rightarrow> json option" where
  "json_field k j = (case j of JObj fs \<Rightarrow> map_of fs k | _ \<Rightarrow> None)"

definition json_value :: "json \<Rightarrow> json option" where
  "json_value j = (case j of JNull \<Rightarrow> None | _ \<Rightarrow> Some j)"

definition derive_guard :: "derived_state \<Rightarrow> session_entry \<Rightarrow> projection_error option" where
  "derive_guard s e =
     (if se_ordinal e \<noteq> ds_nextOrdinal s then Some NonContiguousOrdinal
      else case se_body e of
        Product name _ \<Rightarrow>
          if name = ''session_start_git_context'' \<and> ds_startingGitContext s \<noteq> None then Some SecondGitContext
          else if name = ''pr_review_binding'' \<and> ds_prReviewBinding s \<noteq> None then Some SecondReviewBinding
          else if name = ''review_discussion_link'' \<and> se_ordinal e \<noteq> 1 then Some LinkNotFirst
          else None
      | ForkedFrom _ _ \<Rightarrow> if se_ordinal e \<noteq> 1 then Some LineageNotFirst else None
      | _ \<Rightarrow> None)"

definition derive_records :: "session_entry \<Rightarrow> derived_state \<Rightarrow> derived_state" where
  "derive_records e s =
     (case se_body e of
        PlanningStateChange _ \<Rightarrow> s\<lparr>ds_hasPlanningState := True\<rparr>
      | WorkStarted _ \<Rightarrow> s\<lparr>ds_hasWork := True\<rparr>
      | SessionInfo name \<Rightarrow> s\<lparr>ds_name := trim_or_null name\<rparr>
      | Product name j \<Rightarrow>
          if name = ''session_start_git_context''
          then s\<lparr>ds_startingGitContext := Some (Option.bind (json_field ''gitContext'' j) json_value)\<rparr>
          else if name = ''pr_review_binding'' then s\<lparr>ds_prReviewBinding := json_field ''placement'' j\<rparr>
          else s
      | ForkedFrom sid entryId \<Rightarrow> s\<lparr>ds_forkedFrom := Some (sid, entryId)\<rparr>
      | Label target label \<Rightarrow>
          (case label of
             Some l \<Rightarrow>
               if l = '''' then s\<lparr>ds_labelsById := js_delete (ds_labelsById s) target,
                              ds_labelTimestampsById := js_delete (ds_labelTimestampsById s) target\<rparr>
               else s\<lparr>ds_labelsById := js_set (ds_labelsById s) target l,
                      ds_labelTimestampsById := js_set (ds_labelTimestampsById s) target (se_timestamp e)\<rparr>
           | None \<Rightarrow> s\<lparr>ds_labelsById := js_delete (ds_labelsById s) target,
                       ds_labelTimestampsById := js_delete (ds_labelTimestampsById s) target\<rparr>)
      | _ \<Rightarrow> s)"

definition derive_input :: "session_entry \<Rightarrow> client_input_record option \<Rightarrow> derived_state \<Rightarrow> derived_state" where
  "derive_input e input s =
     (case input of
        None \<Rightarrow> s
      | Some r \<Rightarrow> s\<lparr>ds_clientInputsById := js_set (ds_clientInputsById s) (ir_clientMessageId r) r,
                    ds_clientInputIdByEntryId := js_set (ds_clientInputIdByEntryId s) (se_id e) (ir_clientMessageId r)\<rparr>)"

definition derive_chunk :: "session_entry \<Rightarrow> derived_state \<Rightarrow> derived_state" where
  "derive_chunk e s =
     (let text = searchableText e in
      if text = '''' then s
      else
        let chunk = \<lparr>sc_chunkIndex = ds_nextSearchChunkIndex s, sc_entryId = se_id e, sc_text = text\<rparr>
        in s\<lparr>ds_searchChunks := ds_searchChunks s @ [chunk],
             ds_searchChunkByEntryId := js_set (ds_searchChunkByEntryId s) (se_id e) chunk,
             ds_nextSearchChunkIndex := ds_nextSearchChunkIndex s + 1\<rparr>)"

definition derive_leaf :: "session_entry \<Rightarrow> derived_state \<Rightarrow> derived_state" where
  "derive_leaf e s =
     (case se_body e of
        Leaf target \<Rightarrow> s\<lparr>ds_leafId := target, ds_leafEntryOrdinal := se_ordinal e\<rparr>
      | _ \<Rightarrow> if isHostOnlySessionEntryType (se_body e) then s else s\<lparr>ds_leafId := Some (se_id e)\<rparr>)"

definition applySessionEntry :: "input_digest \<Rightarrow> derived_state \<Rightarrow> session_entry \<Rightarrow> projection_error + derived_state" where
  "applySessionEntry digestInput s e =
     (case derive_guard s e of
        Some err \<Rightarrow> Inl err
      | None \<Rightarrow>
          res_bind (reduceClientInputEntry digestInput (ds_clientInputsById s) e) (\<lambda>input.
            let s1 = s\<lparr>ds_messageSummary := accumulateMessageSummary (ds_messageSummary s) e\<rparr>
            in Inr ((derive_leaf e (derive_chunk e (derive_input e input (derive_records e s1))))
                 \<lparr>ds_nextOrdinal := ds_nextOrdinal s + 1\<rparr>)))"

definition applySessionEntries ::
    "input_digest \<Rightarrow> session_entry list \<Rightarrow> derived_state \<Rightarrow> projection_error + derived_state" where
  "applySessionEntries digestInput es s = res_fold (applySessionEntry digestInput) s es"

definition replaySessionEntries :: "input_digest \<Rightarrow> string \<Rightarrow> session_entry list \<Rightarrow> projection_error + derived_state" where
  "replaySessionEntries digestInput headerTimestamp es =
     applySessionEntries digestInput es (createSessionDerivedState headerTimestamp)"

section \<open>Projections\<close>

record session_projection =
  pj_updatedAt :: string
  pj_startingGitContextRecorded :: bool
  pj_startingGitContext :: "json option"
  pj_name :: "string option"
  pj_visible :: bool
  pj_leafId :: "entry_id option"
  pj_messageCount :: nat
  pj_firstMessage :: string

definition sessionStoreProjection :: "derived_state \<Rightarrow> session_projection" where
  "sessionStoreProjection s =
     (let m = ds_messageSummary s in
      \<lparr>pj_updatedAt =
         (case ms_lastActivityTime m of
            Some t \<Rightarrow> if 0 < t then toISOString t else ds_headerTimestamp s
          | None \<Rightarrow> ds_headerTimestamp s),
       pj_startingGitContextRecorded = ds_startingGitContext s \<noteq> None,
       pj_startingGitContext = Option.bind (ds_startingGitContext s) (\<lambda>g. g),
       pj_name = ds_name s,
       pj_visible = (0 < ms_count m \<or> ds_hasPlanningState s \<or> ds_hasWork s),
       pj_leafId = ds_leafId s,
       pj_messageCount = ms_count m,
       pj_firstMessage = (if first_message m = ''(no messages)'' then '''' else first_message m)\<rparr>)"

text \<open>\<open>a < b\<close> on strings, by code units.\<close>

fun string_less :: "string \<Rightarrow> string \<Rightarrow> bool" where
  "string_less xs [] = False"
| "string_less [] (y # ys) = True"
| "string_less (x # xs) (y # ys) =
     ((of_char x :: nat) < of_char y \<or> (x = y \<and> string_less xs ys))"

fun insert_input :: "client_input_record \<Rightarrow> client_input_record list \<Rightarrow> client_input_record list" where
  "insert_input r [] = [r]"
| "insert_input r (x # xs) =
     (if string_less (ir_clientMessageId x) (ir_clientMessageId r) then x # insert_input r xs else r # x # xs)"

definition sort_inputs :: "client_input_record list \<Rightarrow> client_input_record list" where
  "sort_inputs rs = foldr insert_input rs []"

definition allSessionStoreClientInputs :: "derived_state \<Rightarrow> client_input_record list" where
  "allSessionStoreClientInputs s = sort_inputs (js_values (ds_clientInputsById s))"

definition affected_ids :: "derived_state \<Rightarrow> session_entry list \<Rightarrow> client_message_id list" where
  "affected_ids s es =
     foldl (\<lambda>ids e. case js_get (ds_clientInputIdByEntryId s) (se_id e) of
        None \<Rightarrow> ids | Some c \<Rightarrow> if c = '''' \<or> c \<in> set ids then ids else ids @ [c]) [] es"

definition sessionStoreClientInputsForEntries :: "derived_state \<Rightarrow> session_entry list \<Rightarrow> client_input_record list" where
  "sessionStoreClientInputsForEntries s es =
     List.map_filter (js_get (ds_clientInputsById s)) (affected_ids s es)"

definition sessionStoreSearchChunksForEntries :: "derived_state \<Rightarrow> session_entry list \<Rightarrow> search_chunk list" where
  "sessionStoreSearchChunksForEntries s es =
     List.map_filter (\<lambda>e. js_get (ds_searchChunkByEntryId s) (se_id e)) es"

section \<open>The store's checks\<close>

definition clientInputRecordFromWrite :: "input_digest \<Rightarrow> client_input_record \<Rightarrow> projection_error + client_input_record" where
  "clientInputRecordFromWrite digestInput w =
     res_bind (normalizeClientInputPayload (ir_command w) (ir_input w)) (\<lambda>input.
       if (ir_queuedEntryId w = None) \<noteq> (ir_queuedInput w = None) then Inl IncompleteQueued
       else res_bind (case ir_queuedInput w of None \<Rightarrow> Inr None
            | Some q \<Rightarrow> map_sum id Some (normalizeClientInputQueuedPayload q)) (\<lambda>queued.
         if ir_semanticDigest w \<noteq> digestInput (ir_command w) input then Inl DigestMismatch
         else if (\<exists>q \<in> set_option queued. Some (ciq_delivery q) \<noteq> expectedQueuedDelivery w) then Inl QueuedDeliveryConflict
         else if (\<exists>q \<in> set_option queued. ciq_messages q \<noteq> None \<and> \<not> ir_origin w) then Inl QueuedMessagesNotHost
         else if (ir_state w \<noteq> Failed \<and> ir_error w \<noteq> None) \<or>
                 (\<exists>x \<in> set_option (ir_error w). CLIENT_INPUT_ERROR_MAX_SCALARS < length x)
         then Inl InvalidInputError
         else Inr w))"

definition add_row :: "input_digest \<Rightarrow> input_map \<Rightarrow> client_input_record \<Rightarrow> projection_error + input_map" where
  "add_row digestInput inputs w =
     (if js_has inputs (ir_clientMessageId w) then Inl DuplicateRow
      else res_bind (clientInputRecordFromWrite digestInput w) (\<lambda>r. Inr (js_set inputs (ir_clientMessageId w) r)))"

definition createSessionStoreTransactionValidationState ::
    "input_digest \<Rightarrow> string \<Rightarrow> client_input_record list \<Rightarrow> nat \<Rightarrow> nat \<Rightarrow> projection_error + derived_state" where
  "createSessionStoreTransactionValidationState digestInput headerTimestamp rows nextOrdinal nextChunk =
     res_bind (res_fold (add_row digestInput) [] rows) (\<lambda>inputs.
       res_bind (assertClientInputProjectionBounds (js_values inputs)) (\<lambda>_.
         Inr ((createSessionDerivedState headerTimestamp)
           \<lparr>ds_nextOrdinal := nextOrdinal, ds_nextSearchChunkIndex := nextChunk, ds_clientInputsById := inputs\<rparr>)))"

definition validateSessionStoreTransactionProjections ::
    "input_digest \<Rightarrow> derived_state \<Rightarrow> session_entry list \<Rightarrow> client_input_record list \<Rightarrow> search_chunk list \<Rightarrow>
     projection_error + unit" where
  "validateSessionStoreTransactionProjections digestInput s es inputs chunks =
     res_bind (applySessionEntries digestInput es s) (\<lambda>s1.
       if sort_inputs (sessionStoreClientInputsForEntries s1 es) \<noteq> sort_inputs inputs then Inl InputsMismatch
       else if sessionStoreSearchChunksForEntries s1 es \<noteq> chunks then Inl ChunksMismatch
       else Inr ())"

end
