(* ===== verification/Session_Store.thy ===== *)
theory Session_Store
  imports Session_Projection
begin

text \<open>
  The session store (\<^verbatim>\<open>core/session-store/worker.ts\<close> over the tables of \<^verbatim>\<open>schema.ts\<close>): sessions with their
  entries, client inputs and search chunks, the evidence of every committed transaction, and the review
  indexes. A table with a primary key is a map from it; the rows of a session are grouped under the session,
  as every one of them has it as a foreign key and goes when it goes.

  A worker request runs in one transaction: an error leaves the tables as they were, so an operation returns
  its result and the tables after it. What a transaction's SQL statements can still refuse, the length checks
  of the text columns, is \<open>env_sqlAccepts\<close>.
\<close>

section \<open>Tables\<close>

type_synonym session_identity = "string \<times> string"

record session_row =
  sr_generation :: string
  sr_formatVersion :: nat
  sr_cwd :: string
  sr_cwdKey :: string
  sr_createdAt :: string
  sr_parent :: "(string \<times> string \<times> string \<times> string) option"
  sr_subagent :: bool
  sr_projection :: session_projection
  sr_entries :: "session_entry list"
  sr_clientInputs :: input_map
  sr_searchChunks :: "search_chunk list"

record commit_evidence =
  ev_session :: session_identity
  ev_commitId :: string
  ev_digest :: string
  ev_beforeOrdinal :: nat
  ev_afterOrdinal :: nat
  ev_committedAt :: string

record review_run =
  rr_source :: session_identity
  rr_general :: session_identity

record discussion_child =
  dc_discussionId :: string
  dc_ordinal :: nat
  dc_runId :: string
  dc_findingId :: string
  dc_source :: session_identity
  dc_child :: session_identity
  dc_requestId :: string

record store_db =
  db_sessions :: "(string, session_row) js_map"
  db_commits :: "(string, commit_evidence) js_map"
  db_reviewRuns :: "(string, review_run) js_map"
  db_discussions :: "discussion_child list"

definition empty_db :: store_db where
  "empty_db = \<lparr>db_sessions = [], db_commits = [], db_reviewRuns = [], db_discussions = []\<rparr>"

record transaction_payload =
  tp_session :: session_projection
  tp_entries :: "session_entry list"
  tp_clientInputs :: "client_input_record list"
  tp_searchChunks :: "search_chunk list"

record apply_input =
  ai_session :: session_identity
  ai_expectedOrdinal :: nat
  ai_commitId :: string
  ai_digest :: string
  ai_payload :: transaction_payload

record store_env =
  env_payloadDigest :: "transaction_payload \<Rightarrow> string"
  env_inputDigest :: input_digest
  env_persisted :: "session_entry \<Rightarrow> bool"
  env_sqlAccepts :: "apply_input \<Rightarrow> bool"
  env_cwdKey :: "string \<Rightarrow> string"

datatype constraint =
    EntryExists entry_id
  | InvalidParent entry_id
  | ParentCycle
  | InvalidFirstKept entry_id
  | InvalidTarget entry_id
  | InvalidSource entry_id
  | SecondStartingGitContext
  | CodecRefused entry_id
  | ProjectionRefused projection_error
  | ChunkIndexGap
  | OrdinalGap entry_id
  | ReviewRecord
  | LeafNotStored
  | SqlRefused

datatype store_error =
    CommitDigestMismatch
  | CommitIdentityConflict
  | SessionNotFound
  | SessionAlreadyExists
  | ConstraintFailed constraint

section \<open>Sessions\<close>

definition findSummaryRow :: "store_db \<Rightarrow> session_identity \<Rightarrow> session_row option" where
  "findSummaryRow db s =
     (case js_get (db_sessions db) (fst s) of
        None \<Rightarrow> None
      | Some r \<Rightarrow> if sr_generation r = snd s then Some r else None)"

definition lastOrdinal :: "session_row \<Rightarrow> nat" where
  "lastOrdinal r = foldr max (map se_ordinal (sr_entries r)) 0"

definition initial_projection :: "string \<Rightarrow> session_projection" where
  "initial_projection createdAt =
     \<lparr>pj_updatedAt = createdAt, pj_startingGitContextRecorded = False, pj_startingGitContext = None, pj_name = None,
      pj_visible = False, pj_leafId = None, pj_messageCount = 0, pj_firstMessage = ''''\<rparr>"

record create_input =
  ct_session :: session_identity
  ct_formatVersion :: nat
  ct_cwd :: string
  ct_createdAt :: string
  ct_parent :: "(string \<times> string \<times> string \<times> string) option"
  ct_subagent :: bool

definition createSession :: "store_env \<Rightarrow> create_input \<Rightarrow> store_db \<Rightarrow> (store_error + session_row) \<times> store_db" where
  "createSession env i db =
     (if js_has (db_sessions db) (fst (ct_session i)) then (Inl SessionAlreadyExists, db)
      else
        let r = \<lparr>sr_generation = snd (ct_session i), sr_formatVersion = ct_formatVersion i, sr_cwd = ct_cwd i,
                 sr_cwdKey = env_cwdKey env (ct_cwd i), sr_createdAt = ct_createdAt i, sr_parent = ct_parent i,
                 sr_subagent = ct_subagent i, sr_projection = initial_projection (ct_createdAt i), sr_entries = [],
                 sr_clientInputs = [], sr_searchChunks = []\<rparr>
        in (Inr r, db\<lparr>db_sessions := js_set (db_sessions db) (fst (ct_session i)) r\<rparr>))"

datatype delete_result = Deleted | DeleteNotFound | DeleteConflict nat

text \<open>A deleted session takes its commit evidence and its review rows with it, and a review run its discussions.\<close>

definition delete_cascade :: "session_identity \<Rightarrow> store_db \<Rightarrow> store_db" where
  "delete_cascade s db =
     (let runs = filter (\<lambda>(k, r). rr_source r \<noteq> s) (db_reviewRuns db) in
      db\<lparr>db_sessions := js_delete (db_sessions db) (fst s),
         db_commits := filter (\<lambda>(k, ev). ev_session ev \<noteq> s) (db_commits db),
         db_reviewRuns := runs,
         db_discussions := filter (\<lambda>c. dc_source c \<noteq> s \<and> js_has runs (dc_runId c)) (db_discussions db)\<rparr>)"

definition deleteSession :: "session_identity \<Rightarrow> nat \<Rightarrow> store_db \<Rightarrow> delete_result \<times> store_db" where
  "deleteSession s expectedOrdinal db =
     (case findSummaryRow db s of
        None \<Rightarrow> (DeleteNotFound, db)
      | Some r \<Rightarrow>
          if lastOrdinal r \<noteq> expectedOrdinal then (DeleteConflict (lastOrdinal r), db)
          else (Deleted, delete_cascade s db))"

record store_snapshot =
  sn_row :: session_row
  sn_entries :: "session_entry list"
  sn_clientInputs :: "client_input_record list"
  sn_searchChunks :: "search_chunk list"

definition loadSession :: "store_db \<Rightarrow> session_identity \<Rightarrow> store_snapshot option" where
  "loadSession db s =
     map_option (\<lambda>r. \<lparr>sn_row = r, sn_entries = sort_key se_ordinal (sr_entries r),
        sn_clientInputs = sort_inputs (js_values (sr_clientInputs r)),
        sn_searchChunks = sort_key sc_chunkIndex (sr_searchChunks r)\<rparr>) (findSummaryRow db s)"

definition readEntries :: "store_db \<Rightarrow> session_identity \<Rightarrow> nat \<Rightarrow> nat \<Rightarrow> (session_entry list \<times> nat) option" where
  "readEntries db s afterOrdinal limit =
     map_option (\<lambda>r. (take limit (sort_key se_ordinal (filter (\<lambda>e. afterOrdinal < se_ordinal e) (sr_entries r))), lastOrdinal r))
       (findSummaryRow db s)"

section \<open>Review indexes\<close>

definition json_string :: "string \<Rightarrow> json \<Rightarrow> string" where
  "json_string k j = (case json_field k j of Some (JStr s) \<Rightarrow> s | _ \<Rightarrow> '''')"

definition json_identity :: "string \<Rightarrow> json \<Rightarrow> session_identity" where
  "json_identity k j =
     (case json_field k j of None \<Rightarrow> ('''', '''') | Some i \<Rightarrow> (json_string ''sessionId'' i, json_string ''sessionGeneration'' i))"

definition anchored_by :: "store_db \<Rightarrow> string \<Rightarrow> session_identity \<Rightarrow> bool" where
  "anchored_by db runId source \<longleftrightarrow> (case js_get (db_reviewRuns db) runId of None \<Rightarrow> False | Some r \<Rightarrow> rr_source r = source)"

definition is_discussion_child :: "store_db \<Rightarrow> session_identity \<Rightarrow> bool" where
  "is_discussion_child db child \<longleftrightarrow> list_ex (\<lambda>c. dc_child c = child) (db_discussions db)"

definition new_child :: "store_db \<Rightarrow> session_identity \<Rightarrow> session_identity \<Rightarrow> bool" where
  "new_child db self child \<longleftrightarrow> child \<noteq> self \<and> \<not> is_discussion_child db child"

text \<open>The row with the highest ordinal.\<close>

definition findReviewDiscussion :: "store_db \<Rightarrow> string \<Rightarrow> discussion_child option" where
  "findReviewDiscussion db discussionId =
     fold (\<lambda>c best. if dc_discussionId c \<noteq> discussionId then best
        else case best of None \<Rightarrow> Some c | Some b \<Rightarrow> if dc_ordinal b \<le> dc_ordinal c then Some c else best)
       (db_discussions db) None"

definition index_review_work :: "store_env \<Rightarrow> session_identity \<Rightarrow> work_started_payload \<Rightarrow> store_db \<Rightarrow> store_db option" where
  "index_review_work env self p db =
     (if ws_kind p \<noteq> Review then Some db
      else if js_has (db_reviewRuns db) (ws_workId p) then None
      else Some (db\<lparr>db_reviewRuns := js_set (db_reviewRuns db) (ws_workId p) \<lparr>rr_source = self, rr_general = self\<rparr>\<rparr>))"

definition index_general :: "store_env \<Rightarrow> session_identity \<Rightarrow> json \<Rightarrow> store_db \<Rightarrow> store_db option" where
  "index_general env self j db =
     (let runId = json_string ''runId'' j; general = json_identity ''general'' j in
      if \<not> anchored_by db runId self then None
      else case (findSummaryRow db general, findSummaryRow db self) of
        (Some g, Some s) \<Rightarrow>
          if env_cwdKey env (sr_cwd g) \<noteq> env_cwdKey env (sr_cwd s) \<or> is_discussion_child db general then None
          else Some (db\<lparr>db_reviewRuns := map (\<lambda>(k, r). (k, if k = runId then r\<lparr>rr_general := general\<rparr> else r)) (db_reviewRuns db)\<rparr>)
      | _ \<Rightarrow> None)"

definition index_alias :: "session_identity \<Rightarrow> json \<Rightarrow> store_db \<Rightarrow> store_db option" where
  "index_alias self j db =
     (let source = json_identity ''source'' j in
      if fst source = fst self \<or> \<not> anchored_by db (json_string ''runId'' j) source then None else Some db)"

definition index_discussion :: "session_identity \<Rightarrow> json \<Rightarrow> store_db \<Rightarrow> store_db option" where
  "index_discussion self j db =
     (let runId = json_string ''runId'' j; discussionId = json_string ''discussionId'' j;
          findingId = json_string ''findingId'' j; child = json_identity ''child'' j in
      if \<not> anchored_by db runId self then None
      else if list_ex (\<lambda>c. dc_discussionId c = discussionId \<or> (dc_runId c = runId \<and> dc_findingId c = findingId)) (db_discussions db)
      then None
      else if \<not> new_child db self child then None
      else Some (db\<lparr>db_discussions := db_discussions db @ [\<lparr>dc_discussionId = discussionId, dc_ordinal = 1, dc_runId = runId,
             dc_findingId = findingId, dc_source = self, dc_child = child, dc_requestId = json_string ''requestId'' j\<rparr>]\<rparr>))"

definition index_reset :: "session_identity \<Rightarrow> json \<Rightarrow> store_db \<Rightarrow> store_db option" where
  "index_reset self j db =
     (let discussionId = json_string ''discussionId'' j; requestId = json_string ''requestId'' j; child = json_identity ''child'' j in
      case findReviewDiscussion db discussionId of
        None \<Rightarrow> None
      | Some current \<Rightarrow>
          if dc_source current \<noteq> self then None
          else if list_ex (\<lambda>c. dc_discussionId c = discussionId \<and> dc_requestId c = requestId) (db_discussions db) then None
          else if \<not> new_child db self child then None
          else Some (db\<lparr>db_discussions := db_discussions db @ [\<lparr>dc_discussionId = discussionId, dc_ordinal = dc_ordinal current + 1,
                 dc_runId = dc_runId current, dc_findingId = dc_findingId current, dc_source = self, dc_child = child,
                 dc_requestId = requestId\<rparr>]\<rparr>))"

definition index_review_entry :: "store_env \<Rightarrow> session_identity \<Rightarrow> session_entry \<Rightarrow> store_db \<Rightarrow> store_db option" where
  "index_review_entry env self e db =
     (case se_body e of
        WorkStarted p \<Rightarrow> index_review_work env self p db
      | Product name j \<Rightarrow>
          if name = ''review_general'' then index_general env self j db
          else if name = ''review_alias'' \<or> name = ''review_discussion_link'' then index_alias self j db
          else if name = ''review_discussion'' then index_discussion self j db
          else if name = ''review_discussion_reset'' then index_reset self j db
          else Some db
      | _ \<Rightarrow> Some db)"

fun indexReviewEntries :: "store_env \<Rightarrow> session_identity \<Rightarrow> session_entry list \<Rightarrow> store_db \<Rightarrow> store_db option" where
  "indexReviewEntries env self [] db = Some db"
| "indexReviewEntries env self (e # es) db = Option.bind (index_review_entry env self e db) (indexReviewEntries env self es)"

section \<open>Checking a transaction\<close>

text \<open>The parent and the visibility of an entry of the batch so far or of the session.\<close>

type_synonym relations = "(entry_id, entry_id option \<times> bool) js_map"

definition stored_relations :: "session_entry list \<Rightarrow> relations" where
  "stored_relations es = map (\<lambda>e. (se_id e, (se_parentId e, isHostOnlySessionEntryType (se_body e)))) es"

text \<open>The walk of a compaction's parents to its first kept entry; a visited entry is a cycle.\<close>

fun kept_walk :: "nat \<Rightarrow> relations \<Rightarrow> entry_id \<Rightarrow> entry_id list \<Rightarrow> entry_id option \<Rightarrow> constraint + bool" where
  "kept_walk fuel rel kept visited None = Inr False"
| "kept_walk 0 rel kept visited (Some i) = Inl ParentCycle"
| "kept_walk (Suc fuel) rel kept visited (Some i) =
     (if i = kept then Inr True
      else if i \<in> set visited then Inl ParentCycle
      else kept_walk fuel rel kept (i # visited) (Option.bind (js_get rel i) fst))"

definition public_target :: "relations \<Rightarrow> entry_id \<Rightarrow> bool" where
  "public_target rel target \<longleftrightarrow> (case js_get rel target of None \<Rightarrow> False | Some (_, hostOnly) \<Rightarrow> \<not> hostOnly)"

definition is_git_context :: "entry_body \<Rightarrow> bool" where
  "is_git_context b \<longleftrightarrow> (case b of Product name _ \<Rightarrow> name = ''session_start_git_context'' | _ \<Rightarrow> False)"

definition check_references :: "relations \<Rightarrow> bool \<Rightarrow> session_entry \<Rightarrow> constraint option" where
  "check_references rel sawGit e =
     (if js_has rel (se_id e) then Some (EntryExists (se_id e))
      else if \<exists>p \<in> set_option (se_parentId e). \<not> js_has rel p then Some (InvalidParent (se_id e))
      else case se_body e of
        Compaction p \<Rightarrow>
          (case kept_walk (Suc (length rel)) rel (cp_firstKeptEntryId p) [] (se_parentId e) of
             Inl err \<Rightarrow> Some err
           | Inr found \<Rightarrow> if found then None else Some (InvalidFirstKept (se_id e)))
      | Leaf (Some target) \<Rightarrow> if public_target rel target then None else Some (InvalidTarget (se_id e))
      | Label target _ \<Rightarrow> if public_target rel target then None else Some (InvalidTarget (se_id e))
      | BranchSummary p \<Rightarrow>
          if bs_fromId p \<noteq> (case se_parentId e of None \<Rightarrow> ''root'' | Some i \<Rightarrow> i) then Some (InvalidSource (se_id e)) else None
      | _ \<Rightarrow> if is_git_context (se_body e) \<and> sawGit then Some SecondStartingGitContext else None)"

definition validate_entry ::
    "store_env \<Rightarrow> relations \<times> bool \<Rightarrow> session_entry \<Rightarrow> constraint + relations \<times> bool" where
  "validate_entry env st e =
     (if \<not> env_persisted env e then Inl (CodecRefused (se_id e))
      else case check_references (fst st) (snd st) e of
        Some err \<Rightarrow> Inl err
      | None \<Rightarrow> Inr (js_set (fst st) (se_id e) (se_parentId e, isHostOnlySessionEntryType (se_body e)),
                   snd st \<or> is_git_context (se_body e)))"

definition validateTransactionEntryReferences :: "store_env \<Rightarrow> session_row \<Rightarrow> session_entry list \<Rightarrow> constraint + unit" where
  "validateTransactionEntryReferences env r es =
     res_bind (res_fold (validate_entry env)
         (stored_relations (sr_entries r), list_ex (\<lambda>e. is_git_context (se_body e)) (sr_entries r)) es) (\<lambda>_. Inr ())"

fun clientMessageIdForEntry :: "entry_body \<Rightarrow> client_message_id option" where
  "clientMessageIdForEntry (ClientInputReceipt p) = Some (rp_clientMessageId p)"
| "clientMessageIdForEntry (ClientInputQueued p) = Some (qp_clientMessageId p)"
| "clientMessageIdForEntry (ClientInputStateEntry p) = Some (sp_clientMessageId p)"
| "clientMessageIdForEntry (Message _ c) = c"
| "clientMessageIdForEntry _ = None"

definition outstanding_rows :: "input_map \<Rightarrow> client_input_record list" where
  "outstanding_rows m = filter (\<lambda>r. ir_state r = Accepted \<or> ir_state r = Started) (js_values m)"

text \<open>
  The outstanding rows, at most one more than the limit, then the stored row of every other client id the
  entries name, in the order they name them.
\<close>

definition loadTransactionClientInputs :: "session_row \<Rightarrow> session_entry list \<Rightarrow> client_input_record list" where
  "loadTransactionClientInputs r es =
     (let open_rows = take (CLIENT_INPUT_MAX_OUTSTANDING_ENTRIES + 1) (outstanding_rows (sr_clientInputs r)) in
      foldl (\<lambda>rows c. if c \<in> ir_clientMessageId ` set rows then rows
           else case js_get (sr_clientInputs r) c of None \<Rightarrow> rows | Some w \<Rightarrow> rows @ [w])
        open_rows (List.map_filter (\<lambda>e. clientMessageIdForEntry (se_body e)) es))"

definition nextSearchChunkIndex :: "session_row \<Rightarrow> constraint + nat" where
  "nextSearchChunkIndex r =
     (let next = foldr (\<lambda>c n. max (sc_chunkIndex c + 1) n) (sr_searchChunks r) 0 in
      if next \<noteq> length (sr_searchChunks r) then Inl ChunkIndexGap else Inr next)"

fun ordinals_from :: "nat \<Rightarrow> session_entry list \<Rightarrow> constraint + nat" where
  "ordinals_from n [] = Inr n"
| "ordinals_from n (e # es) = (if se_ordinal e \<noteq> n then Inl (OrdinalGap (se_id e)) else ordinals_from (n + 1) es)"

section \<open>Transactions\<close>

datatype transaction_result = TransactionCommitted commit_evidence | TransactionConflict nat

definition findCommit :: "store_db \<Rightarrow> string \<Rightarrow> commit_evidence option" where
  "findCommit db commitId = js_get (db_commits db) commitId"

definition write_row :: "transaction_payload \<Rightarrow> session_row \<Rightarrow> session_row" where
  "write_row p r =
     r\<lparr>sr_entries := sr_entries r @ tp_entries p,
       sr_clientInputs := foldl (\<lambda>m w. js_set m (ir_clientMessageId w) w) (sr_clientInputs r) (tp_clientInputs p),
       sr_searchChunks := sr_searchChunks r @ tp_searchChunks p,
       sr_projection := tp_session p\<rparr>"

definition check_transaction :: "store_env \<Rightarrow> apply_input \<Rightarrow> session_row \<Rightarrow> constraint + nat" where
  "check_transaction env i r =
     (let p = ai_payload i; digestInput = env_inputDigest env in
      res_bind (validateTransactionEntryReferences env r (tp_entries p)) (\<lambda>_.
      res_bind (nextSearchChunkIndex r) (\<lambda>chunk.
      res_bind (map_sum ProjectionRefused id (createSessionStoreTransactionValidationState digestInput (sr_createdAt r)
          (loadTransactionClientInputs r (tp_entries p)) (lastOrdinal r + 1) chunk)) (\<lambda>state.
      res_bind (map_sum ProjectionRefused id (validateSessionStoreTransactionProjections digestInput state (tp_entries p)
          (tp_clientInputs p) (tp_searchChunks p))) (\<lambda>_.
      res_bind (ordinals_from (lastOrdinal r + 1) (tp_entries p)) (\<lambda>next.
        if \<exists>leaf \<in> set_option (pj_leafId (tp_session p)). leaf \<notin> se_id ` set (sr_entries r @ tp_entries p) then Inl LeafNotStored
        else if \<not> env_sqlAccepts env i then Inl SqlRefused
        else Inr next))))))"

definition transact :: "store_env \<Rightarrow> string \<Rightarrow> apply_input \<Rightarrow> store_db \<Rightarrow> store_error + transaction_result \<times> store_db" where
  "transact env now i db =
     (case findCommit db (ai_commitId i) of
        Some previous \<Rightarrow>
          if ev_session previous \<noteq> ai_session i \<or> ev_digest previous \<noteq> ai_digest i then Inl CommitIdentityConflict
          else Inr (TransactionCommitted previous, db)
      | None \<Rightarrow>
          (case findSummaryRow db (ai_session i) of
             None \<Rightarrow> Inl SessionNotFound
           | Some r \<Rightarrow>
               if lastOrdinal r \<noteq> ai_expectedOrdinal i then Inr (TransactionConflict (lastOrdinal r), db)
               else
                 res_bind (map_sum ConstraintFailed id (check_transaction env i r)) (\<lambda>next.
                   case indexReviewEntries env (ai_session i) (tp_entries (ai_payload i)) db of
                     None \<Rightarrow> Inl (ConstraintFailed ReviewRecord)
                   | Some db1 \<Rightarrow>
                       let ev = \<lparr>ev_session = ai_session i, ev_commitId = ai_commitId i, ev_digest = ai_digest i,
                                 ev_beforeOrdinal = lastOrdinal r, ev_afterOrdinal = next - 1, ev_committedAt = now\<rparr>
                       in Inr (TransactionCommitted ev,
                            db1\<lparr>db_sessions := js_set (db_sessions db1) (fst (ai_session i)) (write_row (ai_payload i) r),
                                db_commits := js_set (db_commits db1) (ai_commitId i) ev\<rparr>))))"

definition applyTransaction ::
    "store_env \<Rightarrow> string \<Rightarrow> apply_input \<Rightarrow> store_db \<Rightarrow> (store_error + transaction_result) \<times> store_db" where
  "applyTransaction env now i db =
     (if env_payloadDigest env (ai_payload i) \<noteq> ai_digest i then (Inl CommitDigestMismatch, db)
      else case transact env now i db of Inl err \<Rightarrow> (Inl err, db) | Inr (result, db') \<Rightarrow> (Inr result, db'))"

datatype reconciliation = ReconciledCommitted commit_evidence | ReconciledNotFound | ReconciledMismatch

definition reconcileCommit :: "store_db \<Rightarrow> session_identity \<Rightarrow> string \<Rightarrow> string \<Rightarrow> reconciliation" where
  "reconcileCommit db s commitId digest =
     (case findCommit db commitId of
        None \<Rightarrow> ReconciledNotFound
      | Some ev \<Rightarrow> if ev_session ev \<noteq> s \<or> ev_digest ev \<noteq> digest then ReconciledMismatch else ReconciledCommitted ev)"

end
