(* ===== verification/Derived_State.thy ===== *)
theory Derived_State
  imports Session_Store Fold_Tree
begin

text \<open>
  What holds of the derived state of a session: client inputs are stored under their own ids (\<open>keyed\<close>), and the
  projections of a batch are exactly what it adds, so that writing them to the store's rows gives the rows of the
  new state.
\<close>

section \<open>Writing rows\<close>

lemma js_set_same: "js_set (js_set m k v) k w = js_set m k w"
  by (induction m) auto

lemma js_set_commute:
  "x \<noteq> c \<Longrightarrow> c \<in> set (js_keys m) \<Longrightarrow> js_set (js_set m c r) x v = js_set (js_set m x v) c r"
  by (induction m) auto

definition write_ids :: "('k \<Rightarrow> 'v) \<Rightarrow> 'k list \<Rightarrow> ('k, 'v) js_map \<Rightarrow> ('k, 'v) js_map" where
  "write_ids f ids m = foldl (\<lambda>m c. js_set m c (f c)) m ids"

lemma write_ids_Nil [simp]: "write_ids f [] m = m"
  by (simp add: write_ids_def)

lemma write_ids_snoc [simp]: "write_ids f (ids @ [c]) m = js_set (write_ids f ids m) c (f c)"
  by (simp add: write_ids_def)

lemma write_ids_keys: "set (js_keys (write_ids f ids m)) = set (js_keys m) \<union> set ids"
  by (induction ids rule: rev_induct) (auto simp: js_keys_set)

lemma write_ids_cong: "(\<And>c. c \<in> set ids \<Longrightarrow> f c = g c) \<Longrightarrow> write_ids f ids m = write_ids g ids m"
  unfolding write_ids_def by (rule foldl_cong) auto

lemma write_ids_update:
  assumes "g c = r" and "\<And>x. x \<noteq> c \<Longrightarrow> g x = f x"
  shows "c \<in> set ids \<Longrightarrow> distinct ids \<Longrightarrow> write_ids g ids m = js_set (write_ids f ids m) c r"
proof (induction ids rule: rev_induct)
  case (snoc x xs)
  show ?case
  proof (cases "x = c")
    case True
    with snoc.prems have "write_ids g xs m = write_ids f xs m" by (intro write_ids_cong assms(2)) auto
    with True assms(1) show ?thesis by (simp add: js_set_same)
  next
    case False
    then have "write_ids g xs m = js_set (write_ids f xs m) c r" using snoc by simp
    moreover have "c \<in> set (js_keys (write_ids f xs m))" using False snoc.prems by (simp add: write_ids_keys)
    ultimately show ?thesis using False js_set_commute [of x c "write_ids f xs m" r "f x"] by (simp add: assms(2))
  qed
qed simp

section \<open>One entry\<close>

lemma derive_records_sel [simp]:
  "ds_clientInputsById (derive_records e s) = ds_clientInputsById s"
  "ds_clientInputIdByEntryId (derive_records e s) = ds_clientInputIdByEntryId s"
  "ds_searchChunks (derive_records e s) = ds_searchChunks s"
  "ds_searchChunkByEntryId (derive_records e s) = ds_searchChunkByEntryId s"
  "ds_nextSearchChunkIndex (derive_records e s) = ds_nextSearchChunkIndex s"
  "ds_leafId (derive_records e s) = ds_leafId s"
  "ds_headerTimestamp (derive_records e s) = ds_headerTimestamp s"
  by (simp_all add: derive_records_def split: entry_body.splits option.splits)

lemma derive_leaf_sel [simp]:
  "ds_clientInputsById (derive_leaf e s) = ds_clientInputsById s"
  "ds_clientInputIdByEntryId (derive_leaf e s) = ds_clientInputIdByEntryId s"
  "ds_searchChunks (derive_leaf e s) = ds_searchChunks s"
  "ds_searchChunkByEntryId (derive_leaf e s) = ds_searchChunkByEntryId s"
  "ds_nextSearchChunkIndex (derive_leaf e s) = ds_nextSearchChunkIndex s"
  "ds_headerTimestamp (derive_leaf e s) = ds_headerTimestamp s"
  by (simp_all add: derive_leaf_def split: entry_body.splits)

lemma derive_chunk_sel [simp]:
  "ds_clientInputsById (derive_chunk e s) = ds_clientInputsById s"
  "ds_clientInputIdByEntryId (derive_chunk e s) = ds_clientInputIdByEntryId s"
  "ds_headerTimestamp (derive_chunk e s) = ds_headerTimestamp s"
  "ds_leafId (derive_chunk e s) = ds_leafId s"
  by (simp_all add: derive_chunk_def Let_def)

lemma derive_input_sel [simp]:
  "ds_searchChunks (derive_input e i s) = ds_searchChunks s"
  "ds_searchChunkByEntryId (derive_input e i s) = ds_searchChunkByEntryId s"
  "ds_nextSearchChunkIndex (derive_input e i s) = ds_nextSearchChunkIndex s"
  "ds_headerTimestamp (derive_input e i s) = ds_headerTimestamp s"
  "ds_leafId (derive_input e i s) = ds_leafId s"
  by (simp_all add: derive_input_def split: option.splits)

definition entry_chunk :: "nat \<Rightarrow> session_entry \<Rightarrow> search_chunk option" where
  "entry_chunk n e =
     (if searchableText e = '''' then None
      else Some \<lparr>sc_chunkIndex = n, sc_entryId = se_id e, sc_text = searchableText e\<rparr>)"

lemma applySessionEntry_Inr:
  assumes "applySessionEntry digestInput s e = Inr s'"
  obtains input where
    "reduceClientInputEntry digestInput (ds_clientInputsById s) e = Inr input"
    "ds_clientInputsById s' = (case input of None \<Rightarrow> ds_clientInputsById s
       | Some r \<Rightarrow> js_set (ds_clientInputsById s) (ir_clientMessageId r) r)"
    "ds_clientInputIdByEntryId s' = (case input of None \<Rightarrow> ds_clientInputIdByEntryId s
       | Some r \<Rightarrow> js_set (ds_clientInputIdByEntryId s) (se_id e) (ir_clientMessageId r))"
    "ds_searchChunks s' = ds_searchChunks s @ (case entry_chunk (ds_nextSearchChunkIndex s) e of None \<Rightarrow> [] | Some c \<Rightarrow> [c])"
    "ds_searchChunkByEntryId s' = (case entry_chunk (ds_nextSearchChunkIndex s) e of None \<Rightarrow> ds_searchChunkByEntryId s
       | Some c \<Rightarrow> js_set (ds_searchChunkByEntryId s) (se_id e) c)"
    "ds_nextSearchChunkIndex s' = ds_nextSearchChunkIndex s + (case entry_chunk (ds_nextSearchChunkIndex s) e of None \<Rightarrow> 0 | Some c \<Rightarrow> 1)"
    "ds_nextOrdinal s = se_ordinal e" "ds_nextOrdinal s' = ds_nextOrdinal s + 1"
    "ds_headerTimestamp s' = ds_headerTimestamp s" "derive_guard s e = None"
proof -
  from assms have guard: "derive_guard s e = None"
    by (auto simp: applySessionEntry_def split: option.splits)
  with assms obtain input where input: "reduceClientInputEntry digestInput (ds_clientInputsById s) e = Inr input"
    and s': "s' = (derive_leaf e (derive_chunk e (derive_input e input (derive_records e
        (s\<lparr>ds_messageSummary := accumulateMessageSummary (ds_messageSummary s) e\<rparr>)))))\<lparr>ds_nextOrdinal := ds_nextOrdinal s + 1\<rparr>"
    by (auto simp: applySessionEntry_def Let_def res_simps)
  have ord: "ds_nextOrdinal s = se_ordinal e" using guard by (auto simp: derive_guard_def split: if_splits)
  show ?thesis
    by (rule that [OF input _ _ _ _ _ ord _ _ guard])
      (auto simp: s' derive_input_def derive_chunk_def entry_chunk_def Let_def split: option.splits)
qed

section \<open>The reducer of client inputs\<close>

lemma reduce_Inr_cases:
  assumes "reduceClientInputEntry digestInput inputs e = Inr (Some r)"
  obtains
    (receipt) p where "se_body e = ClientInputReceipt p" "reduce_receipt digestInput inputs (se_id e) p = Inr r"
  | (queued) p where "se_body e = ClientInputQueued p" "reduce_queued inputs (se_id e) p = Inr r"
  | (state) p where "se_body e = ClientInputStateEntry p" "reduce_state inputs p = Inr r"
  | (message) m c where "se_body e = Message m (Some c)" "reduce_message inputs (se_id e) c = Inr r"
  using assms by (auto simp: reduceClientInputEntry_def map_sum_def split: entry_body.splits option.splits sum.splits)

text \<open>Every record is stored under its own client id.\<close>

definition keyed :: "input_map \<Rightarrow> bool" where
  "keyed m \<longleftrightarrow> distinct (js_keys m) \<and> (\<forall>k r. js_get m k = Some r \<longrightarrow> ir_clientMessageId r = k)"

lemma reduce_client_id:
  assumes "keyed inputs" and "reduceClientInputEntry digestInput inputs e = Inr (Some r)"
  shows "clientMessageIdForEntry (se_body e) = Some (ir_clientMessageId r)"
  using assms(2)
proof (cases rule: reduce_Inr_cases)
  case (receipt p)
  then show ?thesis by (auto simp: reduce_receipt_def res_simps split: if_splits)
next
  case (queued p)
  then show ?thesis using assms(1)
    by (auto simp: reduce_queued_def keyed_def res_simps split: if_splits option.splits)
next
  case (state p)
  then show ?thesis using assms(1) by (auto simp: reduce_state_def keyed_def split: if_splits option.splits)
next
  case (message m c)
  then show ?thesis using assms(1) by (auto simp: reduce_message_def keyed_def split: if_splits option.splits)
qed

lemma keyed_set: "keyed m \<Longrightarrow> keyed (js_set m (ir_clientMessageId r) r)"
  by (auto simp: keyed_def js_get_set distinct_js_keys_set)

lemma keyed_Nil [simp]: "keyed []"
  by (simp add: keyed_def)

lemma keyed_apply: "keyed (ds_clientInputsById s) \<Longrightarrow> applySessionEntry d s e = Inr s' \<Longrightarrow> keyed (ds_clientInputsById s')"
  by (erule applySessionEntry_Inr) (auto simp: keyed_set split: option.splits)

section \<open>Batches\<close>

lemma applySessionEntries_snoc:
  "applySessionEntries d (es @ [e]) s = Inr t \<longleftrightarrow> (\<exists>u. applySessionEntries d es s = Inr u \<and> applySessionEntry d u e = Inr t)"
  by (simp add: applySessionEntries_def res_fold_snoc)

lemma applySessionEntries_append:
  "applySessionEntries d (xs @ ys) s = res_bind (applySessionEntries d xs s) (applySessionEntries d ys)"
  by (simp add: applySessionEntries_def [abs_def] res_fold_append)

lemma applySessionEntries_Nil [simp]: "applySessionEntries d [] s = Inr s"
  by (simp add: applySessionEntries_def)

text \<open>The new ids of a batch: not those of the entries the state was derived from.\<close>

definition fresh_batch :: "derived_state \<Rightarrow> session_entry list \<Rightarrow> bool" where
  "fresh_batch s es \<longleftrightarrow> distinct (map se_id es) \<and>
     (\<forall>e \<in> set es. se_id e \<notin> set (js_keys (ds_clientInputIdByEntryId s)) \<and>
        se_id e \<notin> set (js_keys (ds_searchChunkByEntryId s)) \<and>
        clientMessageIdForEntry (se_body e) \<noteq> Some '''')"

lemma fresh_batch_snoc: "fresh_batch s (es @ [e]) \<Longrightarrow> fresh_batch s es"
  by (auto simp: fresh_batch_def)

lemma fresh_batch_other: "fresh_batch s (es @ [e]) \<Longrightarrow> e' \<in> set es \<Longrightarrow> se_id e' \<noteq> se_id e"
  unfolding fresh_batch_def by (metis distinct.simps(2) distinct_append distinct_map image_eqI list.set_map map_append
    list.simps(9) not_distinct_conv_prefix in_set_conv_decomp disjoint_iff list.set_intros(1))

lemma batch_keys:
  assumes "applySessionEntries d es s = Inr t" 
  shows "set (js_keys (ds_clientInputIdByEntryId t)) \<subseteq> set (js_keys (ds_clientInputIdByEntryId s)) \<union> se_id ` set es \<and>
    set (js_keys (ds_searchChunkByEntryId t)) \<subseteq> set (js_keys (ds_searchChunkByEntryId s)) \<union> se_id ` set es"
  using assms
proof (induction es arbitrary: t rule: rev_induct)
  case (snoc e es)
  then obtain u where u: "applySessionEntries d es s = Inr u" and e: "applySessionEntry d u e = Inr t"
    by (auto simp: applySessionEntries_snoc)
  from e show ?case
    by (rule applySessionEntry_Inr) (use snoc.IH [OF u] in \<open>auto simp: js_keys_set split: option.splits if_splits\<close>)
qed simp

lemma affected_ids_snoc:
  "affected_ids s (es @ [e]) =
     (case js_get (ds_clientInputIdByEntryId s) (se_id e) of None \<Rightarrow> affected_ids s es
      | Some c \<Rightarrow> if c = '''' \<or> c \<in> set (affected_ids s es) then affected_ids s es else affected_ids s es @ [c])"
  by (simp add: affected_ids_def split: option.split)

lemma affected_ids_cong:
  "(\<And>e. e \<in> set es \<Longrightarrow> js_get (ds_clientInputIdByEntryId s) (se_id e) = js_get (ds_clientInputIdByEntryId t) (se_id e)) \<Longrightarrow>
   affected_ids s es = affected_ids t es"
  by (induction es rule: rev_induct) (auto simp: affected_ids_snoc affected_ids_def)

lemma affected_ids_distinct: "distinct (affected_ids s es)"
  by (induction es rule: rev_induct) (auto simp: affected_ids_snoc affected_ids_def split: option.splits)

lemma affected_ids_mem: "c \<in> set (affected_ids s es) \<Longrightarrow> \<exists>e\<in>set es. js_get (ds_clientInputIdByEntryId s) (se_id e) = Some c"
  by (induction es rule: rev_induct) (auto simp: affected_ids_snoc affected_ids_def split: option.splits if_splits)

text \<open>Writing the client inputs of a batch turns the rows of the old state into the rows of the new one.\<close>

lemma batch_input_ids:
  assumes "applySessionEntries d es s = Inr t" and "keyed (ds_clientInputsById s)" and "fresh_batch s es"
  shows "keyed (ds_clientInputsById t) \<and> set (affected_ids t es) \<subseteq> set (js_keys (ds_clientInputsById t)) \<and>
    ds_clientInputsById t =
      write_ids (\<lambda>c. the (js_get (ds_clientInputsById t) c)) (affected_ids t es) (ds_clientInputsById s)"
  using assms
proof (induction es arbitrary: t rule: rev_induct)
  case (snoc e es)
  then obtain u where u: "applySessionEntries d es s = Inr u" and e: "applySessionEntry d u e = Inr t"
    by (auto simp: applySessionEntries_snoc)
  from snoc.IH [OF u snoc.prems(2) fresh_batch_snoc [OF snoc.prems(3)]]
  have IH: "keyed (ds_clientInputsById u)" "set (affected_ids u es) \<subseteq> set (js_keys (ds_clientInputsById u))"
    "ds_clientInputsById u = write_ids (\<lambda>c. the (js_get (ds_clientInputsById u) c)) (affected_ids u es) (ds_clientInputsById s)"
    by blast+
  have new: "js_get (ds_clientInputIdByEntryId u) (se_id e) = None"
    using batch_keys [OF u] snoc.prems(3) by (auto simp: js_get_None_iff fresh_batch_def)
  note other = fresh_batch_other [OF snoc.prems(3)]
  have kt: "keyed (ds_clientInputsById t)" using keyed_apply [OF IH(1) e] .
  from e show ?case
  proof (rule applySessionEntry_Inr)
    fix input
    assume red: "reduceClientInputEntry d (ds_clientInputsById u) e = Inr input"
      and inp: "ds_clientInputsById t = (case input of None \<Rightarrow> ds_clientInputsById u
       | Some r \<Rightarrow> js_set (ds_clientInputsById u) (ir_clientMessageId r) r)"
      and byId: "ds_clientInputIdByEntryId t = (case input of None \<Rightarrow> ds_clientInputIdByEntryId u
       | Some r \<Rightarrow> js_set (ds_clientInputIdByEntryId u) (se_id e) (ir_clientMessageId r))"
    show ?thesis
    proof (cases input)
      case None
      have "affected_ids t (es @ [e]) = affected_ids u es"
        using None byId new affected_ids_cong [of es t u] by (simp add: affected_ids_snoc)
      with None inp IH kt show ?thesis by simp
    next
      case (Some r)
      let ?c = "ir_clientMessageId r"
      have c: "?c \<noteq> ''''" using reduce_client_id [OF IH(1)] red Some snoc.prems(3) by (auto simp: fresh_batch_def)
      have same: "affected_ids t es = affected_ids u es"
        using other by (intro affected_ids_cong) (simp add: byId Some js_get_set)
      have aff: "affected_ids t (es @ [e]) = (if ?c \<in> set (affected_ids u es) then affected_ids u es else affected_ids u es @ [?c])"
        using c same by (simp add: affected_ids_snoc byId Some js_get_set)
      let ?f = "\<lambda>c. the (js_get (ds_clientInputsById u) c)" and ?g = "\<lambda>c. the (js_get (ds_clientInputsById t) c)"
      have g: "?g ?c = r" "\<And>x. x \<noteq> ?c \<Longrightarrow> ?g x = ?f x" by (simp_all add: inp Some js_get_set)
      have inputs: "ds_clientInputsById t = js_set (write_ids ?f (affected_ids u es) (ds_clientInputsById s)) ?c r"
        using IH(3) inp Some by simp
      show ?thesis
      proof (cases "?c \<in> set (affected_ids u es)")
        case True
        have "write_ids ?g (affected_ids u es) (ds_clientInputsById s) = ds_clientInputsById t"
          unfolding inputs using write_ids_update [where f = ?f and g = ?g, OF g True affected_ids_distinct] inputs by simp
        then show ?thesis using True aff kt IH(2) inp Some by (auto simp: js_keys_set)
      next
        case False
        have "write_ids ?g (affected_ids u es) (ds_clientInputsById s) = write_ids ?f (affected_ids u es) (ds_clientInputsById s)"
          using False by (intro write_ids_cong) (metis g(2))
        then have "write_ids ?g (affected_ids u es @ [?c]) (ds_clientInputsById s) = ds_clientInputsById t"
          unfolding write_ids_snoc g(1) inputs [symmetric] by (simp only: inputs)
        then show ?thesis using False aff kt IH(2) inp Some by (auto simp: js_keys_set)
      qed
    qed
  qed
qed (simp add: affected_ids_def)

lemma map_filter_get:
  "set ids \<subseteq> set (js_keys m) \<Longrightarrow> List.map_filter (js_get m) ids = map (\<lambda>c. the (js_get m c)) ids"
proof (induction ids)
  case (Cons c ids)
  then obtain v where "js_get m c = Some v" by (cases "js_get m c") (auto simp: js_get_None_iff)
  with Cons show ?case by simp
qed simp

lemma write_records:
  "keyed m \<Longrightarrow> set ids \<subseteq> set (js_keys m) \<Longrightarrow>
   foldl (\<lambda>rows w. js_set rows (ir_clientMessageId w) w) rows (List.map_filter (js_get m) ids) =
   write_ids (\<lambda>c. the (js_get m c)) ids rows"
proof (induction ids rule: rev_induct)
  case (snoc c ids)
  then obtain v where v: "js_get m c = Some v" by (cases "js_get m c") (auto simp: js_get_None_iff)
  with snoc.prems(1) have "ir_clientMessageId v = c" by (simp add: keyed_def)
  with snoc v show ?case by simp
qed simp

lemma batch_inputs_written:
  assumes "applySessionEntries d es s = Inr t" and "keyed (ds_clientInputsById s)" and "fresh_batch s es"
  shows "foldl (\<lambda>rows w. js_set rows (ir_clientMessageId w) w) (ds_clientInputsById s) (sessionStoreClientInputsForEntries t es) =
    ds_clientInputsById t"
proof -
  note b = batch_input_ids [OF assms]
  have "keyed (ds_clientInputsById t)" "set (affected_ids t es) \<subseteq> set (js_keys (ds_clientInputsById t))" using b by blast+
  from write_records [OF this, of "ds_clientInputsById s"] b show ?thesis
    unfolding sessionStoreClientInputsForEntries_def by metis
qed

text \<open>The search chunks of a batch are the ones it appends.\<close>

lemma batch_chunks_written:
  assumes "applySessionEntries d es s = Inr t" and "fresh_batch s es"
  shows "ds_searchChunks t = ds_searchChunks s @ sessionStoreSearchChunksForEntries t es"
  using assms
proof (induction es arbitrary: t rule: rev_induct)
  case Nil
  then show ?case by (simp add: sessionStoreSearchChunksForEntries_def)
next
  case (snoc e es)
  then obtain u where u: "applySessionEntries d es s = Inr u" and e: "applySessionEntry d u e = Inr t"
    by (auto simp: applySessionEntries_snoc)
  have IH: "ds_searchChunks u = ds_searchChunks s @ sessionStoreSearchChunksForEntries u es"
    by (rule snoc.IH [OF u fresh_batch_snoc [OF snoc.prems(2)]])
  have new: "js_get (ds_searchChunkByEntryId u) (se_id e) = None"
    using batch_keys [OF u] snoc.prems(2) by (auto simp: js_get_None_iff fresh_batch_def)
  note other = fresh_batch_other [OF snoc.prems(2)]
  from e show ?case
  proof (rule applySessionEntry_Inr)
    assume chunks: "ds_searchChunks t = ds_searchChunks u @ (case entry_chunk (ds_nextSearchChunkIndex u) e of None \<Rightarrow> [] | Some c \<Rightarrow> [c])"
      and byId: "ds_searchChunkByEntryId t = (case entry_chunk (ds_nextSearchChunkIndex u) e of None \<Rightarrow> ds_searchChunkByEntryId u
       | Some c \<Rightarrow> js_set (ds_searchChunkByEntryId u) (se_id e) c)"
    have "sessionStoreSearchChunksForEntries t es = sessionStoreSearchChunksForEntries u es"
      unfolding sessionStoreSearchChunksForEntries_def
      by (rule map_filter_cong) (use other in \<open>auto simp: byId js_get_set split: option.split\<close>)
    then show ?thesis using IH chunks byId new
      by (auto simp: sessionStoreSearchChunksForEntries_def js_get_set split: option.splits)
  qed
qed

end
