(* ===== verification/Sqlite_Log.thy ===== *)
theory Sqlite_Log
  imports Session_Store Conversation_Log
begin

text \<open>
  The conversation log over the session store (\<^verbatim>\<open>core/conversation-log/sqlite-conversation-log.ts\<close>, its writer
  lock in \<^verbatim>\<open>conversation-lock.ts\<close>). A log object is the record \<open>sqlite_log\<close>; \<open>sqlite_world\<close> holds the store's
  tables, the logs that are open for writing by session id (each holds its session's lock), and what the next
  requests to the store's worker will meet.

  A request to apply a transaction can be served, can fail before the worker ran it, or can fail after the
  worker committed it. By the time a failed request is reconciled the worker that ran it has exited, so these
  are the only outcomes; the reconciliation itself may fail too. Appends run one at a time, so an append is one
  step on the world.
\<close>

section \<open>State\<close>

datatype request_fault = Served | FailedBefore | FailedAfter

record fault =
  ft_request :: request_fault
  ft_reconciles :: bool
  ft_now :: string

definition no_fault :: fault where
  "no_fault = \<lparr>ft_request = Served, ft_reconciles = True, ft_now = ''''\<rparr>"

record sqlite_log =
  sl_ref :: session_identity
  sl_state :: derived_state
  sl_committedOrdinal :: nat
  sl_commits :: "(string, commit_record) js_map"
  sl_openedSnapshot :: "store_snapshot option"
  sl_lostError :: "loss_reason option"

record sqlite_world =
  qw_db :: store_db
  qw_logs :: "(string, sqlite_log) js_map"
  qw_faults :: "fault list"

definition set_log :: "string \<Rightarrow> sqlite_log \<Rightarrow> sqlite_world \<Rightarrow> sqlite_world" where
  "set_log sid l w = w\<lparr>qw_logs := js_set (qw_logs w) sid l\<rparr>"

definition lose :: "loss_reason \<Rightarrow> sqlite_log \<Rightarrow> loss_reason \<times> sqlite_log" where
  "lose reason l =
     (case sl_lostError l of Some e \<Rightarrow> (e, l) | None \<Rightarrow> (reason, l\<lparr>sl_lostError := Some reason\<rparr>))"

section \<open>Opening\<close>

definition CURRENT_SESSION_VERSION :: nat where
  "CURRENT_SESSION_VERSION = 5"

datatype open_failure =
    ConversationLocked
  | OpenStore store_error
  | OpenNotFound
  | WrongVersion
  | EntryIntegrity
  | ReplayFailed projection_error
  | ProjectionIntegrity

definition verifySessionStoreProjections :: "derived_state \<Rightarrow> store_snapshot \<Rightarrow> bool" where
  "verifySessionStoreProjections s snap \<longleftrightarrow>
     sessionStoreProjection s = sr_projection (sn_row snap) \<and>
     allSessionStoreClientInputs s = sn_clientInputs snap \<and> ds_searchChunks s = sn_searchChunks snap"

definition replaySnapshot :: "store_env \<Rightarrow> store_snapshot \<Rightarrow> open_failure + derived_state" where
  "replaySnapshot env snap =
     (let row = sn_row snap in
      if sr_formatVersion row \<noteq> CURRENT_SESSION_VERSION then Inl WrongVersion
      else if \<not> list_all (env_persisted env) (sn_entries snap) then Inl EntryIntegrity
      else res_bind (map_sum ReplayFailed id
             (replaySessionEntries (env_inputDigest env) (sr_createdAt row) (sn_entries snap))) (\<lambda>s.
        if verifySessionStoreProjections s snap then Inr s else Inl ProjectionIntegrity))"

definition new_sqlite_log :: "session_identity \<Rightarrow> store_snapshot \<Rightarrow> derived_state \<Rightarrow> sqlite_log" where
  "new_sqlite_log ref snap s =
     \<lparr>sl_ref = ref, sl_state = s, sl_committedOrdinal = ds_nextOrdinal s - 1, sl_commits = [],
      sl_openedSnapshot = Some snap, sl_lostError = None\<rparr>"

definition sq_load :: "store_env \<Rightarrow> store_db \<Rightarrow> session_identity \<Rightarrow> open_failure + sqlite_log" where
  "sq_load env db ref =
     (case loadSession db ref of
        None \<Rightarrow> Inl OpenNotFound
      | Some snap \<Rightarrow> res_bind (replaySnapshot env snap) (\<lambda>s. Inr (new_sqlite_log ref snap s)))"

text \<open>A failure to open releases the lock it took.\<close>

definition sq_open :: "store_env \<Rightarrow> session_identity \<Rightarrow> sqlite_world \<Rightarrow> (open_failure + sqlite_log) \<times> sqlite_world" where
  "sq_open env ref w =
     (if js_has (qw_logs w) (fst ref) then (Inl ConversationLocked, w)
      else case sq_load env (qw_db w) ref of
        Inl err \<Rightarrow> (Inl err, w)
      | Inr l \<Rightarrow> (Inr l, set_log (fst ref) l w))"

definition sq_create :: "store_env \<Rightarrow> create_input \<Rightarrow> sqlite_world \<Rightarrow> (open_failure + sqlite_log) \<times> sqlite_world" where
  "sq_create env i w =
     (if js_has (qw_logs w) (fst (ct_session i)) then (Inl ConversationLocked, w)
      else case createSession env (i\<lparr>ct_formatVersion := CURRENT_SESSION_VERSION\<rparr>) (qw_db w) of
        (Inl err, _) \<Rightarrow> (Inl (OpenStore err), w)
      | (Inr _, db) \<Rightarrow>
          (case sq_load env db (ct_session i) of
             Inl err \<Rightarrow> (Inl err, w\<lparr>qw_db := db\<rparr>)
           | Inr l \<Rightarrow> (Inr l, set_log (fst (ct_session i)) l (w\<lparr>qw_db := db\<rparr>))))"

definition takeOpenedSnapshot :: "sqlite_log \<Rightarrow> (store_snapshot \<times> sqlite_log) option" where
  "takeOpenedSnapshot l = map_option (\<lambda>snap. (snap, l\<lparr>sl_openedSnapshot := None\<rparr>)) (sl_openedSnapshot l)"

text \<open>Closing loses the log and releases the lock; later calls on the log object find it lost.\<close>

definition sq_close :: "string \<Rightarrow> sqlite_world \<Rightarrow> sqlite_world" where
  "sq_close sid w = w\<lparr>qw_logs := js_delete (qw_logs w) sid\<rparr>"

text \<open>The end of the process: its locks go with it.\<close>

definition sq_crash :: "sqlite_world \<Rightarrow> sqlite_world" where
  "sq_crash w = w\<lparr>qw_logs := [], qw_faults := []\<rparr>"

section \<open>Appending\<close>

record prepared_commit =
  pc_input :: apply_input
  pc_state :: derived_state
  pc_last :: nat

fun session_entries :: "(session_entry \<Rightarrow> bool) \<Rightarrow> nat \<Rightarrow> entry_draft list \<Rightarrow> codec_error + session_entry list" where
  "session_entries persisted ordinal [] = Inr []"
| "session_entries persisted ordinal (d # ds) =
     res_bind (toSessionEntry persisted d (ordinal + 1)) (\<lambda>e.
       res_bind (session_entries persisted (ordinal + 1) ds) (\<lambda>es. Inr (e # es)))"

definition transaction_of :: "derived_state \<Rightarrow> session_entry list \<Rightarrow> transaction_payload" where
  "transaction_of s es =
     \<lparr>tp_session = sessionStoreProjection s, tp_entries = es,
      tp_clientInputs = sessionStoreClientInputsForEntries s es,
      tp_searchChunks = sessionStoreSearchChunksForEntries s es\<rparr>"

datatype prepare_error = PrepareCodec codec_error | PrepareProjection projection_error

definition prepare :: "store_env \<Rightarrow> sqlite_log \<Rightarrow> log_append \<Rightarrow> prepare_error + prepared_commit" where
  "prepare env l b =
     res_bind (map_sum PrepareCodec id (session_entries (env_persisted env) (ap_expectedOrdinal b) (ap_entries b))) (\<lambda>es.
     res_bind (map_sum PrepareProjection id (applySessionEntries (env_inputDigest env) es (sl_state l))) (\<lambda>s.
       let payload = transaction_of s es in
       Inr \<lparr>pc_input = \<lparr>ai_session = sl_ref l, ai_expectedOrdinal = ap_expectedOrdinal b, ai_commitId = ap_commitId b,
                        ai_digest = env_payloadDigest env payload, ai_payload = payload\<rparr>,
            pc_state = s, pc_last = ap_expectedOrdinal b + length es\<rparr>))"

datatype apply_outcome = Applied nat nat | NotApplied | Loses loss_reason

definition sq_reconcile :: "fault \<Rightarrow> prepared_commit \<Rightarrow> store_db \<Rightarrow> apply_outcome" where
  "sq_reconcile f p db =
     (let i = pc_input p in
      if \<not> ft_reconciles f then Loses UncertainCommit
      else case findSummaryRow db (ai_session i) of
        None \<Rightarrow> Loses StorageFailure
      | Some r \<Rightarrow>
          (case reconcileCommit db (ai_session i) (ai_commitId i) (ai_digest i) of
             ReconciledCommitted _ \<Rightarrow>
               if lastOrdinal r \<noteq> pc_last p then Loses FenceConflict
               else Applied (ai_expectedOrdinal i + 1) (pc_last p)
           | _ \<Rightarrow> if lastOrdinal r \<noteq> ai_expectedOrdinal i then Loses FenceConflict else NotApplied))"

definition sq_apply :: "store_env \<Rightarrow> fault \<Rightarrow> prepared_commit \<Rightarrow> store_db \<Rightarrow> apply_outcome \<times> store_db" where
  "sq_apply env f p db =
     (let i = pc_input p; (result, db') = applyTransaction env (ft_now f) i db in
      case ft_request f of
        FailedBefore \<Rightarrow> (sq_reconcile f p db, db)
      | FailedAfter \<Rightarrow> (sq_reconcile f p db', db')
      | Served \<Rightarrow>
          (case result of
             Inl _ \<Rightarrow> (sq_reconcile f p db', db')
           | Inr (TransactionConflict _) \<Rightarrow> (Loses FenceConflict, db')
           | Inr (TransactionCommitted _) \<Rightarrow> (Applied (ai_expectedOrdinal i + 1) (pc_last p), db')))"

definition next_fault :: "sqlite_world \<Rightarrow> fault \<times> sqlite_world" where
  "next_fault w = (case qw_faults w of [] \<Rightarrow> (no_fault, w) | f # fs \<Rightarrow> (f, w\<lparr>qw_faults := fs\<rparr>))"

definition sq_commit ::
    "store_env \<Rightarrow> string \<Rightarrow> sqlite_log \<Rightarrow> log_append \<Rightarrow> prepared_commit \<Rightarrow> sqlite_world \<Rightarrow>
     (loss_reason + append_result) \<times> sqlite_world" where
  "sq_commit env sid l b p w =
     (let (f, w1) = next_fault w; (outcome, db) = sq_apply env f p (qw_db w1); w2 = w1\<lparr>qw_db := db\<rparr> in
      case outcome of
        Loses reason \<Rightarrow> let (e, l1) = lose reason l in (Inl e, set_log sid l1 w2)
      | NotApplied \<Rightarrow> (Inr (RolledBack RequestFailed), w2)
      | Applied m n \<Rightarrow>
          (Inr (Committed m n),
           set_log sid (l\<lparr>sl_state := pc_state p, sl_committedOrdinal := n,
             sl_commits := js_set (sl_commits l) (ap_commitId b)
               \<lparr>cr_expectedOrdinal = ap_expectedOrdinal b, cr_entries = ap_entries b, cr_first = m, cr_last = n\<rparr>\<rparr>) w2))"

definition sq_append :: "store_env \<Rightarrow> string \<Rightarrow> sqlite_world \<Rightarrow> log_append \<Rightarrow> (loss_reason + append_result) \<times> sqlite_world" where
  "sq_append env sid w b =
     (case js_get (qw_logs w) sid of
        None \<Rightarrow> (Inl LogClosed, w)
      | Some l \<Rightarrow>
          (case sl_lostError l of
             Some e \<Rightarrow> (Inl e, w)
           | None \<Rightarrow>
               (case js_get (sl_commits l) (ap_commitId b) of
                  Some previous \<Rightarrow>
                    if cr_expectedOrdinal previous = ap_expectedOrdinal b \<and> sameDrafts (cr_entries previous) (ap_entries b)
                    then (Inr (Committed (cr_first previous) (cr_last previous)), w)
                    else (Inr (RolledBack (CommitIdReused (ap_commitId b))), w)
                | None \<Rightarrow>
                    if ap_expectedOrdinal b \<noteq> sl_committedOrdinal l
                    then let (e, l1) = lose FenceConflict l in (Inl e, set_log sid l1 w)
                    else if ap_commitId b = '''' then (Inr (RolledBack EmptyCommitId), w)
                    else if ap_entries b = [] then (Inr (RolledBack EmptyBatch), w)
                    else (case prepare env l b of
                            Inl _ \<Rightarrow> (Inr (RolledBack BatchInvalid), w)
                          | Inr p \<Rightarrow> sq_commit env sid l b p w))))"

section \<open>Reading\<close>

definition sq_lost :: "string \<Rightarrow> sqlite_world \<Rightarrow> loss_reason option" where
  "sq_lost sid w = (case js_get (qw_logs w) sid of None \<Rightarrow> Some LogClosed | Some l \<Rightarrow> sl_lostError l)"

definition sq_head :: "sqlite_log \<Rightarrow> nat" where
  "sq_head l = sl_committedOrdinal l"

text \<open>
  A page of the log; a read whose worker failed is repeated on the worker that replaced it, and a page of a
  session that no longer exists loses the log.
\<close>

definition sq_read :: "string \<Rightarrow> sqlite_world \<Rightarrow> int \<Rightarrow> int \<Rightarrow> read_error + log_page" where
  "sq_read sid w afterOrdinal limit =
     (case js_get (qw_logs w) sid of
        None \<Rightarrow> Inl (ReadLost LogClosed)
      | Some l \<Rightarrow>
          (case sl_lostError l of
             Some e \<Rightarrow> Inl (ReadLost e)
           | None \<Rightarrow>
               if \<not> safe_integer afterOrdinal \<or> afterOrdinal < 0 then Inl BadAfterOrdinal
               else if \<not> safe_integer limit \<or> limit < 1 \<or> limit > CONVERSATION_LOG_READ_LIMIT_MAX then Inl BadLimit
               else case readEntries (qw_db w) (sl_ref l) (nat afterOrdinal) (nat limit) of
                      None \<Rightarrow> Inl (ReadLost StorageFailure)
                    | Some (es, n) \<Rightarrow> Inr \<lparr>pg_entries = map toLogEntry es, pg_lastOrdinal = n\<rparr>))"

definition sq_read_world :: "string \<Rightarrow> sqlite_world \<Rightarrow> int \<Rightarrow> int \<Rightarrow> sqlite_world" where
  "sq_read_world sid w afterOrdinal limit =
     (case js_get (qw_logs w) sid of
        None \<Rightarrow> w
      | Some l \<Rightarrow>
          if sl_lostError l = None \<and> sq_read sid w afterOrdinal limit = Inl (ReadLost StorageFailure)
          then set_log sid (snd (lose StorageFailure l)) w else w)"

end
