(* ===== verification/Store_Invariant.thy ===== *)
theory Store_Invariant
  imports Derived_State Sqlite_Log
begin

text \<open>
  The invariant of the session store under the logs that write it: every session's rows are the projections of
  its entries, every commit's evidence is of a payload whose entries are stored, and an open log's state is
  the derived state of its session. What an append does to the store, whatever its request meets.

  Two facts about code that is not modelled are used, \<open>env_ok\<close>: payloads with one digest (SHA-256 of
  their canonical text) have entries with the same ordinals, and
  the entry codec refuses an empty client input id (\<^verbatim>\<open>isValidClientMessageId\<close>).
\<close>

section \<open>The invariant\<close>

definition env_ok :: "store_env \<Rightarrow> bool" where
  "env_ok env \<longleftrightarrow>
     (\<forall>p q. env_payloadDigest env p = env_payloadDigest env q \<longrightarrow>
        map se_ordinal (tp_entries p) = map se_ordinal (tp_entries q)) \<and>
     (\<forall>e. env_persisted env e \<longrightarrow> clientMessageIdForEntry (se_body e) \<noteq> Some '''')"

definition row_derived :: "store_env \<Rightarrow> session_row \<Rightarrow> derived_state \<Rightarrow> bool" where
  "row_derived env r s \<longleftrightarrow>
     replaySessionEntries (env_inputDigest env) (sr_createdAt r) (sr_entries r) = Inr s \<and>
     sr_projection r = sessionStoreProjection s \<and> sr_clientInputs r = ds_clientInputsById s \<and>
     sr_searchChunks r = ds_searchChunks s"

definition row_ok :: "store_env \<Rightarrow> session_row \<Rightarrow> bool" where
  "row_ok env r \<longleftrightarrow>
     sr_formatVersion r = CURRENT_SESSION_VERSION \<and> distinct (map se_id (sr_entries r)) \<and>
     (\<forall>e\<in>set (sr_entries r). env_persisted env e \<and> entryShape (se_body e) \<noteq> None) \<and> (\<exists>s. row_derived env r s) \<and>
     (\<forall>j\<in>set_option (pj_leafId (sr_projection r)). j \<in> se_id ` set (sr_entries r))"

definition evidence_ok :: "store_env \<Rightarrow> store_db \<Rightarrow> commit_evidence \<Rightarrow> bool" where
  "evidence_ok env db ev \<longleftrightarrow>
     (\<exists>p r. ev_digest ev = env_payloadDigest env p \<and> tp_entries p \<noteq> [] \<and>
        findSummaryRow db (ev_session ev) = Some r \<and> (\<forall>e\<in>set (tp_entries p). se_ordinal e \<le> length (sr_entries r)))"

definition db_ok :: "store_env \<Rightarrow> store_db \<Rightarrow> bool" where
  "db_ok env db \<longleftrightarrow>
     (\<forall>sid r. js_get (db_sessions db) sid = Some r \<longrightarrow> row_ok env r) \<and>
     (\<forall>ev\<in>set (js_values (db_commits db)). evidence_ok env db ev)"

definition log_ok :: "store_env \<Rightarrow> sqlite_log \<Rightarrow> session_row \<Rightarrow> bool" where
  "log_ok env l r \<longleftrightarrow>
     (sl_lostError l = None \<longrightarrow> row_derived env r (sl_state l) \<and> sl_committedOrdinal l = length (sr_entries r)) \<and>
     (\<forall>k c. js_get (sl_commits l) k = Some c \<longrightarrow> k \<noteq> '''' \<and> commit_ok (map toLogEntry (sr_entries r)) c)"

definition world_ok :: "store_env \<Rightarrow> sqlite_world \<Rightarrow> bool" where
  "world_ok env w \<longleftrightarrow> db_ok env (qw_db w) \<and>
     (\<forall>sid l. js_get (qw_logs w) sid = Some l \<longrightarrow> fst (sl_ref l) = sid \<and>
        (\<forall>r. findSummaryRow (qw_db w) (sl_ref l) = Some r \<longrightarrow> log_ok env l r))"

lemma db_ok_commit: "db_ok env db \<Longrightarrow> findCommit db k = Some ev \<Longrightarrow> evidence_ok env db ev"
  by (auto simp: db_ok_def findCommit_def dest: js_get_value)

lemma js_values_set: "set (js_values (js_set m k v)) \<subseteq> insert v (set (js_values m))"
  by (induction m) (auto split: if_splits)

lemma map_sum_id_Inr [res_simps]: "map_sum f id x = Inr y \<longleftrightarrow> x = Inr y"
  by (cases x) auto

lemma row_of: "findSummaryRow db s = Some r \<Longrightarrow> js_get (db_sessions db) (fst s) = Some r \<and> sr_generation r = snd s"
  by (auto simp: findSummaryRow_def split: option.splits if_splits)

section \<open>Replayed sessions\<close>

lemma replay_ordinals:
  "applySessionEntries d es s = Inr t \<Longrightarrow>
   map se_ordinal es = map (\<lambda>i. ds_nextOrdinal s + i) [0..<length es] \<and> ds_nextOrdinal t = ds_nextOrdinal s + length es \<and>
   ds_headerTimestamp t = ds_headerTimestamp s"
proof (induction es arbitrary: t rule: rev_induct)
  case (snoc e es)
  then obtain u where u: "applySessionEntries d es s = Inr u" and e: "applySessionEntry d u e = Inr t"
    by (auto simp: applySessionEntries_snoc)
  from e show ?case
    by (rule applySessionEntry_Inr) (use snoc.IH [OF u] in auto)
qed simp

lemma replay_keyed: "applySessionEntries d es s = Inr t \<Longrightarrow> keyed (ds_clientInputsById s) \<Longrightarrow> keyed (ds_clientInputsById t)"
proof (induction es arbitrary: t rule: rev_induct)
  case (snoc e es)
  then show ?case by (auto simp: applySessionEntries_snoc intro: keyed_apply)
qed simp

lemma replay_chunk_indexes:
  "applySessionEntries d es s = Inr t \<Longrightarrow>
   map sc_chunkIndex (ds_searchChunks s) = [0..<length (ds_searchChunks s)] \<Longrightarrow> ds_nextSearchChunkIndex s = length (ds_searchChunks s) \<Longrightarrow>
   map sc_chunkIndex (ds_searchChunks t) = [0..<length (ds_searchChunks t)] \<and> ds_nextSearchChunkIndex t = length (ds_searchChunks t)"
proof (induction es arbitrary: t rule: rev_induct)
  case (snoc e es)
  then obtain u where u: "applySessionEntries d es s = Inr u" and e: "applySessionEntry d u e = Inr t"
    by (auto simp: applySessionEntries_snoc)
  from e show ?case
    by (rule applySessionEntry_Inr) (use snoc.IH [OF u snoc.prems(2,3)] in \<open>auto simp: entry_chunk_def split: if_splits\<close>)
qed simp

lemma createSessionDerivedState_sel [simp]:
  "ds_clientInputsById (createSessionDerivedState t) = []" "ds_clientInputIdByEntryId (createSessionDerivedState t) = []"
  "ds_searchChunks (createSessionDerivedState t) = []" "ds_searchChunkByEntryId (createSessionDerivedState t) = []"
  "ds_nextOrdinal (createSessionDerivedState t) = 1" "ds_nextSearchChunkIndex (createSessionDerivedState t) = 0"
  "ds_headerTimestamp (createSessionDerivedState t) = t"
  by (simp_all add: createSessionDerivedState_def)

lemma row_derived_facts:
  assumes "row_derived env r s"
  shows "map se_ordinal (sr_entries r) = map Suc [0..<length (sr_entries r)]"
    "ds_nextOrdinal s = Suc (length (sr_entries r))" "keyed (ds_clientInputsById s)"
    "map sc_chunkIndex (ds_searchChunks s) = [0..<length (ds_searchChunks s)]"
    "ds_nextSearchChunkIndex s = length (ds_searchChunks s)"
    "set (js_keys (ds_clientInputIdByEntryId s)) \<subseteq> se_id ` set (sr_entries r)"
    "set (js_keys (ds_searchChunkByEntryId s)) \<subseteq> se_id ` set (sr_entries r)"
proof -
  have rep: "applySessionEntries (env_inputDigest env) (sr_entries r) (createSessionDerivedState (sr_createdAt r)) = Inr s"
    using assms by (simp add: row_derived_def replaySessionEntries_def)
  from replay_ordinals [OF rep]
  show "map se_ordinal (sr_entries r) = map Suc [0..<length (sr_entries r)]" "ds_nextOrdinal s = Suc (length (sr_entries r))"
    by simp_all
  from replay_keyed [OF rep] show "keyed (ds_clientInputsById s)" by simp
  from replay_chunk_indexes [OF rep]
  show "map sc_chunkIndex (ds_searchChunks s) = [0..<length (ds_searchChunks s)]"
    "ds_nextSearchChunkIndex s = length (ds_searchChunks s)" by simp_all
  from batch_keys [OF rep]
  show "set (js_keys (ds_clientInputIdByEntryId s)) \<subseteq> se_id ` set (sr_entries r)"
    "set (js_keys (ds_searchChunkByEntryId s)) \<subseteq> se_id ` set (sr_entries r)" by simp_all
qed

lemma foldr_max_Suc: "foldr max (map Suc [0..<n]) m = max n m"
  by (induction n arbitrary: m) (auto simp: max_def)

lemma lastOrdinal_length: "map se_ordinal (sr_entries r) = map Suc [0..<length (sr_entries r)] \<Longrightarrow> lastOrdinal r = length (sr_entries r)"
  by (simp only: lastOrdinal_def foldr_max_Suc max_0R)

lemma row_ok_last: "row_ok env r \<Longrightarrow> lastOrdinal r = length (sr_entries r)"
  using row_derived_facts(1) lastOrdinal_length unfolding row_ok_def by blast

lemma toLogEntry_sel [simp]:
  "e_ordinal (toLogEntry e) = se_ordinal e" "e_id (toLogEntry e) = se_id e" "e_body (toLogEntry e) = se_body e"
  by (simp_all add: toLogEntry_def)

lemma row_ok_contiguous: "row_ok env r \<Longrightarrow> contiguous (map toLogEntry (sr_entries r))"
  using row_derived_facts(1) unfolding row_ok_def contiguous_def by (auto simp: comp_def)

section \<open>The references of a batch\<close>

text \<open>The fuel of \<open>check_references\<close> is enough for the walk of a compaction: more makes no difference.\<close>

lemma kept_walk_enough:
  assumes "set visited \<subseteq> set (js_keys rel)" and "distinct visited" and "length rel - length visited < fuel"
  shows "kept_walk (fuel + k) rel kept visited cur = kept_walk fuel rel kept visited cur"
  using assms
proof (induction fuel arbitrary: visited cur)
  case (Suc fuel)
  show ?case
  proof (cases cur)
    case (Some i)
    show ?thesis
    proof (cases "i = kept \<or> i \<in> set visited")
      case False
      show ?thesis
      proof (cases "js_get rel i")
        case None
        then show ?thesis using Some False by (simp add: kept_walk.simps(1))
      next
        case (Some v)
        let ?vis = "i # visited"
        have sub: "set ?vis \<subseteq> set (js_keys rel)" using Suc.prems(1) Some js_get_Some_key by fastforce
        have dis: "distinct ?vis" using Suc.prems(2) False by simp
        have "length ?vis \<le> length rel"
          using card_mono [OF _ sub] distinct_card [OF dis] card_length [of "js_keys rel"] by (simp add: js_keys_def)
        then have "length rel - length ?vis < fuel" using Suc.prems(3) by simp
        from Suc.IH [OF sub dis this] show ?thesis using \<open>cur = Some i\<close> False by simp
      qed
    qed (use Some in auto)
  qed simp
qed simp

lemma validate_entries:
  assumes "res_fold (validate_entry env) (rel, saw) es = Inr (rel', saw')"
  shows "distinct (map se_id es) \<and> (\<forall>e\<in>set es. env_persisted env e \<and> se_id e \<notin> set (js_keys rel)) \<and>
    set (js_keys rel') = set (js_keys rel) \<union> se_id ` set es \<and>
    (\<forall>e\<in>set es. \<forall>j. se_body e = Leaf (Some j) \<longrightarrow> j \<in> set (js_keys rel'))"
  using assms
proof (induction es arbitrary: rel' saw' rule: rev_induct)
  case (snoc e es)
  then obtain m sm where m: "res_fold (validate_entry env) (rel, saw) es = Inr (m, sm)"
    and e: "validate_entry env (m, sm) e = Inr (rel', saw')"
    by (auto simp: res_fold_snoc)
  note IH = snoc.IH [OF m]
  have "check_references m sm e = None" "env_persisted env e" "rel' = js_set m (se_id e) (se_parentId e, isHostOnlySessionEntryType (se_body e))"
    using e by (auto simp: validate_entry_def split: if_splits option.splits)
  moreover from this(1) have "se_id e \<notin> set (js_keys m)" by (auto simp: check_references_def js_has_iff_keys split: if_splits)
  moreover have "j \<in> set (js_keys m)" if "se_body e = Leaf (Some j)" for j
    using calculation(1) that
    by (auto simp: check_references_def public_target_def dest: js_get_Some_key split: if_splits option.splits)
  ultimately show ?case using IH by (auto simp: js_keys_set)
qed simp

lemma validate_references:
  assumes "validateTransactionEntryReferences env r es = Inr x"
  shows "distinct (map se_id es)" "\<forall>e\<in>set es. env_persisted env e \<and> se_id e \<notin> se_id ` set (sr_entries r)"
    "\<forall>e\<in>set es. \<forall>j. se_body e = Leaf (Some j) \<longrightarrow> j \<in> se_id ` set (sr_entries r @ es)"
proof -
  from assms obtain rel' saw' where "res_fold (validate_entry env)
      (stored_relations (sr_entries r), list_ex (\<lambda>e. is_git_context (se_body e)) (sr_entries r)) es = Inr (rel', saw')"
    by (auto simp: validateTransactionEntryReferences_def res_simps)
  note v = validate_entries [OF this]
  have keys: "set (js_keys (stored_relations (sr_entries r))) = se_id ` set (sr_entries r)"
    by (force simp: stored_relations_def js_keys_def)
  show "distinct (map se_id es)" "\<forall>e\<in>set es. env_persisted env e \<and> se_id e \<notin> se_id ` set (sr_entries r)"
    using v unfolding keys by blast+
  show "\<forall>e\<in>set es. \<forall>j. se_body e = Leaf (Some j) \<longrightarrow> j \<in> se_id ` set (sr_entries r @ es)"
    using v unfolding keys set_append image_Un by blast
qed

lemma ordinals_from_Inr: "ordinals_from n es = Inr m \<Longrightarrow> m = n + length es \<and> map se_ordinal es = map (\<lambda>i. n + i) [0..<length es]"
proof (induction es arbitrary: n)
  case (Cons e es)
  then have e: "se_ordinal e = n" and rest: "ordinals_from (Suc n) es = Inr m" by (auto split: if_splits)
  from Cons.IH [OF rest] have "m = Suc n + length es" "map se_ordinal es = map (\<lambda>i. Suc n + i) [0..<length es]" by blast+
  note this e
  moreover have "[0..<length (e # es)] = 0 # map Suc [0..<length es]" by (simp add: upt_conv_Cons map_Suc_upt del: upt_Suc)
  ultimately show ?case by (simp del: upt_Suc)
qed simp

lemma indexReview_frame:
  "index_review_entry env self e db = Some db' \<Longrightarrow> db_sessions db' = db_sessions db \<and> db_commits db' = db_commits db"
  by (auto simp: index_review_entry_def index_review_work_def index_general_def index_alias_def index_discussion_def
      index_reset_def Let_def split: entry_body.splits if_splits option.splits)

lemma indexReviewEntries_frame:
  "indexReviewEntries env self es db = Some db' \<Longrightarrow> db_sessions db' = db_sessions db \<and> db_commits db' = db_commits db"
proof (induction es arbitrary: db)
  case (Cons e es)
  then obtain d where "index_review_entry env self e db = Some d" "indexReviewEntries env self es d = Some db'"
    by (auto simp: bind_eq_Some_conv)
  with Cons.IH [of d] indexReview_frame [of env self e db d] show ?case by simp
qed simp

section \<open>Prepared batches\<close>

lemma stamp_drafts_Cons: "stamp_drafts n (d # ds) = commit_entry (n + 1) d # stamp_drafts (n + 1) ds"
proof (rule nth_equalityI)
  fix i
  assume "i < length (stamp_drafts n (d # ds))"
  then show "stamp_drafts n (d # ds) ! i = (commit_entry (n + 1) d # stamp_drafts (n + 1) ds) ! i"
    by (cases i) (simp_all add: stamp_drafts_def nth_enumerate_eq del: enumerate_simps)
qed simp

lemma toSessionEntry_Inr:
  assumes "toSessionEntry persisted d n = Inr e"
  shows "toLogEntry e = commit_entry n d \<and> persisted e \<and> entryShape (se_body e) \<noteq> None"
  using assms by (auto simp: toSessionEntry_def toLogEntry_def commit_entry_def Let_def split: option.splits if_splits)

lemma session_entries_Inr:
  "session_entries persisted n ds = Inr es \<Longrightarrow>
   map toLogEntry es = stamp_drafts n ds \<and> (\<forall>e\<in>set es. persisted e \<and> entryShape (se_body e) \<noteq> None)"
proof (induction ds arbitrary: n es)
  case (Cons d ds)
  then obtain e es' where e: "toSessionEntry persisted d (n + 1) = Inr e" "session_entries persisted (n + 1) ds = Inr es'" "es = e # es'"
    by (auto simp: res_simps)
  from toSessionEntry_Inr [OF e(1)] Cons.IH [OF e(2)] e(3) show ?case by (simp add: stamp_drafts_Cons)
qed simp

lemma prepare_Inr:
  assumes "prepare env l b = Inr p"
  obtains es s where "session_entries (env_persisted env) (ap_expectedOrdinal b) (ap_entries b) = Inr es"
    "applySessionEntries (env_inputDigest env) es (sl_state l) = Inr s"
    "pc_input p = \<lparr>ai_session = sl_ref l, ai_expectedOrdinal = ap_expectedOrdinal b, ai_commitId = ap_commitId b,
       ai_digest = env_payloadDigest env (transaction_of s es), ai_payload = transaction_of s es\<rparr>"
    "pc_state p = s" "pc_last p = ap_expectedOrdinal b + length es" "length es = length (ap_entries b)"
proof -
  from assms obtain es s where es: "session_entries (env_persisted env) (ap_expectedOrdinal b) (ap_entries b) = Inr es"
    and s: "applySessionEntries (env_inputDigest env) es (sl_state l) = Inr s"
    and p: "p = \<lparr>pc_input = \<lparr>ai_session = sl_ref l, ai_expectedOrdinal = ap_expectedOrdinal b, ai_commitId = ap_commitId b,
        ai_digest = env_payloadDigest env (transaction_of s es), ai_payload = transaction_of s es\<rparr>,
        pc_state = s, pc_last = ap_expectedOrdinal b + length es\<rparr>"
    by (auto simp: prepare_def Let_def res_simps)
  have "length es = length (ap_entries b)" using session_entries_Inr [OF es] by (metis length_map length_stamp_drafts)
  with es s p show ?thesis by (intro that) simp_all
qed

text \<open>The rows a committed batch leaves are those of the state the log prepared.\<close>

lemma write_row_derived:
  assumes r: "row_derived env r s" and batch: "applySessionEntries (env_inputDigest env) es s = Inr t" and fresh: "fresh_batch s es"
  shows "row_derived env (write_row (transaction_of t es) r) t"
proof -
  have "replaySessionEntries (env_inputDigest env) (sr_createdAt r) (sr_entries r @ es) = Inr t"
    using r batch by (simp add: row_derived_def replaySessionEntries_def applySessionEntries_append)
  with r batch_inputs_written [OF batch row_derived_facts(3) [OF r] fresh] batch_chunks_written [OF batch fresh]
  show ?thesis by (simp add: row_derived_def write_row_def transaction_of_def)
qed

lemma fresh_from_references:
  assumes env: "env_ok env" and r: "row_derived env r s" and refs: "validateTransactionEntryReferences env r es = Inr x"
  shows "fresh_batch s es"
  using validate_references [OF refs] row_derived_facts(6,7) [OF r] env unfolding fresh_batch_def env_ok_def by blast

lemma check_transaction_Inr:
  assumes "check_transaction env i r = Inr n"
  shows "(\<exists>x. validateTransactionEntryReferences env r (tp_entries (ai_payload i)) = Inr x) \<and>
    ordinals_from (lastOrdinal r + 1) (tp_entries (ai_payload i)) = Inr n \<and>
    (\<forall>j \<in> set_option (pj_leafId (tp_session (ai_payload i))). j \<in> se_id ` set (sr_entries r @ tp_entries (ai_payload i)))"
  using assms by (auto simp: check_transaction_def Let_def res_simps split: if_splits)

section \<open>Transactions of a log\<close>

text \<open>A log about to commit a prepared batch, and the store after its transaction committed.\<close>

definition ready :: "store_env \<Rightarrow> store_db \<Rightarrow> sqlite_log \<Rightarrow> session_row \<Rightarrow> log_append \<Rightarrow> prepared_commit \<Rightarrow> bool" where
  "ready env db l r b p \<longleftrightarrow>
     env_ok env \<and> db_ok env db \<and> findSummaryRow db (sl_ref l) = Some r \<and> row_derived env r (sl_state l) \<and>
     ap_expectedOrdinal b = length (sr_entries r) \<and> ap_entries b \<noteq> [] \<and> prepare env l b = Inr p"

definition stored :: "store_env \<Rightarrow> store_db \<Rightarrow> sqlite_log \<Rightarrow> session_row \<Rightarrow> log_append \<Rightarrow> prepared_commit \<Rightarrow> store_db \<Rightarrow> bool" where
  "stored env db l r b p db' \<longleftrightarrow>
     db_ok env db' \<and>
     (\<exists>r'. findSummaryRow db' (sl_ref l) = Some r' \<and> row_derived env r' (pc_state p) \<and>
        map toLogEntry (sr_entries r') = map toLogEntry (sr_entries r) @ stamp_drafts (length (sr_entries r)) (ap_entries b)) \<and>
     (\<forall>sid. sid \<noteq> fst (sl_ref l) \<longrightarrow> js_get (db_sessions db') sid = js_get (db_sessions db) sid) \<and>
     (\<exists>ev. findCommit db' (ap_commitId b) = Some ev \<and> ev_session ev = sl_ref l \<and> ev_digest ev = ai_digest (pc_input p))"

lemma ready_last: "ready env db l r b p \<Longrightarrow> lastOrdinal r = length (sr_entries r)"
  unfolding ready_def using lastOrdinal_length row_derived_facts(1) by blast

lemma ready_no_evidence:
  assumes "ready env db l r b p" and "findCommit db k = Some ev" and "ev_session ev = sl_ref l"
  shows "ev_digest ev \<noteq> ai_digest (pc_input p)"
proof
  assume same: "ev_digest ev = ai_digest (pc_input p)"
  have prep: "prepare env l b = Inr p" and r: "findSummaryRow db (sl_ref l) = Some r" and db: "db_ok env db"
    and rd: "row_derived env r (sl_state l)" and ne: "ap_entries b \<noteq> []"
    using assms(1) by (simp_all add: ready_def env_ok_def)
  from prep show False
  proof (rule prepare_Inr)
    fix es s
    assume batch: "applySessionEntries (env_inputDigest env) es (sl_state l) = Inr s"
      and inp: "pc_input p = \<lparr>ai_session = sl_ref l, ai_expectedOrdinal = ap_expectedOrdinal b, ai_commitId = ap_commitId b,
        ai_digest = env_payloadDigest env (transaction_of s es), ai_payload = transaction_of s es\<rparr>"
      and len: "length es = length (ap_entries b)"
    from db assms(2) have "evidence_ok env db ev" by (rule db_ok_commit)
    then obtain q where q: "ev_digest ev = env_payloadDigest env q" "tp_entries q \<noteq> []"
      and bound: "\<forall>e\<in>set (tp_entries q). se_ordinal e \<le> length (sr_entries r)"
      using assms(3) r by (auto simp: evidence_ok_def)
    have "env_payloadDigest env q = env_payloadDigest env (transaction_of s es)" using q(1) same inp by simp
    then have es: "map se_ordinal (tp_entries q) = map se_ordinal es"
      using assms(1) by (auto simp: ready_def env_ok_def transaction_of_def)
    from es q(2) obtain e rest where e: "es = e # rest" by (cases es) auto
    have "map se_ordinal es = map (\<lambda>i. ds_nextOrdinal (sl_state l) + i) [0..<length es]"
      using replay_ordinals [OF batch] by blast
    then have "se_ordinal (es ! 0) = ds_nextOrdinal (sl_state l)"
      using e by (metis add_0_right length_greater_0_conv list.distinct(1) nth_map nth_upt length_map length_upt diff_zero add_0)
    then have "se_ordinal e = Suc (length (sr_entries r))" using e row_derived_facts(2) [OF rd] by simp
    moreover have "se_ordinal e \<in> se_ordinal ` set (tp_entries q)"
      using es e by (metis list.set_intros(1) list.set_map list.simps(9))
    ultimately show False using bound by auto
  qed
qed

lemma js_get_map_keep: "js_get (db_sessions db) sid = Some r \<Longrightarrow> findSummaryRow db (sid, sr_generation r) = Some r"
  by (simp add: findSummaryRow_def)

text \<open>Writing a row keeps the evidence of every session.\<close>

lemma evidence_kept:
  assumes ev: "evidence_ok env db ev" and r: "findSummaryRow db s = Some r"
    and gen: "sr_generation r' = sr_generation r" and len: "length (sr_entries r) \<le> length (sr_entries r')"
    and db': "db_sessions db' = js_set (db_sessions db) (fst s) r'"
  shows "evidence_ok env db' ev"
proof -
  from ev obtain p q where pq: "ev_digest ev = env_payloadDigest env p" "tp_entries p \<noteq> []"
    "findSummaryRow db (ev_session ev) = Some q" "\<forall>e\<in>set (tp_entries p). se_ordinal e \<le> length (sr_entries q)"
    by (auto simp: evidence_ok_def)
  show ?thesis
  proof (cases "fst (ev_session ev) = fst s")
    case True
    then have "q = r" using row_of [OF pq(3)] row_of [OF r] by simp
    then have "findSummaryRow db' (ev_session ev) = Some r'"
      using True gen row_of [OF pq(3)] by (simp add: findSummaryRow_def db' js_get_set)
    moreover have "\<forall>e\<in>set (tp_entries p). se_ordinal e \<le> length (sr_entries r')" using pq(4) len \<open>q = r\<close> by auto
    ultimately show ?thesis using pq(1,2) unfolding evidence_ok_def by blast
  next
    case False
    then have "findSummaryRow db' (ev_session ev) = Some q" using pq(3) by (simp add: findSummaryRow_def db' js_get_set)
    with pq show ?thesis unfolding evidence_ok_def by blast
  qed
qed

text \<open>A transaction of a ready log either stores the whole batch or leaves the tables alone.\<close>

lemma transact_stores:
  assumes rdy: "ready env db l r b p" and none: "findCommit db (ap_commitId b) = None"
    and chk: "check_transaction env (pc_input p) r = Inr n"
    and idx: "indexReviewEntries env (sl_ref l) (tp_entries (ai_payload (pc_input p))) db = Some db1"
    and ev: "ev_session ev = sl_ref l" "ev_digest ev = ai_digest (pc_input p)"
  shows "stored env db l r b p
    (db1\<lparr>db_sessions := js_set (db_sessions db1) (fst (sl_ref l)) (write_row (ai_payload (pc_input p)) r),
         db_commits := js_set (db_commits db1) (ap_commitId b) ev\<rparr>)"
proof -
  have prep: "prepare env l b = Inr p" and row: "findSummaryRow db (sl_ref l) = Some r" and db: "db_ok env db"
    and rd: "row_derived env r (sl_state l)" and env: "env_ok env" and ne: "ap_entries b \<noteq> []"
    and ord: "ap_expectedOrdinal b = length (sr_entries r)"
    using rdy by (simp_all add: ready_def)
  from prep show ?thesis
  proof (rule prepare_Inr)
    fix es s
    assume es: "session_entries (env_persisted env) (ap_expectedOrdinal b) (ap_entries b) = Inr es"
      and batch: "applySessionEntries (env_inputDigest env) es (sl_state l) = Inr s"
      and inp: "pc_input p = \<lparr>ai_session = sl_ref l, ai_expectedOrdinal = ap_expectedOrdinal b, ai_commitId = ap_commitId b,
        ai_digest = env_payloadDigest env (transaction_of s es), ai_payload = transaction_of s es\<rparr>"
      and st: "pc_state p = s" and len: "length es = length (ap_entries b)"
    let ?p = "transaction_of s es" and ?r' = "write_row (transaction_of s es) r"
    let ?db' = "db1\<lparr>db_sessions := js_set (db_sessions db1) (fst (sl_ref l)) ?r', db_commits := js_set (db_commits db1) (ap_commitId b) ev\<rparr>"
    have pay: "ai_payload (pc_input p) = ?p" "tp_entries ?p = es" using inp by (simp_all add: transaction_of_def)
    obtain x where refs: "validateTransactionEntryReferences env r es = Inr x"
      and ords: "ordinals_from (lastOrdinal r + 1) es = Inr n"
      and leaf: "\<forall>j \<in> set_option (pj_leafId (tp_session ?p)). j \<in> se_id ` set (sr_entries r @ es)"
      using check_transaction_Inr [OF chk] unfolding pay by blast
    have same: "db_sessions db1 = db_sessions db" "db_commits db1 = db_commits db"
      using indexReviewEntries_frame [OF idx] by blast+
    have r': "row_derived env ?r' s" using write_row_derived [OF rd batch fresh_from_references [OF env rd refs]] .
    have sel: "sr_entries ?r' = sr_entries r @ es" "sr_generation ?r' = sr_generation r" "sr_formatVersion ?r' = sr_formatVersion r"
      by (simp_all add: write_row_def transaction_of_def)
    have rok: "row_ok env r" using db row_of [OF row] by (auto simp: db_ok_def)
    have ok': "row_ok env ?r'"
    proof -
      have "se_id ` set (sr_entries r) \<inter> se_id ` set es = {}"
        using validate_references(2) [OF refs] by (simp add: disjoint_iff image_iff) metis
      then have "distinct (map se_id (sr_entries ?r'))"
        using rok validate_references(1) [OF refs] by (simp add: sel(1) row_ok_def)
      moreover have "\<forall>e\<in>set (sr_entries ?r'). env_persisted env e \<and> entryShape (se_body e) \<noteq> None"
        using rok session_entries_Inr [OF es] by (auto simp: sel(1) row_ok_def)
      moreover have "sr_formatVersion ?r' = CURRENT_SESSION_VERSION" using rok by (simp add: sel(3) row_ok_def)
      moreover have "\<forall>j\<in>set_option (pj_leafId (sr_projection ?r')). j \<in> se_id ` set (sr_entries ?r')"
        unfolding sel(1) using leaf by (simp add: write_row_def)
      ultimately show ?thesis unfolding row_ok_def using r' by blast
    qed
    have row': "findSummaryRow ?db' (sl_ref l) = Some ?r'"
      using row_of [OF row] sel(2) by (simp add: findSummaryRow_def js_get_set)
    have old: "evidence_ok env ?db' e" if "evidence_ok env db e" for e
      by (rule evidence_kept [OF that row, of ?r']) (simp_all add: sel same)
    have "evidence_ok env ?db' ev"
    proof -
      have "tp_entries ?p \<noteq> []" using ne len pay(2) by auto
      moreover have "\<forall>e\<in>set es. se_ordinal e \<le> length (sr_entries ?r')"
      proof
        fix e
        assume "e \<in> set es"
        then have "se_ordinal e \<in> set (map se_ordinal (sr_entries ?r'))" by (simp add: sel(1))
        then show "se_ordinal e \<le> length (sr_entries ?r')" unfolding row_derived_facts(1) [OF r'] by auto
      qed
      ultimately show ?thesis unfolding evidence_ok_def using ev inp row' pay(2) by (intro exI [of _ ?p] exI [of _ ?r']) simp
    qed
    then have "db_ok env ?db'"
      using db old ok' js_values_set [of "db_commits db" "ap_commitId b" ev]
      by (auto simp: db_ok_def same js_get_set split: if_splits)
    moreover have "map toLogEntry (sr_entries ?r') = map toLogEntry (sr_entries r) @ stamp_drafts (length (sr_entries r)) (ap_entries b)"
      using session_entries_Inr [OF es] ord by (simp add: sel(1))
    ultimately have "stored env db l r b p ?db'"
      unfolding stored_def using row' r' st ev by (simp add: same js_get_set findCommit_def)
    then show ?thesis by (simp add: pay)
  qed
qed

lemma apply_prepared:
  assumes rdy: "ready env db l r b p" and app: "applyTransaction env now (pc_input p) db = (res, db')"
  shows "(\<exists>ev. res = Inr (TransactionCommitted ev)) \<and> stored env db l r b p db' \<or> (\<exists>err. res = Inl err) \<and> db' = db"
proof -
  have prep: "prepare env l b = Inr p" and row: "findSummaryRow db (sl_ref l) = Some r"
    and ord: "ap_expectedOrdinal b = length (sr_entries r)"
    using rdy by (simp_all add: ready_def)
  from prep have inp: "ai_session (pc_input p) = sl_ref l" "ai_commitId (pc_input p) = ap_commitId b"
    "ai_expectedOrdinal (pc_input p) = ap_expectedOrdinal b"
    "ai_digest (pc_input p) = env_payloadDigest env (ai_payload (pc_input p))"
    by (rule prepare_Inr, simp)+
  have same: "lastOrdinal r = ai_expectedOrdinal (pc_input p)" using ready_last [OF rdy] ord inp by simp
  show ?thesis
  proof (cases "findCommit db (ap_commitId b)")
    case (Some prev)
    then have "ev_session prev \<noteq> sl_ref l \<or> ev_digest prev \<noteq> ai_digest (pc_input p)"
      using ready_no_evidence [OF rdy Some] by blast
    then show ?thesis using app Some inp by (auto simp: applyTransaction_def transact_def split: if_splits)
  next
    case None
    show ?thesis
    proof (cases "check_transaction env (pc_input p) r")
      case (Inl err)
      then show ?thesis using app None row inp same by (auto simp: applyTransaction_def transact_def)
    next
      case chk: (Inr n)
      show ?thesis
      proof (cases "indexReviewEntries env (sl_ref l) (tp_entries (ai_payload (pc_input p))) db")
        case idx: None
        then show ?thesis using app None row inp same chk by (auto simp: applyTransaction_def transact_def)
      next
        case (Some db1)
        define ev where "ev = \<lparr>ev_session = sl_ref l, ev_commitId = ap_commitId b, ev_digest = ai_digest (pc_input p),
          ev_beforeOrdinal = lastOrdinal r, ev_afterOrdinal = n - 1, ev_committedAt = now\<rparr>"
        have "res = Inr (TransactionCommitted ev) \<and>
          db' = db1\<lparr>db_sessions := js_set (db_sessions db1) (fst (sl_ref l)) (write_row (ai_payload (pc_input p)) r),
            db_commits := js_set (db_commits db1) (ap_commitId b) ev\<rparr>"
          using app None row inp same chk Some by (simp add: applyTransaction_def transact_def Let_def ev_def)
        moreover have "stored env db l r b p
            (db1\<lparr>db_sessions := js_set (db_sessions db1) (fst (sl_ref l)) (write_row (ai_payload (pc_input p)) r),
            db_commits := js_set (db_commits db1) (ap_commitId b) ev\<rparr>)"
          by (rule transact_stores [OF rdy None chk Some]) (simp_all add: ev_def)
        ultimately show ?thesis by blast
      qed
    qed
  qed
qed

text \<open>
  Applying a prepared batch, whatever the request meets: the batch is stored and the log knows it or loses the
  log as uncertain, or nothing is stored and the log knows that or loses the log as uncertain.
\<close>

lemma stored_length:
  assumes "ready env db l r b p" and "stored env db l r b p db'" and "findSummaryRow db' (sl_ref l) = Some r'"
  shows "lastOrdinal r' = pc_last p" "length (sr_entries r') = length (sr_entries r) + length (ap_entries b)"
proof -
  have rd: "row_derived env r' (pc_state p)"
    and len: "map toLogEntry (sr_entries r') = map toLogEntry (sr_entries r) @ stamp_drafts (length (sr_entries r)) (ap_entries b)"
    using assms(2,3) by (auto simp: stored_def)
  from len show l: "length (sr_entries r') = length (sr_entries r) + length (ap_entries b)"
    by (metis length_map length_append length_stamp_drafts)
  have "prepare env l b = Inr p" using assms(1) by (simp add: ready_def)
  then have "pc_last p = ap_expectedOrdinal b + length (ap_entries b)" by (rule prepare_Inr) simp
  with l show "lastOrdinal r' = pc_last p"
    using lastOrdinal_length [OF row_derived_facts(1) [OF rd]] assms(1) by (simp add: ready_def)
qed

lemma sq_apply_cases:
  assumes rdy: "ready env db l r b p" and app: "sq_apply env f p db = (outcome, db')"
  obtains (known) "stored env db l r b p db'"
      "outcome = Applied (length (sr_entries r) + 1) (length (sr_entries r) + length (ap_entries b))"
  | (unknown) "stored env db l r b p db'" "outcome = Loses UncertainCommit" "\<not> ft_reconciles f"
  | (refused) "db' = db" "outcome = NotApplied"
  | (unknown_refused) "db' = db" "outcome = Loses UncertainCommit" "\<not> ft_reconciles f"
proof -
  obtain res db1 where tx: "applyTransaction env (ft_now f) (pc_input p) db = (res, db1)"
    by (cases "applyTransaction env (ft_now f) (pc_input p) db")
  have prep: "prepare env l b = Inr p" and row: "findSummaryRow db (sl_ref l) = Some r"
    and ord: "ap_expectedOrdinal b = length (sr_entries r)"
    using rdy by (simp_all add: ready_def)
  from prep have inp: "ai_session (pc_input p) = sl_ref l" "ai_commitId (pc_input p) = ap_commitId b"
    "ai_expectedOrdinal (pc_input p) = length (sr_entries r)" "pc_last p = length (sr_entries r) + length (ap_entries b)"
    by (rule prepare_Inr, simp add: ord)+
  have absent: "sq_reconcile f p db = (if ft_reconciles f then NotApplied else Loses UncertainCommit)"
  proof -
    have "reconcileCommit db (sl_ref l) (ap_commitId b) (ai_digest (pc_input p)) \<noteq> ReconciledCommitted ev" for ev
      using ready_no_evidence [OF rdy] by (auto simp: reconcileCommit_def split: option.splits)
    then show ?thesis using row inp ready_last [OF rdy] by (auto simp: sq_reconcile_def Let_def split: reconciliation.split)
  qed
  have present: "sq_reconcile f p d = (if ft_reconciles f
      then Applied (length (sr_entries r) + 1) (length (sr_entries r) + length (ap_entries b)) else Loses UncertainCommit)"
    if st: "stored env db l r b p d" for d
  proof -
    from st obtain r' ev where r': "findSummaryRow d (sl_ref l) = Some r'"
      and ev: "findCommit d (ap_commitId b) = Some ev" "ev_session ev = sl_ref l" "ev_digest ev = ai_digest (pc_input p)"
      by (auto simp: stored_def)
    have "reconcileCommit d (sl_ref l) (ap_commitId b) (ai_digest (pc_input p)) = ReconciledCommitted ev"
      using ev by (simp add: reconcileCommit_def)
    then show ?thesis using r' inp stored_length(1) [OF rdy st r'] by (simp add: sq_reconcile_def Let_def)
  qed
  have fails: thesis if "outcome = sq_reconcile f p db" "db' = db"
  proof (cases "ft_reconciles f")
    case True
    then have "outcome = NotApplied" unfolding that(1) absent by simp
    then show ?thesis by (rule refused [OF that(2)])
  next
    case False
    then have "outcome = Loses UncertainCommit" unfolding that(1) absent by simp
    then show ?thesis using False by (rule unknown_refused [OF that(2)])
  qed
  have cases: "(\<exists>ev. res = Inr (TransactionCommitted ev)) \<and> stored env db l r b p db1 \<or> (\<exists>err. res = Inl err) \<and> db1 = db"
    by (rule apply_prepared [OF rdy tx])
  show ?thesis
  proof (cases "ft_request f")
    case FailedBefore
    show ?thesis by (rule fails) (use app tx FailedBefore in \<open>auto simp: sq_apply_def Let_def\<close>)
  next
    case FailedAfter
    then have o: "outcome = sq_reconcile f p db1" "db' = db1" using app tx by (auto simp: sq_apply_def Let_def)
    from cases show ?thesis
    proof
      assume "(\<exists>ev. res = Inr (TransactionCommitted ev)) \<and> stored env db l r b p db1"
      then show ?thesis using o present [of db1] known unknown by (cases "ft_reconciles f") simp_all
    next
      assume "(\<exists>err. res = Inl err) \<and> db1 = db"
      then show ?thesis using o by (intro fails) simp_all
    qed
  next
    case Served
    from cases show ?thesis
    proof
      assume st: "(\<exists>ev. res = Inr (TransactionCommitted ev)) \<and> stored env db l r b p db1"
      then show ?thesis using app tx Served inp known by (auto simp: sq_apply_def Let_def)
    next
      assume "(\<exists>err. res = Inl err) \<and> db1 = db"
      then show ?thesis using app tx Served by (intro fails) (auto simp: sq_apply_def Let_def)
    qed
  qed
qed

end
