(* ===== verification/Sqlite_Contract.thy ===== *)
theory Sqlite_Contract
  imports Store_Invariant Kernel_Commit
begin

text \<open>
  The SQLite log keeps the contract of a conversation log: every way an append can end, whatever its requests
  meet, that each of them keeps the store's invariant, and the interpretation of \<open>conversation_log\<close> on it.
\<close>

section \<open>What an append sees\<close>

definition sq_entries :: "string \<Rightarrow> sqlite_world \<Rightarrow> log_entry list" where
  "sq_entries sid w = (case js_get (db_sessions (qw_db w)) sid of None \<Rightarrow> [] | Some r \<Rightarrow> map toLogEntry (sr_entries r))"

definition sq_used :: "string \<Rightarrow> sqlite_world \<Rightarrow> string set" where
  "sq_used sid w = (case js_get (qw_logs w) sid of None \<Rightarrow> {} | Some l \<Rightarrow> set (js_keys (sl_commits l)))"

definition sq_inv :: "store_env \<Rightarrow> string \<Rightarrow> sqlite_world \<Rightarrow> bool" where
  "sq_inv env sid w \<longleftrightarrow> env_ok env \<and> world_ok env w \<and>
     (case js_get (qw_logs w) sid of None \<Rightarrow> False | Some l \<Rightarrow> findSummaryRow (qw_db w) (sl_ref l) \<noteq> None)"

lemma sq_entries_row: "findSummaryRow (qw_db w) s = Some r \<Longrightarrow> sq_entries (fst s) w = map toLogEntry (sr_entries r)"
  by (simp add: sq_entries_def row_of)

lemma sq_invE:
  assumes "sq_inv env sid w"
  obtains l r where "env_ok env" "world_ok env w" "db_ok env (qw_db w)" "js_get (qw_logs w) sid = Some l"
    "fst (sl_ref l) = sid" "findSummaryRow (qw_db w) (sl_ref l) = Some r" "log_ok env l r" "row_ok env r"
    "sq_entries sid w = map toLogEntry (sr_entries r)"
proof -
  from assms obtain l r where lr: "env_ok env" "world_ok env w" "js_get (qw_logs w) sid = Some l"
    "findSummaryRow (qw_db w) (sl_ref l) = Some r" by (auto simp: sq_inv_def split: option.splits)
  then have "db_ok env (qw_db w)" "fst (sl_ref l) = sid" "log_ok env l r" by (auto simp: world_ok_def)
  moreover from this(1) row_of [OF lr(4)] have "row_ok env r" by (auto simp: db_ok_def)
  ultimately show ?thesis using that [OF lr(1,2) _ lr(3) _ lr(4)] sq_entries_row [OF lr(4)] by blast
qed

lemma lose_sel [simp]:
  "sl_lostError l = None \<Longrightarrow> lose x l = (x, l\<lparr>sl_lostError := Some x\<rparr>)"
  by (simp add: lose_def)

lemma next_fault_sel [simp]: "qw_db (snd (next_fault w)) = qw_db w" "qw_logs (snd (next_fault w)) = qw_logs w"
  by (simp_all add: next_fault_def split: list.split)

text \<open>A session that has been deleted has no evidence left, and its log is lost by its next append.\<close>

lemma sq_apply_gone:
  assumes db: "db_ok env db" and gone: "findSummaryRow db (ai_session (pc_input p)) = None"
  shows "\<exists>x. sq_apply env f p db = (Loses x, db)"
proof -
  let ?i = "pc_input p"
  have no_ev: "ev_session ev \<noteq> ai_session ?i" if "findCommit db k = Some ev" for k ev
  proof -
    from db that have "evidence_ok env db ev" by (rule db_ok_commit)
    then show ?thesis using gone by (auto simp: evidence_ok_def)
  qed
  then have "\<exists>err. applyTransaction env (ft_now f) ?i db = (Inl err, db)"
    using gone by (auto simp: applyTransaction_def transact_def split: option.splits)
  moreover have "sq_reconcile f p db = Loses (if ft_reconciles f then StorageFailure else UncertainCommit)"
    using gone by (simp add: sq_reconcile_def Let_def)
  ultimately show ?thesis by (auto simp: sq_apply_def Let_def split: request_fault.split)
qed

text \<open>Every way an append can end.\<close>

definition committed_log :: "sqlite_log \<Rightarrow> log_append \<Rightarrow> prepared_commit \<Rightarrow> nat \<Rightarrow> sqlite_log" where
  "committed_log l b p n = l\<lparr>sl_state := pc_state p, sl_committedOrdinal := n + length (ap_entries b),
     sl_commits := js_set (sl_commits l) (ap_commitId b)
       \<lparr>cr_expectedOrdinal = n, cr_entries = ap_entries b, cr_first = n + 1, cr_last = n + length (ap_entries b)\<rparr>\<rparr>"

lemma sq_append_cases:
  assumes env: "env_ok env" and ok: "world_ok env w" and log: "js_get (qw_logs w) sid = Some l"
    and app: "sq_append env sid w b = (res, w')"
  obtains (lost) x where "sl_lostError l = Some x" "res = Inl x" "w' = w"
  | (retry) c where "sl_lostError l = None" "js_get (sl_commits l) (ap_commitId b) = Some c"
      "cr_expectedOrdinal c = ap_expectedOrdinal b" "sameDrafts (cr_entries c) (ap_entries b)"
      "res = Inr (Committed (cr_first c) (cr_last c))" "w' = w"
  | (rolled_back) why where "sl_lostError l = None" "res = Inr (RolledBack why)" "qw_db w' = qw_db w" "qw_logs w' = qw_logs w"
  | (loses) x where "sl_lostError l = None" "res = Inl x" "qw_db w' = qw_db w"
      "qw_logs w' = js_set (qw_logs w) sid (l\<lparr>sl_lostError := Some x\<rparr>)"
  | (uncertain) r p where "sl_lostError l = None" "res = Inl UncertainCommit" "ready env (qw_db w) l r b p"
      "stored env (qw_db w) l r b p (qw_db w')" "qw_logs w' = js_set (qw_logs w) sid (l\<lparr>sl_lostError := Some UncertainCommit\<rparr>)"
  | (committed) r p where "sl_lostError l = None" "js_get (sl_commits l) (ap_commitId b) = None" "ap_commitId b \<noteq> ''''"
      "ready env (qw_db w) l r b p" "stored env (qw_db w) l r b p (qw_db w')"
      "res = Inr (Committed (length (sr_entries r) + 1) (length (sr_entries r) + length (ap_entries b)))"
      "qw_logs w' = js_set (qw_logs w) sid (committed_log l b p (length (sr_entries r)))"
proof (cases "sl_lostError l")
  case (Some x)
  show ?thesis by (rule lost [OF Some]) (use app log Some in \<open>auto simp: sq_append_def\<close>)
next
  case None
  note none = None
  show ?thesis
  proof (cases "js_get (sl_commits l) (ap_commitId b)")
    case (Some c)
    show ?thesis
    proof (cases "cr_expectedOrdinal c = ap_expectedOrdinal b \<and> sameDrafts (cr_entries c) (ap_entries b)")
      case True
      then show ?thesis by (intro retry [OF none Some]) (use app log none Some in \<open>auto simp: sq_append_def\<close>)
    next
      case False
      then have "res = Inr (RolledBack (CommitIdReused (ap_commitId b))) \<and> w' = w"
        using app log none Some by (auto simp: sq_append_def)
      then show ?thesis by (intro rolled_back [OF none]) simp_all
    qed
  next
    case fresh: None
    consider (fence) "ap_expectedOrdinal b \<noteq> sl_committedOrdinal l"
      | (bad) why where "ap_expectedOrdinal b = sl_committedOrdinal l" "res = Inr (RolledBack why)" "w' = w"
      | (go) p where "ap_expectedOrdinal b = sl_committedOrdinal l" "ap_commitId b \<noteq> ''''" "ap_entries b \<noteq> []"
        "prepare env l b = Inr p" "sq_commit env sid l b p w = (res, w')"
      using app log none fresh by (auto simp: sq_append_def split: if_splits sum.splits)
    then show ?thesis
    proof cases
      case fence
      then have "res = Inl FenceConflict" "w' = set_log sid (l\<lparr>sl_lostError := Some FenceConflict\<rparr>) w"
        using app log none fresh by (auto simp: sq_append_def)
      then show ?thesis by (intro loses [OF none]) (simp_all add: set_log_def)
    next
      case bad
      then show ?thesis by (intro rolled_back [OF none]) simp_all
    next
      case go
      obtain f w1 where f: "next_fault w = (f, w1)" by (cases "next_fault w")
      then have w1: "qw_db w1 = qw_db w" "qw_logs w1 = qw_logs w" using next_fault_sel [of w] by simp_all
      obtain outcome db where out: "sq_apply env f p (qw_db w) = (outcome, db)" by (cases "sq_apply env f p (qw_db w)")
      have rw: "sq_commit env sid l b p w = (case outcome of
           Loses x \<Rightarrow> (Inl x, set_log sid (l\<lparr>sl_lostError := Some x\<rparr>) (w1\<lparr>qw_db := db\<rparr>))
         | NotApplied \<Rightarrow> (Inr (RolledBack RequestFailed), w1\<lparr>qw_db := db\<rparr>)
         | Applied m n \<Rightarrow> (Inr (Committed m n), set_log sid (l\<lparr>sl_state := pc_state p, sl_committedOrdinal := n,
             sl_commits := js_set (sl_commits l) (ap_commitId b)
               \<lparr>cr_expectedOrdinal = ap_expectedOrdinal b, cr_entries = ap_entries b, cr_first = m, cr_last = n\<rparr>\<rparr>) (w1\<lparr>qw_db := db\<rparr>)))"
        using none by (cases outcome) (simp_all add: sq_commit_def f w1 out Let_def)
      note res = go(5) [unfolded rw]
      have db_ok: "db_ok env (qw_db w)" using ok by (simp add: world_ok_def)
      show ?thesis
      proof (cases "findSummaryRow (qw_db w) (sl_ref l)")
        case gone: None
        have "ai_session (pc_input p) = sl_ref l" using go(4) by (rule prepare_Inr) simp
        then obtain x where "outcome = Loses x" "db = qw_db w"
          using sq_apply_gone [OF db_ok, of p f] gone out by auto
        then show ?thesis using res w1 by (intro loses [OF none]) (auto simp: set_log_def)
      next
        case (Some r)
        then have lok: "log_ok env l r" using ok log by (auto simp: world_ok_def)
        with none have ord: "sl_committedOrdinal l = length (sr_entries r)" and rd: "row_derived env r (sl_state l)"
          by (simp_all add: log_ok_def)
        have rdy: "ready env (qw_db w) l r b p"
          using env db_ok Some rd go ord by (simp add: ready_def)
        from rdy out show ?thesis
        proof (cases rule: sq_apply_cases)
          case known
          then show ?thesis using res w1 go ord
            by (intro committed [OF none fresh go(2) rdy]) (auto simp: set_log_def committed_log_def)
        next
          case unknown
          then show ?thesis using res w1 by (intro uncertain [OF none _ rdy]) (auto simp: set_log_def)
        next
          case refused
          then show ?thesis using res w1 by (intro rolled_back [OF none]) auto
        next
          case unknown_refused
          then show ?thesis using res w1 by (intro loses [OF none]) (auto simp: set_log_def)
        qed
      qed
    qed
  qed
qed

section \<open>Appends keep the invariant\<close>

lemma findSummaryRow_same:
  "js_get (db_sessions db') (fst s) = js_get (db_sessions db) (fst s) \<Longrightarrow> findSummaryRow db' s = findSummaryRow db s"
  by (simp add: findSummaryRow_def)

text \<open>A change to one log and its session's rows leaves the other logs alone.\<close>

lemma world_ok_log:
  assumes ok: "world_ok env w" and db: "db_ok env (qw_db w')" and l: "fst (sl_ref l) = sid"
    and logs: "qw_logs w' = js_set (qw_logs w) sid l"
    and others: "\<And>k. k \<noteq> sid \<Longrightarrow> js_get (db_sessions (qw_db w')) k = js_get (db_sessions (qw_db w)) k"
    and row: "\<And>r. findSummaryRow (qw_db w') (sl_ref l) = Some r \<Longrightarrow> log_ok env l r"
  shows "world_ok env w'"
  unfolding world_ok_def
proof (intro conjI allI impI db)
  fix k m assume m: "js_get (qw_logs w') k = Some m"
  show "fst (sl_ref m) = k"
    using m ok l unfolding world_ok_def logs by (auto simp: js_get_set split: if_splits)
  fix r assume r: "findSummaryRow (qw_db w') (sl_ref m) = Some r"
  show "log_ok env m r"
  proof (cases "k = sid")
    case True
    with m logs have "m = l" by (simp add: js_get_set)
    with row r show ?thesis by simp
  next
    case False
    with m logs have old: "js_get (qw_logs w) k = Some m" by (simp add: js_get_set)
    then have "fst (sl_ref m) = k" using ok by (auto simp: world_ok_def)
    with False others findSummaryRow_same r have "findSummaryRow (qw_db w) (sl_ref m) = Some r" by metis
    with ok old show ?thesis by (auto simp: world_ok_def)
  qed
qed

lemma log_ok_lost: "log_ok env l r \<Longrightarrow> log_ok env (l\<lparr>sl_lostError := Some x\<rparr>) r"
  by (simp add: log_ok_def)

lemma log_ok_grows:
  "log_ok env l r \<Longrightarrow> map toLogEntry (sr_entries r') = map toLogEntry (sr_entries r) @ es \<Longrightarrow>
   log_ok env (l\<lparr>sl_lostError := Some x\<rparr>) r'"
  by (auto simp: log_ok_def intro: commit_ok_append)

lemma log_ok_committed:
  assumes ok: "log_ok env l r" and id: "ap_commitId b \<noteq> ''''" and ne: "ap_entries b \<noteq> []"
    and rd: "row_derived env r' (pc_state p)"
    and es: "map toLogEntry (sr_entries r') = map toLogEntry (sr_entries r) @ stamp_drafts (length (sr_entries r)) (ap_entries b)"
  shows "log_ok env (committed_log l b p (length (sr_entries r))) r'"
proof -
  let ?n = "length (sr_entries r)" and ?l = "committed_log l b p (length (sr_entries r))"
  have "length (map toLogEntry (sr_entries r')) = ?n + length (ap_entries b)" unfolding es by simp
  then have len: "length (sr_entries r') = ?n + length (ap_entries b)" by simp
  have "k \<noteq> '''' \<and> commit_ok (map toLogEntry (sr_entries r')) c" if "js_get (sl_commits ?l) k = Some c" for k c
  proof (cases "k = ap_commitId b")
    case True
    with that have "c = \<lparr>cr_expectedOrdinal = ?n, cr_entries = ap_entries b, cr_first = ?n + 1,
        cr_last = ?n + length (ap_entries b)\<rparr>" by (simp add: committed_log_def js_get_set)
    then show ?thesis using True id ne by (simp add: commit_ok_def es)
  next
    case False
    with that have "js_get (sl_commits l) k = Some c" by (simp add: committed_log_def js_get_set)
    then show ?thesis using ok by (auto simp: log_ok_def es intro: commit_ok_append)
  qed
  moreover have "sl_state ?l = pc_state p" "sl_committedOrdinal ?l = length (sr_entries r')"
    by (simp_all add: committed_log_def len)
  ultimately show ?thesis using rd by (auto simp: log_ok_def)
qed

lemma stored_row:
  assumes "stored env db l r b p db'"
  obtains r' where "findSummaryRow db' (sl_ref l) = Some r'" "row_derived env r' (pc_state p)"
    "map toLogEntry (sr_entries r') = map toLogEntry (sr_entries r) @ stamp_drafts (length (sr_entries r)) (ap_entries b)"
    "db_ok env db'" "\<And>k. k \<noteq> fst (sl_ref l) \<Longrightarrow> js_get (db_sessions db') k = js_get (db_sessions db) k"
  using assms unfolding stored_def by blast

lemma sq_append_world:
  assumes env: "env_ok env" and ok: "world_ok env w" and app: "sq_append env sid w b = (res, w')"
  shows "world_ok env w'"
proof (cases "js_get (qw_logs w) sid")
  case None
  with app ok show ?thesis by (simp add: sq_append_def)
next
  case (Some l)
  have sid: "fst (sl_ref l) = sid" using ok Some by (auto simp: world_ok_def)
  have lok: "log_ok env l r" if "findSummaryRow (qw_db w) (sl_ref l) = Some r" for r
    using ok Some that by (auto simp: world_ok_def)
  have db: "db_ok env (qw_db w)" using ok by (simp add: world_ok_def)
  from env ok Some app show ?thesis
  proof (cases rule: sq_append_cases)
    case (rolled_back why)
    then show ?thesis using ok by (simp add: world_ok_def)
  next
    case (loses x)
    show ?thesis
      by (rule world_ok_log [OF ok _ _ loses(4)]) (use loses db sid in \<open>auto intro!: log_ok_lost lok\<close>)
  next
    case (uncertain r p)
    from uncertain(3) have r: "log_ok env l r" by (intro lok) (simp add: ready_def)
    from uncertain(4) obtain r' where r': "findSummaryRow (qw_db w') (sl_ref l) = Some r'" "db_ok env (qw_db w')"
      and es: "map toLogEntry (sr_entries r') = map toLogEntry (sr_entries r) @ stamp_drafts (length (sr_entries r)) (ap_entries b)"
      and others: "\<And>k. k \<noteq> fst (sl_ref l) \<Longrightarrow> js_get (db_sessions (qw_db w')) k = js_get (db_sessions (qw_db w)) k"
      by (rule stored_row) metis
    show ?thesis
      by (rule world_ok_log [OF ok r'(2) _ uncertain(5)]) (use sid others r' log_ok_grows [OF r es] in auto)
  next
    case (committed r p)
    from committed(4) have r: "log_ok env l r" by (intro lok) (simp add: ready_def)
    have ne: "ap_entries b \<noteq> []" using committed(4) by (simp add: ready_def)
    from committed(5) obtain r' where r': "findSummaryRow (qw_db w') (sl_ref l) = Some r'" "db_ok env (qw_db w')"
      and rd: "row_derived env r' (pc_state p)"
      and es: "map toLogEntry (sr_entries r') = map toLogEntry (sr_entries r) @ stamp_drafts (length (sr_entries r)) (ap_entries b)"
      and others: "\<And>k. k \<noteq> fst (sl_ref l) \<Longrightarrow> js_get (db_sessions (qw_db w')) k = js_get (db_sessions (qw_db w)) k"
      by (rule stored_row) metis
    have "log_ok env (committed_log l b p (length (sr_entries r))) r'"
      by (rule log_ok_committed [OF r committed(3) ne rd es])
    then show ?thesis
      by (intro world_ok_log [OF ok r'(2) _ committed(7)]) (use sid others r' in \<open>auto simp: committed_log_def\<close>)
  qed (use ok in simp_all)
qed

section \<open>The contract\<close>

lemma sq_append_effect:
  assumes inv: "sq_inv env sid w" and app: "sq_append env sid w b = (res, w')"
  shows "sq_inv env sid w' \<and>
    (case res of
       Inl x \<Rightarrow> sq_entries sid w' = sq_entries sid w \<or>
         x = UncertainCommit \<and> sq_entries sid w' = sq_entries sid w @ stamp_drafts (length (sq_entries sid w)) (ap_entries b)
     | Inr (RolledBack _) \<Rightarrow> qw_db w' = qw_db w \<and> qw_logs w' = qw_logs w
     | Inr (Committed m n) \<Rightarrow>
         ap_commitId b \<in> sq_used sid w \<and> w' = w \<or>
         ap_commitId b \<notin> sq_used sid w \<and> ap_expectedOrdinal b = length (sq_entries sid w) \<and> sq_lost sid w' = None \<and>
         sq_entries sid w' = sq_entries sid w @ stamp_drafts (length (sq_entries sid w)) (ap_entries b) \<and>
         m = length (sq_entries sid w) + 1 \<and> n = length (sq_entries sid w) + length (ap_entries b) \<and>
         sq_used sid w' = insert (ap_commitId b) (sq_used sid w))"
  using inv
proof (rule sq_invE)
  fix l r
  assume a: "env_ok env" "world_ok env w" "js_get (qw_logs w) sid = Some l" "fst (sl_ref l) = sid"
    "findSummaryRow (qw_db w) (sl_ref l) = Some r" "sq_entries sid w = map toLogEntry (sr_entries r)"
  have ok': "world_ok env w'" by (rule sq_append_world [OF a(1,2) app])
  have same: "q = r" if "ready env (qw_db w) l q b p" for q p using that a(5) by (simp add: ready_def)
  have grown: "sq_entries sid w' = sq_entries sid w @ stamp_drafts (length (sq_entries sid w)) (ap_entries b) \<and>
      findSummaryRow (qw_db w') (sl_ref l) \<noteq> None"
    if "stored env (qw_db w) l r b p (qw_db w')" for p
    using that by (rule stored_row) (use a(4,6) sq_entries_row [of w' "sl_ref l"] in auto)
  from a(1-3) app show ?thesis
  proof (cases rule: sq_append_cases)
    case (loses x)
    then show ?thesis using a ok' by (simp add: sq_inv_def sq_entries_def js_get_set)
  next
    case (uncertain q p)
    then show ?thesis using a ok' same [OF uncertain(3)] grown by (simp add: sq_inv_def js_get_set)
  next
    case (committed q p)
    have q: "q = r" by (rule same [OF committed(4)])
    have "ap_expectedOrdinal b = length (sr_entries r)" using committed(4) q by (simp add: ready_def)
    then show ?thesis using a ok' q grown committed
      by (auto simp: sq_inv_def sq_used_def sq_lost_def committed_log_def js_get_set js_keys_set js_get_None_iff)
  qed (use a inv ok' in \<open>auto simp: sq_inv_def sq_used_def dest: js_get_Some_key\<close>)
qed

lemma page_from:
  assumes "map se_ordinal es = map Suc [0..<length es]"
  shows "sort_key se_ordinal (filter (\<lambda>e. a < se_ordinal e) es) = drop a es"
proof -
  have at: "se_ordinal (es ! i) = Suc i" if "i < length es" for i
    using assms that by (metis length_map nth_map nth_upt add_0 diff_zero length_upt)
  have "filter (\<lambda>e. a < se_ordinal e) (take a es) = []"
    by (auto simp: filter_empty_conv in_set_conv_nth at)
  moreover have "filter (\<lambda>e. a < se_ordinal e) (drop a es) = drop a es"
    by (auto simp: filter_id_conv in_set_conv_nth at)
  ultimately have f: "filter (\<lambda>e. a < se_ordinal e) es = drop a es"
    by (metis append_take_drop_id filter_append append_Nil)
  have "sorted (map se_ordinal (drop a es))"
    unfolding drop_map [symmetric] assms by (simp add: drop_map sorted_map)
  then show ?thesis by (simp add: f sort_key_id_if_sorted)
qed

lemma sq_read_page:
  assumes inv: "sq_inv env sid w" and opn: "sq_lost sid w = None" and a: "0 \<le> a" "a \<le> int (length (sq_entries sid w))"
    and bound: "length (sq_entries sid w) \<le> max_safe_integer" and k: "1 \<le> k" "k \<le> CONVERSATION_LOG_READ_LIMIT_MAX"
  shows "sq_read sid w a k = Inr \<lparr>pg_entries = take (nat k) (drop (nat a) (sq_entries sid w)),
    pg_lastOrdinal = length (sq_entries sid w)\<rparr>"
  using inv
proof (rule sq_invE)
  fix l r
  assume lr: "js_get (qw_logs w) sid = Some l" "findSummaryRow (qw_db w) (sl_ref l) = Some r" "row_ok env r"
    "sq_entries sid w = map toLogEntry (sr_entries r)"
  from lr(3) have ord: "map se_ordinal (sr_entries r) = map Suc [0..<length (sr_entries r)]"
    using row_derived_facts(1) unfolding row_ok_def by blast
  show ?thesis using lr opn a bound k row_ok_last [OF lr(3)] page_from [OF ord, of "nat a"]
    by (simp add: sq_read_def sq_lost_def readEntries_def take_map drop_map safe_integer_def
        CONVERSATION_LOG_READ_LIMIT_MAX_def max_safe_integer_def)
qed

lemma sq_append_lost_log:
  assumes "sq_append env sid w b = (Inl x, w')"
  shows "sq_used sid w' = sq_used sid w \<and> sq_lost sid w' = Some x"
proof (cases "js_get (qw_logs w) sid")
  case None
  with assms show ?thesis by (simp add: sq_append_def sq_lost_def)
next
  case (Some l)
  show ?thesis
  proof (cases "sl_lostError l")
    case None
    then show ?thesis using assms Some
      by (auto simp: sq_append_def sq_commit_def Let_def set_log_def sq_used_def sq_lost_def js_get_set
          split: option.splits if_splits sum.splits prod.splits apply_outcome.splits)
  next
    case (Some y)
    then show ?thesis using assms \<open>js_get (qw_logs w) sid = Some l\<close> by (simp add: sq_append_def sq_lost_def)
  qed
qed

interpretation sq: conversation_log "sq_entries sid" "sq_append env sid" "sq_read sid" "sq_lost sid" "sq_used sid" "sq_inv env sid"
  for env sid
proof unfold_locales
  fix w b r w'
  show "sq_inv env sid w \<Longrightarrow> sq_append env sid w b = (r, w') \<Longrightarrow> sq_inv env sid w'"
    using sq_append_effect by blast
next
  fix w
  show "sq_inv env sid w \<Longrightarrow> contiguous (sq_entries sid w)"
    by (erule sq_invE) (simp add: row_ok_contiguous)
next
  fix w x b
  show "sq_lost sid w = Some x \<Longrightarrow> sq_append env sid w b = (Inl x, w)"
    by (auto simp: sq_lost_def sq_append_def split: option.splits)
next
  fix w b x w'
  show "sq_append env sid w b = (Inl x, w') \<Longrightarrow> sq_used sid w' = sq_used sid w \<and> sq_lost sid w' = Some x"
    by (rule sq_append_lost_log)
next
  fix w b x w'
  show "sq_inv env sid w \<Longrightarrow> sq_append env sid w b = (Inl x, w') \<Longrightarrow> x \<noteq> UncertainCommit \<Longrightarrow> sq_entries sid w' = sq_entries sid w"
    using sq_append_effect [of env sid w b "Inl x" w'] by auto
next
  fix w b x w'
  show "sq_inv env sid w \<Longrightarrow> sq_append env sid w b = (Inl x, w') \<Longrightarrow>
     sq_entries sid w' = sq_entries sid w \<or> sq_entries sid w' = sq_entries sid w @ stamp_drafts (length (sq_entries sid w)) (ap_entries b)"
    using sq_append_effect [of env sid w b "Inl x" w'] by auto
next
  fix w b x w'
  show "sq_inv env sid w \<Longrightarrow> sq_append env sid w b = (Inr (RolledBack x), w') \<Longrightarrow>
     sq_entries sid w' = sq_entries sid w \<and> sq_used sid w' = sq_used sid w \<and> sq_lost sid w' = sq_lost sid w"
    using sq_append_effect [of env sid w b "Inr (RolledBack x)" w'] by (auto simp: sq_entries_def sq_used_def sq_lost_def)
next
  fix w b m n w'
  show "sq_inv env sid w \<Longrightarrow> sq_append env sid w b = (Inr (Committed m n), w') \<Longrightarrow> ap_commitId b \<notin> sq_used sid w \<Longrightarrow>
     ap_expectedOrdinal b = length (sq_entries sid w) \<and> sq_lost sid w' = None \<and>
     sq_entries sid w' = sq_entries sid w @ stamp_drafts (length (sq_entries sid w)) (ap_entries b) \<and>
     m = length (sq_entries sid w) + 1 \<and> n = length (sq_entries sid w) + length (ap_entries b) \<and>
     sq_used sid w' = insert (ap_commitId b) (sq_used sid w)"
    using sq_append_effect [of env sid w b "Inr (Committed m n)" w'] by auto
next
  fix w b m n w'
  show "sq_append env sid w b = (Inr (Committed m n), w') \<Longrightarrow> ap_commitId b \<in> sq_used sid w \<Longrightarrow> w' = w"
    by (auto simp: sq_append_def sq_used_def js_get_None_iff lose_def split: option.splits if_splits)
qed (rule sq_read_page)

end
