(* ===== verification/Store_Life.thy ===== *)
theory Store_Life
  imports Sqlite_Contract
begin

text \<open>
  The life of a session store: \<open>sq_step\<close> is anything a process does with it short of deleting a session, with
  any faults and crashes; \<open>sq_life\<close> adds the deletions. Every world reached from an empty store keeps the
  store's invariant, and a step only ever extends a session.
\<close>

section \<open>Steps\<close>

definition empty_world :: sqlite_world where
  "empty_world = \<lparr>qw_db = empty_db, qw_logs = [], qw_faults = []\<rparr>"

inductive sq_step :: "store_env \<Rightarrow> sqlite_world \<Rightarrow> sqlite_world \<Rightarrow> bool" for env where
  created: "sq_create env i w = (res, w') \<Longrightarrow> sq_step env w w'"
| opened: "sq_open env ref w = (res, w') \<Longrightarrow> sq_step env w w'"
| appended: "sq_append env sid w b = (res, w') \<Longrightarrow> sq_step env w w'"
| taken: "js_get (qw_logs w) sid = Some l \<Longrightarrow> takeOpenedSnapshot l = Some (snap, l') \<Longrightarrow> sq_step env w (set_log sid l' w)"
| reads: "sq_step env w (sq_read_world sid w a k)"
| closed: "sq_step env w (sq_close sid w)"
| crashed: "sq_step env w (sq_crash w)"
| faulted: "sq_step env w (w\<lparr>qw_faults := fs\<rparr>)"

inductive sq_life :: "store_env \<Rightarrow> sqlite_world \<Rightarrow> sqlite_world \<Rightarrow> bool" for env where
  step: "sq_step env w w' \<Longrightarrow> sq_life env w w'"
| delete: "deleteSession s n (qw_db w) = (res, db) \<Longrightarrow> sq_life env w (w\<lparr>qw_db := db\<rparr>)"

definition sq_reachable :: "store_env \<Rightarrow> sqlite_world \<Rightarrow> bool" where
  "sq_reachable env w \<longleftrightarrow> (sq_life env)\<^sup>*\<^sup>* empty_world w"

section \<open>Loading a session\<close>

lemma sort_id: "map f xs = map Suc [0..<n] \<Longrightarrow> sort_key f xs = xs"
  by (rule sort_key_id_if_sorted) (simp add: sorted_map)

lemma load_row:
  assumes row: "findSummaryRow db ref = Some r" and ok: "row_ok env r"
  obtains snap s where "sq_load env db ref = Inr (new_sqlite_log ref snap s)" "row_derived env r s" "loadSession db ref = Some snap"
proof -
  from ok obtain s where s: "row_derived env r s" by (auto simp: row_ok_def)
  note facts = row_derived_facts [OF s]
  have es: "sort_key se_ordinal (sr_entries r) = sr_entries r" by (rule sort_id [OF facts(1)])
  have "sorted (map sc_chunkIndex (ds_searchChunks s))" by (simp add: facts(4))
  then have cs: "sort_key sc_chunkIndex (ds_searchChunks s) = ds_searchChunks s" by (rule sort_key_id_if_sorted)
  let ?snap = "\<lparr>sn_row = r, sn_entries = sr_entries r, sn_clientInputs = allSessionStoreClientInputs s,
    sn_searchChunks = ds_searchChunks s\<rparr>"
  have load: "loadSession db ref = Some ?snap"
    using s by (simp add: loadSession_def row es cs row_derived_def allSessionStoreClientInputs_def)
  have "replaySnapshot env ?snap = Inr s"
    using s ok by (simp add: replaySnapshot_def row_derived_def row_ok_def verifySessionStoreProjections_def list_all_iff)
  with load have "sq_load env db ref = Inr (new_sqlite_log ref ?snap s)" by (simp add: sq_load_def)
  from that [OF this s load] show ?thesis .
qed

lemma new_log_ok: "row_derived env r s \<Longrightarrow> log_ok env (new_sqlite_log ref snap s) r"
  using row_derived_facts(2) by (simp add: log_ok_def new_sqlite_log_def)

section \<open>The invariant\<close>

lemma world_ok_db: "world_ok env w \<Longrightarrow> db_ok env (qw_db w)"
  by (simp add: world_ok_def)

lemma sq_load_ref: "sq_load env db ref = Inr l \<Longrightarrow> sl_ref l = ref"
  by (auto simp: sq_load_def new_sqlite_log_def res_simps split: option.splits)

lemma load_log_ok:
  assumes "db_ok env db" and "sq_load env db ref = Inr l" and "findSummaryRow db ref = Some r"
  shows "log_ok env l r"
proof -
  have "row_ok env r" using assms(1) row_of [OF assms(3)] by (auto simp: db_ok_def)
  from load_row [OF assms(3) this] obtain snap s where "sq_load env db ref = Inr (new_sqlite_log ref snap s)" "row_derived env r s"
    by blast
  with assms(2) new_log_ok [of env r s ref snap] show ?thesis by simp
qed

lemma fresh_row_ok:
  "row_ok env \<lparr>sr_generation = g, sr_formatVersion = CURRENT_SESSION_VERSION, sr_cwd = c, sr_cwdKey = ck, sr_createdAt = t,
     sr_parent = par, sr_subagent = sub, sr_projection = initial_projection t, sr_entries = [], sr_clientInputs = [], sr_searchChunks = []\<rparr>"
  by (simp add: row_ok_def row_derived_def replaySessionEntries_def applySessionEntries_def sessionStoreProjection_def
      createSessionDerivedState_def createSessionMessageSummaryAccumulator_def initial_projection_def first_message_def)

lemma createSession_ok:
  assumes db: "db_ok env db" and cr: "createSession env (i\<lparr>ct_formatVersion := CURRENT_SESSION_VERSION\<rparr>) db = (Inr r, db')"
  shows "db_ok env db' \<and> (\<forall>k. k \<noteq> fst (ct_session i) \<longrightarrow> js_get (db_sessions db') k = js_get (db_sessions db) k) \<and>
    js_get (db_sessions db) (fst (ct_session i)) = None"
proof -
  from cr have new: "js_get (db_sessions db) (fst (ct_session i)) = None"
    and r: "row_ok env r" and db': "db' = db\<lparr>db_sessions := js_set (db_sessions db) (fst (ct_session i)) r\<rparr>"
    using fresh_row_ok
    by (auto simp: createSession_def Let_def js_get_None_iff js_has_iff_keys split: if_splits)
  have "evidence_ok env db' ev" if ev: "evidence_ok env db ev" for ev
  proof -
    from ev obtain p q where pq: "ev_digest ev = env_payloadDigest env p" "tp_entries p \<noteq> []"
      "findSummaryRow db (ev_session ev) = Some q" "\<forall>e\<in>set (tp_entries p). se_ordinal e \<le> length (sr_entries q)"
      by (auto simp: evidence_ok_def)
    then have "fst (ev_session ev) \<noteq> fst (ct_session i)" using new row_of by fastforce
    then have "findSummaryRow db' (ev_session ev) = Some q" using pq(3) by (simp add: db' findSummaryRow_def js_get_set)
    with pq show ?thesis unfolding evidence_ok_def by blast
  qed
  with db r new show ?thesis by (auto simp: db_ok_def db' js_get_set)
qed

lemma world_ok_db_update:
  assumes ok: "world_ok env w" and db: "db_ok env db"
    and rows: "\<And>sid l r. js_get (qw_logs w) sid = Some l \<Longrightarrow> findSummaryRow db (sl_ref l) = Some r \<Longrightarrow>
      findSummaryRow (qw_db w) (sl_ref l) = Some r"
  shows "world_ok env (w\<lparr>qw_db := db\<rparr>)"
  using ok db rows by (auto simp: world_ok_def)

lemma create_world:
  assumes ok: "world_ok env w" and cr: "sq_create env i w = (res, w')"
  shows "world_ok env w'"
proof -
  let ?i = "i\<lparr>ct_formatVersion := CURRENT_SESSION_VERSION\<rparr>" and ?sid = "fst (ct_session i)"
  show ?thesis
  proof (cases "js_has (qw_logs w) ?sid")
    case True
    with cr ok show ?thesis by (simp add: sq_create_def)
  next
    case nolog: False
    obtain x db where c: "createSession env ?i (qw_db w) = (x, db)" by (cases "createSession env ?i (qw_db w)")
    show ?thesis
    proof (cases x)
      case (Inl err)
      with cr nolog c ok show ?thesis by (simp add: sq_create_def)
    next
      case (Inr row)
      note new = createSession_ok [OF world_ok_db [OF ok] c [unfolded Inr]]
      have db: "world_ok env (w\<lparr>qw_db := db\<rparr>)"
      proof (rule world_ok_db_update [OF ok])
        fix sid l r assume l: "js_get (qw_logs w) sid = Some l" and r: "findSummaryRow db (sl_ref l) = Some r"
        have "fst (sl_ref l) = sid" using ok l by (auto simp: world_ok_def)
        moreover have "sid \<noteq> ?sid" using l nolog by (auto simp: js_has_def)
        ultimately show "findSummaryRow (qw_db w) (sl_ref l) = Some r" using new r findSummaryRow_same by metis
      qed (use new in blast)
      show ?thesis
      proof (cases "sq_load env db (ct_session i)")
        case (Inl err)
        with cr nolog c Inr db show ?thesis by (auto simp: sq_create_def)
      next
        case ld: (Inr l)
        have w': "w' = set_log ?sid l (w\<lparr>qw_db := db\<rparr>)" using cr nolog c \<open>x = Inr row\<close> ld by (auto simp: sq_create_def)
        show ?thesis
          by (rule world_ok_log [OF db, of _ l ?sid])
            (use new ld w' load_log_ok [OF _ ld] in \<open>auto simp: set_log_def sq_load_ref [OF ld]\<close>)
      qed
    qed
  qed
qed

lemma open_world:
  assumes ok: "world_ok env w" and op: "sq_open env ref w = (res, w')"
  shows "world_ok env w'"
proof (cases "sq_load env (qw_db w) ref")
  case (Inl err)
  with op ok show ?thesis by (auto simp: sq_open_def split: if_splits)
next
  case (Inr l)
  show ?thesis
  proof (cases "js_has (qw_logs w) (fst ref)")
    case True
    with op ok show ?thesis by (auto simp: sq_open_def)
  next
    case False
    have w': "w' = set_log (fst ref) l w" using op False Inr by (auto simp: sq_open_def)
    show ?thesis
      by (rule world_ok_log [OF ok, of _ l "fst ref"])
        (use ok w' load_log_ok [OF world_ok_db [OF ok] Inr] in \<open>auto simp: set_log_def sq_load_ref [OF Inr] world_ok_def\<close>)
  qed
qed

lemma set_log_world:
  assumes ok: "world_ok env w" and l: "js_get (qw_logs w) sid = Some l"
    and same: "sl_ref l' = sl_ref l" "\<And>r. log_ok env l r \<Longrightarrow> log_ok env l' r"
  shows "world_ok env (set_log sid l' w)"
  by (rule world_ok_log [OF ok, of _ l' sid]) (use ok l same in \<open>auto simp: set_log_def world_ok_def\<close>)

lemma delete_cascade_ok:
  assumes db: "db_ok env db" and r: "findSummaryRow db s = Some r"
  shows "db_ok env (delete_cascade s db)"
proof -
  let ?db = "delete_cascade s db"
  have sess: "js_get (db_sessions ?db) k = (if k = fst s then None else js_get (db_sessions db) k)" for k
    by (simp add: delete_cascade_def Let_def js_get_delete)
  have "evidence_ok env ?db ev" if "ev \<in> set (js_values (db_commits ?db))" for ev
  proof -
    from that have "ev \<in> set (js_values (db_commits db))" and other: "ev_session ev \<noteq> s"
      by (auto simp: delete_cascade_def Let_def js_values_def)
    with db have "evidence_ok env db ev" by (simp add: db_ok_def)
    then obtain p q where pq: "ev_digest ev = env_payloadDigest env p" "tp_entries p \<noteq> []"
      "findSummaryRow db (ev_session ev) = Some q" "\<forall>e\<in>set (tp_entries p). se_ordinal e \<le> length (sr_entries q)"
      by (auto simp: evidence_ok_def)
    have "fst (ev_session ev) \<noteq> fst s"
      using row_of [OF pq(3)] row_of [OF r] other by (metis option.inject prod.collapse)
    then have "findSummaryRow ?db (ev_session ev) = Some q" using pq(3) by (simp add: findSummaryRow_def sess)
    with pq show ?thesis unfolding evidence_ok_def by blast
  qed
  then show ?thesis using db by (auto simp: db_ok_def sess split: if_splits)
qed

lemma step_world:
  assumes env: "env_ok env" and "sq_step env w w'" and ok: "world_ok env w"
  shows "world_ok env w'"
  using assms(2)
proof cases
  case (created i res)
  then show ?thesis using create_world [OF ok] by blast
next
  case (opened ref res)
  then show ?thesis using open_world [OF ok] by blast
next
  case (appended sid b res)
  then show ?thesis using sq_append_world [OF env ok] by blast
next
  case (taken sid l snap l')
  then have "l' = l\<lparr>sl_openedSnapshot := None\<rparr>" by (auto simp: takeOpenedSnapshot_def)
  then show ?thesis unfolding taken(1) by (intro set_log_world [OF ok taken(2)]) (simp_all add: log_ok_def)
next
  case (reads sid a k)
  show ?thesis
  proof (cases "js_get (qw_logs w) sid")
    case None
    then show ?thesis using ok by (simp add: reads sq_read_world_def)
  next
    case (Some l)
    have "world_ok env (set_log sid (l\<lparr>sl_lostError := Some StorageFailure\<rparr>) w)"
      by (rule set_log_world [OF ok Some]) (simp_all add: log_ok_lost)
    then show ?thesis using ok Some by (simp add: reads sq_read_world_def)
  qed
next
  case (closed sid)
  then show ?thesis using ok by (auto simp: sq_close_def world_ok_def js_get_delete split: if_splits)
next
  case crashed
  then show ?thesis using ok by (simp add: sq_crash_def world_ok_def)
next
  case (faulted fs)
  then show ?thesis using ok by (simp add: world_ok_def)
qed

lemma life_world:
  assumes env: "env_ok env" and "sq_life env w w'" and ok: "world_ok env w"
  shows "world_ok env w'"
  using assms(2)
proof cases
  case step
  then show ?thesis by (rule step_world [OF env _ ok])
next
  case (delete s n res db)
  show ?thesis
  proof (cases "db = qw_db w")
    case True
    then show ?thesis using ok by (simp add: delete(1))
  next
    case False
    then obtain r where r: "findSummaryRow (qw_db w) s = Some r" and db: "db = delete_cascade s (qw_db w)"
      using delete(2) by (auto simp: deleteSession_def split: option.splits if_splits)
    show ?thesis unfolding delete(1)
    proof (rule world_ok_db_update [OF ok])
      show "db_ok env db" unfolding db by (rule delete_cascade_ok [OF world_ok_db [OF ok] r])
    next
      fix sid l q
      assume "findSummaryRow db (sl_ref l) = Some q"
      then show "findSummaryRow (qw_db w) (sl_ref l) = Some q"
        by (auto simp: db delete_cascade_def Let_def findSummaryRow_def js_get_delete split: if_splits)
    qed
  qed
qed

lemma empty_world_ok: "world_ok env empty_world"
  by (simp add: world_ok_def empty_world_def empty_db_def db_ok_def)

lemma reachable_ok:
  assumes env: "env_ok env" and "sq_reachable env w"
  shows "world_ok env w"
  using assms(2) unfolding sq_reachable_def
  by (induction rule: rtranclp_induct) (auto intro: empty_world_ok life_world [OF env])

section \<open>Sessions only grow\<close>

definition extends_rows :: "session_identity \<Rightarrow> store_db \<Rightarrow> store_db \<Rightarrow> bool" where
  "extends_rows ref db db' \<longleftrightarrow>
     (\<forall>r. findSummaryRow db ref = Some r \<longrightarrow>
        (\<exists>r' es. findSummaryRow db' ref = Some r' \<and> map toLogEntry (sr_entries r') = map toLogEntry (sr_entries r) @ es))"

lemma extends_same: "js_get (db_sessions db') (fst ref) = js_get (db_sessions db) (fst ref) \<Longrightarrow> extends_rows ref db db'"
  using findSummaryRow_same [of db' ref db] by (auto simp: extends_rows_def)

lemma extends_trans: "extends_rows ref a b \<Longrightarrow> extends_rows ref b c \<Longrightarrow> extends_rows ref a c"
  unfolding extends_rows_def by (metis append_assoc)

lemma append_extends:
  assumes env: "env_ok env" and ok: "world_ok env w" and app: "sq_append env sid w b = (res, w')"
  shows "extends_rows ref (qw_db w) (qw_db w')"
proof (cases "js_get (qw_logs w) sid")
  case None
  with app show ?thesis by (simp add: sq_append_def extends_same)
next
  case (Some l)
  have stored: "extends_rows ref (qw_db w) (qw_db w')"
    if rdy: "ready env (qw_db w) l r b p" and st: "stored env (qw_db w) l r b p (qw_db w')" for r p
  proof (cases "fst ref = fst (sl_ref l)")
    case True
    have r: "findSummaryRow (qw_db w) (sl_ref l) = Some r" using rdy by (simp add: ready_def)
    from st obtain r' where r': "findSummaryRow (qw_db w') (sl_ref l) = Some r'"
      "map toLogEntry (sr_entries r') = map toLogEntry (sr_entries r) @ stamp_drafts (length (sr_entries r)) (ap_entries b)"
      by (rule stored_row) metis
    show ?thesis unfolding extends_rows_def
    proof (intro allI impI)
      fix q assume q: "findSummaryRow (qw_db w) ref = Some q"
      from row_of [OF q] row_of [OF r] True have "q = r" "ref = sl_ref l" by (auto simp: prod_eq_iff)
      with r' show "\<exists>r' es. findSummaryRow (qw_db w') ref = Some r' \<and> map toLogEntry (sr_entries r') = map toLogEntry (sr_entries q) @ es"
        by blast
    qed
  next
    case False
    with st show ?thesis by (intro extends_same) (simp add: stored_def)
  qed
  from env ok Some app show ?thesis
    by (cases rule: sq_append_cases) (auto intro: extends_same stored)
qed

lemma step_extends:
  assumes env: "env_ok env" and "sq_step env w w'" and ok: "world_ok env w"
  shows "extends_rows ref (qw_db w) (qw_db w')"
  using assms(2)
proof cases
  case (created i res)
  show ?thesis
  proof (cases "qw_db w' = qw_db w")
    case False
    then obtain row where row: "createSession env (i\<lparr>ct_formatVersion := CURRENT_SESSION_VERSION\<rparr>) (qw_db w) = (Inr row, qw_db w')"
      using created by (auto simp: sq_create_def set_log_def split: if_splits prod.splits sum.splits)
    note new = createSession_ok [OF world_ok_db [OF ok] row]
    show ?thesis
    proof (cases "fst ref = fst (ct_session i)")
      case True
      with new show ?thesis by (simp add: extends_rows_def findSummaryRow_def)
    next
      case False
      with new show ?thesis by (intro extends_same) blast
    qed
  qed (simp add: extends_same)
next
  case (opened r res)
  then show ?thesis by (auto simp: sq_open_def set_log_def intro: extends_same split: if_splits sum.splits)
next
  case (appended sid b res)
  then show ?thesis using append_extends [OF env ok] by blast
next
  case (reads sid a k)
  then show ?thesis by (auto simp: sq_read_world_def set_log_def intro: extends_same split: option.splits)
qed (auto simp: set_log_def sq_close_def sq_crash_def intro: extends_same)

lemma steps_extend:
  assumes env: "env_ok env" and "(sq_step env)\<^sup>*\<^sup>* w w'" and ok: "world_ok env w"
  shows "world_ok env w' \<and> extends_rows ref (qw_db w) (qw_db w')"
  using assms(2)
proof (induction rule: rtranclp_induct)
  case base
  then show ?case using ok by (simp add: extends_same)
next
  case (step u v)
  then show ?case using step_world [OF env] step_extends [OF env] extends_trans by blast
qed

end
