(* ===== verification/Store_Agreement.thy ===== *)
theory Store_Agreement
  imports Store_Invariant Kernel_Commit
begin

text \<open>
  What a session's derived state means: its outstanding client inputs stay within the limits of a session, and
  the rows the store keeps of a session say what the kernel's fold of the same entries says, though the two
  reducers are separate code.
\<close>

section \<open>Bounds\<close>

lemma js_sum_absent:
  fixes f :: "'v \<Rightarrow> 'a::ab_group_add"
  shows "js_get m k = None \<Longrightarrow> sum_list (map f (js_values (js_set m k v))) = sum_list (map f (js_values m)) + f v"
  by (simp add: js_get_None_iff js_set_fresh)

lemma js_sum_present:
  fixes f :: "'v \<Rightarrow> 'a::ab_group_add"
  shows "js_get m k = Some u \<Longrightarrow> distinct (js_keys m) \<Longrightarrow>
   sum_list (map f (js_values (js_set m k v))) = sum_list (map f (js_values m)) - f u + f v"
proof (induction m)
  case (Cons p m)
  obtain k' u' where p: "p = (k', u')" by (cases p)
  show ?case
  proof (cases "k' = k")
    case True
    then show ?thesis using Cons.prems by (auto simp: p js_get_Cons)
  next
    case False
    with Cons.prems have "js_get m k = Some u" "distinct (js_keys m)" by (auto simp: p js_get_Cons)
    from Cons.IH [OF this] show ?thesis using False by (simp add: p algebra_simps)
  qed
qed simp

definition outstanding_one :: "client_input_record \<Rightarrow> int" where
  "outstanding_one r = (if isTerminalClientInputState (ir_state r) then 0 else 1)"

definition outstanding_bytes :: "client_input_record \<Rightarrow> int" where
  "outstanding_bytes r = (if isTerminalClientInputState (ir_state r) then 0
     else measure_input (ir_input r) + (case ir_queuedInput r of None \<Rightarrow> 0 | Some q \<Rightarrow> measure_queued q))"

lemma count_sum: "int (outstandingClientInputCount rs) = sum_list (map outstanding_one rs)"
  by (induction rs) (simp_all add: outstandingClientInputCount_def outstanding_one_def)

lemma bytes_sum: "outstandingClientInputBytes rs = sum_list (map outstanding_bytes rs)"
  by (simp add: outstandingClientInputBytes_def outstanding_bytes_def [abs_def])

lemma outstanding_nonneg: "0 \<le> outstanding_bytes r" "0 \<le> outstanding_one r"
  by (auto simp: outstanding_bytes_def outstanding_one_def measure_input_def measure_queued_def split: option.split)

definition bounded_inputs :: "input_map \<Rightarrow> bool" where
  "bounded_inputs m \<longleftrightarrow>
     outstandingClientInputCount (js_values m) \<le> CLIENT_INPUT_MAX_OUTSTANDING_ENTRIES \<and>
     outstandingClientInputBytes (js_values m) \<le> CLIENT_INPUT_MAX_OUTSTANDING_BYTES"

lemma bounded_replace:
  assumes "bounded_inputs m" and "keyed m" and "js_get m k = Some u"
    and "outstanding_one r \<le> outstanding_one u" and "outstanding_bytes r \<le> outstanding_bytes u"
  shows "bounded_inputs (js_set m k r)"
proof -
  have d: "distinct (js_keys m)" using assms(2) by (simp add: keyed_def)
  have "int (outstandingClientInputCount (js_values (js_set m k r))) \<le> int (outstandingClientInputCount (js_values m))"
    unfolding count_sum js_sum_present [OF assms(3) d] using assms(4) by simp
  moreover have "outstandingClientInputBytes (js_values (js_set m k r)) \<le> outstandingClientInputBytes (js_values m)"
    unfolding bytes_sum js_sum_present [OF assms(3) d] using assms(5) by simp
  ultimately show ?thesis using assms(1) by (simp add: bounded_inputs_def)
qed

lemma reduce_bounded:
  assumes m: "bounded_inputs m" "keyed m" and red: "reduceClientInputEntry d m e = Inr (Some r)"
  shows "bounded_inputs (js_set m (ir_clientMessageId r) r)"
  using red
proof (cases rule: reduce_Inr_cases)
  case (receipt p)
  then have new: "js_get m (rp_clientMessageId p) = None"
    and room: "outstandingClientInputCount (js_values m) + 1 \<le> CLIENT_INPUT_MAX_OUTSTANDING_ENTRIES"
      "outstandingClientInputBytes (js_values m) + measure_input (ir_input r) \<le> CLIENT_INPUT_MAX_OUTSTANDING_BYTES"
    and r: "ir_clientMessageId r = rp_clientMessageId p" "ir_state r = Accepted" "ir_queuedInput r = None"
    by (auto simp: reduce_receipt_def js_get_None_iff js_has_iff_keys res_simps split: if_splits)
  have one: "outstanding_one r = 1" "outstanding_bytes r = measure_input (ir_input r)"
    using r by (simp_all add: outstanding_one_def outstanding_bytes_def isTerminalClientInputState_def)
  have "int (outstandingClientInputCount (js_values (js_set m (rp_clientMessageId p) r))) =
      int (outstandingClientInputCount (js_values m)) + 1"
    unfolding count_sum js_sum_absent [OF new] by (simp add: one)
  moreover have "outstandingClientInputBytes (js_values (js_set m (rp_clientMessageId p) r)) =
      outstandingClientInputBytes (js_values m) + measure_input (ir_input r)"
    unfolding bytes_sum js_sum_absent [OF new] by (simp add: one)
  ultimately show ?thesis using room by (simp add: bounded_inputs_def r)
next
  case (queued p)
  from queued(2) obtain u where u: "js_get m (qp_clientMessageId p) = Some u" "ir_queuedInput u = None"
      "\<not> isTerminalClientInputState (ir_state u)"
    and room: "outstandingClientInputBytes (js_values m) + measure_queued (qp_queuedInput p) \<le> CLIENT_INPUT_MAX_OUTSTANDING_BYTES"
    and r: "r = u\<lparr>ir_queuedEntryId := Some (se_id e), ir_queuedInput := Some (qp_queuedInput p), ir_state := Accepted, ir_error := None\<rparr>"
    by (auto simp: reduce_queued_def normalizeClientInputQueuedPayload_def isTerminalClientInputState_def res_simps
        split: if_splits option.splits)
  have k: "ir_clientMessageId r = qp_clientMessageId p" using m(2) u(1) by (simp add: keyed_def r)
  have d: "distinct (js_keys m)" using m(2) by (simp add: keyed_def)
  have one: "outstanding_one r = outstanding_one u"
      "outstanding_bytes r = outstanding_bytes u + measure_queued (qp_queuedInput p)"
    using u by (simp_all add: r outstanding_one_def outstanding_bytes_def isTerminalClientInputState_def)
  have "int (outstandingClientInputCount (js_values (js_set m (qp_clientMessageId p) r))) =
      int (outstandingClientInputCount (js_values m))"
    unfolding count_sum js_sum_present [OF u(1) d] by (simp add: one)
  moreover have "outstandingClientInputBytes (js_values (js_set m (qp_clientMessageId p) r)) =
      outstandingClientInputBytes (js_values m) + measure_queued (qp_queuedInput p)"
    unfolding bytes_sum js_sum_present [OF u(1) d] by (simp add: one)
  ultimately show ?thesis using room m(1) by (simp add: bounded_inputs_def k)
next
  case (state p)
  from state(2) obtain u err where u: "js_get m (sp_clientMessageId p) = Some u" "\<not> isTerminalClientInputState (ir_state u)"
    and r: "r = u\<lparr>ir_state := sp_state p, ir_error := err\<rparr>"
    by (auto simp: reduce_state_def split: if_splits option.splits)
  have "ir_clientMessageId r = sp_clientMessageId p" using m(2) u(1) by (simp add: keyed_def r)
  moreover have "outstanding_one r \<le> outstanding_one u" "outstanding_bytes r \<le> outstanding_bytes u"
    using u(2) outstanding_nonneg(1) [of u] by (auto simp: r outstanding_one_def outstanding_bytes_def split: if_splits)
  ultimately show ?thesis using bounded_replace [OF m u(1)] by simp
next
  case (message msg c)
  from message(2) obtain u where u: "js_get m c = Some u"
    and r: "r = u\<lparr>ir_state := Completed, ir_error := None, ir_canonicalEntryId := Some (se_id e)\<rparr>"
    by (auto simp: reduce_message_def split: if_splits option.splits)
  have "ir_clientMessageId r = c" using m(2) u by (simp add: keyed_def r)
  moreover have "outstanding_one r \<le> outstanding_one u" "outstanding_bytes r \<le> outstanding_bytes u"
    using outstanding_nonneg [of u] by (auto simp: r outstanding_one_def outstanding_bytes_def isTerminalClientInputState_def)
  ultimately show ?thesis using bounded_replace [OF m u] by simp
qed

lemma replay_bounded:
  "applySessionEntries d es s = Inr t \<Longrightarrow> keyed (ds_clientInputsById s) \<Longrightarrow> bounded_inputs (ds_clientInputsById s) \<Longrightarrow>
   bounded_inputs (ds_clientInputsById t)"
proof (induction es arbitrary: t rule: rev_induct)
  case (snoc e es)
  then obtain u where u: "applySessionEntries d es s = Inr u" and e: "applySessionEntry d u e = Inr t"
    by (auto simp: applySessionEntries_snoc)
  have k: "keyed (ds_clientInputsById u)" by (rule replay_keyed [OF u snoc.prems(2)])
  have b: "bounded_inputs (ds_clientInputsById u)" by (rule snoc.IH [OF u snoc.prems(2,3)])
  from e show ?case
    by (rule applySessionEntry_Inr) (use b reduce_bounded [OF b k] in \<open>auto split: option.splits\<close>)
qed simp

text \<open>An input that can be recovered from the queue is outstanding.\<close>

lemma recoverable_le: "recoverableQueuedClientInputCount rs \<le> outstandingClientInputCount rs"
  by (induction rs) (auto simp: recoverableQueuedClientInputCount_def outstandingClientInputCount_def isTerminalClientInputState_def)

lemma bounded_asserted: "bounded_inputs m \<Longrightarrow> assertClientInputProjectionBounds (js_values m) = Inr ()"
  using recoverable_le [of "js_values m"]
  by (simp add: assertClientInputProjectionBounds_def bounded_inputs_def CLIENT_INPUT_MAX_OUTSTANDING_ENTRIES_def)

section \<open>Agreement with the fold\<close>

text \<open>An input that has no canonical entry unless it is completed: the store's reducer never clears one.\<close>

definition canonical_completed :: "input_map \<Rightarrow> bool" where
  "canonical_completed m \<longleftrightarrow> (\<forall>k r. js_get m k = Some r \<longrightarrow> ir_state r \<noteq> Completed \<longrightarrow> ir_canonicalEntryId r = None)"

lemma reduce_next_input:
  assumes can: "canonical_completed m" and red: "reduceClientInputEntry d m e = Inr x"
    and nx: "nextClientInput m (toLogEntry e) = Inr y"
  shows "x = y \<and> (case x of None \<Rightarrow> True | Some r \<Rightarrow> ir_state r \<noteq> Completed \<longrightarrow> ir_canonicalEntryId r = None)"
proof (cases x)
  case None
  then have "nextClientInput m (toLogEntry e) = Inr None"
    using red by (auto simp: reduceClientInputEntry_def nextClientInput_def map_sum_def split: entry_body.splits option.splits sum.splits)
  then show ?thesis using nx None by simp
next
  case (Some r)
  from red [unfolded Some] show ?thesis
  proof (cases rule: reduce_Inr_cases)
    case (receipt p)
    then have "receive_input m (se_id e) p = Inr r"
      by (auto simp: reduce_receipt_def receive_input_def normalizeClientInputPayload_def res_simps split: if_splits)
    then show ?thesis using nx receipt Some
      by (auto simp: nextClientInput_def receive_input_def map_sum_def split: if_splits)
  next
    case (queued p)
    from queued(2) obtain u where u: "js_get m (qp_clientMessageId p) = Some u" "ir_state u = Accepted \<or> ir_state u = Started"
        "ir_receiptId u = qp_receiptId p"
      and r: "r = u\<lparr>ir_queuedEntryId := Some (se_id e), ir_queuedInput := Some (qp_queuedInput p), ir_state := Accepted, ir_error := None\<rparr>"
      by (auto simp: reduce_queued_def normalizeClientInputQueuedPayload_def res_simps split: if_splits option.splits)
    have "ir_canonicalEntryId u = None" using can u(1,2) by (auto simp: canonical_completed_def)
    then have r': "r = (with_lifecycle u Accepted None None)\<lparr>ir_queuedEntryId := Some (se_id e), ir_queuedInput := Some (qp_queuedInput p)\<rparr>"
      by (simp add: r with_lifecycle_def)
    have "queue_input m (se_id e) p = Inr z \<Longrightarrow> z = r" for z
      using u by (auto simp: queue_input_def requireReceipt_def res_simps r' split: if_splits)
    then show ?thesis using nx queued(1) Some r'
      by (auto simp: nextClientInput_def map_sum_def with_lifecycle_def split: sum.splits)
  next
    case (state p)
    from state(2) obtain u where u: "js_get m (sp_clientMessageId p) = Some u" "\<not> isTerminalClientInputState (ir_state u)"
        "ir_receiptId u = sp_receiptId p" "sp_error p \<noteq> None \<longrightarrow> sp_state p = Failed"
      and r: "r = u\<lparr>ir_state := sp_state p, ir_error := (if sp_state p = Failed then sp_error p else None)\<rparr>"
      by (auto simp: reduce_state_def split: if_splits option.splits)
    have "ir_canonicalEntryId u = None" using can u(1,2) by (auto simp: canonical_completed_def isTerminalClientInputState_def)
    then have r': "r = with_lifecycle u (sp_state p) (sp_error p) None" using u(4) by (auto simp: r with_lifecycle_def)
    have "move_input m p = Inr z \<Longrightarrow> z = r" for z
      using u(1,3) by (auto simp: move_input_def requireReceipt_def res_simps r' split: if_splits)
    then show ?thesis using nx state(1) Some r'
      by (auto simp: nextClientInput_def map_sum_def with_lifecycle_def split: sum.splits)
  next
    case (message msg c)
    then show ?thesis using nx Some
      by (auto simp: reduce_message_def nextClientInput_def complete_input_def with_lifecycle_def map_sum_def
          split: if_splits option.splits)
  qed
qed

definition label_fields :: "(conversation_label \<Rightarrow> string) \<Rightarrow> (entry_id, conversation_label) js_map \<Rightarrow> (entry_id, string) js_map" where
  "label_fields f m = map (\<lambda>(k, l). (k, f l)) m"

lemma label_fields_set: "label_fields f (js_set m k l) = js_set (label_fields f m) k (f l)"
  by (induction m) (auto simp: label_fields_def)

lemma label_fields_delete: "label_fields f (js_delete m k) = js_delete (label_fields f m) k"
  by (induction m) (auto simp: label_fields_def js_delete_def)

definition store_agrees :: "derived_state \<Rightarrow> conversation_state \<Rightarrow> bool" where
  "store_agrees s st \<longleftrightarrow>
     ds_clientInputsById s = st_inputs st \<and> ds_leafId s = st_leafId st \<and> ds_name s = st_name st \<and>
     ds_labelsById s = label_fields lab_label (st_labels st) \<and>
     ds_labelTimestampsById s = label_fields lab_timestamp (st_labels st)"

lemma derive_frame [simp]:
  "ds_name (derive_leaf e s) = ds_name s" "ds_name (derive_chunk e s) = ds_name s" "ds_name (derive_input e i s) = ds_name s"
  "ds_labelsById (derive_leaf e s) = ds_labelsById s" "ds_labelsById (derive_chunk e s) = ds_labelsById s"
  "ds_labelsById (derive_input e i s) = ds_labelsById s"
  "ds_labelTimestampsById (derive_leaf e s) = ds_labelTimestampsById s"
  "ds_labelTimestampsById (derive_chunk e s) = ds_labelTimestampsById s"
  "ds_labelTimestampsById (derive_input e i s) = ds_labelTimestampsById s"
  by (simp_all add: derive_leaf_def derive_chunk_def derive_input_def Let_def split: entry_body.split option.split)

lemma applySessionEntry_fields:
  assumes "applySessionEntry d s e = Inr s'"
  shows "ds_leafId s' = (case se_body e of Leaf t \<Rightarrow> t
      | b \<Rightarrow> if isHostOnlySessionEntryType b then ds_leafId s else Some (se_id e))"
    "ds_name s' = (case se_body e of SessionInfo n \<Rightarrow> trim_or_null n | _ \<Rightarrow> ds_name s)"
    "ds_labelsById s' = ds_labelsById (derive_records e s)"
    "ds_labelTimestampsById s' = ds_labelTimestampsById (derive_records e s)"
proof -
  from assms obtain input where s': "s' = (derive_leaf e (derive_chunk e (derive_input e input (derive_records e
        (s\<lparr>ds_messageSummary := accumulateMessageSummary (ds_messageSummary s) e\<rparr>)))))\<lparr>ds_nextOrdinal := ds_nextOrdinal s + 1\<rparr>"
    by (auto simp: applySessionEntry_def Let_def res_simps split: option.splits)
  show "ds_leafId s' = (case se_body e of Leaf t \<Rightarrow> t
      | b \<Rightarrow> if isHostOnlySessionEntryType b then ds_leafId s else Some (se_id e))"
    by (cases "se_body e"; simp add: s' derive_leaf_def)
  show "ds_name s' = (case se_body e of SessionInfo n \<Rightarrow> trim_or_null n | _ \<Rightarrow> ds_name s)"
    by (simp add: s' derive_records_def split: entry_body.split option.split)
  show "ds_labelsById s' = ds_labelsById (derive_records e s)"
    by (simp add: s' derive_records_def split: entry_body.split option.split)
  show "ds_labelTimestampsById s' = ds_labelTimestampsById (derive_records e s)"
    by (simp add: s' derive_records_def split: entry_body.split option.split)
qed

lemma toLogEntry_public:
  "entryShape (se_body e) \<noteq> None \<Longrightarrow> e_visibility (toLogEntry e) = Public \<longleftrightarrow> \<not> isHostOnlySessionEntryType (se_body e)"
  by (cases "the (entryShape (se_body e))") (auto simp: toLogEntry_def isHostOnlySessionEntryType_def)

lemma apply_agrees:
  assumes ag: "store_agrees s st" and shape: "entryShape (se_body e) \<noteq> None" and can: "canonical_completed (ds_clientInputsById s)"
    and s': "applySessionEntry d s e = Inr s'" and st': "apply_entry st (toLogEntry e) = Inr st'"
  shows "store_agrees s' st' \<and> canonical_completed (ds_clientInputsById s')"
proof -
  from s' obtain x where x: "reduceClientInputEntry d (ds_clientInputsById s) e = Inr x"
    and xs: "ds_clientInputsById s' = (case x of None \<Rightarrow> ds_clientInputsById s
       | Some r \<Rightarrow> js_set (ds_clientInputsById s) (ir_clientMessageId r) r)" by (rule applySessionEntry_Inr)
  from st' obtain y where y: "nextClientInput (st_inputs st) (toLogEntry e) = Inr y" "st_inputs st' = next_inputs (st_inputs st) y"
    by (rule apply_entry_inputs)
  have "ds_clientInputsById s = st_inputs st" using ag by (simp add: store_agrees_def)
  with reduce_next_input [OF can x] y(1) have xy: "x = y"
    "case x of None \<Rightarrow> True | Some r \<Rightarrow> ir_state r \<noteq> Completed \<longrightarrow> ir_canonicalEntryId r = None" by auto
  have "ds_clientInputsById s' = st_inputs st'"
    using xs y(2) xy(1) ag by (auto simp: store_agrees_def next_inputs_def split: option.splits)
  moreover have "ds_leafId s' = st_leafId st'"
    using ag unfolding applySessionEntry_fields(1) [OF s'] apply_entry_leaf [OF st'] toLogEntry_public [OF shape]
    by (cases "se_body e") (simp_all add: store_agrees_def)
  moreover have "ds_name s' = st_name st'"
    using ag unfolding applySessionEntry_fields(2) [OF s'] apply_entry_tree(3) [OF st']
    by (cases "se_body e") (simp_all add: store_agrees_def)
  moreover have "ds_labelsById s' = label_fields lab_label (st_labels st')"
    "ds_labelTimestampsById s' = label_fields lab_timestamp (st_labels st')"
    using ag unfolding applySessionEntry_fields(3,4) [OF s'] apply_entry_tree(2) [OF st']
    by (cases "se_body e"; simp add: store_agrees_def derive_records_def setLabel_def toLogEntry_def label_fields_set
        label_fields_delete split: option.split)+
  moreover have "canonical_completed (ds_clientInputsById s')"
    using can xs xy(2) by (auto simp: canonical_completed_def js_get_set split: option.splits if_splits)
  ultimately show ?thesis by (simp add: store_agrees_def)
qed

lemma replay_agrees:
  "list_all (\<lambda>e. entryShape (se_body e) \<noteq> None) es \<Longrightarrow> applySessionEntries d es (createSessionDerivedState t) = Inr s \<Longrightarrow> fold_log (map toLogEntry es) emptyState = Inr st \<Longrightarrow>
   store_agrees s st \<and> canonical_completed (ds_clientInputsById s)"
proof (induction es arbitrary: s st rule: rev_induct)
  case Nil
  then show ?case
    by (auto simp: applySessionEntries_def fold_log_def store_agrees_def canonical_completed_def label_fields_def
        emptyState_def createSessionDerivedState_def)
next
  case (snoc e es)
  then show ?case by (auto simp: applySessionEntries_snoc fold_log_snoc) (use apply_agrees in blast)+
qed

end
