(* ===== verification/Transaction_Check.thy ===== *)
theory Transaction_Check
  imports Store_Agreement
begin

text \<open>
  The worker checks a transaction against a bounded part of the session: the outstanding client inputs and those
  the batch names, with no messages, labels or search text before the batch. \<open>same_inputs\<close> is the relation
  between that part and the whole; the check accepts exactly what the log prepared from the whole session.
\<close>

section \<open>Rows that can be written\<close>

definition writable_row :: "input_digest \<Rightarrow> client_input_record \<Rightarrow> bool" where
  "writable_row d r \<longleftrightarrow> clientInputRecordFromWrite d r = Inr r"

definition writable :: "input_digest \<Rightarrow> input_map \<Rightarrow> bool" where
  "writable d m \<longleftrightarrow> (\<forall>k r. js_get m k = Some r \<longrightarrow> writable_row d r)"

lemma writable_row_iff:
  "writable_row d r \<longleftrightarrow>
     normalizeClientInputPayload (ir_command r) (ir_input r) = Inr (ir_input r) \<and>
     (ir_queuedEntryId r = None \<longleftrightarrow> ir_queuedInput r = None) \<and>
     ir_semanticDigest r = d (ir_command r) (ir_input r) \<and>
     (case ir_queuedInput r of None \<Rightarrow> True
      | Some q \<Rightarrow> normalizeClientInputQueuedPayload q = Inr q \<and> Some (ciq_delivery q) = expectedQueuedDelivery r \<and>
          (ciq_messages q \<noteq> None \<longrightarrow> ir_origin r)) \<and>
     (case ir_error r of None \<Rightarrow> True | Some x \<Rightarrow> ir_state r = Failed \<and> length x \<le> CLIENT_INPUT_ERROR_MAX_SCALARS)"
proof -
  have n: "normalizeClientInputPayload c i = Inr j \<Longrightarrow> j = i" for c i j
    by (simp add: normalizeClientInputPayload_def split: if_splits)
  have q: "normalizeClientInputQueuedPayload i = Inr j \<Longrightarrow> j = i" for i j
    by (simp add: normalizeClientInputQueuedPayload_def split: if_splits)
  show ?thesis
    unfolding writable_row_def clientInputRecordFromWrite_def
    by (cases "normalizeClientInputPayload (ir_command r) (ir_input r)"; cases "ir_queuedInput r"; cases "ir_error r";
        cases "normalizeClientInputQueuedPayload (the (ir_queuedInput r))")
      (auto dest: n q)
qed

lemma expected_delivery_same: "ir_command r = ir_command u \<Longrightarrow> ir_input r = ir_input u \<Longrightarrow> expectedQueuedDelivery r = expectedQueuedDelivery u"
  by (simp add: expectedQueuedDelivery_def split: client_input_command.split)

lemma reduce_writable:
  assumes m: "writable d m" and red: "reduceClientInputEntry d m e = Inr (Some r)"
  shows "writable_row d r"
  using red
proof (cases rule: reduce_Inr_cases)
  case (receipt p)
  then show ?thesis
    by (auto simp: reduce_receipt_def normalizeClientInputPayload_def writable_row_iff res_simps split: if_splits)
next
  case (queued p)
  from queued(2) obtain u where u: "js_get m (qp_clientMessageId p) = Some u"
      "normalizeClientInputQueuedPayload (qp_queuedInput p) = Inr (qp_queuedInput p)"
      "Some (ciq_delivery (qp_queuedInput p)) = expectedQueuedDelivery u"
      "ciq_messages (qp_queuedInput p) \<noteq> None \<longrightarrow> ir_origin u"
    and r: "r = u\<lparr>ir_queuedEntryId := Some (se_id e), ir_queuedInput := Some (qp_queuedInput p), ir_state := Accepted, ir_error := None\<rparr>"
    by (auto simp: reduce_queued_def normalizeClientInputQueuedPayload_def res_simps split: if_splits option.splits)
  have "writable_row d u" using m u(1) by (simp add: writable_def)
  then show ?thesis using u expected_delivery_same [of r u] by (auto simp: r writable_row_iff)
next
  case (state p)
  from state(2) obtain u where u: "js_get m (sp_clientMessageId p) = Some u" "\<not> isTerminalClientInputState (ir_state u)"
      "sp_error p \<noteq> None \<longrightarrow> sp_state p = Failed" "\<forall>x \<in> set_option (sp_error p). length x \<le> CLIENT_INPUT_ERROR_MAX_SCALARS"
    and r: "r = u\<lparr>ir_state := sp_state p, ir_error := (if sp_state p = Failed then sp_error p else None)\<rparr>"
    by (auto simp: reduce_state_def not_less split: if_splits option.splits)
  have "writable_row d u" using m u(1) by (simp add: writable_def)
  then show ?thesis using u(3,4) expected_delivery_same [of r u] by (auto simp: r writable_row_iff split: option.splits)
next
  case (message msg c)
  from message(2) obtain u where u: "js_get m c = Some u"
    and r: "r = u\<lparr>ir_state := Completed, ir_error := None, ir_canonicalEntryId := Some (se_id e)\<rparr>"
    by (auto simp: reduce_message_def split: if_splits option.splits)
  have "writable_row d u" using m u by (simp add: writable_def)
  then show ?thesis using expected_delivery_same [of r u] by (auto simp: r writable_row_iff split: option.splits)
qed

lemma replay_writable:
  "applySessionEntries d es s = Inr t \<Longrightarrow> writable d (ds_clientInputsById s) \<Longrightarrow> writable d (ds_clientInputsById t)"
proof (induction es arbitrary: t rule: rev_induct)
  case (snoc e es)
  then obtain u where u: "applySessionEntries d es s = Inr u" and e: "applySessionEntry d u e = Inr t"
    by (auto simp: applySessionEntries_snoc)
  have w: "writable d (ds_clientInputsById u)" by (rule snoc.IH [OF u snoc.prems(2)])
  from e show ?case
    by (rule applySessionEntry_Inr)
      (use w reduce_writable [OF w] in \<open>auto simp: writable_def js_get_set split: option.splits if_splits\<close>)
qed simp

section \<open>The rows the worker loads\<close>

lemma add_rows:
  "list_all (writable_row d) rows \<Longrightarrow> distinct (map ir_clientMessageId rows) \<Longrightarrow>
   set (js_keys m) \<inter> set (map ir_clientMessageId rows) = {} \<Longrightarrow>
   res_fold (add_row d) m rows = Inr (m @ map (\<lambda>w. (ir_clientMessageId w, w)) rows)"
proof (induction rows arbitrary: m)
  case (Cons w rows)
  then have "add_row d m w = Inr (m @ [(ir_clientMessageId w, w)])"
    by (auto simp: add_row_def writable_row_def js_has_iff_keys js_set_fresh)
  moreover have "res_fold (add_row d) (m @ [(ir_clientMessageId w, w)]) rows =
      Inr ((m @ [(ir_clientMessageId w, w)]) @ map (\<lambda>w. (ir_clientMessageId w, w)) rows)"
    by (rule Cons.IH) (use Cons.prems in auto)
  ultimately show ?case by simp
qed simp

definition load_named :: "input_map \<Rightarrow> client_input_record list \<Rightarrow> client_message_id list \<Rightarrow> client_input_record list" where
  "load_named m rows ids = foldl (\<lambda>rows c. if c \<in> ir_clientMessageId ` set rows then rows
     else case js_get m c of None \<Rightarrow> rows | Some w \<Rightarrow> rows @ [w]) rows ids"

lemma load_named_snoc:
  "load_named m rows (ids @ [c]) = (if c \<in> ir_clientMessageId ` set (load_named m rows ids) then load_named m rows ids
     else case js_get m c of None \<Rightarrow> load_named m rows ids | Some w \<Rightarrow> load_named m rows ids @ [w])"
  unfolding load_named_def by simp

lemma load_named_props:
  assumes m: "keyed m" and rows: "set rows \<subseteq> set (js_values m)" "distinct (map ir_clientMessageId rows)"
  shows "set (load_named m rows ids) \<subseteq> set (js_values m) \<and> distinct (map ir_clientMessageId (load_named m rows ids)) \<and>
    set rows \<subseteq> set (load_named m rows ids) \<and>
    (\<forall>c\<in>set ids. \<forall>w. js_get m c = Some w \<longrightarrow> w \<in> set (load_named m rows ids))"
proof (induction ids rule: rev_induct)
  case Nil
  then show ?case using rows by (simp add: load_named_def)
next
  case (snoc c ids)
  have key: "v = w" if "v \<in> set (js_values m)" "ir_clientMessageId v = c" "js_get m c = Some w" for v w
  proof -
    from that(1) obtain k where k: "(k, v) \<in> set m" by (auto simp: js_values_def)
    then have "js_get m k = Some v" using m by (simp add: keyed_def js_get_mem)
    with m that(2) have "k = c" by (simp add: keyed_def)
    with \<open>js_get m k = Some v\<close> that(3) show ?thesis by simp
  qed
  show ?case
  proof (cases "c \<in> ir_clientMessageId ` set (load_named m rows ids)")
    case True
    then show ?thesis using snoc key by (auto simp: load_named_snoc)
  next
    case False
    show ?thesis
    proof (cases "js_get m c")
      case None
      then show ?thesis using snoc by (auto simp: load_named_snoc)
    next
      case (Some w)
      then have "ir_clientMessageId w = c" "w \<in> set (js_values m)" using m js_get_value by (auto simp: keyed_def)
      then show ?thesis using snoc False Some by (auto simp: load_named_snoc)
    qed
  qed
qed

text \<open>The outstanding rows are all loaded: a session never has more than the limit.\<close>

lemma outstanding_rows_all:
  assumes "bounded_inputs m"
  shows "take (CLIENT_INPUT_MAX_OUTSTANDING_ENTRIES + 1) (outstanding_rows m) = outstanding_rows m"
proof -
  have "(\<lambda>r :: client_input_record. ir_state r = Accepted \<or> ir_state r = Started) = (\<lambda>r. \<not> isTerminalClientInputState (ir_state r))"
    by (rule ext) (metis (full_types) client_input_state.exhaust isTerminalClientInputState_def client_input_state.distinct)
  then have "length (outstanding_rows m) = outstandingClientInputCount (js_values m)"
    unfolding outstanding_rows_def outstandingClientInputCount_def by (simp only:)
  then show ?thesis using assms by (simp add: bounded_inputs_def)
qed

section \<open>A part of the inputs\<close>

definition recoverable_one :: "client_input_record \<Rightarrow> int" where
  "recoverable_one r = (if ir_state r = Accepted \<and> ir_queuedInput r \<noteq> None then 1 else 0)"

lemma recoverable_sum: "int (recoverableQueuedClientInputCount rs) = sum_list (map recoverable_one rs)"
  by (induction rs) (simp_all add: recoverableQueuedClientInputCount_def recoverable_one_def)

text \<open>\<open>part\<close> has the same records as \<open>m\<close> under the ids of \<open>N\<close>, and the same totals.\<close>

definition same_inputs :: "client_message_id set \<Rightarrow> input_map \<Rightarrow> input_map \<Rightarrow> bool" where
  "same_inputs N m part \<longleftrightarrow> keyed m \<and> keyed part \<and> (\<forall>c\<in>N. js_get part c = js_get m c) \<and>
     sum_list (map outstanding_one (js_values part)) = sum_list (map outstanding_one (js_values m)) \<and>
     sum_list (map outstanding_bytes (js_values part)) = sum_list (map outstanding_bytes (js_values m)) \<and>
     sum_list (map recoverable_one (js_values part)) = sum_list (map recoverable_one (js_values m))"

lemma same_totals:
  assumes "same_inputs N m part"
  shows "outstandingClientInputCount (js_values part) = outstandingClientInputCount (js_values m)"
    "outstandingClientInputBytes (js_values part) = outstandingClientInputBytes (js_values m)"
    "recoverableQueuedClientInputCount (js_values part) = recoverableQueuedClientInputCount (js_values m)"
proof -
  have "int (outstandingClientInputCount (js_values part)) = int (outstandingClientInputCount (js_values m))"
    unfolding count_sum using assms by (simp add: same_inputs_def)
  then show "outstandingClientInputCount (js_values part) = outstandingClientInputCount (js_values m)" by simp
  show "outstandingClientInputBytes (js_values part) = outstandingClientInputBytes (js_values m)"
    unfolding bytes_sum using assms by (simp add: same_inputs_def)
  have "int (recoverableQueuedClientInputCount (js_values part)) = int (recoverableQueuedClientInputCount (js_values m))"
    unfolding recoverable_sum using assms by (simp add: same_inputs_def)
  then show "recoverableQueuedClientInputCount (js_values part) = recoverableQueuedClientInputCount (js_values m)" by simp
qed

lemma same_reduce:
  assumes s: "same_inputs N m part" and named: "\<And>c. clientMessageIdForEntry (se_body e) = Some c \<Longrightarrow> c \<in> N"
  shows "reduceClientInputEntry d part e = reduceClientInputEntry d m e"
proof -
  have get: "js_get part c = js_get m c" "js_has part c = js_has m c" if "clientMessageIdForEntry (se_body e) = Some c" for c
    using s named [OF that] by (simp_all add: same_inputs_def js_has_def)
  show ?thesis
    unfolding reduceClientInputEntry_def reduce_receipt_def reduce_queued_def reduce_state_def reduce_message_def same_totals [OF s]
    by (cases "se_body e") (use get in \<open>simp_all split: option.split\<close>)
qed

lemma same_set_sum:
  fixes f :: "client_input_record \<Rightarrow> int"
  assumes "js_get part c = js_get m c" and "distinct (js_keys part)" and "distinct (js_keys m)"
    and "sum_list (map f (js_values part)) = sum_list (map f (js_values m))"
  shows "sum_list (map f (js_values (js_set part c r))) = sum_list (map f (js_values (js_set m c r)))"
  using assms by (cases "js_get m c") (simp_all add: js_sum_absent js_sum_present)

lemma same_set:
  assumes s: "same_inputs N m part" and c: "ir_clientMessageId r = c" "c \<in> N"
  shows "same_inputs N (js_set m c r) (js_set part c r)"
proof -
  have k: "keyed m" "keyed part" "js_get part c = js_get m c" using s c(2) by (simp_all add: same_inputs_def)
  then have d: "distinct (js_keys part)" "distinct (js_keys m)" by (simp_all add: keyed_def)
  have "keyed (js_set m c r)" "keyed (js_set part c r)" using k(1,2) c(1) keyed_set by blast+
  then show ?thesis using s same_set_sum [OF k(3) d] by (simp add: same_inputs_def js_get_set)
qed

section \<open>The bounded check\<close>

definition names :: "session_entry list \<Rightarrow> client_message_id set" where
  "names es = {c. \<exists>e\<in>set es. clientMessageIdForEntry (se_body e) = Some c}"

text \<open>
  The state the worker validates with: the same position and chunk index, a part of the inputs that holds every
  named one, and what the batch itself has added to the maps by entry.
\<close>

definition bounded_sim :: "client_message_id set \<Rightarrow> entry_id set \<Rightarrow> derived_state \<Rightarrow> derived_state \<Rightarrow> bool" where
  "bounded_sim N ids s part \<longleftrightarrow>
     same_inputs N (ds_clientInputsById s) (ds_clientInputsById part) \<and> ds_nextOrdinal part = ds_nextOrdinal s \<and>
     ds_nextSearchChunkIndex part = ds_nextSearchChunkIndex s \<and>
     (ds_startingGitContext s = None \<longrightarrow> ds_startingGitContext part = None) \<and>
     (ds_prReviewBinding s = None \<longrightarrow> ds_prReviewBinding part = None) \<and>
     (\<forall>i\<in>ids. js_get (ds_clientInputIdByEntryId part) i = js_get (ds_clientInputIdByEntryId s) i \<and>
        js_get (ds_searchChunkByEntryId part) i = js_get (ds_searchChunkByEntryId s) i)"

lemma derive_git_frame:
  "ds_startingGitContext (derive_leaf e s) = ds_startingGitContext s" "ds_startingGitContext (derive_chunk e s) = ds_startingGitContext s"
  "ds_startingGitContext (derive_input e i s) = ds_startingGitContext s"
  "ds_prReviewBinding (derive_leaf e s) = ds_prReviewBinding s" "ds_prReviewBinding (derive_chunk e s) = ds_prReviewBinding s"
  "ds_prReviewBinding (derive_input e i s) = ds_prReviewBinding s"
  by (simp_all add: derive_leaf_def derive_chunk_def derive_input_def Let_def split: entry_body.split option.split)

lemma applySessionEntry_git:
  assumes "applySessionEntry d s e = Inr s'"
  shows "ds_startingGitContext s' = ds_startingGitContext (derive_records e s)" "ds_prReviewBinding s' = ds_prReviewBinding (derive_records e s)"
proof -
  from assms obtain input where s': "s' = (derive_leaf e (derive_chunk e (derive_input e input (derive_records e
        (s\<lparr>ds_messageSummary := accumulateMessageSummary (ds_messageSummary s) e\<rparr>)))))\<lparr>ds_nextOrdinal := ds_nextOrdinal s + 1\<rparr>"
    by (auto simp: applySessionEntry_def Let_def res_simps split: option.splits)
  show "ds_startingGitContext s' = ds_startingGitContext (derive_records e s)" "ds_prReviewBinding s' = ds_prReviewBinding (derive_records e s)"
    by (simp_all add: s' derive_git_frame derive_records_def split: entry_body.split option.split)
qed

lemma git_monotone:
  "(ds_startingGitContext s = None \<longrightarrow> ds_startingGitContext part = None) \<Longrightarrow>
   ds_startingGitContext (derive_records e s) = None \<longrightarrow> ds_startingGitContext (derive_records e part) = None"
  "(ds_prReviewBinding s = None \<longrightarrow> ds_prReviewBinding part = None) \<Longrightarrow>
   ds_prReviewBinding (derive_records e s) = None \<longrightarrow> ds_prReviewBinding (derive_records e part) = None"
  by (simp_all add: derive_records_def split: entry_body.split option.split)

lemma guard_sim:
  assumes "bounded_sim N ids s part" and "derive_guard s e = None"
  shows "derive_guard part e = None"
proof -
  have "ds_nextOrdinal part = ds_nextOrdinal s" "ds_startingGitContext s = None \<Longrightarrow> ds_startingGitContext part = None"
    "ds_prReviewBinding s = None \<Longrightarrow> ds_prReviewBinding part = None" using assms(1) by (simp_all add: bounded_sim_def)
  then show ?thesis using assms(2) by (cases "se_body e") (simp_all add: derive_guard_def split: if_splits)
qed

lemma entry_sim:
  assumes sim: "bounded_sim N ids s part" and app: "applySessionEntry d s e = Inr s'"
    and named: "\<And>c. clientMessageIdForEntry (se_body e) = Some c \<Longrightarrow> c \<in> N" and i: "se_id e \<in> ids"
  shows "\<exists>part'. applySessionEntry d part e = Inr part' \<and> bounded_sim N ids s' part'"
proof -
  have same: "same_inputs N (ds_clientInputsById s) (ds_clientInputsById part)" using sim by (simp add: bounded_sim_def)
  from app have g: "derive_guard s e = None" by (rule applySessionEntry_Inr)
  from app obtain x where x: "reduceClientInputEntry d (ds_clientInputsById s) e = Inr x" by (rule applySessionEntry_Inr)
  have "reduceClientInputEntry d (ds_clientInputsById part) e = Inr x" using same_reduce [OF same named] x by simp
  then obtain part' where p': "applySessionEntry d part e = Inr part'"
    using guard_sim [OF sim g] by (simp add: applySessionEntry_def Let_def)
  have keyed: "keyed (ds_clientInputsById s)" using same by (simp add: same_inputs_def)
  from app obtain y where y: "reduceClientInputEntry d (ds_clientInputsById s) e = Inr y"
    "ds_clientInputsById s' = (case y of None \<Rightarrow> ds_clientInputsById s | Some r \<Rightarrow> js_set (ds_clientInputsById s) (ir_clientMessageId r) r)"
    "ds_clientInputIdByEntryId s' = (case y of None \<Rightarrow> ds_clientInputIdByEntryId s
       | Some r \<Rightarrow> js_set (ds_clientInputIdByEntryId s) (se_id e) (ir_clientMessageId r))"
    "ds_searchChunks s' = ds_searchChunks s @ (case entry_chunk (ds_nextSearchChunkIndex s) e of None \<Rightarrow> [] | Some c \<Rightarrow> [c])"
    "ds_searchChunkByEntryId s' = (case entry_chunk (ds_nextSearchChunkIndex s) e of None \<Rightarrow> ds_searchChunkByEntryId s
       | Some c \<Rightarrow> js_set (ds_searchChunkByEntryId s) (se_id e) c)"
    "ds_nextSearchChunkIndex s' = ds_nextSearchChunkIndex s + (case entry_chunk (ds_nextSearchChunkIndex s) e of None \<Rightarrow> 0 | Some c \<Rightarrow> 1)"
    "ds_nextOrdinal s = se_ordinal e" "ds_nextOrdinal s' = ds_nextOrdinal s + 1"
    "ds_headerTimestamp s' = ds_headerTimestamp s" "derive_guard s e = None"
    by (rule applySessionEntry_Inr)
  from p' obtain z where z: "reduceClientInputEntry d (ds_clientInputsById part) e = Inr z"
    "ds_clientInputsById part' = (case z of None \<Rightarrow> ds_clientInputsById part | Some r \<Rightarrow> js_set (ds_clientInputsById part) (ir_clientMessageId r) r)"
    "ds_clientInputIdByEntryId part' = (case z of None \<Rightarrow> ds_clientInputIdByEntryId part
       | Some r \<Rightarrow> js_set (ds_clientInputIdByEntryId part) (se_id e) (ir_clientMessageId r))"
    "ds_searchChunks part' = ds_searchChunks part @ (case entry_chunk (ds_nextSearchChunkIndex part) e of None \<Rightarrow> [] | Some c \<Rightarrow> [c])"
    "ds_searchChunkByEntryId part' = (case entry_chunk (ds_nextSearchChunkIndex part) e of None \<Rightarrow> ds_searchChunkByEntryId part
       | Some c \<Rightarrow> js_set (ds_searchChunkByEntryId part) (se_id e) c)"
    "ds_nextSearchChunkIndex part' = ds_nextSearchChunkIndex part + (case entry_chunk (ds_nextSearchChunkIndex part) e of None \<Rightarrow> 0 | Some c \<Rightarrow> 1)"
    "ds_nextOrdinal part = se_ordinal e" "ds_nextOrdinal part' = ds_nextOrdinal part + 1"
    "ds_headerTimestamp part' = ds_headerTimestamp part" "derive_guard part e = None"
    by (rule applySessionEntry_Inr)
  have zy: "z = y" using same_reduce [OF same named] y(1) z(1) by simp
  have "same_inputs N (ds_clientInputsById s') (ds_clientInputsById part')"
  proof (cases y)
    case None
    then show ?thesis using same y(2) z(2) zy by simp
  next
    case (Some r)
    have "ir_clientMessageId r \<in> N" using reduce_client_id [OF keyed y(1) [unfolded Some]] named by blast
    then show ?thesis using same_set [OF same refl] y(2) z(2) zy Some by simp
  qed
  moreover have "ds_startingGitContext s' = None \<longrightarrow> ds_startingGitContext part' = None"
    "ds_prReviewBinding s' = None \<longrightarrow> ds_prReviewBinding part' = None"
    unfolding applySessionEntry_git [OF app] applySessionEntry_git [OF p']
    by (rule git_monotone; use sim in \<open>simp add: bounded_sim_def\<close>)+
  moreover have "ds_nextOrdinal part' = ds_nextOrdinal s'" "ds_nextSearchChunkIndex part' = ds_nextSearchChunkIndex s'"
    using sim y(6,7,8) z(6,7,8) by (simp_all add: bounded_sim_def)
  moreover have "js_get (ds_clientInputIdByEntryId part') j = js_get (ds_clientInputIdByEntryId s') j"
    "js_get (ds_searchChunkByEntryId part') j = js_get (ds_searchChunkByEntryId s') j" if "j \<in> ids" for j
  proof -
    have old: "js_get (ds_clientInputIdByEntryId part) j = js_get (ds_clientInputIdByEntryId s) j"
      "js_get (ds_searchChunkByEntryId part) j = js_get (ds_searchChunkByEntryId s) j"
      "ds_nextSearchChunkIndex part = ds_nextSearchChunkIndex s" using sim that by (simp_all add: bounded_sim_def)
    show "js_get (ds_clientInputIdByEntryId part') j = js_get (ds_clientInputIdByEntryId s') j"
      unfolding y(3) z(3) zy by (cases y) (simp_all add: old js_get_set)
    show "js_get (ds_searchChunkByEntryId part') j = js_get (ds_searchChunkByEntryId s') j"
      unfolding y(5) z(5) old(3) by (cases "entry_chunk (ds_nextSearchChunkIndex s) e") (simp_all add: old js_get_set)
  qed
  ultimately show ?thesis using p' by (simp add: bounded_sim_def)
qed

lemma batch_sim:
  assumes "applySessionEntries d es s = Inr t" and "bounded_sim N ids s part" and "names es \<subseteq> N" and "se_id ` set es \<subseteq> ids"
  shows "\<exists>part'. applySessionEntries d es part = Inr part' \<and> bounded_sim N ids t part'"
  using assms
proof (induction es arbitrary: t rule: rev_induct)
  case Nil
  then show ?case by (simp add: applySessionEntries_def)
next
  case (snoc e es)
  then obtain u where u: "applySessionEntries d es s = Inr u" and e: "applySessionEntry d u e = Inr t"
    by (auto simp: applySessionEntries_snoc)
  obtain v where v: "applySessionEntries d es part = Inr v" "bounded_sim N ids u v"
    using snoc.IH [OF u snoc.prems(2)] snoc.prems(3,4) by (auto simp: names_def)
  have "\<exists>part'. applySessionEntry d v e = Inr part' \<and> bounded_sim N ids t part'"
    by (rule entry_sim [OF v(2) e]) (use snoc.prems(3,4) in \<open>auto simp: names_def\<close>)
  then show ?case using v(1) by (auto simp: applySessionEntries_snoc)
qed

text \<open>What the two states say of the batch.\<close>

lemma map_filter_same: "(\<And>x. x \<in> set xs \<Longrightarrow> f x = g x) \<Longrightarrow> List.map_filter f xs = List.map_filter g xs"
  by (induction xs) (simp_all add: List.map_filter_def)

lemma sim_projections:
  assumes sim: "bounded_sim N (se_id ` set es) t part" and inN: "set (affected_ids t es) \<subseteq> N"
  shows "sessionStoreClientInputsForEntries part es = sessionStoreClientInputsForEntries t es"
    "sessionStoreSearchChunksForEntries part es = sessionStoreSearchChunksForEntries t es"
proof -
  have a: "affected_ids part es = affected_ids t es" by (rule affected_ids_cong) (use sim in \<open>simp add: bounded_sim_def\<close>)
  have "js_get (ds_clientInputsById part) c = js_get (ds_clientInputsById t) c" if "c \<in> set (affected_ids t es)" for c
    using sim inN that by (auto simp: bounded_sim_def same_inputs_def)
  then show "sessionStoreClientInputsForEntries part es = sessionStoreClientInputsForEntries t es"
    unfolding sessionStoreClientInputsForEntries_def a by (rule map_filter_same)
  show "sessionStoreSearchChunksForEntries part es = sessionStoreSearchChunksForEntries t es"
    unfolding sessionStoreSearchChunksForEntries_def by (rule map_filter_same) (use sim in \<open>simp add: bounded_sim_def\<close>)
qed

section \<open>The loaded part\<close>

lemma keyed_value: "keyed m \<Longrightarrow> v \<in> set (js_values m) \<Longrightarrow> js_get m (ir_clientMessageId v) = Some v"
proof -
  assume m: "keyed m" and "v \<in> set (js_values m)"
  then obtain k where "(k, v) \<in> set m" by (auto simp: js_values_def)
  then have "js_get m k = Some v" using m by (simp add: keyed_def js_get_mem)
  with m show ?thesis by (auto simp: keyed_def)
qed

lemma keyed_ids: "keyed m \<Longrightarrow> map ir_clientMessageId (js_values m) = js_keys m"
proof -
  assume m: "keyed m"
  have "ir_clientMessageId v = k" if "(k, v) \<in> set m" for k v
    using m js_get_mem [OF _ that] by (simp add: keyed_def)
  then show ?thesis by (simp add: js_values_def js_keys_def split_beta)
qed

lemma part_sum:
  fixes f :: "client_input_record \<Rightarrow> int"
  assumes m: "keyed m" and rows: "set rows \<subseteq> set (js_values m)" "distinct rows"
    and zero: "\<And>v. v \<in> set (js_values m) - set rows \<Longrightarrow> f v = 0"
  shows "sum_list (map f rows) = sum_list (map f (js_values m))"
proof -
  have "distinct (js_values m)" using m keyed_ids [OF m] by (metis distinct_map keyed_def)
  then show ?thesis using rows zero
    by (simp add: sum_list_distinct_conv_sum_set sum.mono_neutral_left)
qed

definition part_of :: "client_input_record list \<Rightarrow> input_map" where
  "part_of rows = map (\<lambda>w. (ir_clientMessageId w, w)) rows"

lemma part_of_sel [simp]: "js_values (part_of rows) = rows" "js_keys (part_of rows) = map ir_clientMessageId rows"
  by (simp_all add: part_of_def js_values_def js_keys_def comp_def)

lemma part_of_get:
  assumes "distinct (map ir_clientMessageId rows)"
  shows "js_get (part_of rows) c = Some w \<longleftrightarrow> w \<in> set rows \<and> ir_clientMessageId w = c"
  using assms by (auto simp: js_get_mem_iff part_of_def js_keys_def comp_def)

lemma loaded_part:
  assumes m: "keyed (sr_clientInputs r)" "bounded_inputs (sr_clientInputs r)" and rows_def: "rows = loadTransactionClientInputs r es"
  shows "set rows \<subseteq> set (js_values (sr_clientInputs r))" "distinct (map ir_clientMessageId rows)"
    "same_inputs (names es) (sr_clientInputs r) (part_of rows)"
proof -
  let ?m = "sr_clientInputs r" and ?open = "outstanding_rows (sr_clientInputs r)"
  have rows: "rows = load_named ?m ?open (List.map_filter (\<lambda>e. clientMessageIdForEntry (se_body e)) es)"
    unfolding rows_def loadTransactionClientInputs_def load_named_def outstanding_rows_all [OF m(2)] by (simp add: Let_def)
  have sub: "set ?open \<subseteq> set (js_values ?m)" by (auto simp: outstanding_rows_def)
  have "distinct (map ir_clientMessageId (js_values ?m))" using m(1) by (simp add: keyed_ids keyed_def)
  then have dis: "distinct (map ir_clientMessageId ?open)" unfolding outstanding_rows_def by (rule distinct_map_filter)
  note props = load_named_props [OF m(1) sub dis, of "List.map_filter (\<lambda>e. clientMessageIdForEntry (se_body e)) es", folded rows]
  show sub': "set rows \<subseteq> set (js_values ?m)" and dis': "distinct (map ir_clientMessageId rows)" using props by blast+
  have drows: "distinct rows" using dis' by (simp add: distinct_map)
  have rest: "isTerminalClientInputState (ir_state v)" if "v \<in> set (js_values ?m) - set rows" for v
  proof -
    have "v \<notin> set ?open" using that props by blast
    then show ?thesis using that by (cases "ir_state v") (auto simp: outstanding_rows_def isTerminalClientInputState_def)
  qed
  have get: "js_get (part_of rows) c = js_get ?m c" if "c \<in> names es" for c
  proof (cases "js_get ?m c")
    case None
    have "js_get (part_of rows) c \<noteq> Some w" for w
      using None part_of_get [OF dis'] sub' keyed_value [OF m(1)] by force
    then show ?thesis using None by (cases "js_get (part_of rows) c") auto
  next
    case (Some w)
    have "c \<in> set (List.map_filter (\<lambda>e. clientMessageIdForEntry (se_body e)) es)"
      using that by (force simp: names_def List.map_filter_def)
    then have "w \<in> set rows" using props Some by blast
    moreover have "ir_clientMessageId w = c" using m(1) Some by (simp add: keyed_def)
    ultimately show ?thesis using part_of_get [OF dis', of c w] Some by simp
  qed
  have "keyed (part_of rows)" using dis' part_of_get [OF dis'] by (simp add: keyed_def)
  moreover have "sum_list (map outstanding_one rows) = sum_list (map outstanding_one (js_values ?m))"
    "sum_list (map outstanding_bytes rows) = sum_list (map outstanding_bytes (js_values ?m))"
    "sum_list (map recoverable_one rows) = sum_list (map recoverable_one (js_values ?m))"
    by (rule part_sum [OF m(1) sub' drows]; drule rest;
        auto simp: outstanding_one_def outstanding_bytes_def recoverable_one_def isTerminalClientInputState_def)+
  ultimately show "same_inputs (names es) ?m (part_of rows)" using m(1) get by (simp add: same_inputs_def)
qed

lemma batch_names:
  "applySessionEntries d es s = Inr t \<Longrightarrow> keyed (ds_clientInputsById s) \<Longrightarrow> js_get (ds_clientInputIdByEntryId t) j = Some c \<Longrightarrow>
   js_get (ds_clientInputIdByEntryId s) j = Some c \<or> c \<in> names es"
proof (induction es arbitrary: t rule: rev_induct)
  case (snoc e es)
  then obtain u where u: "applySessionEntries d es s = Inr u" and e: "applySessionEntry d u e = Inr t"
    by (auto simp: applySessionEntries_snoc)
  have k: "keyed (ds_clientInputsById u)" by (rule replay_keyed [OF u snoc.prems(2)])
  have IH: "js_get (ds_clientInputIdByEntryId u) j = Some c \<Longrightarrow> js_get (ds_clientInputIdByEntryId s) j = Some c \<or> c \<in> names es"
    by (rule snoc.IH [OF u snoc.prems(2)])
  have sub: "names es \<subseteq> names (es @ [e])" by (auto simp: names_def)
  from e show ?case
  proof (rule applySessionEntry_Inr)
    fix x
    assume x: "reduceClientInputEntry d (ds_clientInputsById u) e = Inr x"
      "ds_clientInputIdByEntryId t = (case x of None \<Rightarrow> ds_clientInputIdByEntryId u
       | Some r \<Rightarrow> js_set (ds_clientInputIdByEntryId u) (se_id e) (ir_clientMessageId r))"
    show ?thesis
      using x IH sub snoc.prems(3) reduce_client_id [OF k]
      by (cases x) (auto simp: js_get_set names_def split: if_splits)
  qed
qed (simp add: applySessionEntries_def)

lemma ordinals_from_all:
  "map se_ordinal es = map (\<lambda>i. n + i) [0..<length es] \<Longrightarrow> ordinals_from n es = Inr (n + length es)"
proof (induction es arbitrary: n)
  case (Cons e es)
  have "map se_ordinal (e # es) = n # map (\<lambda>i. Suc n + i) [0..<length es]"
    using Cons.prems by (simp add: map_upt_Suc del: upt_Suc)
  then show ?case using Cons.IH [of "Suc n"] by simp
qed simp

lemma chunk_index:
  assumes "map sc_chunkIndex (sr_searchChunks r) = [0..<length (sr_searchChunks r)]"
  shows "nextSearchChunkIndex r = Inr (length (sr_searchChunks r))"
proof -
  have "foldr (\<lambda>c n. max (sc_chunkIndex c + 1) n) cs k = foldr max (map Suc (map sc_chunkIndex cs)) k" for cs :: "search_chunk list" and k
    by (induction cs) simp_all
  from this [of "sr_searchChunks r" 0]
  have "foldr (\<lambda>c n. max (sc_chunkIndex c + 1) n) (sr_searchChunks r) 0 = length (sr_searchChunks r)"
    unfolding assms foldr_max_Suc by (simp only: max_0R)
  then show ?thesis unfolding nextSearchChunkIndex_def Let_def by simp
qed

lemma batch_leaf:
  "applySessionEntries d es s = Inr t \<Longrightarrow> \<forall>j\<in>set_option (ds_leafId s). j \<in> S \<Longrightarrow> se_id ` set es \<subseteq> S \<Longrightarrow>
   \<forall>e\<in>set es. \<forall>j. se_body e = Leaf (Some j) \<longrightarrow> j \<in> S \<Longrightarrow> \<forall>j\<in>set_option (ds_leafId t). j \<in> S"
proof (induction es arbitrary: t rule: rev_induct)
  case (snoc e es)
  then obtain u where u: "applySessionEntries d es s = Inr u" and e: "applySessionEntry d u e = Inr t"
    by (auto simp: applySessionEntries_snoc)
  have "\<forall>j\<in>set_option (ds_leafId u). j \<in> S" using snoc.IH [OF u snoc.prems(2)] snoc.prems(3,4) by simp
  then show ?case using applySessionEntry_fields(1) [OF e] snoc.prems(3,4) by (cases "se_body e") (auto split: if_splits)
qed (simp add: applySessionEntries_def)

text \<open>
  A transaction the log prepared passes every check of the worker but those that look at the entries and the
  other sessions: the references, and what SQL refuses.
\<close>

lemma check_prepared:
  assumes rok: "row_ok env r" and rd: "row_derived env r s" and batch: "applySessionEntries (env_inputDigest env) es s = Inr t"
    and refs: "validateTransactionEntryReferences env r es = Inr x" and env: "env_ok env"
    and i: "ai_payload i = transaction_of t es"
    and sql: "env_sqlAccepts env i"
  shows "check_transaction env i r = Inr (length (sr_entries r) + 1 + length es)"
proof -
  let ?d = "env_inputDigest env" and ?m = "sr_clientInputs r"
  note facts = row_derived_facts [OF rd]
  have m: "?m = ds_clientInputsById s" "sr_searchChunks r = ds_searchChunks s" using rd by (simp_all add: row_derived_def)
  have rep: "applySessionEntries ?d (sr_entries r) (createSessionDerivedState (sr_createdAt r)) = Inr s"
    using rd by (simp add: row_derived_def replaySessionEntries_def)
  have keyed: "keyed ?m" using facts(3) by (simp add: m)
  have bound: "bounded_inputs ?m" unfolding m(1)
    by (rule replay_bounded [OF rep]) (simp_all add: bounded_inputs_def outstandingClientInputCount_def
        outstandingClientInputBytes_def CLIENT_INPUT_MAX_OUTSTANDING_BYTES_def)
  have wr: "writable ?d ?m" unfolding m(1) by (rule replay_writable [OF rep]) (simp add: writable_def)
  define rows where "rows = loadTransactionClientInputs r es"
  note part = loaded_part [OF keyed bound rows_def]
  have "list_all (writable_row ?d) rows"
    using part(1) keyed_value [OF keyed] wr by (force simp: list_all_iff writable_def)
  then have add: "res_fold (add_row ?d) [] rows = Inr (part_of rows)"
    using add_rows [of ?d rows "[]"] part(2) by (simp add: part_of_def)
  have "bounded_inputs (part_of rows)"
    using bound same_totals [OF part(3)] by (simp add: bounded_inputs_def)
  then have asserted: "assertClientInputProjectionBounds (js_values (part_of rows)) = Inr ()" by (rule bounded_asserted)
  have last: "lastOrdinal r = length (sr_entries r)" by (rule lastOrdinal_length [OF facts(1)])
  define v where "v = (createSessionDerivedState (sr_createdAt r))
    \<lparr>ds_nextOrdinal := lastOrdinal r + 1, ds_nextSearchChunkIndex := length (sr_searchChunks r), ds_clientInputsById := part_of rows\<rparr>"
  have create: "createSessionStoreTransactionValidationState ?d (sr_createdAt r) rows (lastOrdinal r + 1) (length (sr_searchChunks r)) = Inr v"
    unfolding createSessionStoreTransactionValidationState_def add res_bind.simps asserted v_def by (rule refl)
  have fresh: "fresh_batch s es" by (rule fresh_from_references [OF env rd refs])
  have none: "js_get (ds_clientInputIdByEntryId s) j = None" "js_get (ds_searchChunkByEntryId s) j = None" if "j \<in> se_id ` set es" for j
    using fresh that by (auto simp: fresh_batch_def js_get_None_iff)
  have "bounded_sim (names es) (se_id ` set es) s v"
    using part(3) none facts(2,5) last unfolding m(1)
    by (auto simp: bounded_sim_def v_def m(2)) (simp_all add: createSessionDerivedState_def)
  then obtain v' where v': "applySessionEntries ?d es v = Inr v'" "bounded_sim (names es) (se_id ` set es) t v'"
    using batch_sim [OF batch] by blast
  have "set (affected_ids t es) \<subseteq> names es"
  proof
    fix c assume "c \<in> set (affected_ids t es)"
    then obtain e where e: "e \<in> set es" "js_get (ds_clientInputIdByEntryId t) (se_id e) = Some c" using affected_ids_mem by blast
    with batch_names [OF batch facts(3) e(2)] none(1) [of "se_id e"] show "c \<in> names es" by auto
  qed
  note proj = sim_projections [OF v'(2) this]
  have valid: "validateSessionStoreTransactionProjections ?d v es (sessionStoreClientInputsForEntries t es)
      (sessionStoreSearchChunksForEntries t es) = Inr ()"
    by (simp add: validateSessionStoreTransactionProjections_def v'(1) proj)
  have "map se_ordinal es = map (\<lambda>i. (lastOrdinal r + 1) + i) [0..<length es]"
    using replay_ordinals [OF batch] facts(2) last by simp
  from ordinals_from_all [OF this] have ords: "ordinals_from (lastOrdinal r + 1) es = Inr (lastOrdinal r + 1 + length es)" .
  have chunk: "nextSearchChunkIndex r = Inr (length (sr_searchChunks r))" by (rule chunk_index) (simp add: m(2) facts(4))
  have tp: "tp_entries (ai_payload i) = es" "tp_clientInputs (ai_payload i) = sessionStoreClientInputsForEntries t es"
    "tp_searchChunks (ai_payload i) = sessionStoreSearchChunksForEntries t es" "pj_leafId (tp_session (ai_payload i)) = ds_leafId t"
    by (simp_all add: i transaction_of_def sessionStoreProjection_def Let_def)
  have "pj_leafId (sr_projection r) = ds_leafId s" using rd by (simp add: row_derived_def sessionStoreProjection_def Let_def)
  then have "\<forall>j\<in>set_option (ds_leafId s). j \<in> se_id ` set (sr_entries r @ es)" using rok by (auto simp: row_ok_def)
  from batch_leaf [OF batch this _ validate_references(3) [OF refs]]
  have leaf: "\<forall>j \<in> set_option (ds_leafId t). j \<in> se_id ` set (sr_entries r @ es)" by auto
  show ?thesis
    unfolding check_transaction_def Let_def tp refs chunk rows_def [symmetric]
    using create valid ords leaf sql last by auto
qed

end
