(* ===== verification/Sqlite_Correctness.thy ===== *)
theory Sqlite_Correctness
  imports Store_Life Transaction_Check Kernel_Correctness
begin

text \<open>
  The properties of the session store and of the conversation log over it: appends are exactly-once under any
  fault, the store always opens again, an acknowledged commit survives, a conversation over the log is durable,
  a session's outstanding client inputs are bounded, and its rows agree with the kernel's fold.

  The witnesses use \<open>sample_store\<close>, an environment whose digest writes out the ordinals of a payload's entries.
\<close>

section \<open>A sample store\<close>

definition unary :: "nat list \<Rightarrow> string" where
  "unary ns = concat (map (\<lambda>n. replicate n (CHR ''1'') @ '','') ns)"

lemma unary_inj: "unary xs = unary ys \<Longrightarrow> xs = ys"
proof (induction xs arbitrary: ys)
  case Nil
  then show ?case by (cases ys) (auto simp: unary_def)
next
  case (Cons x xs)
  then obtain y ys' where ys: "ys = y # ys'" by (cases ys) (auto simp: unary_def)
  have tw: "takeWhile (\<lambda>c. c = CHR ''1'') (unary (n # ns)) = replicate n (CHR ''1'')"
    "dropWhile (\<lambda>c. c = CHR ''1'') (unary (n # ns)) = CHR '','' # unary ns" for n ns
    by (induction n) (simp_all add: unary_def)
  from Cons.prems have "replicate x (CHR ''1'') = replicate y (CHR ''1'')" "unary xs = unary ys'"
    using tw [of x xs] tw [of y ys'] by (simp_all add: ys)
  then show ?case using Cons.IH [of ys'] by (metis length_replicate ys)
qed

definition sample_store :: store_env where
  "sample_store =
     \<lparr>env_payloadDigest = (\<lambda>p. unary (map se_ordinal (tp_entries p))), env_inputDigest = (\<lambda>_ i. ci_message i),
      env_persisted = (\<lambda>e. se_id e \<noteq> '''' \<and> clientMessageIdForEntry (se_body e) \<noteq> Some ''''),
      env_sqlAccepts = (\<lambda>_. True), env_cwdKey = (\<lambda>c. c)\<rparr>"

lemma sample_store_ok: "env_ok sample_store"
  by (auto simp: env_ok_def sample_store_def dest: unary_inj)

definition sample_session :: create_input where
  "sample_session = \<lparr>ct_session = (''s'', ''g''), ct_formatVersion = 5, ct_cwd = ''/w'', ct_createdAt = ''2025-01-01T00:00:00.000Z'',
     ct_parent = None, ct_subagent = False\<rparr>"

text \<open>A batch of a receipt and a message, and the worlds of a store with the session open.\<close>

definition store_draft :: "string \<Rightarrow> string option \<Rightarrow> visibility \<Rightarrow> entry_body \<Rightarrow> entry_draft" where
  "store_draft i parent vis body =
     \<lparr>d_id = i, d_parentId = parent, d_timestamp = ''2025-01-01T00:00:00.000Z'', d_visibility = vis, d_body = body\<rparr>"

definition store_receipt :: entry_body where
  "store_receipt = ClientInputReceipt
     \<lparr>rp_clientMessageId = ''c'', rp_command = Prompt, rp_semanticDigest = ''hello'',
      rp_input = \<lparr>ci_message = ''hello'', ci_images = [], ci_streamingBehavior = None\<rparr>, rp_origin = False\<rparr>"

definition store_batch :: log_append where
  "store_batch = \<lparr>ap_expectedOrdinal = 0, ap_commitId = ''k'',
     ap_entries = [store_draft ''a'' None Host store_receipt,
       store_draft ''b'' None Public (Message (UserMessage sample_user) None)]\<rparr>"

definition created_world :: "fault list \<Rightarrow> sqlite_world" where
  "created_world fs = (snd (sq_create sample_store sample_session empty_world))\<lparr>qw_faults := fs\<rparr>"

lemma created_reachable: "sq_reachable sample_store (created_world fs)"
proof -
  have "sq_life sample_store empty_world (snd (sq_create sample_store sample_session empty_world))"
    by (rule step, rule created) (rule prod.collapse [symmetric])
  moreover have "sq_life sample_store w (w\<lparr>qw_faults := fs\<rparr>)" for w by (rule step, rule faulted)
  ultimately show ?thesis unfolding sq_reachable_def created_world_def
    by (meson converse_rtranclp_into_rtranclp rtranclp.rtrancl_refl)
qed

definition lost_reply :: "bool \<Rightarrow> fault" where
  "lost_reply reconciles = \<lparr>ft_request = FailedAfter, ft_reconciles = reconciles, ft_now = ''t''\<rparr>"

section \<open>Appends\<close>

definition opened_session :: "string \<Rightarrow> sqlite_world \<Rightarrow> bool" where
  "opened_session sid w \<longleftrightarrow>
     (case js_get (qw_logs w) sid of None \<Rightarrow> False | Some l \<Rightarrow> findSummaryRow (qw_db w) (sl_ref l) \<noteq> None)"

lemma reachable_inv: "env_ok env \<Longrightarrow> sq_reachable env w \<Longrightarrow> opened_session sid w \<Longrightarrow> sq_inv env sid w"
  using reachable_ok by (simp add: sq_inv_def opened_session_def)

text \<open>
  C18: Appends to the SQLite log are exactly-once, whatever happens to the request: served, lost before the
  worker ran it, lost after the worker committed it, with or without a reconciliation that gets through. In every
  world a store can reach, a new batch that is reported committed is in the session exactly once, at the ordinals
  reported; a retry of a committed batch, a rolled back batch and a batch refused by a lost log leave the store as
  it was; and only a log lost with \<open>UncertainCommit\<close> leaves it open whether the whole batch is there.
\<close>

theorem sqlite_append_exactly_once:
  assumes "env_ok env" and "sq_reachable env w" and "opened_session sid w" and "sq_append env sid w b = (res, w')"
  shows "case res of
      Inr (Committed m n) \<Rightarrow>
        if ap_commitId b \<in> sq_used sid w then w' = w
        else m = length (sq_entries sid w) + 1 \<and> n = length (sq_entries sid w) + length (ap_entries b) \<and>
          sq_entries sid w' = sq_entries sid w @ stamp_drafts (length (sq_entries sid w)) (ap_entries b)
    | Inr (RolledBack _) \<Rightarrow> qw_db w' = qw_db w \<and> qw_logs w' = qw_logs w
    | Inl x \<Rightarrow> sq_entries sid w' = sq_entries sid w \<or>
        x = UncertainCommit \<and> sq_entries sid w' = sq_entries sid w @ stamp_drafts (length (sq_entries sid w)) (ap_entries b)"
  using sq_append_effect [OF reachable_inv [OF assms(1-3)] assms(4)]
  by (auto split: sum.splits append_result.splits)

theorem sqlite_append_exactly_once_witness:
  "fst (sq_append sample_store ''s'' (created_world [lost_reply True]) store_batch) = Inr (Committed 1 2) \<and>
   map e_id (sq_entries ''s'' (snd (sq_append sample_store ''s'' (created_world [lost_reply True]) store_batch))) = [''a'', ''b'']"
proof -
  let ?w = "created_world [lost_reply True]"
  obtain res w' where app: "sq_append sample_store ''s'' ?w store_batch = (res, w')"
    by (cases "sq_append sample_store ''s'' ?w store_batch")
  have res: "fst (sq_append sample_store ''s'' ?w store_batch) = Inr (Committed 1 2)" by code_simp
  have op: "opened_session ''s'' ?w" by code_simp
  have w: "sq_entries ''s'' ?w = []" "js_keys (sl_commits (the (js_get (qw_logs ?w) ''s''))) = []" by code_simp+
  have fresh: "ap_commitId store_batch \<notin> sq_used ''s'' ?w"
    using w(2) by (auto simp: sq_used_def split: option.splits)
  have ids: "map e_id (stamp_drafts 0 (ap_entries store_batch)) = [''a'', ''b'']" by code_simp
  have "sq_entries ''s'' w' = sq_entries ''s'' ?w @ stamp_drafts (length (sq_entries ''s'' ?w)) (ap_entries store_batch)"
    using sqlite_append_exactly_once [OF sample_store_ok created_reachable op app] res app fresh by simp
  then show ?thesis using res app ids w(1) by simp
qed

text \<open>
  C21: An acknowledged commit survives. Once an append is reported committed, the session holds the batch's
  entries after any further use of the store that does not delete the session: more appends with any faults,
  closing, crashes, and opening again.
\<close>

theorem acknowledged_commit_survives:
  assumes "env_ok env" and "sq_reachable env w" and "opened_session sid w" and "ap_commitId b \<notin> sq_used sid w"
    and "sq_append env sid w b = (Inr (Committed m n), w')" and "(sq_step env)\<^sup>*\<^sup>* w' w''"
  shows "take n (sq_entries sid w'') = sq_entries sid w @ stamp_drafts (length (sq_entries sid w)) (ap_entries b)"
proof -
  have inv: "sq_inv env sid w" by (rule reachable_inv [OF assms(1-3)])
  have eff: "sq_inv env sid w'" "n = length (sq_entries sid w) + length (ap_entries b)"
    "sq_entries sid w' = sq_entries sid w @ stamp_drafts (length (sq_entries sid w)) (ap_entries b)"
    using sq_append_effect [OF inv assms(5)] assms(4) by auto
  from eff(1) obtain l r where lr: "env_ok env" "world_ok env w'" "db_ok env (qw_db w')" "js_get (qw_logs w') sid = Some l"
    "fst (sl_ref l) = sid" "findSummaryRow (qw_db w') (sl_ref l) = Some r" "log_ok env l r" "row_ok env r"
    "sq_entries sid w' = map toLogEntry (sr_entries r)" by (rule sq_invE)
  have "extends_rows (sl_ref l) (qw_db w') (qw_db w'')" using steps_extend [OF assms(1,6) lr(2)] by blast
  then obtain r' es where r': "findSummaryRow (qw_db w'') (sl_ref l) = Some r'"
    "map toLogEntry (sr_entries r') = map toLogEntry (sr_entries r) @ es" using lr(6) by (auto simp: extends_rows_def)
  have "sq_entries sid w'' = sq_entries sid w' @ es" using sq_entries_row [OF r'(1)] r'(2) lr(5,9) by simp
  then show ?thesis using eff(2,3) by simp
qed

theorem acknowledged_commit_survives_witness:
  "map e_id (take 2 (sq_entries ''s'' (sq_crash (snd (sq_append sample_store ''s'' (created_world []) store_batch))))) = [''a'', ''b'']"
proof -
  let ?w = "created_world []"
  obtain w' where app: "sq_append sample_store ''s'' ?w store_batch = (Inr (Committed 1 2), w')"
  proof -
    have "fst (sq_append sample_store ''s'' ?w store_batch) = Inr (Committed 1 2)" by code_simp
    then show ?thesis using that [of "snd (sq_append sample_store ''s'' ?w store_batch)"] by (simp add: prod_eq_iff)
  qed
  have op: "opened_session ''s'' ?w" by code_simp
  have w: "sq_entries ''s'' ?w = []" "js_keys (sl_commits (the (js_get (qw_logs ?w) ''s''))) = []" by code_simp+
  have fresh: "ap_commitId store_batch \<notin> sq_used ''s'' ?w"
    using w(2) by (auto simp: sq_used_def split: option.splits)
  have ids: "map e_id (stamp_drafts 0 (ap_entries store_batch)) = [''a'', ''b'']" by code_simp
  have "(sq_step sample_store)\<^sup>*\<^sup>* w' (sq_crash w')" by (rule r_into_rtranclp) (rule crashed)
  from acknowledged_commit_survives [OF sample_store_ok created_reachable op fresh app this]
  show ?thesis using app ids w(1) by simp
qed

section \<open>Opening\<close>

lemma reopen:
  assumes env: "env_ok env" and ok: "world_ok env w" and row: "findSummaryRow (qw_db w) ref = Some r"
    and free: "\<not> js_has (qw_logs w) (fst ref)"
  obtains l w' where "sq_open env ref w = (Inr l, w')" "row_derived env r (sl_state l)" "sl_committedOrdinal l = length (sr_entries r)"
    "qw_db w' = qw_db w" "sq_inv env (fst ref) w'" "sq_lost (fst ref) w' = None"
proof -
  have "row_ok env r" using world_ok_db [OF ok] row_of [OF row] by (auto simp: db_ok_def)
  then obtain snap s where ld: "sq_load env (qw_db w) ref = Inr (new_sqlite_log ref snap s)" and s: "row_derived env r s"
    by (rule load_row [OF row]) blast
  let ?l = "new_sqlite_log ref snap s"
  have op: "sq_open env ref w = (Inr ?l, set_log (fst ref) ?l w)" using free ld by (simp add: sq_open_def)
  have ok': "world_ok env (set_log (fst ref) ?l w)" by (rule open_world [OF ok op])
  show ?thesis
  proof (rule that [OF op])
    show "row_derived env r (sl_state ?l)" using s by (simp add: new_sqlite_log_def)
    show "sl_committedOrdinal ?l = length (sr_entries r)" using row_derived_facts(2) [OF s] by (simp add: new_sqlite_log_def)
    show "qw_db (set_log (fst ref) ?l w) = qw_db w" by (simp add: set_log_def)
    show "sq_inv env (fst ref) (set_log (fst ref) ?l w)"
      using env ok' row by (simp add: sq_inv_def set_log_def js_get_set) (simp add: new_sqlite_log_def)
    show "sq_lost (fst ref) (set_log (fst ref) ?l w) = None" by (simp add: sq_lost_def set_log_def js_get_set new_sqlite_log_def)
  qed
qed

text \<open>
  C20: A stored session always opens again. In every world a store can reach, a session that exists and is not
  held by another log opens: its rows replay, the replayed state agrees with the stored projections, and the log
  starts at the session's last ordinal. The check that opening makes never refuses what the store wrote.
\<close>

theorem store_reopens:
  assumes "env_ok env" and "sq_reachable env w" and "findSummaryRow (qw_db w) ref = Some r" and "\<not> js_has (qw_logs w) (fst ref)"
  shows "\<exists>l w'. sq_open env ref w = (Inr l, w') \<and> qw_db w' = qw_db w \<and> sq_lost (fst ref) w' = None \<and>
    replaySessionEntries (env_inputDigest env) (sr_createdAt r) (sr_entries r) = Inr (sl_state l) \<and>
    sq_head l = length (sr_entries r)"
proof -
  obtain l w' where "sq_open env ref w = (Inr l, w')" "row_derived env r (sl_state l)"
    "sl_committedOrdinal l = length (sr_entries r)" "qw_db w' = qw_db w" "sq_lost (fst ref) w' = None"
    by (rule reopen [OF assms(1) reachable_ok [OF assms(1,2)] assms(3,4)]) metis
  then show ?thesis by (auto simp: row_derived_def sq_head_def)
qed

definition stored_world :: sqlite_world where
  "stored_world = sq_crash (snd (sq_append sample_store ''s'' (created_world [lost_reply False]) store_batch))"

lemma stored_reachable: "sq_reachable sample_store stored_world"
proof -
  have "sq_life sample_store (created_world fs) (snd (sq_append sample_store ''s'' (created_world fs) store_batch))" for fs
    by (rule step, rule appended) (rule prod.collapse [symmetric])
  moreover have "sq_life sample_store w (sq_crash w)" for w by (rule step, rule crashed)
  ultimately show ?thesis using created_reachable [of "[lost_reply False]"] unfolding sq_reachable_def stored_world_def
    by (meson rtranclp.rtrancl_into_rtrancl)
qed

theorem store_reopens_witness:
  "\<exists>l w'. sq_open sample_store (''s'', ''g'') stored_world = (Inr l, w') \<and> sq_head l = 2"
proof -
  have "map_option (\<lambda>r. length (sr_entries r)) (findSummaryRow (qw_db stored_world) (''s'', ''g'')) = Some 2" by code_simp
  then obtain r where r: "findSummaryRow (qw_db stored_world) (''s'', ''g'') = Some r" "length (sr_entries r) = 2" by auto
  have free: "\<not> js_has (qw_logs stored_world) (fst (''s'', ''g''))" by code_simp
  from store_reopens [OF sample_store_ok stored_reachable r(1) free] r(2) show ?thesis by auto
qed

section \<open>Conversations\<close>

definition sq_run_commits ::
    "store_env \<Rightarrow> string \<Rightarrow> (nat \<Rightarrow> string) \<Rightarrow> string \<Rightarrow>
     (entry_drafts \<Rightarrow> conversation_state \<Rightarrow> conversation_error + entry_drafts) list \<Rightarrow>
     sqlite_world conversation \<Rightarrow> sqlite_world conversation" where
  "sq_run_commits env sid createId now builds c =
     foldl (\<lambda>c build. snd (commitInLane (sq_append env sid) createId now build c)) c builds"

lemma commit_steps:
  assumes "commitInLane (sq_append env sid) createId now build c = (r, c')"
  shows "(sq_step env)\<^sup>*\<^sup>* (cv_log c) (cv_log c')"
  using assms
proof (cases rule: commitInLane_cases)
  case (appended d nextState result l)
  then have "cv_log c' = l" by (auto simp: Let_def split: sum.splits append_result.splits)
  then show ?thesis using appended(5) sq_step.appended by (metis r_into_rtranclp)
qed simp_all

lemma sq_run_commits_snoc:
  "sq_run_commits env sid createId now (builds @ [build]) c =
     snd (commitInLane (sq_append env sid) createId now build (sq_run_commits env sid createId now builds c))"
  by (simp add: sq_run_commits_def)

lemma run_steps: "(sq_step env)\<^sup>*\<^sup>* (cv_log c) (cv_log (sq_run_commits env sid createId now builds c))"
proof (induction builds rule: rev_induct)
  case (snoc build builds)
  from commit_steps [OF prod.collapse [symmetric]] snoc.IH show ?case
    unfolding sq_run_commits_snoc by (rule rtranclp_trans [rotated])
qed (simp add: sq_run_commits_def)

text \<open>
  A run of commits keeps the fold state the fold of the log, until one commit of the run leaves the conversation
  in doubt; the later ones then change nothing.
\<close>

lemma run_keeps:
  assumes "inj createId" and "kernel_ok (sq_entries sid) (sq_used sid) (sq_inv env sid) createId c"
  shows "list_all counting builds \<Longrightarrow>
   kernel_ok (sq_entries sid) (sq_used sid) (sq_inv env sid) createId (sq_run_commits env sid createId now builds c) \<or>
   (\<exists>before build after. builds = before @ build # after \<and>
      kernel_ok (sq_entries sid) (sq_used sid) (sq_inv env sid) createId (sq_run_commits env sid createId now before c) \<and>
      commitInLane (sq_append env sid) createId now build (sq_run_commits env sid createId now before c) =
        (Inl (Ended UncertainCommit), sq_run_commits env sid createId now builds c) \<and>
      in_doubt (sq_entries sid) now build (sq_run_commits env sid createId now before c)
        (sq_run_commits env sid createId now builds c))"
proof (induction builds rule: rev_induct)
  case Nil
  then show ?case using assms(2) by (simp add: sq_run_commits_def)
next
  case (snoc build builds)
  let ?run = "\<lambda>builds. sq_run_commits env sid createId now builds c"
  obtain r c1 where c1: "commitInLane (sq_append env sid) createId now build (?run builds) = (r, c1)"
    by (cases "commitInLane (sq_append env sid) createId now build (?run builds)")
  then have run: "?run (builds @ [build]) = c1" by (simp add: sq_run_commits_snoc)
  have cnt: "list_all counting builds" "counting build" using snoc.prems by simp_all
  from snoc.IH [OF cnt(1)] consider
    (ok) "kernel_ok (sq_entries sid) (sq_used sid) (sq_inv env sid) createId (?run builds)"
  | (doubt) before b after where "builds = before @ b # after"
      "kernel_ok (sq_entries sid) (sq_used sid) (sq_inv env sid) createId (?run before)"
      "commitInLane (sq_append env sid) createId now b (?run before) = (Inl (Ended UncertainCommit), ?run builds)"
      "in_doubt (sq_entries sid) now b (?run before) (?run builds)" by blast
  then show ?case
  proof cases
    case ok
    from sq.commit_keeps [OF ok cnt(2) assms(1) c1] ok c1 run show ?thesis by fastforce
  next
    case doubt
    from doubt(4) have "c1 = ?run builds" using c1 by (simp add: in_doubt_def commitInLane_def)
    with doubt run have "builds @ [build] = before @ b # (after @ [build])"
      "commitInLane (sq_append env sid) createId now b (?run before) = (Inl (Ended UncertainCommit), ?run (builds @ [build]))"
      "in_doubt (sq_entries sid) now b (?run before) (?run (builds @ [build]))" by simp_all
    with doubt(2) show ?thesis by blast
  qed
qed

lemma sq_crash_sel [simp]: "qw_db (sq_crash w) = qw_db w" "qw_logs (sq_crash w) = []"
  by (simp_all add: sq_crash_def)

text \<open>
  C19: A conversation over the SQLite log is durable. Start a conversation on an open session, run any commits
  against any faults, and crash: the session opens again and the kernel folds it, to exactly the state the
  conversation had. The one exception is a conversation that one of the commits ended with an uncertain append:
  it may find that commit's batch folded onto its state, the entries this builder drafted there, and nothing else.
\<close>

theorem conversation_durable:
  assumes "env_ok env" and "sq_reachable env w" and "js_get (qw_logs w) sid = Some l"
    and "findSummaryRow (qw_db w) (sl_ref l) \<noteq> None" and "sl_commits l = []"
    and "fold_log (sq_entries sid w) emptyState = Inr s" and "inj createId" and "list_all counting builds"
    and "c0 = \<lparr>cv_log = w, cv_foldState = s, cv_endState = None, cv_calls = n, cv_events = []\<rparr>"
    and "c = sq_run_commits env sid createId now builds c0"
    and "length (sq_entries sid (cv_log c)) \<le> max_safe_integer" and "length (sq_entries sid (cv_log c)) < fuel"
  shows "\<exists>l' w' c'. sq_open env (sl_ref l) (sq_crash (cv_log c)) = (Inr l', w') \<and>
    open_conversation (sq_read sid) fuel (cv_calls c) w' = Some (Inr c') \<and>
    (cv_foldState c' = cv_foldState c \<or>
     (\<exists>before build after c1 d. builds = before @ build # after \<and>
        c1 = sq_run_commits env sid createId now before c0 \<and>
        commitInLane (sq_append env sid) createId now build c1 = (Inl (Ended UncertainCommit), c) \<and>
        cv_foldState c = cv_foldState c1 \<and> cv_endState c = Some UncertainCommit \<and>
        build (new_drafts (cv_foldState c1) now (cv_calls c1)) (cv_foldState c1) = Inr d \<and>
        fold_log (stamp_drafts (st_ordinal (cv_foldState c1)) (ed_drafts d)) (cv_foldState c) = Inr (cv_foldState c')))"
proof -
  have ok: "world_ok env w" by (rule reachable_ok [OF assms(1,2)])
  then have sid: "fst (sl_ref l) = sid" using assms(3) by (auto simp: world_ok_def)
  have "sq_inv env sid w" by (rule reachable_inv [OF assms(1,2)]) (use assms(3,4) in \<open>simp add: opened_session_def\<close>)
  then have ok0: "kernel_ok (sq_entries sid) (sq_used sid) (sq_inv env sid) createId c0"
    using assms(3,5,6) by (simp add: assms(9) kernel_ok_def sq_used_def)
  have steps: "(sq_step env)\<^sup>*\<^sup>* w (cv_log c)" using run_steps [of env c0] by (simp add: assms(9,10))
  have ok': "world_ok env (sq_crash (cv_log c))"
    using steps_extend [OF assms(1) steps ok] step_world [OF assms(1) crashed] by blast
  from steps_extend [OF assms(1) steps ok, of "sl_ref l"] assms(4)
  obtain r where r: "findSummaryRow (qw_db (sq_crash (cv_log c))) (sl_ref l) = Some r" by (auto simp: extends_rows_def)
  obtain l' w' where op: "sq_open env (sl_ref l) (sq_crash (cv_log c)) = (Inr l', w')" "qw_db w' = qw_db (cv_log c)"
    "sq_inv env sid w'" "sq_lost sid w' = None"
    by (rule reopen [OF assms(1) ok' r]) (simp_all add: sid)
  have same: "sq_entries sid w' = sq_entries sid (cv_log c)" by (simp add: sq_entries_def op(2))
  have opened: "open_conversation (sq_read sid) fuel (cv_calls c) w' =
      Some (Inr \<lparr>cv_log = w', cv_foldState = t, cv_endState = None, cv_calls = cv_calls c, cv_events = []\<rparr>)"
    if "fold_log (sq_entries sid (cv_log c)) emptyState = Inr t" for t
    by (rule sq.open_folds [OF op(3,4)]) (use assms(11,12) that same in simp_all)
  from run_keeps [OF assms(7) ok0 assms(8), of now] consider
    (ok) "kernel_ok (sq_entries sid) (sq_used sid) (sq_inv env sid) createId c"
  | (doubt) before build after where "builds = before @ build # after"
      "kernel_ok (sq_entries sid) (sq_used sid) (sq_inv env sid) createId (sq_run_commits env sid createId now before c0)"
      "commitInLane (sq_append env sid) createId now build (sq_run_commits env sid createId now before c0) =
         (Inl (Ended UncertainCommit), c)"
      "in_doubt (sq_entries sid) now build (sq_run_commits env sid createId now before c0) c"
    using assms(10) by blast
  then show ?thesis
  proof cases
    case ok
    then show ?thesis using op(1) opened [of "cv_foldState c"] by (simp add: kernel_ok_def)
  next
    case doubt
    let ?c1 = "sq_run_commits env sid createId now before c0"
    let ?batch = "\<lambda>d. stamp_drafts (st_ordinal (cv_foldState ?c1)) (ed_drafts d)"
    obtain d t where d: "build (new_drafts (cv_foldState ?c1) now (cv_calls ?c1)) (cv_foldState ?c1) = Inr d"
      and es: "sq_entries sid (cv_log c) = sq_entries sid (cv_log ?c1) @ ?batch d"
      and t: "fold_log (?batch d) (cv_foldState ?c1) = Inr t"
      and c: "cv_endState c = Some UncertainCommit" "cv_foldState c = cv_foldState ?c1"
      using doubt(4) by (auto simp: in_doubt_def)
    have "fold_log (sq_entries sid (cv_log c)) emptyState = Inr t"
      using doubt(2) es t by (simp add: kernel_ok_def fold_log_append)
    from op(1) opened [OF this] doubt(1,3) d c t show ?thesis
      by (intro exI conjI disjI2) (assumption | simp)+
  qed
qed

definition durable_run :: "sqlite_world conversation" where
  "durable_run = sq_run_commits sample_store ''s'' sample_ids ''2025-01-01T00:00:00.000Z'' [sample_build, sample_build]
     \<lparr>cv_log = created_world [no_fault, lost_reply False], cv_foldState = emptyState, cv_endState = None, cv_calls = 1, cv_events = []\<rparr>"

theorem conversation_durable_witness:
  "cv_endState durable_run = Some UncertainCommit \<and>
   (\<exists>l' w' c'. sq_open sample_store (''s'', ''g'') (sq_crash (cv_log durable_run)) = (Inr l', w') \<and>
      open_conversation (sq_read ''s'') 3 (cv_calls durable_run) w' = Some (Inr c'))"
proof -
  let ?w = "created_world [no_fault, lost_reply False]"
  have ev: "map_option sl_ref (js_get (qw_logs ?w) ''s'') = Some (''s'', ''g'')"
    "map_option sl_commits (js_get (qw_logs ?w) ''s'') = Some []" by code_simp+
  then obtain l where l: "js_get (qw_logs ?w) ''s'' = Some l" "sl_ref l = (''s'', ''g'')" "sl_commits l = []" by auto
  have row: "findSummaryRow (qw_db ?w) (''s'', ''g'') \<noteq> None" by code_simp
  have "sq_entries ''s'' ?w = []" by code_simp
  then have fold: "fold_log (sq_entries ''s'' ?w) emptyState = Inr emptyState" by (simp add: fold_log_def)
  have cnt: "list_all counting [sample_build, sample_build]" using counting_sample_build by simp
  have len: "length (sq_entries ''s'' (cv_log durable_run)) = 2" by code_simp
  then have bound: "length (sq_entries ''s'' (cv_log durable_run)) \<le> max_safe_integer" "length (sq_entries ''s'' (cv_log durable_run)) < 3"
    by (simp_all add: max_safe_integer_def)
  have "cv_endState durable_run = Some UncertainCommit" by code_simp
  then show ?thesis
    using conversation_durable [OF sample_store_ok created_reachable l(1) _ l(3) fold inj_sample_ids cnt refl durable_run_def bound] row l(2)
    by auto
qed

section \<open>Sessions\<close>

text \<open>
  C24: The outstanding client inputs of a stored session are bounded. In every world a store can reach, every
  session's client input rows pass \<open>assertClientInputProjectionBounds\<close>: at most 128 are accepted or started, and
  they and their queued inputs take at most 16 MiB.
\<close>

theorem stored_inputs_bounded:
  assumes "env_ok env" and "sq_reachable env w" and "findSummaryRow (qw_db w) ref = Some r"
  shows "outstandingClientInputCount (js_values (sr_clientInputs r)) \<le> 128 \<and>
    outstandingClientInputBytes (js_values (sr_clientInputs r)) \<le> 16777216 \<and>
    assertClientInputProjectionBounds (js_values (sr_clientInputs r)) = Inr ()"
proof -
  have "row_ok env r" using world_ok_db [OF reachable_ok [OF assms(1,2)]] row_of [OF assms(3)] by (auto simp: db_ok_def)
  then obtain s where s: "row_derived env r s" by (auto simp: row_ok_def)
  then have rep: "applySessionEntries (env_inputDigest env) (sr_entries r) (createSessionDerivedState (sr_createdAt r)) = Inr s"
    by (simp add: row_derived_def replaySessionEntries_def)
  have "bounded_inputs (ds_clientInputsById s)"
    by (rule replay_bounded [OF rep]) (simp_all add: keyed_def bounded_inputs_def outstandingClientInputCount_def
        outstandingClientInputBytes_def CLIENT_INPUT_MAX_OUTSTANDING_BYTES_def)
  moreover have "sr_clientInputs r = ds_clientInputsById s" using s by (simp add: row_derived_def)
  ultimately show ?thesis using bounded_asserted
    by (simp add: bounded_inputs_def CLIENT_INPUT_MAX_OUTSTANDING_ENTRIES_def CLIENT_INPUT_MAX_RECOVERABLE_QUEUE_ENTRIES_def
        CLIENT_INPUT_MAX_OUTSTANDING_BYTES_def)
qed

theorem stored_inputs_bounded_witness:
  "\<exists>r. findSummaryRow (qw_db stored_world) (''s'', ''g'') = Some r \<and> length (sr_clientInputs r) = 1 \<and>
    assertClientInputProjectionBounds (js_values (sr_clientInputs r)) = Inr ()"
proof -
  have "map_option (\<lambda>r. length (sr_clientInputs r)) (findSummaryRow (qw_db stored_world) (''s'', ''g'')) = Some 1" by code_simp
  then obtain r where r: "findSummaryRow (qw_db stored_world) (''s'', ''g'') = Some r" "length (sr_clientInputs r) = 1" by auto
  from stored_inputs_bounded [OF sample_store_ok stored_reachable r(1)] r show ?thesis by blast
qed

text \<open>
  C25: The store's rows agree with the kernel's fold. The session projection and the conversation fold reduce the
  same entries in separate code; wherever both accept a log of stored entry types they agree on every client input, on the leaf, on the
  name and on the labels.
\<close>

theorem rows_agree_with_fold:
  assumes "list_all (\<lambda>e. entryShape (se_body e) \<noteq> None) es"
    and "replaySessionEntries digestInput t es = Inr s" and "fold_log (map toLogEntry es) emptyState = Inr st"
  shows "ds_clientInputsById s = st_inputs st \<and> ds_leafId s = st_leafId st \<and> ds_name s = st_name st \<and>
    ds_labelsById s = map (\<lambda>(k, l). (k, lab_label l)) (st_labels st) \<and>
    ds_labelTimestampsById s = map (\<lambda>(k, l). (k, lab_timestamp l)) (st_labels st)"
  using replay_agrees [of es digestInput t s st] assms
  by (simp add: replaySessionEntries_def store_agrees_def label_fields_def)

definition agreement_entries :: "session_entry list" where
  "agreement_entries = map (\<lambda>(n, i, parent, body). \<lparr>se_ordinal = n, se_id = i, se_parentId = parent, se_timestamp = ''t'', se_body = body\<rparr>)
     [(1, ''a'', None, store_receipt), (2, ''b'', None, sample_move ''a'' ''c'' Started),
      (3, ''m'', None, Message (UserMessage sample_user) (Some ''c'')), (4, ''l'', Some ''m'', Label ''m'' (Some ''first''))]"

theorem rows_agree_with_fold_witness:
  "\<exists>s st. replaySessionEntries (\<lambda>_ i. ci_message i) ''t'' agreement_entries = Inr s \<and>
    fold_log (map toLogEntry agreement_entries) emptyState = Inr st \<and> ds_leafId s = Some ''l'' \<and> st_leafId st = Some ''l'' \<and>
    map ir_state (js_values (st_inputs st)) = [Completed] \<and> ds_clientInputsById s = st_inputs st"
proof -
  have "map_sum (\<lambda>_. ()) (\<lambda>s. (ds_leafId s, map ir_state (js_values (ds_clientInputsById s))))
      (replaySessionEntries (\<lambda>_ i. ci_message i) ''t'' agreement_entries) = Inr (Some ''l'', [Completed])" by code_simp
  then obtain s where s: "replaySessionEntries (\<lambda>_ i. ci_message i) ''t'' agreement_entries = Inr s" "ds_leafId s = Some ''l''"
    "map ir_state (js_values (ds_clientInputsById s)) = [Completed]"
    by (cases "replaySessionEntries (\<lambda>_ i. ci_message i) ''t'' agreement_entries") auto
  have "map_sum (\<lambda>_. ()) (\<lambda>_. ()) (fold_log (map toLogEntry agreement_entries) emptyState) = Inr ()" by code_simp
  then obtain st where st: "fold_log (map toLogEntry agreement_entries) emptyState = Inr st"
    by (cases "fold_log (map toLogEntry agreement_entries) emptyState") auto
  have "list_all (\<lambda>e. entryShape (se_body e) \<noteq> None) agreement_entries" by code_simp
  from rows_agree_with_fold [OF this s(1) st] s st show ?thesis by auto
qed

section \<open>Commits go through\<close>

lemma transaction_commits:
  assumes rdy: "ready env db l r b p" and none: "findCommit db (ap_commitId b) = None"
    and refs: "validateTransactionEntryReferences env r (tp_entries (ai_payload (pc_input p))) = Inr x"
    and idx: "indexReviewEntries env (sl_ref l) (tp_entries (ai_payload (pc_input p))) db \<noteq> None"
    and sql: "env_sqlAccepts env (pc_input p)"
  shows "\<exists>ev db'. applyTransaction env now (pc_input p) db = (Inr (TransactionCommitted ev), db') \<and> findCommit db' (ap_commitId b) = Some ev"
proof -
  have prep: "prepare env l b = Inr p" and row: "findSummaryRow db (sl_ref l) = Some r" and rd: "row_derived env r (sl_state l)"
    and env: "env_ok env" and ord: "ap_expectedOrdinal b = length (sr_entries r)" and db: "db_ok env db"
    using rdy by (simp_all add: ready_def)
  have rok: "row_ok env r" using db row_of [OF row] by (auto simp: db_ok_def)
  from prep show ?thesis
  proof (rule prepare_Inr)
    fix es s
    assume batch: "applySessionEntries (env_inputDigest env) es (sl_state l) = Inr s"
      and inp: "pc_input p = \<lparr>ai_session = sl_ref l, ai_expectedOrdinal = ap_expectedOrdinal b, ai_commitId = ap_commitId b,
        ai_digest = env_payloadDigest env (transaction_of s es), ai_payload = transaction_of s es\<rparr>"
    have tp: "ai_payload (pc_input p) = transaction_of s es" "tp_entries (transaction_of s es) = es"
      by (simp_all add: inp transaction_of_def)
    obtain db1 where db1: "indexReviewEntries env (sl_ref l) es db = Some db1" using idx unfolding tp by blast
    have chk: "check_transaction env (pc_input p) r = Inr (length (sr_entries r) + 1 + length es)"
      by (rule check_prepared [OF rok rd batch refs [unfolded tp] env tp(1) sql])
    have acc: "ai_session (pc_input p) = sl_ref l" "ai_expectedOrdinal (pc_input p) = length (sr_entries r)"
      "ai_commitId (pc_input p) = ap_commitId b" "env_payloadDigest env (ai_payload (pc_input p)) = ai_digest (pc_input p)"
      by (simp_all add: inp ord)
    show ?thesis
      unfolding applyTransaction_def transact_def acc none row tp db1
      using chk db1 ready_last [OF rdy] acc(4) by (simp add: tp Let_def findCommit_def js_get_set)
  qed
qed

text \<open>
  C22: Appends go through. When the store's worker runs the request and its answer, or the reconciliation after
  it, gets back, a batch that the log can prepare, whose references are valid and that the review index and SQL
  accept is committed: the worker's checks against the bounded part of the session it loads never refuse what
  the log prepared from the whole of it.
\<close>

theorem served_append_commits:
  assumes "env_ok env" and "sq_reachable env w" and "js_get (qw_logs w) sid = Some l" and "sl_lostError l = None"
    and "findSummaryRow (qw_db w) (sl_ref l) = Some r" and "ap_expectedOrdinal b = length (sr_entries r)"
    and "ap_commitId b \<noteq> ''''" and "js_get (sl_commits l) (ap_commitId b) = None" and "findCommit (qw_db w) (ap_commitId b) = None"
    and "ap_entries b \<noteq> []" and "prepare env l b = Inr p"
    and "validateTransactionEntryReferences env r (tp_entries (ai_payload (pc_input p))) = Inr ()"
    and "indexReviewEntries env (sl_ref l) (tp_entries (ai_payload (pc_input p))) (qw_db w) \<noteq> None"
    and "env_sqlAccepts env (pc_input p)"
    and "ft_request (fst (next_fault w)) = Served \<or> ft_request (fst (next_fault w)) = FailedAfter \<and> ft_reconciles (fst (next_fault w))"
  shows "\<exists>w'. sq_append env sid w b = (Inr (Committed (length (sr_entries r) + 1) (length (sr_entries r) + length (ap_entries b))), w')"
proof -
  have ok: "world_ok env w" by (rule reachable_ok [OF assms(1,2)])
  then have lok: "log_ok env l r" using assms(3,5) by (auto simp: world_ok_def)
  then have rd: "row_derived env r (sl_state l)" "sl_committedOrdinal l = length (sr_entries r)" using assms(4) by (simp_all add: log_ok_def)
  have rdy: "ready env (qw_db w) l r b p"
    using assms(1,5,6,10,11) rd(1) world_ok_db [OF ok] by (simp add: ready_def)
  obtain f w1 where f: "next_fault w = (f, w1)" by (cases "next_fault w")
  have w1: "qw_db w1 = qw_db w" using next_fault_sel(1) [of w] f by simp
  obtain outcome db where out: "sq_apply env f p (qw_db w) = (outcome, db)" by (cases "sq_apply env f p (qw_db w)")
  obtain ev db' where tx: "applyTransaction env (ft_now f) (pc_input p) (qw_db w) = (Inr (TransactionCommitted ev), db')"
    "findCommit db' (ap_commitId b) = Some ev"
    using transaction_commits [OF rdy assms(9,12,13,14), of "ft_now f"] by blast
  have fault: "ft_request f = Served \<or> ft_request f = FailedAfter \<and> ft_reconciles f" using assms(15) f by simp
  have db: "db = db'" and served: "ft_request f = Served \<Longrightarrow> \<exists>m n. outcome = Applied m n"
    using out tx(1) fault by (auto simp: sq_apply_def Let_def)
  from rdy out have "outcome = Applied (length (sr_entries r) + 1) (length (sr_entries r) + length (ap_entries b))"
    by (cases rule: sq_apply_cases) (use fault served db tx(2) assms(9) in auto)
  then show ?thesis
    using assms(3,4,6-8,10,11) rd(2) f w1 out by (simp add: sq_append_def sq_commit_def Let_def)
qed

theorem served_append_commits_witness:
  "\<exists>w'. sq_append sample_store ''s'' (created_world [lost_reply True]) store_batch = (Inr (Committed 1 2), w')"
proof -
  let ?w = "created_world [lost_reply True]"
  have ev: "map_option (\<lambda>l. (sl_ref l, sl_lostError l, sl_commits l)) (js_get (qw_logs ?w) ''s'') = Some ((''s'', ''g''), None, [])"
    "map_option sr_entries (findSummaryRow (qw_db ?w) (''s'', ''g'')) = Some []" by code_simp+
  then obtain l r where l: "js_get (qw_logs ?w) ''s'' = Some l" "sl_ref l = (''s'', ''g'')" "sl_lostError l = None" "sl_commits l = []"
    and r: "findSummaryRow (qw_db ?w) (''s'', ''g'') = Some r" "sr_entries r = []" by auto
  have le: "l = the (js_get (qw_logs ?w) ''s'')" "r = the (findSummaryRow (qw_db ?w) (''s'', ''g''))" using l r by simp_all
  have "map_sum (\<lambda>_. ()) (\<lambda>_. ()) (prepare sample_store (the (js_get (qw_logs ?w) ''s'')) store_batch) = Inr ()" by code_simp
  then obtain p where p: "prepare sample_store l store_batch = Inr p"
    unfolding le(1) [symmetric] by (cases "prepare sample_store l store_batch") auto
  have "case prepare sample_store (the (js_get (qw_logs ?w) ''s'')) store_batch of Inl _ \<Rightarrow> False
      | Inr p \<Rightarrow> validateTransactionEntryReferences sample_store (the (findSummaryRow (qw_db ?w) (''s'', ''g'')))
          (tp_entries (ai_payload (pc_input p))) = Inr ()" by code_simp
  then have refs: "validateTransactionEntryReferences sample_store r (tp_entries (ai_payload (pc_input p))) = Inr ()"
    unfolding le [symmetric] p by simp
  have "case prepare sample_store (the (js_get (qw_logs ?w) ''s'')) store_batch of Inl _ \<Rightarrow> False
      | Inr p \<Rightarrow> indexReviewEntries sample_store (''s'', ''g'') (tp_entries (ai_payload (pc_input p))) (qw_db ?w) \<noteq> None" by code_simp
  then have idx: "indexReviewEntries sample_store (sl_ref l) (tp_entries (ai_payload (pc_input p))) (qw_db ?w) \<noteq> None"
    unfolding le(1) [symmetric] p l(2) by simp
  have b: "ap_commitId store_batch \<noteq> ''''" "ap_entries store_batch \<noteq> []" "ap_expectedOrdinal store_batch = 0"
    "findCommit (qw_db ?w) (ap_commitId store_batch) = None" "length (ap_entries store_batch) = 2" by code_simp+
  have sql: "env_sqlAccepts sample_store (pc_input p)" by (simp add: sample_store_def)
  have ft: "ft_request (fst (next_fault ?w)) = Served \<or> ft_request (fst (next_fault ?w)) = FailedAfter \<and> ft_reconciles (fst (next_fault ?w))"
    by code_simp
  have row: "findSummaryRow (qw_db ?w) (sl_ref l) = Some r" using r(1) l(2) by simp
  have ord: "ap_expectedOrdinal store_batch = length (sr_entries r)" using b(3) r(2) by simp
  have fresh: "js_get (sl_commits l) (ap_commitId store_batch) = None" using l(4) by simp
  show ?thesis
    using served_append_commits [OF sample_store_ok created_reachable l(1,3) row ord b(1) fresh b(4,2) p refs idx sql ft] r(2) b(5)
    by (simp add: numeral_2_eq_2)
qed

section \<open>Stored rows\<close>

text \<open>
  C23: Stored sessions are well formed. In every world a store can reach, a session's entries have the ordinals 1,
  2, 3 and so on, distinct ids and types that session logs store; its leaf is a stored entry; its client inputs
  are stored under their own ids, each once, in the form the store writes; and its search chunks are numbered
  from 0.
\<close>

theorem stored_session_typed:
  assumes "env_ok env" and "sq_reachable env w" and "findSummaryRow (qw_db w) ref = Some r"
  shows "map se_ordinal (sr_entries r) = [1..<length (sr_entries r) + 1] \<and> distinct (map se_id (sr_entries r)) \<and>
    list_all (\<lambda>e. entryShape (se_body e) \<noteq> None \<and> env_persisted env e) (sr_entries r) \<and>
    (pj_leafId (sr_projection r) = None \<or> pj_leafId (sr_projection r) \<in> Some ` se_id ` set (sr_entries r)) \<and>
    distinct (js_keys (sr_clientInputs r)) \<and>
    list_all (\<lambda>(k, c). ir_clientMessageId c = k \<and> clientInputRecordFromWrite (env_inputDigest env) c = Inr c) (sr_clientInputs r) \<and>
    map sc_chunkIndex (sr_searchChunks r) = [0..<length (sr_searchChunks r)]"
proof -
  have ok: "row_ok env r" using world_ok_db [OF reachable_ok [OF assms(1,2)]] row_of [OF assms(3)] by (auto simp: db_ok_def)
  then obtain s where s: "row_derived env r s" by (auto simp: row_ok_def)
  note facts = row_derived_facts [OF s]
  have m: "sr_clientInputs r = ds_clientInputsById s" "sr_searchChunks r = ds_searchChunks s" using s by (simp_all add: row_derived_def)
  have rep: "applySessionEntries (env_inputDigest env) (sr_entries r) (createSessionDerivedState (sr_createdAt r)) = Inr s"
    using s by (simp add: row_derived_def replaySessionEntries_def)
  have "writable (env_inputDigest env) (ds_clientInputsById s)" by (rule replay_writable [OF rep]) (simp add: writable_def)
  then have "ir_clientMessageId c = k \<and> clientInputRecordFromWrite (env_inputDigest env) c = Inr c" if "(k, c) \<in> set (sr_clientInputs r)" for k c
    using facts(3) js_get_mem [of "ds_clientInputsById s" k c] that by (auto simp: m keyed_def writable_def writable_row_def)
  moreover have "map se_ordinal (sr_entries r) = [1..<length (sr_entries r) + 1]" by (simp add: facts(1) map_Suc_upt)
  moreover have "list_all (\<lambda>e. entryShape (se_body e) \<noteq> None \<and> env_persisted env e) (sr_entries r)"
    using ok unfolding row_ok_def list_all_iff by blast
  moreover have "pj_leafId (sr_projection r) = None \<or> pj_leafId (sr_projection r) \<in> Some ` se_id ` set (sr_entries r)"
    using ok unfolding row_ok_def by (cases "pj_leafId (sr_projection r)") auto
  moreover have "distinct (map se_id (sr_entries r))" using ok by (simp add: row_ok_def)
  ultimately show ?thesis using facts(3,4) by (auto simp: m keyed_def list_all_iff)
qed

theorem stored_session_typed_witness:
  "\<exists>r. findSummaryRow (qw_db stored_world) (''s'', ''g'') = Some r \<and> length (sr_entries r) = 2 \<and>
    map se_ordinal (sr_entries r) = [1, 2] \<and> map sc_chunkIndex (sr_searchChunks r) = [0]"
proof -
  have "map_option (\<lambda>r. (length (sr_entries r), length (sr_searchChunks r))) (findSummaryRow (qw_db stored_world) (''s'', ''g'')) = Some (2, 1)"
    by code_simp
  then obtain r where r: "findSummaryRow (qw_db stored_world) (''s'', ''g'') = Some r" "length (sr_entries r) = 2" "length (sr_searchChunks r) = 1"
    by auto
  have "map se_ordinal (sr_entries r) = [1..<3]" "map sc_chunkIndex (sr_searchChunks r) = [0..<1]"
    using stored_session_typed [OF sample_store_ok stored_reachable r(1)] r(2,3) by auto
  then show ?thesis using r by (simp add: upt_rec)
qed

end
