(* ===== verification/Replay_Policy.thy ===== *)
theory Replay_Policy
  imports Messages
begin

text \<open>
  The replay policy (\<^verbatim>\<open>packages/ai/src/replay-policy.ts\<close>, with the feedback of
  \<^verbatim>\<open>packages/ai/src/stream/invalid-tool-arguments.ts\<close>): which messages of a history a provider
  request contains. The loop over the messages is a fold over \<open>replay_state\<close>, one field per local
  variable. \<open>replay_valid\<close> is the contract a provider expects of a transcript: every tool call of a
  completed turn is answered exactly once, directly after its turn, and nothing else is a result.
\<close>

section \<open>Tool calls of an assistant message\<close>

record tool_call =
  tc_id :: string
  tc_name :: string
  tc_arguments :: json
  tc_thoughtSignature :: "string option"

fun block_tool_call :: "assistant_block \<Rightarrow> tool_call option" where
  "block_tool_call (AToolCall i n args sig) =
     Some \<lparr>tc_id = i, tc_name = n, tc_arguments = args, tc_thoughtSignature = sig\<rparr>"
| "block_tool_call (AText _ _) = None"
| "block_tool_call (AThinking _ _ _) = None"

definition tool_calls :: "assistant_message \<Rightarrow> tool_call list" where
  "tool_calls m = List.map_filter block_tool_call (a_content m)"

section \<open>Feedback for rejected tool arguments\<close>

fun json_field :: "string \<Rightarrow> json \<Rightarrow> json option" where
  "json_field k (JObj fs) = map_of fs k"
| "json_field k _ = None"

definition upper_hex_digit :: "nat \<Rightarrow> char" where
  "upper_hex_digit n = (if n < 10 then char_of (48 + n) else char_of (55 + n))"

fun upper_hex :: "nat \<Rightarrow> string" where
  "upper_hex n = (if n < 16 then [upper_hex_digit n] else upper_hex (n div 16) @ [upper_hex_digit (n mod 16)])"

declare upper_hex.simps [simp del]

definition pad_start_zero :: "nat \<Rightarrow> string \<Rightarrow> string" where
  "pad_start_zero w s = replicate (w - length s) CHR ''0'' @ s"

definition CONTROL_CHARACTER_ESCAPES :: "nat \<Rightarrow> (string \<times> string) option" where
  "CONTROL_CHARACTER_ESCAPES c =
     (if c = 8 then Some (''backspace'', [CHR 0x5C, CHR ''b''])
      else if c = 9 then Some (''tab'', [CHR 0x5C, CHR ''t''])
      else if c = 10 then Some (''line feed'', [CHR 0x5C, CHR ''n''])
      else if c = 12 then Some (''form feed'', [CHR 0x5C, CHR ''f''])
      else if c = 13 then Some (''carriage return'', [CHR 0x5C, CHR ''r''])
      else None)"

definition describeUnescapedControlCharacter :: "nat \<Rightarrow> string" where
  "describeUnescapedControlCharacter codePoint =
     (let hex = pad_start_zero 4 (upper_hex codePoint);
          (name, encoded) = (case CONTROL_CHARACTER_ESCAPES codePoint of
              Some p \<Rightarrow> p
            | None \<Rightarrow> (''control character'', [CHR 0x5C, CHR ''u''] @ hex))
      in ''an unescaped '' @ name @ '' (U+'' @ hex @ '') inside a JSON string; encode it as '' @ encoded)"

text \<open>
  The first raw control character inside a string literal of \<open>raw\<close>: the two flags are the loop's
  \<open>inString\<close> and \<open>escaped\<close>.
\<close>

fun find_control :: "bool \<Rightarrow> bool \<Rightarrow> string \<Rightarrow> nat option" where
  "find_control inString escaped [] = None"
| "find_control inString escaped (c # cs) =
     (let code = of_char c :: nat in
      if \<not> inString then find_control (code = 0x22) escaped cs
      else if code < 0x20 then Some code
      else if escaped then find_control True False cs
      else if code = 0x5c then find_control True True cs
      else find_control (code \<noteq> 0x22) False cs)"

definition findUnescapedControlCharacter :: "string \<Rightarrow> nat option" where
  "findUnescapedControlCharacter raw = find_control False False raw"

fun json_elements :: "json \<Rightarrow> json list" where
  "json_elements (JArr js) = js"
| "json_elements _ = []"

definition block_at :: "assistant_block list \<Rightarrow> json option \<Rightarrow> assistant_block option" where
  "block_at bs i = (case i of
       Some (JNum n) \<Rightarrow> if 0 \<le> n \<and> n < int (length bs) then Some (bs ! nat n) else None
     | _ \<Rightarrow> None)"

definition rejected_target :: "assistant_block option \<Rightarrow> string" where
  "rejected_target b = (case b of
       Some (AToolCall _ name _ _) \<Rightarrow>
         if name \<noteq> '''' then ''the `'' @ name @ ''` tool call'' else ''a tool call''
     | _ \<Rightarrow> ''a tool call'')"

definition rejected_cause :: "json \<Rightarrow> string \<Rightarrow> string" where
  "rejected_cause details target =
     (let control = (case (json_field ''reason'' details, json_field ''codePoint'' details) of
          (Some (JStr reason), Some (JNum c)) \<Rightarrow>
            if reason = ''unescaped_control_character'' \<and> 0 \<le> c \<and> c < 0x20 then Some (nat c) else None
        | _ \<Rightarrow> None)
      in case control of
        Some c \<Rightarrow> ''The arguments for '' @ target @ '' contained ''
          @ describeUnescapedControlCharacter c @ ''.''
      | None \<Rightarrow>
          if json_field ''code'' details = Some (JStr ''length_limit'')
          then ''It reached the output length limit before its tool calls were complete.''
          else if json_field ''code'' details = Some (JStr ''missing_completion'')
          then ''The provider did not complete '' @ target @ ''.''
          else ''The arguments for '' @ target @ '' were not a complete, valid JSON object.'')"

definition invalid_arguments_diagnostic :: "assistant_message \<Rightarrow> json option" where
  "invalid_arguments_diagnostic m = (case a_diagnostics m of
       None \<Rightarrow> None
     | Some ds \<Rightarrow> List.find (\<lambda>d. json_field ''type'' d = Some (JStr ''invalid_tool_arguments''))
                   (json_elements ds))"

definition createRejectedToolCallFeedback :: "assistant_message \<Rightarrow> provider_message option" where
  "createRejectedToolCallFeedback m =
     (if a_stopReason m \<noteq> ErrorStop then None
      else case invalid_arguments_diagnostic m of
        None \<Rightarrow> None
      | Some diagnostic \<Rightarrow>
          let details = (case json_field ''details'' diagnostic of Some d \<Rightarrow> d | None \<Rightarrow> JObj []);
              target = rejected_target (block_at (a_content m) (json_field ''contentIndex'' details));
              cause = rejected_cause details target
          in Some (ProviderUser
               (text_blocks (''Your previous response was discarded and none of its tool calls were executed. ''
                  @ cause))
               (Some (a_timestamp m)) None))"

section \<open>The policy\<close>

definition turn_completed :: "assistant_message \<Rightarrow> bool" where
  "turn_completed m \<longleftrightarrow> a_stopReason m \<noteq> ErrorStop \<and> a_stopReason m \<noteq> Aborted"

record replay_state =
  rp_result :: "provider_message list"
  rp_pendingToolCalls :: "tool_call list"
  rp_pendingTimestamp :: int
  rp_existingToolResultIds :: "string set"

definition replay_init :: replay_state where
  "replay_init = \<lparr>rp_result = [], rp_pendingToolCalls = [], rp_pendingTimestamp = 0,
                  rp_existingToolResultIds = {}\<rparr>"

definition synthetic_tool_result :: "int \<Rightarrow> tool_call \<Rightarrow> tool_result_message" where
  "synthetic_tool_result ts c =
     \<lparr>t_toolCallId = tc_id c, t_toolName = tc_name c,
      t_content = [TextContent ''No result provided'' None], t_details = None,
      t_isError = True, t_timestamp = ts, t_durationMs = None\<rparr>"

definition insertSyntheticToolResults :: "replay_state \<Rightarrow> replay_state" where
  "insertSyntheticToolResults s =
     s\<lparr>rp_result := rp_result s @
         map (\<lambda>c. ProviderToolResult (synthetic_tool_result (rp_pendingTimestamp s) c))
           (filter (\<lambda>c. tc_id c \<notin> rp_existingToolResultIds s) (rp_pendingToolCalls s)),
       rp_pendingToolCalls := [],
       rp_existingToolResultIds := {}\<rparr>"

fun replay_message :: "replay_state \<Rightarrow> provider_message \<Rightarrow> replay_state" where
  "replay_message s (ProviderAssistant m) =
     (let s = insertSyntheticToolResults s in
      if \<not> turn_completed m then
        (case createRejectedToolCallFeedback m of
           Some feedback \<Rightarrow> s\<lparr>rp_result := rp_result s @ [feedback]\<rparr>
         | None \<Rightarrow> s)
      else
        let s = (if tool_calls m \<noteq> [] then
                   s\<lparr>rp_pendingToolCalls := tool_calls m, rp_pendingTimestamp := a_timestamp m,
                     rp_existingToolResultIds := {}\<rparr>
                 else s)
        in s\<lparr>rp_result := rp_result s @ [ProviderAssistant m]\<rparr>)"
| "replay_message s (ProviderToolResult t) =
     (if t_toolCallId t \<notin> rp_existingToolResultIds s
         \<and> (\<exists>c \<in> set (rp_pendingToolCalls s). tc_id c = t_toolCallId t)
      then s\<lparr>rp_existingToolResultIds := insert (t_toolCallId t) (rp_existingToolResultIds s),
             rp_result := rp_result s @ [ProviderToolResult t]\<rparr>
      else s)"
| "replay_message s (ProviderUser c ts i) =
     (let s = insertSyntheticToolResults s
      in s\<lparr>rp_result := rp_result s @ [ProviderUser c ts i]\<rparr>)"

definition applyReplayPolicy :: "provider_message list \<Rightarrow> provider_message list" where
  "applyReplayPolicy ms = rp_result (insertSyntheticToolResults (foldl replay_message replay_init ms))"

section \<open>The context builder\<close>

text \<open>
  \<^verbatim>\<open>packages/agent/src/conversation/context.ts\<close>: the provider messages of a branch. The transform and
  the converter are options of the caller.
\<close>

definition buildContext ::
    "(agent_message list \<Rightarrow> agent_message list) option \<Rightarrow> (agent_message list \<Rightarrow> provider_message list)
     \<Rightarrow> agent_message list \<Rightarrow> provider_message list" where
  "buildContext transformContext convert messages =
     applyReplayPolicy (convert (case transformContext of Some f \<Rightarrow> f messages | None \<Rightarrow> messages))"

section \<open>What a provider accepts\<close>

text \<open>
  \<open>replay_valid out ms\<close>: \<open>ms\<close> answers exactly the calls \<open>out\<close> first, and then every completed turn's
  calls, each exactly once and directly after the turn.
\<close>

fun replay_valid :: "string list \<Rightarrow> provider_message list \<Rightarrow> bool" where
  "replay_valid out [] \<longleftrightarrow> out = []"
| "replay_valid out (ProviderToolResult t # ms) \<longleftrightarrow>
     t_toolCallId t \<in> set out \<and> replay_valid (remove1 (t_toolCallId t) out) ms"
| "replay_valid out (ProviderUser c ts i # ms) \<longleftrightarrow> out = [] \<and> replay_valid [] ms"
| "replay_valid out (ProviderAssistant m # ms) \<longleftrightarrow>
     out = [] \<and> turn_completed m \<and> distinct (map tc_id (tool_calls m))
     \<and> replay_valid (map tc_id (tool_calls m)) ms"

text \<open>The calls of every completed turn have different IDs.\<close>

fun turn_ids_distinct :: "provider_message \<Rightarrow> bool" where
  "turn_ids_distinct (ProviderAssistant m) = (turn_completed m \<longrightarrow> distinct (map tc_id (tool_calls m)))"
| "turn_ids_distinct _ = True"

text \<open>What the policy makes of a message other than a tool result.\<close>

fun replay_turn :: "provider_message \<Rightarrow> provider_message list" where
  "replay_turn (ProviderAssistant m) =
     (if turn_completed m then [ProviderAssistant m]
      else case createRejectedToolCallFeedback m of Some f \<Rightarrow> [f] | None \<Rightarrow> [])"
| "replay_turn (ProviderToolResult t) = []"
| "replay_turn (ProviderUser c ts i) = [ProviderUser c ts i]"

fun is_tool_result :: "provider_message \<Rightarrow> bool" where
  "is_tool_result (ProviderToolResult _) = True"
| "is_tool_result _ = False"

section \<open>The policy as a recursion\<close>

text \<open>
  The rest of the output from a state of the loop, without the accumulator: the form the
  inductions use.
\<close>

definition missing_results :: "tool_call list \<Rightarrow> int \<Rightarrow> string set \<Rightarrow> provider_message list" where
  "missing_results p ts ex =
     map (\<lambda>c. ProviderToolResult (synthetic_tool_result ts c)) (filter (\<lambda>c. tc_id c \<notin> ex) p)"

fun replay_rest :: "tool_call list \<Rightarrow> int \<Rightarrow> string set \<Rightarrow> provider_message list \<Rightarrow> provider_message list" where
  "replay_rest p ts ex [] = missing_results p ts ex"
| "replay_rest p ts ex (ProviderAssistant m # ms) =
     missing_results p ts ex @ replay_turn (ProviderAssistant m)
     @ (if turn_completed m \<and> tool_calls m \<noteq> [] then replay_rest (tool_calls m) (a_timestamp m) {} ms
        else replay_rest [] ts {} ms)"
| "replay_rest p ts ex (ProviderToolResult t # ms) =
     (if t_toolCallId t \<notin> ex \<and> t_toolCallId t \<in> set (map tc_id p)
      then ProviderToolResult t # replay_rest p ts (insert (t_toolCallId t) ex) ms
      else replay_rest p ts ex ms)"
| "replay_rest p ts ex (ProviderUser c uts i # ms) =
     missing_results p ts ex @ ProviderUser c uts i # replay_rest [] ts {} ms"

lemma missing_results_Nil [simp]: "missing_results [] ts ex = []"
  by (simp add: missing_results_def)

lemma insertSyntheticToolResults_fields [simp]:
  "rp_result (insertSyntheticToolResults s) = rp_result s
     @ missing_results (rp_pendingToolCalls s) (rp_pendingTimestamp s) (rp_existingToolResultIds s)"
  "rp_pendingToolCalls (insertSyntheticToolResults s) = []"
  "rp_pendingTimestamp (insertSyntheticToolResults s) = rp_pendingTimestamp s"
  "rp_existingToolResultIds (insertSyntheticToolResults s) = {}"
  by (simp_all add: insertSyntheticToolResults_def missing_results_def)

lemma foldl_replay:
  "rp_result (insertSyntheticToolResults (foldl replay_message s ms)) =
   rp_result s @ replay_rest (rp_pendingToolCalls s) (rp_pendingTimestamp s) (rp_existingToolResultIds s) ms"
proof (induction ms arbitrary: s)
  case Nil
  show ?case by simp
next
  case (Cons m ms)
  show ?case
  proof (cases m)
    case (ProviderToolResult t)
    then show ?thesis by (auto simp: Cons.IH image_iff Bex_def simp del: insertSyntheticToolResults_fields)
  next
    case (ProviderAssistant a)
    then show ?thesis
      using Cons.IH [unfolded insertSyntheticToolResults_fields]
      by (cases "createRejectedToolCallFeedback a") (simp_all add: Let_def)
  next
    case (ProviderUser c ts i)
    then show ?thesis using Cons.IH [unfolded insertSyntheticToolResults_fields] by (simp add: Let_def)
  qed
qed

lemma applyReplayPolicy_rest: "applyReplayPolicy ms = replay_rest [] 0 {} ms"
  by (simp add: applyReplayPolicy_def foldl_replay replay_init_def del: insertSyntheticToolResults_fields)

section \<open>The output is valid\<close>

lemma replay_valid_missing:
  assumes "distinct (map tc_id p)"
  shows "replay_valid (filter (\<lambda>i. i \<notin> ex) (map tc_id p)) (missing_results p ts ex @ ms) \<longleftrightarrow> replay_valid [] ms"
  using assms by (induction p) (auto simp: missing_results_def synthetic_tool_result_def)

lemma filter_insert_remove1:
  "distinct xs \<Longrightarrow> remove1 x (filter (\<lambda>i. i \<notin> ex) xs) = filter (\<lambda>i. i \<noteq> x \<and> i \<notin> ex) xs"
  by (simp add: distinct_remove1_removeAll removeAll_filter_not_eq conj_commute neq_commute [of x])

lemma feedback_user: "createRejectedToolCallFeedback m = Some f \<Longrightarrow> \<exists>c ts. f = ProviderUser c ts None"
  by (auto simp: createRejectedToolCallFeedback_def Let_def split: if_splits option.splits)

lemma replay_valid_turn:
  "\<not> turn_completed m \<Longrightarrow> replay_valid [] (replay_turn (ProviderAssistant m) @ ms) \<longleftrightarrow> replay_valid [] ms"
  by (auto split: option.splits dest: feedback_user)

lemma replay_valid_completed:
  "turn_completed m \<Longrightarrow> replay_valid [] (replay_turn (ProviderAssistant m) @ ms) \<longleftrightarrow>
     distinct (map tc_id (tool_calls m)) \<and> replay_valid (map tc_id (tool_calls m)) ms"
  by simp

lemma replay_rest_valid:
  assumes "distinct (map tc_id p)" "\<forall>m \<in> set ms. turn_ids_distinct m"
  shows "replay_valid (filter (\<lambda>i. i \<notin> ex) (map tc_id p)) (replay_rest p ts ex ms)"
  using assms
proof (induction p ts ex ms rule: replay_rest.induct)
  case (1 p ts ex)
  then show ?case using replay_valid_missing [of p ex ts "[]"] by simp
next
  case (2 p ts ex m ms)
  then show ?case
    by (cases "turn_completed m"; cases "tool_calls m = []")
      (auto simp: replay_valid_missing replay_valid_turn replay_valid_completed
        simp del: replay_turn.simps)
next
  case (3 p ts ex t ms)
  then show ?case by (auto simp: filter_insert_remove1)
next
  case (4 p ts ex c uts i ms)
  then show ?case by (simp add: replay_valid_missing)
qed

lemma replay_rest_fixed:
  assumes "distinct (map tc_id p)" "replay_valid (filter (\<lambda>i. i \<notin> ex) (map tc_id p)) ms"
  shows "replay_rest p ts ex ms = ms"
  using assms
proof (induction p ts ex ms rule: replay_rest.induct)
  case (1 p ts ex)
  then show ?case by (auto simp: missing_results_def filter_empty_conv)
next
  case (2 p ts ex m ms)
  then show ?case
    by (auto simp: missing_results_def filter_empty_conv)
next
  case (3 p ts ex t ms)
  then show ?case by (auto simp: filter_insert_remove1)
next
  case (4 p ts ex c uts i ms)
  then show ?case by (auto simp: missing_results_def filter_empty_conv)
qed

lemma applyReplayPolicy_valid:
  assumes "\<forall>m \<in> set ms. turn_ids_distinct m"
  shows "replay_valid [] (applyReplayPolicy ms)"
  using replay_rest_valid [of "[]" ms "{}" 0] assms by (simp add: applyReplayPolicy_rest)

lemma applyReplayPolicy_fixed: "replay_valid [] ms \<Longrightarrow> applyReplayPolicy ms = ms"
  using replay_rest_fixed [of "[]" "{}" ms 0] by (simp add: applyReplayPolicy_rest)

lemma filter_missing [simp]: "filter (\<lambda>m. \<not> is_tool_result m) (missing_results p ts ex) = []"
  by (auto simp: missing_results_def filter_empty_conv)

lemma filter_replay_turn [simp]:
  "filter (\<lambda>m. \<not> is_tool_result m) (replay_turn m) = replay_turn m"
  by (cases m) (auto split: option.splits dest: feedback_user)

lemma replay_rest_turns:
  "filter (\<lambda>m. \<not> is_tool_result m) (replay_rest p ts ex ms) = concat (map replay_turn ms)"
  by (induction p ts ex ms rule: replay_rest.induct) (simp_all del: replay_turn.simps(1))

end
