(* ===== verification/Agent_Host.thy ===== *)
theory Agent_Host
  imports Replay_Policy
begin

text \<open>
  What the agent loop works on (\<^verbatim>\<open>packages/agent/src/types.ts\<close>) and the code it calls. The loop is
  asynchronous and calls its host at every step: the dispatcher, the delivery settlement, the request
  preparation, the provider stream, the tools and their hooks, the event sink and the abort signal. The
  host is a record of functions over a host state of any type: each call returns its value, or the
  message it throws, and the next host state. The signal is read from the host state, so it can change
  at every call. An action of the loop is a function from \<open>loop_state\<close> to a value or an error and the
  next state; the state keeps the context, the new messages and the trace of what the loop did.
\<close>

section \<open>Tools and their results\<close>

datatype tool_execution_mode = SequentialMode | ParallelMode

datatype tool_disposition = StopTools | FinalResponseTools

datatype batch_disposition = BatchContinue | BatchStop | BatchFinalResponse

record agent_tool =
  at_name :: string
  at_executionMode :: "tool_execution_mode option"

record agent_tool_result =
  ar_content :: "content_block list"
  ar_isError :: "bool option"
  ar_disposition :: "tool_disposition option"
  ar_details :: "json option"

record before_tool_call_result =
  bt_block :: bool
  bt_reason :: "string option"

record after_tool_call_result =
  af_content :: "content_block list option"
  af_details :: "json option"
  af_isError :: "bool option"
  af_disposition :: "tool_disposition option"

section \<open>Context, deliveries and decisions\<close>

record agent_context =
  ac_systemPrompt :: string
  ac_messages :: "agent_message list"
  ac_tools :: "agent_tool list option"

record agent_loop_delivery =
  al_deliveryId :: "string option"
  al_messages :: "agent_message list"

datatype delivery_outcome =
    OutcomeCommitted
  | OutcomeRetained string
  | OutcomeRevoked
  | OutcomeTerminallyFailed string

datatype request_reason = DeliveryReason | ContinuationReason | FinalResponseReason

datatype request_authority = ProviderAuthority | ToolContinuation | FinalResponseAuthority

datatype next_action =
    RequestAction request_reason "agent_loop_delivery list option"
  | PauseAction "request_authority option"
  | StopAction

record loop_completed_turn =
  lt_message :: assistant_message
  lt_toolResults :: "tool_result_message list"
  lt_disposition :: batch_disposition

record next_action_context =
  nc_context :: agent_context
  nc_newMessages :: "agent_message list"
  nc_completedTurn :: "loop_completed_turn option"
  nc_requestAuthority :: request_authority
  nc_defaultAction :: next_action

record prepare_request_context = next_action_context +
  pc_reason :: request_reason
  pc_deliveries :: "agent_loop_delivery list"

record request_model =
  md_api :: string
  md_provider :: string
  md_id :: string

record request_update =
  ru_context :: "agent_context option"
  ru_model :: "request_model option"
  ru_thinkingLevel :: "thinking_level option"

record before_tool_call_context =
  bc_assistantMessage :: assistant_message
  bc_toolCall :: tool_call
  bc_args :: json
  bc_context :: agent_context

record after_tool_call_context = before_tool_call_context +
  fc_result :: agent_tool_result
  fc_isError :: bool

section \<open>Events\<close>

text \<open>The provider's events; \<open>StreamBlock\<close> covers the nine block events, which the loop treats alike.\<close>

datatype stream_block =
    TextStart | TextDelta string | TextEnd string
  | ThinkingStart "bool option" | ThinkingDelta string | ThinkingEnd string "bool option"
  | ToolCallStart string string | ToolCallDelta string "string option" "string option"
  | ToolCallEnd tool_call

datatype assistant_message_event =
    StreamStart nat assistant_message json
  | StreamBlock stream_block nat nat assistant_message json
  | StreamDone nat stop_reason assistant_message
  | StreamError nat stop_reason assistant_message

datatype agent_event =
    AgentStart
  | AgentEnd "agent_message list"
  | TurnStart
  | TurnEnd agent_message "tool_result_message list"
  | DeliveryStart "string option" "agent_message list"
  | MessageStart agent_message "string option"
  | MessageUpdate agent_message assistant_message_event
  | MessageEnd agent_message "string option"
  | ToolExecutionStart string string json
  | ToolExecutionUpdate string string json agent_tool_result
  | ToolExecutionEnd string string agent_tool_result bool

section \<open>The host\<close>

record llm_context =
  lc_systemPrompt :: string
  lc_messages :: "provider_message list"
  lc_tools :: "agent_tool list option"

text \<open>
  A provider stream: the events it yields, whether iterating it fails after them, and what its
  \<open>result\<close> settles with.
\<close>

record stream_response =
  sr_events :: "assistant_message_event list"
  sr_failure :: "string option"
  sr_result :: "string + assistant_message"

text \<open>A run of a tool: the partial results it reports while it accepts updates, and how it settles.\<close>

record tool_run =
  tr_updates :: "agent_tool_result list"
  tr_settled :: "string + agent_tool_result"

type_synonym ('h, 'a) host_call = "'h \<Rightarrow> (string + 'a) \<times> 'h"

record 'h agent_host =
  h_aborted :: "'h \<Rightarrow> bool"
  h_now :: "'h \<Rightarrow> int \<times> 'h"
  h_emit :: "agent_event \<Rightarrow> ('h, agent_message option) host_call"
  h_nextAction :: "(next_action_context \<Rightarrow> ('h, next_action) host_call) option"
  h_beginDelivery :: "(agent_loop_delivery \<Rightarrow> ('h, delivery_outcome) host_call) option"
  h_prepareRequest :: "(prepare_request_context \<Rightarrow> ('h, request_update option) host_call) option"
  h_transformContext :: "(agent_message list \<Rightarrow> ('h, agent_message list) host_call) option"
  h_convertToLlm :: "agent_message list \<Rightarrow> ('h, provider_message list) host_call"
  h_streamFn :: "request_model \<Rightarrow> thinking_level option \<Rightarrow> llm_context \<Rightarrow> ('h, stream_response) host_call"
  h_toolExecution :: "tool_execution_mode option"
  h_prepareArguments :: "agent_tool \<Rightarrow> (json \<Rightarrow> string + json) option"
  h_validateToolArguments :: "agent_tool \<Rightarrow> tool_call \<Rightarrow> string + json"
  h_beforeToolCall :: "(before_tool_call_context \<Rightarrow> ('h, before_tool_call_result option) host_call) option"
  h_execute :: "agent_tool \<Rightarrow> string \<Rightarrow> json \<Rightarrow> 'h \<Rightarrow> tool_run \<times> 'h"
  h_afterToolCall :: "(after_tool_call_context \<Rightarrow> ('h, after_tool_call_result option) host_call) option"
  h_schedule :: "nat list \<Rightarrow> 'h \<Rightarrow> nat \<times> 'h"

text \<open>
  \<open>h_schedule\<close> is the order in which the runtime resumes tool calls that run at the same time: given
  the positions of the calls that have not ended it chooses one.
\<close>

section \<open>Actions\<close>

datatype delivery_failure = FailRetained | FailTerminally

datatype agent_error =
    AgentDeliverySettlementError delivery_failure "string option" string
  | AssistantTailError
  | ReplacementRoleError
  | NoMessagesError
  | HostError string

text \<open>What the loop did, in order; the flag of a step is the abort signal when the step was taken.\<close>

datatype loop_action =
    Emitted agent_event
  | Began agent_loop_delivery
  | Requested request_model llm_context
  | Executed agent_tool tool_call

record 'h loop_state =
  ls_host :: 'h
  ls_context :: agent_context
  ls_newMessages :: "agent_message list"
  ls_model :: request_model
  ls_reasoning :: "thinking_level option"
  ls_trace :: "(bool \<times> loop_action) list"

type_synonym ('h, 'a) act = "'h loop_state \<Rightarrow> (agent_error + 'a) \<times> 'h loop_state"

definition ret :: "'a \<Rightarrow> ('h, 'a) act" where
  "ret a s = (Inr a, s)"

definition raise :: "agent_error \<Rightarrow> ('h, 'a) act" where
  "raise e s = (Inl e, s)"

definition bnd :: "('h, 'a) act \<Rightarrow> ('a \<Rightarrow> ('h, 'b) act) \<Rightarrow> ('h, 'b) act" where
  "bnd m f s = (case m s of (Inl e, s') \<Rightarrow> (Inl e, s') | (Inr a, s') \<Rightarrow> f a s')"

definition read_state :: "('h loop_state \<Rightarrow> 'a) \<Rightarrow> ('h, 'a) act" where
  "read_state f s = (Inr (f s), s)"

definition update_state :: "('h loop_state \<Rightarrow> 'h loop_state) \<Rightarrow> ('h, unit) act" where
  "update_state f s = (Inr (), f s)"

fun for_each :: "('x \<Rightarrow> ('h, 'a) act) \<Rightarrow> 'x list \<Rightarrow> ('h, 'a list) act" where
  "for_each f [] = ret []"
| "for_each f (x # xs) = bnd (f x) (\<lambda>a. bnd (for_each f xs) (\<lambda>as. ret (a # as)))"

definition host_call :: "('h, 'a) host_call \<Rightarrow> ('h, 'a) act" where
  "host_call f s =
     (case f (ls_host s) of
        (Inl e, h) \<Rightarrow> (Inl (HostError e), s\<lparr>ls_host := h\<rparr>)
      | (Inr a, h) \<Rightarrow> (Inr a, s\<lparr>ls_host := h\<rparr>))"

text \<open>A call whose failure the loop catches.\<close>

definition try_call :: "('h, 'a) host_call \<Rightarrow> ('h, string + 'a) act" where
  "try_call f s = (case f (ls_host s) of (r, h) \<Rightarrow> (Inr r, s\<lparr>ls_host := h\<rparr>))"

definition host_step :: "('h \<Rightarrow> 'a \<times> 'h) \<Rightarrow> ('h, 'a) act" where
  "host_step f s = (case f (ls_host s) of (a, h) \<Rightarrow> (Inr a, s\<lparr>ls_host := h\<rparr>))"

definition aborted :: "'h agent_host \<Rightarrow> ('h, bool) act" where
  "aborted H = read_state (\<lambda>s. h_aborted H (ls_host s))"

definition record_action :: "'h agent_host \<Rightarrow> loop_action \<Rightarrow> ('h, unit) act" where
  "record_action H a =
     update_state (\<lambda>s. s\<lparr>ls_trace := ls_trace s @ [(h_aborted H (ls_host s), a)]\<rparr>)"

definition emit :: "'h agent_host \<Rightarrow> agent_event \<Rightarrow> ('h, agent_message option) act" where
  "emit H e = bnd (record_action H (Emitted e)) (\<lambda>_. host_call (h_emit H e))"

definition push_message :: "agent_message \<Rightarrow> ('h, unit) act" where
  "push_message m =
     update_state (\<lambda>s. s\<lparr>ls_context := (ls_context s)\<lparr>ac_messages := ac_messages (ls_context s) @ [m]\<rparr>\<rparr>)"

definition replace_last :: "'a list \<Rightarrow> 'a \<Rightarrow> 'a list" where
  "replace_last xs x = (if xs = [] then [] else butlast xs @ [x])"

definition set_last_message :: "agent_message \<Rightarrow> ('h, unit) act" where
  "set_last_message m =
     update_state (\<lambda>s. s\<lparr>ls_context := (ls_context s)\<lparr>ac_messages := replace_last (ac_messages (ls_context s)) m\<rparr>\<rparr>)"

definition push_new_message :: "agent_message \<Rightarrow> ('h, unit) act" where
  "push_new_message m = update_state (\<lambda>s. s\<lparr>ls_newMessages := ls_newMessages s @ [m]\<rparr>)"

end
