(* ===== verification/Agent_Loop.thy ===== *)
theory Agent_Loop
  imports Agent_Host
begin

text \<open>
  The agent loop (\<^verbatim>\<open>packages/agent/src/agent-loop.ts\<close>), one definition per function of the file and
  \<open>runDispatchedLoop\<close> cut at its phases. Tool calls that run at the same time are a list of
  \<open>tool_phase\<close>s that the host's schedule advances one step at a time.
\<close>

section \<open>Message replacement\<close>

datatype message_role = UserRole | AssistantRole | ToolResultRole | BashExecutionRole | CustomRole
  | BranchSummaryRole | CompactionSummaryRole

fun role :: "agent_message \<Rightarrow> message_role" where
  "role (Stored (UserMessage _)) = UserRole"
| "role (Stored (AssistantMessage _)) = AssistantRole"
| "role (Stored (ToolResultMessage _)) = ToolResultRole"
| "role (Stored (BashExecutionMessage _)) = BashExecutionRole"
| "role (Stored (CustomMessage _)) = CustomRole"
| "role (ClientUser _ _) = UserRole"
| "role (EntryCustom _ _ _ _ _) = CustomRole"
| "role (BranchSummaryMessage _ _ _) = BranchSummaryRole"
| "role (CompactionSummaryMessage _ _ _) = CompactionSummaryRole"

abbreviation assistant :: "assistant_message \<Rightarrow> agent_message" where
  "assistant m \<equiv> Stored (AssistantMessage m)"

abbreviation tool_result :: "tool_result_message \<Rightarrow> agent_message" where
  "tool_result t \<equiv> Stored (ToolResultMessage t)"

definition resolveMessageReplacement ::
    "agent_message \<Rightarrow> agent_message option \<Rightarrow> ('h, agent_message) act" where
  "resolveMessageReplacement message replacement =
     (case replacement of
        None \<Rightarrow> ret message
      | Some r \<Rightarrow> if role r \<noteq> role message then raise ReplacementRoleError else ret r)"

text \<open>
  The casts to the static type of the message: a message with the role of an assistant or of a tool
  result is one, so the other branch is never taken.
\<close>

definition as_assistant :: "agent_message \<Rightarrow> ('h, assistant_message) act" where
  "as_assistant m = (case m of Stored (AssistantMessage a) \<Rightarrow> ret a | _ \<Rightarrow> raise ReplacementRoleError)"

definition as_tool_result :: "agent_message \<Rightarrow> ('h, tool_result_message) act" where
  "as_tool_result m = (case m of Stored (ToolResultMessage t) \<Rightarrow> ret t | _ \<Rightarrow> raise ReplacementRoleError)"

definition emitCompletedMessage ::
    "'h agent_host \<Rightarrow> agent_message \<Rightarrow> string option \<Rightarrow> ('h, agent_message) act" where
  "emitCompletedMessage H message deliveryId =
     bnd (emit H (MessageStart message deliveryId)) (\<lambda>_.
     bnd (emit H (MessageEnd message deliveryId)) (\<lambda>replacement.
     resolveMessageReplacement message replacement))"

definition emit_tool_result :: "'h agent_host \<Rightarrow> tool_result_message \<Rightarrow> ('h, tool_result_message) act" where
  "emit_tool_result H t = bnd (emitCompletedMessage H (tool_result t) None) as_tool_result"

section \<open>Aborted messages\<close>

definition createProviderError_aborted :: json where
  "createProviderError_aborted =
     JObj [(''kind'', JStr ''aborted''), (''retryable'', JBool False), (''message'', JStr ''Request was aborted'')]"

definition zero_usage :: json where
  "zero_usage = JObj [(''input'', JNum 0), (''output'', JNum 0), (''cacheRead'', JNum 0), (''cacheWrite'', JNum 0),
     (''totalTokens'', JNum 0),
     (''cost'', JObj [(''input'', JNum 0), (''output'', JNum 0), (''cacheRead'', JNum 0), (''cacheWrite'', JNum 0),
                   (''total'', JNum 0)])]"

definition aborted_message :: "request_model \<Rightarrow> int \<Rightarrow> assistant_message" where
  "aborted_message md ts =
     \<lparr>a_content = [AText '''' None], a_api = md_api md, a_provider = md_provider md, a_model = md_id md,
      a_responseModel = None, a_responseId = None, a_diagnostics = None, a_usage = zero_usage,
      a_stopReason = Aborted, a_error = Some createProviderError_aborted, a_timestamp = ts\<rparr>"

definition emitBoundaryAbort :: "'h agent_host \<Rightarrow> ('h, unit) act" where
  "emitBoundaryAbort H =
     bnd (read_state ls_model) (\<lambda>md.
     bnd (host_step (h_now H)) (\<lambda>now.
     let marker = assistant (aborted_message md now) in
     bnd (emit H TurnStart) (\<lambda>_.
     bnd (emit H (MessageStart marker None)) (\<lambda>_.
     bnd (emit H (MessageEnd marker None)) (\<lambda>replacement.
     bnd (resolveMessageReplacement marker replacement) (\<lambda>finalizedMarker.
     bnd (push_message finalizedMarker) (\<lambda>_.
     bnd (push_new_message finalizedMarker) (\<lambda>_.
     bnd (emit H (TurnEnd finalizedMarker [])) (\<lambda>_.
     ret ())))))))))"

definition emit_agent_end :: "'h agent_host \<Rightarrow> ('h, unit) act" where
  "emit_agent_end H =
     bnd (read_state ls_newMessages) (\<lambda>messages. bnd (emit H (AgentEnd messages)) (\<lambda>_. ret ()))"

section \<open>Deliveries\<close>

definition deliver_message :: "'h agent_host \<Rightarrow> string option \<Rightarrow> agent_message \<Rightarrow> ('h, agent_message) act" where
  "deliver_message H deliveryId message =
     bnd (emitCompletedMessage H message deliveryId) (\<lambda>finalizedMessage.
     bnd (push_message finalizedMessage) (\<lambda>_.
     bnd (push_new_message finalizedMessage) (\<lambda>_.
     ret finalizedMessage)))"

definition begin_delivery :: "'h agent_host \<Rightarrow> agent_loop_delivery \<Rightarrow> ('h, delivery_outcome) act" where
  "begin_delivery H d =
     (case h_beginDelivery H of
        None \<Rightarrow> ret OutcomeCommitted
      | Some f \<Rightarrow> bnd (record_action H (Began d)) (\<lambda>_. host_call (f d)))"

text \<open>One delivery: \<open>None\<close> when it is skipped.\<close>

definition emit_delivery :: "'h agent_host \<Rightarrow> agent_loop_delivery \<Rightarrow> ('h, agent_loop_delivery option) act" where
  "emit_delivery H d =
     bnd (aborted H) (\<lambda>ab.
     if ab then ret None
     else bnd (begin_delivery H d) (\<lambda>settlement.
       case settlement of
         OutcomeRevoked \<Rightarrow> ret None
       | OutcomeRetained e \<Rightarrow> raise (AgentDeliverySettlementError FailRetained (al_deliveryId d) e)
       | OutcomeTerminallyFailed e \<Rightarrow> raise (AgentDeliverySettlementError FailTerminally (al_deliveryId d) e)
       | OutcomeCommitted \<Rightarrow>
           bnd (emit H (DeliveryStart (al_deliveryId d) (al_messages d))) (\<lambda>_.
           bnd (for_each (deliver_message H (al_deliveryId d)) (al_messages d)) (\<lambda>finalizedMessages.
           ret (Some (d\<lparr>al_messages := finalizedMessages\<rparr>))))))"

definition emitDeliveries :: "'h agent_host \<Rightarrow> agent_loop_delivery list \<Rightarrow> ('h, agent_loop_delivery list) act" where
  "emitDeliveries H ds = bnd (for_each (emit_delivery H) ds) (\<lambda>rs. ret (List.map_filter (\<lambda>r. r) rs))"

section \<open>The provider stream\<close>

text \<open>The part after the last event, shared by the terminal events and the end of the iteration.\<close>

definition finish_stream :: "'h agent_host \<Rightarrow> stream_response \<Rightarrow> bool \<Rightarrow> ('h, assistant_message) act" where
  "finish_stream H response addedPartial =
     (case sr_result response of
        Inl e \<Rightarrow> raise (HostError e)
      | Inr finalMessage \<Rightarrow>
          bnd (if addedPartial then set_last_message (assistant finalMessage)
               else push_message (assistant finalMessage)) (\<lambda>_.
          bnd (if addedPartial then ret None else emit H (MessageStart (assistant finalMessage) None)) (\<lambda>_.
          bnd (emit H (MessageEnd (assistant finalMessage) None)) (\<lambda>replacement.
          bnd (resolveMessageReplacement (assistant finalMessage) replacement) (\<lambda>emittedMessage.
          bnd (set_last_message emittedMessage) (\<lambda>_.
          as_assistant emittedMessage))))))"

fun stream_events ::
    "'h agent_host \<Rightarrow> stream_response \<Rightarrow> bool \<Rightarrow> assistant_message_event list \<Rightarrow> ('h, assistant_message) act" where
  "stream_events H response addedPartial [] =
     (case sr_failure response of
        Some e \<Rightarrow> raise (HostError e)
      | None \<Rightarrow> finish_stream H response addedPartial)"
| "stream_events H response addedPartial (StreamStart q snapshot st # es) =
     bnd (push_message (assistant snapshot)) (\<lambda>_.
     bnd (emit H (MessageStart (assistant snapshot) None)) (\<lambda>_.
     stream_events H response True es))"
| "stream_events H response addedPartial (StreamBlock b q i snapshot st # es) =
     (if addedPartial then
        bnd (set_last_message (assistant snapshot)) (\<lambda>_.
        bnd (emit H (MessageUpdate (assistant snapshot) (StreamBlock b q i snapshot st))) (\<lambda>_.
        stream_events H response True es))
      else stream_events H response False es)"
| "stream_events H response addedPartial (StreamDone q r m # es) = finish_stream H response addedPartial"
| "stream_events H response addedPartial (StreamError q r m # es) = finish_stream H response addedPartial"

fun assistant_tail :: "provider_message list \<Rightarrow> bool" where
  "assistant_tail [] = False"
| "assistant_tail [ProviderAssistant m] = True"
| "assistant_tail [_] = False"
| "assistant_tail (_ # ms) = assistant_tail ms"

definition transform_context :: "'h agent_host \<Rightarrow> agent_message list \<Rightarrow> ('h, agent_message list) act" where
  "transform_context H messages =
     (case h_transformContext H of None \<Rightarrow> ret messages | Some f \<Rightarrow> host_call (f messages))"

text \<open>
  The caller's policy always cancels on a preflight abort and validates the provider's tail. \<open>None\<close> is
  the preflight abort. The context's messages are the loop's, its prompt and tools the caller's.
\<close>

definition streamAssistantResponse ::
    "'h agent_host \<Rightarrow> string \<Rightarrow> agent_tool list option \<Rightarrow> ('h, assistant_message option) act" where
  "streamAssistantResponse H systemPrompt tools =
     bnd (read_state (\<lambda>s. ac_messages (ls_context s))) (\<lambda>contextMessages.
     bnd (transform_context H contextMessages) (\<lambda>messages.
     bnd (aborted H) (\<lambda>ab. if ab then ret None else
     bnd (host_call (h_convertToLlm H messages)) (\<lambda>llmMessages.
     bnd (aborted H) (\<lambda>ab. if ab then ret None else
     if assistant_tail llmMessages then raise AssistantTailError else
     bnd (read_state ls_model) (\<lambda>md.
     bnd (read_state ls_reasoning) (\<lambda>reasoning.
     let llmContext = \<lparr>lc_systemPrompt = systemPrompt, lc_messages = applyReplayPolicy llmMessages,
                       lc_tools = tools\<rparr> in
     bnd (aborted H) (\<lambda>ab. if ab then ret None else
     bnd (record_action H (Requested md llmContext)) (\<lambda>_.
     bnd (host_call (h_streamFn H md reasoning llmContext)) (\<lambda>response.
     bnd (stream_events H response False (sr_events response)) (\<lambda>m.
     ret (Some m))))))))))))"

section \<open>Preparing a tool call\<close>

record prepared_tool_call =
  pt_toolCall :: tool_call
  pt_tool :: agent_tool
  pt_args :: json

datatype tool_preparation =
    PreparedCall prepared_tool_call
  | ImmediateOutcome agent_tool_result bool

record finalized_tool_call =
  ft_toolCall :: tool_call
  ft_result :: agent_tool_result
  ft_isError :: bool

record ended_tool_call = finalized_tool_call +
  et_durationMs :: nat

definition createErrorToolResult :: "string \<Rightarrow> agent_tool_result" where
  "createErrorToolResult message =
     \<lparr>ar_content = [TextContent message None], ar_isError = None, ar_disposition = None,
      ar_details = Some (JObj [])\<rparr>"

definition prepareToolCallArguments ::
    "'h agent_host \<Rightarrow> agent_tool \<Rightarrow> tool_call \<Rightarrow> string + tool_call" where
  "prepareToolCallArguments H tool toolCall =
     (case h_prepareArguments H tool of
        None \<Rightarrow> Inr toolCall
      | Some f \<Rightarrow> res_bind (f (tc_arguments toolCall)) (\<lambda>args. Inr (toolCall\<lparr>tc_arguments := args\<rparr>)))"

definition find_tool :: "agent_tool list option \<Rightarrow> string \<Rightarrow> agent_tool option" where
  "find_tool tools name = (case tools of None \<Rightarrow> None | Some ts \<Rightarrow> List.find (\<lambda>t. at_name t = name) ts)"

definition immediate_error :: "string \<Rightarrow> ('h, tool_preparation) act" where
  "immediate_error message = ret (ImmediateOutcome (createErrorToolResult message) True)"

definition non_empty_reason :: "string option \<Rightarrow> string" where
  "non_empty_reason r = (case r of
       Some t \<Rightarrow> if t \<noteq> '''' then t else ''Tool execution was blocked''
     | None \<Rightarrow> ''Tool execution was blocked'')"

definition call_beforeToolCall ::
    "'h agent_host \<Rightarrow> assistant_message \<Rightarrow> tool_call \<Rightarrow> json \<Rightarrow> agent_context
     \<Rightarrow> ('h, string + before_tool_call_result option) act" where
  "call_beforeToolCall H assistantMessage toolCall args context =
     (case h_beforeToolCall H of
        None \<Rightarrow> ret (Inr None)
      | Some f \<Rightarrow> try_call (f \<lparr>bc_assistantMessage = assistantMessage, bc_toolCall = toolCall,
                               bc_args = args, bc_context = context\<rparr>))"

definition prepareToolCall ::
    "'h agent_host \<Rightarrow> assistant_message \<Rightarrow> tool_call \<Rightarrow> ('h, tool_preparation) act" where
  "prepareToolCall H assistantMessage toolCall =
     bnd (read_state ls_context) (\<lambda>context.
     case find_tool (ac_tools context) (tc_name toolCall) of
       None \<Rightarrow> immediate_error (''Tool '' @ tc_name toolCall @ '' not found'')
     | Some tool \<Rightarrow>
       (case res_bind (prepareToolCallArguments H tool toolCall) (h_validateToolArguments H tool) of
          Inl e \<Rightarrow> immediate_error e
        | Inr validatedArgs \<Rightarrow>
            bnd (call_beforeToolCall H assistantMessage toolCall validatedArgs context) (\<lambda>before.
            case before of
              Inl e \<Rightarrow> immediate_error e
            | Inr beforeResult \<Rightarrow>
                bnd (aborted H) (\<lambda>ab.
                if ab then immediate_error ''Operation aborted''
                else case beforeResult of
                  Some b \<Rightarrow>
                    if bt_block b then immediate_error (non_empty_reason (bt_reason b))
                    else ret (PreparedCall \<lparr>pt_toolCall = toolCall, pt_tool = tool, pt_args = validatedArgs\<rparr>)
                | None \<Rightarrow> ret (PreparedCall \<lparr>pt_toolCall = toolCall, pt_tool = tool, pt_args = validatedArgs\<rparr>)))))"

section \<open>Executing a tool call\<close>

definition execution_outcome :: "string + agent_tool_result \<Rightarrow> agent_tool_result \<times> bool" where
  "execution_outcome settled =
     (case settled of
        Inl e \<Rightarrow> (createErrorToolResult e, True)
      | Inr result \<Rightarrow> (result, ar_isError result = Some True))"

text \<open>\<open>executePreparedToolCall\<close> up to the call of the tool, which an aborted signal prevents.\<close>

definition start_execution :: "'h agent_host \<Rightarrow> prepared_tool_call \<Rightarrow> ('h, tool_run) act" where
  "start_execution H prepared =
     bnd (aborted H) (\<lambda>ab.
     if ab then ret \<lparr>tr_updates = [], tr_settled = Inl ''Operation aborted''\<rparr>
     else bnd (record_action H (Executed (pt_tool prepared) (pt_toolCall prepared))) (\<lambda>_.
          host_step (h_execute H (pt_tool prepared) (tc_id (pt_toolCall prepared)) (pt_args prepared))))"

text \<open>
  A partial result: the sink's failure is kept until the tool settles, as the promise of the event is.
\<close>

definition emit_update ::
    "'h agent_host \<Rightarrow> prepared_tool_call \<Rightarrow> string option \<Rightarrow> agent_tool_result \<Rightarrow> ('h, string option) act" where
  "emit_update H prepared failure partialResult =
     (let c = pt_toolCall prepared;
          e = ToolExecutionUpdate (tc_id c) (tc_name c) (tc_arguments c) partialResult in
      bnd (record_action H (Emitted e)) (\<lambda>_.
      bnd (try_call (h_emit H e)) (\<lambda>r.
      ret (case (failure, r) of (None, Inl err) \<Rightarrow> Some err | _ \<Rightarrow> failure))))"

fun emit_updates ::
    "'h agent_host \<Rightarrow> prepared_tool_call \<Rightarrow> string option \<Rightarrow> agent_tool_result list \<Rightarrow> ('h, string option) act" where
  "emit_updates H prepared failure [] = ret failure"
| "emit_updates H prepared failure (u # us) =
     bnd (emit_update H prepared failure u) (\<lambda>f. emit_updates H prepared f us)"

definition settle_updates :: "string option \<Rightarrow> 'a \<Rightarrow> ('h, 'a) act" where
  "settle_updates failure a = (case failure of Some e \<Rightarrow> raise (HostError e) | None \<Rightarrow> ret a)"

definition executePreparedToolCall ::
    "'h agent_host \<Rightarrow> prepared_tool_call \<Rightarrow> ('h, agent_tool_result \<times> bool) act" where
  "executePreparedToolCall H prepared =
     bnd (start_execution H prepared) (\<lambda>run.
     bnd (emit_updates H prepared None (tr_updates run)) (\<lambda>failure.
     settle_updates failure (execution_outcome (tr_settled run))))"

text \<open>The field-by-field merge of an \<open>afterToolCall\<close> result; the merged result has no \<open>isError\<close> field.\<close>

definition merge_after_result ::
    "agent_tool_result \<Rightarrow> bool \<Rightarrow> after_tool_call_result \<Rightarrow> agent_tool_result \<times> bool" where
  "merge_after_result result isError afterResult =
     (\<lparr>ar_content = (case af_content afterResult of Some c \<Rightarrow> c | None \<Rightarrow> ar_content result),
       ar_isError = None,
       ar_disposition = (case af_disposition afterResult of Some d \<Rightarrow> Some d | None \<Rightarrow> ar_disposition result),
       ar_details = (case af_details afterResult of Some d \<Rightarrow> Some d | None \<Rightarrow> ar_details result)\<rparr>,
      (case af_isError afterResult of Some b \<Rightarrow> b | None \<Rightarrow> isError))"

definition finalizeExecutedToolCall ::
    "'h agent_host \<Rightarrow> assistant_message \<Rightarrow> prepared_tool_call \<Rightarrow> agent_tool_result \<times> bool
     \<Rightarrow> ('h, finalized_tool_call) act" where
  "finalizeExecutedToolCall H assistantMessage prepared executed =
     (case h_afterToolCall H of
        None \<Rightarrow> ret \<lparr>ft_toolCall = pt_toolCall prepared, ft_result = fst executed, ft_isError = snd executed\<rparr>
      | Some f \<Rightarrow>
          bnd (read_state ls_context) (\<lambda>context.
          bnd (try_call (f \<lparr>bc_assistantMessage = assistantMessage, bc_toolCall = pt_toolCall prepared,
                           bc_args = pt_args prepared, bc_context = context,
                           fc_result = fst executed, fc_isError = snd executed\<rparr>)) (\<lambda>after.
          let (result, isError) = (case after of
              Inl e \<Rightarrow> (createErrorToolResult e, True)
            | Inr None \<Rightarrow> executed
            | Inr (Some a) \<Rightarrow> merge_after_result (fst executed) (snd executed) a)
          in ret \<lparr>ft_toolCall = pt_toolCall prepared, ft_result = result, ft_isError = isError\<rparr>)))"

definition endToolCall ::
    "'h agent_host \<Rightarrow> finalized_tool_call \<Rightarrow> int \<Rightarrow> ('h, ended_tool_call) act" where
  "endToolCall H finalized startedAt =
     bnd (host_step (h_now H)) (\<lambda>now.
     bnd (emit H (ToolExecutionEnd (tc_id (ft_toolCall finalized)) (tc_name (ft_toolCall finalized))
                   (ft_result finalized) (ft_isError finalized))) (\<lambda>_.
     ret (finalized_tool_call.extend finalized \<lparr>et_durationMs = nat (max 0 (now - startedAt))\<rparr>)))"

definition createToolResultMessage :: "ended_tool_call \<Rightarrow> int \<Rightarrow> tool_result_message" where
  "createToolResultMessage finalized now =
     \<lparr>t_toolCallId = tc_id (ft_toolCall finalized), t_toolName = tc_name (ft_toolCall finalized),
      t_content = ar_content (ft_result finalized), t_details = ar_details (ft_result finalized),
      t_isError = ft_isError finalized, t_timestamp = now, t_durationMs = Some (et_durationMs finalized)\<rparr>"

definition emit_ended_call :: "'h agent_host \<Rightarrow> ended_tool_call \<Rightarrow> ('h, tool_result_message) act" where
  "emit_ended_call H ended =
     bnd (host_step (h_now H)) (\<lambda>now. emit_tool_result H (createToolResultMessage ended now))"

section \<open>Tool batches\<close>

definition reduceToolBatchDisposition :: "ended_tool_call list \<Rightarrow> batch_disposition" where
  "reduceToolBatchDisposition calls =
     (if list_ex (\<lambda>c. \<not> ft_isError c \<and> ar_disposition (ft_result c) = Some FinalResponseTools) calls
      then BatchFinalResponse
      else if calls \<noteq> [] \<and> list_all (\<lambda>c. ar_disposition (ft_result c) = Some StopTools) calls
      then BatchStop
      else BatchContinue)"

text \<open>The start of a call in either mode: its time, its start event and its preparation.\<close>

definition start_tool_call ::
    "'h agent_host \<Rightarrow> assistant_message \<Rightarrow> tool_call \<Rightarrow> ('h, int \<times> tool_preparation) act" where
  "start_tool_call H assistantMessage toolCall =
     bnd (host_step (h_now H)) (\<lambda>startedAt.
     bnd (emit H (ToolExecutionStart (tc_id toolCall) (tc_name toolCall) (tc_arguments toolCall))) (\<lambda>_.
     bnd (prepareToolCall H assistantMessage toolCall) (\<lambda>preparation.
     ret (startedAt, preparation))))"

definition finalize_sequential ::
    "'h agent_host \<Rightarrow> assistant_message \<Rightarrow> tool_call \<Rightarrow> tool_preparation \<Rightarrow> ('h, finalized_tool_call) act" where
  "finalize_sequential H assistantMessage toolCall preparation =
     (case preparation of
        ImmediateOutcome result isError \<Rightarrow>
          ret \<lparr>ft_toolCall = toolCall, ft_result = result, ft_isError = isError\<rparr>
      | PreparedCall prepared \<Rightarrow>
          bnd (executePreparedToolCall H prepared) (finalizeExecutedToolCall H assistantMessage prepared))"

fun sequential_calls ::
    "'h agent_host \<Rightarrow> assistant_message \<Rightarrow> tool_call list
     \<Rightarrow> ('h, (ended_tool_call \<times> tool_result_message) list) act" where
  "sequential_calls H assistantMessage [] = ret []"
| "sequential_calls H assistantMessage (toolCall # rest) =
     bnd (start_tool_call H assistantMessage toolCall) (\<lambda>(startedAt, preparation).
     bnd (finalize_sequential H assistantMessage toolCall preparation) (\<lambda>finalized.
     bnd (endToolCall H finalized startedAt) (\<lambda>ended.
     bnd (emit_ended_call H ended) (\<lambda>message.
     bnd (aborted H) (\<lambda>ab.
     if ab then ret [(ended, message)]
     else bnd (sequential_calls H assistantMessage rest) (\<lambda>others. ret ((ended, message) # others)))))))"

definition executeToolCallsSequential ::
    "'h agent_host \<Rightarrow> assistant_message \<Rightarrow> tool_call list
     \<Rightarrow> ('h, tool_result_message list \<times> batch_disposition) act" where
  "executeToolCallsSequential H assistantMessage toolCalls =
     bnd (sequential_calls H assistantMessage toolCalls) (\<lambda>calls.
     ret (map snd calls, reduceToolBatchDisposition (map fst calls)))"

text \<open>
  A call of a parallel batch: ended, waiting for the others to be prepared, running with the updates it
  has still to report, settled, or finalized. \<open>advance_call\<close> is one resumption of a running call.
\<close>

datatype tool_phase =
    CallEnded ended_tool_call
  | CallWaiting prepared_tool_call int
  | CallRunning prepared_tool_call int "agent_tool_result list" "string option" "string + agent_tool_result"
  | CallSettled prepared_tool_call int "agent_tool_result \<times> bool"
  | CallFinalized finalized_tool_call int

fun prepare_parallel ::
    "'h agent_host \<Rightarrow> assistant_message \<Rightarrow> tool_call list \<Rightarrow> ('h, tool_phase list) act" where
  "prepare_parallel H assistantMessage [] = ret []"
| "prepare_parallel H assistantMessage (toolCall # rest) =
     bnd (start_tool_call H assistantMessage toolCall) (\<lambda>(startedAt, preparation).
     bnd (case preparation of
            ImmediateOutcome result isError \<Rightarrow>
              bnd (endToolCall H \<lparr>ft_toolCall = toolCall, ft_result = result, ft_isError = isError\<rparr> startedAt)
                (\<lambda>ended. ret (CallEnded ended))
          | PreparedCall prepared \<Rightarrow> ret (CallWaiting prepared startedAt)) (\<lambda>phase.
     bnd (aborted H) (\<lambda>ab.
     if ab then ret [phase]
     else bnd (prepare_parallel H assistantMessage rest) (\<lambda>others. ret (phase # others)))))"

definition start_call :: "'h agent_host \<Rightarrow> tool_phase \<Rightarrow> ('h, tool_phase) act" where
  "start_call H phase =
     (case phase of
        CallWaiting prepared startedAt \<Rightarrow>
          bnd (start_execution H prepared) (\<lambda>run.
          ret (CallRunning prepared startedAt (tr_updates run) None (tr_settled run)))
      | _ \<Rightarrow> ret phase)"

fun advance_call :: "'h agent_host \<Rightarrow> assistant_message \<Rightarrow> tool_phase \<Rightarrow> ('h, tool_phase) act" where
  "advance_call H m (CallRunning prepared startedAt (u # us) failure settled) =
     bnd (emit_update H prepared failure u) (\<lambda>failure.
     ret (CallRunning prepared startedAt us failure settled))"
| "advance_call H m (CallRunning prepared startedAt [] failure settled) =
     settle_updates failure (CallSettled prepared startedAt (execution_outcome settled))"
| "advance_call H m (CallSettled prepared startedAt executed) =
     bnd (finalizeExecutedToolCall H m prepared executed) (\<lambda>finalized. ret (CallFinalized finalized startedAt))"
| "advance_call H m (CallFinalized finalized startedAt) =
     bnd (endToolCall H finalized startedAt) (\<lambda>ended. ret (CallEnded ended))"
| "advance_call H m phase = ret phase"

fun call_ended :: "tool_phase \<Rightarrow> ended_tool_call option" where
  "call_ended (CallEnded e) = Some e"
| "call_ended _ = None"

definition unfinished :: "tool_phase list \<Rightarrow> nat list" where
  "unfinished phases = filter (\<lambda>i. call_ended (phases ! i) = None) [0..<length phases]"

text \<open>The number of resumptions a call still needs; it bounds the interleaving.\<close>

fun phase_steps :: "tool_phase \<Rightarrow> nat" where
  "phase_steps (CallEnded _) = 0"
| "phase_steps (CallWaiting _ _) = 0"
| "phase_steps (CallRunning _ _ us _ _) = length us + 3"
| "phase_steps (CallSettled _ _ _) = 2"
| "phase_steps (CallFinalized _ _) = 1"

fun interleave_calls ::
    "nat \<Rightarrow> 'h agent_host \<Rightarrow> assistant_message \<Rightarrow> tool_phase list \<Rightarrow> ('h, tool_phase list) act" where
  "interleave_calls 0 H m phases = ret phases"
| "interleave_calls (Suc n) H m phases =
     (let open_calls = unfinished phases in
      if open_calls = [] then ret phases
      else bnd (host_step (h_schedule H open_calls)) (\<lambda>k.
           let i = open_calls ! (k mod length open_calls) in
           bnd (advance_call H m (phases ! i)) (\<lambda>phase.
           interleave_calls n H m (phases[i := phase]))))"

definition executeToolCallsParallel ::
    "'h agent_host \<Rightarrow> assistant_message \<Rightarrow> tool_call list
     \<Rightarrow> ('h, tool_result_message list \<times> batch_disposition) act" where
  "executeToolCallsParallel H assistantMessage toolCalls =
     bnd (prepare_parallel H assistantMessage toolCalls) (\<lambda>entries.
     bnd (for_each (start_call H) entries) (\<lambda>phases.
     bnd (interleave_calls (sum_list (map phase_steps phases)) H assistantMessage phases) (\<lambda>finished.
     let orderedFinalizedCalls = List.map_filter call_ended finished in
     bnd (for_each (emit_ended_call H) orderedFinalizedCalls) (\<lambda>messages.
     ret (messages, reduceToolBatchDisposition orderedFinalizedCalls)))))"

definition executeToolCalls ::
    "'h agent_host \<Rightarrow> assistant_message \<Rightarrow> ('h, tool_result_message list \<times> batch_disposition) act" where
  "executeToolCalls H assistantMessage =
     bnd (read_state (\<lambda>s. ac_tools (ls_context s))) (\<lambda>tools.
     let hasSequentialToolCall = list_ex (\<lambda>tc. case find_tool tools (tc_name tc) of
           Some t \<Rightarrow> at_executionMode t = Some SequentialMode | None \<Rightarrow> False) (tool_calls assistantMessage) in
     if h_toolExecution H = Some SequentialMode \<or> hasSequentialToolCall
     then executeToolCallsSequential H assistantMessage (tool_calls assistantMessage)
     else executeToolCallsParallel H assistantMessage (tool_calls assistantMessage))"

section \<open>The request state machine\<close>

text \<open>The loop's local variables that live across turns.\<close>

record loop_control =
  ct_completedTurn :: "loop_completed_turn option"
  ct_requestAuthority :: request_authority
  ct_defaultAction :: next_action

datatype turn_outcome = LoopFinished | NextTurn loop_control

definition finish_loop :: "'h agent_host \<Rightarrow> ('h, turn_outcome) act" where
  "finish_loop H = bnd (emit_agent_end H) (\<lambda>_. ret LoopFinished)"

definition finish_at_boundary :: "'h agent_host \<Rightarrow> bool \<Rightarrow> ('h, turn_outcome) act" where
  "finish_at_boundary H marked =
     bnd (if marked then emitBoundaryAbort H else ret ()) (\<lambda>_. finish_loop H)"

definition action_context :: "loop_control \<Rightarrow> 'h loop_state \<Rightarrow> next_action_context" where
  "action_context ctl s =
     \<lparr>nc_context = ls_context s, nc_newMessages = ls_newMessages s,
      nc_completedTurn = ct_completedTurn ctl, nc_requestAuthority = ct_requestAuthority ctl,
      nc_defaultAction = ct_defaultAction ctl\<rparr>"

definition resolveNextAction ::
    "'h agent_host \<Rightarrow> next_action_context \<Rightarrow> ('h, next_action) act" where
  "resolveNextAction H c =
     (case h_nextAction H of Some f \<Rightarrow> host_call (f c) | None \<Rightarrow> ret (nc_defaultAction c))"

text \<open>The pending final response replaces every decision of the host but a pause.\<close>

fun final_action :: "request_authority \<Rightarrow> next_action \<Rightarrow> next_action" where
  "final_action FinalResponseAuthority (PauseAction a) = PauseAction a"
| "final_action FinalResponseAuthority _ = RequestAction FinalResponseReason None"
| "final_action _ action = action"

definition apply_request_update :: "request_update \<Rightarrow> ('h, unit) act" where
  "apply_request_update u =
     update_state (\<lambda>s. s\<lparr>
       ls_context := (case ru_context u of Some c \<Rightarrow> c | None \<Rightarrow> ls_context s),
       ls_model := (case ru_model u of Some m \<Rightarrow> m | None \<Rightarrow> ls_model s),
       ls_reasoning := (case ru_thinkingLevel u of
           None \<Rightarrow> ls_reasoning s | Some Off \<Rightarrow> None | Some l \<Rightarrow> Some l)\<rparr>)"

definition prepare_request ::
    "'h agent_host \<Rightarrow> next_action_context \<Rightarrow> request_reason \<Rightarrow> agent_loop_delivery list \<Rightarrow> ('h, unit) act" where
  "prepare_request H c reason deliveries =
     bnd (aborted H) (\<lambda>ab.
     if ab then ret ()
     else case h_prepareRequest H of
       None \<Rightarrow> ret ()
     | Some f \<Rightarrow>
         bnd (read_state ls_context) (\<lambda>context.
         bnd (read_state ls_newMessages) (\<lambda>newMessages.
         bnd (host_call (f (next_action_context.extend (c\<lparr>nc_context := context, nc_newMessages := newMessages\<rparr>)
                              \<lparr>pc_reason = reason, pc_deliveries = deliveries\<rparr>))) (\<lambda>update.
         case update of None \<Rightarrow> ret () | Some u \<Rightarrow> apply_request_update u))))"

definition final_response_prompt :: string where
  "final_response_prompt =
     lf @ lf @ ''[VOLT FINAL RESPONSE '' @ [CHR 0xE2, CHR 0x80, CHR 0x94] @ '' TRUSTED RUNTIME POLICY]'' @ lf
     @ ''Provide one final assistant response summarizing the completed work and verification. ''
     @ ''Do not call tools or begin additional implementation.''"

text \<open>
  The turn's start and its response: the provider sees no tools in the final response. The result says
  whether the turn has started.
\<close>

definition request_response ::
    "'h agent_host \<Rightarrow> bool \<Rightarrow> ('h, bool \<times> assistant_message option) act" where
  "request_response H isFinalResponse =
     bnd (aborted H) (\<lambda>ab.
     bnd (if ab then ret False else bnd (emit H TurnStart) (\<lambda>_. ret True)) (\<lambda>turnStarted.
     bnd (aborted H) (\<lambda>ab.
     if ab then ret (turnStarted, None)
     else bnd (read_state ls_context) (\<lambda>context.
          bnd (if isFinalResponse
               then streamAssistantResponse H (ac_systemPrompt context @ final_response_prompt) (Some [])
               else streamAssistantResponse H (ac_systemPrompt context) (ac_tools context)) (\<lambda>message.
          ret (turnStarted, message))))))"

definition finish_preflight_aborted :: "'h agent_host \<Rightarrow> bool \<Rightarrow> ('h, turn_outcome) act" where
  "finish_preflight_aborted H turnStarted =
     bnd (if turnStarted then ret None else emit H TurnStart) (\<lambda>_.
     bnd (read_state ls_model) (\<lambda>md.
     bnd (host_step (h_now H)) (\<lambda>now.
     let preflightAbortedMessage = assistant (aborted_message md now) in
     bnd (push_message preflightAbortedMessage) (\<lambda>_.
     bnd (emit H (MessageStart preflightAbortedMessage None)) (\<lambda>_.
     bnd (emit H (MessageEnd preflightAbortedMessage None)) (\<lambda>replacement.
     bnd (resolveMessageReplacement preflightAbortedMessage replacement) (\<lambda>abortedMessage.
     bnd (set_last_message abortedMessage) (\<lambda>_.
     bnd (push_new_message abortedMessage) (\<lambda>_.
     bnd (emit H (TurnEnd abortedMessage [])) (\<lambda>_.
     finish_loop H))))))))))"

definition disabled_tool_result :: "tool_call \<Rightarrow> int \<Rightarrow> tool_result_message" where
  "disabled_tool_result c now =
     \<lparr>t_toolCallId = tc_id c, t_toolName = tc_name c,
      t_content = [TextContent ''Tools are disabled for the final response.'' None],
      t_details = Some (JObj []), t_isError = True, t_timestamp = now, t_durationMs = None\<rparr>"

definition answer_tool_calls ::
    "'h agent_host \<Rightarrow> bool \<Rightarrow> assistant_message \<Rightarrow> ('h, tool_result_message list \<times> batch_disposition) act" where
  "answer_tool_calls H isFinalResponse message =
     (if tool_calls message = [] then ret ([], BatchContinue)
      else bnd (if isFinalResponse
                then bnd (for_each (\<lambda>c. bnd (host_step (h_now H)) (\<lambda>now.
                            emit_tool_result H (disabled_tool_result c now))) (tool_calls message))
                       (\<lambda>results. ret (results, BatchContinue))
                else executeToolCalls H message) (\<lambda>(toolResults, disposition).
           bnd (for_each (\<lambda>r. bnd (push_message (tool_result r)) (\<lambda>_. push_new_message (tool_result r)))
                 toolResults) (\<lambda>_.
           ret (toolResults, disposition))))"

text \<open>The authority and the default decision of the next boundary.\<close>

definition next_control ::
    "bool \<Rightarrow> assistant_message \<Rightarrow> tool_result_message list \<Rightarrow> batch_disposition \<Rightarrow> loop_control" where
  "next_control isFinalResponse message toolResults disposition =
     (let turn = Some \<lparr>lt_message = message, lt_toolResults = toolResults, lt_disposition = disposition\<rparr> in
      if isFinalResponse then
        \<lparr>ct_completedTurn = turn, ct_requestAuthority = ProviderAuthority, ct_defaultAction = StopAction\<rparr>
      else if disposition = BatchFinalResponse then
        \<lparr>ct_completedTurn = turn, ct_requestAuthority = FinalResponseAuthority,
         ct_defaultAction = RequestAction FinalResponseReason None\<rparr>
      else if tool_calls message \<noteq> [] \<and> disposition = BatchContinue then
        \<lparr>ct_completedTurn = turn, ct_requestAuthority = ToolContinuation,
         ct_defaultAction = RequestAction ContinuationReason None\<rparr>
      else
        \<lparr>ct_completedTurn = turn, ct_requestAuthority = ProviderAuthority, ct_defaultAction = StopAction\<rparr>)"

definition complete_turn :: "'h agent_host \<Rightarrow> bool \<Rightarrow> assistant_message \<Rightarrow> ('h, turn_outcome) act" where
  "complete_turn H isFinalResponse message =
     bnd (push_new_message (assistant message)) (\<lambda>_.
     if a_stopReason message = ErrorStop \<or> a_stopReason message = Aborted then
       bnd (emit H (TurnEnd (assistant message) [])) (\<lambda>_. finish_loop H)
     else
       bnd (answer_tool_calls H isFinalResponse message) (\<lambda>(toolResults, disposition).
       bnd (aborted H) (\<lambda>abortedBeforeTurnEnd.
       bnd (emit H (TurnEnd (assistant message) toolResults)) (\<lambda>_.
       bnd (aborted H) (\<lambda>ab.
       if ab then finish_at_boundary H (tool_calls message \<noteq> [] \<or> \<not> abortedBeforeTurnEnd)
       else ret (NextTurn (next_control isFinalResponse message toolResults disposition)))))))"

definition request_turn ::
    "'h agent_host \<Rightarrow> next_action_context \<Rightarrow> request_reason \<Rightarrow> agent_loop_delivery list option
     \<Rightarrow> ('h, turn_outcome) act" where
  "request_turn H c reason deliveries =
     bnd (emitDeliveries H (case deliveries of Some ds \<Rightarrow> ds | None \<Rightarrow> [])) (\<lambda>finalizedDeliveries.
     if reason = DeliveryReason \<and> finalizedDeliveries = [] then finish_loop H
     else
       bnd (prepare_request H c reason finalizedDeliveries) (\<lambda>_.
       bnd (request_response H (reason = FinalResponseReason)) (\<lambda>(turnStarted, message).
       case message of
         None \<Rightarrow> finish_preflight_aborted H turnStarted
       | Some m \<Rightarrow> complete_turn H (reason = FinalResponseReason) m)))"

text \<open>One iteration of the loop.\<close>

definition dispatch_turn :: "'h agent_host \<Rightarrow> loop_control \<Rightarrow> ('h, turn_outcome) act" where
  "dispatch_turn H ctl =
     bnd (aborted H) (\<lambda>ab.
     if ab then finish_at_boundary H (ct_completedTurn ctl \<noteq> None)
     else
       bnd (read_state (action_context ctl)) (\<lambda>c.
       bnd (resolveNextAction H c) (\<lambda>hostAction.
       bnd (aborted H) (\<lambda>ab.
       if ab \<and> ct_completedTurn ctl \<noteq> None then finish_at_boundary H True
       else case final_action (ct_requestAuthority ctl) hostAction of
         RequestAction reason deliveries \<Rightarrow> request_turn H c reason deliveries
       | _ \<Rightarrow> finish_loop H))))"

text \<open>
  The loop runs for at most \<open>fuel\<close> iterations; \<open>None\<close> means that it has not returned by then.
\<close>

fun runDispatchedLoop ::
    "nat \<Rightarrow> 'h agent_host \<Rightarrow> loop_control \<Rightarrow> 'h loop_state \<Rightarrow> ((agent_error + unit) \<times> 'h loop_state) option" where
  "runDispatchedLoop 0 H ctl s = None"
| "runDispatchedLoop (Suc fuel) H ctl s =
     (case dispatch_turn H ctl s of
        (Inl e, s') \<Rightarrow> Some (Inl e, s')
      | (Inr LoopFinished, s') \<Rightarrow> Some (Inr (), s')
      | (Inr (NextTurn ctl'), s') \<Rightarrow> runDispatchedLoop fuel H ctl' s')"

definition initial_control :: "next_action \<Rightarrow> loop_control" where
  "initial_control action =
     \<lparr>ct_completedTurn = None, ct_requestAuthority = ProviderAuthority, ct_defaultAction = action\<rparr>"

definition initial_state ::
    "agent_context \<Rightarrow> request_model \<Rightarrow> thinking_level option \<Rightarrow> 'h \<Rightarrow> 'h loop_state" where
  "initial_state context md reasoning h =
     \<lparr>ls_host = h, ls_context = context, ls_newMessages = [], ls_model = md, ls_reasoning = reasoning,
      ls_trace = []\<rparr>"

definition start_loop ::
    "nat \<Rightarrow> 'h agent_host \<Rightarrow> next_action \<Rightarrow> 'h loop_state \<Rightarrow> ((agent_error + unit) \<times> 'h loop_state) option" where
  "start_loop fuel H action s =
     (case emit H AgentStart s of
        (Inl e, s') \<Rightarrow> Some (Inl e, s')
      | (Inr _, s') \<Rightarrow> runDispatchedLoop fuel H (initial_control action) s')"

definition prompt_action :: "agent_message list \<Rightarrow> next_action" where
  "prompt_action prompts =
     (if prompts \<noteq> [] then RequestAction DeliveryReason (Some [\<lparr>al_deliveryId = None, al_messages = prompts\<rparr>])
      else RequestAction ContinuationReason None)"

definition runAgentLoop ::
    "nat \<Rightarrow> 'h agent_host \<Rightarrow> agent_message list \<Rightarrow> agent_context \<Rightarrow> request_model \<Rightarrow> thinking_level option \<Rightarrow> 'h
     \<Rightarrow> ((agent_error + unit) \<times> 'h loop_state) option" where
  "runAgentLoop fuel H prompts context md reasoning h =
     start_loop fuel H (prompt_action prompts) (initial_state context md reasoning h)"

definition runAgentLoopContinue ::
    "nat \<Rightarrow> 'h agent_host \<Rightarrow> agent_context \<Rightarrow> request_model \<Rightarrow> thinking_level option \<Rightarrow> 'h
     \<Rightarrow> ((agent_error + unit) \<times> 'h loop_state) option" where
  "runAgentLoopContinue fuel H context md reasoning h =
     (if ac_messages context = [] then Some (Inl NoMessagesError, initial_state context md reasoning h)
      else start_loop fuel H (RequestAction ContinuationReason None) (initial_state context md reasoning h))"

end
