(* ===== verification/Agent_Hoare.thy ===== *)
theory Agent_Hoare
  imports Agent_Loop
begin

text \<open>
  Triples for the loop's actions: \<open>hoare P m Q E\<close> says that from a state with \<open>P\<close> the action returns in
  \<open>Q\<close>, or throws in \<open>E\<close>. The rules follow the combinators the loop is written with; the collection
  \<open>hoare_intros\<close> holds those that need no instantiation.
\<close>

named_theorems hoare_intros \<open>triples of the action combinators\<close>

definition hoare ::
    "('h loop_state \<Rightarrow> bool) \<Rightarrow> ('h, 'a) act \<Rightarrow> ('a \<Rightarrow> 'h loop_state \<Rightarrow> bool) \<Rightarrow> ('h loop_state \<Rightarrow> bool) \<Rightarrow> bool" where
  "hoare P m Q E \<longleftrightarrow>
     (\<forall>s. P s \<longrightarrow> (case m s of (Inr a, s') \<Rightarrow> Q a s' | (Inl e, s') \<Rightarrow> E s'))"

section \<open>Rules\<close>

lemma hoareI:
  assumes "\<And>s a s'. P s \<Longrightarrow> m s = (Inr a, s') \<Longrightarrow> Q a s'"
    and "\<And>s e s'. P s \<Longrightarrow> m s = (Inl e, s') \<Longrightarrow> E s'"
  shows "hoare P m Q E"
  using assms by (auto simp: hoare_def split: prod.splits sum.splits)

lemma hoareD:
  assumes "hoare P m Q E" "P s" "m s = (Inr a, s')"
  shows "Q a s'"
  using assms by (auto simp: hoare_def)

lemma hoareD_error:
  assumes "hoare P m Q E" "P s" "m s = (Inl e, s')"
  shows "E s'"
  using assms by (auto simp: hoare_def)

lemma hoare_conseq:
  assumes "hoare P m Q E" "\<And>s. P' s \<Longrightarrow> P s" "\<And>a s. Q a s \<Longrightarrow> Q' a s" "\<And>s. E s \<Longrightarrow> E' s"
  shows "hoare P' m Q' E'"
  using assms by (fastforce simp: hoare_def split: prod.splits sum.splits)

lemma hoare_pre: "hoare P m Q E \<Longrightarrow> (\<And>s. P' s \<Longrightarrow> P s) \<Longrightarrow> hoare P' m Q E"
  by (auto simp: hoare_def)

lemma hoare_post: "hoare P m Q E \<Longrightarrow> (\<And>a s. Q a s \<Longrightarrow> Q' a s) \<Longrightarrow> hoare P m Q' E"
  by (rule hoare_conseq)

lemma hoare_bnd [hoare_intros]:
  assumes "hoare P m Q E" "\<And>a. hoare (Q a) (f a) R E"
  shows "hoare P (bnd m f) R E"
  using assms by (fastforce simp: hoare_def bnd_def split: prod.splits sum.splits)

lemma hoare_ret: "(\<And>s. P s \<Longrightarrow> Q a s) \<Longrightarrow> hoare P (ret a) Q E"
  by (simp add: hoare_def ret_def)

lemma hoare_raise: "(\<And>s. P s \<Longrightarrow> E s) \<Longrightarrow> hoare P (raise e) Q E"
  by (simp add: hoare_def raise_def)

lemma hoare_read: "hoare P (read_state f) (\<lambda>a s. P s \<and> a = f s) E"
  by (simp add: hoare_def read_state_def)

lemma hoare_update: "(\<And>s. P s \<Longrightarrow> Q (f s)) \<Longrightarrow> hoare P (update_state f) (\<lambda>_. Q) E"
  by (simp add: hoare_def update_state_def)

lemma hoare_aborted: "hoare P (aborted H) (\<lambda>ab s. P s \<and> ab = h_aborted H (ls_host s)) E"
  by (simp add: aborted_def hoare_read)

lemma hoare_host_call:
  assumes "\<And>s h. P s \<Longrightarrow> Q (s\<lparr>ls_host := h\<rparr>)" "\<And>s. Q s \<Longrightarrow> E s"
  shows "hoare P (host_call f) (\<lambda>_. Q) E"
  using assms by (fastforce simp: hoare_def host_call_def split: prod.splits sum.splits)

lemma hoare_try_call:
  assumes "\<And>s h. P s \<Longrightarrow> Q (s\<lparr>ls_host := h\<rparr>)"
  shows "hoare P (try_call f) (\<lambda>_. Q) E"
  using assms by (simp add: hoare_def try_call_def split: prod.splits)

lemma hoare_host_step:
  assumes "\<And>s h. P s \<Longrightarrow> Q (s\<lparr>ls_host := h\<rparr>)"
  shows "hoare P (host_step f) (\<lambda>_. Q) E"
  using assms by (simp add: hoare_def host_step_def split: prod.splits)

lemma hoare_if:
  "(b \<Longrightarrow> hoare P m Q E) \<Longrightarrow> (\<not> b \<Longrightarrow> hoare P n Q E) \<Longrightarrow> hoare P (if b then m else n) Q E"
  by simp

lemma hoare_option:
  "(x = None \<Longrightarrow> hoare P m Q E) \<Longrightarrow> (\<And>y. x = Some y \<Longrightarrow> hoare P (f y) Q E)
   \<Longrightarrow> hoare P (case x of None \<Rightarrow> m | Some y \<Rightarrow> f y) Q E"
  by (cases x) auto

lemma hoare_sum:
  "(\<And>y. x = Inl y \<Longrightarrow> hoare P (f y) Q E) \<Longrightarrow> (\<And>y. x = Inr y \<Longrightarrow> hoare P (g y) Q E)
   \<Longrightarrow> hoare P (case x of Inl y \<Rightarrow> f y | Inr y \<Rightarrow> g y) Q E"
  by (cases x) auto

lemma hoare_prod: "(\<And>y z. x = (y, z) \<Longrightarrow> hoare P (f y z) Q E) \<Longrightarrow> hoare P (case x of (y, z) \<Rightarrow> f y z) Q E"
  by (cases x) auto

lemma hoare_assume: "(\<And>s. P s \<Longrightarrow> A) \<Longrightarrow> (A \<Longrightarrow> hoare P m Q E) \<Longrightarrow> hoare P m Q E"
  by (auto simp: hoare_def)

lemma hoare_fact: "(A \<Longrightarrow> hoare P m Q E) \<Longrightarrow> hoare (\<lambda>s. P s \<and> A) m Q E"
  by (auto simp: hoare_def)

lemma hoare_if_aborted:
  assumes "hoare P m Q E" "hoare (\<lambda>s. P s \<and> \<not> h_aborted H (ls_host s)) n Q E"
  shows "hoare P (bnd (aborted H) (\<lambda>ab. if ab then m else n)) Q E"
  using assms by (auto simp: hoare_def bnd_def aborted_def read_state_def)

lemma hoare_exI: "(\<And>x. hoare (P x) m Q E) \<Longrightarrow> hoare (\<lambda>s. \<exists>x. P x s) m Q E"
  by (rule hoareI) (blast dest: hoareD hoareD_error)+

lemma hoare_for_each:
  assumes "\<And>x. x \<in> set xs \<Longrightarrow> hoare P (f x) (\<lambda>_. P) E"
  shows "hoare P (for_each f xs) (\<lambda>_. P) E"
  using assms by (induction xs) (auto intro!: hoare_ret hoare_bnd)

text \<open>A loop whose results relate to its items one by one.\<close>

lemma hoare_for_each_rel:
  assumes "\<And>x. x \<in> set xs \<Longrightarrow> hoare P (f x) (\<lambda>a s. P s \<and> R x a) E"
  shows "hoare P (for_each f xs) (\<lambda>as s. P s \<and> list_all2 R xs as) E"
  using assms
proof (induction xs)
  case Nil
  show ?case by (simp add: hoare_ret)
next
  case (Cons x xs)
  show ?case
    unfolding for_each.simps
  proof (rule hoare_bnd)
    show "hoare P (f x) (\<lambda>a s. P s \<and> R x a) E" using Cons.prems by simp
    fix a
    show "hoare (\<lambda>s. P s \<and> R x a) (bnd (for_each f xs) (\<lambda>as. ret (a # as)))
       (\<lambda>as s. P s \<and> list_all2 R (x # xs) as) E"
    proof (rule hoare_assume [where A = "R x a"])
      assume R: "R x a"
      show "hoare (\<lambda>s. P s \<and> R x a) (bnd (for_each f xs) (\<lambda>as. ret (a # as)))
         (\<lambda>as s. P s \<and> list_all2 R (x # xs) as) E"
        by (rule hoare_bnd, rule hoare_pre, rule Cons.IH) (simp_all add: Cons.prems R hoare_ret)
    qed simp
  qed
qed

end
