(* ===== verification/Agent_Monitor.thy ===== *)
theory Agent_Monitor
  imports Agent_Hoare
begin

text \<open>
  A monitor of the loop's trace: a small state machine that accepts exactly the well-formed sequences of
  events and calls, and the triples that every function of the loop moves it as its place in the
  protocol asks.
\<close>

section \<open>The monitor\<close>

datatype run_phase = NotStarted | BetweenTurns | InTurn | RunEnded

text \<open>
  The phase of the run, the role of the message whose end is due, the IDs of the tool calls whose end is
  due, and the tools the last provider request offered.
\<close>

datatype monitor = Mon run_phase "message_role option" "string list" "agent_tool list"

abbreviation guard :: "bool \<Rightarrow> monitor \<Rightarrow> monitor option" where
  "guard b m \<equiv> (if b then Some m else None)"

definition offered :: "agent_tool list option \<Rightarrow> agent_tool list" where
  "offered tools = (case tools of Some ts \<Rightarrow> ts | None \<Rightarrow> [])"

fun observe_event :: "monitor \<Rightarrow> agent_event \<Rightarrow> monitor option" where
  "observe_event (Mon p m c t) AgentStart = guard (p = NotStarted) (Mon BetweenTurns None [] [])"
| "observe_event (Mon p m c t) (AgentEnd _) =
     guard (p = BetweenTurns \<and> m = None \<and> c = []) (Mon RunEnded None [] t)"
| "observe_event (Mon p m c t) TurnStart =
     guard (p = BetweenTurns \<and> m = None \<and> c = []) (Mon InTurn None [] t)"
| "observe_event (Mon p m c t) (TurnEnd a _) =
     guard (p = InTurn \<and> m = None \<and> c = [] \<and> role a = AssistantRole) (Mon BetweenTurns None [] t)"
| "observe_event (Mon p m c t) (DeliveryStart _ _) =
     guard (p = BetweenTurns \<and> m = None) (Mon p m c t)"
| "observe_event (Mon p m c t) (MessageStart a _) =
     guard (m = None \<and> (p = BetweenTurns \<or> p = InTurn \<and> role a \<in> {AssistantRole, ToolResultRole}))
       (Mon p (Some (role a)) c t)"
| "observe_event (Mon p m c t) (MessageUpdate a _) =
     guard (p = InTurn \<and> m = Some AssistantRole \<and> role a = AssistantRole) (Mon p m c t)"
| "observe_event (Mon p m c t) (MessageEnd a _) = guard (m = Some (role a)) (Mon p None c t)"
| "observe_event (Mon p m c t) (ToolExecutionStart i _ _) =
     guard (p = InTurn \<and> m = None) (Mon p m (i # c) t)"
| "observe_event (Mon p m c t) (ToolExecutionUpdate i _ _ _) =
     guard (p = InTurn \<and> i \<in> set c) (Mon p m c t)"
| "observe_event (Mon p m c t) (ToolExecutionEnd i _ _ _) =
     guard (p = InTurn \<and> m = None \<and> i \<in> set c) (Mon p m (remove1 i c) t)"

text \<open>
  Deliveries begin between turns and before an abort; a provider is asked inside a turn and before an
  abort, with a request that satisfies \<open>K\<close>; a tool runs inside a turn and before an abort, for a call
  that has started, and only when the last request offered it under the name the call uses.
\<close>

fun observe :: "(llm_context \<Rightarrow> bool) \<Rightarrow> monitor \<Rightarrow> bool \<times> loop_action \<Rightarrow> monitor option" where
  "observe K M (b, Emitted e) = observe_event M e"
| "observe K (Mon p m c t) (b, Began d) = guard (\<not> b \<and> p = BetweenTurns \<and> m = None) (Mon p m c t)"
| "observe K (Mon p m c t) (b, Requested md r) =
     guard (\<not> b \<and> p = InTurn \<and> m = None \<and> c = [] \<and> K r) (Mon p m c (offered (lc_tools r)))"
| "observe K (Mon p m c t) (b, Executed tool tc) =
     guard (\<not> b \<and> p = InTurn \<and> m = None \<and> tc_id tc \<in> set c \<and> tool \<in> set t \<and> at_name tool = tc_name tc)
       (Mon p m c t)"

definition monitor_run :: "(llm_context \<Rightarrow> bool) \<Rightarrow> (bool \<times> loop_action) list \<Rightarrow> monitor option" where
  "monitor_run K tr =
     foldl (\<lambda>M a. case M of None \<Rightarrow> None | Some M \<Rightarrow> observe K M a) (Some (Mon NotStarted None [] [])) tr"

lemma monitor_run_snoc [simp]:
  "monitor_run K (tr @ [a]) = (case monitor_run K tr of None \<Rightarrow> None | Some M \<Rightarrow> observe K M a)"
  by (simp add: monitor_run_def)

text \<open>The loop is at a monitor state, with the tools \<open>T\<close> in its context; the trace was accepted so far.\<close>

definition at_mon :: "(llm_context \<Rightarrow> bool) \<Rightarrow> agent_tool list option \<Rightarrow> monitor \<Rightarrow> 'h loop_state \<Rightarrow> bool" where
  "at_mon K T M s \<longleftrightarrow> monitor_run K (ls_trace s) = Some M \<and> ac_tools (ls_context s) = T"

definition accepted :: "(llm_context \<Rightarrow> bool) \<Rightarrow> 'h loop_state \<Rightarrow> bool" where
  "accepted K s \<longleftrightarrow> monitor_run K (ls_trace s) \<noteq> None"

lemma at_mon_accepted: "at_mon K T M s \<Longrightarrow> accepted K s"
  by (simp add: at_mon_def accepted_def)

lemma at_mon_host [simp]: "at_mon K T M (s\<lparr>ls_host := h\<rparr>) = at_mon K T M s"
  by (simp add: at_mon_def)

lemma at_mon_new [simp]: "at_mon K T M (s\<lparr>ls_newMessages := ms\<rparr>) = at_mon K T M s"
  by (simp add: at_mon_def)

lemma at_mon_messages [simp]:
  "at_mon K T M (s\<lparr>ls_context := (ls_context s)\<lparr>ac_messages := ms\<rparr>\<rparr>) = at_mon K T M s"
  by (simp add: at_mon_def)

section \<open>Triples of the primitive actions\<close>

lemma mon_read: "hoare (at_mon K T M) (read_state f) (\<lambda>_. at_mon K T M) (accepted K)"
  by (rule hoare_post, rule hoare_read) simp

lemma mon_step: "hoare (at_mon K T M) (host_step f) (\<lambda>_. at_mon K T M) (accepted K)"
  by (rule hoare_host_step) simp

lemma mon_call: "hoare (at_mon K T M) (host_call f) (\<lambda>_. at_mon K T M) (accepted K)"
  by (rule hoare_host_call) (simp_all add: at_mon_accepted)

lemma mon_try: "hoare (at_mon K T M) (try_call f) (\<lambda>_. at_mon K T M) (accepted K)"
  by (rule hoare_try_call) simp

lemma mon_aborted:
  "hoare (at_mon K T M) (aborted H) (\<lambda>ab s. at_mon K T M s \<and> ab = h_aborted H (ls_host s)) (accepted K)"
  by (rule hoare_aborted)

lemma mon_aborted_any: "hoare (at_mon K T M) (aborted H) (\<lambda>_. at_mon K T M) (accepted K)"
  by (rule hoare_post, rule hoare_aborted) simp

lemma mon_ret: "hoare (at_mon K T M) (ret a) (\<lambda>_. at_mon K T M) (accepted K)"
  by (rule hoare_ret)

lemma mon_raise: "hoare (at_mon K T M) (raise e) Q (accepted K)"
  by (rule hoare_raise) (rule at_mon_accepted)

lemma mon_push: "hoare (at_mon K T M) (push_message a) (\<lambda>_. at_mon K T M) (accepted K)"
  unfolding push_message_def by (rule hoare_update) simp

lemma mon_set_last: "hoare (at_mon K T M) (set_last_message a) (\<lambda>_. at_mon K T M) (accepted K)"
  unfolding set_last_message_def by (rule hoare_update) simp

lemma mon_push_new: "hoare (at_mon K T M) (push_new_message a) (\<lambda>_. at_mon K T M) (accepted K)"
  unfolding push_new_message_def by (rule hoare_update) simp

lemmas mon_silent = mon_read mon_step mon_call mon_try mon_aborted_any mon_ret mon_raise mon_push
  mon_set_last mon_push_new

lemma mon_record:
  assumes "observe K M (False, a) = Some M'"
  shows "hoare (\<lambda>s. at_mon K T M s \<and> \<not> h_aborted H (ls_host s)) (record_action H a) (\<lambda>_. at_mon K T M') (accepted K)"
  unfolding record_action_def by (rule hoare_update) (simp add: at_mon_def assms)

lemma mon_record_event:
  assumes "observe_event M e = Some M'"
  shows "hoare (at_mon K T M) (record_action H (Emitted e)) (\<lambda>_. at_mon K T M') (accepted K)"
  unfolding record_action_def by (rule hoare_update) (simp add: at_mon_def assms)

lemma mon_emit:
  assumes "observe_event M e = Some M'"
  shows "hoare (at_mon K T M) (emit H e) (\<lambda>_. at_mon K T M') (accepted K)"
  unfolding emit_def by (rule hoare_bnd [OF mon_record_event [OF assms] mon_call])

lemma mon_resolve:
  "hoare (at_mon K T M) (resolveMessageReplacement m r) (\<lambda>m' s. at_mon K T M s \<and> role m' = role m) (accepted K)"
  unfolding resolveMessageReplacement_def
  by (intro hoare_option hoare_if hoare_ret mon_raise) auto

lemma role_assistant: "role m = AssistantRole \<Longrightarrow> \<exists>a. m = assistant a"
  by (cases m rule: role.cases) auto

lemma role_tool_result: "role m = ToolResultRole \<Longrightarrow> \<exists>t. m = tool_result t"
  by (cases m rule: role.cases) auto

section \<open>Messages\<close>

text \<open>Where a whole message may be reported: between turns, or in a turn by its role.\<close>

definition reports :: "run_phase \<Rightarrow> message_role \<Rightarrow> bool" where
  "reports p r \<longleftrightarrow> p = BetweenTurns \<or> p = InTurn \<and> r \<in> {AssistantRole, ToolResultRole}"

lemma mon_completed:
  assumes "reports p (role m)"
  shows "hoare (at_mon K T (Mon p None c t)) (emitCompletedMessage H m d)
    (\<lambda>m' s. at_mon K T (Mon p None c t) s \<and> role m' = role m) (accepted K)"
proof -
  have "observe_event (Mon p None c t) (MessageStart m d) = Some (Mon p (Some (role m)) c t)"
    using assms by (auto simp: reports_def)
  moreover have "observe_event (Mon p (Some (role m)) c t) (MessageEnd m d) = Some (Mon p None c t)" by simp
  ultimately show ?thesis
    unfolding emitCompletedMessage_def by (intro hoare_bnd [OF mon_emit hoare_bnd [OF mon_emit mon_resolve]])
qed

lemma mon_tool_result:
  "hoare (at_mon K T (Mon InTurn None c t)) (emit_tool_result H r) (\<lambda>_. at_mon K T (Mon InTurn None c t)) (accepted K)"
  unfolding emit_tool_result_def
  by (rule hoare_bnd [OF mon_completed hoare_fact])
    (auto simp: reports_def as_tool_result_def dest!: role_tool_result intro!: hoare_ret)

lemma mon_boundary_abort:
  "hoare (at_mon K T (Mon BetweenTurns None [] t)) (emitBoundaryAbort H)
     (\<lambda>_. at_mon K T (Mon BetweenTurns None [] t)) (accepted K)"
  unfolding emitBoundaryAbort_def Let_def
  apply (rule hoare_bnd [OF mon_read], rule hoare_bnd [OF mon_step])
  apply (rule hoare_bnd [OF mon_emit], simp)
  apply (rule hoare_bnd [OF mon_emit], simp)
  apply (rule hoare_bnd [OF mon_emit], simp)
  apply (rule hoare_bnd [OF mon_resolve hoare_fact])
  apply (rule hoare_bnd [OF mon_push], rule hoare_bnd [OF mon_push_new])
  apply (rule hoare_bnd [OF mon_emit mon_ret], simp)
  done

lemma mon_agent_end:
  "hoare (at_mon K T (Mon BetweenTurns None [] t)) (emit_agent_end H)
     (\<lambda>_. at_mon K T (Mon RunEnded None [] t)) (accepted K)"
  unfolding emit_agent_end_def by (rule hoare_bnd [OF mon_read hoare_bnd [OF mon_emit mon_ret]]) simp

lemma mon_finish:
  "hoare (at_mon K T (Mon BetweenTurns None [] t)) (finish_loop H)
     (\<lambda>r s. r = LoopFinished \<and> at_mon K T (Mon RunEnded None [] t) s) (accepted K)"
  unfolding finish_loop_def by (rule hoare_bnd [OF mon_agent_end hoare_ret]) simp

lemma mon_finish_at_boundary:
  "hoare (at_mon K T (Mon BetweenTurns None [] t)) (finish_at_boundary H b)
     (\<lambda>r s. r = LoopFinished \<and> at_mon K T (Mon RunEnded None [] t) s) (accepted K)"
  unfolding finish_at_boundary_def
  by (rule hoare_bnd [OF hoare_if mon_finish]) (rule mon_boundary_abort mon_ret)+

section \<open>Deliveries\<close>

lemma mon_deliver_message:
  "hoare (at_mon K T (Mon BetweenTurns None c t)) (deliver_message H d m)
     (\<lambda>_. at_mon K T (Mon BetweenTurns None c t)) (accepted K)"
  unfolding deliver_message_def
  by (rule hoare_bnd [OF mon_completed hoare_fact [OF hoare_bnd [OF mon_push hoare_bnd [OF mon_push_new mon_ret]]]])
    (simp add: reports_def)

lemma mon_begin_delivery:
  "hoare (\<lambda>s. at_mon K T (Mon BetweenTurns None c t) s \<and> \<not> h_aborted H (ls_host s)) (begin_delivery H d)
     (\<lambda>_. at_mon K T (Mon BetweenTurns None c t)) (accepted K)"
  unfolding begin_delivery_def
  by (rule hoare_option, rule hoare_ret, simp, rule hoare_bnd [OF mon_record mon_call]) simp

lemma mon_emit_delivery:
  "hoare (at_mon K T (Mon BetweenTurns None c t)) (emit_delivery H d)
     (\<lambda>_. at_mon K T (Mon BetweenTurns None c t)) (accepted K)"
  unfolding emit_delivery_def
  apply (rule hoare_if_aborted [OF mon_ret hoare_bnd [OF mon_begin_delivery]])
  subgoal for settlement
    apply (cases settlement)
       apply (simp_all add: mon_raise mon_ret)
    apply (rule hoare_bnd [OF mon_emit hoare_bnd [OF hoare_for_each [OF mon_deliver_message] mon_ret]])
    apply simp
    done
  done

lemma mon_deliveries:
  "hoare (at_mon K T (Mon BetweenTurns None c t)) (emitDeliveries H ds)
     (\<lambda>_. at_mon K T (Mon BetweenTurns None c t)) (accepted K)"
  unfolding emitDeliveries_def by (rule hoare_bnd [OF hoare_for_each mon_ret]) (rule mon_emit_delivery)

section \<open>The provider stream\<close>

text \<open>A stream starts its message at most once, as the provider protocol says.\<close>

fun is_start :: "assistant_message_event \<Rightarrow> bool" where
  "is_start (StreamStart _ _ _) = True"
| "is_start _ = False"

fun starts_once :: "assistant_message_event list \<Rightarrow> bool" where
  "starts_once [] = True"
| "starts_once (e # es) = (if is_start e then list_all (\<lambda>e. \<not> is_start e) es else starts_once es)"

definition streams_start_once :: "'h agent_host \<Rightarrow> bool" where
  "streams_start_once H \<longleftrightarrow>
     (\<forall>md r c h response h'. h_streamFn H md r c h = (Inr response, h') \<longrightarrow> starts_once (sr_events response))"

lemma mon_as_assistant:
  "role m = AssistantRole \<Longrightarrow> hoare (at_mon K T M) (as_assistant m) (\<lambda>_. at_mon K T M) (accepted K)"
  by (auto simp: as_assistant_def dest!: role_assistant intro: mon_ret)

lemma mon_finish_tail:
  "hoare (at_mon K T (Mon InTurn (Some AssistantRole) c t))
     (bnd (emit H (MessageEnd (assistant m) None)) (\<lambda>replacement.
      bnd (resolveMessageReplacement (assistant m) replacement) (\<lambda>emittedMessage.
      bnd (set_last_message emittedMessage) (\<lambda>_. as_assistant emittedMessage))))
     (\<lambda>_. at_mon K T (Mon InTurn None c t)) (accepted K)"
  apply (rule hoare_bnd [OF mon_emit], simp)
  apply (rule hoare_bnd [OF mon_resolve hoare_fact])
  apply (rule hoare_bnd [OF mon_set_last mon_as_assistant], simp)
  done

definition streaming :: "bool \<Rightarrow> message_role option" where
  "streaming added = (if added then Some AssistantRole else None)"

lemma mon_finish_stream:
  "hoare (at_mon K T (Mon InTurn (streaming added) [] t)) (finish_stream H response added)
     (\<lambda>_. at_mon K T (Mon InTurn None [] t)) (accepted K)"
proof (cases "sr_result response")
  case (Inr m)
  have "hoare (at_mon K T (Mon InTurn (streaming added) [] t))
      (if added then ret None else emit H (MessageStart (assistant m) None))
      (\<lambda>_. at_mon K T (Mon InTurn (Some AssistantRole) [] t)) (accepted K)"
    by (cases added) (simp_all add: streaming_def mon_ret mon_emit)
  then show ?thesis
    unfolding finish_stream_def Inr sum.case
    by (rule hoare_bnd [OF hoare_if [OF mon_set_last mon_push] hoare_bnd [OF _ mon_finish_tail]])
qed (simp add: finish_stream_def mon_raise)

lemma mon_stream_events:
  assumes "if added then list_all (\<lambda>e. \<not> is_start e) es else starts_once es"
  shows "hoare (at_mon K T (Mon InTurn (streaming added) [] t)) (stream_events H response added es)
    (\<lambda>_. at_mon K T (Mon InTurn None [] t)) (accepted K)"
  using assms
proof (induction H response added es rule: stream_events.induct)
  case (1 H response added)
  show ?case by (auto intro!: hoare_option mon_raise mon_finish_stream)
next
  case (2 H response added q snapshot st es)
  then have "\<not> added" "list_all (\<lambda>e. \<not> is_start e) es" by (auto split: if_splits)
  then have "hoare (at_mon K T (Mon InTurn (Some AssistantRole) [] t)) (stream_events H response True es)
    (\<lambda>_. at_mon K T (Mon InTurn None [] t)) (accepted K)"
    using 2 by (simp add: streaming_def)
  then show ?case using \<open>\<not> added\<close>
    by (auto simp: streaming_def intro!: hoare_bnd [OF mon_push hoare_bnd [OF mon_emit]])
next
  case (3 H response added b q i snapshot st es)
  show ?case
  proof (cases added)
    case True
    with 3 have "hoare (at_mon K T (Mon InTurn (Some AssistantRole) [] t)) (stream_events H response True es)
      (\<lambda>_. at_mon K T (Mon InTurn None [] t)) (accepted K)"
      by (simp add: streaming_def)
    then show ?thesis using True
      by (auto simp: streaming_def intro!: hoare_bnd [OF mon_set_last hoare_bnd [OF mon_emit]])
  next
    case False
    with 3 show ?thesis by (simp add: streaming_def)
  qed
qed (simp_all add: mon_finish_stream)

text \<open>The requests that \<open>K\<close> must accept: those made from what the converter returns.\<close>

definition converts_to :: "(llm_context \<Rightarrow> bool) \<Rightarrow> 'h agent_host \<Rightarrow> bool" where
  "converts_to K H \<longleftrightarrow>
     (\<forall>ms h llm h'. h_convertToLlm H ms h = (Inr llm, h') \<longrightarrow> \<not> assistant_tail llm \<longrightarrow>
        (\<forall>prompt tools. K \<lparr>lc_systemPrompt = prompt, lc_messages = applyReplayPolicy llm, lc_tools = tools\<rparr>))"

lemma converts_toD:
  assumes "converts_to K H" "\<exists>h h'. h_convertToLlm H ms h = (Inr llm, h')" "\<not> assistant_tail llm"
  shows "K \<lparr>lc_systemPrompt = prompt, lc_messages = applyReplayPolicy llm, lc_tools = tools\<rparr>"
  using assms unfolding converts_to_def by blast

lemma mon_convert:
  "hoare (at_mon K T M) (host_call (h_convertToLlm H ms))
     (\<lambda>llm s. at_mon K T M s \<and> (\<exists>h h'. h_convertToLlm H ms h = (Inr llm, h'))) (accepted K)"
  by (rule hoareI) (auto simp: host_call_def at_mon_def accepted_def split: prod.splits sum.splits)

lemma mon_stream_fn:
  "hoare (at_mon K T M) (host_call (h_streamFn H md r c))
     (\<lambda>resp s. at_mon K T M s \<and> (\<exists>h h'. h_streamFn H md r c h = (Inr resp, h'))) (accepted K)"
  by (rule hoareI) (auto simp: host_call_def at_mon_def accepted_def split: prod.splits sum.splits)

lemma mon_transform: "hoare (at_mon K T M) (transform_context H ms) (\<lambda>_. at_mon K T M) (accepted K)"
  unfolding transform_context_def by (intro hoare_option mon_ret mon_call)

text \<open>Nothing was requested, or the request offered \<open>tools\<close>.\<close>

definition responded ::
    "(llm_context \<Rightarrow> bool) \<Rightarrow> agent_tool list option \<Rightarrow> agent_tool list option \<Rightarrow> agent_tool list
     \<Rightarrow> assistant_message option \<Rightarrow> 'h loop_state \<Rightarrow> bool" where
  "responded K T tools t r =
     (case r of None \<Rightarrow> at_mon K T (Mon InTurn None [] t) | Some _ \<Rightarrow> at_mon K T (Mon InTurn None [] (offered tools)))"

lemma mon_stream:
  assumes "streams_start_once H" "converts_to K H"
  shows "hoare (at_mon K T (Mon InTurn None [] t)) (streamAssistantResponse H prompt tools)
    (responded K T tools t) (accepted K)"
proof -
  have request: "hoare (\<lambda>s. at_mon K T (Mon InTurn None [] t) s \<and> \<not> h_aborted H (ls_host s))
      (bnd (record_action H (Requested md c)) (\<lambda>_. bnd (host_call (h_streamFn H md r c)) (\<lambda>response.
       bnd (stream_events H response False (sr_events response)) (\<lambda>m. ret (Some m)))))
      (responded K T tools t) (accepted K)" if c: "K c" "lc_tools c = tools" for md r c
  proof (rule hoare_bnd [OF mon_record hoare_bnd [OF mon_stream_fn hoare_fact]])
    show "observe K (Mon InTurn None [] t) (False, Requested md c) = Some (Mon InTurn (streaming False) [] (offered tools))"
      using c by (simp add: streaming_def)
    fix x resp
    assume "\<exists>h h'. h_streamFn H md r c h = (Inr resp, h')"
    then have "starts_once (sr_events resp)" using assms(1) unfolding streams_start_once_def by blast
    then show "hoare (at_mon K T (Mon InTurn (streaming False) [] (offered tools)))
      (bnd (stream_events H resp False (sr_events resp)) (\<lambda>m. ret (Some m))) (responded K T tools t) (accepted K)"
      by (intro hoare_bnd [OF mon_stream_events hoare_ret]) (auto simp: responded_def)
  qed
  have none: "hoare (at_mon K T (Mon InTurn None [] t)) (ret None) (responded K T tools t) (accepted K)"
    by (rule hoare_ret) (simp add: responded_def)
  show ?thesis
    unfolding streamAssistantResponse_def Let_def
    apply (rule hoare_bnd [OF mon_read hoare_bnd [OF mon_transform]])
    apply (rule hoare_if_aborted [OF none hoare_pre [OF hoare_bnd [OF mon_convert hoare_fact]]])
     apply (rule hoare_if_aborted [OF none])
     apply (rule hoare_if [OF hoare_raise])
      apply (blast dest: at_mon_accepted)
     apply (rule hoare_pre [OF hoare_bnd [OF mon_read hoare_bnd [OF mon_read]]])
      apply (rule hoare_if_aborted [OF none request])
    using converts_toD [OF assms(2)] by auto
qed

section \<open>Tool calls\<close>

abbreviation in_turn :: "string list \<Rightarrow> agent_tool list \<Rightarrow> monitor" where
  "in_turn c t \<equiv> Mon InTurn None c t"

text \<open>A prepared call is the call itself with a tool of the context under the call's name.\<close>

definition prepares :: "agent_tool list option \<Rightarrow> tool_call \<Rightarrow> prepared_tool_call \<Rightarrow> bool" where
  "prepares T tc p \<longleftrightarrow> pt_toolCall p = tc \<and> pt_tool p \<in> set (offered T) \<and> at_name (pt_tool p) = tc_name tc"

fun preparation_ok :: "agent_tool list option \<Rightarrow> tool_call \<Rightarrow> tool_preparation \<Rightarrow> bool" where
  "preparation_ok T tc (PreparedCall p) = prepares T tc p"
| "preparation_ok T tc (ImmediateOutcome r e) = True"

lemma find_tool_offered: "find_tool T n = Some t \<Longrightarrow> t \<in> set (offered T) \<and> at_name t = n"
  by (auto simp: find_tool_def offered_def find_Some_iff split: option.splits)

lemma mon_immediate:
  "hoare (at_mon K T M) (immediate_error e) (\<lambda>p s. at_mon K T M s \<and> preparation_ok T tc p) (accepted K)"
  unfolding immediate_error_def by (rule hoare_ret) simp

lemma mon_before: "hoare (at_mon K T M) (call_beforeToolCall H m tc args c) (\<lambda>_. at_mon K T M) (accepted K)"
  unfolding call_beforeToolCall_def by (intro hoare_option mon_ret mon_try)

lemma mon_prepared:
  assumes "find_tool T (tc_name tc) = Some tool"
  shows "hoare (at_mon K T M) (ret (PreparedCall \<lparr>pt_toolCall = tc, pt_tool = tool, pt_args = args\<rparr>))
    (\<lambda>p s. at_mon K T M s \<and> preparation_ok T tc p) (accepted K)"
  using find_tool_offered [OF assms] by (intro hoare_ret) (simp add: prepares_def)

lemma mon_context: "hoare (at_mon K T M) (read_state ls_context) (\<lambda>c s. at_mon K T M s \<and> ac_tools c = T) (accepted K)"
  by (rule hoare_post [OF hoare_read]) (simp add: at_mon_def)

lemma mon_prepare:
  "hoare (at_mon K T M) (prepareToolCall H m tc) (\<lambda>p s. at_mon K T M s \<and> preparation_ok T tc p) (accepted K)"
  unfolding prepareToolCall_def
  by (rule hoare_bnd [OF mon_context hoare_fact])
    (auto intro!: hoare_option hoare_sum mon_immediate hoare_bnd [OF mon_before]
      hoare_bnd [OF mon_aborted_any hoare_if] hoare_if mon_prepared)

lemma mon_start_tool_call:
  "hoare (at_mon K T (in_turn c t)) (start_tool_call H m tc)
     (\<lambda>p s. at_mon K T (in_turn (tc_id tc # c) t) s \<and> preparation_ok T tc (snd p)) (accepted K)"
  unfolding start_tool_call_def
  by (rule hoare_bnd [OF mon_step hoare_bnd [OF mon_emit hoare_bnd [OF mon_prepare hoare_ret]]]) simp_all

lemma mon_start_execution:
  assumes "tc_id (pt_toolCall p) \<in> set c" "prepares T (pt_toolCall p) p"
  shows "hoare (at_mon K T (in_turn c (offered T))) (start_execution H p)
    (\<lambda>_. at_mon K T (in_turn c (offered T))) (accepted K)"
  unfolding start_execution_def
  by (rule hoare_if_aborted [OF mon_ret hoare_bnd [OF mon_record mon_step]])
    (use assms in \<open>simp add: prepares_def\<close>)

lemma mon_emit_update:
  assumes "tc_id (pt_toolCall p) \<in> set c"
  shows "hoare (at_mon K T (in_turn c t)) (emit_update H p f u) (\<lambda>_. at_mon K T (in_turn c t)) (accepted K)"
  unfolding emit_update_def Let_def
  by (rule hoare_bnd [OF mon_record_event hoare_bnd [OF mon_try mon_ret]]) (use assms in simp)

lemma mon_emit_updates:
  assumes "tc_id (pt_toolCall p) \<in> set c"
  shows "hoare (at_mon K T (in_turn c t)) (emit_updates H p f us) (\<lambda>_. at_mon K T (in_turn c t)) (accepted K)"
  by (induction us arbitrary: f)
    (auto intro!: mon_ret hoare_bnd [OF mon_emit_update [OF assms]])

lemma mon_settle: "hoare (at_mon K T M) (settle_updates f a) (\<lambda>b s. at_mon K T M s \<and> b = a) (accepted K)"
  unfolding settle_updates_def by (intro hoare_option mon_raise hoare_ret) simp

lemma mon_execute:
  assumes "tc_id (pt_toolCall p) \<in> set c" "prepares T (pt_toolCall p) p"
  shows "hoare (at_mon K T (in_turn c (offered T))) (executePreparedToolCall H p)
    (\<lambda>_. at_mon K T (in_turn c (offered T))) (accepted K)"
  unfolding executePreparedToolCall_def
  by (rule hoare_bnd [OF mon_start_execution [OF assms] hoare_bnd [OF mon_emit_updates [OF assms(1)]
        hoare_post [OF mon_settle]]]) simp

lemma mon_finalize:
  "hoare (at_mon K T M) (finalizeExecutedToolCall H m p e)
     (\<lambda>f s. at_mon K T M s \<and> ft_toolCall f = pt_toolCall p) (accepted K)"
  unfolding finalizeExecutedToolCall_def Let_def
  by (auto intro!: hoare_option hoare_ret hoare_bnd [OF mon_read hoare_bnd [OF mon_try]] split: prod.splits)

lemma mon_end_call:
  assumes "tc_id (ft_toolCall f) \<in> set c"
  shows "hoare (at_mon K T (in_turn c t)) (endToolCall H f startedAt)
    (\<lambda>e s. at_mon K T (in_turn (remove1 (tc_id (ft_toolCall f)) c) t) s \<and> ft_toolCall e = ft_toolCall f) (accepted K)"
  unfolding endToolCall_def
  by (rule hoare_bnd [OF mon_step hoare_bnd [OF mon_emit hoare_ret]])
    (use assms in \<open>simp_all add: finalized_tool_call.extend_def\<close>)

lemma mon_ended_call:
  "hoare (at_mon K T (in_turn c t)) (emit_ended_call H e) (\<lambda>_. at_mon K T (in_turn c t)) (accepted K)"
  unfolding emit_ended_call_def by (rule hoare_bnd [OF mon_step mon_tool_result])

lemma mon_finalize_sequential:
  assumes "preparation_ok T tc p" "tc_id tc \<in> set c"
  shows "hoare (at_mon K T (in_turn c (offered T))) (finalize_sequential H m tc p)
    (\<lambda>f s. at_mon K T (in_turn c (offered T)) s \<and> ft_toolCall f = tc) (accepted K)"
proof (cases p)
  case (PreparedCall q)
  with assms have "prepares T (pt_toolCall q) q" "tc_id (pt_toolCall q) \<in> set c" "pt_toolCall q = tc"
    by (auto simp: prepares_def)
  then show ?thesis
    unfolding finalize_sequential_def PreparedCall
    using hoare_bnd [OF mon_execute mon_finalize] by fastforce
qed (simp add: finalize_sequential_def hoare_ret)

lemma mon_sequential_calls:
  "hoare (at_mon K T (in_turn [] (offered T))) (sequential_calls H m tcs)
     (\<lambda>_. at_mon K T (in_turn [] (offered T))) (accepted K)"
proof (induction tcs)
  case (Cons tc tcs)
  have run: "hoare (at_mon K T (in_turn [tc_id tc] (offered T)))
      (bnd (finalize_sequential H m tc p) (\<lambda>finalized. bnd (endToolCall H finalized st) (\<lambda>ended.
       bnd (emit_ended_call H ended) (\<lambda>message. bnd (aborted H) (\<lambda>ab.
         if ab then ret [(ended, message)]
         else bnd (sequential_calls H m tcs) (\<lambda>others. ret ((ended, message) # others)))))))
      (\<lambda>_. at_mon K T (in_turn [] (offered T))) (accepted K)" if "preparation_ok T tc p" for p st
    apply (rule hoare_bnd [OF mon_finalize_sequential [OF that] hoare_fact], simp)
    apply (rule hoare_bnd [OF mon_end_call hoare_fact], simp)
    apply simp
    apply (rule hoare_bnd [OF mon_ended_call hoare_bnd [OF mon_aborted_any hoare_if [OF mon_ret hoare_bnd [OF Cons.IH mon_ret]]]])
    done
  show ?case
    unfolding sequential_calls.simps
    by (rule hoare_bnd [OF mon_start_tool_call hoare_fact]) (auto intro!: hoare_prod run)
qed (simp add: mon_ret)

lemma mon_sequential:
  "hoare (at_mon K T (in_turn [] (offered T))) (executeToolCallsSequential H m tcs)
     (\<lambda>_. at_mon K T (in_turn [] (offered T))) (accepted K)"
  unfolding executeToolCallsSequential_def by (rule hoare_bnd [OF mon_sequential_calls mon_ret])

end
