(* ===== verification/Agent_Results.thy ===== *)
theory Agent_Results
  imports Agent_Monitor
begin

text \<open>
  What the functions of the loop leave unchanged, and what they return: state predicates that every host
  call keeps, the call each tool result belongs to, and that a batch answers all its calls unless the
  run is aborted.
\<close>

section \<open>Predicates the host keeps\<close>

definition steps_keep :: "('h \<Rightarrow> bool) \<Rightarrow> ('h \<Rightarrow> 'a \<times> 'h) \<Rightarrow> bool" where
  "steps_keep I f \<longleftrightarrow> (\<forall>h. I h \<longrightarrow> I (snd (f h)))"

definition option_keeps :: "('h \<Rightarrow> bool) \<Rightarrow> ('x \<Rightarrow> 'h \<Rightarrow> 'a \<times> 'h) option \<Rightarrow> bool" where
  "option_keeps I f \<longleftrightarrow> (case f of None \<Rightarrow> True | Some g \<Rightarrow> \<forall>x. steps_keep I (g x))"

text \<open>Every call of the host keeps \<open>I\<close>, the dispatcher's apart.\<close>

definition host_keeps :: "'h agent_host \<Rightarrow> ('h \<Rightarrow> bool) \<Rightarrow> bool" where
  "host_keeps H I \<longleftrightarrow>
     steps_keep I (h_now H) \<and> (\<forall>e. steps_keep I (h_emit H e))
     \<and> option_keeps I (h_beginDelivery H) \<and> option_keeps I (h_prepareRequest H)
     \<and> option_keeps I (h_transformContext H) \<and> (\<forall>ms. steps_keep I (h_convertToLlm H ms))
     \<and> (\<forall>md r c. steps_keep I (h_streamFn H md r c))
     \<and> option_keeps I (h_beforeToolCall H) \<and> (\<forall>t i a. steps_keep I (h_execute H t i a))
     \<and> option_keeps I (h_afterToolCall H) \<and> (\<forall>l. steps_keep I (h_schedule H l))"

text \<open>A state predicate with a host part that every call keeps and a part of the context and the new messages.\<close>

definition holds_at :: "('h \<Rightarrow> bool) \<Rightarrow> (agent_context \<Rightarrow> agent_message list \<Rightarrow> bool) \<Rightarrow> 'h loop_state \<Rightarrow> bool" where
  "holds_at I A s \<longleftrightarrow> I (ls_host s) \<and> A (ls_context s) (ls_newMessages s)"

abbreviation keeps :: "('h \<Rightarrow> bool) \<Rightarrow> (agent_context \<Rightarrow> agent_message list \<Rightarrow> bool) \<Rightarrow> ('h, 'a) act \<Rightarrow> bool" where
  "keeps I A m \<equiv> hoare (holds_at I A) m (\<lambda>_. holds_at I A) (\<lambda>s. I (ls_host s))"

named_theorems keeps_intros \<open>actions that keep a stable predicate\<close>

lemma keeps_bnd [keeps_intros]: "keeps I A m \<Longrightarrow> (\<And>a. keeps I A (f a)) \<Longrightarrow> keeps I A (bnd m f)"
  by (rule hoare_bnd)

lemma keeps_ret [keeps_intros]: "keeps I A (ret a)"
  by (rule hoare_ret)

lemma keeps_raise [keeps_intros]: "keeps I A (raise e)"
  by (rule hoare_raise) (simp add: holds_at_def)

lemma keeps_read [keeps_intros]: "keeps I A (read_state f)"
  by (rule hoare_post [OF hoare_read]) simp

lemma keeps_aborted [keeps_intros]: "keeps I A (aborted H)"
  by (rule hoare_post [OF hoare_aborted]) simp

lemma keeps_record [keeps_intros]: "keeps I A (record_action H a)"
  unfolding record_action_def by (rule hoare_update) (simp add: holds_at_def)

lemma steps_keepD: "steps_keep I f \<Longrightarrow> I h \<Longrightarrow> f h = (a, h') \<Longrightarrow> I h'"
  by (metis snd_conv steps_keep_def)

lemma keeps_host_call: "steps_keep I f \<Longrightarrow> keeps I A (host_call f)"
  by (rule hoareI) (auto simp: host_call_def holds_at_def split: prod.splits sum.splits dest: steps_keepD)

lemma keeps_try_call: "steps_keep I f \<Longrightarrow> keeps I A (try_call f)"
  by (rule hoareI) (auto simp: try_call_def holds_at_def split: prod.splits dest: steps_keepD)

lemma keeps_host_step: "steps_keep I f \<Longrightarrow> keeps I A (host_step f)"
  by (rule hoareI) (auto simp: host_step_def holds_at_def split: prod.splits dest: steps_keepD)

lemma keeps_if [keeps_intros]: "(b \<Longrightarrow> keeps I A m) \<Longrightarrow> (\<not> b \<Longrightarrow> keeps I A n) \<Longrightarrow> keeps I A (if b then m else n)"
  by simp

lemma keeps_option [keeps_intros]:
  "(x = None \<Longrightarrow> keeps I A m) \<Longrightarrow> (\<And>y. x = Some y \<Longrightarrow> keeps I A (f y))
   \<Longrightarrow> keeps I A (case x of None \<Rightarrow> m | Some y \<Rightarrow> f y)"
  by (cases x) auto

lemma keeps_sum [keeps_intros]:
  "(\<And>y. x = Inl y \<Longrightarrow> keeps I A (f y)) \<Longrightarrow> (\<And>y. x = Inr y \<Longrightarrow> keeps I A (g y))
   \<Longrightarrow> keeps I A (case x of Inl y \<Rightarrow> f y | Inr y \<Rightarrow> g y)"
  by (cases x) auto

lemma keeps_prod [keeps_intros]: "(\<And>y z. keeps I A (f y z)) \<Longrightarrow> keeps I A (case x of (y, z) \<Rightarrow> f y z)"
  by (cases x) auto

lemma keeps_for_each [keeps_intros]: "(\<And>x. keeps I A (f x)) \<Longrightarrow> keeps I A (for_each f xs)"
  by (rule hoare_for_each)

section \<open>Functions that leave the transcript alone\<close>

lemma keeps_now [keeps_intros]: "host_keeps H I \<Longrightarrow> keeps I A (host_step (h_now H))"
  by (simp add: host_keeps_def keeps_host_step)

lemma keeps_execute_tool [keeps_intros]: "host_keeps H I \<Longrightarrow> keeps I A (host_step (h_execute H t i a))"
  by (simp add: host_keeps_def keeps_host_step)

lemma keeps_schedule [keeps_intros]: "host_keeps H I \<Longrightarrow> keeps I A (host_step (h_schedule H l))"
  by (simp add: host_keeps_def keeps_host_step)

lemma keeps_emit [keeps_intros]: "host_keeps H I \<Longrightarrow> keeps I A (emit H e)"
  unfolding emit_def by (intro keeps_intros keeps_host_call) (simp add: host_keeps_def)

lemma keeps_try_emit [keeps_intros]: "host_keeps H I \<Longrightarrow> keeps I A (try_call (h_emit H e))"
  by (simp add: host_keeps_def keeps_try_call)

lemma keeps_convert [keeps_intros]: "host_keeps H I \<Longrightarrow> keeps I A (host_call (h_convertToLlm H ms))"
  by (simp add: host_keeps_def keeps_host_call)

lemma keeps_stream_fn [keeps_intros]: "host_keeps H I \<Longrightarrow> keeps I A (host_call (h_streamFn H md r c))"
  by (simp add: host_keeps_def keeps_host_call)

lemma option_keepsD: "option_keeps I f \<Longrightarrow> f = Some g \<Longrightarrow> steps_keep I (g x)"
  by (simp add: option_keeps_def)

lemma keeps_hooks [keeps_intros]:
  assumes "host_keeps H I"
  shows "h_beginDelivery H = Some f \<Longrightarrow> keeps I A (host_call (f d))"
    "h_prepareRequest H = Some f2 \<Longrightarrow> keeps I A (host_call (f2 c))"
    "h_transformContext H = Some f3 \<Longrightarrow> keeps I A (host_call (f3 ms))"
    "h_beforeToolCall H = Some f4 \<Longrightarrow> keeps I A (try_call (f4 b))"
    "h_afterToolCall H = Some f5 \<Longrightarrow> keeps I A (try_call (f5 a))"
  using assms by (auto simp: host_keeps_def intro!: keeps_host_call keeps_try_call elim: option_keepsD)

lemma keeps_resolve [keeps_intros]: "keeps I A (resolveMessageReplacement m r)"
  unfolding resolveMessageReplacement_def by (intro keeps_intros)

lemma keeps_as [keeps_intros]: "keeps I A (as_assistant m)" "keeps I A (as_tool_result m)"
  by (auto simp: as_assistant_def as_tool_result_def intro!: keeps_intros split: agent_message.split log_message.split)

lemma keeps_completed [keeps_intros]: "host_keeps H I \<Longrightarrow> keeps I A (emitCompletedMessage H m d)"
  unfolding emitCompletedMessage_def by (intro keeps_intros)

lemma keeps_tool_result [keeps_intros]: "host_keeps H I \<Longrightarrow> keeps I A (emit_tool_result H t)"
  unfolding emit_tool_result_def by (intro keeps_intros)

lemma keeps_agent_end [keeps_intros]: "host_keeps H I \<Longrightarrow> keeps I A (emit_agent_end H)"
  unfolding emit_agent_end_def by (intro keeps_intros)

lemma keeps_finish_loop [keeps_intros]: "host_keeps H I \<Longrightarrow> keeps I A (finish_loop H)"
  unfolding finish_loop_def by (intro keeps_intros)

lemma keeps_begin [keeps_intros]: "host_keeps H I \<Longrightarrow> keeps I A (begin_delivery H d)"
  unfolding begin_delivery_def by (intro keeps_intros)

lemma keeps_transform [keeps_intros]: "host_keeps H I \<Longrightarrow> keeps I A (transform_context H ms)"
  unfolding transform_context_def by (intro keeps_intros)

lemma keeps_prepare_call [keeps_intros]: "host_keeps H I \<Longrightarrow> keeps I A (prepareToolCall H m tc)"
  unfolding prepareToolCall_def call_beforeToolCall_def immediate_error_def
  by (intro keeps_intros)

lemma keeps_start_execution [keeps_intros]: "host_keeps H I \<Longrightarrow> keeps I A (start_execution H p)"
  unfolding start_execution_def by (intro keeps_intros)

lemma keeps_emit_update [keeps_intros]: "host_keeps H I \<Longrightarrow> keeps I A (emit_update H p f u)"
  unfolding emit_update_def Let_def by (intro keeps_intros)

lemma keeps_emit_updates [keeps_intros]: "host_keeps H I \<Longrightarrow> keeps I A (emit_updates H p f us)"
  by (induction us arbitrary: f) (auto intro!: keeps_intros)

lemma keeps_settle [keeps_intros]: "keeps I A (settle_updates f a)"
  unfolding settle_updates_def by (intro keeps_intros)

lemma keeps_execute [keeps_intros]: "host_keeps H I \<Longrightarrow> keeps I A (executePreparedToolCall H p)"
  unfolding executePreparedToolCall_def by (intro keeps_intros)

lemma keeps_finalize [keeps_intros]: "host_keeps H I \<Longrightarrow> keeps I A (finalizeExecutedToolCall H m p e)"
  unfolding finalizeExecutedToolCall_def Let_def by (intro keeps_intros)

lemma keeps_end_call [keeps_intros]: "host_keeps H I \<Longrightarrow> keeps I A (endToolCall H f st)"
  unfolding endToolCall_def by (intro keeps_intros)

lemma keeps_ended_call [keeps_intros]: "host_keeps H I \<Longrightarrow> keeps I A (emit_ended_call H e)"
  unfolding emit_ended_call_def by (intro keeps_intros)

lemma keeps_start_tool_call [keeps_intros]: "host_keeps H I \<Longrightarrow> keeps I A (start_tool_call H m tc)"
  unfolding start_tool_call_def by (intro keeps_intros)

lemma keeps_preparation:
  "(\<And>p. keeps I A (f p)) \<Longrightarrow> (\<And>r e. keeps I A (g r e))
   \<Longrightarrow> keeps I A (case p of PreparedCall q \<Rightarrow> f q | ImmediateOutcome r e \<Rightarrow> g r e)"
  by (cases p) auto

lemma keeps_finalize_sequential [keeps_intros]:
  "host_keeps H I \<Longrightarrow> keeps I A (finalize_sequential H m tc p)"
  unfolding finalize_sequential_def by (intro keeps_preparation keeps_intros)

lemma keeps_sequential_calls [keeps_intros]: "host_keeps H I \<Longrightarrow> keeps I A (sequential_calls H m tcs)"
proof (induction tcs)
  case (Cons tc tcs)
  then show ?case unfolding sequential_calls.simps by (intro keeps_intros)
qed (simp add: keeps_ret)

lemma keeps_prepare_parallel [keeps_intros]: "host_keeps H I \<Longrightarrow> keeps I A (prepare_parallel H m tcs)"
proof (induction tcs)
  case (Cons tc tcs)
  then show ?case unfolding prepare_parallel.simps by (intro keeps_intros keeps_preparation)
qed (simp add: keeps_ret)

lemma keeps_start_call [keeps_intros]: "host_keeps H I \<Longrightarrow> keeps I A (start_call H p)"
  unfolding start_call_def by (cases p) (auto intro!: keeps_intros)

lemma keeps_advance [keeps_intros]: "host_keeps H I \<Longrightarrow> keeps I A (advance_call H m p)"
  by (cases "(H, m, p)" rule: advance_call.cases) (auto intro!: keeps_intros)

lemma keeps_interleave [keeps_intros]: "host_keeps H I \<Longrightarrow> keeps I A (interleave_calls n H m ps)"
proof (induction n arbitrary: ps)
  case (Suc n)
  then show ?case unfolding interleave_calls.simps Let_def by (intro keeps_intros)
qed (simp add: keeps_ret)

lemma keeps_tool_calls [keeps_intros]: "host_keeps H I \<Longrightarrow> keeps I A (executeToolCalls H m)"
  unfolding executeToolCalls_def executeToolCallsSequential_def executeToolCallsParallel_def Let_def
  by (intro keeps_intros)

section \<open>Functions that write the transcript\<close>

text \<open>
  \<open>F xs\<close> relates the context and the new messages while the context is \<open>xs\<close> ahead of the new messages.
\<close>

definition tracks :: "(agent_message list \<Rightarrow> agent_context \<Rightarrow> agent_message list \<Rightarrow> bool) \<Rightarrow> bool" where
  "tracks F \<longleftrightarrow>
     (\<forall>xs c n m. F xs c n \<longrightarrow> F (xs @ [m]) (c\<lparr>ac_messages := ac_messages c @ [m]\<rparr>) n)
     \<and> (\<forall>xs c n m. F (m # xs) c n \<longrightarrow> F xs c (n @ [m]))
     \<and> (\<forall>xs c n m m'. F (xs @ [m]) c n \<longrightarrow> F (xs @ [m']) (c\<lparr>ac_messages := replace_last (ac_messages c) m'\<rparr>) n)"

lemma tracks_true: "tracks (\<lambda>_ _ _. True)"
  by (simp add: tracks_def)

text \<open>
  The messages of the context are those it started from followed by the new ones, or those of a context the request
  preparation returned followed by the messages that are new since it was called.
\<close>

definition prepared_context :: "'h agent_host \<Rightarrow> agent_message list \<Rightarrow> agent_message list \<Rightarrow> bool" where
  "prepared_context H base old \<longleftrightarrow>
     (\<exists>f x h u h' c. h_prepareRequest H = Some f \<and> nc_newMessages x = old \<and> f x h = (Inr (Some u), h')
        \<and> ru_context u = Some c \<and> ac_messages c = base)"

definition accounted ::
    "'h agent_host \<Rightarrow> agent_message list \<Rightarrow> agent_message list \<Rightarrow> agent_context \<Rightarrow> agent_message list \<Rightarrow> bool" where
  "accounted H start xs c n \<longleftrightarrow>
     (\<exists>base old added. ac_messages c = base @ added @ xs \<and> n = old @ added
        \<and> (base = start \<and> old = [] \<or> prepared_context H base old))"

lemma accountedI:
  "ac_messages c = base @ added @ xs \<Longrightarrow> n = old @ added \<Longrightarrow> base = start \<and> old = [] \<or> prepared_context H base old
   \<Longrightarrow> accounted H start xs c n"
  unfolding accounted_def by blast

lemma accounted_step:
  assumes "accounted H start xs c n" "\<And>ys. ac_messages c = ys @ xs \<Longrightarrow> ac_messages c' = ys @ zs"
  shows "accounted H start zs c' n"
proof -
  obtain base old added where "ac_messages c = base @ added @ xs" "n = old @ added"
    "base = start \<and> old = [] \<or> prepared_context H base old" using assms(1) unfolding accounted_def by blast
  with assms(2) [of "base @ added"] show ?thesis by (intro accountedI) simp_all
qed

lemma accounted_move:
  assumes "accounted H start (m # xs) c n"
  shows "accounted H start xs c (n @ [m])"
proof -
  obtain base old added where "ac_messages c = base @ added @ m # xs" "n = old @ added"
    "base = start \<and> old = [] \<or> prepared_context H base old" using assms unfolding accounted_def by blast
  then show ?thesis by (intro accountedI [of _ base "added @ [m]"]) simp_all
qed

lemma tracks_accounted: "tracks (accounted H start)"
  unfolding tracks_def
  by (auto intro: accounted_move elim!: accounted_step simp: replace_last_def butlast_append)

lemma track_push:
  "tracks F \<Longrightarrow> hoare (holds_at I (F xs)) (push_message m) (\<lambda>_. holds_at I (F (xs @ [m]))) (\<lambda>s. I (ls_host s))"
  unfolding push_message_def by (rule hoare_update) (simp add: holds_at_def tracks_def)

lemma track_push_new:
  "tracks F \<Longrightarrow> hoare (holds_at I (F (m # xs))) (push_new_message m) (\<lambda>_. holds_at I (F xs)) (\<lambda>s. I (ls_host s))"
  unfolding push_new_message_def by (rule hoare_update) (simp add: holds_at_def tracks_def)

lemma track_set_last:
  "tracks F \<Longrightarrow> hoare (holds_at I (F (xs @ [m]))) (set_last_message m') (\<lambda>_. holds_at I (F (xs @ [m']))) (\<lambda>s. I (ls_host s))"
  unfolding set_last_message_def tracks_def by (rule hoare_update) (simp add: holds_at_def, blast)

lemma track_first: "tracks F \<Longrightarrow> hoare (holds_at I (F [])) (push_message m) (\<lambda>_. holds_at I (F [m])) (\<lambda>s. I (ls_host s))"
  using track_push [of F I "[]"] by simp

lemma track_replace:
  "tracks F \<Longrightarrow> hoare (holds_at I (F [m])) (set_last_message m') (\<lambda>_. holds_at I (F [m'])) (\<lambda>s. I (ls_host s))"
  using track_set_last [of F I "[]"] by simp

lemma track_push_both:
  assumes "tracks F"
  shows "keeps I (F []) (bnd (push_message m) (\<lambda>_. push_new_message m))"
  by (rule hoare_bnd [OF track_first [OF assms] track_push_new [OF assms]])

lemma track_boundary_abort:
  assumes "tracks F" "host_keeps H I"
  shows "keeps I (F []) (emitBoundaryAbort H)"
  unfolding emitBoundaryAbort_def Let_def
  by (intro keeps_bnd [OF keeps_read] keeps_bnd [OF keeps_now [OF assms(2)]] keeps_bnd [OF keeps_emit [OF assms(2)]]
      keeps_bnd [OF keeps_resolve] hoare_bnd [OF track_first [OF assms(1)]]
      hoare_bnd [OF track_push_new [OF assms(1)]] keeps_ret)

lemma track_finish_at_boundary:
  assumes "tracks F" "host_keeps H I"
  shows "keeps I (F []) (finish_at_boundary H b)"
  unfolding finish_at_boundary_def
  by (intro keeps_bnd keeps_if track_boundary_abort [OF assms] keeps_ret keeps_finish_loop [OF assms(2)])

lemma track_deliver:
  assumes "tracks F" "host_keeps H I"
  shows "keeps I (F []) (deliver_message H d m)"
  unfolding deliver_message_def
  by (intro keeps_bnd [OF keeps_completed [OF assms(2)]] hoare_bnd [OF track_first [OF assms(1)]]
      hoare_bnd [OF track_push_new [OF assms(1)]] keeps_ret)

lemma keeps_outcome:
  "keeps I A m \<Longrightarrow> (\<And>e. keeps I A (f e)) \<Longrightarrow> keeps I A n \<Longrightarrow> (\<And>e. keeps I A (g e))
   \<Longrightarrow> keeps I A (case x of OutcomeCommitted \<Rightarrow> m | OutcomeRetained e \<Rightarrow> f e | OutcomeRevoked \<Rightarrow> n
                   | OutcomeTerminallyFailed e \<Rightarrow> g e)"
  by (cases x) auto

lemma track_deliveries:
  assumes "tracks F" "host_keeps H I"
  shows "keeps I (F []) (emitDeliveries H ds)"
  unfolding emitDeliveries_def emit_delivery_def
  by (intro keeps_bnd keeps_for_each keeps_outcome keeps_if keeps_aborted keeps_ret keeps_raise
      keeps_begin [OF assms(2)] keeps_emit [OF assms(2)] track_deliver [OF assms])

text \<open>While a response streams, its partial message is the context's last.\<close>

definition partial_at ::
    "('h \<Rightarrow> bool) \<Rightarrow> (agent_message list \<Rightarrow> agent_context \<Rightarrow> agent_message list \<Rightarrow> bool) \<Rightarrow> bool \<Rightarrow> 'h loop_state \<Rightarrow> bool" where
  "partial_at I F added = (if added then (\<lambda>s. \<exists>m. holds_at I (F [m]) s) else holds_at I (F []))"

text \<open>A returned response is in the context and not yet among the new messages.\<close>

lemma track_as_assistant:
  "hoare (holds_at I (F [m])) (as_assistant m) (\<lambda>a. holds_at I (F [assistant a])) (\<lambda>s. I (ls_host s))"
  by (auto simp: as_assistant_def holds_at_def intro!: hoare_ret hoare_raise split: agent_message.split log_message.split)

lemma track_finish_stream:
  assumes "tracks F" "host_keeps H I"
  shows "hoare (partial_at I F added) (finish_stream H response added)
    (\<lambda>a. holds_at I (F [assistant a])) (\<lambda>s. I (ls_host s))"
proof (cases "sr_result response")
  case (Inl e)
  then show ?thesis
    by (auto simp: finish_stream_def partial_at_def holds_at_def intro!: hoare_raise split: if_splits)
next
  case (Inr m)
  have "hoare (partial_at I F added) (if added then set_last_message (assistant m) else push_message (assistant m))
      (\<lambda>_. holds_at I (F [assistant m])) (\<lambda>s. I (ls_host s))"
    by (cases added)
      (auto simp: partial_at_def intro!: hoare_exI track_replace [OF assms(1)] track_first [OF assms(1)])
  then show ?thesis
    unfolding finish_stream_def Inr sum.case
    by (rule hoare_bnd, intro keeps_bnd [OF keeps_emit [OF assms(2)]]
        hoare_bnd [OF keeps_if [OF keeps_ret keeps_emit [OF assms(2)]]]
        hoare_bnd [OF keeps_emit [OF assms(2)]] hoare_bnd [OF keeps_resolve]
        hoare_bnd [OF track_replace [OF assms(1)] track_as_assistant [of I F]])
qed

lemma partial_error: "partial_at I F added s \<Longrightarrow> I (ls_host s)"
  by (auto simp: partial_at_def holds_at_def split: if_splits)

lemma track_partial_start:
  assumes "tracks F" "host_keeps H I"
    and "hoare (partial_at I F True) m Q (\<lambda>s. I (ls_host s))"
  shows "hoare (partial_at I F False) (bnd (push_message a) (\<lambda>_. bnd (emit H e) (\<lambda>_. m))) Q (\<lambda>s. I (ls_host s))"
  by (rule hoare_bnd [OF _ hoare_bnd [OF keeps_emit [OF assms(2)] hoare_pre [OF assms(3)]]])
    (auto simp: partial_at_def intro: track_first [OF assms(1)])

lemma track_partial_update:
  assumes "tracks F" "host_keeps H I"
    and "hoare (partial_at I F True) m Q (\<lambda>s. I (ls_host s))"
  shows "hoare (partial_at I F True) (bnd (set_last_message a) (\<lambda>_. bnd (emit H e) (\<lambda>_. m))) Q (\<lambda>s. I (ls_host s))"
proof -
  have "hoare (partial_at I F True) (set_last_message a) (\<lambda>_. holds_at I (F [a])) (\<lambda>s. I (ls_host s))"
    by (simp add: partial_at_def hoare_exI track_replace [OF assms(1)])
  then show ?thesis
    by (rule hoare_bnd [OF _ hoare_bnd [OF keeps_emit [OF assms(2)] hoare_pre [OF assms(3)]]])
      (auto simp: partial_at_def)
qed

lemma track_stream_events:
  assumes F: "tracks F" and "host_keeps H I"
    and "if added then list_all (\<lambda>e. \<not> is_start e) es else starts_once es"
  shows "hoare (partial_at I F added) (stream_events H response added es)
    (\<lambda>a. holds_at I (F [assistant a])) (\<lambda>s. I (ls_host s))"
  using assms(2, 3)
proof (induction H response added es rule: stream_events.induct)
  case (1 H response added)
  then show ?case
    by (auto intro!: hoare_option hoare_raise track_finish_stream [OF F] dest: partial_error)
next
  case (2 H response added q snapshot st es)
  then have "\<not> added" by (auto split: if_splits)
  with 2 show ?case by (auto intro: track_partial_start [OF F])
next
  case (3 H response added b q i snapshot st es)
  then show ?case by (cases added) (auto intro: track_partial_update [OF F])
qed (simp_all add: track_finish_stream [OF F])

lemma hoare_host_value:
  assumes "hoare P (host_call f) Q E"
  shows "hoare P (host_call f) (\<lambda>a s. Q a s \<and> (\<exists>h h'. f h = (Inr a, h'))) E"
proof (rule hoareI)
  fix s a s'
  assume "P s" "host_call f s = (Inr a, s')"
  then show "Q a s' \<and> (\<exists>h h'. f h = (Inr a, h'))"
    using hoareD [OF assms] by (auto simp: host_call_def split: prod.splits sum.splits)
qed (rule hoareD_error [OF assms])

definition responded_with ::
    "('h \<Rightarrow> bool) \<Rightarrow> (agent_message list \<Rightarrow> agent_context \<Rightarrow> agent_message list \<Rightarrow> bool)
     \<Rightarrow> assistant_message option \<Rightarrow> 'h loop_state \<Rightarrow> bool" where
  "responded_with I F r = (case r of None \<Rightarrow> holds_at I (F []) | Some a \<Rightarrow> holds_at I (F [assistant a]))"

lemma track_stream:
  assumes "tracks F" "host_keeps H I" "streams_start_once H"
  shows "hoare (holds_at I (F [])) (streamAssistantResponse H prompt tools) (responded_with I F) (\<lambda>s. I (ls_host s))"
proof -
  have stream: "hoare (holds_at I (F [])) (bnd (stream_events H resp False (sr_events resp)) (\<lambda>m. ret (Some m)))
      (responded_with I F) (\<lambda>s. I (ls_host s))" if "\<exists>h h'. h_streamFn H md r c h = (Inr resp, h')" for md r c resp
  proof -
    have "starts_once (sr_events resp)" using that assms(3) unfolding streams_start_once_def by blast
    then have "hoare (holds_at I (F [])) (stream_events H resp False (sr_events resp))
        (\<lambda>a. holds_at I (F [assistant a])) (\<lambda>s. I (ls_host s))"
      using track_stream_events [OF assms(1, 2), of False "sr_events resp" resp] by (simp add: partial_at_def)
    then show ?thesis by (rule hoare_bnd [OF _ hoare_ret]) (simp add: responded_with_def)
  qed
  have none: "hoare (holds_at I (F [])) (ret None) (responded_with I F) (\<lambda>s. I (ls_host s))"
    by (rule hoare_ret) (simp add: responded_with_def)
  have tail: "hoare (holds_at I (F [])) (raise AssistantTailError) (responded_with I F) (\<lambda>s. I (ls_host s))"
    by (rule hoare_raise) (simp add: holds_at_def)
  show ?thesis
    unfolding streamAssistantResponse_def Let_def
    by (intro hoare_bnd [OF keeps_read] hoare_bnd [OF keeps_transform [OF assms(2)]] hoare_bnd [OF keeps_aborted]
        hoare_if none tail hoare_bnd [OF keeps_convert [OF assms(2)]] hoare_bnd [OF keeps_record]
        hoare_bnd [OF hoare_host_value [OF keeps_stream_fn [OF assms(2)]] hoare_fact [OF stream]])
qed

text \<open>
  What a request update may do: the predicate \<open>F\<close> survives a replaced context, at the new messages the preparation was
  called with.
\<close>

definition updates_track ::
    "'h agent_host \<Rightarrow> (agent_message list \<Rightarrow> agent_context \<Rightarrow> agent_message list \<Rightarrow> bool) \<Rightarrow> bool" where
  "updates_track H F \<longleftrightarrow>
     (\<forall>f x h u h' c. h_prepareRequest H = Some f \<longrightarrow> f x h = (Inr (Some u), h') \<longrightarrow> F [] c (nc_newMessages x) \<longrightarrow>
        F [] (case ru_context u of Some c' \<Rightarrow> c' | None \<Rightarrow> c) (nc_newMessages x))"

lemma updates_accounted: "updates_track H (accounted H start)"
  unfolding updates_track_def
proof (intro allI impI)
  fix f x h u h' c
  assume "h_prepareRequest H = Some f" "f x h = (Inr (Some u), h')" and kept: "accounted H start [] c (nc_newMessages x)"
  then have "prepared_context H (ac_messages c') (nc_newMessages x)" if "ru_context u = Some c'" for c'
    using that unfolding prepared_context_def by blast
  then show "accounted H start [] (case ru_context u of Some c' \<Rightarrow> c' | None \<Rightarrow> c) (nc_newMessages x)"
    using kept by (cases "ru_context u") (auto intro: accountedI [where added = "[]"])
qed

lemma track_prepare_request:
  assumes "host_keeps H I" "updates_track H F"
  shows "keeps I (F []) (prepare_request H c reason ds)"
proof -
  let ?at = "\<lambda>n c' n'. F [] c' n' \<and> n' = n"
  have apply_update: "hoare (holds_at I (?at (nc_newMessages x)))
      (case u of None \<Rightarrow> ret () | Some u \<Rightarrow> apply_request_update u) (\<lambda>_. holds_at I (F [])) (\<lambda>s. I (ls_host s))"
    if "h_prepareRequest H = Some f" "\<exists>h h'. f x h = (Inr u, h')" for f x u
    unfolding apply_request_update_def
  proof (rule hoare_option [OF hoare_ret hoare_update])
    fix v s
    assume "u = Some v" "holds_at I (?at (nc_newMessages x)) s"
    with that assms(2) have "F [] (case ru_context v of Some c' \<Rightarrow> c' | None \<Rightarrow> ls_context s) (ls_newMessages s)"
      unfolding updates_track_def holds_at_def by metis
    with \<open>holds_at I (?at (nc_newMessages x)) s\<close> show "holds_at I (F []) (s\<lparr>
        ls_context := (case ru_context v of Some c \<Rightarrow> c | None \<Rightarrow> ls_context s),
        ls_model := (case ru_model v of Some m \<Rightarrow> m | None \<Rightarrow> ls_model s),
        ls_reasoning := (case ru_thinkingLevel v of None \<Rightarrow> ls_reasoning s | Some Off \<Rightarrow> None | Some l \<Rightarrow> Some l)\<rparr>)"
      by (simp add: holds_at_def)
  qed (unfold holds_at_def, metis)
  have call: "hoare (holds_at I (?at n)) (bnd (host_call (f (next_action_context.extend
        (c\<lparr>nc_context := cx, nc_newMessages := n\<rparr>) y))) (\<lambda>update.
        case update of None \<Rightarrow> ret () | Some u \<Rightarrow> apply_request_update u))
      (\<lambda>_. holds_at I (F [])) (\<lambda>s. I (ls_host s))" if "h_prepareRequest H = Some f" for f cx n y
    using apply_update [OF that, of "next_action_context.extend (c\<lparr>nc_context := cx, nc_newMessages := n\<rparr>) y"]
    by (intro hoare_bnd [OF hoare_host_value [OF keeps_hooks(2) [OF assms(1) that]]] hoare_fact)
      (simp add: next_action_context.extend_def)
  have read: "hoare (holds_at I (F [])) (read_state ls_newMessages) (\<lambda>n. holds_at I (?at n)) (\<lambda>s. I (ls_host s))"
    by (rule hoareI) (auto simp: read_state_def holds_at_def)
  show ?thesis
    unfolding prepare_request_def
    by (intro keeps_bnd [OF keeps_aborted] keeps_if keeps_ret keeps_option keeps_bnd [OF keeps_read]
        hoare_bnd [OF read call])
qed

lemma track_request_response:
  assumes "tracks F" "host_keeps H I" "streams_start_once H"
  shows "hoare (holds_at I (F [])) (request_response H final) (\<lambda>(started, r). responded_with I F r) (\<lambda>s. I (ls_host s))"
proof -
  have none: "hoare (holds_at I (F [])) (ret (started, None)) (\<lambda>(started, r). responded_with I F r) (\<lambda>s. I (ls_host s))"
    for started :: bool
    by (rule hoare_ret) (simp add: responded_with_def)
  have some: "hoare (responded_with I F r) (ret (started, r)) (\<lambda>(started, r). responded_with I F r) (\<lambda>s. I (ls_host s))"
    for started :: bool and r
    by (rule hoare_ret) simp
  show ?thesis
    unfolding request_response_def
    by (intro hoare_bnd [OF keeps_aborted] hoare_bnd [OF keeps_if [OF keeps_ret keeps_bnd [OF keeps_emit [OF assms(2)] keeps_ret]]]
        hoare_if none hoare_bnd [OF keeps_read] hoare_bnd [OF hoare_if some] track_stream [OF assms])
qed

lemma track_preflight:
  assumes "tracks F" "host_keeps H I"
  shows "keeps I (F []) (finish_preflight_aborted H started)"
  unfolding finish_preflight_aborted_def Let_def
  by (intro hoare_bnd [OF keeps_if [OF keeps_ret keeps_emit [OF assms(2)]]] hoare_bnd [OF keeps_read]
      hoare_bnd [OF keeps_now [OF assms(2)]] hoare_bnd [OF track_first [OF assms(1)]]
      hoare_bnd [OF keeps_emit [OF assms(2)]] hoare_bnd [OF keeps_resolve]
      hoare_bnd [OF track_replace [OF assms(1)]] hoare_bnd [OF track_push_new [OF assms(1)]]
      keeps_finish_loop [OF assms(2)])

lemma track_answer:
  assumes "tracks F" "host_keeps H I"
  shows "keeps I (F []) (answer_tool_calls H final m)"
  unfolding answer_tool_calls_def
  by (intro keeps_if keeps_ret keeps_bnd keeps_for_each keeps_prod keeps_now [OF assms(2)] keeps_tool_result [OF assms(2)]
      keeps_tool_calls [OF assms(2)] track_push_both [OF assms(1)])

lemma track_complete_turn:
  assumes "tracks F" "host_keeps H I"
  shows "hoare (holds_at I (F [assistant m])) (complete_turn H final m) (\<lambda>_. holds_at I (F [])) (\<lambda>s. I (ls_host s))"
  unfolding complete_turn_def
  by (intro hoare_bnd [OF track_push_new [OF assms(1)]] keeps_if keeps_bnd keeps_prod keeps_ret keeps_aborted
      keeps_emit [OF assms(2)] keeps_finish_loop [OF assms(2)] track_answer [OF assms] track_finish_at_boundary [OF assms])

lemma track_request_turn:
  assumes "tracks F" "host_keeps H I" "streams_start_once H" "updates_track H F"
  shows "keeps I (F []) (request_turn H c reason ds)"
proof -
  have after: "hoare ((\<lambda>(started, r). responded_with I F r) p) (case p of (turnStarted, message) \<Rightarrow>
       (case message of None \<Rightarrow> finish_preflight_aborted H turnStarted
        | Some m \<Rightarrow> complete_turn H (reason = FinalResponseReason) m)) (\<lambda>_. holds_at I (F [])) (\<lambda>s. I (ls_host s))" for p
    by (cases p; cases "snd p")
      (auto simp: responded_with_def intro: track_preflight [OF assms(1, 2)] track_complete_turn [OF assms(1, 2)])
  show ?thesis
    unfolding request_turn_def
    by (rule hoare_bnd [OF track_deliveries [OF assms(1, 2)] keeps_if [OF keeps_finish_loop [OF assms(2)]
          hoare_bnd [OF track_prepare_request [OF assms(2, 4)]
          hoare_bnd [OF track_request_response [OF assms(1, 2, 3)] after]]]])
qed

lemma track_act:
  assumes "tracks F" "host_keeps H I" "streams_start_once H" "updates_track H F"
  shows "keeps I (F []) (case a of RequestAction reason ds \<Rightarrow> request_turn H c reason ds | _ \<Rightarrow> finish_loop H)"
  by (cases a) (auto intro: track_request_turn [OF assms] keeps_finish_loop [OF assms(2)])

lemma track_dispatch:
  assumes "tracks F" "host_keeps H I" "streams_start_once H" "updates_track H F"
    and "option_keeps I (h_nextAction H)"
  shows "keeps I (F []) (dispatch_turn H ctl)"
proof -
  have resolve: "keeps I (F []) (resolveNextAction H c)" for c
    unfolding resolveNextAction_def using assms(5)
    by (intro keeps_option keeps_ret keeps_host_call) (rule option_keepsD)
  show ?thesis
    unfolding dispatch_turn_def
    by (intro keeps_bnd keeps_if keeps_aborted keeps_read resolve track_act [OF assms(1-4)]
        track_finish_at_boundary [OF assms(1, 2)])
qed

end
