(* ===== verification/Agent_Parallel.thy ===== *)
theory Agent_Parallel
  imports Agent_Monitor "HOL-Library.Multiset"
begin

text \<open>
  Parallel tool batches: the calls of a batch run in the order the host resumes them. Whatever that
  order, the monitor waits for exactly the calls that have not ended, every call ends, and the results
  come in the order of the calls.
\<close>

section \<open>Parallel batches\<close>

text \<open>The call of a phase, and the IDs of the calls that have not ended.\<close>

fun phase_call :: "tool_phase \<Rightarrow> tool_call" where
  "phase_call (CallEnded e) = ft_toolCall e"
| "phase_call (CallWaiting p _) = pt_toolCall p"
| "phase_call (CallRunning p _ _ _ _) = pt_toolCall p"
| "phase_call (CallSettled p _ _) = pt_toolCall p"
| "phase_call (CallFinalized f _) = ft_toolCall f"

fun phase_ok :: "agent_tool list option \<Rightarrow> tool_phase \<Rightarrow> bool" where
  "phase_ok T (CallWaiting p _) = prepares T (pt_toolCall p) p"
| "phase_ok T _ = True"

definition open_ids :: "tool_phase list \<Rightarrow> string list" where
  "open_ids phases = map (\<lambda>p. tc_id (phase_call p)) (filter (\<lambda>p. call_ended p = None) phases)"

text \<open>The monitor waits for the ends of exactly the open calls, in any order.\<close>

definition at_open :: "(llm_context \<Rightarrow> bool) \<Rightarrow> agent_tool list option \<Rightarrow> string list \<Rightarrow> 'h loop_state \<Rightarrow> bool" where
  "at_open K T ids s \<longleftrightarrow> (\<exists>c. mset c = mset ids \<and> at_mon K T (in_turn c (offered T)) s)"

lemma open_ids_Nil [simp]: "open_ids [] = []"
  by (simp add: open_ids_def)

lemma at_openI: "at_mon K T (in_turn c (offered T)) s \<Longrightarrow> mset c = mset ids \<Longrightarrow> at_open K T ids s"
  by (auto simp: at_open_def)

lemma at_open_cong: "mset ids = mset ids' \<Longrightarrow> at_open K T ids s = at_open K T ids' s"
  by (simp add: at_open_def)

lemma at_open_Nil [simp]: "at_open K T [] s = at_mon K T (in_turn [] (offered T)) s"
  by (simp add: at_open_def)

lemma open_triple:
  assumes "\<And>c. mset c = mset ids \<Longrightarrow> hoare (at_mon K T (in_turn c (offered T))) m R (accepted K)"
  shows "hoare (at_open K T ids) m R (accepted K)"
proof -
  have "hoare (\<lambda>s. \<exists>c. at_mon K T (in_turn c (offered T)) s \<and> mset c = mset ids) m R (accepted K)"
    by (intro hoare_exI hoare_fact assms)
  then show ?thesis by (rule hoare_pre) (auto simp: at_open_def)
qed

lemma open_same:
  assumes "\<And>c. mset c = mset ids \<Longrightarrow>
      hoare (at_mon K T (in_turn c (offered T))) m (\<lambda>a s. at_mon K T (in_turn c (offered T)) s \<and> Q a) (accepted K)"
  shows "hoare (at_open K T ids) m (\<lambda>a s. at_open K T ids s \<and> Q a) (accepted K)"
  by (rule open_triple, rule hoare_post [OF assms]) (auto simp: at_open_def)

lemma open_aborted: "hoare (at_open K T ids) (aborted H) (\<lambda>_. at_open K T ids) (accepted K)"
  by (rule hoare_post [OF hoare_aborted]) simp

lemma open_schedule: "hoare (at_open K T ids) (host_step f) (\<lambda>_. at_open K T ids) (accepted K)"
  by (rule hoare_host_step) (simp add: at_open_def)

lemma open_ret: "Q a \<Longrightarrow> hoare (at_open K T ids) (ret a) (\<lambda>a s. at_open K T ids s \<and> Q a) (accepted K)"
  by (rule hoare_ret) simp

lemma open_end_call:
  assumes "tc_id (ft_toolCall f) = i"
  shows "hoare (at_open K T (i # ids)) (endToolCall H f startedAt)
    (\<lambda>e s. at_open K T ids s \<and> ft_toolCall e = ft_toolCall f) (accepted K)"
proof (rule open_triple)
  fix c
  assume c: "mset c = mset (i # ids)"
  then have "i \<in> set c" by (metis list.set_intros(1) set_mset_mset)
  moreover from c have "mset (remove1 i c) = mset ids" by simp
  ultimately show "hoare (at_mon K T (in_turn c (offered T))) (endToolCall H f startedAt)
      (\<lambda>e s. at_open K T ids s \<and> ft_toolCall e = ft_toolCall f) (accepted K)"
    using assms by (intro hoare_post [OF mon_end_call]) (auto intro: at_openI)
qed

lemma open_start_tool_call:
  "hoare (at_open K T ids) (start_tool_call H m tc)
     (\<lambda>p s. at_open K T (tc_id tc # ids) s \<and> preparation_ok T tc (snd p)) (accepted K)"
  by (rule open_triple, rule hoare_post [OF mon_start_tool_call]) (auto intro: at_openI)

text \<open>Preparing the calls opens them, one after another.\<close>

lemma open_first_phase:
  assumes "preparation_ok T tc p"
  shows "hoare (at_open K T (tc_id tc # ids))
    (case p of
       ImmediateOutcome result isError \<Rightarrow>
         bnd (endToolCall H \<lparr>ft_toolCall = tc, ft_result = result, ft_isError = isError\<rparr> st)
           (\<lambda>ended. ret (CallEnded ended))
     | PreparedCall prepared \<Rightarrow> ret (CallWaiting prepared st))
    (\<lambda>phase s. at_open K T (open_ids [phase] @ ids) s \<and> phase_ok T phase \<and> phase_call phase = tc) (accepted K)"
proof (cases p)
  case (PreparedCall q)
  with assms show ?thesis by (auto simp: prepares_def open_ids_def intro!: hoare_ret)
next
  case (ImmediateOutcome r e)
  show ?thesis
    unfolding ImmediateOutcome tool_preparation.case
    by (rule hoare_bnd [OF open_end_call hoare_ret]) (auto simp: open_ids_def)
qed

lemma open_ids_Cons: "open_ids (p # ps) = open_ids [p] @ open_ids ps"
  by (simp add: open_ids_def)

lemma open_prepare:
  "hoare (at_open K T ids) (prepare_parallel H m tcs)
     (\<lambda>ps s. at_open K T (open_ids ps @ ids) s \<and> list_all (phase_ok T) ps
        \<and> (\<exists>n. map phase_call ps = take n tcs)) (accepted K)"
proof (induction tcs arbitrary: ids)
  case Nil
  show ?case by (auto intro: hoare_ret)
next
  case (Cons tc tcs)
  have order: "at_open K T (open_ids (ph # ps) @ ids) s = at_open K T (open_ids ps @ open_ids [ph] @ ids) s"
    for ph ps and s :: "'b loop_state"
    by (rule at_open_cong) (simp add: open_ids_Cons [of ph ps])
  have rest: "hoare (at_open K T (open_ids [ph] @ ids)) (bnd (aborted H) (\<lambda>ab.
        if ab then ret [ph] else bnd (prepare_parallel H m tcs) (\<lambda>others. ret (ph # others))))
      (\<lambda>ps s. at_open K T (open_ids ps @ ids) s \<and> list_all (phase_ok T) ps
        \<and> (\<exists>n. map phase_call ps = take n (tc # tcs))) (accepted K)"
    if ph: "phase_ok T ph \<and> phase_call ph = tc" for ph
  proof (rule hoare_bnd [OF open_aborted hoare_if])
    show "hoare (at_open K T (open_ids [ph] @ ids)) (ret [ph])
      (\<lambda>ps s. at_open K T (open_ids ps @ ids) s \<and> list_all (phase_ok T) ps
        \<and> (\<exists>n. map phase_call ps = take n (tc # tcs))) (accepted K)"
      using ph by (intro hoare_ret) (auto intro: exI [where x = 1])
    have "\<exists>k. map phase_call (ph # ps) = take k (tc # tcs)" if "map phase_call ps = take n tcs" for n ps
      using ph that by (intro exI [where x = "Suc n"]) simp
    then show "hoare (at_open K T (open_ids [ph] @ ids)) (bnd (prepare_parallel H m tcs) (\<lambda>others. ret (ph # others)))
      (\<lambda>ps s. at_open K T (open_ids ps @ ids) s \<and> list_all (phase_ok T) ps
        \<and> (\<exists>n. map phase_call ps = take n (tc # tcs))) (accepted K)"
      using ph by (intro hoare_bnd [OF Cons.IH hoare_ret]) (auto simp: order simp del: list.map)
  qed
  show ?case
    unfolding prepare_parallel.simps
    by (rule hoare_bnd [OF open_start_tool_call hoare_fact])
      (auto intro!: hoare_prod hoare_bnd [OF open_first_phase hoare_fact] rest)
qed

section \<open>Interleaving\<close>

fun call_started :: "tool_phase \<Rightarrow> bool" where
  "call_started (CallWaiting _ _) = False"
| "call_started _ = True"

lemma started_steps: "call_started p \<Longrightarrow> phase_steps p = 0 \<longleftrightarrow> call_ended p \<noteq> None"
  by (cases p) auto

lemma open_ids_single: "open_ids [p] = (if call_ended p = None then [tc_id (phase_call p)] else [])"
  by (simp add: open_ids_def)

lemma open_start_call:
  assumes "phase_ok T p" "call_ended p = None \<Longrightarrow> tc_id (phase_call p) \<in> set ids"
  shows "hoare (at_open K T ids) (start_call H p)
    (\<lambda>q s. at_open K T ids s \<and> call_started q \<and> phase_call q = phase_call p
       \<and> (call_ended q = None) = (call_ended p = None)) (accepted K)"
proof (cases p)
  case (CallWaiting r st)
  have "tc_id (pt_toolCall r) \<in> set c" if "mset c = mset ids" for c
    using assms that CallWaiting by (metis call_ended.simps(2) phase_call.simps(2) set_mset_mset)
  then show ?thesis
    unfolding start_call_def CallWaiting tool_phase.case
    using assms(1) CallWaiting
    by (intro open_same hoare_bnd [OF mon_start_execution hoare_ret]) auto
qed (auto simp: start_call_def intro!: hoare_ret)

lemma open_advance:
  assumes "call_ended p = None" "call_started p"
  shows "hoare (at_open K T (tc_id (phase_call p) # ids)) (advance_call H m p)
    (\<lambda>q s. at_open K T (open_ids [q] @ ids) s \<and> call_started q \<and> phase_call q = phase_call p
       \<and> phase_steps q < phase_steps p) (accepted K)"
proof -
  have mem: "i \<in> set c" if "mset c = add_mset i (mset ids)" for i c
    using that by (metis set_mset_mset union_single_eq_member)
  from assms show ?thesis
  proof (cases p)
    case (CallRunning r st us f settled)
    show ?thesis
    proof (cases us)
      case Nil
      show ?thesis unfolding CallRunning Nil advance_call.simps
        by (rule open_triple, rule hoare_post [OF mon_settle]) (auto simp: open_ids_single intro: at_openI)
    next
      case (Cons u us')
      show ?thesis unfolding CallRunning Cons advance_call.simps
        by (rule open_triple, rule hoare_bnd [OF mon_emit_update hoare_ret])
          (auto simp: open_ids_single dest: mem intro: at_openI)
    qed
  next
    case (CallSettled r st e)
    show ?thesis unfolding CallSettled advance_call.simps
      by (rule open_triple, rule hoare_bnd [OF mon_finalize hoare_ret]) (auto simp: open_ids_single intro: at_openI)
  next
    case (CallFinalized f st)
    show ?thesis unfolding CallFinalized advance_call.simps phase_call.simps
      by (rule hoare_bnd [OF open_end_call hoare_ret]) (auto simp: open_ids_single)
  qed auto
qed

lemma open_ids_append: "open_ids (ps @ qs) = open_ids ps @ open_ids qs"
  by (simp add: open_ids_def)

lemma open_ids_update:
  assumes "i < length ps"
  shows "mset (open_ids (ps[i := q])) = mset (open_ids [q] @ open_ids (take i ps @ drop (Suc i) ps))"
  using assms by (simp add: upd_conv_take_nth_drop open_ids_append open_ids_Cons [of q "drop (Suc i) ps"])

lemma open_ids_at: "i < length ps \<Longrightarrow> call_ended (ps ! i) = None \<Longrightarrow>
    mset (open_ids ps) = mset (tc_id (phase_call (ps ! i)) # open_ids (take i ps @ drop (Suc i) ps))"
  using open_ids_update [of i ps "ps ! i"] by (simp add: open_ids_single)

lemma sum_list_update_less:
  fixes f :: "'a \<Rightarrow> nat"
  assumes "i < length ps" "f q < f (ps ! i)"
  shows "sum_list (map f (ps[i := q])) < sum_list (map f ps)"
proof -
  have "sum_list (map f ps) = sum_list (map f (take i ps)) + f (ps ! i) + sum_list (map f (drop (Suc i) ps))"
    by (subst id_take_nth_drop [OF assms(1)]) simp
  then show ?thesis using assms by (simp add: upd_conv_take_nth_drop)
qed

lemma unfinished_nth: "i \<in> set (unfinished ps) \<Longrightarrow> i < length ps \<and> call_ended (ps ! i) = None"
  by (simp add: unfinished_def)

lemma unfinished_Nil: "unfinished ps = [] \<Longrightarrow> list_all (\<lambda>p. call_ended p \<noteq> None) ps"
  by (auto simp: unfinished_def filter_empty_conv list_all_length)

lemma open_interleave:
  assumes "list_all call_started ps" "sum_list (map phase_steps ps) \<le> n"
  shows "hoare (at_open K T (open_ids ps)) (interleave_calls n H m ps)
    (\<lambda>qs s. at_open K T (open_ids qs) s \<and> map phase_call qs = map phase_call ps
       \<and> list_all (\<lambda>q. call_ended q \<noteq> None) qs) (accepted K)"
  using assms
proof (induction n arbitrary: ps)
  case 0
  then show ?case by (auto simp: list_all_iff started_steps intro!: hoare_ret)
next
  case (Suc n)
  show ?case
  proof (cases "unfinished ps = []")
    case True
    then show ?thesis using unfinished_Nil [OF True] by (auto intro!: hoare_ret)
  next
    case False
    have step: "hoare (at_open K T (open_ids ps)) (bnd (advance_call H m (ps ! i)) (\<lambda>p. interleave_calls n H m (ps[i := p])))
       (\<lambda>qs s. at_open K T (open_ids qs) s \<and> map phase_call qs = map phase_call ps
         \<and> list_all (\<lambda>q. call_ended q \<noteq> None) qs) (accepted K)" if "i \<in> set (unfinished ps)" for i
    proof -
      from that have i: "i < length ps" "call_ended (ps ! i) = None" by (auto dest: unfinished_nth)
      with Suc.prems(1) have started: "call_started (ps ! i)" by (simp add: list_all_length)
      let ?rest = "open_ids (take i ps @ drop (Suc i) ps)"
      have IH: "hoare (at_open K T (open_ids [p] @ ?rest)) (interleave_calls n H m (ps[i := p]))
         (\<lambda>qs s. at_open K T (open_ids qs) s \<and> map phase_call qs = map phase_call ps
           \<and> list_all (\<lambda>q. call_ended q \<noteq> None) qs) (accepted K)"
        if p: "call_started p \<and> phase_call p = phase_call (ps ! i) \<and> phase_steps p < phase_steps (ps ! i)" for p
      proof (rule hoare_conseq [OF Suc.IH [of "ps[i := p]"]])
        show "list_all call_started (ps[i := p])"
          using Suc.prems(1) p i by (auto simp: list_all_length nth_list_update)
        show "sum_list (map phase_steps (ps[i := p])) \<le> n"
          using sum_list_update_less [of i ps phase_steps p] p i Suc.prems(2) by simp
        show "at_open K T (open_ids (ps[i := p])) s" if "at_open K T (open_ids [p] @ ?rest) s" for s
          using that by (simp only: at_open_cong [OF open_ids_update [OF i(1)]])
      qed (use p i in \<open>auto simp: map_update list_update_same_conv\<close>)
      show ?thesis
        by (rule hoare_pre [OF hoare_bnd [OF open_advance [OF i(2) started] hoare_fact [OF IH]]])
          (use at_open_cong [OF open_ids_at [OF i]] in auto)
    qed
    have "unfinished ps ! (k mod length (unfinished ps)) \<in> set (unfinished ps)" for k
      using False by simp
    then show ?thesis
      unfolding interleave_calls.simps Let_def if_not_P [OF False] by (intro hoare_bnd [OF open_schedule step])
  qed
qed

section \<open>The batch\<close>

lemma open_ids_rel:
  assumes "list_all2 (\<lambda>p q. call_started q \<and> phase_call q = phase_call p
      \<and> (call_ended q = None) = (call_ended p = None)) ps qs"
  shows "open_ids qs = open_ids ps" "map phase_call qs = map phase_call ps" "list_all call_started qs"
  using assms by (induction rule: list_all2_induct) (auto simp: open_ids_def)

lemma open_ids_ended: "list_all (\<lambda>q. call_ended q \<noteq> None) qs \<Longrightarrow> open_ids qs = []"
  by (auto simp: open_ids_def list_all_iff filter_empty_conv)

lemma open_start_calls:
  assumes "list_all (phase_ok T) ps"
  shows "hoare (at_open K T (open_ids ps)) (for_each (start_call H) ps)
    (\<lambda>qs s. at_open K T (open_ids qs) s \<and> map phase_call qs = map phase_call ps \<and> list_all call_started qs)
    (accepted K)"
proof (rule hoare_post [OF hoare_for_each_rel [OF open_start_call]])
  show "phase_ok T p" if "p \<in> set ps" for p using that assms by (simp add: list_all_iff)
  show "tc_id (phase_call p) \<in> set (open_ids ps)" if "p \<in> set ps" "call_ended p = None" for p
    using that by (auto simp: open_ids_def)
qed (auto simp: open_ids_rel)

lemma mon_parallel:
  "hoare (at_mon K T (in_turn [] (offered T))) (executeToolCallsParallel H m tcs)
     (\<lambda>_. at_mon K T (in_turn [] (offered T))) (accepted K)"
proof -
  have run: "hoare (at_open K T (open_ids ps)) (bnd (for_each (start_call H) ps) (\<lambda>phases.
      bnd (interleave_calls (sum_list (map phase_steps phases)) H m phases) (\<lambda>finished.
      bnd (for_each (emit_ended_call H) (List.map_filter call_ended finished)) (\<lambda>messages.
      ret (messages, reduceToolBatchDisposition (List.map_filter call_ended finished))))))
      (\<lambda>_. at_mon K T (in_turn [] (offered T))) (accepted K)" if "list_all (phase_ok T) ps" for ps
    apply (rule hoare_bnd [OF open_start_calls [OF that] hoare_fact])
    apply (rule hoare_bnd [OF open_interleave hoare_fact], simp_all add: open_ids_ended)
    apply (rule hoare_bnd [OF hoare_for_each [OF mon_ended_call] mon_ret])
    done
  have start: "hoare (at_mon K T (in_turn [] (offered T))) (prepare_parallel H m tcs)
      (\<lambda>ps s. at_open K T (open_ids ps) s \<and> list_all (phase_ok T) ps) (accepted K)"
    by (rule hoare_conseq [OF open_prepare [of K T "[]"]]) simp_all
  show ?thesis
    unfolding executeToolCallsParallel_def Let_def by (rule hoare_bnd [OF start hoare_fact [OF run]])
qed

lemma mon_tool_calls:
  "hoare (at_mon K T (in_turn [] (offered T))) (executeToolCalls H m)
     (\<lambda>_. at_mon K T (in_turn [] (offered T))) (accepted K)"
  unfolding executeToolCalls_def Let_def
  by (rule hoare_bnd [OF mon_read hoare_if [OF mon_sequential mon_parallel]])

end
