(* ===== verification/Agent_Answers.thy ===== *)
theory Agent_Answers
  imports Agent_Results Agent_Parallel
begin

text \<open>
  The results of a tool batch: every result belongs to its call, the results come in the order of the
  calls in either mode and under every schedule, and all calls are answered unless the run is aborted.
\<close>

section \<open>What the host promises\<close>

text \<open>An abort signal stays aborted.\<close>

definition abort_latched :: "'h agent_host \<Rightarrow> bool" where
  "abort_latched H \<longleftrightarrow> host_keeps H (h_aborted H)"

section \<open>The result of a call\<close>

text \<open>
  A result answers a call when it is the result made for that call, with its ID and its tool's name, or the tool result
  the host replaced that one with when its message ended.
\<close>

definition replaces :: "'h agent_host \<Rightarrow> tool_result_message \<Rightarrow> tool_result_message \<Rightarrow> bool" where
  "replaces H t t' \<longleftrightarrow>
     t' = t \<or> (\<exists>h h'. h_emit H (MessageEnd (tool_result t) None) h = (Inr (Some (tool_result t')), h'))"

definition answers :: "'h agent_host \<Rightarrow> tool_call \<Rightarrow> tool_result_message \<Rightarrow> bool" where
  "answers H c t' \<longleftrightarrow> (\<exists>t. t_toolCallId t = tc_id c \<and> t_toolName t = tc_name c \<and> replaces H t t')"

lemma answersI: "replaces H t t' \<Longrightarrow> t_toolCallId t = tc_id c \<Longrightarrow> t_toolName t = tc_name c \<Longrightarrow> answers H c t'"
  unfolding answers_def by blast

section \<open>Values\<close>

abbreviation yields :: "('h, 'a) act \<Rightarrow> ('a \<Rightarrow> bool) \<Rightarrow> bool" where
  "yields m V \<equiv> hoare (\<lambda>_. True) m (\<lambda>a _. V a) (\<lambda>_. True)"

lemma yields_any: "yields m (\<lambda>_. True)"
  by (rule hoareI) simp_all

lemma yields_ret: "V a \<Longrightarrow> yields (ret a) V"
  by (rule hoare_ret)

lemma yields_last: "(\<And>a. yields (f a) V) \<Longrightarrow> yields (bnd m f) V"
  by (rule hoare_bnd [OF yields_any])

lemma value_bnd:
  assumes "yields m W" "\<And>a. W a \<Longrightarrow> hoare (\<lambda>_. True) (f a) Q (\<lambda>_. True)"
  shows "hoare (\<lambda>_. True) (bnd m f) Q (\<lambda>_. True)"
proof (rule hoare_bnd [OF assms(1)])
  show "hoare (\<lambda>_. W a) (f a) Q (\<lambda>_. True)" for a
    by (rule hoare_assume [where A = "W a"]) (auto intro: hoare_pre assms(2))
qed

lemma yields_raise: "yields (raise e) V"
  by (rule hoare_raise) simp

lemma yields_for_each:
  assumes "\<And>x. yields (f x) (R x)"
  shows "yields (for_each f xs) (list_all2 R xs)"
  using hoare_for_each_rel [of xs "\<lambda>_. True" f R "\<lambda>_. True"] assms by simp

lemma resolve_value:
  "yields (resolveMessageReplacement m r) (\<lambda>m'. m' = m \<or> r = Some m')"
  unfolding resolveMessageReplacement_def by (intro hoare_option hoare_if hoare_ret yields_raise) auto

lemma tool_result_value: "yields (emit_tool_result H t) (replaces H t)"
proof -
  let ?V = "\<lambda>m. \<forall>t'. m = tool_result t' \<longrightarrow> replaces H t t'"
  have emit: "yields (emit H (MessageEnd (tool_result t) None)) (\<lambda>r. \<forall>t'. r = Some (tool_result t') \<longrightarrow> replaces H t t')"
    unfolding emit_def
    by (rule yields_last, rule hoareI) (auto simp: host_call_def replaces_def split: prod.splits sum.splits)
  have "yields (emitCompletedMessage H (tool_result t) None) ?V"
    unfolding emitCompletedMessage_def
    by (rule yields_last, rule value_bnd [OF emit], rule hoare_post [OF resolve_value]) (auto simp: replaces_def)
  moreover have "yields (as_tool_result m) (replaces H t)" if "?V m" for m
    using that unfolding as_tool_result_def
    by (auto intro!: yields_ret yields_raise split: agent_message.split log_message.split)
  ultimately show ?thesis unfolding emit_tool_result_def by (rule value_bnd)
qed

lemma end_call_value: "yields (endToolCall H f st) (\<lambda>e. ft_toolCall e = ft_toolCall f)"
  unfolding endToolCall_def by (intro yields_last yields_ret) (simp add: finalized_tool_call.extend_def)

lemma finalize_value: "yields (finalizeExecutedToolCall H m p e) (\<lambda>f. ft_toolCall f = pt_toolCall p)"
  unfolding finalizeExecutedToolCall_def Let_def
  by (auto intro!: hoare_option yields_ret yields_last split: prod.splits)

definition preparation_of :: "tool_call \<Rightarrow> tool_preparation \<Rightarrow> bool" where
  "preparation_of tc p \<longleftrightarrow> (\<forall>q. p = PreparedCall q \<longrightarrow> pt_toolCall q = tc)"

lemma prepare_value: "yields (prepareToolCall H m tc) (preparation_of tc)"
  unfolding prepareToolCall_def immediate_error_def
  by (rule yields_last)
    (auto simp: preparation_of_def intro!: yields_ret hoare_option hoare_sum hoare_if yields_last)

lemma start_value: "yields (start_tool_call H m tc) (\<lambda>p. preparation_of tc (snd p))"
  unfolding start_tool_call_def
  by (intro yields_last value_bnd [OF prepare_value] yields_ret) simp

lemma sequential_value:
  "preparation_of tc p \<Longrightarrow> yields (finalize_sequential H m tc p) (\<lambda>f. ft_toolCall f = tc)"
  by (cases p) (auto simp: finalize_sequential_def preparation_of_def intro!: yields_ret yields_last
      hoare_post [OF finalize_value])

lemma ended_value: "yields (emit_ended_call H e) (answers H (ft_toolCall e))"
  unfolding emit_ended_call_def
  by (rule yields_last, rule hoare_post [OF tool_result_value], erule answersI) (simp_all add: createToolResultMessage_def)

section \<open>Sequential batches\<close>

text \<open>The answers so far cover the calls, or the run is aborted.\<close>

abbreviation unless_aborted :: "'h agent_host \<Rightarrow> bool \<Rightarrow> 'h loop_state \<Rightarrow> bool" where
  "unless_aborted H X s \<equiv> X \<or> h_aborted H (ls_host s)"

lemma sequential_answers:
  shows "hoare (\<lambda>_. True) (sequential_calls H m tcs)
    (\<lambda>rs. unless_aborted H (list_all2 (answers H) tcs (map snd rs))) (\<lambda>_. True)"
proof (induction tcs)
  case Nil
  show ?case by (auto intro: hoare_ret)
next
  case (Cons tc tcs)
  let ?post = "\<lambda>rs. unless_aborted H (list_all2 (answers H) (tc # tcs) (map snd rs))"
  have stop: "hoare (\<lambda>_. True) (bnd (aborted H) (\<lambda>ab. if ab then ret [(ended, t)]
        else bnd (sequential_calls H m tcs) (\<lambda>others. ret ((ended, t) # others)))) ?post (\<lambda>_. True)"
    if "answers H tc t" for ended t
    by (rule hoare_bnd [OF hoare_aborted], rule hoare_if)
      (auto simp: that intro!: hoare_ret hoare_bnd [OF hoare_pre [OF Cons.IH] hoare_ret])
  have run: "hoare (\<lambda>_. True) (bnd (finalize_sequential H m tc p) (\<lambda>finalized. bnd (endToolCall H finalized st) (\<lambda>ended.
       bnd (emit_ended_call H ended) (\<lambda>message. bnd (aborted H) (\<lambda>ab.
         if ab then ret [(ended, message)]
         else bnd (sequential_calls H m tcs) (\<lambda>others. ret ((ended, message) # others)))))))
      ?post (\<lambda>_. True)" if "preparation_of tc p" for p st
    by (rule value_bnd [OF sequential_value [OF that]], rule value_bnd [OF end_call_value],
        rule value_bnd [OF ended_value], rule stop) simp
  show ?case
    unfolding sequential_calls.simps
    by (rule value_bnd [OF start_value], rule hoare_prod, rule run) simp
qed

section \<open>Parallel batches\<close>

lemma host_keeps_or: "host_keeps H I \<Longrightarrow> host_keeps H (\<lambda>h. X \<or> I h)"
  by (cases X) (simp_all add: host_keeps_def steps_keep_def option_keeps_def split: option.splits)

text \<open>A step that returns a value and leaves \<open>unless_aborted\<close> as it is.\<close>

lemma kept_value:
  assumes "keeps (\<lambda>h. X \<or> h_aborted H h) (\<lambda>_ _. True) m" "yields m V"
  shows "hoare (unless_aborted H X) m (\<lambda>a s. unless_aborted H X s \<and> V a) (\<lambda>_. True)"
proof (rule hoareI)
  fix s a s'
  assume s: "unless_aborted H X s" and m: "m s = (Inr a, s')"
  have "holds_at (\<lambda>h. X \<or> h_aborted H h) (\<lambda>_ _. True) s'"
    by (rule hoareD [OF assms(1) _ m]) (use s in \<open>simp add: holds_at_def\<close>)
  moreover have "V a" using hoareD [OF assms(2) _ m] by simp
  ultimately show "unless_aborted H X s' \<and> V a" by (simp add: holds_at_def)
qed simp

lemma first_phase_value:
  "preparation_of tc p \<Longrightarrow> yields (case p of
     ImmediateOutcome result isError \<Rightarrow>
       bnd (endToolCall H \<lparr>ft_toolCall = tc, ft_result = result, ft_isError = isError\<rparr> st) (\<lambda>ended. ret (CallEnded ended))
   | PreparedCall prepared \<Rightarrow> ret (CallWaiting prepared st)) (\<lambda>ph. phase_call ph = tc)"
  by (cases p) (auto simp: preparation_of_def intro!: yields_ret value_bnd [OF end_call_value])

lemma prepare_answers:
  "hoare (\<lambda>_. True) (prepare_parallel H m tcs) (\<lambda>ps. unless_aborted H (map phase_call ps = tcs)) (\<lambda>_. True)"
proof (induction tcs)
  case Nil
  show ?case by (auto intro: hoare_ret)
next
  case (Cons tc tcs)
  have stop: "hoare (\<lambda>_. True) (bnd (aborted H) (\<lambda>ab. if ab then ret [ph]
        else bnd (prepare_parallel H m tcs) (\<lambda>others. ret (ph # others))))
      (\<lambda>ps. unless_aborted H (map phase_call ps = tc # tcs)) (\<lambda>_. True)" if "phase_call ph = tc" for ph
    by (rule hoare_bnd [OF hoare_aborted], rule hoare_if)
      (auto simp: that intro!: hoare_ret hoare_bnd [OF hoare_pre [OF Cons.IH] hoare_ret])
  show ?case
    unfolding prepare_parallel.simps
    by (rule value_bnd [OF start_value], rule hoare_prod, rule value_bnd [OF first_phase_value], simp, rule stop)
qed

lemma start_call_value: "yields (start_call H p) (\<lambda>q. phase_call q = phase_call p \<and> call_started q)"
  unfolding start_call_def by (cases p) (auto intro!: yields_ret yields_last)

lemma advance_value:
  assumes "call_ended p = None" "call_started p"
  shows "yields (advance_call H m p) (\<lambda>q. phase_call q = phase_call p \<and> call_started q \<and> phase_steps q < phase_steps p)"
  using assms
proof (cases p)
  case (CallRunning r st us f settled)
  then show ?thesis
    by (cases us) (auto simp: settle_updates_def intro!: hoare_option yields_raise yields_ret yields_last)
next
  case (CallSettled r st e)
  then show ?thesis by (auto intro!: value_bnd [OF finalize_value] yields_ret)
next
  case (CallFinalized f st)
  then show ?thesis by (auto intro!: value_bnd [OF end_call_value] yields_ret)
qed auto

lemma interleave_value:
  assumes "list_all call_started ps" "sum_list (map phase_steps ps) \<le> n"
  shows "yields (interleave_calls n H m ps)
    (\<lambda>qs. map phase_call qs = map phase_call ps \<and> list_all (\<lambda>q. call_ended q \<noteq> None) qs)"
  using assms
proof (induction n arbitrary: ps)
  case 0
  then show ?case by (auto simp: list_all_iff started_steps intro!: yields_ret)
next
  case (Suc n)
  show ?case
  proof (cases "unfinished ps = []")
    case True
    then show ?thesis using unfinished_Nil [OF True] by (auto intro!: yields_ret)
  next
    case False
    have step: "yields (bnd (advance_call H m (ps ! i)) (\<lambda>p. interleave_calls n H m (ps[i := p])))
        (\<lambda>qs. map phase_call qs = map phase_call ps \<and> list_all (\<lambda>q. call_ended q \<noteq> None) qs)"
      if "i \<in> set (unfinished ps)" for i
    proof -
      from that have i: "i < length ps" "call_ended (ps ! i) = None" by (auto dest: unfinished_nth)
      with Suc.prems(1) have started: "call_started (ps ! i)" by (simp add: list_all_length)
      show ?thesis
      proof (rule value_bnd [OF advance_value [OF i(2) started]])
        fix p
        assume p: "phase_call p = phase_call (ps ! i) \<and> call_started p \<and> phase_steps p < phase_steps (ps ! i)"
        have "list_all call_started (ps[i := p])"
          using Suc.prems(1) p i by (auto simp: list_all_length nth_list_update)
        moreover have "sum_list (map phase_steps (ps[i := p])) \<le> n"
          using sum_list_update_less [of i ps phase_steps p] p i Suc.prems(2) by simp
        moreover have "map phase_call (ps[i := p]) = map phase_call ps"
          using p i by (simp add: map_update list_update_same_conv)
        ultimately show "yields (interleave_calls n H m (ps[i := p]))
          (\<lambda>qs. map phase_call qs = map phase_call ps \<and> list_all (\<lambda>q. call_ended q \<noteq> None) qs)"
          using Suc.IH [of "ps[i := p]"] by simp
      qed
    qed
    have "unfinished ps ! (k mod length (unfinished ps)) \<in> set (unfinished ps)" for k
      using False by simp
    then show ?thesis
      unfolding interleave_calls.simps Let_def if_not_P [OF False] by (intro yields_last step)
  qed
qed

lemma ended_calls:
  "list_all (\<lambda>q. call_ended q \<noteq> None) qs \<Longrightarrow> map ft_toolCall (List.map_filter call_ended qs) = map phase_call qs"
proof (induction qs)
  case (Cons q qs)
  then show ?case by (cases q) (auto simp: map_filter_simps)
qed (simp add: map_filter_simps)

lemma start_calls_value:
  "yields (for_each (start_call H) ps) (\<lambda>qs. map phase_call qs = map phase_call ps \<and> list_all call_started qs)"
  by (rule hoare_post [OF yields_for_each [OF start_call_value]])
    (auto simp: list_all2_conv_all_nth list_all_length intro: nth_equalityI)

lemma emit_calls_value:
  assumes "list_all (\<lambda>q. call_ended q \<noteq> None) qs"
  shows "yields (for_each (emit_ended_call H) (List.map_filter call_ended qs)) (list_all2 (answers H) (map phase_call qs))"
proof -
  have "yields (for_each (emit_ended_call H) xs) (list_all2 (\<lambda>e. answers H (ft_toolCall e)) xs)" for xs
    by (rule yields_for_each) (rule ended_value)
  then show ?thesis unfolding ended_calls [OF assms, symmetric] list_all2_map1 .
qed

lemma latched_keeps: "abort_latched H \<Longrightarrow> host_keeps H (\<lambda>h. X \<or> h_aborted H h)"
  by (simp add: abort_latched_def host_keeps_or)

lemma finish_answers:
  assumes "abort_latched H" "list_all (\<lambda>q. call_ended q \<noteq> None) fs"
  shows "hoare (unless_aborted H (map phase_call fs = tcs))
    (bnd (for_each (emit_ended_call H) (List.map_filter call_ended fs)) (\<lambda>messages. ret (messages, d)))
    (\<lambda>r. unless_aborted H (list_all2 (answers H) tcs (fst r))) (\<lambda>_. True)"
  by (rule hoare_bnd [OF kept_value [OF keeps_for_each [OF keeps_ended_call [OF latched_keeps [OF assms(1)]]]
        emit_calls_value [OF assms(2)]] hoare_ret]) auto

lemma interleave_answers:
  assumes "abort_latched H" "list_all call_started qs"
  shows "hoare (unless_aborted H (map phase_call qs = tcs))
    (bnd (interleave_calls (sum_list (map phase_steps qs)) H m qs) (\<lambda>finished.
     bnd (for_each (emit_ended_call H) (List.map_filter call_ended finished)) (\<lambda>messages.
     ret (messages, reduceToolBatchDisposition (List.map_filter call_ended finished)))))
    (\<lambda>r. unless_aborted H (list_all2 (answers H) tcs (fst r))) (\<lambda>_. True)"
proof (rule hoare_bnd [OF kept_value [OF keeps_interleave [OF latched_keeps [OF assms(1)]]
      interleave_value [OF assms(2) order.refl]]])
  fix fs
  show "hoare (\<lambda>s. unless_aborted H (map phase_call qs = tcs) s
        \<and> (map phase_call fs = map phase_call qs \<and> list_all (\<lambda>q. call_ended q \<noteq> None) fs))
      (bnd (for_each (emit_ended_call H) (List.map_filter call_ended fs)) (\<lambda>messages.
       ret (messages, reduceToolBatchDisposition (List.map_filter call_ended fs))))
      (\<lambda>r. unless_aborted H (list_all2 (answers H) tcs (fst r))) (\<lambda>_. True)"
    using finish_answers [OF assms(1), of fs tcs] by (intro hoare_fact) auto
qed

lemma parallel_answers:
  assumes "abort_latched H"
  shows "hoare (\<lambda>_. True) (executeToolCallsParallel H m tcs)
    (\<lambda>r. unless_aborted H (list_all2 (answers H) tcs (fst r))) (\<lambda>_. True)"
  unfolding executeToolCallsParallel_def Let_def
proof (rule hoare_bnd [OF prepare_answers])
  fix ps
  show "hoare (unless_aborted H (map phase_call ps = tcs)) (bnd (for_each (start_call H) ps) (\<lambda>phases.
      bnd (interleave_calls (sum_list (map phase_steps phases)) H m phases) (\<lambda>finished.
      bnd (for_each (emit_ended_call H) (List.map_filter call_ended finished)) (\<lambda>messages.
      ret (messages, reduceToolBatchDisposition (List.map_filter call_ended finished))))))
      (\<lambda>r. unless_aborted H (list_all2 (answers H) tcs (fst r))) (\<lambda>_. True)"
  proof (rule hoare_bnd [OF kept_value [OF keeps_for_each [OF keeps_start_call [OF latched_keeps [OF assms(1)]]]
        start_calls_value]], rule hoare_fact)
    fix qs
    assume "map phase_call qs = map phase_call ps \<and> list_all call_started qs"
    then show "hoare (unless_aborted H (map phase_call ps = tcs)) (bnd (interleave_calls (sum_list (map phase_steps qs)) H m qs)
        (\<lambda>finished. bnd (for_each (emit_ended_call H) (List.map_filter call_ended finished)) (\<lambda>messages.
         ret (messages, reduceToolBatchDisposition (List.map_filter call_ended finished)))))
        (\<lambda>r. unless_aborted H (list_all2 (answers H) tcs (fst r))) (\<lambda>_. True)"
      using interleave_answers [OF assms, of qs tcs m] by simp
  qed
qed

lemma batch_answers:
  assumes "abort_latched H"
  shows "hoare (\<lambda>_. True) (executeToolCalls H m)
    (\<lambda>r. unless_aborted H (list_all2 (answers H) (tool_calls m) (fst r))) (\<lambda>_. True)"
proof -
  have sequential: "hoare (\<lambda>_. True) (executeToolCallsSequential H m tcs)
      (\<lambda>r. unless_aborted H (list_all2 (answers H) tcs (fst r))) (\<lambda>_. True)" for tcs
    unfolding executeToolCallsSequential_def
    by (rule hoare_bnd [OF sequential_answers hoare_ret]) (auto simp: comp_def)
  show ?thesis
    unfolding executeToolCalls_def Let_def
    by (intro hoare_bnd [OF yields_any] hoare_if sequential parallel_answers [OF assms])
qed

section \<open>Completed turns\<close>

text \<open>A turn the loop goes on from: completed, and with one result for each of its calls, in order.\<close>

definition answered_turn :: "'h agent_host \<Rightarrow> loop_completed_turn \<Rightarrow> bool" where
  "answered_turn H t \<longleftrightarrow>
     turn_completed (lt_message t) \<and> list_all2 (answers H) (tool_calls (lt_message t)) (lt_toolResults t)"

definition continues_answered :: "'h agent_host \<Rightarrow> turn_outcome \<Rightarrow> bool" where
  "continues_answered H r \<longleftrightarrow>
     (case r of LoopFinished \<Rightarrow> True
      | NextTurn ctl \<Rightarrow> \<exists>t. ct_completedTurn ctl = Some t \<and> answered_turn H t)"

lemma finish_value: "yields (finish_loop H) (continues_answered H)"
  unfolding finish_loop_def by (intro yields_last yields_ret) (simp add: continues_answered_def)

lemma boundary_value: "yields (finish_at_boundary H b) (continues_answered H)"
  unfolding finish_at_boundary_def by (intro yields_last finish_value)

lemma answer_answers:
  assumes "abort_latched H"
  shows "hoare (\<lambda>_. True) (answer_tool_calls H final m)
    (\<lambda>r. unless_aborted H (list_all2 (answers H) (tool_calls m) (fst r))) (\<lambda>_. True)"
proof (cases "tool_calls m = []")
  case True
  then show ?thesis by (auto simp: answer_tool_calls_def intro: hoare_ret)
next
  case False
  have disabled: "yields (bnd (host_step (h_now H)) (\<lambda>now. emit_tool_result H (disabled_tool_result c now)))
      (answers H c)" for c
    by (rule yields_last, rule hoare_post [OF tool_result_value], erule answersI) (simp_all add: disabled_tool_result_def)
  have batch: "hoare (\<lambda>_. True) (if final
      then bnd (for_each (\<lambda>c. bnd (host_step (h_now H)) (\<lambda>now. emit_tool_result H (disabled_tool_result c now)))
             (tool_calls m)) (\<lambda>results. ret (results, BatchContinue))
      else executeToolCalls H m)
      (\<lambda>r. unless_aborted H (list_all2 (answers H) (tool_calls m) (fst r))) (\<lambda>_. True)"
    by (rule hoare_if, rule value_bnd [OF yields_for_each [OF disabled]], rule hoare_ret)
      (auto simp: batch_answers [OF assms])
  have push: "keeps (\<lambda>h. X \<or> h_aborted H h) (\<lambda>_ _. True)
      (for_each (\<lambda>r. bnd (push_message (tool_result r)) (\<lambda>_. push_new_message (tool_result r))) rs)" for X rs
    using track_push_both [OF tracks_true] by (intro keeps_for_each)
  show ?thesis
    unfolding answer_tool_calls_def if_not_P [OF False]
    by (rule hoare_bnd [OF batch], rule hoare_prod, rule hoare_bnd [OF hoare_pre [OF kept_value [OF push yields_any]]],
        assumption, rule hoare_ret) auto
qed

lemma end_turn_value:
  fixes rs :: "tool_result_message list"
  assumes "abort_latched H" "turn_completed m"
  shows "hoare (unless_aborted H (list_all2 (answers H) (tool_calls m) rs))
    (bnd (aborted H) (\<lambda>abortedBeforeTurnEnd. bnd (emit H (TurnEnd (assistant m) rs)) (\<lambda>_.
     bnd (aborted H) (\<lambda>ab. if ab then finish_at_boundary H (tool_calls m \<noteq> [] \<or> \<not> abortedBeforeTurnEnd)
       else ret (NextTurn (next_control final m rs d)))))) (\<lambda>a _. continues_answered H a) (\<lambda>_. True)"
proof -
  let ?X = "list_all2 (answers H) (tool_calls m) rs"
  have full: "?X \<Longrightarrow> continues_answered H (NextTurn (next_control final m rs d))"
    using assms(2) by (auto simp: continues_answered_def next_control_def answered_turn_def Let_def)
  have final_check: "hoare (unless_aborted H ?X) (bnd (aborted H) (\<lambda>ab. if ab then finish_at_boundary H b
      else ret (NextTurn (next_control final m rs d)))) (\<lambda>a _. continues_answered H a) (\<lambda>_. True)" for b
    by (rule hoare_if_aborted [OF hoare_pre [OF boundary_value] hoare_ret]) (auto simp: full)
  have emitted: "hoare (unless_aborted H ?X) (emit H e) (\<lambda>_. unless_aborted H ?X) (\<lambda>_. True)" for e
    by (rule hoare_post [OF kept_value [OF keeps_emit [OF latched_keeps [OF assms(1)]] yields_any]]) simp
  have checked: "hoare (unless_aborted H ?X) (aborted H) (\<lambda>_. unless_aborted H ?X) (\<lambda>_. True)"
    by (rule hoare_post [OF hoare_aborted]) simp
  show ?thesis by (rule hoare_bnd [OF checked hoare_bnd [OF emitted final_check]])
qed

lemma complete_turn_value:
  assumes "abort_latched H"
  shows "yields (complete_turn H final m) (continues_answered H)"
  unfolding complete_turn_def
  apply (rule yields_last, rule hoare_if, intro yields_last finish_value)
  apply (rule hoare_bnd [OF answer_answers [OF assms]], rule hoare_prod)
  apply (rule hoare_pre [OF end_turn_value [OF assms]])
   apply (auto simp: turn_completed_def)
  done

lemma dispatch_value:
  assumes "abort_latched H"
  shows "yields (dispatch_turn H ctl) (continues_answered H)"
proof -
  have preflight: "yields (finish_preflight_aborted H b) (continues_answered H)" for b
    unfolding finish_preflight_aborted_def Let_def by (intro yields_last finish_value)
  have request: "yields (request_turn H c reason ds) (continues_answered H)" for c reason ds
    unfolding request_turn_def
    by (intro yields_last hoare_if hoare_prod hoare_option finish_value preflight complete_turn_value [OF assms])
  have act: "yields (case a of RequestAction reason ds \<Rightarrow> request_turn H c reason ds | _ \<Rightarrow> finish_loop H)
      (continues_answered H)" for a c
    by (cases a) (auto intro: request finish_value)
  show ?thesis
    unfolding dispatch_turn_def by (intro yields_last hoare_if boundary_value act)
qed

end
