(* ===== verification/Agent_Lifecycle.thy ===== *)
theory Agent_Lifecycle
  imports Agent_Parallel
begin

text \<open>
  Turns, requests and the run as the monitor sees them: a run that returns leaves the monitor in its
  final state, and one that throws was never rejected.
\<close>

section \<open>Turns\<close>

lemma mon_answer:
  assumes "\<not> final \<Longrightarrow> t = offered T"
  shows "hoare (at_mon K T (in_turn [] t)) (answer_tool_calls H final m) (\<lambda>_. at_mon K T (in_turn [] t)) (accepted K)"
proof -
  have answer: "hoare (at_mon K T (in_turn [] t)) (if final
      then bnd (for_each (\<lambda>c. bnd (host_step (h_now H)) (\<lambda>now. emit_tool_result H (disabled_tool_result c now)))
             (tool_calls m)) (\<lambda>results. ret (results, BatchContinue))
      else executeToolCalls H m) (\<lambda>_. at_mon K T (in_turn [] t)) (accepted K)"
    using assms
    by (cases final)
      (auto intro!: hoare_bnd [OF hoare_for_each mon_ret] hoare_bnd [OF mon_step mon_tool_result] mon_tool_calls)
  have push: "hoare (at_mon K T (in_turn [] t))
      (for_each (\<lambda>r. bnd (push_message (tool_result r)) (\<lambda>_. push_new_message (tool_result r))) rs)
      (\<lambda>_. at_mon K T (in_turn [] t)) (accepted K)" for rs
    by (rule hoare_for_each [OF hoare_bnd [OF mon_push mon_push_new]])
  show ?thesis
    unfolding answer_tool_calls_def
    by (rule hoare_if [OF mon_ret hoare_bnd [OF answer hoare_prod [OF hoare_bnd [OF push mon_ret]]]])
qed

text \<open>A turn leaves the run finished, or between two turns.\<close>

definition turn_left :: "(llm_context \<Rightarrow> bool) \<Rightarrow> turn_outcome \<Rightarrow> 'h loop_state \<Rightarrow> bool" where
  "turn_left K r s \<longleftrightarrow>
     (case r of LoopFinished \<Rightarrow> \<exists>T t. at_mon K T (Mon RunEnded None [] t) s
      | NextTurn _ \<Rightarrow> \<exists>T t. at_mon K T (Mon BetweenTurns None [] t) s)"

lemma left_finish: "hoare (at_mon K T (Mon BetweenTurns None [] t)) (finish_loop H) (turn_left K) (accepted K)"
  by (rule hoare_post [OF mon_finish]) (auto simp: turn_left_def)

lemma left_boundary:
  "hoare (at_mon K T (Mon BetweenTurns None [] t)) (finish_at_boundary H b) (turn_left K) (accepted K)"
  by (rule hoare_post [OF mon_finish_at_boundary]) (auto simp: turn_left_def)

lemma left_complete_turn:
  assumes "\<not> final \<Longrightarrow> t = offered T"
  shows "hoare (at_mon K T (in_turn [] t)) (complete_turn H final m) (turn_left K) (accepted K)"
proof -
  have end_turn: "hoare (at_mon K T (in_turn [] t)) (emit H (TurnEnd (assistant m) rs))
      (\<lambda>_. at_mon K T (Mon BetweenTurns None [] t)) (accepted K)" for rs
    by (rule mon_emit) simp
  have next_turn: "hoare (at_mon K T (Mon BetweenTurns None [] t)) (ret (NextTurn c)) (turn_left K) (accepted K)" for c
    by (rule hoare_ret) (auto simp: turn_left_def)
  show ?thesis
    unfolding complete_turn_def
    by (rule hoare_bnd [OF mon_push_new hoare_if [OF hoare_bnd [OF end_turn left_finish]]],
        rule hoare_bnd [OF mon_answer [OF assms]], assumption)
      (auto intro!: hoare_prod hoare_bnd [OF mon_aborted_any hoare_bnd [OF end_turn
        hoare_bnd [OF mon_aborted_any hoare_if [OF left_boundary next_turn]]]])
qed

lemma left_preflight:
  "hoare (at_mon K T (if started then in_turn [] t else Mon BetweenTurns None [] t))
     (finish_preflight_aborted H started) (turn_left K) (accepted K)"
proof -
  have first: "hoare (at_mon K T (if started then in_turn [] t else Mon BetweenTurns None [] t))
      (if started then ret None else emit H TurnStart) (\<lambda>_. at_mon K T (in_turn [] t)) (accepted K)"
    by (cases started) (auto intro!: mon_ret mon_emit)
  show ?thesis
    unfolding finish_preflight_aborted_def Let_def
    apply (rule hoare_bnd [OF first hoare_bnd [OF mon_read hoare_bnd [OF mon_step hoare_bnd [OF mon_push]]]])
    apply (rule hoare_bnd [OF mon_emit], simp)
    apply (rule hoare_bnd [OF mon_emit], simp)
    apply (rule hoare_bnd [OF mon_resolve hoare_fact])
    apply (rule hoare_bnd [OF mon_set_last hoare_bnd [OF mon_push_new hoare_bnd [OF mon_emit left_finish]]], simp)
    done
qed

section \<open>Requests\<close>

lemma mon_prepare_request:
  "hoare (at_mon K T M) (prepare_request H c reason ds) (\<lambda>_ s. \<exists>T. at_mon K T M s) (accepted K)"
proof -
  have keep: "hoare (at_mon K T M) (ret ()) (\<lambda>_ s. \<exists>T. at_mon K T M s) (accepted K)"
    by (rule hoare_ret) blast
  have upd: "hoare (at_mon K T M) (apply_request_update u) (\<lambda>_ s. \<exists>T. at_mon K T M s) (accepted K)" for u
    unfolding apply_request_update_def by (rule hoare_update) (simp add: at_mon_def)
  show ?thesis
    unfolding prepare_request_def
    by (rule hoare_bnd [OF mon_aborted_any hoare_if [OF keep hoare_option [OF keep
          hoare_bnd [OF mon_read hoare_bnd [OF mon_read hoare_bnd [OF mon_call hoare_option [OF keep upd]]]]]]])
qed

definition turn_response ::
    "(llm_context \<Rightarrow> bool) \<Rightarrow> bool \<Rightarrow> agent_tool list option \<Rightarrow> agent_tool list \<Rightarrow> bool \<times> assistant_message option
     \<Rightarrow> 'h loop_state \<Rightarrow> bool" where
  "turn_response K final T t = (\<lambda>(started, r). case r of
       None \<Rightarrow> at_mon K T (if started then in_turn [] t else Mon BetweenTurns None [] t)
     | Some _ \<Rightarrow> at_mon K T (in_turn [] (offered (if final then Some [] else T))))"

lemma mon_request_response:
  assumes "streams_start_once H" "converts_to K H"
  shows "hoare (at_mon K T (Mon BetweenTurns None [] t)) (request_response H final)
    (turn_response K final T t) (accepted K)"
proof -
  define M where "M started = (if started then in_turn [] t else Mon BetweenTurns None [] t)" for started
  have start: "hoare (\<lambda>s. at_mon K T (Mon BetweenTurns None [] t) s \<and> ab = h_aborted H (ls_host s))
      (if ab then ret False else bnd (emit H TurnStart) (\<lambda>_. ret True))
      (\<lambda>started s. at_mon K T (M started) s \<and> (\<not> started \<longrightarrow> h_aborted H (ls_host s))) (accepted K)" for ab
  proof (cases ab)
    case False
    have started: "hoare (at_mon K T (Mon BetweenTurns None [] t)) (emit H TurnStart)
        (\<lambda>_. at_mon K T (in_turn [] t)) (accepted K)" by (rule mon_emit) simp
    show ?thesis
      using False by (simp, intro hoare_bnd [OF hoare_pre [OF started] hoare_ret]) (auto simp: M_def)
  qed (auto simp: M_def intro!: hoare_ret)
  have respond: "hoare (at_mon K T (in_turn [] t))
      (bnd (read_state ls_context) (\<lambda>context.
       bnd (if final then streamAssistantResponse H (ac_systemPrompt context @ final_response_prompt) (Some [])
            else streamAssistantResponse H (ac_systemPrompt context) (ac_tools context)) (\<lambda>message.
       ret (True, message)))) (turn_response K final T t) (accepted K)"
  proof (rule hoare_bnd [OF mon_context hoare_fact])
    fix c :: agent_context
    assume c: "ac_tools c = T"
    have "hoare (at_mon K T (in_turn [] t))
      (if final then streamAssistantResponse H (ac_systemPrompt c @ final_response_prompt) (Some [])
       else streamAssistantResponse H (ac_systemPrompt c) (ac_tools c))
      (responded K T (if final then Some [] else T) t) (accepted K)"
      using mon_stream [OF assms] c by simp
    then show "hoare (at_mon K T (in_turn [] t))
      (bnd (if final then streamAssistantResponse H (ac_systemPrompt c @ final_response_prompt) (Some [])
            else streamAssistantResponse H (ac_systemPrompt c) (ac_tools c)) (\<lambda>message. ret (True, message)))
      (turn_response K final T t) (accepted K)"
      by (rule hoare_bnd [OF _ hoare_ret]) (auto simp: responded_def turn_response_def split: option.splits if_splits)
  qed
  have branch: "hoare (\<lambda>s. at_mon K T (M started) s \<and> (\<not> started \<longrightarrow> h_aborted H (ls_host s)))
      (bnd (aborted H) (\<lambda>ab. if ab then ret (started, None)
        else bnd (read_state ls_context) (\<lambda>context.
         bnd (if final then streamAssistantResponse H (ac_systemPrompt context @ final_response_prompt) (Some [])
              else streamAssistantResponse H (ac_systemPrompt context) (ac_tools context)) (\<lambda>message.
         ret (started, message))))) (turn_response K final T t) (accepted K)" for started
  proof (rule hoare_if_aborted)
    show "hoare (\<lambda>s. at_mon K T (M started) s \<and> (\<not> started \<longrightarrow> h_aborted H (ls_host s)))
        (ret (started, None)) (turn_response K final T t) (accepted K)"
      by (rule hoare_ret) (auto simp: turn_response_def M_def)
  qed (cases started, use respond in \<open>auto simp: M_def hoare_def\<close>)
  show ?thesis
    unfolding request_response_def by (rule hoare_bnd [OF mon_aborted hoare_bnd [OF start branch]])
qed

lemma left_request_turn:
  assumes "streams_start_once H" "converts_to K H"
  shows "hoare (at_mon K T (Mon BetweenTurns None [] t)) (request_turn H c reason ds) (turn_left K) (accepted K)"
proof -
  have response: "hoare (turn_response K (reason = FinalResponseReason) T' t p)
      (case p of (turnStarted, message) \<Rightarrow>
       (case message of None \<Rightarrow> finish_preflight_aborted H turnStarted
        | Some m \<Rightarrow> complete_turn H (reason = FinalResponseReason) m)) (turn_left K) (accepted K)" for p T'
    unfolding turn_response_def
    using left_preflight [of K T' True t H] left_preflight [of K T' False t H]
    by (cases p; cases "snd p") (auto intro: left_complete_turn)
  have request: "hoare (\<lambda>s. \<exists>T. at_mon K T (Mon BetweenTurns None [] t) s)
      (bnd (request_response H (reason = FinalResponseReason)) (\<lambda>(turnStarted, message).
       case message of None \<Rightarrow> finish_preflight_aborted H turnStarted
        | Some m \<Rightarrow> complete_turn H (reason = FinalResponseReason) m)) (turn_left K) (accepted K)"
    by (rule hoare_exI, rule hoare_bnd [OF mon_request_response [OF assms] response])
  show ?thesis
    unfolding request_turn_def
    by (rule hoare_bnd [OF mon_deliveries hoare_if [OF left_finish hoare_bnd [OF mon_prepare_request request]]])
qed

lemma left_dispatch:
  assumes "streams_start_once H" "converts_to K H"
  shows "hoare (at_mon K T (Mon BetweenTurns None [] t)) (dispatch_turn H ctl) (turn_left K) (accepted K)"
proof -
  have act: "hoare (at_mon K T (Mon BetweenTurns None [] t)) (case a of RequestAction reason ds \<Rightarrow> request_turn H c reason ds
      | _ \<Rightarrow> finish_loop H) (turn_left K) (accepted K)" for a c
    by (cases a) (auto intro: left_request_turn [OF assms] left_finish)
  have resolve: "hoare (at_mon K T M) (resolveNextAction H c) (\<lambda>_. at_mon K T M) (accepted K)" for c M
    unfolding resolveNextAction_def by (intro hoare_option mon_ret mon_call)
  show ?thesis
    unfolding dispatch_turn_def
    apply (rule hoare_bnd [OF mon_aborted_any hoare_if [OF left_boundary hoare_bnd [OF mon_read]]])
    apply (rule hoare_bnd [OF resolve hoare_bnd [OF mon_aborted_any hoare_if [OF left_boundary act]]])
    done
qed

section \<open>The run\<close>

text \<open>How a run leaves the monitor: finished when it returned, and never rejected.\<close>

definition run_left :: "(llm_context \<Rightarrow> bool) \<Rightarrow> (agent_error + unit) \<times> 'h loop_state \<Rightarrow> bool" where
  "run_left K r = (case r of
       (Inr _, s) \<Rightarrow> \<exists>t. monitor_run K (ls_trace s) = Some (Mon RunEnded None [] t)
     | (Inl _, s) \<Rightarrow> monitor_run K (ls_trace s) \<noteq> None)"

lemma run_left_loop:
  assumes H: "streams_start_once H" "converts_to K H"
    and "at_mon K T (Mon BetweenTurns None [] t) s" "runDispatchedLoop fuel H ctl s = Some r"
  shows "run_left K r"
  using assms(3, 4)
proof (induction fuel arbitrary: ctl s T t)
  case (Suc fuel)
  obtain v s' where d: "dispatch_turn H ctl s = (v, s')" by (cases "dispatch_turn H ctl s")
  show ?case
  proof (cases v)
    case (Inl e)
    with d hoareD_error [OF left_dispatch [OF H] Suc.prems(1)] have "accepted K s'" by blast
    with Suc.prems(2) d Inl show ?thesis by (auto simp: run_left_def accepted_def)
  next
    case (Inr out)
    with d hoareD [OF left_dispatch [OF H] Suc.prems(1)] have left: "turn_left K out s'" by blast
    with Suc d Inr show ?thesis
      by (cases out) (auto simp: turn_left_def run_left_def at_mon_def)
  qed
qed simp

lemma run_left_start:
  assumes H: "streams_start_once H" "converts_to K H"
    and "ls_trace s = []" "start_loop fuel H action s = Some r"
  shows "run_left K r"
proof -
  have emit: "hoare (at_mon K (ac_tools (ls_context s)) (Mon NotStarted None [] [])) (emit H AgentStart)
      (\<lambda>_. at_mon K (ac_tools (ls_context s)) (Mon BetweenTurns None [] [])) (accepted K)"
    by (rule mon_emit) simp
  have s: "at_mon K (ac_tools (ls_context s)) (Mon NotStarted None [] []) s"
    using assms(3) by (simp add: at_mon_def monitor_run_def)
  obtain v s' where d: "emit H AgentStart s = (v, s')" by (cases "emit H AgentStart s")
  show ?thesis
  proof (cases v)
    case (Inl e)
    with d hoareD_error [OF emit s] have "accepted K s'" by blast
    with assms(4) d Inl show ?thesis by (auto simp: start_loop_def run_left_def accepted_def)
  next
    case (Inr a)
    with d hoareD [OF emit s] have "at_mon K (ac_tools (ls_context s)) (Mon BetweenTurns None [] []) s'" by blast
    with assms(4) d Inr show ?thesis by (auto simp: start_loop_def intro: run_left_loop [OF H])
  qed
qed

end
