(* ===== verification/Agent_Termination.thy ===== *)
theory Agent_Termination
  imports Agent_Answers Agent_Lifecycle
begin

text \<open>
  When the loop returns, what a final response may do, and which messages deliveries add: a run returns
  when its dispatcher can ask for finitely many requests; a final response makes one request without
  tools, runs none, and hands back the ordinary authority.
\<close>

section \<open>Termination\<close>

text \<open>
  A budget of requests: no call of the host raises it, and every request the dispatcher asks for lowers it.
\<close>

definition request_budget :: "'h agent_host \<Rightarrow> ('h \<Rightarrow> nat) \<Rightarrow> bool" where
  "request_budget H b \<longleftrightarrow>
     (\<forall>n. host_keeps H (\<lambda>h. b h \<le> n))
     \<and> (case h_nextAction H of
          None \<Rightarrow> False
        | Some f \<Rightarrow> \<forall>c h. b (snd (f c h)) \<le> b h
            \<and> (\<forall>r ds h'. f c h = (Inr (RequestAction r ds), h') \<longrightarrow> b h' < b h))"

text \<open>A pending final response is one request more.\<close>

definition turn_budget :: "('h \<Rightarrow> nat) \<Rightarrow> loop_control \<Rightarrow> 'h \<Rightarrow> nat" where
  "turn_budget b ctl h = 2 * b h + (if ct_requestAuthority ctl = FinalResponseAuthority then 1 else 0)"

text \<open>After a final response the provider has the authority again and the default is to stop.\<close>

definition after_final :: "turn_outcome \<Rightarrow> bool" where
  "after_final r \<longleftrightarrow>
     (case r of LoopFinished \<Rightarrow> True
      | NextTurn ctl \<Rightarrow> ct_requestAuthority ctl = ProviderAuthority \<and> ct_defaultAction ctl = StopAction)"

lemma finish_after_final: "yields (finish_loop H) after_final"
  unfolding finish_loop_def by (intro yields_last yields_ret) (simp add: after_final_def)

lemma final_turn_value: "yields (request_turn H c FinalResponseReason ds) after_final"
proof -
  have boundary: "yields (finish_at_boundary H b) after_final" for b
    unfolding finish_at_boundary_def by (intro yields_last finish_after_final)
  have preflight: "yields (finish_preflight_aborted H b) after_final" for b
    unfolding finish_preflight_aborted_def Let_def by (intro yields_last finish_after_final)
  have next_turn: "yields (ret (NextTurn (next_control True m rs d))) after_final" for m rs d
    by (rule yields_ret) (simp add: after_final_def next_control_def Let_def)
  have complete: "yields (complete_turn H True m) after_final" for m
    unfolding complete_turn_def
    by (intro yields_last hoare_if hoare_prod boundary next_turn finish_after_final)
  show ?thesis
    unfolding request_turn_def
    by (intro yields_last hoare_if hoare_prod hoare_option finish_after_final preflight) (simp add: complete)
qed

text \<open>A turn whose batch asked for the final response hands the next one that authority.\<close>

definition asks_final :: "turn_outcome \<Rightarrow> bool" where
  "asks_final r \<longleftrightarrow>
     (case r of LoopFinished \<Rightarrow> True
      | NextTurn ctl \<Rightarrow> \<forall>t. ct_completedTurn ctl = Some t \<longrightarrow> lt_disposition t = BatchFinalResponse
          \<longrightarrow> ct_requestAuthority ctl = FinalResponseAuthority)"

lemma final_answers_continue: "yields (answer_tool_calls H True m) (\<lambda>r. snd r = BatchContinue)"
proof -
  have batch: "yields (bnd (for_each f xs) (\<lambda>results. ret (results, BatchContinue))) (\<lambda>r. snd r = BatchContinue)" for f xs
    by (intro yields_last yields_ret) simp
  show ?thesis
    unfolding answer_tool_calls_def if_True
    by (rule hoare_if, rule yields_ret, simp, rule value_bnd [OF batch], rule hoare_prod, intro yields_last yields_ret) simp
qed

lemma dispatch_asks_final: "yields (dispatch_turn H ctl) asks_final"
proof -
  have finish: "yields (finish_loop H) asks_final"
    unfolding finish_loop_def by (intro yields_last yields_ret) (simp add: asks_final_def)
  have boundary: "yields (finish_at_boundary H b) asks_final" for b
    unfolding finish_at_boundary_def by (intro yields_last finish)
  have preflight: "yields (finish_preflight_aborted H b) asks_final" for b
    unfolding finish_preflight_aborted_def Let_def by (intro yields_last finish)
  have next_turn: "yields (ret (NextTurn (next_control final m rs d))) asks_final" if "final \<longrightarrow> d = BatchContinue" for final m rs d
    by (rule yields_ret) (use that in \<open>auto simp: asks_final_def next_control_def Let_def\<close>)
  have answered: "yields (answer_tool_calls H final m) (\<lambda>r. final \<longrightarrow> snd r = BatchContinue)" for final m
    using final_answers_continue [of H m] yields_any by (cases final) (simp_all add: hoare_def)
  have complete: "yields (complete_turn H final m) asks_final" for final m
    unfolding complete_turn_def
    by (rule yields_last, rule hoare_if, intro yields_last finish, rule value_bnd [OF answered], rule hoare_prod,
        intro yields_last hoare_if boundary next_turn) simp
  have request: "yields (request_turn H c reason ds) asks_final" for c reason ds
    unfolding request_turn_def by (intro yields_last hoare_if hoare_prod hoare_option finish preflight complete)
  have act: "yields (case a of RequestAction reason ds \<Rightarrow> request_turn H c reason ds | _ \<Rightarrow> finish_loop H) asks_final" for a c
    by (cases a) (auto intro: request finish)
  show ?thesis unfolding dispatch_turn_def by (intro yields_last hoare_if boundary act)
qed

lemma budget_request_turn:
  assumes "request_budget H b" "streams_start_once H" "b (ls_host s) \<le> n"
    and "request_turn H c reason ds s = (Inr r, s')"
  shows "b (ls_host s') \<le> n"
proof -
  have "keeps (\<lambda>h. b h \<le> n) (\<lambda>_ _. True) (request_turn H c reason ds)"
    using track_request_turn [OF tracks_true, of H "\<lambda>h. b h \<le> n" c reason ds] assms(1, 2)
    by (simp add: request_budget_def updates_track_def)
  from hoareD [OF this _ assms(4)] assms(3) show ?thesis by (simp add: holds_at_def)
qed

lemma finish_at_boundary_value: "finish_at_boundary H b s = (Inr r, s') \<Longrightarrow> r = LoopFinished"
  by (auto simp: finish_at_boundary_def finish_loop_def emit_agent_end_def bnd_def ret_def
      split: prod.splits sum.splits)

lemma finish_loop_value: "finish_loop H s = (Inr r, s') \<Longrightarrow> r = LoopFinished"
  by (auto simp: finish_loop_def bnd_def ret_def split: prod.splits sum.splits)

text \<open>The two ways a turn goes on: the host asked for a request, or a final response was pending.\<close>

lemma dispatch_next:
  assumes "dispatch_turn H ctl s = (Inr (NextTurn ctl'), s')"
  obtains a s1 reason ds where
    "resolveNextAction H (action_context ctl s) s = (Inr a, s1)"
    "final_action (ct_requestAuthority ctl) a = RequestAction reason ds"
    "request_turn H (action_context ctl s) reason ds s1 = (Inr (NextTurn ctl'), s')"
proof -
  have "\<not> h_aborted H (ls_host s)"
    using assms by (auto simp: dispatch_turn_def bnd_def aborted_def read_state_def dest: finish_at_boundary_value)
  then obtain a s1 where r: "resolveNextAction H (action_context ctl s) s = (Inr a, s1)"
    and rest: "(if h_aborted H (ls_host s1) \<and> ct_completedTurn ctl \<noteq> None then finish_at_boundary H True
       else case final_action (ct_requestAuthority ctl) a of
         RequestAction reason deliveries \<Rightarrow> request_turn H (action_context ctl s) reason deliveries
       | _ \<Rightarrow> finish_loop H) s1 = (Inr (NextTurn ctl'), s')"
    using assms
    by (cases "resolveNextAction H (action_context ctl s) s"; cases "fst (resolveNextAction H (action_context ctl s) s)")
      (auto simp: dispatch_turn_def bnd_def aborted_def read_state_def)
  from rest obtain reason ds where "final_action (ct_requestAuthority ctl) a = RequestAction reason ds"
    "request_turn H (action_context ctl s) reason ds s1 = (Inr (NextTurn ctl'), s')"
    by (auto split: if_splits next_action.splits dest: finish_at_boundary_value finish_loop_value)
  with r that show thesis by blast
qed

lemma final_action_request:
  assumes "final_action auth a = RequestAction reason ds"
  shows "auth = FinalResponseAuthority \<and> reason = FinalResponseReason \<and> ds = None
     \<or> auth \<noteq> FinalResponseAuthority \<and> a = RequestAction reason ds"
  using assms by (cases "(auth, a)" rule: final_action.cases) auto

lemma budget_dispatch:
  assumes b: "request_budget H b" and "streams_start_once H"
    and d: "dispatch_turn H ctl s = (Inr (NextTurn ctl'), s')"
  shows "turn_budget b ctl' (ls_host s') < turn_budget b ctl (ls_host s)"
proof -
  obtain a s1 reason ds where r: "resolveNextAction H (action_context ctl s) s = (Inr a, s1)"
    and f: "final_action (ct_requestAuthority ctl) a = RequestAction reason ds"
    and t: "request_turn H (action_context ctl s) reason ds s1 = (Inr (NextTurn ctl'), s')"
    using d by (rule dispatch_next)
  from b obtain g where g: "h_nextAction H = Some g" "\<And>c h. b (snd (g c h)) \<le> b h"
    "\<And>c h r ds h'. g c h = (Inr (RequestAction r ds), h') \<Longrightarrow> b h' < b h"
    by (auto simp: request_budget_def split: option.splits)
  from r g(1) have call: "g (action_context ctl s) (ls_host s) = (Inr a, ls_host s1)"
    by (auto simp: resolveNextAction_def host_call_def split: prod.splits sum.splits)
  have later: "b (ls_host s') \<le> b (ls_host s1)"
    by (rule budget_request_turn [OF b assms(2) order.refl t])
  from final_action_request [OF f] show ?thesis
  proof
    assume auth: "ct_requestAuthority ctl = FinalResponseAuthority \<and> reason = FinalResponseReason \<and> ds = None"
    then have "ct_requestAuthority ctl' = ProviderAuthority"
      using hoareD [OF final_turn_value _ t [unfolded auth [THEN conjunct2, THEN conjunct1]]]
      by (simp add: after_final_def)
    moreover have "b (ls_host s1) \<le> b (ls_host s)" using g(2) [of "action_context ctl s" "ls_host s"] call by simp
    ultimately show ?thesis using auth later by (simp add: turn_budget_def)
  next
    assume "ct_requestAuthority ctl \<noteq> FinalResponseAuthority \<and> a = RequestAction reason ds"
    with g(3) call have "b (ls_host s1) < b (ls_host s)" by blast
    with later show ?thesis by (simp add: turn_budget_def)
  qed
qed

lemma loop_returns:
  assumes "request_budget H b" "streams_start_once H" "turn_budget b ctl (ls_host s) < fuel"
  shows "\<exists>r. runDispatchedLoop fuel H ctl s = Some r"
  using assms(3)
proof (induction fuel arbitrary: ctl s)
  case (Suc fuel)
  obtain v s' where d: "dispatch_turn H ctl s = (v, s')" by (cases "dispatch_turn H ctl s")
  show ?case
  proof (cases v)
    case (Inr out)
    show ?thesis
    proof (cases out)
      case (NextTurn ctl')
      have "turn_budget b ctl' (ls_host s') < fuel"
        using budget_dispatch [OF assms(1, 2)] d Inr NextTurn Suc.prems by fastforce
      then show ?thesis using Suc.IH d Inr NextTurn by simp
    qed (use d Inr in simp)
  qed (use d in simp)
qed simp

section \<open>What a final response does\<close>

text \<open>The trace grew by actions that satisfy \<open>G\<close> only.\<close>

definition logs :: "(loop_action \<Rightarrow> bool) \<Rightarrow> (bool \<times> loop_action) list \<Rightarrow> 'h loop_state \<Rightarrow> bool" where
  "logs G tr s \<longleftrightarrow> (\<exists>d. ls_trace s = tr @ d \<and> list_all (\<lambda>a. G (snd a)) d)"

abbreviation only :: "(loop_action \<Rightarrow> bool) \<Rightarrow> (bool \<times> loop_action) list \<Rightarrow> ('h, 'a) act \<Rightarrow> bool" where
  "only G tr m \<equiv> hoare (logs G tr) m (\<lambda>_. logs G tr) (logs G tr)"

fun tool_free :: "loop_action \<Rightarrow> bool" where
  "tool_free (Emitted e) = True"
| "tool_free (Requested md c) = (lc_tools c = Some [])"
| "tool_free (Began d) = False"
| "tool_free (Executed t c) = False"

named_theorems only_intros \<open>actions that log tool-free steps only\<close>

lemma logs_host [simp]: "logs G tr (s\<lparr>ls_host := h\<rparr>) = logs G tr s"
  by (simp add: logs_def)

lemma only_bnd [only_intros]: "only G tr m \<Longrightarrow> (\<And>a. only G tr (f a)) \<Longrightarrow> only G tr (bnd m f)"
  by (rule hoare_bnd)

lemma only_basic [only_intros]:
  "only G tr (ret a)" "only G tr (raise e)" "only G tr (host_call g)" "only G tr (host_step k)"
  by (auto intro: hoare_ret hoare_raise hoare_host_call hoare_host_step)

lemma only_read [only_intros]: "only G tr (read_state f)" "only G tr (aborted H)"
  by (auto intro: hoare_post [OF hoare_read] hoare_post [OF hoare_aborted])

lemma only_writes [only_intros]:
  "only G tr (push_message m)" "only G tr (push_new_message m)" "only G tr (set_last_message m)"
  "only G tr (apply_request_update u)"
  by (auto simp: push_message_def push_new_message_def set_last_message_def apply_request_update_def logs_def
      intro!: hoare_update)

lemma only_record: "G a \<Longrightarrow> only G tr (record_action H a)"
  unfolding record_action_def by (rule hoare_update) (auto simp: logs_def)

lemma only_emit [only_intros]: "only tool_free tr (emit H e)"
  unfolding emit_def by (intro only_intros only_record) simp

lemma only_if [only_intros]: "(b \<Longrightarrow> only G tr m) \<Longrightarrow> (\<not> b \<Longrightarrow> only G tr n) \<Longrightarrow> only G tr (if b then m else n)"
  by simp

lemma only_option [only_intros]:
  "(x = None \<Longrightarrow> only G tr m) \<Longrightarrow> (\<And>y. x = Some y \<Longrightarrow> only G tr (f y))
   \<Longrightarrow> only G tr (case x of None \<Rightarrow> m | Some y \<Rightarrow> f y)"
  by (cases x) auto

lemma only_prod [only_intros]: "(\<And>y z. only G tr (f y z)) \<Longrightarrow> only G tr (case x of (y, z) \<Rightarrow> f y z)"
  by (cases x) auto

lemma only_for_each [only_intros]: "(\<And>x. only G tr (f x)) \<Longrightarrow> only G tr (for_each f xs)"
  by (rule hoare_for_each)

lemma only_casts [only_intros]:
  "only G tr (resolveMessageReplacement m r)" "only G tr (as_assistant m)" "only G tr (as_tool_result m)"
  by (auto simp: resolveMessageReplacement_def as_assistant_def as_tool_result_def intro!: only_intros
      split: agent_message.split log_message.split)

lemma only_tool_result [only_intros]: "only tool_free tr (emit_tool_result H t)"
  unfolding emit_tool_result_def emitCompletedMessage_def by (intro only_intros)

lemma only_finish [only_intros]:
  "only tool_free tr (finish_loop H)" "only tool_free tr (finish_at_boundary H b)"
  "only tool_free tr (finish_preflight_aborted H st)"
  unfolding finish_at_boundary_def finish_loop_def emit_agent_end_def emitBoundaryAbort_def
    finish_preflight_aborted_def Let_def
  by (intro only_intros)+

lemma only_finish_stream [only_intros]: "only tool_free tr (finish_stream H response added)"
proof (cases "sr_result response")
  case (Inr m)
  show ?thesis unfolding finish_stream_def Inr sum.case by (intro only_intros)
qed (simp add: finish_stream_def only_basic)

lemma only_stream_events [only_intros]: "only tool_free tr (stream_events H response added es)"
proof (induction H response added es rule: stream_events.induct)
  case (1 H response added)
  show ?case unfolding stream_events.simps by (intro only_intros)
next
  case (2 H response added q snapshot st es)
  then show ?case unfolding stream_events.simps by (intro only_intros)
next
  case (3 H response added b q i snapshot st es)
  then show ?case unfolding stream_events.simps by (cases added) (auto intro!: only_intros)
qed (simp_all add: only_finish_stream)

lemma only_stream: "only tool_free tr (streamAssistantResponse H prompt (Some []))"
  unfolding streamAssistantResponse_def transform_context_def Let_def
  by (intro only_intros only_record) simp

lemma only_final_turn: "only tool_free tr (request_turn H c FinalResponseReason None)"
proof -
  have response: "only tool_free tr (request_response H True)"
    unfolding request_response_def if_True by (intro only_intros only_stream)
  have complete: "only tool_free tr (complete_turn H True m)" for m
    unfolding complete_turn_def answer_tool_calls_def if_True by (intro only_intros)
  show ?thesis
    unfolding request_turn_def emitDeliveries_def prepare_request_def option.case for_each.simps
    by (intro only_intros) (simp_all add: complete response)
qed

lemma only_final_dispatch:
  assumes "ct_requestAuthority ctl = FinalResponseAuthority"
  shows "only tool_free tr (dispatch_turn H ctl)"
proof -
  have act: "only tool_free tr (case final_action (ct_requestAuthority ctl) a of
      RequestAction reason ds \<Rightarrow> request_turn H c reason ds | _ \<Rightarrow> finish_loop H)" for a c
    using assms by (cases a) (auto intro: only_final_turn only_finish)
  show ?thesis
    unfolding dispatch_turn_def resolveNextAction_def by (intro only_intros act)
qed

end
