(* ===== verification/Agent_Sample.thy ===== *)
theory Agent_Sample
  imports Agent_Termination
begin

text \<open>
  A concrete host for the witnesses: a dispatcher that follows the loop's default within a number of
  requests, the kernel's converter, a provider that calls two tools and then answers, and a schedule
  that resumes the last open call first.
\<close>

record sample_state =
  sh_requests :: nat
  sh_clock :: int
  sh_turn :: nat
  sh_aborted :: bool

definition sample_response :: "stop_reason \<Rightarrow> assistant_block list \<Rightarrow> assistant_message" where
  "sample_response r bs =
     \<lparr>a_content = bs, a_api = ''faux'', a_provider = ''faux'', a_model = ''faux-1'', a_responseModel = None,
      a_responseId = None, a_diagnostics = None, a_usage = zero_usage, a_stopReason = r, a_error = None,
      a_timestamp = 7\<rparr>"

definition sample_calls :: assistant_message where
  "sample_calls = sample_response ToolUse
     [AText ''look'' None, AToolCall ''c1'' ''read'' (JObj []) None, AToolCall ''c2'' ''finish'' (JObj []) None]"

definition sample_answer :: assistant_message where
  "sample_answer = sample_response Stop [AText ''done'' None]"

definition sample_tools :: "agent_tool list" where
  "sample_tools = [\<lparr>at_name = ''read'', at_executionMode = None\<rparr>, \<lparr>at_name = ''finish'', at_executionMode = None\<rparr>]"

definition sample_user :: agent_message where
  "sample_user = Stored (UserMessage \<lparr>u_content = PlainText ''hello'', u_timestamp = 1\<rparr>)"

definition sample_context :: agent_context where
  "sample_context = \<lparr>ac_systemPrompt = ''be brief'', ac_messages = [], ac_tools = Some sample_tools\<rparr>"

definition sample_model :: request_model where
  "sample_model = \<lparr>md_api = ''faux'', md_provider = ''faux'', md_id = ''faux-1''\<rparr>"

definition sample_dispatch :: "next_action_context \<Rightarrow> (sample_state, next_action) host_call" where
  "sample_dispatch c h =
     (case nc_defaultAction c of
        RequestAction r ds \<Rightarrow>
          if sh_requests h = 0 then (Inr StopAction, h)
          else (Inr (RequestAction r ds), h\<lparr>sh_requests := sh_requests h - 1\<rparr>)
      | a \<Rightarrow> (Inr a, h))"

definition sample_stream ::
    "request_model \<Rightarrow> thinking_level option \<Rightarrow> llm_context \<Rightarrow> (sample_state, stream_response) host_call" where
  "sample_stream md r c h =
     (let m = (if sh_turn h = 0 then sample_calls else sample_answer) in
      (Inr \<lparr>sr_events = [StreamStart 0 m JNull, StreamBlock TextStart 1 0 m JNull, StreamDone 2 (a_stopReason m) m],
            sr_failure = None, sr_result = Inr m\<rparr>, h\<lparr>sh_turn := Suc (sh_turn h)\<rparr>))"

definition sample_execute :: "tool_disposition option \<Rightarrow> agent_tool \<Rightarrow> string \<Rightarrow> json \<Rightarrow> sample_state \<Rightarrow> tool_run \<times> sample_state" where
  "sample_execute d tool i args h =
     (let r = \<lparr>ar_content = [TextContent (at_name tool) None], ar_isError = None,
               ar_disposition = (if at_name tool = ''finish'' then d else None), ar_details = None\<rparr> in
      (\<lparr>tr_updates = [r], tr_settled = Inr r\<rparr>, h))"

definition sample_host :: "tool_disposition option \<Rightarrow> sample_state agent_host" where
  "sample_host d =
     \<lparr>h_aborted = sh_aborted,
      h_now = (\<lambda>h. (sh_clock h, h\<lparr>sh_clock := sh_clock h + 1\<rparr>)),
      h_emit = (\<lambda>e h. (Inr None, h)),
      h_nextAction = Some sample_dispatch,
      h_beginDelivery = Some (\<lambda>d h. (Inr (if al_deliveryId d = Some ''revoked'' then OutcomeRevoked else OutcomeCommitted), h)),
      h_prepareRequest = None,
      h_transformContext = None,
      h_convertToLlm = (\<lambda>ms h. (Inr (applyReplayPolicy (convertConversationMessages ms)), h)),
      h_streamFn = sample_stream,
      h_toolExecution = None,
      h_prepareArguments = (\<lambda>_. None),
      h_validateToolArguments = (\<lambda>_ c. Inr (tc_arguments c)),
      h_beforeToolCall = None,
      h_execute = sample_execute d,
      h_afterToolCall = None,
      h_schedule = (\<lambda>l h. (length l - 1, h))\<rparr>"

lemma sample_host_fields:
  "h_aborted (sample_host d) = sh_aborted"
  "h_now (sample_host d) = (\<lambda>h. (sh_clock h, h\<lparr>sh_clock := sh_clock h + 1\<rparr>))"
  "h_emit (sample_host d) e h = (Inr None, h)"
  "h_nextAction (sample_host d) = Some sample_dispatch"
  "h_beginDelivery (sample_host d) = Some (\<lambda>d h.
     (Inr (if al_deliveryId d = Some ''revoked'' then OutcomeRevoked else OutcomeCommitted), h))"
  "h_prepareRequest (sample_host d) = None"
  "h_transformContext (sample_host d) = None"
  "h_convertToLlm (sample_host d) ms h = (Inr (applyReplayPolicy (convertConversationMessages ms)), h)"
  "h_streamFn (sample_host d) = sample_stream"
  "h_toolExecution (sample_host d) = None"
  "h_prepareArguments (sample_host d) t = None"
  "h_validateToolArguments (sample_host d) t c = Inr (tc_arguments c)"
  "h_beforeToolCall (sample_host d) = None"
  "h_execute (sample_host d) = sample_execute d"
  "h_afterToolCall (sample_host d) = None"
  "h_schedule (sample_host d) l h = (length l - 1, h)"
  by (simp_all add: sample_host_def)

definition sample_start :: sample_state where
  "sample_start = \<lparr>sh_requests = 5, sh_clock = 100, sh_turn = 0, sh_aborted = False\<rparr>"

section \<open>The host's promises\<close>

lemma sample_starts_once: "streams_start_once (sample_host d)"
  by (auto simp: streams_start_once_def sample_host_def sample_stream_def Let_def)

lemma sample_keeps:
  assumes "\<And>h c. I (h\<lparr>sh_clock := c\<rparr>) = I h" "\<And>h c. I (h\<lparr>sh_turn := c\<rparr>) = I h"
  shows "host_keeps (sample_host d) I"
  using assms
  by (simp add: host_keeps_def steps_keep_def option_keeps_def sample_host_def sample_stream_def sample_execute_def Let_def)

lemma sample_latched: "abort_latched (sample_host d)"
  unfolding abort_latched_def by (rule sample_keeps) (simp_all add: sample_host_def)

lemma sample_budget: "request_budget (sample_host d) sh_requests"
  using sample_keeps [of "\<lambda>h. sh_requests h \<le> n" d for n]
  by (auto simp: request_budget_def sample_host_def sample_dispatch_def split: next_action.splits)

lemma sample_updates: "updates_track (sample_host d) F"
  by (simp add: updates_track_def sample_host_def)

section \<open>Evaluation\<close>

text \<open>
  The equations that run the loop on a concrete host; the congruence keeps the simplifier out of the
  continuations until their argument is known.
\<close>

lemma bnd_weak_cong: "m = m' \<Longrightarrow> s = s' \<Longrightarrow> bnd m f s = bnd m' f s'"
  by simp

lemmas agent_eval = bnd_def ret_def raise_def read_state_def update_state_def host_call_def try_call_def
  host_step_def aborted_def record_action_def emit_def push_message_def replace_last_def set_last_message_def
  push_new_message_def resolveMessageReplacement_def as_assistant_def as_tool_result_def emitCompletedMessage_def
  emit_tool_result_def aborted_message_def emitBoundaryAbort_def emit_agent_end_def deliver_message_def
  begin_delivery_def emit_delivery_def emitDeliveries_def finish_stream_def transform_context_def
  streamAssistantResponse_def find_tool_def immediate_error_def call_beforeToolCall_def prepareToolCallArguments_def
  prepareToolCall_def execution_outcome_def start_execution_def emit_update_def settle_updates_def executePreparedToolCall_def
  finalizeExecutedToolCall_def endToolCall_def createToolResultMessage_def emit_ended_call_def reduceToolBatchDisposition_def
  start_tool_call_def finalize_sequential_def executeToolCallsSequential_def start_call_def unfinished_def executeToolCallsParallel_def
  executeToolCalls_def finish_loop_def finish_at_boundary_def action_context_def resolveNextAction_def apply_request_update_def
  prepare_request_def request_response_def finish_preflight_aborted_def disabled_tool_result_def answer_tool_calls_def
  next_control_def complete_turn_def request_turn_def dispatch_turn_def initial_control_def initial_state_def start_loop_def
  prompt_action_def runAgentLoop_def Let_def map_filter_simps tool_calls_def finalized_tool_call.extend_def interleave_calls.simps(2) [of "pred_numeral v" for v, folded numeral_eq_Suc]
  runDispatchedLoop.simps(2) [of "pred_numeral v" for v, folded numeral_eq_Suc]

lemmas sample_eval = sample_start_def sample_context_def sample_host_fields sample_model_def sample_user_def
  sample_dispatch_def sample_stream_def sample_execute_def sample_tools_def sample_calls_def sample_answer_def sample_response_def

lemmas replay_eval = applyReplayPolicy_def replay_init_def insertSyntheticToolResults_def turn_completed_def
  convertConversationMessages_def convertToLlm_def

end
