(* ===== verification/Agent_Deliveries.thy ===== *)
theory Agent_Deliveries
  imports Agent_Answers "HOL-Library.Sublist"
begin

text \<open>
  What a delivery step adds to the transcript (\<open>emitDeliveries\<close>): the context and the new messages grow by
  the messages of the deliveries it reports, which are some of the given ones in their order.
\<close>

section \<open>What deliveries add\<close>

text \<open>The context and the new messages have both grown by \<open>xs\<close>.\<close>

definition grown :: "agent_message list \<Rightarrow> agent_message list \<Rightarrow> agent_message list \<Rightarrow> 'h loop_state \<Rightarrow> bool" where
  "grown mb nb xs s \<longleftrightarrow> ac_messages (ls_context s) = mb @ xs \<and> ls_newMessages s = nb @ xs"

lemma hoare_for_each_acc:
  assumes "\<And>x xs. hoare (P xs) (f x) (\<lambda>a. P (xs @ g a)) E"
  shows "hoare (P xs) (for_each f ys) (\<lambda>as. P (xs @ concat (map g as))) E"
proof (induction ys arbitrary: xs)
  case (Cons y ys)
  show ?case unfolding for_each.simps by (rule hoare_bnd [OF assms hoare_bnd [OF Cons.IH hoare_ret]]) simp
qed (simp add: hoare_ret)

lemma grown_call: "hoare (grown mb nb xs) (host_call f) (\<lambda>_. grown mb nb xs) (\<lambda>_. True)"
  by (rule hoare_host_call) (simp_all add: grown_def)

lemma grown_emit: "hoare (grown mb nb xs) (emit H e) (\<lambda>_. grown mb nb xs) (\<lambda>_. True)"
  unfolding emit_def record_action_def
  by (rule hoare_bnd [OF hoare_update grown_call]) (simp add: grown_def)

lemma grown_resolve: "hoare (grown mb nb xs) (resolveMessageReplacement m r) (\<lambda>_. grown mb nb xs) (\<lambda>_. True)"
  unfolding resolveMessageReplacement_def by (intro hoare_option hoare_if hoare_ret hoare_raise) auto

lemma grown_push: "hoare (grown mb nb xs) (bnd (push_message m) (\<lambda>_. bnd (push_new_message m) (\<lambda>_. ret m)))
    (\<lambda>a. grown mb nb (xs @ [a])) (\<lambda>_. True)"
  by (rule hoareI)
    (auto simp: bnd_def push_message_def push_new_message_def update_state_def ret_def grown_def)

lemma grown_deliver: "hoare (grown mb nb xs) (deliver_message H d m) (\<lambda>a. grown mb nb (xs @ [a])) (\<lambda>_. True)"
  unfolding deliver_message_def emitCompletedMessage_def
  by (rule hoare_bnd [OF hoare_bnd [OF grown_emit hoare_bnd [OF grown_emit grown_resolve]] grown_push])

lemma grown_begin: "hoare (grown mb nb xs) (begin_delivery H d) (\<lambda>_. grown mb nb xs) (\<lambda>_. True)"
  unfolding begin_delivery_def record_action_def
  by (intro hoare_option hoare_ret hoare_bnd [OF hoare_update grown_call]) (simp_all add: grown_def)

definition delivered :: "agent_loop_delivery option \<Rightarrow> agent_message list" where
  "delivered r = (case r of None \<Rightarrow> [] | Some d \<Rightarrow> al_messages d)"

lemma grown_emit_delivery:
  "hoare (grown mb nb xs) (emit_delivery H d) (\<lambda>r. grown mb nb (xs @ delivered r)) (\<lambda>_. True)"
proof -
  have none: "hoare (grown mb nb xs) (ret None) (\<lambda>r. grown mb nb (xs @ delivered r)) (\<lambda>_. True)"
    by (rule hoare_ret) (simp add: delivered_def)
  have committed: "hoare (grown mb nb xs) (bnd (emit H (DeliveryStart (al_deliveryId d) (al_messages d))) (\<lambda>_.
      bnd (for_each (deliver_message H (al_deliveryId d)) (al_messages d)) (\<lambda>finalizedMessages.
      ret (Some (d\<lparr>al_messages := finalizedMessages\<rparr>))))) (\<lambda>r. grown mb nb (xs @ delivered r)) (\<lambda>_. True)"
    by (rule hoare_bnd [OF grown_emit hoare_bnd [OF hoare_for_each_acc [OF grown_deliver] hoare_ret]])
      (simp add: delivered_def)
  have settled: "hoare (grown mb nb xs) (case st of
         OutcomeRevoked \<Rightarrow> ret None
       | OutcomeRetained e \<Rightarrow> raise (AgentDeliverySettlementError FailRetained (al_deliveryId d) e)
       | OutcomeTerminallyFailed e \<Rightarrow> raise (AgentDeliverySettlementError FailTerminally (al_deliveryId d) e)
       | OutcomeCommitted \<Rightarrow>
           bnd (emit H (DeliveryStart (al_deliveryId d) (al_messages d))) (\<lambda>_.
           bnd (for_each (deliver_message H (al_deliveryId d)) (al_messages d)) (\<lambda>finalizedMessages.
           ret (Some (d\<lparr>al_messages := finalizedMessages\<rparr>))))) (\<lambda>r. grown mb nb (xs @ delivered r)) (\<lambda>_. True)" for st
    using none committed by (cases st) (auto intro: hoare_raise)
  show ?thesis
    unfolding emit_delivery_def
    by (rule hoare_if_aborted [OF none hoare_pre [OF hoare_bnd [OF grown_begin settled]]]) simp
qed

lemma concat_delivered: "concat (map delivered rs) = concat (map al_messages (List.map_filter (\<lambda>r. r) rs))"
  by (induction rs) (auto simp: delivered_def map_filter_simps split: option.splits)

lemma grown_deliveries:
  "hoare (grown mb nb xs) (emitDeliveries H ds) (\<lambda>fs. grown mb nb (xs @ concat (map al_messages fs))) (\<lambda>_. True)"
  unfolding emitDeliveries_def
  by (rule hoare_bnd [OF hoare_for_each_acc [OF grown_emit_delivery] hoare_ret]) (simp add: concat_delivered)

section \<open>Which deliveries are reported\<close>

text \<open>A finalized delivery has the identity of the one it finalizes and a message of the same role for each.\<close>

definition finalizes :: "agent_loop_delivery \<Rightarrow> agent_loop_delivery \<Rightarrow> bool" where
  "finalizes d f \<longleftrightarrow>
     al_deliveryId f = al_deliveryId d \<and> map role (al_messages f) = map role (al_messages d)"

lemma resolve_role: "yields (resolveMessageReplacement m r) (\<lambda>a. role a = role m)"
  unfolding resolveMessageReplacement_def by (intro hoare_option hoare_if yields_ret yields_raise) simp_all

lemma deliver_role: "yields (deliver_message H d m) (\<lambda>a. role a = role m)"
proof -
  have push: "hoare (\<lambda>s. role a = role m) (bnd (push_message a) (\<lambda>_. bnd (push_new_message a) (\<lambda>_. ret a)))
      (\<lambda>x s. role x = role m) (\<lambda>_. True)" for a
    by (rule hoareI) (auto simp: bnd_def push_message_def push_new_message_def update_state_def ret_def)
  have "yields (emitCompletedMessage H m d) (\<lambda>a. role a = role m)"
    unfolding emitCompletedMessage_def by (intro yields_last resolve_role)
  then show ?thesis unfolding deliver_message_def by (rule hoare_bnd [OF _ push])
qed

lemma emit_delivery_finalizes: "yields (emit_delivery H d) (\<lambda>r. case r of None \<Rightarrow> True | Some f \<Rightarrow> finalizes d f)"
proof -
  let ?V = "\<lambda>r. case r of None \<Rightarrow> True | Some f \<Rightarrow> finalizes d f"
  have messages: "yields (for_each (deliver_message H (al_deliveryId d)) (al_messages d))
      (list_all2 (\<lambda>m a. role a = role m) (al_messages d))"
    by (rule yields_for_each) (rule deliver_role)
  have roles: "map role fs = map role ms" if "list_all2 (\<lambda>m a. role a = role m) ms fs" for ms fs
    using that by (induction rule: list_all2_induct) auto
  have committed: "yields (bnd (emit H e) (\<lambda>_.
      bnd (for_each (deliver_message H (al_deliveryId d)) (al_messages d)) (\<lambda>fs.
      ret (Some (d\<lparr>al_messages := fs\<rparr>))))) ?V" for e
    by (intro yields_last hoare_bnd [OF messages hoare_ret]) (simp add: finalizes_def roles)
  have "yields (case st of
         OutcomeRevoked \<Rightarrow> ret None
       | OutcomeRetained e \<Rightarrow> raise (AgentDeliverySettlementError FailRetained (al_deliveryId d) e)
       | OutcomeTerminallyFailed e \<Rightarrow> raise (AgentDeliverySettlementError FailTerminally (al_deliveryId d) e)
       | OutcomeCommitted \<Rightarrow>
           bnd (emit H (DeliveryStart (al_deliveryId d) (al_messages d))) (\<lambda>_.
           bnd (for_each (deliver_message H (al_deliveryId d)) (al_messages d)) (\<lambda>fs.
           ret (Some (d\<lparr>al_messages := fs\<rparr>))))) ?V" for st
    using committed by (cases st) (auto intro: yields_ret yields_raise)
  then show ?thesis
    unfolding emit_delivery_def by (intro yields_last hoare_if yields_ret) simp_all
qed

lemma finalized_subseq:
  assumes "list_all2 (\<lambda>d r. case r of None \<Rightarrow> True | Some f \<Rightarrow> finalizes d f) ds rs"
  shows "\<exists>cs. subseq cs ds \<and> list_all2 finalizes cs (List.map_filter (\<lambda>r. r) rs)"
  using assms
proof (induction rule: list_all2_induct)
  case (Cons d ds r rs)
  then obtain cs where cs: "subseq cs ds" "list_all2 finalizes cs (List.map_filter (\<lambda>r. r) rs)" by blast
  show ?case
  proof (cases r)
    case None
    with cs show ?thesis by (auto simp: map_filter_simps intro: subseq_Cons')
  next
    case (Some f)
    with cs Cons.hyps have "subseq (d # cs) (d # ds)" "list_all2 finalizes (d # cs) (List.map_filter (\<lambda>r. r) (r # rs))"
      by (simp_all add: map_filter_simps)
    then show ?thesis by blast
  qed
qed (simp add: map_filter_simps)

lemma emitDeliveries_finalizes:
  "yields (emitDeliveries H ds) (\<lambda>fs. \<exists>cs. subseq cs ds \<and> list_all2 finalizes cs fs)"
  unfolding emitDeliveries_def
  by (rule hoare_bnd [OF yields_for_each [OF emit_delivery_finalizes] hoare_ret]) (rule finalized_subseq)

end
