(* ===== verification/Agent_Correctness.thy ===== *)
theory Agent_Correctness
  imports Agent_Sample Agent_Deliveries
begin

text \<open>
  The properties of the agent loop and of the replay policy, over the lemmas of the theories before it.
\<close>

section \<open>The loop's lemmas for whole runs\<close>

text \<open>What an accepted trace says of its requests.\<close>

lemma monitor_requests:
  assumes "monitor_run K tr \<noteq> None" "(b, Requested md c) \<in> set tr"
  shows "\<not> b \<and> K c"
  using assms
proof (induction tr rule: rev_induct)
  case (snoc a tr)
  then obtain M where "monitor_run K tr = Some M" by (cases "monitor_run K tr") auto
  moreover obtain p m cs t where "M = Mon p m cs t" by (cases M)
  ultimately have M: "monitor_run K tr = Some (Mon p m cs t)" by simp
  from snoc.prems(2) consider "(b, Requested md c) \<in> set tr" | "a = (b, Requested md c)" by auto
  then show ?case
    using snoc M by cases (auto split: if_splits)
qed simp

text \<open>A converter that ends with the replay policy, as the conversation kernel's does.\<close>

definition replays :: "'h agent_host \<Rightarrow> bool" where
  "replays H \<longleftrightarrow> (\<forall>ms h llm h'. h_convertToLlm H ms h = (Inr llm, h') \<longrightarrow> (\<exists>x. llm = applyReplayPolicy x))"

definition valid_request :: "llm_context \<Rightarrow> bool" where
  "valid_request c \<longleftrightarrow>
     (list_all turn_ids_distinct (lc_messages c) \<longrightarrow>
        replay_valid [] (lc_messages c) \<and> \<not> assistant_tail (lc_messages c))"

text \<open>The policy keeps every completed turn, so turns with distinct IDs after it had them before it.\<close>

lemma replay_turns_distinct:
  assumes "list_all turn_ids_distinct (applyReplayPolicy ms)"
  shows "\<forall>m \<in> set ms. turn_ids_distinct m"
proof
  fix m
  assume m: "m \<in> set ms"
  have turns: "filter (\<lambda>m. \<not> is_tool_result m) (applyReplayPolicy ms) = concat (map replay_turn ms)"
    by (simp add: applyReplayPolicy_rest replay_rest_turns)
  show "turn_ids_distinct m"
  proof (cases m)
    case (ProviderAssistant a)
    have "distinct (map tc_id (tool_calls a))" if "turn_completed a"
    proof -
      have "m \<in> set (replay_turn m)" using that ProviderAssistant by simp
      with m have "m \<in> set (concat (map replay_turn ms))" by auto
      then have "m \<in> set (applyReplayPolicy ms)" unfolding turns [symmetric] by simp
      with assms that ProviderAssistant show ?thesis by (auto simp: list_all_iff)
    qed
    then show ?thesis using ProviderAssistant by simp
  qed simp_all
qed

lemma replayed_valid:
  assumes "\<not> assistant_tail (applyReplayPolicy x)"
    and d: "list_all turn_ids_distinct (applyReplayPolicy (applyReplayPolicy x))"
  shows "replay_valid [] (applyReplayPolicy (applyReplayPolicy x))
    \<and> \<not> assistant_tail (applyReplayPolicy (applyReplayPolicy x))"
proof -
  from replay_turns_distinct [OF d] have "\<forall>m \<in> set x. turn_ids_distinct m"
    by (intro replay_turns_distinct) (simp add: list_all_iff)
  then have "replay_valid [] (applyReplayPolicy x)" by (rule applyReplayPolicy_valid)
  with assms(1) show ?thesis by (simp add: applyReplayPolicy_fixed)
qed

lemma replays_valid: "replays H \<Longrightarrow> converts_to valid_request H"
  unfolding converts_to_def replays_def valid_request_def using replayed_valid by (metis llm_context.select_convs(2))

lemma run_cases:
  assumes "runAgentLoop fuel H prompts context md reasoning h = Some r
      \<or> runAgentLoopContinue fuel H context md reasoning h = Some r"
  obtains (start) action where "start_loop fuel H action (initial_state context md reasoning h) = Some r"
    | (empty) "r = (Inl NoMessagesError, initial_state context md reasoning h)"
  using assms by (auto simp: runAgentLoop_def runAgentLoopContinue_def split: if_splits)

lemma run_left_any:
  assumes "streams_start_once H" "converts_to K H"
    and "runAgentLoop fuel H prompts context md reasoning h = Some r
      \<or> runAgentLoopContinue fuel H context md reasoning h = Some r"
  shows "run_left K r"
  using assms(3)
proof (cases rule: run_cases)
  case (start action)
  then show ?thesis by (rule run_left_start [OF assms(1, 2), rotated]) (simp add: initial_state_def)
qed (simp add: run_left_def monitor_run_def initial_state_def)

text \<open>The transcript through a whole run.\<close>

lemma loop_keeps_transcript:
  assumes "tracks F" "streams_start_once H" "updates_track H F"
    and "F [] (ls_context s) (ls_newMessages s)" "runDispatchedLoop fuel H ctl s = Some (Inr (), s')"
  shows "F [] (ls_context s') (ls_newMessages s')"
  using assms(4, 5)
proof (induction fuel arbitrary: ctl s)
  case (Suc fuel)
  have host: "host_keeps H (\<lambda>_. True)" "option_keeps (\<lambda>_. True) (h_nextAction H)"
    by (simp_all add: host_keeps_def steps_keep_def option_keeps_def split: option.splits)
  from Suc.prems(2) obtain r s1 where d: "dispatch_turn H ctl s = (Inr r, s1)"
    by (auto split: prod.splits sum.splits)
  have "F [] (ls_context s1) (ls_newMessages s1)"
    using hoareD [OF track_dispatch [OF assms(1) host(1) assms(2, 3) host(2)] _ d] Suc.prems(1)
    by (simp add: holds_at_def)
  with Suc d show ?case by (cases r) auto
qed simp

lemma emit_start:
  assumes "emit H e s = (Inr a, s1)"
  shows "ls_context s1 = ls_context s" "ls_newMessages s1 = ls_newMessages s"
    "\<exists>x h. h_emit H e (ls_host s) = (x, h) \<and> ls_host s1 = h"
  using assms
  by (auto simp: emit_def bnd_def record_action_def update_state_def host_call_def split: prod.splits sum.splits)

lemma final_dispatch_value:
  assumes "ct_requestAuthority ctl = FinalResponseAuthority"
  shows "yields (dispatch_turn H ctl) after_final"
proof -
  have act: "yields (case final_action (ct_requestAuthority ctl) a of
      RequestAction reason ds \<Rightarrow> request_turn H c reason ds | _ \<Rightarrow> finish_loop H) after_final" for a c
    using assms by (cases a) (auto intro: final_turn_value finish_after_final)
  have boundary: "yields (finish_at_boundary H b) after_final" for b
    unfolding finish_at_boundary_def by (intro yields_last finish_after_final)
  show ?thesis unfolding dispatch_turn_def by (intro yields_last hoare_if boundary act)
qed

text \<open>A transcript with a turn that lacks a result and an aborted turn.\<close>

definition sample_history :: "provider_message list" where
  "sample_history =
     [ProviderUser (PlainText ''hello'') (Some 1) None, ProviderAssistant sample_calls,
      ProviderToolResult (synthetic_tool_result 9 \<lparr>tc_id = ''c2'', tc_name = ''finish'', tc_arguments = JNull,
        tc_thoughtSignature = None\<rparr>),
      ProviderAssistant (sample_answer\<lparr>a_stopReason := Aborted\<rparr>), ProviderUser (PlainText ''go on'') (Some 8) None]"

section \<open>Properties of the loop\<close>

text \<open>
  C9: the life cycle of a run. When every provider stream starts its message at most once, the trace of a
  run or a continuation is accepted by the monitor: \<open>agent_start\<close> comes first, turns, messages and tool
  executions open and close in their order, deliveries and provider requests are made and tools run only
  before an abort, every tool that runs was offered by the last request under the name the call uses, and
  a run that returns ended with \<open>agent_end\<close> and nothing left open. A run that throws was accepted too.
\<close>

theorem agent_run_lifecycle:
  assumes "streams_start_once H"
    and "runAgentLoop fuel H prompts context md reasoning h = Some r
      \<or> runAgentLoopContinue fuel H context md reasoning h = Some r"
  shows "run_left (\<lambda>_. True) r"
  using assms by (intro run_left_any) (simp_all add: converts_to_def)

theorem agent_run_lifecycle_witness:
  "\<exists>s. runAgentLoop 5 (sample_host None) [sample_user] sample_context sample_model None sample_start = Some (Inr (), s)
     \<and> length (ls_newMessages s) = 5 \<and> run_left (\<lambda>_. True) (Inr (), s)"
proof -
  obtain s where s: "runAgentLoop 5 (sample_host None) [sample_user] sample_context sample_model None sample_start
      = Some (Inr (), s)" "length (ls_newMessages s) = 5"
    by (simp add: agent_eval sample_eval replay_eval cong: bnd_weak_cong)
  with agent_run_lifecycle [OF sample_starts_once, where r = "(Inr (), s)"] show ?thesis by blast
qed

text \<open>
  C11: what a provider is sent. When the converter ends with the replay policy, as the kernel's does, every
  request of a run is made before an abort, and if the calls of each completed turn in it have different
  IDs, it is a transcript a provider accepts: each call is answered exactly once, directly after its turn,
  no result is without its call, no failed turn is replayed, and the last message is not an assistant's.
\<close>

theorem provider_requests_valid:
  assumes "streams_start_once H" "replays H"
    and "runAgentLoop fuel H prompts context md reasoning h = Some (v, s)"
    and "(b, Requested md' c) \<in> set (ls_trace s)"
  shows "\<not> b \<and> valid_request c"
proof -
  have "run_left valid_request (v, s)"
    by (rule run_left_any [OF assms(1) replays_valid [OF assms(2)]]) (use assms(3) in blast)
  then have "monitor_run valid_request (ls_trace s) \<noteq> None"
    by (auto simp: run_left_def split: sum.splits)
  then show ?thesis using assms(4) by (rule monitor_requests)
qed

theorem provider_requests_valid_witness:
  "\<exists>v s b md c. runAgentLoop 5 (sample_host None) [sample_user] sample_context sample_model None
       (sample_start\<lparr>sh_turn := 1\<rparr>) = Some (v, s)
     \<and> (b, Requested md c) \<in> set (ls_trace s) \<and> \<not> b \<and> valid_request c"
proof -
  have "\<exists>s b md c. runAgentLoop 5 (sample_host None) [sample_user] sample_context sample_model None
       (sample_start\<lparr>sh_turn := 1\<rparr>) = Some (Inr (), s) \<and> (b, Requested md c) \<in> set (ls_trace s)"
    by (simp add: agent_eval sample_eval replay_eval cong: bnd_weak_cong) blast
  then obtain s b md c where s: "runAgentLoop 5 (sample_host None) [sample_user] sample_context sample_model None
       (sample_start\<lparr>sh_turn := 1\<rparr>) = Some (Inr (), s)" "(b, Requested md c) \<in> set (ls_trace s)" by blast
  have "replays (sample_host None)" by (auto simp: replays_def sample_host_fields)
  from provider_requests_valid [OF sample_starts_once this s] s show ?thesis by blast
qed

text \<open>
  C10: tool batches are answered. When the abort signal latches, every turn the loop goes on from was completed by
  the provider and has exactly one result for each of its tool calls, in the order of the calls: the result made for
  that call, with its ID and tool name, or the tool result the host replaced that one with. It holds in sequential and
  in parallel mode and whatever the order in which the host resumes the running calls.
\<close>

theorem turn_fully_answered:
  assumes "abort_latched H" and "dispatch_turn H ctl s = (Inr (NextTurn ctl'), s')"
  shows "\<exists>t. ct_completedTurn ctl' = Some t \<and> turn_completed (lt_message t)
    \<and> list_all2 (\<lambda>c result. \<exists>made. t_toolCallId made = tc_id c \<and> t_toolName made = tc_name c
        \<and> (result = made \<or> (\<exists>h h'. h_emit H (MessageEnd (tool_result made) None) h = (Inr (Some (tool_result result)), h'))))
      (tool_calls (lt_message t)) (lt_toolResults t)"
  using hoareD [OF dispatch_value [OF assms(1)] _ assms(2)]
  by (simp add: continues_answered_def answered_turn_def answers_def [abs_def] replaces_def)

theorem turn_fully_answered_witness:
  "\<exists>ctl s t. dispatch_turn (sample_host None) (initial_control (RequestAction ContinuationReason None))
       (initial_state (sample_context\<lparr>ac_messages := [sample_user]\<rparr>) sample_model None sample_start)
       = (Inr (NextTurn ctl), s)
     \<and> ct_completedTurn ctl = Some t \<and> turn_completed (lt_message t)
     \<and> map t_toolCallId (lt_toolResults t) = map tc_id (tool_calls (lt_message t)) \<and> length (lt_toolResults t) = 2"
proof -
  let ?run = "dispatch_turn (sample_host None) (initial_control (RequestAction ContinuationReason None))
       (initial_state (sample_context\<lparr>ac_messages := [sample_user]\<rparr>) sample_model None sample_start)"
  have "\<exists>ctl s t. ?run = (Inr (NextTurn ctl), s) \<and> ct_completedTurn ctl = Some t \<and> length (tool_calls (lt_message t)) = 2"
    by (simp add: agent_eval sample_eval replay_eval cong: bnd_weak_cong)
  then obtain ctl s t where d: "?run = (Inr (NextTurn ctl), s)" and t: "ct_completedTurn ctl = Some t"
    and calls: "length (tool_calls (lt_message t)) = 2" by blast
  have all: "turn_completed (lt_message t) \<and> list_all2 (\<lambda>c result. t_toolCallId result = tc_id c)
      (tool_calls (lt_message t)) (lt_toolResults t)"
    using turn_fully_answered [OF sample_latched d] t by (auto simp: sample_host_fields elim: list.rel_mono_strong)
  then have "map t_toolCallId (lt_toolResults t) = map tc_id (tool_calls (lt_message t))" "length (lt_toolResults t) = 2"
    using calls by (auto simp: list_all2_conv_all_nth intro: nth_equalityI)
  with all d t show ?thesis by blast
qed

text \<open>
  C13: the transcript is accounted for. A run that returns leaves in its context the messages it was given followed
  by exactly the messages it returns: partial responses, replaced messages, tool results and abort markers included.
  Where the request preparation replaces the context, it leaves the messages of a context the preparation returns for
  a call with the first of the new messages, followed by exactly the rest of them.
\<close>

theorem transcript_accounted:
  assumes "streams_start_once H"
    and "runAgentLoop fuel H prompts context md reasoning h = Some (Inr (), s)"
  shows "\<exists>base old added. ac_messages (ls_context s) = base @ added \<and> ls_newMessages s = old @ added
    \<and> (base = ac_messages context \<and> old = []
       \<or> (\<exists>f x h u h' c. h_prepareRequest H = Some f \<and> nc_newMessages x = old \<and> f x h = (Inr (Some u), h')
            \<and> ru_context u = Some c \<and> ac_messages c = base))"
proof -
  let ?F = "accounted H (ac_messages context)" and ?s = "initial_state context md reasoning h"
  from assms(2) obtain a s1 where e: "emit H AgentStart ?s = (Inr a, s1)"
    and l: "runDispatchedLoop fuel H (initial_control (prompt_action prompts)) s1 = Some (Inr (), s)"
    by (auto simp: runAgentLoop_def start_loop_def split: prod.splits sum.splits)
  have "?F [] (ls_context s1) (ls_newMessages s1)"
    using emit_start(1, 2) [OF e] by (auto simp: accounted_def initial_state_def)
  from loop_keeps_transcript [OF tracks_accounted assms(1) updates_accounted this l]
  show ?thesis by (simp add: accounted_def prepared_context_def)
qed

theorem transcript_accounted_witness:
  "\<exists>s. runAgentLoop 5 (sample_host None) [sample_user] sample_context sample_model None (sample_start\<lparr>sh_turn := 1\<rparr>)
       = Some (Inr (), s)
     \<and> ac_messages (ls_context s) = ac_messages sample_context @ ls_newMessages s \<and> length (ls_newMessages s) = 2"
proof -
  have "\<exists>s. runAgentLoop 5 (sample_host None) [sample_user] sample_context sample_model None (sample_start\<lparr>sh_turn := 1\<rparr>)
       = Some (Inr (), s) \<and> length (ls_newMessages s) = 2"
    by (simp add: agent_eval sample_eval replay_eval cong: bnd_weak_cong)
  then obtain s where s: "runAgentLoop 5 (sample_host None) [sample_user] sample_context sample_model None
       (sample_start\<lparr>sh_turn := 1\<rparr>) = Some (Inr (), s)" "length (ls_newMessages s) = 2" by blast
  have "ac_messages (ls_context s) = ac_messages sample_context @ ls_newMessages s"
    using transcript_accounted [OF sample_starts_once s(1)] by (auto simp: sample_host_fields)
  with s show ?thesis by blast
qed

text \<open>
  C12: the loop returns. When no host call raises a request budget \<open>b\<close> and every request the dispatcher asks
  for lowers it, a run returns, or throws, within twice the budget and one more turns: a final response the
  loop adds by itself is followed by no second one.
\<close>

theorem agent_loop_returns:
  assumes "request_budget H b" "streams_start_once H" "2 * b h < fuel"
  shows "\<exists>r. runAgentLoop fuel H prompts context md reasoning h = Some r"
proof -
  let ?s = "initial_state context md reasoning h" and ?ctl = "initial_control (prompt_action prompts)"
  obtain v s1 where e: "emit H AgentStart ?s = (v, s1)" by (cases "emit H AgentStart ?s")
  show ?thesis
  proof (cases v)
    case (Inr a)
    with e have e': "emit H AgentStart ?s = (Inr a, s1)" by simp
    have "host_keeps H (\<lambda>x. b x \<le> b h)" using assms(1) by (simp add: request_budget_def)
    then have "b (ls_host s1) \<le> b h"
      using hoareD [OF keeps_emit _ e', of "\<lambda>x. b x \<le> b h" "\<lambda>_ _. True"] by (simp add: holds_at_def initial_state_def)
    then have "turn_budget b ?ctl (ls_host s1) < fuel"
      using assms(3) by (simp add: turn_budget_def initial_control_def)
    from loop_returns [OF assms(1, 2) this] show ?thesis
      using e' by (simp add: runAgentLoop_def start_loop_def)
  qed (use e in \<open>simp add: runAgentLoop_def start_loop_def\<close>)
qed

theorem agent_loop_returns_witness:
  "\<exists>r. runAgentLoop 11 (sample_host (Some FinalResponseTools)) [sample_user] sample_context sample_model None sample_start
     = Some r"
  by (rule agent_loop_returns [OF sample_budget sample_starts_once]) (simp add: sample_start_def)

text \<open>
  C14: a final response is one tool-free request. When the tools of a turn asked for the final response, the turn the
  loop goes on with logs events and requests without tools only: it begins no delivery, runs no tool, and whatever
  the host decides it goes on, if it does, with the provider's ordinary authority and the default to stop.
\<close>

theorem final_response_tool_free:
  assumes "dispatch_turn H ctl0 s0 = (Inr (NextTurn ctl), s)"
    and "ct_completedTurn ctl = Some t" "lt_disposition t = BatchFinalResponse"
    and "dispatch_turn H ctl s = (r, s')"
  shows "\<exists>d. ls_trace s' = ls_trace s @ d \<and> list_all (\<lambda>a. tool_free (snd a)) d
    \<and> (case r of Inl _ \<Rightarrow> True | Inr LoopFinished \<Rightarrow> True
        | Inr (NextTurn ctl') \<Rightarrow> ct_requestAuthority ctl' = ProviderAuthority \<and> ct_defaultAction ctl' = StopAction)"
proof -
  have final: "ct_requestAuthority ctl = FinalResponseAuthority"
    using hoareD [OF dispatch_asks_final _ assms(1)] assms(2,3) by (simp add: asks_final_def)
  have start: "logs tool_free (ls_trace s) s" by (simp add: logs_def)
  have "logs tool_free (ls_trace s) s'"
    using hoareD [OF only_final_dispatch [OF final] start] hoareD_error [OF only_final_dispatch [OF final] start]
      assms(4) by (cases r) blast+
  moreover have "case r of Inl _ \<Rightarrow> True | Inr LoopFinished \<Rightarrow> True
      | Inr (NextTurn ctl') \<Rightarrow> ct_requestAuthority ctl' = ProviderAuthority \<and> ct_defaultAction ctl' = StopAction"
  proof (cases r)
    case (Inr out)
    with hoareD [OF final_dispatch_value [OF final]] assms(4) have "after_final out" by blast
    with Inr show ?thesis by (simp add: after_final_def)
  qed simp
  ultimately show ?thesis unfolding logs_def by blast
qed

theorem final_response_tool_free_witness:
  "\<exists>ctl s t r s' d. dispatch_turn (sample_host (Some FinalResponseTools)) (initial_control (RequestAction ContinuationReason None))
       (initial_state (sample_context\<lparr>ac_messages := [sample_user]\<rparr>) sample_model None sample_start) = (Inr (NextTurn ctl), s)
     \<and> ct_completedTurn ctl = Some t \<and> lt_disposition t = BatchFinalResponse
     \<and> dispatch_turn (sample_host (Some FinalResponseTools)) ctl s = (r, s')
     \<and> ls_trace s' = ls_trace s @ d \<and> list_all (\<lambda>a. tool_free (snd a)) d"
proof -
  let ?H = "sample_host (Some FinalResponseTools)"
  let ?run = "dispatch_turn ?H (initial_control (RequestAction ContinuationReason None))
       (initial_state (sample_context\<lparr>ac_messages := [sample_user]\<rparr>) sample_model None sample_start)"
  have "\<exists>ctl s t. ?run = (Inr (NextTurn ctl), s) \<and> ct_completedTurn ctl = Some t \<and> lt_disposition t = BatchFinalResponse"
    by (simp add: agent_eval sample_eval replay_eval cong: bnd_weak_cong)
  then obtain ctl s t where d: "?run = (Inr (NextTurn ctl), s)" and t: "ct_completedTurn ctl = Some t"
    "lt_disposition t = BatchFinalResponse" by blast
  obtain r s' where d': "dispatch_turn ?H ctl s = (r, s')" by (cases "dispatch_turn ?H ctl s")
  from final_response_tool_free [OF d t d'] d t d' show ?thesis by blast
qed

text \<open>
  C15: deliveries. A delivery step that returns reports some of the given deliveries in their order, each
  with its identity and a message of the same role for each of its messages, and adds exactly their
  messages to the context and to the new messages: a delivery it skipped adds nothing, and one it reports
  is in the transcript whole.
\<close>

theorem deliveries_enter_transcript:
  assumes "emitDeliveries H ds s = (Inr fs, s')"
  shows "ac_messages (ls_context s') = ac_messages (ls_context s) @ concat (map al_messages fs)
    \<and> ls_newMessages s' = ls_newMessages s @ concat (map al_messages fs)
    \<and> (\<exists>cs. subseq cs ds \<and> list_all2 finalizes cs fs)"
proof -
  have "\<exists>cs. subseq cs ds \<and> list_all2 finalizes cs fs"
    using hoareD [OF emitDeliveries_finalizes _ assms] by simp
  moreover have "grown (ac_messages (ls_context s)) (ls_newMessages s) (concat (map al_messages fs)) s'"
    using hoareD [OF grown_deliveries [of "ac_messages (ls_context s)" "ls_newMessages s" "[]"] _ assms]
    by (simp add: grown_def)
  ultimately show ?thesis by (simp add: grown_def)
qed

theorem deliveries_enter_transcript_witness:
  "\<exists>fs s'. emitDeliveries (sample_host None)
       [\<lparr>al_deliveryId = Some ''revoked'', al_messages = [sample_user, sample_user]\<rparr>,
        \<lparr>al_deliveryId = Some ''d2'', al_messages = [sample_user]\<rparr>]
       (initial_state sample_context sample_model None sample_start) = (Inr fs, s')
     \<and> map al_deliveryId fs = [Some ''d2''] \<and> ac_messages (ls_context s') = concat (map al_messages fs)"
proof -
  let ?ds = "[\<lparr>al_deliveryId = Some ''revoked'', al_messages = [sample_user, sample_user]\<rparr>,
        \<lparr>al_deliveryId = Some ''d2'', al_messages = [sample_user]\<rparr>]"
  let ?s = "initial_state sample_context sample_model None sample_start"
  have "\<exists>fs s'. emitDeliveries (sample_host None) ?ds ?s = (Inr fs, s') \<and> map al_deliveryId fs = [Some ''d2'']"
    by (simp add: agent_eval sample_eval cong: bnd_weak_cong)
  then obtain fs s' where d: "emitDeliveries (sample_host None) ?ds ?s = (Inr fs, s')"
    "map al_deliveryId fs = [Some ''d2'']" by (elim exE conjE) (rule that)
  have "ac_messages (ls_context ?s) = []" by (simp add: initial_state_def sample_context_def)
  with deliveries_enter_transcript [OF d(1)] d show ?thesis by auto
qed

section \<open>Properties of the replay policy\<close>

text \<open>
  C16: what the policy returns. When the calls of each completed turn have different IDs the output is valid:
  every call of a completed turn is answered exactly once, directly after the turn, nothing else is a
  result, and failed turns are gone. Apart from results the output is the input's user messages and
  completed turns in order, with the feedback of a rejected turn in the turn's place.
\<close>

theorem replay_output_valid:
  assumes "\<forall>m \<in> set ms. turn_ids_distinct m"
  shows "replay_valid [] (applyReplayPolicy ms)
    \<and> filter (\<lambda>m. \<not> is_tool_result m) (applyReplayPolicy ms) = concat (map replay_turn ms)"
  using applyReplayPolicy_valid [OF assms] by (simp add: applyReplayPolicy_rest replay_rest_turns)

theorem replay_output_valid_witness:
  "replay_valid [] (applyReplayPolicy sample_history) \<and> length (applyReplayPolicy sample_history) = 5"
proof -
  have "\<forall>m \<in> set sample_history. turn_ids_distinct m" by code_simp
  with replay_output_valid have "replay_valid [] (applyReplayPolicy sample_history)" by blast
  moreover have "length (applyReplayPolicy sample_history) = 5" by code_simp
  ultimately show ?thesis ..
qed

text \<open>
  C17: the policy is idempotent. Applying it to its own output changes nothing when the calls of each
  completed turn have different IDs, and a transcript a provider accepts is left as it is.
\<close>

theorem replay_idempotent:
  assumes "\<forall>m \<in> set ms. turn_ids_distinct m"
  shows "applyReplayPolicy (applyReplayPolicy ms) = applyReplayPolicy ms"
  by (rule applyReplayPolicy_fixed [OF applyReplayPolicy_valid [OF assms]])

theorem replay_idempotent_witness:
  "applyReplayPolicy (applyReplayPolicy sample_history) = applyReplayPolicy sample_history
   \<and> applyReplayPolicy sample_history \<noteq> sample_history"
proof -
  have "\<forall>m \<in> set sample_history. turn_ids_distinct m" by code_simp
  with replay_idempotent have "applyReplayPolicy (applyReplayPolicy sample_history) = applyReplayPolicy sample_history"
    by blast
  moreover have "applyReplayPolicy sample_history \<noteq> sample_history" by code_simp
  ultimately show ?thesis ..
qed

section \<open>Where the code departs from its comments\<close>

text \<open>
  A turn with two calls of the same ID and no result gets two synthetic results, of which a second
  application keeps one: without distinct IDs the policy is not idempotent.
\<close>

lemma replay_duplicate_ids:
  "\<exists>ms. applyReplayPolicy (applyReplayPolicy ms) \<noteq> applyReplayPolicy ms"
proof
  let ?m = "ProviderAssistant (sample_response ToolUse
      [AToolCall ''c'' ''read'' JNull None, AToolCall ''c'' ''read'' JNull None])"
  have "length (applyReplayPolicy (applyReplayPolicy [?m])) = 2" "length (applyReplayPolicy [?m]) = 3" by code_simp+
  then show "applyReplayPolicy (applyReplayPolicy [?m]) \<noteq> applyReplayPolicy [?m]" by force
qed

text \<open>
  The loop checks the provider's tail before it applies the policy: with a converter that does not replay,
  a transcript that ends with a result of no call passes the check and its request ends with an assistant.
\<close>

lemma tail_check_before_replay:
  "\<exists>ms. \<not> assistant_tail ms \<and> assistant_tail (applyReplayPolicy ms)"
proof
  let ?ms = "[ProviderUser (PlainText ''hello'') (Some 1) None, ProviderAssistant sample_answer,
      ProviderToolResult (synthetic_tool_result 9 \<lparr>tc_id = ''x'', tc_name = ''read'', tc_arguments = JNull,
        tc_thoughtSignature = None\<rparr>)]"
  show "\<not> assistant_tail ?ms \<and> assistant_tail (applyReplayPolicy ?ms)" by code_simp
qed

end
