(* ===== verification/Spec2Isabelle.thy ===== *)
theory Spec2Isabelle
  imports Fold_Correctness Kernel_Correctness Delivery_Inbox Coordinator_Correctness
    Bounded_Snapshot Sqlite_Correctness Agent_Correctness
begin

text \<open>
  A verification of the conversation core of Volt: the log of a conversation, the fold that gives it meaning, the
  kernel that writes it, the store that keeps it, the clients that follow it, and the agent loop that produces its
  messages.

  \<^bold>\<open>The program.\<close> A conversation is an append-only log of entries: messages, the lifecycle of client inputs, work
  items, compactions, labels, moves of the leaf. Everything else is derived from it. The kernel folds the log into
  the conversation's state and commits batches of new entries to it, one at a time; the log persists them in a
  SQLite session store, which keeps rows derived from the entries beside them; a server projects the entries to
  the clients that subscribe, and each client folds what it receives. A coordinator decides which operation may
  run, and an inbox holds the deliveries that wait for a turn. A turn itself is the agent loop's: it takes
  deliveries into its context, asks the provider for a response, runs the tools the response calls and asks again
  until its dispatcher stops, emitting an event for everything it does; the replay policy decides which messages of
  the transcript a provider is sent.

  \<^bold>\<open>Conventions.\<close> \<^verbatim>\<open>Volt_Prelude\<close> has the shared vocabulary: a function that throws returns a sum with \<open>Inl\<close> for the
  error (\<open>res_bind\<close>, \<open>res_fold\<close>), a \<^verbatim>\<open>Map\<close> is \<open>js_map\<close>, an association list in insertion order, and \<open>replay_fold\<close> is
  the locale of folds with snapshots. Interfaces are records, unions are datatypes, promises and callbacks are
  explicit steps on a state. Ordinals and counts are naturals, byte counts and times are integers.

  \<^bold>\<open>Theories and sources.\<close> Paths are under \<^verbatim>\<open>src/packages\<close>.

  \<^item> \<^verbatim>\<open>Entries\<close>, \<^verbatim>\<open>Entry_Json\<close>: entries, payloads and messages (\<^verbatim>\<open>protocol/src/entries.ts\<close>, \<^verbatim>\<open>ai/src/schemas.ts\<close>), and the
    JSON of a draft.
  \<^item> \<^verbatim>\<open>Conversation_Log\<close>: the contract of a log (\<^verbatim>\<open>agent/src/conversation/log.ts\<close>) as the locale \<open>conversation_log\<close>, with
    \<open>certain_log\<close> for a log that always knows what it committed, and the in-memory log (\<^verbatim>\<open>in-memory-log.ts\<close>).
  \<^item> \<^verbatim>\<open>Work_Items\<close>, \<^verbatim>\<open>Messages\<close>, \<^verbatim>\<open>Conversation_Fold\<close>: the reducer of work, the runtime messages, and the fold
    (\<^verbatim>\<open>work.ts\<close>, \<^verbatim>\<open>messages.ts\<close>, \<^verbatim>\<open>fold.ts\<close>). \<^verbatim>\<open>Fold_Tree\<close>, \<^verbatim>\<open>Fold_Branch\<close>, \<^verbatim>\<open>Fold_Inputs\<close>, \<^verbatim>\<open>Fold_Work\<close> and \<^verbatim>\<open>Fold_Snapshot\<close> are
    its invariant, \<^verbatim>\<open>Fold_Correctness\<close> its properties: snapshots resume, the incremental branch is the derived one,
    the parent walks end, the tree and its children lists are the log's, inputs and work are settled once. Every error
    of \<^verbatim>\<open>fold.ts\<close> is thrown with the entry being applied, so \<open>apply_entry\<close> adds it in one place.
  \<^item> \<^verbatim>\<open>Kernel_Commit\<close>, \<^verbatim>\<open>Kernel_Operations\<close>, \<^verbatim>\<open>Kernel_Correctness\<close>: the commit lane, opening, and the batches of the
    operations (\<^verbatim>\<open>conversation.ts\<close>) over any log of the contract. A commit is atomic and the state is always the fold
    of the log.
  \<^item> \<^verbatim>\<open>Delivery_Inbox\<close>: the inbox and its leases (\<^verbatim>\<open>agent/src/delivery-inbox.ts\<close>); nothing is delivered twice.
  \<^item> \<^verbatim>\<open>Coordinator\<close>, \<^verbatim>\<open>Coordinator_Invariant\<close>, \<^verbatim>\<open>Coordinator_Correctness\<close>: operations, activities and the admission gate
    (\<^verbatim>\<open>coordinator.ts\<close>, \<^verbatim>\<open>admission-gate.ts\<close>) under any order of calls.
  \<^item> \<^verbatim>\<open>Json_Text\<close>, \<^verbatim>\<open>Session_Projection\<close>, \<^verbatim>\<open>Session_Store\<close>, \<^verbatim>\<open>Sqlite_Log\<close>: the derived rows of a session
    (\<^verbatim>\<open>coding-agent/src/core/session-store/projection.ts\<close>), the store's worker (\<^verbatim>\<open>worker.ts\<close>) and the log over it
    (\<^verbatim>\<open>conversation-log/sqlite-conversation-log.ts\<close>). \<^verbatim>\<open>Derived_State\<close>, \<^verbatim>\<open>Store_Invariant\<close>, \<^verbatim>\<open>Sqlite_Contract\<close>, \<^verbatim>\<open>Store_Life\<close>,
    \<^verbatim>\<open>Store_Agreement\<close> and \<^verbatim>\<open>Transaction_Check\<close> lead to \<^verbatim>\<open>Sqlite_Correctness\<close>: appends are exactly-once under any fault,
    what the store wrote always opens again, conversations survive crashes, the rows agree with the fold, and the
    worker's bounded check refuses nothing the log prepared.
  \<^item> \<^verbatim>\<open>Client_Fold\<close>, \<^verbatim>\<open>Client_Snapshot\<close>: the client's fold (\<^verbatim>\<open>protocol/src/client-fold.ts\<close>). \<^verbatim>\<open>Projection\<close>: what the server sends
    of an entry (\<^verbatim>\<open>coding-agent/src/core/protocol\<close>). \<^verbatim>\<open>Client_Agreement\<close>, \<^verbatim>\<open>Client_Inputs\<close>, \<^verbatim>\<open>Client_Work\<close>, \<^verbatim>\<open>Client_Correctness\<close>: a
    client of the projection knows what the kernel's fold says. \<^verbatim>\<open>Bounded_Snapshot\<close>: the same from a bounded snapshot.
  \<^item> \<^verbatim>\<open>Subscription\<close>, \<^verbatim>\<open>Subscription_Invariant\<close>, \<^verbatim>\<open>Subscription_Live\<close>, \<^verbatim>\<open>Subscription_Correctness\<close>: the writer of one
    subscription (\<^verbatim>\<open>protocol/server/subscription.ts\<close>) in any interleaving with commits and live updates, and its attachment to
    the live state (\<open>attach\<close>, \<open>deliver\<close> of \<^verbatim>\<open>host/live-state.ts\<close>): what it sends, how much it queues, and how it stays
    attached through replacements.
  \<^item> \<^verbatim>\<open>Replay_Policy\<close>: the replay policy, the feedback for rejected tool calls and the context builder
    (\<^verbatim>\<open>ai/src/replay-policy.ts\<close>, \<^verbatim>\<open>ai/src/stream/invalid-tool-arguments.ts\<close>, \<^verbatim>\<open>agent/src/conversation/context.ts\<close>).
  \<^item> \<^verbatim>\<open>Agent_Host\<close>, \<^verbatim>\<open>Agent_Loop\<close>: the loop's types with its host (\<^verbatim>\<open>agent/src/types.ts\<close>) and the loop
    (\<^verbatim>\<open>agent/src/agent-loop.ts\<close>), one definition per function and \<open>runDispatchedLoop\<close> cut at its phases. \<^verbatim>\<open>Agent_Hoare\<close> has
    triples for its actions; \<^verbatim>\<open>Agent_Monitor\<close>, \<^verbatim>\<open>Agent_Parallel\<close> and \<^verbatim>\<open>Agent_Lifecycle\<close> show that a monitor of the life cycle
    accepts every trace, parallel batches in any interleaving included; \<^verbatim>\<open>Agent_Results\<close> follows the transcript,
    \<^verbatim>\<open>Agent_Answers\<close> the results of a batch, \<^verbatim>\<open>Agent_Deliveries\<close> what deliveries add and \<^verbatim>\<open>Agent_Termination\<close> the number of
    turns. \<^verbatim>\<open>Agent_Correctness\<close> has the properties, \<^verbatim>\<open>Agent_Sample\<close> the host of their witnesses.
  \<^item> \<^verbatim>\<open>Sample_Log\<close>: the concrete log of the witnesses.

  \<^bold>\<open>Interfaces.\<close> The kernel's lemmas are proved in the locale \<open>conversation_log\<close> and reach the program through its two
  interpretations, \<open>mem\<close> and \<open>sq\<close>; \<open>replay_fold\<close> is interpreted on the kernel's fold and on the client's.

  \<^bold>\<open>Bounds and fuel.\<close> \<open>read_log\<close>, the read loop of opening, takes fuel, and one more than the log's length is enough;
  the walks along parents (\<open>walk_up\<close>, \<open>kept_walk\<close>) take the number of entries, which no path without a repetition
  exceeds; \<open>drain_all\<close> runs a pump that nothing interrupts, and a step per queued
  frame and two more are enough. \<open>runDispatchedLoop\<close> takes the number of turns it may run, since a dispatcher may ask
  for requests forever; with a request budget twice the budget and one are enough. \<open>interleave_calls\<close> takes the
  number of resumptions its calls still need, which is exactly what they use.

  \<^bold>\<open>Parameters.\<close> \<open>createId\<close>, the supply of ids, with the hypothesis that ids do not repeat. \<open>store_env\<close>: the digests of
  payloads and inputs, the field checks of the entry codec, the length checks of the tables and the canonical form
  of a directory, with the hypotheses \<open>env_ok\<close>. \<open>fault\<close>: what a request to the store's worker meets, any sequence of
  them. \<open>bytes\<close>: the size of a live frame. \<open>agent_host\<close>: the callbacks, the event sink, the provider
  stream, the tools, the clock, the abort signal and the order in which running tool calls resume, as functions over
  a host state of any type, so that every way the awaited calls can resolve is one of its instances. The properties
  of the loop that rely on the host name what they use: \<open>streams_start_once\<close> (a provider stream has one start event),
  \<open>abort_latched\<close> (an aborted signal stays aborted), \<open>replays\<close> (the converter ends with the replay policy), \<open>request_budget\<close> (the dispatcher asks for finitely many
  requests).

  \<^bold>\<open>Steps.\<close> What interleaves does so between the steps of the model. An append to the SQLite log is one step, so
  \<open>close\<close> and \<open>read\<close> during an append in flight are outside it; so is a coordinator call, so listeners of the phase or of
  an abort that call back into the coordinator are; a round of a subscription's pump is one step, so an end that
  \<open>sink.send\<close> calls between two entries of one round is. In a parallel batch the updates of a tool come after the
  start of every call, and an emit that throws inside \<open>onUpdate\<close> is not covered.

  \<^bold>\<open>Not modelled.\<close> Providers and tools, whose steps are decided by models and processes; of the agent loop, the
  event stream the callers may wrap it in, a host that changes the context object behind the loop's back, and what the
  other calls of a parallel batch still do after one of them made the batch throw;
  the terminal UI and the interactive mode, which present state and read keys; the daemon, pairing and transport;
  review runs; package management. Of the store, listing, search, audit and schema migration, which only read or
  rewrite tables; the constraints of the SQL schema are a parameter, the predicate \<open>env_sqlAccepts\<close> of a transaction's
  input. Strings are of characters below 256, so \<open>utf8_length\<close> knows one and two byte sequences only. Of the kernel,
  its hooks of the agent loop, retries and compaction; of the server, intents, and of the live state everything but
  attaching, detaching and delivering, closing it included. Copy-on-write sharing and freezing in the folds are not
  observable and are left out.
\<close>

end
